(* ===== verification/Prelude.thy ===== *)
theory Prelude
  imports Main "HOL-Library.Word"
begin

text \<open>
  Shared vocabulary of the development: the fixed-width integers of the C code, the outcomes a
  kernel routine can have, the combinators that C statement sequences are translated to, checked
  array accesses, and the counting loops the kernel uses to walk its tables.
\<close>

unbundle bit_operations_syntax

section \<open>Machine integers\<close>

type_synonym u8 = "8 word"
type_synonym u16 = "16 word"
type_synonym u32 = "32 word"

lemma u8_succ: "unat (i + 1) = Suc (unat i)" if "i \<noteq> 255" for i :: u8
proof -
  have "1 + i \<noteq> 0"
  proof
    assume "1 + i = 0"
    then have "i = - 1" by (simp only: eq_neg_iff_add_eq_0 add.commute)
    with that show False by simp
  qed
  then have "unat (1 + i) = Suc (unat i)" by (rule unatSuc)
  then show ?thesis by (simp only: add.commute)
qed

lemma u8_unat_less: "unat i < 256" for i :: u8
  using unsigned_less [of i, where ?'a = nat] by simp

lemma u8_not_max_iff: "i \<noteq> 255 \<longleftrightarrow> unat i < 255" for i :: u8
proof -
  have "i = 255 \<longleftrightarrow> unat i = 255"
    by (simp add: word_unat_eq_iff)
  then show ?thesis using u8_unat_less [of i] by linarith
qed

lemma u8_unat_of_nat: "n < 256 \<Longrightarrow> unat (of_nat n :: u8) = n"
  by (simp add: unat_of_nat)

lemma u8_of_nat_eq_iff: "m < 256 \<Longrightarrow> n < 256 \<Longrightarrow> (of_nat m :: u8) = of_nat n \<longleftrightarrow> m = n"
  by (metis u8_unat_of_nat)

lemma max_index_unat:
  fixes n :: nat
  assumes "0 < n" and "n \<le> 255"
  shows "Suc (unat (of_nat n - 1 :: u8)) = n" and "(of_nat n - 1 :: u8) \<noteq> 255"
proof -
  have e: "(of_nat n - 1 :: u8) = of_nat (n - 1)"
    using assms by (simp add: of_nat_diff)
  have u: "unat (of_nat n - 1 :: u8) = n - 1"
    unfolding e using assms by (intro u8_unat_of_nat) simp
  then show "Suc (unat (of_nat n - 1 :: u8)) = n" using assms by simp
  show "(of_nat n - 1 :: u8) \<noteq> 255" using u assms by (simp only: u8_not_max_iff)
qed

lemma u16_of_u32_add: "(ucast (a + b :: u32) :: u16) = ucast a + ucast b"
  using mod_mod_cancel [of 65536 4294967296 "unat a + unat b"]
  by (simp add: word_unat_eq_iff unsigned_ucast_eq unat_word_ariths take_bit_eq_mod mod_simps)

lemma u16_of_u32_nat: "(ucast (of_nat n :: u32) :: u16) = of_nat n"
  using mod_mod_cancel [of 65536 4294967296 n]
  by (simp add: word_unat_eq_iff unsigned_ucast_eq unat_of_nat take_bit_eq_mod mod_simps)

section \<open>Outcomes of kernel code\<close>

text \<open>
  A routine either returns, or it calls the application's \<open>fatal_error\<close> function, which never
  returns (\<open>Fatal\<close>), or it accesses an array outside its bounds, which C leaves undefined
  (\<open>Out_Of_Bounds\<close>), or it stays in a loop forever (\<open>Diverges\<close>).
\<close>

datatype failure = Fatal u8 | Out_Of_Bounds | Diverges

type_synonym ('k, 'a) kop = "'k \<Rightarrow> failure + 'a \<times> 'k"

definition kreturn :: "'a \<Rightarrow> ('k, 'a) kop" where
  "kreturn a k = Inr (a, k)"

definition kfail :: "failure \<Rightarrow> ('k, 'a) kop" where
  "kfail e k = Inl e"

definition kbind :: "('k, 'a) kop \<Rightarrow> ('a \<Rightarrow> ('k, 'b) kop) \<Rightarrow> ('k, 'b) kop" where
  "kbind m f k = (case m k of Inl e \<Rightarrow> Inl e | Inr (a, k') \<Rightarrow> f a k')"

definition kgets :: "('k \<Rightarrow> 'a) \<Rightarrow> ('k, 'a) kop" where
  "kgets f k = Inr (f k, k)"

definition kmodify :: "('k \<Rightarrow> 'k) \<Rightarrow> ('k, unit) kop" where
  "kmodify f k = Inr ((), f k)"

definition kwhen :: "bool \<Rightarrow> ('k, unit) kop \<Rightarrow> ('k, unit) kop" where
  "kwhen b m = (if b then m else kreturn ())"

primrec kseq :: "('k, unit) kop list \<Rightarrow> ('k, unit) kop" where
  "kseq [] = kreturn ()"
| "kseq (m # ms) = kbind m (\<lambda>_. kseq ms)"

named_theorems kop_defs \<open>definitions of the combinators, to run a routine symbolically\<close>

declare kreturn_def [kop_defs] kfail_def [kop_defs] kbind_def [kop_defs] kgets_def [kop_defs]
  kmodify_def [kop_defs] kwhen_def [kop_defs]

lemma kbind_eq_Inr:
  "kbind m f k = Inr r \<longleftrightarrow> (\<exists>a k'. m k = Inr (a, k') \<and> f a k' = Inr r)"
  by (auto simp: kbind_def split: sum.splits)

lemma kseq_append: "kseq (xs @ ys) k = kbind (kseq xs) (\<lambda>_. kseq ys) k"
  by (induction xs arbitrary: k) (auto simp: kop_defs split: sum.splits)

text \<open>
  Running one routine for every element of a list: where each run succeeds with the state
  \<open>g i k\<close>, the whole sequence is a fold.
\<close>

lemma kseq_map_fold:
  assumes "\<And>i k. i \<in> set is \<Longrightarrow> P k \<Longrightarrow> body i k = Inr ((), g i k)"
    and "\<And>i k. i \<in> set is \<Longrightarrow> P k \<Longrightarrow> P (g i k)"
    and "P k"
  shows "kseq (map body is) k = Inr ((), fold g is k) \<and> P (fold g is k)"
  using assms
proof (induction "is" arbitrary: k)
  case Nil
  then show ?case by (simp add: kop_defs)
next
  case (Cons i "is")
  have "body i k = Inr ((), g i k)" and "P (g i k)"
    using Cons.prems by auto
  moreover have "kseq (map body is) (g i k) = Inr ((), fold g is (g i k)) \<and> P (fold g is (g i k))"
    using Cons.prems by (intro Cons.IH) auto
  ultimately show ?case by (simp add: kop_defs)
qed

text \<open>Two routines that agree wherever an invariant holds do the same over a list.\<close>

lemma kseq_map_cong:
  assumes "\<And>i k. i \<in> set is \<Longrightarrow> P k \<Longrightarrow> f i k = g i k"
    and "\<And>i k k'. i \<in> set is \<Longrightarrow> P k \<Longrightarrow> g i k = Inr ((), k') \<Longrightarrow> P k'"
    and "P k"
  shows "kseq (map f is) k = kseq (map g is) k"
  using assms
proof (induction "is" arbitrary: k)
  case (Cons i "is")
  have "f i k = g i k" using Cons.prems by simp
  moreover have "kseq (map f is) k' = kseq (map g is) k'" if "g i k = Inr ((), k')" for k'
  proof (rule Cons.IH)
    show "P k'" using Cons.prems(2) [of i] Cons.prems(3) that by simp
  qed (simp add: Cons.prems(1), erule (1) Cons.prems(2) [OF list.set_intros(2)])
  ultimately show ?case by (simp add: kbind_def split: sum.splits)
qed simp

section \<open>Arrays\<close>

text \<open>
  C arrays of static size are lists; an index is a machine integer. Reading or writing outside
  the array is an \<open>Out_Of_Bounds\<close> failure.
\<close>

definition array_read :: "('k \<Rightarrow> 'a list) \<Rightarrow> 'i::len word \<Rightarrow> ('k, 'a) kop" where
  "array_read fld i k =
     (if unat i < length (fld k) then Inr (fld k ! unat i, k) else Inl Out_Of_Bounds)"

definition array_modify ::
  "('k \<Rightarrow> 'a list) \<Rightarrow> (('a list \<Rightarrow> 'a list) \<Rightarrow> 'k \<Rightarrow> 'k) \<Rightarrow> 'i::len word \<Rightarrow> ('a \<Rightarrow> 'a) \<Rightarrow> ('k, unit) kop"
where
  "array_modify fld upd i f k =
     (if unat i < length (fld k)
      then Inr ((), upd (\<lambda>xs. xs[unat i := f (xs ! unat i)]) k)
      else Inl Out_Of_Bounds)"

declare array_read_def [kop_defs] array_modify_def [kop_defs]

lemma word_nth_update:
  "unat t < length xs \<Longrightarrow> xs[unat t := y] ! unat u = (if u = t then y else xs ! unat u)"
  for t u :: "'i::len word"
  by (auto simp: nth_list_update word_unat_eq_iff)

section \<open>Counting loops\<close>

text \<open>
  \<open>for_each i n body\<close> is the C loop \<open>for (; i < n; i++) body\<close> with an 8-bit counter. When the
  counter is 255 the increment wraps it to 0, so the loop condition can never become false and
  the loop does not end.
\<close>

function for_each :: "u8 \<Rightarrow> nat \<Rightarrow> (u8 \<Rightarrow> ('k, unit) kop) \<Rightarrow> ('k, unit) kop" where
  "for_each i n body k =
     (if unat i < n
      then (case body i k of
              Inl e \<Rightarrow> Inl e
            | Inr (_, k') \<Rightarrow> if i = 255 then Inl Diverges else for_each (i + 1) n body k')
      else Inr ((), k))"
  by pat_completeness auto
termination
  by (relation "measure (\<lambda>(i, n, body, k). 255 - unat i)") (auto simp: u8_succ u8_not_max_iff)

declare for_each.simps [simp del]

text \<open>\<open>for (i = 0; i <= l; i++) body\<close>\<close>

definition for_each_upto :: "u8 \<Rightarrow> (u8 \<Rightarrow> ('k, unit) kop) \<Rightarrow> ('k, unit) kop" where
  "for_each_upto l body = for_each 0 (Suc (unat l)) body"

definition ids :: "nat \<Rightarrow> u8 list" where
  "ids n = map of_nat [0..<n]"

lemma set_ids: "n \<le> 255 \<Longrightarrow> set (ids n) = {i. unat i < n}"
  by (auto simp: ids_def u8_unat_of_nat intro!: image_eqI [where x = "unat i" for i :: u8])

lemma ids_simps:
  "ids 0 = []" "ids (Suc n) = ids n @ [of_nat n]"
  "ids (numeral m) = ids (pred_numeral m) @ [of_nat (pred_numeral m)]"
  by (simp_all add: ids_def numeral_eq_Suc)

text \<open>Quantifiers over identifiers below a bound, as conjunctions over a list.\<close>

lemma ids_all: "n \<le> 255 \<Longrightarrow> (\<forall>t. unat t < n \<longrightarrow> P t) \<longleftrightarrow> list_all P (ids n)"
  by (auto simp: list_all_iff set_ids)

lemma ids_ex: "n \<le> 255 \<Longrightarrow> (\<exists>t. unat t < n \<and> P t) \<longleftrightarrow> list_ex P (ids n)"
  by (auto simp: list_ex_iff set_ids)

lemma distinct_ids: "n \<le> 255 \<Longrightarrow> distinct (ids n)"
  by (auto simp: ids_def distinct_map inj_on_def u8_of_nat_eq_iff)

lemma length_ids [simp]: "length (ids n) = n"
  by (simp add: ids_def)

lemma for_each_kseq_from:
  "unat i \<le> n \<Longrightarrow> n \<le> 255 \<Longrightarrow>
     for_each i n body k = kseq (map body (map of_nat [unat i..<n])) k"
proof (induction i n body k rule: for_each.induct)
  case (1 i n body k)
  show ?case
  proof (cases "unat i < n")
    case True
    then have ne: "i \<noteq> 255" using "1.prems" by (simp add: u8_not_max_iff)
    have up: "[unat i..<n] = unat i # [unat (i + 1)..<n]"
      using True ne by (simp add: u8_succ upt_conv_Cons)
    show ?thesis
    proof (cases "body i k")
      case (Inl e)
      then show ?thesis
        using True by (simp add: for_each.simps [of i n body k] up kop_defs)
    next
      case (Inr r)
      then show ?thesis
        using True ne "1.IH" [OF True Inr] "1.prems"
        by (cases r) (simp add: for_each.simps [of i n body k] up kop_defs u8_succ)
    qed
  next
    case False
    then show ?thesis using "1.prems" by (simp add: for_each.simps [of i n body k] kop_defs)
  qed
qed

lemma for_each_kseq: "n \<le> 255 \<Longrightarrow> for_each 0 n body k = kseq (map body (ids n)) k"
  using for_each_kseq_from [of 0 n body k] by (simp add: ids_def)

lemma for_each_upto_kseq:
  "l \<noteq> 255 \<Longrightarrow> for_each_upto l body k = kseq (map body (ids (Suc (unat l)))) k"
  by (simp add: for_each_upto_def for_each_kseq u8_not_max_iff)

text \<open>
  \<open>for_break i l body acc\<close> is the C loop \<open>for (; i <= l; i++) body\<close> whose body may break. The
  body assigns the variable \<open>acc\<close> and says whether it breaks. As above, a loop that gets past the
  counter value 255 starts again from 0 and, with bodies that do not change the state, never ends.
\<close>

function for_break ::
  "u8 \<Rightarrow> u8 \<Rightarrow> (u8 \<Rightarrow> 'a \<Rightarrow> ('k, 'a \<times> bool) kop) \<Rightarrow> 'a \<Rightarrow> ('k, 'a) kop"
where
  "for_break i l body acc k =
     (if i \<le> l
      then (case body i acc k of
              Inl e \<Rightarrow> Inl e
            | Inr ((acc', stop), k') \<Rightarrow>
                if stop then Inr (acc', k')
                else if i = 255 then Inl Diverges
                else for_break (i + 1) l body acc' k')
      else Inr (acc, k))"
  by pat_completeness auto
termination
  by (relation "measure (\<lambda>(i, l, body, acc, k). 255 - unat i)") (auto simp: u8_succ u8_not_max_iff)

declare for_break.simps [simp del]

text \<open>What such a loop computes when its body is pure: \<open>g\<close> is the assignment, \<open>P\<close> the break.\<close>

primrec break_fold :: "('i \<Rightarrow> 'a \<Rightarrow> 'a) \<Rightarrow> ('i \<Rightarrow> bool) \<Rightarrow> 'i list \<Rightarrow> 'a \<Rightarrow> 'a" where
  "break_fold g P [] acc = acc"
| "break_fold g P (i # is) acc = (if P i then g i acc else break_fold g P is (g i acc))"

lemma for_break_pure_from:
  assumes "l \<noteq> 255"
    and "\<And>i acc. i \<le> l \<Longrightarrow> body i acc k = Inr ((g i acc, P i), k)"
  shows "unat i \<le> Suc (unat l) \<Longrightarrow> for_break i l body acc k =
           Inr (break_fold g P (map of_nat [unat i..<Suc (unat l)]) acc, k)"
proof (induction "Suc (unat l) - unat i" arbitrary: i acc)
  case 0
  then have "\<not> i \<le> l" by (simp add: word_le_nat_alt)
  then show ?case using 0 by (simp add: for_break.simps [of i])
next
  case (Suc m)
  then have le: "i \<le> l" and le_nat: "unat i \<le> unat l" by (simp_all add: word_le_nat_alt)
  then have ne: "i \<noteq> 255"
    using assms(1) by (simp add: u8_not_max_iff)
  have up: "[unat i..<Suc (unat l)] = unat i # [unat (i + 1)..<Suc (unat l)]"
    using le_nat ne by (simp add: u8_succ upt_conv_Cons del: upt_Suc)
  have "m = Suc (unat l) - unat (i + 1)" and "unat (i + 1) \<le> Suc (unat l)"
    using Suc.hyps(2) le_nat ne by (simp_all add: u8_succ)
  then show ?case
    using Suc.hyps(1) [of "i + 1"] le ne
    by (simp add: for_break.simps [of i] assms(2) up del: upt_Suc)
qed

lemma for_break_pure:
  assumes "l \<noteq> 255"
    and "\<And>i acc. i \<le> l \<Longrightarrow> body i acc k = Inr ((g i acc, P i), k)"
  shows "for_break 0 l body acc k = Inr (break_fold g P (ids (Suc (unat l))) acc, k)"
  using for_break_pure_from [where i = 0 and g = g and P = P and body = body, OF assms]
  by (simp add: ids_def)

lemma break_fold_append:
  "\<forall>i \<in> set xs. \<not> P i \<Longrightarrow> break_fold g P (xs @ ys) acc = break_fold g P ys (break_fold g P xs acc)"
  by (induction xs arbitrary: acc) auto

lemma break_fold_found:
  assumes "i \<in> set is" and "P i"
  shows "\<exists>xs j ys acc'. is = xs @ j # ys \<and> P j \<and> (\<forall>x \<in> set xs. \<not> P x)
           \<and> acc' = break_fold g P xs acc \<and> break_fold g P is acc = g j acc'"
proof -
  have "\<exists>i \<in> set is. P i" using assms by blast
  then obtain xs j ys where "is = xs @ j # ys" "P j" "\<forall>x \<in> set xs. \<not> P x"
    by (rule split_list_first_propE)
  then show ?thesis by (auto simp: break_fold_append)
qed

lemma break_fold_none:
  "\<forall>i \<in> set is. \<not> P i \<Longrightarrow> break_fold g P is acc = fold g is acc"
  by (induction "is" arbitrary: acc) auto

text \<open>Over all identifiers below \<open>n\<close>, the loop stops at the least one that satisfies \<open>P\<close>.\<close>

lemma break_fold_ids:
  assumes "n \<le> 255" and "unat i < n" and "P i"
  shows "\<exists>j. unat j < n \<and> P j \<and> (\<forall>x. x < j \<longrightarrow> \<not> P x) \<and>
           break_fold g P (ids n) acc = g j (break_fold g P (ids (unat j)) acc)"
proof -
  have mem: "i \<in> set (ids n)" using assms by (simp add: set_ids)
  obtain xs j ys where split: "ids n = xs @ j # ys" and j: "P j" and first: "\<forall>x \<in> set xs. \<not> P x"
    and res: "break_fold g P (ids n) acc = g j (break_fold g P xs acc)"
    using break_fold_found [where P = P and g = g and acc = acc, OF mem assms(3)] by blast
  let ?m = "length xs"
  have m: "?m < n" using arg_cong [OF split, of length] by simp
  have nth: "ids n ! k = of_nat k" if "k < n" for k
    using that by (simp add: ids_def)
  have "j = of_nat ?m"
    using nth [OF m] by (simp add: split nth_append)
  then have uj: "unat j = ?m" using m assms(1) by (simp add: u8_unat_of_nat)
  have xs: "xs = ids ?m"
  proof (rule nth_equalityI)
    fix k assume k: "k < length xs"
    then have "ids n ! k = xs ! k" by (simp add: split nth_append)
    then show "xs ! k = ids ?m ! k"
      using k m nth [of k] by (simp add: ids_def)
  qed simp
  have "\<not> P x" if "x < j" for x
  proof -
    have "x \<in> set (ids ?m)"
      using that m assms(1) by (simp add: set_ids uj word_less_nat_alt)
    then show ?thesis using first xs by simp
  qed
  moreover have "break_fold g P (ids n) acc = g j (break_fold g P (ids (unat j)) acc)"
    unfolding uj xs [symmetric] by (rule res)
  ultimately show ?thesis using j m uj by (intro exI [of _ j]) simp
qed

end
