(* ===== verification/Error_Handling.thy ===== *)
theory Error_Handling
  imports Prelude
begin

text \<open>
  The error component (\<open>components/error\<close>): the error identifiers the RTOS passes to the
  application's \<open>fatal_error\<close> function, and the assertion macros. Whether an assertion is
  compiled in is part of the system configuration, so the macros take the configuration. The
  application's \<open>fatal_error\<close> is declared \<open>noreturn\<close>: calling it ends the run with \<open>Fatal\<close>.
\<close>

section \<open>System configuration\<close>

text \<open>
  The template parameters that all components consult: the two assertion switches
  (\<open>api_asserts\<close>, \<open>internal_asserts\<close>), the number of tasks (\<open>tasks.length\<close>), whether the RTOS
  variant is built with a preemptive context-switch component (\<open>PREEMPTION_SUPPORT\<close>), whether semaphores
  have maximum values (\<open>semaphore_enable_max\<close>), and the two signals that the generated configuration reserves
  for the RTOS itself.
\<close>

record config =
  api_asserts :: bool
  internal_asserts :: bool
  preemption_support :: bool
  tasks_length :: nat
  semaphore_enable_max :: bool
  SIGNAL_ID__TASK_TIMER :: u8
  SIGNAL_ID__RTOS_UTIL :: u8

section \<open>Error identifiers\<close>

definition ERROR_ID_NONE :: u8 where
  "ERROR_ID_NONE = 0"

definition ERROR_ID_TICK_OVERFLOW :: u8 where
  "ERROR_ID_TICK_OVERFLOW = 1"

definition ERROR_ID_INVALID_ID :: u8 where
  "ERROR_ID_INVALID_ID = 2"

definition ERROR_ID_NOT_HOLDING_MUTEX :: u8 where
  "ERROR_ID_NOT_HOLDING_MUTEX = 3"

definition ERROR_ID_DEADLOCK :: u8 where
  "ERROR_ID_DEADLOCK = 4"

definition ERROR_ID_TASK_FUNCTION_RETURNS :: u8 where
  "ERROR_ID_TASK_FUNCTION_RETURNS = 5"

definition ERROR_ID_INTERNAL_CURRENT_TASK_INVALID :: u8 where
  "ERROR_ID_INTERNAL_CURRENT_TASK_INVALID = 6"

definition ERROR_ID_INTERNAL_INVALID_ID :: u8 where
  "ERROR_ID_INTERNAL_INVALID_ID = 7"

definition ERROR_ID_MESSAGE_QUEUE_BUFFER_OVERLAP :: u8 where
  "ERROR_ID_MESSAGE_QUEUE_BUFFER_OVERLAP = 8"

definition ERROR_ID_MESSAGE_QUEUE_ZERO_TIMEOUT :: u8 where
  "ERROR_ID_MESSAGE_QUEUE_ZERO_TIMEOUT = 9"

definition ERROR_ID_MESSAGE_QUEUE_INTERNAL_ZERO_TIMEOUT :: u8 where
  "ERROR_ID_MESSAGE_QUEUE_INTERNAL_ZERO_TIMEOUT = 10"

definition ERROR_ID_MESSAGE_QUEUE_INVALID_POINTER :: u8 where
  "ERROR_ID_MESSAGE_QUEUE_INVALID_POINTER = 11"

definition ERROR_ID_MESSAGE_QUEUE_INTERNAL_TICK_OVERFLOW :: u8 where
  "ERROR_ID_MESSAGE_QUEUE_INTERNAL_TICK_OVERFLOW = 12"

definition ERROR_ID_MESSAGE_QUEUE_INTERNAL_INCORRECT_INITIALIZATION :: u8 where
  "ERROR_ID_MESSAGE_QUEUE_INTERNAL_INCORRECT_INITIALIZATION = 13"

definition ERROR_ID_MESSAGE_QUEUE_INTERNAL_VIOLATED_INVARIANT_CONFIGURATION :: u8 where
  "ERROR_ID_MESSAGE_QUEUE_INTERNAL_VIOLATED_INVARIANT_CONFIGURATION = 14"

definition ERROR_ID_MESSAGE_QUEUE_INTERNAL_VIOLATED_INVARIANT_INVALID_HEAD :: u8 where
  "ERROR_ID_MESSAGE_QUEUE_INTERNAL_VIOLATED_INVARIANT_INVALID_HEAD = 15"

definition ERROR_ID_MESSAGE_QUEUE_INTERNAL_VIOLATED_INVARIANT_INVALID_AVAILABLE :: u8 where
  "ERROR_ID_MESSAGE_QUEUE_INTERNAL_VIOLATED_INVARIANT_INVALID_AVAILABLE = 16"

definition ERROR_ID_MESSAGE_QUEUE_INTERNAL_VIOLATED_INVARIANT_INVALID_ID_IN_WAITERS :: u8 where
  "ERROR_ID_MESSAGE_QUEUE_INTERNAL_VIOLATED_INVARIANT_INVALID_ID_IN_WAITERS = 17"

definition ERROR_ID_MESSAGE_QUEUE_INTERNAL_VIOLATED_INVARIANT_TASKS_BLOCKED_DESPITE_AVAILABLE_MESSAGES :: u8 where
  "ERROR_ID_MESSAGE_QUEUE_INTERNAL_VIOLATED_INVARIANT_TASKS_BLOCKED_DESPITE_AVAILABLE_MESSAGES = 18"

definition ERROR_ID_MESSAGE_QUEUE_INTERNAL_VIOLATED_INVARIANT_WAITING_TASK_IS_NOT_BLOCKED :: u8 where
  "ERROR_ID_MESSAGE_QUEUE_INTERNAL_VIOLATED_INVARIANT_WAITING_TASK_IS_NOT_BLOCKED = 19"

definition ERROR_ID_MESSAGE_QUEUE_INTERNAL_VIOLATED_INVARIANT_INVALID_MESSAGES_POINTER :: u8 where
  "ERROR_ID_MESSAGE_QUEUE_INTERNAL_VIOLATED_INVARIANT_INVALID_MESSAGES_POINTER = 20"

definition ERROR_ID_MESSAGE_QUEUE_INTERNAL_VIOLATED_INVARIANT_INVALID_MESSAGE_SIZE :: u8 where
  "ERROR_ID_MESSAGE_QUEUE_INTERNAL_VIOLATED_INVARIANT_INVALID_MESSAGE_SIZE = 21"

definition ERROR_ID_MESSAGE_QUEUE_INTERNAL_VIOLATED_INVARIANT_INVALID_QUEUE_LENGTH :: u8 where
  "ERROR_ID_MESSAGE_QUEUE_INTERNAL_VIOLATED_INVARIANT_INVALID_QUEUE_LENGTH = 22"

definition ERROR_ID_INTERNAL_PRECONDITION_VIOLATED :: u8 where
  "ERROR_ID_INTERNAL_PRECONDITION_VIOLATED = 23"

definition ERROR_ID_INTERNAL_POSTCONDITION_VIOLATED :: u8 where
  "ERROR_ID_INTERNAL_POSTCONDITION_VIOLATED = 24"

definition ERROR_ID_SEMAPHORE_MAX_INVALID :: u8 where
  "ERROR_ID_SEMAPHORE_MAX_INVALID = 25"

definition ERROR_ID_SEMAPHORE_MAX_USE_BEFORE_INIT :: u8 where
  "ERROR_ID_SEMAPHORE_MAX_USE_BEFORE_INIT = 26"

definition ERROR_ID_SEMAPHORE_MAX_ALREADY_INIT :: u8 where
  "ERROR_ID_SEMAPHORE_MAX_ALREADY_INIT = 27"

definition ERROR_ID_SEMAPHORE_MAX_EXCEEDED :: u8 where
  "ERROR_ID_SEMAPHORE_MAX_EXCEEDED = 28"

definition ERROR_ID_MESSAGE_QUEUE_INTERNAL_VIOLATED_INVARIANT_TIMER_IS_ENABLED :: u8 where
  "ERROR_ID_MESSAGE_QUEUE_INTERNAL_VIOLATED_INVARIANT_TIMER_IS_ENABLED = 29"

definition ERROR_ID_SCHED_PRIO_CEILING_TASK_LOCKING_LOWER_PRIORITY_MUTEX :: u8 where
  "ERROR_ID_SCHED_PRIO_CEILING_TASK_LOCKING_LOWER_PRIORITY_MUTEX = 30"

definition ERROR_ID_SCHED_PRIO_CEILING_MUTEX_ALREADY_LOCKED :: u8 where
  "ERROR_ID_SCHED_PRIO_CEILING_MUTEX_ALREADY_LOCKED = 31"

definition ERROR_ID_TIMER_SIGNAL_SET_IS_EMPTY :: u8 where
  "ERROR_ID_TIMER_SIGNAL_SET_IS_EMPTY = 32"

lemmas error_id_defs =
  ERROR_ID_NONE_def ERROR_ID_TICK_OVERFLOW_def ERROR_ID_INVALID_ID_def
  ERROR_ID_NOT_HOLDING_MUTEX_def ERROR_ID_DEADLOCK_def ERROR_ID_TASK_FUNCTION_RETURNS_def
  ERROR_ID_INTERNAL_CURRENT_TASK_INVALID_def ERROR_ID_INTERNAL_INVALID_ID_def
  ERROR_ID_MESSAGE_QUEUE_BUFFER_OVERLAP_def ERROR_ID_MESSAGE_QUEUE_ZERO_TIMEOUT_def
  ERROR_ID_MESSAGE_QUEUE_INTERNAL_ZERO_TIMEOUT_def ERROR_ID_MESSAGE_QUEUE_INVALID_POINTER_def
  ERROR_ID_MESSAGE_QUEUE_INTERNAL_TICK_OVERFLOW_def
  ERROR_ID_MESSAGE_QUEUE_INTERNAL_INCORRECT_INITIALIZATION_def
  ERROR_ID_MESSAGE_QUEUE_INTERNAL_VIOLATED_INVARIANT_CONFIGURATION_def
  ERROR_ID_MESSAGE_QUEUE_INTERNAL_VIOLATED_INVARIANT_INVALID_HEAD_def
  ERROR_ID_MESSAGE_QUEUE_INTERNAL_VIOLATED_INVARIANT_INVALID_AVAILABLE_def
  ERROR_ID_MESSAGE_QUEUE_INTERNAL_VIOLATED_INVARIANT_INVALID_ID_IN_WAITERS_def
  ERROR_ID_MESSAGE_QUEUE_INTERNAL_VIOLATED_INVARIANT_TASKS_BLOCKED_DESPITE_AVAILABLE_MESSAGES_def
  ERROR_ID_MESSAGE_QUEUE_INTERNAL_VIOLATED_INVARIANT_WAITING_TASK_IS_NOT_BLOCKED_def
  ERROR_ID_MESSAGE_QUEUE_INTERNAL_VIOLATED_INVARIANT_INVALID_MESSAGES_POINTER_def
  ERROR_ID_MESSAGE_QUEUE_INTERNAL_VIOLATED_INVARIANT_INVALID_MESSAGE_SIZE_def
  ERROR_ID_MESSAGE_QUEUE_INTERNAL_VIOLATED_INVARIANT_INVALID_QUEUE_LENGTH_def
  ERROR_ID_INTERNAL_PRECONDITION_VIOLATED_def ERROR_ID_INTERNAL_POSTCONDITION_VIOLATED_def
  ERROR_ID_SEMAPHORE_MAX_INVALID_def ERROR_ID_SEMAPHORE_MAX_USE_BEFORE_INIT_def
  ERROR_ID_SEMAPHORE_MAX_ALREADY_INIT_def ERROR_ID_SEMAPHORE_MAX_EXCEEDED_def
  ERROR_ID_MESSAGE_QUEUE_INTERNAL_VIOLATED_INVARIANT_TIMER_IS_ENABLED_def
  ERROR_ID_SCHED_PRIO_CEILING_TASK_LOCKING_LOWER_PRIORITY_MUTEX_def
  ERROR_ID_SCHED_PRIO_CEILING_MUTEX_ALREADY_LOCKED_def ERROR_ID_TIMER_SIGNAL_SET_IS_EMPTY_def

section \<open>Fatal errors and assertions\<close>

definition fatal_error :: "u8 \<Rightarrow> ('k, unit) kop" where
  "fatal_error error_id = kfail (Fatal error_id)"

definition api_error :: "config \<Rightarrow> u8 \<Rightarrow> ('k, unit) kop" where
  "api_error c error_id = kwhen (api_asserts c) (fatal_error error_id)"

definition api_assert :: "config \<Rightarrow> bool \<Rightarrow> u8 \<Rightarrow> ('k, unit) kop" where
  "api_assert c expression error_id =
     kwhen (api_asserts c) (kwhen (\<not> expression) (api_error c error_id))"

definition internal_error :: "config \<Rightarrow> u8 \<Rightarrow> ('k, unit) kop" where
  "internal_error c error_id = kwhen (internal_asserts c) (fatal_error error_id)"

definition internal_assert :: "config \<Rightarrow> bool \<Rightarrow> u8 \<Rightarrow> ('k, unit) kop" where
  "internal_assert c expression error_id =
     kwhen (internal_asserts c) (kwhen (\<not> expression) (internal_error c error_id))"

text \<open>An assertion whose expression reads the state: without assertions it is not evaluated.\<close>

definition api_assert_expr :: "config \<Rightarrow> ('k, bool) kop \<Rightarrow> u8 \<Rightarrow> ('k, unit) kop" where
  "api_assert_expr c expression error_id =
     kwhen (api_asserts c) (kbind expression (\<lambda>b. kwhen (\<not> b) (api_error c error_id)))"

lemma fatal_error_run [simp]: "fatal_error e k = Inl (Fatal e)"
  by (simp add: fatal_error_def kop_defs)

lemma api_assert_run [simp]:
  "api_assert c b e k = (if b \<or> \<not> api_asserts c then Inr ((), k) else Inl (Fatal e))"
  by (simp add: api_assert_def api_error_def kop_defs)

lemma api_assert_expr_run:
  "expression k = Inr (b, k) \<Longrightarrow> api_assert_expr c expression e k =
     (if b \<or> \<not> api_asserts c then Inr ((), k) else Inl (Fatal e))"
  by (simp add: api_assert_expr_def api_error_def kop_defs)

lemma internal_assert_run [simp]:
  "internal_assert c b e k = (if b \<or> \<not> internal_asserts c then Inr ((), k) else Inl (Fatal e))"
  by (simp add: internal_assert_def internal_error_def kop_defs)

text \<open>A configuration for examples.\<close>

definition config_example :: "nat \<Rightarrow> config" where
  "config_example n =
     \<lparr>api_asserts = True, internal_asserts = True, preemption_support = True, tasks_length = n,
      semaphore_enable_max = False,
      SIGNAL_ID__TASK_TIMER = 2, SIGNAL_ID__RTOS_UTIL = 4\<rparr>"

end
