(* ===== verification/Scheduler_Interface.thy ===== *)
theory Scheduler_Interface
  imports Prelude
begin

text \<open>
  The contract between a scheduler component (\<open>sched-rr\<close>, \<open>sched-prio\<close>, \<open>sched-prio-inherit\<close>,
  \<open>sched-prio-ceiling\<close>) and the rest of the kernel. Every scheduler provides \<open>sched_set_runnable\<close>,
  \<open>sched_set_blocked\<close> and \<open>sched_get_next\<close>; the clients only rely on which tasks are runnable.
\<close>

definition TASK_ID_NONE :: u8 where
  "TASK_ID_NONE = 255"

definition TASK_ID_ZERO :: u8 where
  "TASK_ID_ZERO = 0"

text \<open>
  \<open>ready t s\<close> and \<open>block t s\<close> are the states the two updates lead to. The law \<open>next_runnable\<close> only
  promises a runnable task where there is one: this is all that the \<open>assume_runnable\<close>
  configurations need.
\<close>

locale scheduler =
  fixes set_runnable :: "u8 \<Rightarrow> ('s, unit) kop"
    and set_blocked :: "u8 \<Rightarrow> ('s, unit) kop"
    and get_next :: "('s, u8) kop"
    and ready :: "u8 \<Rightarrow> 's \<Rightarrow> 's"
    and block :: "u8 \<Rightarrow> 's \<Rightarrow> 's"
    and inv :: "'s \<Rightarrow> bool"
    and ntasks :: "'s \<Rightarrow> nat"
    and runnable :: "'s \<Rightarrow> u8 \<Rightarrow> bool"
  assumes set_runnable: "inv s \<Longrightarrow> unat t < ntasks s \<Longrightarrow> set_runnable t s = Inr ((), ready t s)"
    and set_blocked: "inv s \<Longrightarrow> unat t < ntasks s \<Longrightarrow> set_blocked t s = Inr ((), block t s)"
    and inv_ready: "inv s \<Longrightarrow> unat t < ntasks s \<Longrightarrow> inv (ready t s)"
    and inv_block: "inv s \<Longrightarrow> unat t < ntasks s \<Longrightarrow> inv (block t s)"
    and ntasks_ready: "inv s \<Longrightarrow> unat t < ntasks s \<Longrightarrow> ntasks (ready t s) = ntasks s"
    and ntasks_block: "inv s \<Longrightarrow> unat t < ntasks s \<Longrightarrow> ntasks (block t s) = ntasks s"
    and ntasks_bound: "inv s \<Longrightarrow> ntasks s \<le> 255"
    and runnable_ready:
      "inv s \<Longrightarrow> unat t < ntasks s \<Longrightarrow> unat u < ntasks s \<Longrightarrow>
         runnable (ready t s) u \<longleftrightarrow> u = t \<or> runnable s u"
    and runnable_block:
      "inv s \<Longrightarrow> unat t < ntasks s \<Longrightarrow> unat u < ntasks s \<Longrightarrow>
         runnable (block t s) u \<longleftrightarrow> u \<noteq> t \<and> runnable s u"
    and next_runnable:
      "inv s \<Longrightarrow> unat t < ntasks s \<Longrightarrow> runnable s t \<Longrightarrow>
         \<exists>u s'. get_next s = Inr (u, s') \<and> unat u < ntasks s \<and> runnable s u"
    and next_inv: "inv s \<Longrightarrow> get_next s = Inr (u, s') \<Longrightarrow> inv s'"
    and next_ntasks: "inv s \<Longrightarrow> get_next s = Inr (u, s') \<Longrightarrow> ntasks s' = ntasks s"
    and next_frame: "inv s \<Longrightarrow> get_next s = Inr (u, s') \<Longrightarrow> runnable s' = runnable s"
begin

text \<open>A wake-up is never lost to the scheduler: some runnable task is picked right after it.\<close>

lemma wake_then_next:
  assumes "inv s" and "unat t < ntasks s"
  shows "\<exists>u s'. kbind (set_runnable t) (\<lambda>_. get_next) s = Inr (u, s')
           \<and> unat u < ntasks s \<and> (u = t \<or> runnable s u) \<and> u \<noteq> TASK_ID_NONE"
proof -
  let ?s = "ready t s"
  have "inv ?s" and n: "ntasks ?s = ntasks s" and "runnable ?s t"
    using assms by (simp_all add: inv_ready ntasks_ready runnable_ready)
  then obtain u s' where nxt: "get_next ?s = Inr (u, s')" and u: "unat u < ntasks s"
    and run: "runnable ?s u"
    using next_runnable [of ?s t] assms by auto
  have "u \<noteq> TASK_ID_NONE"
    using u ntasks_bound [OF assms(1)] by (auto simp: TASK_ID_NONE_def u8_not_max_iff)
  then show ?thesis
    using nxt u run assms by (auto simp: kbind_def set_runnable runnable_ready)
qed

text \<open>Blocking one task leaves every other runnable task eligible.\<close>

lemma block_then_next:
  assumes "inv s" and "unat t < ntasks s" and "unat u < ntasks s" and "runnable s u" and "u \<noteq> t"
  shows "\<exists>v s'. kbind (set_blocked t) (\<lambda>_. get_next) s = Inr (v, s')
           \<and> unat v < ntasks s \<and> v \<noteq> t \<and> runnable s v"
proof -
  let ?s = "block t s"
  have "inv ?s" and n: "ntasks ?s = ntasks s" and "runnable ?s u"
    using assms by (simp_all add: inv_block ntasks_block runnable_block)
  then obtain v s' where "get_next ?s = Inr (v, s')" and v: "unat v < ntasks s" "runnable ?s v"
    using next_runnable [of ?s u] assms by auto
  then show ?thesis
    using assms by (auto simp: kbind_def set_blocked runnable_block)
qed

end

text \<open>
  A scheduler configured without \<open>assume_runnable\<close> must also report that no task is runnable, by
  \<open>TASK_ID_NONE\<close>: the idle loop of the interrupt-event component depends on it.
\<close>

locale idle_scheduler = scheduler +
  assumes next_none:
    "inv s \<Longrightarrow> (\<And>t. unat t < ntasks s \<Longrightarrow> \<not> runnable s t) \<Longrightarrow>
       \<exists>s'. get_next s = Inr (TASK_ID_NONE, s')"
begin

lemma next_total: "inv s \<Longrightarrow> \<exists>u s'. get_next s = Inr (u, s')"
  using next_runnable [of s] next_none [of s] by blast

lemma next_none_iff:
  assumes "inv s" and "get_next s = Inr (u, s')"
  shows "u = TASK_ID_NONE \<longleftrightarrow> (\<forall>t. unat t < ntasks s \<longrightarrow> \<not> runnable s t)"
proof
  assume "u = TASK_ID_NONE"
  then show "\<forall>t. unat t < ntasks s \<longrightarrow> \<not> runnable s t"
    using assms next_runnable [OF assms(1)] ntasks_bound [OF assms(1)]
    by (force simp: TASK_ID_NONE_def)
next
  assume "\<forall>t. unat t < ntasks s \<longrightarrow> \<not> runnable s t"
  then show "u = TASK_ID_NONE" using assms next_none [OF assms(1)] by auto
qed

lemma next_is_runnable:
  assumes "inv s" and "get_next s = Inr (u, s')" and "u \<noteq> TASK_ID_NONE"
  shows "unat u < ntasks s \<and> runnable s u"
proof -
  obtain t where "unat t < ntasks s" and "runnable s t"
    using assms next_none_iff [OF assms(1,2)] by auto
  then show ?thesis using next_runnable [OF assms(1)] assms(2) by auto
qed

end

end
