(* ===== verification/Sched_RR.thy ===== *)
theory Sched_RR
  imports Scheduler_Interface
begin

text \<open>
  The round-robin scheduler (\<open>components/sched-rr\<close>). The state is the index of the task that was
  scheduled last and the table of task objects. \<open>assume_runnable\<close> is the template switch of the
  component: when it is set, the search loop has no exit for the case that nothing is runnable.
\<close>

section \<open>Model\<close>

record rr_task =
  rr_runnable :: bool

record rr_sched =
  rr_cur :: u8
  rr_tasks :: "rr_task list"

definition rr_max_index :: "rr_sched \<Rightarrow> u8" where
  "rr_max_index s = of_nat (length (rr_tasks s)) - 1"

definition rr_next_index :: "rr_sched \<Rightarrow> u8 \<Rightarrow> u8" where
  "rr_next_index s cur = (if cur = rr_max_index s then 0 else cur + 1)"

definition rr_sched_set_runnable :: "u8 \<Rightarrow> (rr_sched, unit) kop" where
  "rr_sched_set_runnable task_id =
     array_modify rr_tasks rr_tasks_update task_id (\<lambda>obj. obj\<lparr>rr_runnable := True\<rparr>)"

definition rr_sched_set_blocked :: "u8 \<Rightarrow> (rr_sched, unit) kop" where
  "rr_sched_set_blocked task_id =
     array_modify rr_tasks rr_tasks_update task_id (\<lambda>obj. obj\<lparr>rr_runnable := False\<rparr>)"

definition rr_sched_runnable :: "u8 \<Rightarrow> (rr_sched, bool) kop" where
  "rr_sched_runnable task_id = kbind (array_read rr_tasks task_id) (\<lambda>obj. kreturn (rr_runnable obj))"

text \<open>
  The do-while loop of \<open>sched_get_next\<close>. The loop variable \<open>next\<close> takes at most 256 values and the
  table does not change, so a run of 256 iterations without exit never exits: the fuel of 256 is
  exact.
\<close>

fun rr_search :: "nat \<Rightarrow> bool \<Rightarrow> u8 \<Rightarrow> (rr_sched, u8 \<times> bool) kop" where
  "rr_search 0 assume_runnable next s = Inl Diverges"
| "rr_search (Suc fuel) assume_runnable next s =
     (let next' = rr_next_index s next in
      case array_read rr_tasks next' s of
        Inl e \<Rightarrow> Inl e
      | Inr (obj, _) \<Rightarrow>
          let found = rr_runnable obj in
          if \<not> found \<and> (assume_runnable \<or> next' \<noteq> rr_cur s)
          then rr_search fuel assume_runnable next' s
          else Inr ((next', found), s))"

definition rr_sched_get_next :: "bool \<Rightarrow> (rr_sched, u8) kop" where
  "rr_sched_get_next assume_runnable s =
     (case rr_search 256 assume_runnable (rr_cur s) s of
        Inl e \<Rightarrow> Inl e
      | Inr ((next, found), _) \<Rightarrow>
          if assume_runnable \<or> found
          then Inr (next, s\<lparr>rr_cur := next\<rparr>)
          else Inr (TASK_ID_NONE, s\<lparr>rr_cur := rr_max_index s\<rparr>))"

section \<open>Invariant and abstraction\<close>

definition rr_inv :: "rr_sched \<Rightarrow> bool" where
  "rr_inv s \<longleftrightarrow> length (rr_tasks s) \<le> 255 \<and> unat (rr_cur s) < length (rr_tasks s)"

definition rr_ntasks :: "rr_sched \<Rightarrow> nat" where
  "rr_ntasks s = length (rr_tasks s)"

definition rr_is_runnable :: "rr_sched \<Rightarrow> u8 \<Rightarrow> bool" where
  "rr_is_runnable s t = rr_runnable (rr_tasks s ! unat t)"

definition rr_ready :: "u8 \<Rightarrow> rr_sched \<Rightarrow> rr_sched" where
  "rr_ready t s = s\<lparr>rr_tasks := (rr_tasks s)[unat t := (rr_tasks s ! unat t)\<lparr>rr_runnable := True\<rparr>]\<rparr>"

definition rr_block :: "u8 \<Rightarrow> rr_sched \<Rightarrow> rr_sched" where
  "rr_block t s = s\<lparr>rr_tasks := (rr_tasks s)[unat t := (rr_tasks s ! unat t)\<lparr>rr_runnable := False\<rparr>]\<rparr>"

text \<open>
  The reference model of \<open>rtos/sched.py\<close>: the first runnable index in the list of all indices
  rotated to start just after the current one.
\<close>

definition rr_order :: "nat \<Rightarrow> nat \<Rightarrow> nat list" where
  "rr_order cur n = rotate (Suc cur mod n) [0..<n]"

definition rr_model_next :: "bool list \<Rightarrow> nat \<Rightarrow> nat option" where
  "rr_model_next runnables cur = find (\<lambda>i. runnables ! i) (rr_order cur (length runnables))"

abbreviation rr_flags :: "rr_sched \<Rightarrow> bool list" where
  "rr_flags s \<equiv> map rr_runnable (rr_tasks s)"

section \<open>The search loop\<close>

lemma rr_max_index_unat:
  assumes "rr_inv s"
  shows "unat (rr_max_index s) = length (rr_tasks s) - 1"
proof -
  have "Suc (unat (rr_max_index s)) = length (rr_tasks s)"
    unfolding rr_max_index_def
    by (rule max_index_unat) (use assms in \<open>auto simp: rr_inv_def\<close>)
  then show ?thesis by simp
qed

lemma rr_next_index_unat:
  assumes "rr_inv s" and "unat i < length (rr_tasks s)"
  shows "unat (rr_next_index s i) = Suc (unat i) mod length (rr_tasks s)"
proof (cases "unat i = length (rr_tasks s) - 1")
  case True
  then have "i = rr_max_index s"
    using rr_max_index_unat [OF assms(1)] by (simp add: word_unat_eq_iff)
  moreover have "Suc (unat i) = length (rr_tasks s)" using True assms(2) by simp
  ultimately show ?thesis by (simp add: rr_next_index_def)
next
  case False
  then have "i \<noteq> rr_max_index s"
    using rr_max_index_unat [OF assms(1)] by auto
  moreover have "i \<noteq> 255"
    using assms by (simp add: rr_inv_def u8_not_max_iff)
  ultimately show ?thesis
    using False assms by (simp add: rr_next_index_def u8_succ)
qed

lemma rr_order_map:
  assumes "cur < n"
  shows "rr_order cur n = map (\<lambda>j. (cur + Suc j) mod n) [0..<n]"
  using assms by (intro nth_equalityI) (simp_all add: rr_order_def nth_rotate mod_simps)

text \<open>
  Started at position \<open>cur + j\<close>, the loop finds the first runnable task among the positions that are
  left, or comes back to \<open>cur\<close> having found none.
\<close>

lemma rr_search_from:
  assumes inv: "rr_inv s"
    and "j < rr_ntasks s" and "rr_ntasks s - j \<le> fuel"
    and "unat next = (unat (rr_cur s) + j) mod rr_ntasks s"
    and "assume_runnable \<longrightarrow> (\<exists>i \<in> {j..<rr_ntasks s}.
           rr_flags s ! ((unat (rr_cur s) + Suc i) mod rr_ntasks s))"
  shows "rr_search fuel assume_runnable next s =
     (case find (\<lambda>i. rr_flags s ! i)
             (map (\<lambda>i. (unat (rr_cur s) + Suc i) mod rr_ntasks s) [j..<rr_ntasks s]) of
        Some i \<Rightarrow> Inr ((of_nat i, True), s)
      | None \<Rightarrow> Inr ((rr_cur s, False), s))"
  using assms(2-)
proof (induction fuel arbitrary: j "next")
  case 0
  then show ?case by simp
next
  case (Suc fuel)
  let ?n = "rr_ntasks s" and ?c = "unat (rr_cur s)"
  let ?next = "rr_next_index s next"
  have n: "length (rr_tasks s) = ?n" "?c < ?n" "?n \<le> 255"
    using inv by (simp_all add: rr_ntasks_def rr_inv_def)
  have pos: "unat ?next = (?c + Suc j) mod ?n"
    using Suc.prems n by (simp add: rr_next_index_unat [OF inv] mod_simps)
  have less: "unat ?next < ?n" using n by (simp add: pos)
  have flag: "rr_runnable (rr_tasks s ! unat ?next) = rr_flags s ! ((?c + Suc j) mod ?n)"
    unfolding pos [symmetric] using less n by simp
  have rest: "[j..<?n] = j # [Suc j..<?n]" using Suc.prems by (simp add: upt_conv_Cons)
  have self: "?next = rr_cur s \<longleftrightarrow> Suc j = ?n"
  proof -
    have "?next = rr_cur s \<longleftrightarrow> (?c + Suc j) mod ?n = ?c"
      by (simp add: word_unat_eq_iff pos)
    also have "\<dots> \<longleftrightarrow> Suc j = ?n"
      using Suc.prems(1) n by (cases "?c + Suc j < ?n") (auto simp: mod_if)
    finally show ?thesis .
  qed
  show ?case
  proof (cases "rr_flags s ! ((?c + Suc j) mod ?n)")
    case True
    have "of_nat ((?c + Suc j) mod ?n) = ?next"
      unfolding pos [symmetric] by simp
    then show ?thesis
      using True less n by (simp add: Let_def array_read_def flag rest)
  next
    case False
    show ?thesis
    proof (cases "Suc j = ?n")
      case True
      have "\<not> assume_runnable"
      proof
        assume assume_runnable
        then obtain i where i: "i \<in> {j..<?n}" and "rr_flags s ! ((?c + Suc i) mod ?n)"
          using Suc.prems(4) by blast
        moreover have "i = j" using i True by (simp add: atLeastLessThan_iff)
        ultimately show False using False by simp
      qed
      moreover have "Suc (?c + j) mod ?n = ?c"
        using pos self [THEN iffD2, OF True] by (metis add_Suc_right)
      ultimately show ?thesis
        using False True self less n by (simp add: Let_def array_read_def rest)
    next
      case ne: False
      have "rr_search fuel assume_runnable ?next s =
        (case find (\<lambda>i. rr_flags s ! i)
             (map (\<lambda>i. (?c + Suc i) mod ?n) [Suc j..<?n]) of
           Some i \<Rightarrow> Inr ((of_nat i, True), s)
         | None \<Rightarrow> Inr ((rr_cur s, False), s))"
      proof (rule Suc.IH)
        show "Suc j < ?n" using Suc.prems ne by simp
        show "?n - Suc j \<le> fuel" using Suc.prems by simp
        show "unat ?next = (?c + Suc j) mod ?n" by (rule pos)
        show "assume_runnable \<longrightarrow> (\<exists>i \<in> {Suc j..<?n}. rr_flags s ! ((?c + Suc i) mod ?n))"
          using Suc.prems(4) False by (auto simp: Suc_le_eq nat_less_le)
      qed
      then show ?thesis
        using False self ne less n by (simp add: Let_def array_read_def flag rest)
    qed
  qed
qed


section \<open>Correctness\<close>

text \<open>The component computes what the reference model of \<open>rtos/sched.py\<close> computes.\<close>

lemma rr_get_next_eq:
  assumes inv: "rr_inv s"
    and ar: "assume_runnable \<Longrightarrow> \<exists>i < rr_ntasks s. rr_flags s ! i"
  shows "rr_sched_get_next assume_runnable s =
     (case rr_model_next (rr_flags s) (unat (rr_cur s)) of
        Some i \<Rightarrow> Inr (of_nat i, s\<lparr>rr_cur := of_nat i\<rparr>)
      | None \<Rightarrow> Inr (TASK_ID_NONE, s\<lparr>rr_cur := rr_max_index s\<rparr>))"
proof -
  let ?n = "rr_ntasks s" and ?c = "unat (rr_cur s)"
  have n: "?c < ?n" "length (rr_tasks s) = ?n" "?n \<le> 255"
    using inv by (simp_all add: rr_inv_def rr_ntasks_def)
  have order: "map (\<lambda>i. (?c + Suc i) mod ?n) [0..<?n] = rr_order ?c ?n"
    using rr_order_map [OF n(1)] by simp
  have set_order: "set (rr_order ?c ?n) = {0..<?n}"
    by (simp add: rr_order_def)
  have ex: "\<exists>i \<in> {0..<?n}. rr_flags s ! ((?c + Suc i) mod ?n)" if a: assume_runnable
  proof -
    obtain i where "i \<in> set (rr_order ?c ?n)" and "rr_flags s ! i"
      using ar [OF a] set_order by auto
    then show ?thesis unfolding order [symmetric] by auto
  qed
  have search: "rr_search 256 assume_runnable (rr_cur s) s =
     (case find (\<lambda>i. rr_flags s ! i) (rr_order ?c ?n) of
        Some i \<Rightarrow> Inr ((of_nat i, True), s)
      | None \<Rightarrow> Inr ((rr_cur s, False), s))"
    using rr_search_from [OF inv, of 0 256 "rr_cur s" assume_runnable] n ex
    unfolding order by simp
  have model: "rr_model_next (rr_flags s) ?c = find (\<lambda>i. rr_flags s ! i) (rr_order ?c ?n)"
    using n by (simp add: rr_model_next_def)
  have "\<not> assume_runnable" if "find (\<lambda>i. rr_flags s ! i) (rr_order ?c ?n) = None"
    using that ar set_order by (auto simp: find_None_iff)
  then show ?thesis
    by (auto simp: rr_sched_get_next_def search model split: option.split)
qed

lemma rr_model_next_Some:
  assumes "cur < length rs" and "rr_model_next rs cur = Some i"
  shows "i < length rs \<and> rs ! i"
proof -
  have "i \<in> set (rr_order cur (length rs)) \<and> rs ! i"
    using assms(2) by (auto simp: rr_model_next_def find_Some_iff)
  then show ?thesis by (simp add: rr_order_def)
qed

lemma rr_model_next_None_iff:
  "rr_model_next rs cur = None \<longleftrightarrow> (\<forall>i < length rs. \<not> rs ! i)"
  by (auto simp: rr_model_next_def find_None_iff rr_order_def)

text \<open>With nothing runnable, the \<open>assume_runnable\<close> configuration never leaves the loop.\<close>

lemma rr_search_diverges:
  assumes "rr_inv s" and "\<forall>i < rr_ntasks s. \<not> rr_flags s ! i" and "unat next < rr_ntasks s"
  shows "rr_search fuel True next s = Inl Diverges"
  using assms(3)
proof (induction fuel arbitrary: "next")
  case 0
  then show ?case by simp
next
  case (Suc fuel)
  have "0 < rr_ntasks s" using Suc.prems by linarith
  then have "unat (rr_next_index s next) < rr_ntasks s"
    using Suc.prems by (simp add: rr_ntasks_def rr_next_index_unat [OF assms(1)])
  then show ?case
    using Suc.IH assms(2) by (simp add: Let_def array_read_def rr_ntasks_def)
qed

lemma rr_get_next_diverges:
  assumes "rr_inv s" and "\<forall>i < rr_ntasks s. \<not> rr_flags s ! i"
  shows "rr_sched_get_next True s = Inl Diverges"
  using assms rr_search_diverges [OF assms, of "rr_cur s" 256]
  by (simp add: rr_sched_get_next_def rr_inv_def rr_ntasks_def)

lemma rr_get_next_cases:
  assumes "rr_inv s" and "rr_sched_get_next assume_runnable s = Inr (u, s')"
  obtains (found) i where "rr_model_next (rr_flags s) (unat (rr_cur s)) = Some i"
      and "u = of_nat i" and "s' = s\<lparr>rr_cur := of_nat i\<rparr>" and "i < rr_ntasks s" and "rr_flags s ! i"
    | (none) "u = TASK_ID_NONE" and "s' = s\<lparr>rr_cur := rr_max_index s\<rparr>"
      and "\<forall>i < rr_ntasks s. \<not> rr_flags s ! i"
proof (cases "\<exists>i < rr_ntasks s. rr_flags s ! i")
  case True
  then obtain i where i: "rr_model_next (rr_flags s) (unat (rr_cur s)) = Some i"
    using rr_model_next_None_iff [of "rr_flags s"]
    by (cases "rr_model_next (rr_flags s) (unat (rr_cur s))") (auto simp: rr_ntasks_def)
  moreover have "u = of_nat i" "s' = s\<lparr>rr_cur := of_nat i\<rparr>"
    using rr_get_next_eq [OF assms(1), of assume_runnable] True i assms(2) by simp_all
  moreover have "i < rr_ntasks s" "rr_flags s ! i"
    using rr_model_next_Some [OF _ i] assms(1) by (simp_all add: rr_inv_def rr_ntasks_def)
  ultimately show thesis by (rule found)
next
  case False
  then have "\<not> assume_runnable"
    using rr_get_next_diverges [OF assms(1)] assms(2) by auto
  moreover have "rr_model_next (rr_flags s) (unat (rr_cur s)) = None"
    using False by (simp add: rr_model_next_None_iff rr_ntasks_def)
  ultimately have "u = TASK_ID_NONE" "s' = s\<lparr>rr_cur := rr_max_index s\<rparr>"
    using rr_get_next_eq [OF assms(1), of assume_runnable] assms(2) by simp_all
  then show thesis using False by (intro none) auto
qed

lemma rr_get_next_inv:
  assumes "rr_inv s" and "rr_sched_get_next assume_runnable s = Inr (u, s')"
  shows "rr_inv s' \<and> rr_tasks s' = rr_tasks s"
  using assms(1,2)
proof (cases rule: rr_get_next_cases [OF assms])
  case (1 i)
  then show ?thesis
    using assms(1) by (simp add: rr_inv_def rr_ntasks_def u8_unat_of_nat)
next
  case 2
  have "0 < length (rr_tasks s)" using assms(1) by (auto simp: rr_inv_def)
  then show ?thesis
    using 2 assms(1) rr_max_index_unat [OF assms(1)] by (simp add: rr_inv_def)
qed

section \<open>The scheduler contract\<close>

lemma rr_flags_runnable:
  "unat t < rr_ntasks s \<Longrightarrow> rr_flags s ! unat t \<longleftrightarrow> rr_is_runnable s t"
  by (simp add: rr_ntasks_def rr_is_runnable_def)

lemma rr_some_runnable:
  assumes "rr_inv s"
  shows "(\<exists>i < rr_ntasks s. rr_flags s ! i) \<longleftrightarrow> (\<exists>t. unat t < rr_ntasks s \<and> rr_is_runnable s t)"
proof
  assume "\<exists>i < rr_ntasks s. rr_flags s ! i"
  then obtain i where i: "i < rr_ntasks s" "rr_flags s ! i" by blast
  then have "unat (of_nat i :: u8) = i"
    using assms by (intro u8_unat_of_nat) (simp add: rr_inv_def rr_ntasks_def)
  then show "\<exists>t. unat t < rr_ntasks s \<and> rr_is_runnable s t"
    using i rr_flags_runnable [of "of_nat i" s] by (intro exI [of _ "of_nat i"]) simp
qed (use rr_flags_runnable in blast)

lemma rr_get_next_runnable:
  assumes inv: "rr_inv s" and "unat t < rr_ntasks s" and "rr_is_runnable s t"
  shows "\<exists>u s'. rr_sched_get_next assume_runnable s = Inr (u, s')
           \<and> unat u < rr_ntasks s \<and> rr_is_runnable s u"
proof -
  have ex: "\<exists>i < rr_ntasks s. rr_flags s ! i"
    using assms rr_some_runnable [OF inv] by blast
  then obtain i where i: "rr_model_next (rr_flags s) (unat (rr_cur s)) = Some i"
    using rr_model_next_None_iff [of "rr_flags s"]
    by (cases "rr_model_next (rr_flags s) (unat (rr_cur s))") (auto simp: rr_ntasks_def)
  have "i < rr_ntasks s" "rr_flags s ! i"
    using rr_model_next_Some [OF _ i] inv by (simp_all add: rr_inv_def rr_ntasks_def)
  moreover from this have "unat (of_nat i :: u8) = i"
    using inv by (intro u8_unat_of_nat) (simp add: rr_inv_def rr_ntasks_def)
  ultimately show ?thesis
    using rr_get_next_eq [OF inv] ex i rr_flags_runnable [of "of_nat i" s] by simp
qed

lemma rr_get_next_none:
  assumes "rr_inv s" and "\<And>t. unat t < rr_ntasks s \<Longrightarrow> \<not> rr_is_runnable s t"
  shows "rr_sched_get_next False s = Inr (TASK_ID_NONE, s\<lparr>rr_cur := rr_max_index s\<rparr>)"
proof -
  have "rr_model_next (rr_flags s) (unat (rr_cur s)) = None"
    using assms rr_some_runnable [OF assms(1)]
    by (auto simp: rr_model_next_None_iff rr_ntasks_def)
  then show ?thesis using rr_get_next_eq [OF assms(1), of False] by simp
qed

lemmas rr_contract_defs = rr_ready_def rr_block_def rr_inv_def rr_ntasks_def rr_is_runnable_def

lemma rr_update_laws:
  assumes "rr_inv s" and "unat t < rr_ntasks s"
  shows "rr_sched_set_runnable t s = Inr ((), rr_ready t s)"
    and "rr_sched_set_blocked t s = Inr ((), rr_block t s)"
    and "rr_inv (rr_ready t s)" and "rr_inv (rr_block t s)"
    and "rr_ntasks (rr_ready t s) = rr_ntasks s" and "rr_ntasks (rr_block t s) = rr_ntasks s"
    and "rr_cur (rr_ready t s) = rr_cur s" and "rr_cur (rr_block t s) = rr_cur s"
  using assms
  by (simp_all add: rr_sched_set_runnable_def rr_sched_set_blocked_def array_modify_def
      rr_contract_defs)

lemma rr_runnable_update:
  assumes "rr_inv s" and "unat t < rr_ntasks s" and "unat u < rr_ntasks s"
  shows "rr_is_runnable (rr_ready t s) u \<longleftrightarrow> u = t \<or> rr_is_runnable s u"
    and "rr_is_runnable (rr_block t s) u \<longleftrightarrow> u \<noteq> t \<and> rr_is_runnable s u"
  using assms by (simp_all add: rr_contract_defs word_nth_update)

lemma rr_ntasks_bound: "rr_inv s \<Longrightarrow> rr_ntasks s \<le> 255"
  by (simp add: rr_contract_defs)

lemma rr_next_laws:
  assumes "rr_inv s" and "rr_sched_get_next assume_runnable s = Inr (u, s')"
  shows "rr_inv s'" and "rr_ntasks s' = rr_ntasks s" and "rr_is_runnable s' = rr_is_runnable s"
  using rr_get_next_inv [OF assms] by (simp_all add: rr_ntasks_def rr_is_runnable_def fun_eq_iff)

lemmas rr_laws = rr_update_laws rr_runnable_update rr_ntasks_bound rr_next_laws

interpretation rr: scheduler rr_sched_set_runnable rr_sched_set_blocked "rr_sched_get_next True"
  rr_ready rr_block rr_inv rr_ntasks rr_is_runnable
proof unfold_locales
  fix s t
  assume "rr_inv s" "unat t < rr_ntasks s" "rr_is_runnable s t"
  then show "\<exists>u s'. rr_sched_get_next True s = Inr (u, s') \<and> unat u < rr_ntasks s \<and> rr_is_runnable s u"
    by (rule rr_get_next_runnable)
qed (rule rr_laws; assumption)+

interpretation rr_idle: idle_scheduler rr_sched_set_runnable rr_sched_set_blocked
  "rr_sched_get_next False" rr_ready rr_block rr_inv rr_ntasks rr_is_runnable
proof unfold_locales
  fix s t
  assume "rr_inv s" "unat t < rr_ntasks s" "rr_is_runnable s t"
  then show "\<exists>u s'. rr_sched_get_next False s = Inr (u, s') \<and> unat u < rr_ntasks s \<and> rr_is_runnable s u"
    by (rule rr_get_next_runnable)
next
  fix s
  assume "rr_inv s" and "\<And>t. unat t < rr_ntasks s \<Longrightarrow> \<not> rr_is_runnable s t"
  then show "\<exists>s'. rr_sched_get_next False s = Inr (TASK_ID_NONE, s')"
    using rr_get_next_none by blast
qed (rule rr_laws; assumption)+

section \<open>Bounded waiting\<close>

text \<open>
  A round is any sequence of \<open>sched_set_runnable\<close> and \<open>sched_set_blocked\<close> calls followed by one
  \<open>sched_get_next\<close>; \<open>rr_rounds\<close> collects the tasks the rounds pick.
\<close>

datatype rr_update = Rr_Ready u8 | Rr_Block u8

fun rr_update_run :: "rr_update \<Rightarrow> (rr_sched, unit) kop" where
  "rr_update_run (Rr_Ready t) = rr_sched_set_runnable t"
| "rr_update_run (Rr_Block t) = rr_sched_set_blocked t"

fun rr_rounds :: "bool \<Rightarrow> rr_update list list \<Rightarrow> (rr_sched, u8 list) kop" where
  "rr_rounds assume_runnable [] = kreturn []"
| "rr_rounds assume_runnable (us # uss) =
     kbind (kseq (map rr_update_run us)) (\<lambda>_.
     kbind (rr_sched_get_next assume_runnable) (\<lambda>t.
     kbind (rr_rounds assume_runnable uss) (\<lambda>ts. kreturn (t # ts))))"

fun rr_update_keeps :: "u8 \<Rightarrow> nat \<Rightarrow> rr_update \<Rightarrow> bool" where
  "rr_update_keeps t n (Rr_Ready u) \<longleftrightarrow> unat u < n"
| "rr_update_keeps t n (Rr_Block u) \<longleftrightarrow> unat u < n \<and> u \<noteq> t"

definition rr_distance :: "nat \<Rightarrow> nat \<Rightarrow> nat \<Rightarrow> nat" where
  "rr_distance cur t n = (if cur < t then t - cur - 1 else t + n - cur - 1)"

lemma rr_distance_less: "cur < n \<Longrightarrow> t < n \<Longrightarrow> rr_distance cur t n < n"
  by (auto simp: rr_distance_def)

lemma rr_distance_pos:
  assumes "cur < n" and "t < n"
  shows "(cur + Suc (rr_distance cur t n)) mod n = t"
  using assms by (auto simp: rr_distance_def mod_if)

text \<open>The pick is at most as far as \<open>t\<close>; when it is not \<open>t\<close>, it brings \<open>t\<close> nearer.\<close>

lemma rr_model_next_distance:
  assumes "cur < length rs" and "t < length rs" and "rs ! t"
  shows "\<exists>i. rr_model_next rs cur = Some i \<and>
    (i = t \<or> i < length rs \<and> rr_distance i t (length rs) < rr_distance cur t (length rs))"
proof -
  let ?n = "length rs" and ?d = "rr_distance cur t (length rs)"
  let ?xs = "map (\<lambda>j. (cur + Suc j) mod ?n) [0..<?n]"
  have d: "?d < ?n" using assms by (rule_tac rr_distance_less)
  obtain i where i: "rr_model_next rs cur = Some i"
    using assms rr_model_next_None_iff [of rs cur] by (cases "rr_model_next rs cur") auto
  then have "find (\<lambda>i. rs ! i) ?xs = Some i"
    using assms(1) by (simp only: rr_model_next_def rr_order_map)
  then obtain k where k: "k < ?n" "i = (cur + Suc k) mod ?n"
    and least: "\<forall>j < k. \<not> rs ! ((cur + Suc j) mod ?n)"
    by (auto simp: find_Some_iff)
  have "rs ! ((cur + Suc ?d) mod ?n)"
    using assms by (simp only: rr_distance_pos)
  then have "k \<le> ?d" using least by (meson not_le)
  then consider "k = ?d" | "k < ?d" by linarith
  then have "i = t \<or> i < ?n \<and> rr_distance i t ?n < ?d"
  proof cases
    case 1
    then show ?thesis using k assms by (simp add: rr_distance_pos del: add_Suc_right)
  next
    case 2
    have i': "i = (if cur + Suc k < ?n then cur + Suc k else cur + Suc k - ?n)"
      using k assms(1) by (simp add: mod_if)
    have "i < ?n" using i' k(1) assms(1) by (cases "cur + Suc k < ?n") simp_all
    moreover have "rr_distance i t ?n < ?d"
    proof (cases "cur + Suc k < ?n")
      case True
      then have "i = cur + Suc k" using i' by simp
      then show ?thesis using 2 assms(1,2) unfolding rr_distance_def by (simp split: if_splits; linarith)
    next
      case False
      then have "i = cur + Suc k - ?n" using i' by simp
      then show ?thesis using False 2 assms(1,2) unfolding rr_distance_def by (simp split: if_splits; linarith)
    qed
    ultimately show ?thesis by simp
  qed
  then show ?thesis using i by blast
qed

lemma rr_updates_keep:
  assumes "rr_inv s" and "unat t < rr_ntasks s" and "rr_is_runnable s t"
    and "\<forall>u \<in> set us. rr_update_keeps t (rr_ntasks s) u"
  shows "\<exists>s'. kseq (map rr_update_run us) s = Inr ((), s') \<and> rr_inv s' \<and> rr_ntasks s' = rr_ntasks s
           \<and> rr_is_runnable s' t \<and> rr_cur s' = rr_cur s"
  using assms
proof (induction us arbitrary: s)
  case Nil
  then show ?case by (simp add: kop_defs)
next
  case (Cons u us)
  have "\<exists>s1. rr_update_run u s = Inr ((), s1) \<and> rr_inv s1 \<and> rr_ntasks s1 = rr_ntasks s
          \<and> rr_is_runnable s1 t \<and> rr_cur s1 = rr_cur s"
    using Cons.prems
    by (cases u) (simp_all add: rr_update_laws rr_runnable_update eq_commute [of t])
  then obtain s1 where "rr_update_run u s = Inr ((), s1)" "rr_inv s1" "rr_ntasks s1 = rr_ntasks s"
    "rr_is_runnable s1 t" "rr_cur s1 = rr_cur s" by blast
  with Cons.IH [of s1] Cons.prems show ?case by (auto simp: kbind_def)
qed

lemma rr_bounded_waiting_from:
  assumes "rr_inv s" and "unat t < rr_ntasks s" and "rr_is_runnable s t"
    and "\<forall>us \<in> set uss. \<forall>u \<in> set us. rr_update_keeps t (rr_ntasks s) u"
  shows "\<exists>ts s'. rr_rounds assume_runnable uss s = Inr (ts, s')
    \<and> (rr_distance (unat (rr_cur s)) (unat t) (rr_ntasks s) < length uss \<longrightarrow> t \<in> set ts)"
  using assms
proof (induction uss arbitrary: s)
  case Nil
  then show ?case by (simp add: kop_defs)
next
  case (Cons us uss)
  obtain s1 where s1: "kseq (map rr_update_run us) s = Inr ((), s1)" "rr_inv s1"
    "rr_ntasks s1 = rr_ntasks s" "rr_is_runnable s1 t" "rr_cur s1 = rr_cur s"
    using rr_updates_keep [of s t us] Cons.prems by auto
  have n: "length (rr_flags s1) = rr_ntasks s"
    using s1 by (simp add: rr_ntasks_def)
  have cur: "unat (rr_cur s) < length (rr_flags s1)"
    using s1 by (simp add: rr_inv_def)
  have t: "unat t < length (rr_flags s1)" using Cons.prems n by simp
  have flag: "rr_flags s1 ! unat t"
    using rr_flags_runnable [of t s1] s1 Cons.prems by simp
  obtain i where i: "rr_model_next (rr_flags s1) (unat (rr_cur s)) = Some i"
    and near: "i = unat t \<or> i < rr_ntasks s \<and> rr_distance i (unat t) (rr_ntasks s)
         < rr_distance (unat (rr_cur s)) (unat t) (rr_ntasks s)"
    using rr_model_next_distance [OF cur t flag] unfolding n by blast
  have bound: "i < 256" using near Cons.prems(1,2) by (auto simp: rr_inv_def rr_ntasks_def)
  have "\<exists>i < rr_ntasks s1. rr_flags s1 ! i" using flag t n s1(3) by auto
  then have nxt: "rr_sched_get_next assume_runnable s1 = Inr (of_nat i, s1\<lparr>rr_cur := of_nat i\<rparr>)"
    using rr_get_next_eq [OF s1(2), of assume_runnable] s1(5) i by simp
  let ?s2 = "s1\<lparr>rr_cur := of_nat i\<rparr>"
  have s2: "rr_inv ?s2" "rr_ntasks ?s2 = rr_ntasks s" "rr_is_runnable ?s2 t"
    using rr_get_next_inv [OF s1(2) nxt] s1 by (simp_all add: rr_ntasks_def rr_is_runnable_def)
  then obtain ts s' where rest: "rr_rounds assume_runnable uss ?s2 = Inr (ts, s')"
    and found: "rr_distance i (unat t) (rr_ntasks s) < length uss \<longrightarrow> t \<in> set ts"
    using Cons.IH [of ?s2] Cons.prems bound by (auto simp: u8_unat_of_nat)
  have "rr_rounds assume_runnable (us # uss) s = Inr (of_nat i # ts, s')"
    using s1(1) nxt rest by (simp add: kop_defs)
  moreover have "rr_distance (unat (rr_cur s)) (unat t) (rr_ntasks s) < Suc (length uss) \<longrightarrow>
      t \<in> set (of_nat i # ts)"
    using near found by auto
  ultimately show ?case by auto
qed

section \<open>Properties\<close>

text \<open>
  C27: \<open>sched_get_next\<close> is the round robin of the reference: of the flags in the order that starts after
  the current index and wraps around, it picks the first that is set, and makes it the current index.
  When none is set, the version that does not assume a runnable task returns no task, and starts with
  task 0 the next time; the version that does never returns.
\<close>

theorem rr_sched_get_next_reference:
  assumes "rr_inv s"
  shows "rr_sched_get_next assume_runnable s =
    (case rr_model_next (rr_flags s) (unat (rr_cur s)) of
       Some i \<Rightarrow> Inr (of_nat i, s\<lparr>rr_cur := of_nat i\<rparr>)
     | None \<Rightarrow> if assume_runnable then Inl Diverges else Inr (TASK_ID_NONE, s\<lparr>rr_cur := rr_max_index s\<rparr>))"
proof (cases "\<exists>i < rr_ntasks s. rr_flags s ! i")
  case True
  then have "rr_model_next (rr_flags s) (unat (rr_cur s)) \<noteq> None"
    by (auto simp: rr_model_next_None_iff rr_ntasks_def)
  then show ?thesis using rr_get_next_eq [OF assms, of assume_runnable] True by (auto split: option.splits)
next
  case False
  then have "rr_model_next (rr_flags s) (unat (rr_cur s)) = None"
    by (auto simp: rr_model_next_None_iff rr_ntasks_def)
  then show ?thesis
    using rr_get_next_eq [OF assms, of False] rr_get_next_diverges [OF assms] False by (cases assume_runnable) auto
qed

definition rr_example :: "u8 \<Rightarrow> bool list \<Rightarrow> rr_sched" where
  "rr_example cur flags = \<lparr>rr_cur = cur, rr_tasks = map (\<lambda>b. \<lparr>rr_runnable = b\<rparr>) flags\<rparr>"

theorem rr_sched_get_next_reference_witness:
  "rr_sched_get_next False (rr_example 2 [False, True, True]) = Inr (1, rr_example 1 [False, True, True])"
proof -
  have "rr_inv (rr_example 2 [False, True, True])" by (simp add: rr_inv_def rr_example_def)
  moreover have "rr_model_next [False, True, True] 2 = Some 1" by code_simp
  ultimately show ?thesis
    using rr_sched_get_next_reference [of "rr_example 2 [False, True, True]" False] by (simp add: rr_example_def)
qed

text \<open>
  C24: No task starves: a task that is runnable, and that nobody blocks, is picked within as many
  scheduling decisions as there are tasks, whatever other tasks are made runnable or blocked between
  the decisions.
\<close>

theorem rr_bounded_waiting:
  assumes "rr_inv s" and "unat t < rr_ntasks s" and "rr_is_runnable s t"
    and "length uss = rr_ntasks s" and "\<forall>us \<in> set uss. \<forall>u \<in> set us. rr_update_keeps t (rr_ntasks s) u"
  shows "\<exists>ts s'. rr_rounds assume_runnable uss s = Inr (ts, s') \<and> t \<in> set ts"
  using rr_bounded_waiting_from [OF assms(1,2,3,5), of assume_runnable] assms
    rr_distance_less [of "unat (rr_cur s)" "rr_ntasks s" "unat t"]
  by (auto simp: rr_inv_def rr_ntasks_def)

theorem rr_bounded_waiting_witness:
  "\<exists>ts s'. rr_rounds False [[Rr_Ready 0], [Rr_Block 2], []] (rr_example 0 [False, True, True]) = Inr (ts, s') \<and> 1 \<in> set ts"
  by (rule rr_bounded_waiting) (simp_all add: rr_inv_def rr_ntasks_def rr_is_runnable_def rr_example_def)

end
