(* ===== verification/Sched_Prio.thy ===== *)
theory Sched_Prio
  imports Scheduler_Interface
begin

text \<open>
  The fixed-priority scheduler (\<open>components/sched-prio\<close>). The task table is sorted by descending
  priority, so the task with the least index is the most urgent one. With \<open>assume_runnable\<close> the
  result variable has no initial value; the model takes the value found there as \<open>undef\<close>.
\<close>

section \<open>Model\<close>

record prio_task =
  prio_runnable :: bool

record prio_sched =
  prio_tasks :: "prio_task list"

definition prio_max_index :: "prio_sched \<Rightarrow> u8" where
  "prio_max_index s = of_nat (length (prio_tasks s)) - 1"

definition prio_sched_set_runnable :: "u8 \<Rightarrow> (prio_sched, unit) kop" where
  "prio_sched_set_runnable task_id =
     array_modify prio_tasks prio_tasks_update task_id (\<lambda>obj. obj\<lparr>prio_runnable := True\<rparr>)"

definition prio_sched_set_blocked :: "u8 \<Rightarrow> (prio_sched, unit) kop" where
  "prio_sched_set_blocked task_id =
     array_modify prio_tasks prio_tasks_update task_id (\<lambda>obj. obj\<lparr>prio_runnable := False\<rparr>)"

definition prio_sched_get_next :: "bool \<Rightarrow> u8 \<Rightarrow> (prio_sched, u8) kop" where
  "prio_sched_get_next assume_runnable undef s =
     for_break 0 (prio_max_index s)
       (\<lambda>idx task. kbind (array_read prio_tasks idx) (\<lambda>obj.
          kreturn (if prio_runnable obj then (idx, True) else (task, False))))
       (if assume_runnable then undef else TASK_ID_NONE) s"

section \<open>Invariant and abstraction\<close>

definition prio_inv :: "prio_sched \<Rightarrow> bool" where
  "prio_inv s \<longleftrightarrow> 0 < length (prio_tasks s) \<and> length (prio_tasks s) \<le> 255"

definition prio_ntasks :: "prio_sched \<Rightarrow> nat" where
  "prio_ntasks s = length (prio_tasks s)"

definition prio_is_runnable :: "prio_sched \<Rightarrow> u8 \<Rightarrow> bool" where
  "prio_is_runnable s t = prio_runnable (prio_tasks s ! unat t)"

definition prio_ready :: "u8 \<Rightarrow> prio_sched \<Rightarrow> prio_sched" where
  "prio_ready t s =
     s\<lparr>prio_tasks := (prio_tasks s)[unat t := (prio_tasks s ! unat t)\<lparr>prio_runnable := True\<rparr>]\<rparr>"

definition prio_block :: "u8 \<Rightarrow> prio_sched \<Rightarrow> prio_sched" where
  "prio_block t s =
     s\<lparr>prio_tasks := (prio_tasks s)[unat t := (prio_tasks s ! unat t)\<lparr>prio_runnable := False\<rparr>]\<rparr>"

lemmas prio_contract_defs =
  prio_inv_def prio_ntasks_def prio_is_runnable_def prio_ready_def prio_block_def

section \<open>Correctness\<close>

lemma prio_ntasks_bound: "prio_inv s \<Longrightarrow> prio_ntasks s \<le> 255"
  by (simp add: prio_contract_defs)

lemma prio_get_next_eq:
  assumes "prio_inv s"
  shows "prio_sched_get_next assume_runnable undef s =
     Inr (break_fold (\<lambda>idx task. if prio_is_runnable s idx then idx else task) (prio_is_runnable s)
            (ids (prio_ntasks s)) (if assume_runnable then undef else TASK_ID_NONE), s)"
proof -
  have n: "0 < length (prio_tasks s)" "length (prio_tasks s) \<le> 255"
    using assms by (simp_all add: prio_inv_def)
  note idx = max_index_unat [OF n, folded prio_max_index_def]
  have less: "unat i < length (prio_tasks s)" if "i \<le> prio_max_index s" for i
    using that idx(1) by (simp add: word_le_nat_alt)
  show ?thesis
    unfolding prio_sched_get_next_def prio_ntasks_def idx(1) [symmetric]
    by (rule for_break_pure [OF idx(2)])
       (simp add: kop_defs less prio_is_runnable_def)
qed

text \<open>The pick is the runnable task with the least index, that is, the highest priority.\<close>

lemma prio_get_next_least:
  assumes "prio_inv s" and "unat t < prio_ntasks s" and "prio_is_runnable s t"
  shows "\<exists>u. prio_sched_get_next assume_runnable undef s = Inr (u, s) \<and> unat u < prio_ntasks s
           \<and> prio_is_runnable s u \<and> (\<forall>v. v < u \<longrightarrow> \<not> prio_is_runnable s v)"
proof -
  let ?g = "\<lambda>idx task. if prio_is_runnable s idx then idx else task"
    and ?acc = "if assume_runnable then undef else TASK_ID_NONE"
  obtain j where "unat j < prio_ntasks s" "prio_is_runnable s j"
    "\<forall>x. x < j \<longrightarrow> \<not> prio_is_runnable s x"
    and "break_fold ?g (prio_is_runnable s) (ids (prio_ntasks s)) ?acc
       = ?g j (break_fold ?g (prio_is_runnable s) (ids (unat j)) ?acc)"
    using break_fold_ids [where P = "prio_is_runnable s" and g = ?g and acc = ?acc,
        OF prio_ntasks_bound [OF assms(1)] assms(2,3)] by blast
  then show ?thesis
    unfolding prio_get_next_eq [OF assms(1)] by (intro exI [of _ j]) simp
qed

lemma prio_get_next_none:
  assumes "prio_inv s" and "\<And>t. unat t < prio_ntasks s \<Longrightarrow> \<not> prio_is_runnable s t"
  shows "prio_sched_get_next assume_runnable undef s =
           Inr (if assume_runnable then undef else TASK_ID_NONE, s)"
proof -
  have none: "\<forall>t \<in> set (ids (prio_ntasks s)). \<not> prio_is_runnable s t"
    using assms by (simp add: set_ids prio_inv_def prio_ntasks_def)
  have "fold (\<lambda>idx task. if prio_is_runnable s idx then idx else task) is acc = acc"
    if "\<forall>t \<in> set is. \<not> prio_is_runnable s t" for "is" acc
    using that by (induction "is") auto
  with none show ?thesis
    by (simp add: prio_get_next_eq [OF assms(1)] break_fold_none)
qed

section \<open>The scheduler contract\<close>

lemma prio_update_laws:
  assumes "prio_inv s" and "unat t < prio_ntasks s"
  shows "prio_sched_set_runnable t s = Inr ((), prio_ready t s)"
    and "prio_sched_set_blocked t s = Inr ((), prio_block t s)"
    and "prio_inv (prio_ready t s)" and "prio_inv (prio_block t s)"
    and "prio_ntasks (prio_ready t s) = prio_ntasks s"
    and "prio_ntasks (prio_block t s) = prio_ntasks s"
  using assms
  by (simp_all add: prio_sched_set_runnable_def prio_sched_set_blocked_def array_modify_def
      prio_contract_defs)

lemma prio_runnable_update:
  assumes "prio_inv s" and "unat t < prio_ntasks s" and "unat u < prio_ntasks s"
  shows "prio_is_runnable (prio_ready t s) u \<longleftrightarrow> u = t \<or> prio_is_runnable s u"
    and "prio_is_runnable (prio_block t s) u \<longleftrightarrow> u \<noteq> t \<and> prio_is_runnable s u"
  using assms by (simp_all add: prio_contract_defs word_nth_update)

lemma prio_next_laws:
  assumes "prio_inv s" and "prio_sched_get_next assume_runnable undef s = Inr (u, s')"
  shows "prio_inv s'" and "prio_ntasks s' = prio_ntasks s"
    and "prio_is_runnable s' = prio_is_runnable s"
  using assms by (simp_all add: prio_get_next_eq)

lemma prio_next_runnable:
  assumes "prio_inv s" and "unat t < prio_ntasks s" and "prio_is_runnable s t"
  shows "\<exists>u s'. prio_sched_get_next assume_runnable undef s = Inr (u, s')
           \<and> unat u < prio_ntasks s \<and> prio_is_runnable s u"
  using prio_get_next_least [OF assms] by blast

lemma prio_next_none:
  "prio_inv s \<Longrightarrow> (\<And>t. unat t < prio_ntasks s \<Longrightarrow> \<not> prio_is_runnable s t) \<Longrightarrow>
     \<exists>s'. prio_sched_get_next False undef s = Inr (TASK_ID_NONE, s')"
  using prio_get_next_none [of s False undef] by auto

lemmas prio_laws =
  prio_update_laws prio_runnable_update prio_ntasks_bound prio_next_laws prio_next_runnable

interpretation prio: scheduler prio_sched_set_runnable prio_sched_set_blocked
  "prio_sched_get_next True undef" prio_ready prio_block prio_inv prio_ntasks prio_is_runnable
  by unfold_locales (rule prio_laws; assumption)+

interpretation prio_idle: idle_scheduler prio_sched_set_runnable prio_sched_set_blocked
  "prio_sched_get_next False undef" prio_ready prio_block prio_inv prio_ntasks prio_is_runnable
  by unfold_locales (rule prio_laws prio_next_none; assumption | blast)+

section \<open>Properties\<close>

text \<open>
  The scheduler picks the runnable task with the smallest identifier, that is the highest priority,
  and no task when none is runnable. It changes nothing.
\<close>

theorem prio_sched_get_next_most_urgent:
  assumes "prio_inv s"
  shows "\<exists>u. prio_sched_get_next False undef s = Inr (u, s) \<and>
    (if u = TASK_ID_NONE then \<forall>t. unat t < prio_ntasks s \<longrightarrow> \<not> prio_is_runnable s t
     else unat u < prio_ntasks s \<and> prio_is_runnable s u \<and> (\<forall>v. v < u \<longrightarrow> \<not> prio_is_runnable s v))"
proof (cases "\<exists>t. unat t < prio_ntasks s \<and> prio_is_runnable s t")
  case True
  then obtain u where u: "prio_sched_get_next False undef s = Inr (u, s)" "unat u < prio_ntasks s"
    "prio_is_runnable s u" "\<forall>v. v < u \<longrightarrow> \<not> prio_is_runnable s v"
    using prio_get_next_least [OF assms, where assume_runnable = False] by blast
  moreover have "u \<noteq> TASK_ID_NONE" using u(2) prio_ntasks_bound [OF assms] by (auto simp: TASK_ID_NONE_def)
  ultimately show ?thesis by auto
next
  case False
  then show ?thesis using prio_get_next_none [OF assms, of False] by auto
qed

definition prio_example :: "bool list \<Rightarrow> prio_sched" where
  "prio_example flags = \<lparr>prio_tasks = map (\<lambda>b. \<lparr>prio_runnable = b\<rparr>) flags\<rparr>"

theorem prio_sched_get_next_most_urgent_witness:
  "\<exists>u. prio_sched_get_next False 0 (prio_example [False, True, True]) = Inr (u, prio_example [False, True, True]) \<and> u \<le> 1"
proof -
  let ?s = "prio_example [False, True, True]"
  have inv: "prio_inv ?s" by (simp add: prio_inv_def prio_example_def)
  have one: "prio_is_runnable ?s 1" "unat (1::u8) < prio_ntasks ?s"
    by (simp_all add: prio_is_runnable_def prio_ntasks_def prio_example_def)
  show ?thesis
    using prio_sched_get_next_most_urgent [OF inv, of 0] one by (auto simp: not_less [symmetric] split: if_splits)
qed

end
