(* ===== verification/Sched_Prio_Inherit.thy ===== *)
theory Sched_Prio_Inherit
  imports Scheduler_Interface
begin

text \<open>
  The priority-inheritance scheduler (\<open>components/sched-prio-inherit\<close>). Each task records the task
  it is blocked on: itself when it is runnable, no task when it waits for an event. The scheduler
  runs the task that the most urgent task is, directly or indirectly, waiting for.
\<close>

section \<open>Model\<close>

record pi_task =
  pi_blocked_on :: u8

record pi_sched =
  pi_tasks :: "pi_task list"

definition pi_max_index :: "pi_sched \<Rightarrow> u8" where
  "pi_max_index s = of_nat (length (pi_tasks s)) - 1"

definition pi_sched_set_runnable :: "u8 \<Rightarrow> (pi_sched, unit) kop" where
  "pi_sched_set_runnable task_id =
     array_modify pi_tasks pi_tasks_update task_id (\<lambda>obj. obj\<lparr>pi_blocked_on := task_id\<rparr>)"

definition pi_sched_set_blocked_on :: "u8 \<Rightarrow> u8 \<Rightarrow> (pi_sched, unit) kop" where
  "pi_sched_set_blocked_on task_id blocker =
     array_modify pi_tasks pi_tasks_update task_id (\<lambda>obj. obj\<lparr>pi_blocked_on := blocker\<rparr>)"

definition pi_sched_set_blocked :: "u8 \<Rightarrow> (pi_sched, unit) kop" where
  "pi_sched_set_blocked task_id = pi_sched_set_blocked_on task_id TASK_ID_NONE"

text \<open>
  The inner do-while loop; the result says whether it left by \<open>goto found\<close>. The variable \<open>task\<close>
  takes at most 256 values and the table does not change, so a run of 256 iterations that does not
  end has repeated a value and never ends.
\<close>

fun pi_chain :: "nat \<Rightarrow> u8 \<Rightarrow> (pi_sched, u8 \<times> bool) kop" where
  "pi_chain 0 task s = Inl Diverges"
| "pi_chain (Suc fuel) task s =
     (case array_read pi_tasks task s of
        Inl e \<Rightarrow> Inl e
      | Inr (obj, _) \<Rightarrow>
          let next_task = pi_blocked_on obj in
          if next_task = task then Inr ((task, True), s)
          else if next_task \<noteq> TASK_ID_NONE then pi_chain fuel next_task s
          else Inr ((next_task, False), s))"

definition pi_sched_get_next :: "u8 \<Rightarrow> (pi_sched, u8) kop" where
  "pi_sched_get_next undef s =
     for_break 0 (pi_max_index s) (\<lambda>idx task. pi_chain 256 idx) undef s"

section \<open>Chains of blocked tasks\<close>

definition pi_ntasks :: "pi_sched \<Rightarrow> nat" where
  "pi_ntasks s = length (pi_tasks s)"

definition pi_next :: "pi_sched \<Rightarrow> u8 \<Rightarrow> u8" where
  "pi_next s t = pi_blocked_on (pi_tasks s ! unat t)"

definition pi_is_runnable :: "pi_sched \<Rightarrow> u8 \<Rightarrow> bool" where
  "pi_is_runnable s t \<longleftrightarrow> pi_next s t = t"

text \<open>
  \<open>pi_serves s t u\<close>: task \<open>t\<close> is runnable and \<open>u = t\<close>, or it is blocked on a task that leads to the
  runnable task \<open>u\<close>. \<open>pi_waits s t\<close>: the chain that starts at \<open>t\<close> ends with a task that waits for
  no task. A task for which neither holds is in, or leads into, a cycle of tasks blocked on one
  another.
\<close>

inductive pi_serves :: "pi_sched \<Rightarrow> u8 \<Rightarrow> u8 \<Rightarrow> bool" for s where
  pi_serves_self: "unat t < pi_ntasks s \<Longrightarrow> pi_next s t = t \<Longrightarrow> pi_serves s t t"
| pi_serves_next: "unat t < pi_ntasks s \<Longrightarrow> pi_next s t \<noteq> t \<Longrightarrow> pi_next s t \<noteq> TASK_ID_NONE \<Longrightarrow>
    pi_serves s (pi_next s t) u \<Longrightarrow> pi_serves s t u"

inductive pi_waits :: "pi_sched \<Rightarrow> u8 \<Rightarrow> bool" for s where
  pi_waits_none: "unat t < pi_ntasks s \<Longrightarrow> pi_next s t \<noteq> t \<Longrightarrow> pi_next s t = TASK_ID_NONE \<Longrightarrow>
    pi_waits s t"
| pi_waits_next: "unat t < pi_ntasks s \<Longrightarrow> pi_next s t \<noteq> t \<Longrightarrow> pi_next s t \<noteq> TASK_ID_NONE \<Longrightarrow>
    pi_waits s (pi_next s t) \<Longrightarrow> pi_waits s t"

definition pi_closed :: "pi_sched \<Rightarrow> bool" where
  "pi_closed s \<longleftrightarrow> 0 < pi_ntasks s \<and> pi_ntasks s \<le> 255 \<and>
     (\<forall>t. unat t < pi_ntasks s \<longrightarrow> pi_next s t = TASK_ID_NONE \<or> unat (pi_next s t) < pi_ntasks s)"

definition pi_cyclic :: "pi_sched \<Rightarrow> u8 \<Rightarrow> bool" where
  "pi_cyclic s t \<longleftrightarrow> \<not> pi_waits s t \<and> (\<forall>u. \<not> pi_serves s t u)"

lemma pi_serves_runnable: "pi_serves s t u \<Longrightarrow> unat u < pi_ntasks s \<and> pi_is_runnable s u"
  by (induction rule: pi_serves.induct) (auto simp: pi_is_runnable_def)

lemma pi_serves_self_iff:
  "unat t < pi_ntasks s \<Longrightarrow> pi_next s t = t \<Longrightarrow> pi_serves s t u \<longleftrightarrow> u = t"
  by (subst pi_serves.simps) auto

lemma pi_serves_step_iff:
  "unat t < pi_ntasks s \<Longrightarrow> pi_next s t \<noteq> t \<Longrightarrow> pi_next s t \<noteq> TASK_ID_NONE \<Longrightarrow>
     pi_serves s t u \<longleftrightarrow> pi_serves s (pi_next s t) u"
  by (subst pi_serves.simps) auto

lemma pi_waits_self_iff:
  "unat t < pi_ntasks s \<Longrightarrow> pi_next s t = t \<Longrightarrow> \<not> pi_waits s t"
  by (subst pi_waits.simps) auto

lemma pi_waits_step_iff:
  "unat t < pi_ntasks s \<Longrightarrow> pi_next s t \<noteq> t \<Longrightarrow> pi_next s t \<noteq> TASK_ID_NONE \<Longrightarrow>
     pi_waits s t \<longleftrightarrow> pi_waits s (pi_next s t)"
  by (subst pi_waits.simps) auto

lemmas pi_chain_simps =
  pi_serves_self_iff pi_serves_step_iff pi_waits_self_iff pi_waits_step_iff

lemma pi_serves_unique: "pi_serves s t u \<Longrightarrow> pi_serves s t v \<Longrightarrow> u = v"
  by (induction rule: pi_serves.induct) (simp_all add: pi_chain_simps)

lemma pi_serves_not_waits: "pi_serves s t u \<Longrightarrow> \<not> pi_waits s t"
  by (induction rule: pi_serves.induct) (simp_all add: pi_chain_simps)

text \<open>A chain that ends does so within \<open>pi_ntasks s\<close> steps, as it never visits a task twice.\<close>

inductive pi_path :: "pi_sched \<Rightarrow> u8 \<Rightarrow> u8 list \<Rightarrow> bool" for s where
  pi_path_end: "unat t < pi_ntasks s \<Longrightarrow> pi_next s t = t \<or> pi_next s t = TASK_ID_NONE \<Longrightarrow>
    pi_path s t [t]"
| pi_path_step: "unat t < pi_ntasks s \<Longrightarrow> pi_next s t \<noteq> t \<Longrightarrow> pi_next s t \<noteq> TASK_ID_NONE \<Longrightarrow>
    pi_path s (pi_next s t) p \<Longrightarrow> pi_path s t (t # p)"

lemma pi_path_end_iff:
  "unat t < pi_ntasks s \<Longrightarrow> pi_next s t = t \<or> pi_next s t = TASK_ID_NONE \<Longrightarrow>
     pi_path s t p \<longleftrightarrow> p = [t]"
  by (subst pi_path.simps) auto

lemma pi_path_step_iff:
  "unat t < pi_ntasks s \<Longrightarrow> pi_next s t \<noteq> t \<Longrightarrow> pi_next s t \<noteq> TASK_ID_NONE \<Longrightarrow>
     pi_path s t p \<longleftrightarrow> (\<exists>q. p = t # q \<and> pi_path s (pi_next s t) q)"
  by (subst pi_path.simps) auto

lemma pi_path_unique: "pi_path s t p \<Longrightarrow> pi_path s t q \<Longrightarrow> p = q"
proof (induction arbitrary: q rule: pi_path.induct)
  case (pi_path_end t)
  then show ?case by (simp add: pi_path_end_iff)
next
  case (pi_path_step t p)
  then obtain q' where "q = t # q'" and "pi_path s (pi_next s t) q'"
    using pi_path_step_iff [of t s q] by blast
  with pi_path_step.IH show ?case by simp
qed

lemma pi_path_suffix:
  "pi_path s t p \<Longrightarrow> u \<in> set p \<Longrightarrow> \<exists>xs q. p = xs @ q \<and> pi_path s u q"
proof (induction rule: pi_path.induct)
  case (pi_path_end t)
  then have "[t] = [] @ [t] \<and> pi_path s u [t]" by (simp add: pi_path_end_iff)
  then show ?case by blast
next
  case (pi_path_step t p)
  show ?case
  proof (cases "u = t")
    case True
    then have "t # p = [] @ (t # p) \<and> pi_path s u (t # p)"
      using pi_path_step by (simp add: pi_path_step_iff)
    then show ?thesis by blast
  next
    case False
    then obtain xs q where "p = xs @ q" "pi_path s u q"
      using pi_path_step by auto
    then have "t # p = (t # xs) @ q \<and> pi_path s u q" by simp
    then show ?thesis by blast
  qed
qed

lemma pi_path_distinct: "pi_path s t p \<Longrightarrow> distinct p \<and> (\<forall>u \<in> set p. unat u < pi_ntasks s)"
proof (induction rule: pi_path.induct)
  case (pi_path_end t)
  then show ?case by simp
next
  case (pi_path_step t p)
  have "t \<notin> set p"
  proof
    assume "t \<in> set p"
    then obtain xs q where "p = xs @ q" and "pi_path s t q"
      using pi_path_suffix pi_path_step.hyps(4) by blast
    moreover from this have "q = t # p"
      using pi_path_unique pi_path.pi_path_step [OF pi_path_step.hyps] by blast
    ultimately show False by simp
  qed
  then show ?case using pi_path_step by simp
qed

lemma pi_path_length:
  assumes "pi_path s t p" and "pi_ntasks s \<le> 255"
  shows "length p \<le> pi_ntasks s"
proof -
  have "set p \<subseteq> set (ids (pi_ntasks s))"
    using pi_path_distinct [OF assms(1)] assms(2) by (auto simp: set_ids)
  then have "card (set p) \<le> card (set (ids (pi_ntasks s)))"
    by (intro card_mono) simp_all
  then show ?thesis
    using pi_path_distinct [OF assms(1)] distinct_ids [OF assms(2)]
    by (simp add: distinct_card)
qed

lemma pi_serves_path: "pi_serves s t u \<Longrightarrow> \<exists>p. pi_path s t p"
  by (induction rule: pi_serves.induct) (blast intro: pi_path.intros)+

lemma pi_waits_path: "pi_waits s t \<Longrightarrow> \<exists>p. pi_path s t p"
  by (induction rule: pi_waits.induct) (blast intro: pi_path.intros)+

section \<open>The inner loop\<close>

lemma pi_chain_path:
  "pi_path s t p \<Longrightarrow> length p \<le> fuel \<Longrightarrow> pi_chain fuel t s =
     (if pi_waits s t then Inr ((TASK_ID_NONE, False), s)
      else Inr ((THE u. pi_serves s t u, True), s))"
proof (induction arbitrary: fuel rule: pi_path.induct)
  case (pi_path_end t)
  then obtain f where f: "fuel = Suc f" by (cases fuel) auto
  show ?case
  proof (cases "pi_next s t = t")
    case True
    have "pi_serves s t t" using True pi_path_end by (auto intro: pi_serves_self)
    then have "(THE u. pi_serves s t u) = t" "\<not> pi_waits s t"
      using pi_serves_unique pi_serves_not_waits by blast+
    then show ?thesis
      using True pi_path_end.hyps(1) f by (simp add: array_read_def pi_ntasks_def pi_next_def)
  next
    case False
    then have "pi_waits s t" using pi_path_end by (auto intro: pi_waits_none)
    then show ?thesis
      using False pi_path_end.hyps f
      by (simp add: array_read_def pi_ntasks_def pi_next_def)
  qed
next
  case (pi_path_step t p)
  then obtain f where f: "fuel = Suc f" and "length p \<le> f" by (cases fuel) auto
  note rec = pi_path_step.IH [OF this(2)]
  have "pi_waits s t \<longleftrightarrow> pi_waits s (pi_next s t)"
    using pi_path_step.hyps by (simp add: pi_chain_simps)
  moreover have "pi_serves s t = pi_serves s (pi_next s t)"
    using pi_path_step.hyps by (simp add: fun_eq_iff pi_chain_simps)
  moreover have "pi_chain fuel t s = pi_chain f (pi_next s t) s"
    using pi_path_step.hyps f by (simp add: array_read_def pi_ntasks_def pi_next_def Let_def)
  ultimately show ?case using rec by simp
qed

lemma pi_chain_serves:
  assumes "pi_serves s t u" and "pi_ntasks s \<le> 255"
  shows "pi_chain 256 t s = Inr ((u, True), s)"
proof -
  obtain p where p: "pi_path s t p" using pi_serves_path [OF assms(1)] by blast
  have "(THE u. pi_serves s t u) = u"
    using assms(1) pi_serves_unique by blast
  then show ?thesis
    using pi_chain_path [OF p, of 256] pi_path_length [OF p assms(2)] assms
      pi_serves_not_waits [OF assms(1)] by simp
qed

lemma pi_chain_waits:
  assumes "pi_waits s t" and "pi_ntasks s \<le> 255"
  shows "pi_chain 256 t s = Inr ((TASK_ID_NONE, False), s)"
proof -
  obtain p where p: "pi_path s t p" using pi_waits_path [OF assms(1)] by blast
  then show ?thesis
    using pi_chain_path [OF p, of 256] pi_path_length [OF p assms(2)] assms by simp
qed

lemma pi_chain_result:
  assumes "pi_closed s"
  shows "unat t < pi_ntasks s \<Longrightarrow> pi_chain fuel t s = Inl Diverges \<or>
     (\<exists>u. pi_chain fuel t s = Inr ((u, True), s) \<and> pi_serves s t u) \<or>
     (pi_chain fuel t s = Inr ((TASK_ID_NONE, False), s) \<and> pi_waits s t)"
proof (induction fuel arbitrary: t)
  case 0
  then show ?case by simp
next
  case (Suc fuel)
  have run: "pi_chain (Suc fuel) t s =
      (if pi_next s t = t then Inr ((t, True), s)
       else if pi_next s t \<noteq> TASK_ID_NONE then pi_chain fuel (pi_next s t) s
       else Inr ((TASK_ID_NONE, False), s))"
    using Suc.prems by (simp add: array_read_def pi_ntasks_def pi_next_def Let_def)
  consider "pi_next s t = t" | "pi_next s t \<noteq> t" "pi_next s t = TASK_ID_NONE"
    | "pi_next s t \<noteq> t" "pi_next s t \<noteq> TASK_ID_NONE" "unat (pi_next s t) < pi_ntasks s"
    using assms Suc.prems by (auto simp: pi_closed_def)
  then show ?case
  proof cases
    case 1
    then show ?thesis using run Suc.prems by (simp add: pi_chain_simps)
  next
    case 2
    then show ?thesis using run Suc.prems by (simp add: pi_waits_none)
  next
    case 3
    then show ?thesis
      using run Suc.IH [of "pi_next s t"] Suc.prems by (simp add: pi_chain_simps)
  qed
qed

lemma pi_chain_diverges_iff:
  assumes "pi_closed s" and "unat t < pi_ntasks s"
  shows "pi_chain 256 t s = Inl Diverges \<longleftrightarrow> pi_cyclic s t"
proof -
  have n: "pi_ntasks s \<le> 255" using assms(1) by (simp add: pi_closed_def)
  show ?thesis
  proof
    assume div: "pi_chain 256 t s = Inl Diverges"
    have "\<not> pi_waits s t" using div pi_chain_waits [OF _ n] by force
    moreover have "\<not> pi_serves s t u" for u using div pi_chain_serves [OF _ n] by force
    ultimately show "pi_cyclic s t" by (simp add: pi_cyclic_def)
  next
    assume "pi_cyclic s t"
    then show "pi_chain 256 t s = Inl Diverges"
      using pi_chain_result [OF assms(1,2), of 256] by (simp add: pi_cyclic_def)
  qed
qed

section \<open>Correctness\<close>

text \<open>
  The search stops at the most urgent task that does not just wait: it returns the task that this
  one leads to, or, if this one is caught in a cycle, never returns.
\<close>

lemma pi_max_index_unat:
  assumes "pi_closed s"
  shows "Suc (unat (pi_max_index s)) = pi_ntasks s"
  unfolding pi_max_index_def pi_ntasks_def
  by (rule max_index_unat) (use assms in \<open>simp_all add: pi_closed_def pi_ntasks_def\<close>)

lemma pi_loop_from:
  assumes "pi_closed s"
  shows "unat i \<le> pi_ntasks s \<Longrightarrow>
    for_break i (pi_max_index s) (\<lambda>idx task. pi_chain 256 idx) acc s =
      (case find (\<lambda>t. \<not> pi_waits s t) (map of_nat [unat i..<pi_ntasks s]) of
         None \<Rightarrow> Inr (if unat i = pi_ntasks s then acc else TASK_ID_NONE, s)
       | Some t \<Rightarrow> if pi_cyclic s t then Inl Diverges else Inr (THE u. pi_serves s t u, s))"
proof (induction "pi_ntasks s - unat i" arbitrary: i acc)
  case 0
  have "Suc (unat (pi_max_index s)) = pi_ntasks s"
    by (rule pi_max_index_unat [OF assms])
  then have "\<not> i \<le> pi_max_index s" using 0 by (simp add: word_le_nat_alt)
  then show ?case using 0 by (simp add: for_break.simps [of i])
next
  case (Suc m)
  have n: "pi_ntasks s \<le> 255" using assms by (simp add: pi_closed_def)
  have last: "Suc (unat (pi_max_index s)) = pi_ntasks s"
    by (rule pi_max_index_unat [OF assms])
  have i: "unat i < pi_ntasks s" using Suc.hyps(2) by simp
  have le: "i \<le> pi_max_index s" using i last by (simp add: word_le_nat_alt)
  have ne: "i \<noteq> 255" using i n by (simp add: u8_not_max_iff)
  have up: "map of_nat [unat i..<pi_ntasks s] = i # map of_nat [unat (i + 1)..<pi_ntasks s]"
    using i ne by (simp add: u8_succ upt_conv_Cons)
  have IH: "for_break (i + 1) (pi_max_index s) (\<lambda>idx task. pi_chain 256 idx) acc' s =
      (case find (\<lambda>t. \<not> pi_waits s t) (map of_nat [unat (i + 1)..<pi_ntasks s]) of
         None \<Rightarrow> Inr (if unat (i + 1) = pi_ntasks s then acc' else TASK_ID_NONE, s)
       | Some t \<Rightarrow> if pi_cyclic s t then Inl Diverges else Inr (THE u. pi_serves s t u, s))" for acc'
    using Suc.hyps i ne by (intro Suc.hyps(1)) (simp_all add: u8_succ)
  consider (waits) "pi_waits s i" | (serves) u where "pi_serves s i u" | (cyclic) "pi_cyclic s i"
    by (auto simp: pi_cyclic_def)
  then show ?case
  proof cases
    case waits
    then show ?thesis
      using IH [of TASK_ID_NONE] le ne i
      by (simp add: for_break.simps [of i] pi_chain_waits [OF _ n] up split: option.split)
  next
    case serves
    have "(THE u. pi_serves s i u) = u" using serves pi_serves_unique by blast
    then show ?thesis
      using serves le pi_serves_not_waits [OF serves]
      by (auto simp: for_break.simps [of i] pi_chain_serves [OF serves n] up pi_cyclic_def)
  next
    case cyclic
    then show ?thesis
      using le pi_chain_diverges_iff [OF assms i]
      by (simp add: for_break.simps [of i] up) (simp add: pi_cyclic_def)
  qed
qed

lemma pi_get_next_eq:
  assumes "pi_closed s"
  shows "pi_sched_get_next undef s =
      (case find (\<lambda>t. \<not> pi_waits s t) (ids (pi_ntasks s)) of
         None \<Rightarrow> Inr (TASK_ID_NONE, s)
       | Some t \<Rightarrow> if pi_cyclic s t then Inl Diverges else Inr (THE u. pi_serves s t u, s))"
  using pi_loop_from [OF assms, of 0 undef] assms
  by (simp add: pi_sched_get_next_def ids_def pi_closed_def split: option.split)

lemma find_ids_Some:
  assumes "n \<le> 255" and "find P (ids n) = Some t"
  shows "unat t < n \<and> P t \<and> (\<forall>v. v < t \<longrightarrow> \<not> P v)"
proof -
  obtain i where i: "i < n" "t = of_nat i" "P t" and least: "\<forall>j < i. \<not> P (of_nat j)"
    using assms(2) by (auto simp: find_Some_iff ids_def)
  have "unat t = i" using i assms(1) by (simp add: u8_unat_of_nat)
  moreover have "\<not> P v" if "v < t" for v
  proof -
    have "unat v < i" using that \<open>unat t = i\<close> by (simp add: word_less_nat_alt)
    then have "\<not> P (of_nat (unat v))" using least by blast
    then show ?thesis by simp
  qed
  ultimately show ?thesis using i by simp
qed

lemma pi_get_next_serves:
  assumes "pi_closed s" and "unat t < pi_ntasks s" and "pi_serves s t u"
    and "\<forall>v. v < t \<longrightarrow> pi_waits s v"
  shows "pi_sched_get_next undef s = Inr (u, s)"
proof -
  have n: "pi_ntasks s \<le> 255" using assms(1) by (simp add: pi_closed_def)
  have mem: "t \<in> set (ids (pi_ntasks s))" using assms(2) n by (simp add: set_ids)
  have nw: "\<not> pi_waits s t" by (rule pi_serves_not_waits [OF assms(3)])
  obtain t' where t': "find (\<lambda>t. \<not> pi_waits s t) (ids (pi_ntasks s)) = Some t'"
    using mem nw by (cases "find (\<lambda>t. \<not> pi_waits s t) (ids (pi_ntasks s))")
      (auto simp: find_None_iff)
  then have "\<not> pi_waits s t'" "\<forall>v. v < t' \<longrightarrow> pi_waits s v"
    using find_ids_Some [OF n t'] by auto
  then have "t' = t" using assms(4) nw by (meson linorder_neqE)
  moreover have "(THE u. pi_serves s t u) = u" using assms(3) pi_serves_unique by blast
  ultimately show ?thesis
    using t' assms(3) by (auto simp: pi_get_next_eq [OF assms(1)] pi_cyclic_def)
qed

lemma pi_get_next_none_iff:
  assumes "pi_closed s"
  shows "pi_sched_get_next undef s = Inr (TASK_ID_NONE, s) \<longleftrightarrow> (\<forall>t. unat t < pi_ntasks s \<longrightarrow> pi_waits s t)"
proof
  have n: "pi_ntasks s \<le> 255" using assms(1) by (simp add: pi_closed_def)
  {
    assume none: "pi_sched_get_next undef s = Inr (TASK_ID_NONE, s)"
    show "\<forall>t. unat t < pi_ntasks s \<longrightarrow> pi_waits s t"
    proof (cases "find (\<lambda>t. \<not> pi_waits s t) (ids (pi_ntasks s))")
      case None
      then show ?thesis using n by (auto simp: find_None_iff set_ids)
    next
      case (Some t)
      then have "\<not> pi_cyclic s t" "\<not> pi_waits s t"
        using none find_ids_Some [OF n Some] by (auto simp: pi_get_next_eq [OF assms])
      then obtain u where u: "pi_serves s t u" by (auto simp: pi_cyclic_def)
      then have "(THE u. pi_serves s t u) = u" using pi_serves_unique by blast
      then have "u = TASK_ID_NONE"
        using none Some \<open>\<not> pi_cyclic s t\<close> by (simp add: pi_get_next_eq [OF assms])
      then show ?thesis
        using pi_serves_runnable [OF u] n by (simp add: TASK_ID_NONE_def)
    qed
  next
    assume "\<forall>t. unat t < pi_ntasks s \<longrightarrow> pi_waits s t"
    then have "find (\<lambda>t. \<not> pi_waits s t) (ids (pi_ntasks s)) = None"
      using n by (auto simp: find_None_iff set_ids)
    then show "pi_sched_get_next undef s = Inr (TASK_ID_NONE, s)"
      by (simp add: pi_get_next_eq [OF assms])
  }
qed

text \<open>The search hangs exactly when a cycle is met before any task that can run.\<close>

lemma pi_get_next_diverges_iff:
  assumes "pi_closed s"
  shows "pi_sched_get_next undef s = Inl Diverges \<longleftrightarrow>
    (\<exists>t. unat t < pi_ntasks s \<and> pi_cyclic s t \<and> (\<forall>v. v < t \<longrightarrow> pi_waits s v))"
proof
  have n: "pi_ntasks s \<le> 255" using assms(1) by (simp add: pi_closed_def)
  {
    assume div: "pi_sched_get_next undef s = Inl Diverges"
    then obtain t where t: "find (\<lambda>t. \<not> pi_waits s t) (ids (pi_ntasks s)) = Some t"
      by (cases "find (\<lambda>t. \<not> pi_waits s t) (ids (pi_ntasks s))")
        (auto simp: pi_get_next_eq [OF assms])
    then have "pi_cyclic s t"
      using div by (auto simp: pi_get_next_eq [OF assms] split: if_splits)
    then show "\<exists>t. unat t < pi_ntasks s \<and> pi_cyclic s t \<and> (\<forall>v. v < t \<longrightarrow> pi_waits s v)"
      using find_ids_Some [OF n t] by auto
  next
    assume "\<exists>t. unat t < pi_ntasks s \<and> pi_cyclic s t \<and> (\<forall>v. v < t \<longrightarrow> pi_waits s v)"
    then obtain t where t: "unat t < pi_ntasks s" "pi_cyclic s t" "\<forall>v. v < t \<longrightarrow> pi_waits s v"
      by blast
    then have "t \<in> set (ids (pi_ntasks s))" "\<not> pi_waits s t"
      using n by (simp_all add: set_ids pi_cyclic_def)
    then obtain t' where t': "find (\<lambda>t. \<not> pi_waits s t) (ids (pi_ntasks s)) = Some t'"
      by (cases "find (\<lambda>t. \<not> pi_waits s t) (ids (pi_ntasks s))") (auto simp: find_None_iff)
    then have "\<not> pi_waits s t'" "\<forall>v. v < t' \<longrightarrow> pi_waits s v"
      using find_ids_Some [OF n t'] by auto
    then have "t' = t" using t \<open>\<not> pi_waits s t\<close> by (meson linorder_neqE)
    then show "pi_sched_get_next undef s = Inl Diverges"
      using t' t(2) by (simp add: pi_get_next_eq [OF assms])
  }
qed

section \<open>The scheduler contract\<close>

definition pi_set :: "u8 \<Rightarrow> u8 \<Rightarrow> pi_sched \<Rightarrow> pi_sched" where
  "pi_set t b s = s\<lparr>pi_tasks := (pi_tasks s)[unat t := (pi_tasks s ! unat t)\<lparr>pi_blocked_on := b\<rparr>]\<rparr>"

text \<open>The invariant of the scheduler: every chain of blocked tasks comes to an end.\<close>

definition pi_inv :: "pi_sched \<Rightarrow> bool" where
  "pi_inv s \<longleftrightarrow> pi_closed s \<and> (\<forall>t. unat t < pi_ntasks s \<longrightarrow> (\<exists>p. pi_path s t p))"

lemma pi_ntasks_set [simp]: "pi_ntasks (pi_set t b s) = pi_ntasks s"
  by (simp add: pi_set_def pi_ntasks_def)

lemma pi_next_set:
  "unat t < pi_ntasks s \<Longrightarrow> pi_next (pi_set t b s) u = (if u = t then b else pi_next s u)"
  by (simp add: pi_set_def pi_next_def pi_ntasks_def word_nth_update)

lemma pi_path_cases:
  "pi_path s t p \<Longrightarrow> pi_waits s t \<or> (\<exists>u. pi_serves s t u)"
proof (induction rule: pi_path.induct)
  case (pi_path_end t)
  then show ?case by (metis pi_serves_self pi_waits_none)
next
  case (pi_path_step t p)
  then show ?case by (simp add: pi_chain_simps)
qed

lemma pi_inv_not_cyclic: "pi_inv s \<Longrightarrow> unat t < pi_ntasks s \<Longrightarrow> \<not> pi_cyclic s t"
  unfolding pi_inv_def pi_cyclic_def using pi_path_cases by blast

lemma pi_path_set_avoid:
  assumes "unat t < pi_ntasks s"
  shows "pi_path s u p \<Longrightarrow> t \<notin> set p \<Longrightarrow> pi_path (pi_set t b s) u p"
proof (induction rule: pi_path.induct)
  case (pi_path_end u)
  then show ?case using assms by (simp add: pi_path_end_iff pi_next_set)
next
  case (pi_path_step u p)
  then show ?case using assms by (auto simp: pi_path_step_iff pi_next_set)
qed

lemma pi_path_set:
  assumes t: "unat t < pi_ntasks s" and new: "pi_path (pi_set t b s) t q"
  shows "pi_path s u p \<Longrightarrow> \<exists>p. pi_path (pi_set t b s) u p"
proof (induction rule: pi_path.induct)
  case (pi_path_end u)
  show ?case
  proof (cases "u = t")
    case False
    then have "pi_path (pi_set t b s) u [u]"
      using pi_path_end t by (simp add: pi_path_end_iff pi_next_set)
    then show ?thesis by blast
  qed (use new in blast)
next
  case (pi_path_step u p)
  show ?case
  proof (cases "u = t")
    case False
    then obtain p' where "pi_path (pi_set t b s) u (u # p')"
      using pi_path_step t by (fastforce simp: pi_path_step_iff pi_next_set)
    then show ?thesis by blast
  qed (use new in blast)
qed

lemma pi_inv_set:
  assumes "pi_inv s" and t: "unat t < pi_ntasks s"
    and b: "b = t \<or> b = TASK_ID_NONE \<or> (\<exists>q. pi_path s b q \<and> t \<notin> set q)"
  shows "pi_inv (pi_set t b s)"
proof -
  have closed: "pi_closed s" and ends: "\<And>u. unat u < pi_ntasks s \<Longrightarrow> \<exists>p. pi_path s u p"
    using assms(1) by (simp_all add: pi_inv_def)
  have "\<exists>q. pi_path (pi_set t b s) t q"
  proof (cases "b = t \<or> b = TASK_ID_NONE")
    case True
    then have "pi_path (pi_set t b s) t [t]"
      using t by (simp add: pi_path_end_iff pi_next_set)
    then show ?thesis by blast
  next
    case False
    then obtain q where q: "pi_path s b q" "t \<notin> set q" using b by blast
    have "pi_path (pi_set t b s) t (t # q)"
      using False t pi_path_set_avoid [OF t q] by (simp add: pi_path_step_iff pi_next_set)
    then show ?thesis by blast
  qed
  then obtain q where q: "pi_path (pi_set t b s) t q" by blast
  have "unat b < pi_ntasks s \<or> b = TASK_ID_NONE"
    using b t by (metis pi_path.cases)
  then have "pi_closed (pi_set t b s)"
    using closed t by (auto simp: pi_closed_def pi_next_set)
  moreover have "\<exists>p. pi_path (pi_set t b s) u p" if "unat u < pi_ntasks s" for u
    using ends [OF that] pi_path_set [OF t q] by blast
  ultimately show ?thesis by (simp add: pi_inv_def)
qed

lemma pi_update_laws:
  assumes "pi_inv s" and "unat t < pi_ntasks s"
  shows "pi_sched_set_runnable t s = Inr ((), pi_set t t s)"
    and "pi_sched_set_blocked t s = Inr ((), pi_set t TASK_ID_NONE s)"
    and "pi_inv (pi_set t t s)" and "pi_inv (pi_set t TASK_ID_NONE s)"
    and "pi_ntasks (pi_set t t s) = pi_ntasks s"
    and "pi_ntasks (pi_set t TASK_ID_NONE s) = pi_ntasks s"
  using assms pi_inv_set [OF assms]
  by (simp_all add: pi_sched_set_runnable_def pi_sched_set_blocked_def pi_sched_set_blocked_on_def
      array_modify_def pi_set_def pi_ntasks_def)

lemma pi_runnable_update:
  assumes "pi_inv s" and "unat t < pi_ntasks s" and "unat u < pi_ntasks s"
  shows "pi_is_runnable (pi_set t t s) u \<longleftrightarrow> u = t \<or> pi_is_runnable s u"
    and "pi_is_runnable (pi_set t TASK_ID_NONE s) u \<longleftrightarrow> u \<noteq> t \<and> pi_is_runnable s u"
proof -
  have "TASK_ID_NONE \<noteq> t"
    using assms by (auto simp: pi_inv_def pi_closed_def TASK_ID_NONE_def)
  then show "pi_is_runnable (pi_set t t s) u \<longleftrightarrow> u = t \<or> pi_is_runnable s u"
    and "pi_is_runnable (pi_set t TASK_ID_NONE s) u \<longleftrightarrow> u \<noteq> t \<and> pi_is_runnable s u"
    using assms by (auto simp: pi_is_runnable_def pi_next_set)
qed

lemma pi_ntasks_bound: "pi_inv s \<Longrightarrow> pi_ntasks s \<le> 255"
  by (simp add: pi_inv_def pi_closed_def)

lemma pi_get_next_cases:
  assumes "pi_inv s"
  shows "\<exists>u. pi_sched_get_next undef s = Inr (u, s) \<and>
    (if u = TASK_ID_NONE then \<forall>t. unat t < pi_ntasks s \<longrightarrow> pi_waits s t
     else \<exists>t. unat t < pi_ntasks s \<and> pi_serves s t u \<and> (\<forall>v. v < t \<longrightarrow> pi_waits s v))"
proof -
  have closed: "pi_closed s" using assms by (simp add: pi_inv_def)
  have n: "pi_ntasks s \<le> 255" by (rule pi_ntasks_bound [OF assms])
  show ?thesis
  proof (cases "find (\<lambda>t. \<not> pi_waits s t) (ids (pi_ntasks s))")
    case None
    then have "\<forall>t. unat t < pi_ntasks s \<longrightarrow> pi_waits s t"
      using n by (auto simp: find_None_iff set_ids)
    then show ?thesis using pi_get_next_none_iff [OF closed] by auto
  next
    case (Some t)
    note t = find_ids_Some [OF n Some]
    then obtain u where u: "pi_serves s t u"
      using pi_inv_not_cyclic [OF assms, of t] by (auto simp: pi_cyclic_def)
    have "u \<noteq> TASK_ID_NONE"
      using pi_serves_runnable [OF u] n by (auto simp: TASK_ID_NONE_def)
    moreover have "pi_sched_get_next undef s = Inr (u, s)"
      using t u by (intro pi_get_next_serves [OF closed]) auto
    ultimately show ?thesis using t u by auto
  qed
qed

lemma pi_next_runnable:
  assumes "pi_inv s" and "unat t < pi_ntasks s" and "pi_is_runnable s t"
  shows "\<exists>u s'. pi_sched_get_next undef s = Inr (u, s') \<and> unat u < pi_ntasks s \<and> pi_is_runnable s u"
proof -
  obtain u where u: "pi_sched_get_next undef s = Inr (u, s)"
    and cases: "if u = TASK_ID_NONE then \<forall>t. unat t < pi_ntasks s \<longrightarrow> pi_waits s t
     else \<exists>t. unat t < pi_ntasks s \<and> pi_serves s t u \<and> (\<forall>v. v < t \<longrightarrow> pi_waits s v)"
    using pi_get_next_cases [OF assms(1)] by blast
  have "\<not> pi_waits s t"
    using assms(2,3) by (simp add: pi_waits_self_iff pi_is_runnable_def)
  then obtain t' where "pi_serves s t' u" using cases assms(2) by (auto split: if_splits)
  then show ?thesis using u pi_serves_runnable by blast
qed

lemma pi_next_laws:
  assumes "pi_inv s" and "pi_sched_get_next undef s = Inr (u, s')"
  shows "pi_inv s'" and "pi_ntasks s' = pi_ntasks s" and "pi_is_runnable s' = pi_is_runnable s"
  using assms pi_get_next_cases [OF assms(1), of undef] by auto

lemma pi_next_none:
  assumes "pi_inv s" and none: "\<And>t. unat t < pi_ntasks s \<Longrightarrow> \<not> pi_is_runnable s t"
  shows "\<exists>s'. pi_sched_get_next undef s = Inr (TASK_ID_NONE, s')"
proof -
  have "\<not> pi_serves s t u" for t u using pi_serves_runnable none by blast
  then show ?thesis using pi_get_next_cases [OF assms(1), of undef] by (metis (full_types))
qed

lemmas pi_laws =
  pi_update_laws pi_runnable_update pi_ntasks_bound pi_next_laws pi_next_runnable pi_next_none

interpretation pi_idle: idle_scheduler pi_sched_set_runnable pi_sched_set_blocked
  "pi_sched_get_next undef" "\<lambda>t. pi_set t t" "\<lambda>t. pi_set t TASK_ID_NONE" pi_inv pi_ntasks pi_is_runnable
  by unfold_locales (rule pi_laws; assumption | blast)+

section \<open>Inheritance\<close>

text \<open>Chains that do not end at a runnable task \<open>t\<close> do not pass it, so blocking \<open>t\<close> keeps them.\<close>

lemma pi_serves_avoid:
  assumes t: "unat t < pi_ntasks s" "pi_next s t = t"
  shows "pi_serves s h u \<Longrightarrow> u \<noteq> t \<Longrightarrow> pi_serves (pi_set t b s) h u \<and> (\<exists>q. pi_path s h q \<and> t \<notin> set q)"
proof (induction rule: pi_serves.induct)
  case (pi_serves_self h)
  then have "pi_serves (pi_set t b s) h h" "pi_path s h [h]"
    using t by (auto simp: pi_next_set pi_path_end_iff intro: pi_serves.pi_serves_self)
  then show ?case using pi_serves_self by auto
next
  case (pi_serves_next h u)
  have "h \<noteq> t" using pi_serves_next.hyps(2) t by auto
  moreover obtain q where "pi_path s (pi_next s h) q" "t \<notin> set q"
    using pi_serves_next by blast
  ultimately have "pi_path s h (h # q) \<and> t \<notin> set (h # q)"
    using pi_serves_next.hyps by (auto simp: pi_path_step_iff)
  moreover have "pi_serves (pi_set t b s) h u"
    by (rule pi_serves.pi_serves_next) (use pi_serves_next \<open>h \<noteq> t\<close> t in \<open>simp_all add: pi_next_set\<close>)
  ultimately show ?case by blast
qed

lemma pi_waits_avoid:
  assumes t: "unat t < pi_ntasks s" "pi_next s t = t"
  shows "pi_waits s v \<Longrightarrow> pi_waits (pi_set t b s) v"
proof (induction rule: pi_waits.induct)
  case (pi_waits_none v)
  then show ?case using t by (intro pi_waits.pi_waits_none) (auto simp: pi_next_set)
next
  case (pi_waits_next v)
  then show ?case
    by - (rule pi_waits.pi_waits_next, use t in \<open>auto simp: pi_next_set\<close>)
qed

text \<open>A runnable task that no other precedes and that blocks on another passes its place on.\<close>

lemma pi_block_on_inherits:
  assumes inv: "pi_inv s" and t: "unat t < pi_ntasks s" "pi_is_runnable s t" and first: "\<forall>v. v < t \<longrightarrow> pi_waits s v"
    and h: "pi_serves s h u" "u \<noteq> t" "h \<noteq> t"
  shows "pi_inv (pi_set t h s)" and "pi_sched_get_next undef (pi_set t h s) = Inr (u, pi_set t h s)"
proof -
  have self: "pi_next s t = t" using t(2) by (simp add: pi_is_runnable_def)
  note avoid = pi_serves_avoid [OF t(1) self h(1,2), of h]
  show inv': "pi_inv (pi_set t h s)" using avoid by (intro pi_inv_set [OF inv t(1)]) blast
  have "unat h < pi_ntasks s" using h(1) by (blast elim: pi_serves.cases)
  then have "h \<noteq> TASK_ID_NONE" using inv by (auto simp: pi_inv_def pi_closed_def TASK_ID_NONE_def)
  then have "pi_serves (pi_set t h s) t u"
    by - (rule pi_serves_next, use avoid t h(3) in \<open>simp_all add: pi_next_set\<close>)
  then show "pi_sched_get_next undef (pi_set t h s) = Inr (u, pi_set t h s)"
    using inv' first t(1) pi_waits_avoid [OF t(1) self]
    by (intro pi_get_next_serves) (auto simp: pi_inv_def)
qed

section \<open>Properties\<close>

text \<open>
  C19: As long as no task is blocked on itself through others, the scheduler picks the task that the
  most urgent task depends on: it goes through the tasks in the order of their identifiers, follows
  from each the chain of tasks it is blocked on, and returns the runnable task at the end of the first
  chain that has one. It returns no task exactly when every chain ends with a task that waits for an
  event.
\<close>

theorem pi_sched_get_next_inherits:
  assumes "pi_inv s"
  shows "\<exists>u. pi_sched_get_next undef s = Inr (u, s) \<and>
    (if u = TASK_ID_NONE then \<forall>t. unat t < pi_ntasks s \<longrightarrow> pi_waits s t
     else unat u < pi_ntasks s \<and> pi_is_runnable s u \<and>
       (\<exists>t. unat t < pi_ntasks s \<and> pi_serves s t u \<and> (\<forall>v. v < t \<longrightarrow> pi_waits s v)))"
proof -
  obtain u where u: "pi_sched_get_next undef s = Inr (u, s)"
    "if u = TASK_ID_NONE then \<forall>t. unat t < pi_ntasks s \<longrightarrow> pi_waits s t
     else \<exists>t. unat t < pi_ntasks s \<and> pi_serves s t u \<and> (\<forall>v. v < t \<longrightarrow> pi_waits s v)"
    using pi_get_next_cases [OF assms] by blast
  then show ?thesis using pi_serves_runnable [of s _ u] by (intro exI [of _ u]) (auto split: if_splits)
qed

definition pi_example :: "u8 list \<Rightarrow> pi_sched" where
  "pi_example blocked = \<lparr>pi_tasks = map (\<lambda>b. \<lparr>pi_blocked_on = b\<rparr>) blocked\<rparr>"

lemma pi_example_simps [simp]:
  "pi_ntasks (pi_example bs) = length bs"
  "unat t < length bs \<Longrightarrow> pi_next (pi_example bs) t = bs ! unat t"
  by (simp_all add: pi_example_def pi_ntasks_def pi_next_def)

text \<open>Task 0 waits for an event, task 1 is blocked on task 2, which is runnable.\<close>

lemma pi_example_path:
  "pi_path (pi_example [255, 2, 2]) 0 [0]" "pi_path (pi_example [255, 2, 2]) 1 [1, 2]"
  "pi_path (pi_example [255, 2, 2]) 2 [2]"
  by (simp_all add: pi_path_end_iff pi_path_step_iff TASK_ID_NONE_def)

lemma pi_example_inv: "pi_inv (pi_example [255, 2, 2])"
proof -
  have "pi_closed (pi_example [255, 2, 2])"
    by (simp add: pi_closed_def ids_all ids_simps TASK_ID_NONE_def)
  moreover have "\<forall>t. unat t < 3 \<longrightarrow> (\<exists>p. pi_path (pi_example [255, 2, 2]) t p)"
    using pi_example_path by (auto simp: ids_all ids_simps)
  ultimately show ?thesis by (simp add: pi_inv_def)
qed

theorem pi_sched_get_next_inherits_witness:
  "\<exists>u. pi_sched_get_next 0 (pi_example [255, 2, 2]) = Inr (u, pi_example [255, 2, 2]) \<and> u \<noteq> TASK_ID_NONE"
proof -
  have "\<not> pi_waits (pi_example [255, 2, 2]) 2" by (rule pi_waits_self_iff) simp_all
  then show ?thesis
    using pi_sched_get_next_inherits [OF pi_example_inv, of 0] by (auto split: if_splits)
qed

text \<open>
  C20: \<open>sched_get_next\<close> returns, and leaves the table alone, unless it comes, going through the tasks in
  order, to one whose chain runs into a cycle of tasks blocked on one another before it finds a chain
  with a runnable task; then it never returns.
\<close>

theorem pi_sched_get_next_returns_iff:
  assumes "pi_closed s"
  shows "(\<exists>u. pi_sched_get_next undef s = Inr (u, s)) \<longleftrightarrow>
      \<not> (\<exists>t. unat t < pi_ntasks s \<and> pi_cyclic s t \<and> (\<forall>v. v < t \<longrightarrow> pi_waits s v))"
proof -
  have "pi_sched_get_next undef s = Inl Diverges \<or> (\<exists>u. pi_sched_get_next undef s = Inr (u, s))"
    unfolding pi_get_next_eq [OF assms] by (auto split: option.splits)
  then show ?thesis unfolding pi_get_next_diverges_iff [OF assms, of undef, symmetric] by auto
qed

text \<open>Two tasks that are blocked on each other.\<close>

theorem pi_sched_get_next_returns_iff_witness: "\<not> (\<exists>u. pi_sched_get_next 0 (pi_example [1, 0]) = Inr (u, pi_example [1, 0]))"
proof -
  let ?s = "pi_example [1, 0]"
  have closed: "pi_closed ?s" by (simp add: pi_closed_def ids_all ids_simps TASK_ID_NONE_def)
  have w: "pi_waits ?s t \<Longrightarrow> t \<noteq> 0 \<and> t \<noteq> 1" for t
    by (induction rule: pi_waits.induct) (auto simp: TASK_ID_NONE_def)
  have "pi_serves ?s t u \<Longrightarrow> t \<noteq> 0 \<and> t \<noteq> 1" for t u
    by (induction rule: pi_serves.induct) auto
  then have "unat (0::u8) < pi_ntasks ?s \<and> pi_cyclic ?s 0 \<and> (\<forall>v. v < 0 \<longrightarrow> pi_waits ?s v)"
    using w by (auto simp: pi_cyclic_def)
  then show ?thesis unfolding pi_sched_get_next_returns_iff [OF closed] by blast
qed

end
