(* ===== verification/Sched_Prio_Ceiling.thy ===== *)
theory Sched_Prio_Ceiling
  imports Scheduler_Interface Error_Handling
begin

text \<open>
  The priority-ceiling scheduler (\<open>components/sched-prio-ceiling\<close>). Tasks and mutexes share one
  queue that is sorted by descending priority; a mutex sits at its ceiling, ahead of every task
  that may lock it. The tables that translate between task identifiers, mutex identifiers and queue
  indices are generated constants and part of the state record here.
\<close>

section \<open>Model\<close>

definition SCHED_INDEX_ZERO :: u8 where
  "SCHED_INDEX_ZERO = 0"

definition SCHED_INDEX_NONE :: u8 where
  "SCHED_INDEX_NONE = 255"

record pc_entry =
  pc_locked_by :: u8

record pc_sched =
  pc_entries :: "pc_entry list"
  pc_mutex_to_index :: "u8 list"
  pc_task_to_index :: "u8 list"
  pc_index_to_mutex_task :: "u8 list"

definition pc_max_index :: "pc_sched \<Rightarrow> u8" where
  "pc_max_index s = of_nat (length (pc_entries s)) - 1"

definition pc_index_to_taskid :: "u8 \<Rightarrow> (pc_sched, u8) kop" where
  "pc_index_to_taskid sched_index = array_read pc_index_to_mutex_task sched_index"

definition pc_taskid_to_index :: "u8 \<Rightarrow> (pc_sched, u8) kop" where
  "pc_taskid_to_index task_id = array_read pc_task_to_index task_id"

definition pc_mutexid_to_index :: "u8 \<Rightarrow> (pc_sched, u8) kop" where
  "pc_mutexid_to_index mutex_id = array_read pc_mutex_to_index mutex_id"

definition pc_set_locked_by :: "u8 \<Rightarrow> u8 \<Rightarrow> (pc_sched, unit) kop" where
  "pc_set_locked_by idx locker =
     array_modify pc_entries pc_entries_update idx (\<lambda>obj. obj\<lparr>pc_locked_by := locker\<rparr>)"

definition pc_sched_set_runnable :: "u8 \<Rightarrow> (pc_sched, unit) kop" where
  "pc_sched_set_runnable task_id =
     kbind (pc_taskid_to_index task_id) (\<lambda>idx. pc_set_locked_by idx idx)"

definition pc_sched_set_blocked :: "u8 \<Rightarrow> (pc_sched, unit) kop" where
  "pc_sched_set_blocked task_id =
     kbind (pc_taskid_to_index task_id) (\<lambda>idx. pc_set_locked_by idx SCHED_INDEX_NONE)"

definition pc_sched_set_mutex_locked_by :: "config \<Rightarrow> u8 \<Rightarrow> u8 \<Rightarrow> (pc_sched, unit) kop" where
  "pc_sched_set_mutex_locked_by c mutex_id task_id =
     kbind (pc_mutexid_to_index mutex_id) (\<lambda>midx.
     kbind (array_read pc_entries midx) (\<lambda>obj.
     kbind (internal_assert c (pc_locked_by obj = SCHED_INDEX_NONE)
              ERROR_ID_SCHED_PRIO_CEILING_MUTEX_ALREADY_LOCKED) (\<lambda>_.
     kbind (pc_taskid_to_index task_id) (\<lambda>tidx.
     kbind (internal_assert c (midx < tidx)
              ERROR_ID_SCHED_PRIO_CEILING_TASK_LOCKING_LOWER_PRIORITY_MUTEX) (\<lambda>_.
     pc_set_locked_by midx tidx)))))"

definition pc_sched_set_mutex_unlocked :: "u8 \<Rightarrow> (pc_sched, unit) kop" where
  "pc_sched_set_mutex_unlocked mutex_id =
     kbind (pc_mutexid_to_index mutex_id) (\<lambda>midx. pc_set_locked_by midx SCHED_INDEX_NONE)"

definition pc_sched_get_next :: "u8 \<Rightarrow> (pc_sched, u8) kop" where
  "pc_sched_get_next undef s =
     kbind
       (\<lambda>s. for_break SCHED_INDEX_ZERO (pc_max_index s)
          (\<lambda>idx sched_idx.
             kbind (array_read pc_entries idx) (\<lambda>obj.
               let next_idx = pc_locked_by obj in
               if next_idx = SCHED_INDEX_NONE then kreturn (idx, False)
               else if next_idx = idx then kreturn (idx, True)
               else kbind (array_read pc_entries next_idx) (\<lambda>locker.
                 if pc_locked_by locker = next_idx then kreturn (next_idx, True)
                 else kreturn (idx, False))))
          undef s)
       (\<lambda>sched_idx. pc_index_to_taskid sched_idx) s"

section \<open>Invariant and abstraction\<close>

definition pc_ntasks :: "pc_sched \<Rightarrow> nat" where
  "pc_ntasks s = length (pc_task_to_index s)"

definition pc_nmutexes :: "pc_sched \<Rightarrow> nat" where
  "pc_nmutexes s = length (pc_mutex_to_index s)"

definition pc_tidx :: "pc_sched \<Rightarrow> u8 \<Rightarrow> u8" where
  "pc_tidx s t = pc_task_to_index s ! unat t"

definition pc_midx :: "pc_sched \<Rightarrow> u8 \<Rightarrow> u8" where
  "pc_midx s m = pc_mutex_to_index s ! unat m"

definition pc_locker :: "pc_sched \<Rightarrow> u8 \<Rightarrow> u8" where
  "pc_locker s i = pc_locked_by (pc_entries s ! unat i)"

text \<open>
  The generated tables are consistent: every queue index belongs to exactly one task or mutex, and
  \<open>index_to_mutex_task\<close> inverts the other two.
\<close>

definition pc_tables :: "pc_sched \<Rightarrow> bool" where
  "pc_tables s \<longleftrightarrow>
     0 < length (pc_entries s) \<and> length (pc_entries s) \<le> 255 \<and> pc_ntasks s \<le> 255 \<and>
     length (pc_index_to_mutex_task s) = length (pc_entries s) \<and>
     (\<forall>t. unat t < pc_ntasks s \<longrightarrow> unat (pc_tidx s t) < length (pc_entries s) \<and>
        pc_index_to_mutex_task s ! unat (pc_tidx s t) = t) \<and>
     (\<forall>m. unat m < pc_nmutexes s \<longrightarrow> unat (pc_midx s m) < length (pc_entries s) \<and>
        pc_index_to_mutex_task s ! unat (pc_midx s m) = m) \<and>
     (\<forall>t m. unat t < pc_ntasks s \<longrightarrow> unat m < pc_nmutexes s \<longrightarrow> pc_tidx s t \<noteq> pc_midx s m) \<and>
     (\<forall>i. unat i < length (pc_entries s) \<longrightarrow>
        (\<exists>t. unat t < pc_ntasks s \<and> i = pc_tidx s t) \<or>
        (\<exists>m. unat m < pc_nmutexes s \<and> i = pc_midx s m))"

text \<open>
  A task entry holds its own index or no index; a mutex entry holds no index or that of a task of
  lower priority than the mutex.
\<close>

definition pc_inv :: "pc_sched \<Rightarrow> bool" where
  "pc_inv s \<longleftrightarrow> pc_tables s \<and>
     (\<forall>t. unat t < pc_ntasks s \<longrightarrow>
        pc_locker s (pc_tidx s t) = pc_tidx s t \<or> pc_locker s (pc_tidx s t) = SCHED_INDEX_NONE) \<and>
     (\<forall>m. unat m < pc_nmutexes s \<longrightarrow> pc_locker s (pc_midx s m) = SCHED_INDEX_NONE \<or>
        (\<exists>t. unat t < pc_ntasks s \<and> pc_locker s (pc_midx s m) = pc_tidx s t \<and>
           pc_midx s m < pc_tidx s t))"

definition pc_is_runnable :: "pc_sched \<Rightarrow> u8 \<Rightarrow> bool" where
  "pc_is_runnable s t \<longleftrightarrow> pc_locker s (pc_tidx s t) = pc_tidx s t"

definition pc_holds :: "pc_sched \<Rightarrow> u8 \<Rightarrow> u8 \<Rightarrow> bool" where
  "pc_holds s t m \<longleftrightarrow> unat m < pc_nmutexes s \<and> pc_locker s (pc_midx s m) = pc_tidx s t"

text \<open>The priorities a task runs at: its own and the ceilings of the mutexes it holds.\<close>

definition pc_priority :: "pc_sched \<Rightarrow> u8 \<Rightarrow> u8 \<Rightarrow> bool" where
  "pc_priority s t i \<longleftrightarrow> i = pc_tidx s t \<or> (\<exists>m. pc_holds s t m \<and> i = pc_midx s m)"

definition pc_set_locker :: "u8 \<Rightarrow> u8 \<Rightarrow> pc_sched \<Rightarrow> pc_sched" where
  "pc_set_locker i l s =
     s\<lparr>pc_entries := (pc_entries s)[unat i := (pc_entries s ! unat i)\<lparr>pc_locked_by := l\<rparr>]\<rparr>"

lemma pc_set_locker_simps [simp]:
  "pc_ntasks (pc_set_locker i l s) = pc_ntasks s"
  "pc_nmutexes (pc_set_locker i l s) = pc_nmutexes s"
  "pc_tidx (pc_set_locker i l s) = pc_tidx s"
  "pc_midx (pc_set_locker i l s) = pc_midx s"
  "length (pc_entries (pc_set_locker i l s)) = length (pc_entries s)"
  "pc_index_to_mutex_task (pc_set_locker i l s) = pc_index_to_mutex_task s"
  by (simp_all add: pc_set_locker_def pc_ntasks_def pc_nmutexes_def pc_tidx_def pc_midx_def fun_eq_iff)

lemma pc_tables_set_locker [simp]: "pc_tables (pc_set_locker i l s) \<longleftrightarrow> pc_tables s"
  by (simp add: pc_tables_def)

lemma pc_locker_set:
  "unat i < length (pc_entries s) \<Longrightarrow> pc_locker (pc_set_locker i l s) j = (if j = i then l else pc_locker s j)"
  by (simp add: pc_set_locker_def pc_locker_def word_nth_update)

lemma pc_task_index:
  assumes "pc_inv s" and "unat t < pc_ntasks s"
  shows "unat (pc_tidx s t) < length (pc_entries s)" and "pc_tidx s t \<noteq> SCHED_INDEX_NONE"
    and "pc_index_to_mutex_task s ! unat (pc_tidx s t) = t"
proof -
  show "unat (pc_tidx s t) < length (pc_entries s)"
    and "pc_index_to_mutex_task s ! unat (pc_tidx s t) = t"
    using assms by (simp_all add: pc_inv_def pc_tables_def)
  moreover have "length (pc_entries s) \<le> 255" using assms by (simp add: pc_inv_def pc_tables_def)
  ultimately show "pc_tidx s t \<noteq> SCHED_INDEX_NONE" by (auto simp: SCHED_INDEX_NONE_def)
qed

lemma pc_tidx_inj:
  assumes "pc_inv s" and "unat t < pc_ntasks s" and "unat u < pc_ntasks s"
  shows "pc_tidx s t = pc_tidx s u \<longleftrightarrow> t = u"
  using pc_task_index(3) [OF assms(1,2)] pc_task_index(3) [OF assms(1,3)] by metis

section \<open>The search\<close>

definition pc_active :: "pc_sched \<Rightarrow> u8 \<Rightarrow> bool" where
  "pc_active s i \<longleftrightarrow> pc_locker s i \<noteq> SCHED_INDEX_NONE \<and>
     (pc_locker s i = i \<or> pc_locker s (pc_locker s i) = pc_locker s i)"

lemma pc_index_cases:
  assumes "pc_inv s" and "unat i < length (pc_entries s)"
  obtains (task) t where "unat t < pc_ntasks s" and "i = pc_tidx s t"
    | (mutex) m where "unat m < pc_nmutexes s" and "i = pc_midx s m"
  using assms unfolding pc_inv_def pc_tables_def by blast

lemma pc_mutex_locker:
  assumes "pc_inv s" and "unat m < pc_nmutexes s" and "pc_locker s (pc_midx s m) \<noteq> SCHED_INDEX_NONE"
  obtains t where "unat t < pc_ntasks s" and "pc_locker s (pc_midx s m) = pc_tidx s t"
    and "pc_midx s m < pc_tidx s t"
  using assms unfolding pc_inv_def by blast

lemma pc_locker_bound:
  assumes "pc_inv s" and "unat i < length (pc_entries s)" and "pc_locker s i \<noteq> SCHED_INDEX_NONE"
  shows "unat (pc_locker s i) < length (pc_entries s)"
  using assms(1,2)
proof (cases rule: pc_index_cases)
  case (task t)
  then show ?thesis using assms unfolding pc_inv_def by metis
next
  case (mutex m)
  then show ?thesis using assms pc_mutex_locker pc_task_index(1) by metis
qed

text \<open>An entry stops the search when it is a priority of some runnable task.\<close>

lemma pc_active_priority:
  assumes "pc_inv s" and "unat i < length (pc_entries s)" and "pc_active s i"
  shows "\<exists>t. unat t < pc_ntasks s \<and> pc_is_runnable s t \<and> pc_priority s t i \<and> pc_locker s i = pc_tidx s t"
  using assms(1,2)
proof (cases rule: pc_index_cases)
  case (task t)
  then have "pc_locker s i = i" using assms unfolding pc_inv_def pc_active_def by metis
  then show ?thesis using task by (auto simp: pc_is_runnable_def pc_priority_def)
next
  case (mutex m)
  have "pc_locker s (pc_midx s m) \<noteq> SCHED_INDEX_NONE"
    using assms(3) mutex by (simp add: pc_active_def)
  then obtain t where t: "unat t < pc_ntasks s" "pc_locker s (pc_midx s m) = pc_tidx s t"
    "pc_midx s m < pc_tidx s t"
    using pc_mutex_locker [OF assms(1) mutex(1)] by blast
  then have "pc_is_runnable s t" "pc_priority s t i"
    using assms(3) mutex by (auto simp: pc_active_def pc_is_runnable_def pc_priority_def pc_holds_def)
  then show ?thesis using t mutex by auto
qed

lemma pc_priority_active:
  assumes "pc_inv s" and "unat t < pc_ntasks s" and "pc_is_runnable s t" and "pc_priority s t i"
  shows "unat i < length (pc_entries s) \<and> pc_active s i"
proof -
  consider "i = pc_tidx s t" | m where "pc_holds s t m" "i = pc_midx s m"
    using assms(4) by (auto simp: pc_priority_def)
  then show ?thesis
  proof cases
    case 1
    then show ?thesis
      using assms pc_task_index [OF assms(1,2)] by (simp add: pc_active_def pc_is_runnable_def)
  next
    case 2
    then have "unat i < length (pc_entries s)"
      using assms(1) by (simp add: pc_holds_def pc_inv_def pc_tables_def)
    then show ?thesis
      using 2 assms(3) pc_task_index(2) [OF assms(1,2)]
      by (simp add: pc_active_def pc_is_runnable_def pc_holds_def)
  qed
qed

lemma pc_get_next_eq:
  assumes "pc_inv s"
  shows "pc_sched_get_next undef s =
     pc_index_to_taskid (break_fold (\<lambda>i _. if pc_active s i then pc_locker s i else i)
       (pc_active s) (ids (length (pc_entries s))) undef) s"
proof -
  let ?n = "length (pc_entries s)"
  have n: "0 < ?n" "?n \<le> 255" using assms by (auto simp: pc_inv_def pc_tables_def)
  note idx = max_index_unat [OF n, folded pc_max_index_def]
  let ?body = "\<lambda>idx sched_idx. kbind (array_read pc_entries idx) (\<lambda>obj.
               let next_idx = pc_locked_by obj in
               if next_idx = SCHED_INDEX_NONE then kreturn (idx, False)
               else if next_idx = idx then kreturn (idx, True)
               else kbind (array_read pc_entries next_idx) (\<lambda>locker.
                 if pc_locked_by locker = next_idx then kreturn (next_idx, True)
                 else kreturn (idx, False)))"
  have body: "?body i acc s =
     Inr ((if pc_active s i then pc_locker s i else i, pc_active s i), s)"
    if "i \<le> pc_max_index s" for i acc
  proof -
    have i: "unat i < ?n" using that idx(1) by (simp add: word_le_nat_alt)
    show ?thesis
      using i pc_locker_bound [OF assms i]
      by (simp add: kop_defs Let_def pc_locker_def pc_active_def)
  qed
  have "for_break SCHED_INDEX_ZERO (pc_max_index s) ?body undef s =
     Inr (break_fold (\<lambda>i _. if pc_active s i then pc_locker s i else i)
       (pc_active s) (ids (Suc (unat (pc_max_index s)))) undef, s)"
    unfolding SCHED_INDEX_ZERO_def
  proof (rule for_break_pure)
    show "pc_max_index s \<noteq> 255" by (rule idx)
  qed (rule body)
  then show ?thesis
    unfolding pc_sched_get_next_def by (simp add: kbind_def idx(1))
qed

text \<open>
  The pick is runnable, and it runs at a priority (its own or a ceiling) that is at least as high as
  every priority of every runnable task.
\<close>

lemma pc_get_next_highest:
  assumes inv: "pc_inv s" and "unat t < pc_ntasks s" and "pc_is_runnable s t"
  shows "\<exists>u i. pc_sched_get_next undef s = Inr (u, s) \<and> unat u < pc_ntasks s \<and> pc_is_runnable s u \<and>
    pc_priority s u i \<and>
    (\<forall>v j. unat v < pc_ntasks s \<longrightarrow> pc_is_runnable s v \<longrightarrow> pc_priority s v j \<longrightarrow> i \<le> j)"
proof -
  let ?n = "length (pc_entries s)" and ?g = "\<lambda>i _. if pc_active s i then pc_locker s i else i"
  have n: "?n \<le> 255" using inv by (simp add: pc_inv_def pc_tables_def)
  have act: "unat (pc_tidx s t) < ?n" "pc_active s (pc_tidx s t)"
    using pc_priority_active [OF assms, of "pc_tidx s t"] by (simp_all add: pc_priority_def)
  obtain i where i: "unat i < ?n" "pc_active s i" and least: "\<forall>x. x < i \<longrightarrow> \<not> pc_active s x"
    and res: "break_fold ?g (pc_active s) (ids ?n) undef = ?g i (break_fold ?g (pc_active s) (ids (unat i)) undef)"
    using break_fold_ids [where P = "pc_active s" and g = ?g and acc = undef, OF n act] by blast
  obtain u where u: "unat u < pc_ntasks s" "pc_is_runnable s u" "pc_priority s u i"
    "pc_locker s i = pc_tidx s u"
    using pc_active_priority [OF inv i] by blast
  have len: "length (pc_index_to_mutex_task s) = ?n" using inv by (simp add: pc_inv_def pc_tables_def)
  have "pc_sched_get_next undef s = Inr (u, s)"
    using res i u pc_task_index [OF inv u(1)] len
    by (simp add: pc_get_next_eq [OF inv] pc_index_to_taskid_def array_read_def)
  moreover have "i \<le> j"
    if "unat v < pc_ntasks s" "pc_is_runnable s v" "pc_priority s v j" for v j
    using pc_priority_active [OF inv that] least by (meson not_le)
  ultimately show ?thesis using u by blast
qed

text \<open>
  With nothing runnable the loop ends with the last queue index, and the task or mutex identifier
  found there is returned; \<open>TASK_ID_NONE\<close> never is.
\<close>

lemma pc_get_next_idle:
  assumes inv: "pc_inv s" and none: "\<And>t. unat t < pc_ntasks s \<Longrightarrow> \<not> pc_is_runnable s t"
  shows "pc_sched_get_next undef s = Inr (last (pc_index_to_mutex_task s), s)"
proof -
  let ?n = "length (pc_entries s)"
  have n: "0 < ?n" "?n \<le> 255" using inv by (auto simp: pc_inv_def pc_tables_def)
  have inactive: "\<not> pc_active s i" if "unat i < ?n" for i
    using pc_active_priority [OF inv that] none by blast
  then have all: "\<forall>i \<in> set (ids ?n). \<not> pc_active s i" using n by (simp add: set_ids)
  have "fold (\<lambda>i _. if pc_active s i then pc_locker s i else i) is acc = (if is = [] then acc else last is)"
    if "\<forall>i \<in> set is. \<not> pc_active s i" for "is" acc
    using that by (induction "is" arbitrary: acc) auto
  note this [OF all, of undef]
  moreover have "ids ?n \<noteq> []" and "last (ids ?n) = of_nat (?n - 1)"
    using n by (simp_all add: ids_def last_map)
  moreover have "unat (of_nat (?n - 1) :: u8) = ?n - 1"
    using n by (intro u8_unat_of_nat) simp
  moreover have "length (pc_index_to_mutex_task s) = ?n" "pc_index_to_mutex_task s \<noteq> []"
    using inv n by (auto simp: pc_inv_def pc_tables_def)
  ultimately show ?thesis
    using n by (simp add: pc_get_next_eq [OF inv] break_fold_none [OF all] pc_index_to_taskid_def
        array_read_def last_conv_nth del: of_nat_diff)
qed

section \<open>The scheduler contract\<close>

lemma pc_set_task_laws:
  assumes inv: "pc_inv s" and t: "unat t < pc_ntasks s"
    and l: "l = pc_tidx s t \<or> l = SCHED_INDEX_NONE"
  shows "pc_inv (pc_set_locker (pc_tidx s t) l s)"
    and "unat u < pc_ntasks s \<Longrightarrow> pc_is_runnable (pc_set_locker (pc_tidx s t) l s) u \<longleftrightarrow>
      (if u = t then l = pc_tidx s t else pc_is_runnable s u)"
proof -
  have b: "unat (pc_tidx s t) < length (pc_entries s)" by (rule pc_task_index [OF inv t])
  have apart: "pc_midx s m \<noteq> pc_tidx s t" if "unat m < pc_nmutexes s" for m
    using inv t that unfolding pc_inv_def pc_tables_def by metis
  show "pc_inv (pc_set_locker (pc_tidx s t) l s)"
    using inv l apart unfolding pc_inv_def by (simp add: pc_locker_set [OF b])
  show "pc_is_runnable (pc_set_locker (pc_tidx s t) l s) u \<longleftrightarrow>
      (if u = t then l = pc_tidx s t else pc_is_runnable s u)" if "unat u < pc_ntasks s"
    using pc_tidx_inj [OF inv that t] by (auto simp: pc_is_runnable_def pc_locker_set [OF b])
qed

definition pc_ready :: "u8 \<Rightarrow> pc_sched \<Rightarrow> pc_sched" where
  "pc_ready t s = pc_set_locker (pc_tidx s t) (pc_tidx s t) s"

definition pc_block :: "u8 \<Rightarrow> pc_sched \<Rightarrow> pc_sched" where
  "pc_block t s = pc_set_locker (pc_tidx s t) SCHED_INDEX_NONE s"

lemma pc_update_laws:
  assumes "pc_inv s" and "unat t < pc_ntasks s"
  shows "pc_sched_set_runnable t s = Inr ((), pc_ready t s)"
    and "pc_sched_set_blocked t s = Inr ((), pc_block t s)"
    and "pc_inv (pc_ready t s)" and "pc_inv (pc_block t s)"
    and "pc_ntasks (pc_ready t s) = pc_ntasks s" and "pc_ntasks (pc_block t s) = pc_ntasks s"
  using assms pc_task_index [OF assms]
  by (simp_all add: pc_sched_set_runnable_def pc_sched_set_blocked_def pc_taskid_to_index_def
      pc_set_locked_by_def kop_defs pc_ntasks_def pc_tidx_def pc_set_locker_def pc_ready_def
      pc_block_def pc_set_task_laws(1) [OF assms, unfolded pc_set_locker_def pc_tidx_def])

lemma pc_runnable_update:
  assumes "pc_inv s" and "unat t < pc_ntasks s" and "unat u < pc_ntasks s"
  shows "pc_is_runnable (pc_ready t s) u \<longleftrightarrow> u = t \<or> pc_is_runnable s u"
    and "pc_is_runnable (pc_block t s) u \<longleftrightarrow> u \<noteq> t \<and> pc_is_runnable s u"
  using pc_set_task_laws(2) [OF assms(1,2) _ assms(3)] pc_task_index(2) [OF assms(1,2)]
  by (auto simp: pc_ready_def pc_block_def)

lemma pc_ntasks_bound: "pc_inv s \<Longrightarrow> pc_ntasks s \<le> 255"
  by (simp add: pc_inv_def pc_tables_def)

lemma pc_next_runnable:
  assumes "pc_inv s" and "unat t < pc_ntasks s" and "pc_is_runnable s t"
  shows "\<exists>u s'. pc_sched_get_next undef s = Inr (u, s') \<and> unat u < pc_ntasks s \<and> pc_is_runnable s u"
  using pc_get_next_highest [OF assms] by blast

lemma pc_next_laws:
  assumes "pc_inv s" and "pc_sched_get_next undef s = Inr (u, s')"
  shows "pc_inv s'" and "pc_ntasks s' = pc_ntasks s" and "pc_is_runnable s' = pc_is_runnable s"
proof -
  have "s' = s"
    using assms by (simp add: pc_get_next_eq pc_index_to_taskid_def array_read_def split: if_splits)
  then show "pc_inv s'" and "pc_ntasks s' = pc_ntasks s" and "pc_is_runnable s' = pc_is_runnable s"
    using assms(1) by simp_all
qed

lemmas pc_laws = pc_update_laws pc_runnable_update pc_ntasks_bound pc_next_laws pc_next_runnable

interpretation pc: scheduler pc_sched_set_runnable pc_sched_set_blocked
  "pc_sched_get_next undef" pc_ready pc_block pc_inv pc_ntasks pc_is_runnable
  by unfold_locales (rule pc_laws; assumption)+

section \<open>Mutexes in the queue\<close>

lemma pc_mutex_index:
  assumes "pc_inv s" and "unat m < pc_nmutexes s"
  shows "unat (pc_midx s m) < length (pc_entries s)" and "pc_index_to_mutex_task s ! unat (pc_midx s m) = m"
  using assms by (simp_all add: pc_inv_def pc_tables_def)

lemma pc_midx_inj:
  assumes "pc_inv s" and "unat m < pc_nmutexes s" and "unat k < pc_nmutexes s"
  shows "pc_midx s m = pc_midx s k \<longleftrightarrow> m = k"
  using pc_mutex_index(2) [OF assms(1,2)] pc_mutex_index(2) [OF assms(1,3)] by metis

lemma pc_set_mutex_laws:
  assumes inv: "pc_inv s" and m: "unat m < pc_nmutexes s"
    and l: "l = SCHED_INDEX_NONE \<or> (\<exists>t. unat t < pc_ntasks s \<and> l = pc_tidx s t \<and> pc_midx s m < pc_tidx s t)"
  shows "pc_inv (pc_set_locker (pc_midx s m) l s)"
    and "unat u < pc_ntasks s \<Longrightarrow> pc_is_runnable (pc_set_locker (pc_midx s m) l s) u = pc_is_runnable s u"
    and "pc_holds (pc_set_locker (pc_midx s m) l s) u k \<longleftrightarrow>
      unat k < pc_nmutexes s \<and> (if k = m then l = pc_tidx s u else pc_holds s u k)"
proof -
  have b: "unat (pc_midx s m) < length (pc_entries s)" by (rule pc_mutex_index [OF inv m])
  have apart: "pc_tidx s t \<noteq> pc_midx s m" if "unat t < pc_ntasks s" for t
    using inv m that unfolding pc_inv_def pc_tables_def by metis
  note set = pc_locker_set [OF b]
  show "pc_inv (pc_set_locker (pc_midx s m) l s)"
    using inv l apart pc_midx_inj [OF inv _ m] unfolding pc_inv_def by (simp add: set)
  show "pc_is_runnable (pc_set_locker (pc_midx s m) l s) u = pc_is_runnable s u"
    if "unat u < pc_ntasks s"
    using apart [OF that] by (simp add: pc_is_runnable_def set)
  show "pc_holds (pc_set_locker (pc_midx s m) l s) u k \<longleftrightarrow>
      unat k < pc_nmutexes s \<and> (if k = m then l = pc_tidx s u else pc_holds s u k)"
    using pc_midx_inj [OF inv _ m] by (auto simp: pc_holds_def set)
qed

text \<open>
  Locking, as the mutex component uses it: the mutex is free and its ceiling is above the priority
  of the task. Both are checked where internal assertions are compiled in.
\<close>

lemma pc_sched_set_mutex_locked_by_eq:
  assumes "pc_inv s" and "unat m < pc_nmutexes s" and "unat t < pc_ntasks s"
  shows "pc_sched_set_mutex_locked_by c m t s =
    (if internal_asserts c \<and> pc_locker s (pc_midx s m) \<noteq> SCHED_INDEX_NONE
     then Inl (Fatal ERROR_ID_SCHED_PRIO_CEILING_MUTEX_ALREADY_LOCKED)
     else if internal_asserts c \<and> \<not> pc_midx s m < pc_tidx s t
     then Inl (Fatal ERROR_ID_SCHED_PRIO_CEILING_TASK_LOCKING_LOWER_PRIORITY_MUTEX)
     else Inr ((), pc_set_locker (pc_midx s m) (pc_tidx s t) s))"
  using assms(2,3) pc_mutex_index [OF assms(1,2)]
  by (simp add: pc_sched_set_mutex_locked_by_def pc_mutexid_to_index_def pc_taskid_to_index_def
      pc_set_locked_by_def kbind_def array_read_def array_modify_def pc_nmutexes_def pc_ntasks_def
      pc_midx_def pc_tidx_def pc_locker_def pc_set_locker_def)

lemma pc_sched_set_mutex_unlocked_eq:
  assumes "pc_inv s" and "unat m < pc_nmutexes s"
  shows "pc_sched_set_mutex_unlocked m s =
    Inr ((), pc_set_locker (pc_midx s m) SCHED_INDEX_NONE s)"
  using assms(2) pc_mutex_index [OF assms]
  by (simp add: pc_sched_set_mutex_unlocked_def pc_mutexid_to_index_def pc_set_locked_by_def
      kbind_def array_read_def array_modify_def pc_nmutexes_def pc_midx_def pc_set_locker_def)

section \<open>Properties\<close>

text \<open>
  When some task is runnable, the scheduler picks a runnable task that runs at the highest priority:
  no runnable task has a priority above it, where the priorities of a task are its own and the ceilings
  of the mutexes it holds.
\<close>

theorem pc_sched_get_next_highest:
  assumes "pc_inv s" and "unat t < pc_ntasks s" and "pc_is_runnable s t"
  shows "\<exists>u i. pc_sched_get_next undef s = Inr (u, s) \<and> unat u < pc_ntasks s \<and> pc_is_runnable s u \<and> pc_priority s u i \<and>
    (\<forall>v j. unat v < pc_ntasks s \<longrightarrow> pc_is_runnable s v \<longrightarrow> pc_priority s v j \<longrightarrow> i \<le> j)"
  by (rule pc_get_next_highest [OF assms])

text \<open>
  Three tasks and a mutex: task 0, then the mutex, then the tasks 1 and 2. Task 2 holds the mutex.
\<close>

definition pc_example :: "u8 \<Rightarrow> u8 \<Rightarrow> u8 \<Rightarrow> u8 \<Rightarrow> pc_sched" where
  "pc_example a m b d =
     \<lparr>pc_entries = [\<lparr>pc_locked_by = a\<rparr>, \<lparr>pc_locked_by = m\<rparr>, \<lparr>pc_locked_by = b\<rparr>, \<lparr>pc_locked_by = d\<rparr>],
      pc_mutex_to_index = [1], pc_task_to_index = [0, 2, 3], pc_index_to_mutex_task = [0, 0, 1, 2]\<rparr>"

lemmas pc_example_defs =
  pc_example_def pc_tables_def pc_ntasks_def pc_nmutexes_def pc_tidx_def pc_midx_def pc_locker_def pc_is_runnable_def

lemma pc_example_tables: "pc_tables (pc_example a m b d)"
  by (simp add: pc_example_defs ids_all ids_ex ids_simps unat_eq_zero)

lemma pc_example_inv:
  assumes "a \<in> {0, 255}" and "m \<in> {2, 3, 255}" and "b \<in> {2, 255}" and "d \<in> {3, 255}"
  shows "pc_inv (pc_example a m b d)"
  using assms pc_example_tables [of a m b d]
  by (auto simp: pc_inv_def pc_example_defs ids_all ids_ex ids_simps unat_eq_zero SCHED_INDEX_NONE_def)

theorem pc_sched_get_next_highest_witness:
  "\<exists>u i. pc_sched_get_next 0 (pc_example 255 3 2 3) = Inr (u, pc_example 255 3 2 3) \<and> pc_priority (pc_example 255 3 2 3) u i \<and> i \<le> 1"
proof -
  let ?s = "pc_example 255 3 2 3"
  have inv: "pc_inv ?s" by (rule pc_example_inv) simp_all
  have two: "unat (2::u8) < pc_ntasks ?s" "pc_is_runnable ?s 2" by (simp_all add: pc_example_defs)
  have "pc_priority ?s 2 1"
    by (auto simp: pc_priority_def pc_holds_def pc_example_defs intro!: exI [of _ 0])
  then show ?thesis using pc_sched_get_next_highest [OF inv two, of 0] two by blast
qed

text \<open>
  C33: When no task is runnable, the scheduler does not say so: it returns the identifier at the end of
  its table, that of the task or mutex of least priority. So the system never becomes idle, and a task
  that waits is run.
\<close>

theorem pc_sched_get_next_never_idle:
  assumes "pc_inv s" and "\<And>t. unat t < pc_ntasks s \<Longrightarrow> \<not> pc_is_runnable s t"
  shows "pc_sched_get_next undef s = Inr (last (pc_index_to_mutex_task s), s) \<and>
    (pc_ntasks s < 255 \<longrightarrow> pc_nmutexes s \<le> pc_ntasks s \<longrightarrow> last (pc_index_to_mutex_task s) \<noteq> TASK_ID_NONE)"
proof
  show "pc_sched_get_next undef s = Inr (last (pc_index_to_mutex_task s), s)"
    by (rule pc_get_next_idle [OF assms(1)]) (use assms(2) in blast)
  let ?n = "length (pc_entries s)"
  have n: "0 < ?n" "?n \<le> 255" "length (pc_index_to_mutex_task s) = ?n"
    using assms(1) by (simp_all add: pc_inv_def pc_tables_def)
  let ?i = "of_nat (?n - 1) :: u8"
  have i: "unat ?i = ?n - 1" using n by (simp add: u8_unat_of_nat)
  have "unat ?i < ?n" unfolding i using n(1) by simp
  then have "unat (pc_index_to_mutex_task s ! unat ?i) < max (pc_ntasks s) (pc_nmutexes s)"
    by (rule pc_index_cases [OF assms(1)]) (auto simp: pc_task_index [OF assms(1)] pc_mutex_index [OF assms(1)])
  moreover have "last (pc_index_to_mutex_task s) = pc_index_to_mutex_task s ! unat ?i"
    unfolding i using n by (subst last_conv_nth) auto
  ultimately show "pc_ntasks s < 255 \<longrightarrow> pc_nmutexes s \<le> pc_ntasks s \<longrightarrow> last (pc_index_to_mutex_task s) \<noteq> TASK_ID_NONE"
    by (auto simp: TASK_ID_NONE_def)
qed

theorem pc_sched_get_next_never_idle_witness:
  "pc_sched_get_next 0 (pc_example 255 255 255 255) = Inr (2, pc_example 255 255 255 255)"
proof -
  let ?s = "pc_example 255 255 255 255"
  have inv: "pc_inv ?s" by (rule pc_example_inv) simp_all
  have "\<forall>t. unat t < pc_ntasks ?s \<longrightarrow> \<not> pc_is_runnable ?s t"
    by (simp add: pc_example_defs ids_all ids_simps)
  then show ?thesis using pc_sched_get_next_never_idle [OF inv, of 0] by (simp add: pc_example_defs)
qed

lemma pc_entry_same: "pc_locked_by e = l \<Longrightarrow> e\<lparr>pc_locked_by := l\<rparr> = e"
  by (cases e) simp

text \<open>
  Locking a mutex that is free and whose ceiling is above the task makes the task hold it, and
  nobody else holds it: then and only then does it succeed where the internal assertions are compiled
  in. It changes the holder of no other mutex and no task's readiness, keeps the queue well-formed, and
  unlocking gives back the state before.
\<close>

theorem pc_sched_mutex_lock_unlock:
  assumes "pc_inv s" and m: "unat m < pc_nmutexes s" and t: "unat t < pc_ntasks s"
    and free: "pc_locker s (pc_midx s m) = SCHED_INDEX_NONE" and ceiling: "pc_midx s m < pc_tidx s t"
  shows "\<exists>s'. pc_sched_set_mutex_locked_by c m t s = Inr ((), s') \<and> pc_inv s' \<and>
    (\<forall>u. unat u < pc_ntasks s \<longrightarrow> pc_holds s' u m = (u = t) \<and> pc_is_runnable s' u = pc_is_runnable s u) \<and>
    (\<forall>u n. n \<noteq> m \<longrightarrow> pc_holds s' u n = pc_holds s u n) \<and>
    (internal_asserts c \<longrightarrow> (\<forall>u. unat u < pc_ntasks s \<longrightarrow>
       pc_sched_set_mutex_locked_by c m u s' = Inl (Fatal ERROR_ID_SCHED_PRIO_CEILING_MUTEX_ALREADY_LOCKED))) \<and>
    pc_sched_set_mutex_unlocked m s' = Inr ((), s)"
proof -
  let ?s' = "pc_set_locker (pc_midx s m) (pc_tidx s t) s"
  note laws = pc_set_mutex_laws [OF assms(1) m, of "pc_tidx s t"]
  have l: "pc_tidx s t = SCHED_INDEX_NONE \<or>
      (\<exists>t'. unat t' < pc_ntasks s \<and> pc_tidx s t = pc_tidx s t' \<and> pc_midx s m < pc_tidx s t')"
    using t ceiling by blast
  have inv: "pc_inv ?s'" by (rule laws(1) [OF l])
  have idx: "unat (pc_midx s m) < length (pc_entries s)" by (rule pc_mutex_index [OF assms(1) m])
  have tidx: "pc_tidx s t \<noteq> SCHED_INDEX_NONE" by (rule pc_task_index [OF assms(1) t])
  have restored: "pc_set_locker (pc_midx s m) SCHED_INDEX_NONE ?s' = s"
    using free idx by (cases s) (simp add: pc_set_locker_def pc_locker_def pc_midx_def pc_entry_same)
  have "pc_sched_set_mutex_locked_by c m t s = Inr ((), ?s')"
    using pc_sched_set_mutex_locked_by_eq [OF assms(1) m t, of c] free ceiling by simp
  moreover have "pc_holds ?s' u m = (u = t)" if "unat u < pc_ntasks s" for u
    using laws(3) [OF l, of u m] m pc_tidx_inj [OF assms(1) t that] by auto
  moreover have "pc_is_runnable ?s' u = pc_is_runnable s u" if "unat u < pc_ntasks s" for u
    using laws(2) [OF l that] .
  moreover have "pc_holds ?s' u n = pc_holds s u n" if "n \<noteq> m" for u n
    using laws(3) [OF l, of u n] that by (auto simp: pc_holds_def)
  moreover have "pc_sched_set_mutex_locked_by c m u ?s' = Inl (Fatal ERROR_ID_SCHED_PRIO_CEILING_MUTEX_ALREADY_LOCKED)"
    if "internal_asserts c" "unat u < pc_ntasks s" for u
    using pc_sched_set_mutex_locked_by_eq [OF inv, of m u c] that m tidx by (simp add: pc_locker_set [OF idx])
  moreover have "pc_sched_set_mutex_unlocked m ?s' = Inr ((), s)"
    using pc_sched_set_mutex_unlocked_eq [OF inv, of m] m restored by simp
  ultimately show ?thesis using inv by blast
qed

theorem pc_sched_mutex_lock_unlock_witness:
  "\<exists>s'. pc_sched_set_mutex_locked_by (config_example 3) 0 2 (pc_example 0 255 2 3) = Inr ((), s') \<and> pc_holds s' 2 0 \<and>
    pc_sched_set_mutex_unlocked 0 s' = Inr ((), pc_example 0 255 2 3)"
proof -
  let ?s = "pc_example 0 255 2 3"
  have inv: "pc_inv ?s" by (rule pc_example_inv) simp_all
  have ids: "unat (0::u8) < pc_nmutexes ?s" "unat (2::u8) < pc_ntasks ?s" "pc_locker ?s (pc_midx ?s 0) = SCHED_INDEX_NONE"
    "pc_midx ?s 0 < pc_tidx ?s 2"
    by (simp_all add: pc_example_defs SCHED_INDEX_NONE_def)
  from pc_sched_mutex_lock_unlock [OF inv ids] ids(2) show ?thesis by blast
qed

end
