(* ===== verification/Kernel.thy ===== *)
theory Kernel
  imports Scheduler_Interface Error_Handling
begin

text \<open>
  The part of the kernel state that every variant has: the current task (\<open>components/task\<close>), the
  preemption flags of the preemptive context-switch components, and the state of the scheduler.
  The state of further components extends this record. Routines that give up the processor are
  modelled as coroutines: they stop at a program point and are resumed from it.
\<close>

section \<open>State\<close>

record 's kernel =
  k_current_task :: u8
  k_preempt_disabled :: bool
  k_preempt_pending :: bool
  k_sched :: 's

definition on_sched :: "('s, 'a) kop \<Rightarrow> (('s, 'z) kernel_scheme, 'a) kop" where
  "on_sched m k =
     (case m (k_sched k) of Inl e \<Rightarrow> Inl e | Inr (a, s) \<Rightarrow> Inr (a, k\<lparr>k_sched := s\<rparr>))"

section \<open>Tasks\<close>

definition TASK_ID_END :: "config \<Rightarrow> nat" where
  "TASK_ID_END c = tasks_length c"

definition get_current_task_check :: "config \<Rightarrow> (('s, 'z) kernel_scheme, u8) kop" where
  "get_current_task_check c =
     kbind (kgets k_current_task) (\<lambda>current_task.
     kbind (internal_assert c (unat current_task < tasks_length c)
              ERROR_ID_INTERNAL_CURRENT_TASK_INVALID) (\<lambda>_.
     kreturn current_task))"

definition get_current_task :: "config \<Rightarrow> (('s, 'z) kernel_scheme, u8) kop" where
  "get_current_task c =
     (if internal_asserts c then get_current_task_check c else kgets k_current_task)"

definition internal_assert_task_valid :: "config \<Rightarrow> u8 \<Rightarrow> ('k, unit) kop" where
  "internal_assert_task_valid c task =
     internal_assert c (unat task < tasks_length c) ERROR_ID_INTERNAL_INVALID_ID"

definition assert_task_valid :: "config \<Rightarrow> u8 \<Rightarrow> ('k, unit) kop" where
  "assert_task_valid c task = api_assert c (unat task < tasks_length c) ERROR_ID_INVALID_ID"

definition rtos_task_current :: "config \<Rightarrow> (('s, 'z) kernel_scheme, u8) kop" where
  "rtos_task_current c = get_current_task c"

section \<open>Preemption control\<close>

text \<open>
  The macros of the preemptive context-switch components; a cooperative variant uses
  \<open>preempt-null\<close>, where they are empty. \<open>preempt_enable\<close> clears the flag: the preemption that is
  then due when \<open>k_preempt_pending\<close> is set is a step of its own of the system.
\<close>

definition preempt_disable :: "config \<Rightarrow> (('s, 'z) kernel_scheme, unit) kop" where
  "preempt_disable c =
     kwhen (preemption_support c) (kmodify (\<lambda>k. k\<lparr>k_preempt_disabled := True\<rparr>))"

definition preempt_pend :: "config \<Rightarrow> (('s, 'z) kernel_scheme, unit) kop" where
  "preempt_pend c =
     kwhen (preemption_support c) (kmodify (\<lambda>k. k\<lparr>k_preempt_pending := True\<rparr>))"

definition preempt_clear :: "config \<Rightarrow> (('s, 'z) kernel_scheme, unit) kop" where
  "preempt_clear c =
     kwhen (preemption_support c) (kmodify (\<lambda>k. k\<lparr>k_preempt_pending := False\<rparr>))"

definition precondition_preemption_disabled :: "config \<Rightarrow> (('s, 'z) kernel_scheme, unit) kop" where
  "precondition_preemption_disabled c =
     kwhen (preemption_support c)
       (kbind (kgets k_preempt_disabled) (\<lambda>preempt_disabled.
          internal_assert c preempt_disabled ERROR_ID_INTERNAL_PRECONDITION_VIOLATED))"

definition postcondition_preemption_disabled :: "config \<Rightarrow> (('s, 'z) kernel_scheme, unit) kop" where
  "postcondition_preemption_disabled c =
     kwhen (preemption_support c)
       (kbind (kgets k_preempt_disabled) (\<lambda>preempt_disabled.
          internal_assert c preempt_disabled ERROR_ID_INTERNAL_POSTCONDITION_VIOLATED))"

definition preempt_enable :: "config \<Rightarrow> (('s, 'z) kernel_scheme, unit) kop" where
  "preempt_enable c =
     kwhen (preemption_support c)
       (kseq [precondition_preemption_disabled c, kmodify (\<lambda>k. k\<lparr>k_preempt_disabled := False\<rparr>)])"

text \<open>
  The variants Acamar, Gatria, Kraz, Acrux and Rigel are built without preemption, Kochab and Phact
  with it, whatever the rest of the configuration is.
\<close>

definition cooperative :: "config \<Rightarrow> config" where
  "cooperative c = c\<lparr>preemption_support := False\<rparr>"

definition preemptive :: "config \<Rightarrow> config" where
  "preemptive c = c\<lparr>preemption_support := True\<rparr>"

lemma config_variant [simp]:
  "preemption_support (cooperative c) = False" "preemption_support (preemptive c) = True"
  "tasks_length (cooperative c) = tasks_length c" "tasks_length (preemptive c) = tasks_length c"
  "api_asserts (cooperative c) = api_asserts c" "api_asserts (preemptive c) = api_asserts c"
  "internal_asserts (cooperative c) = internal_asserts c" "internal_asserts (preemptive c) = internal_asserts c"
  "SIGNAL_ID__TASK_TIMER (cooperative c) = SIGNAL_ID__TASK_TIMER c"
  "SIGNAL_ID__TASK_TIMER (preemptive c) = SIGNAL_ID__TASK_TIMER c"
  "semaphore_enable_max (cooperative c) = semaphore_enable_max c"
  "semaphore_enable_max (preemptive c) = semaphore_enable_max c"
  "SIGNAL_ID__RTOS_UTIL (cooperative c) = SIGNAL_ID__RTOS_UTIL c"
  "SIGNAL_ID__RTOS_UTIL (preemptive c) = SIGNAL_ID__RTOS_UTIL c"
  by (simp_all add: cooperative_def preemptive_def)

text \<open>
  Kernel code runs with preemption disabled, and for a valid current task: then the assertions hold
  whether or not they are compiled in.
\<close>

definition preempt_ok :: "config \<Rightarrow> ('s, 'z) kernel_scheme \<Rightarrow> bool" where
  "preempt_ok c k \<longleftrightarrow> (preemption_support c \<longrightarrow> k_preempt_disabled k)"

definition current_ok :: "config \<Rightarrow> ('s, 'z) kernel_scheme \<Rightarrow> bool" where
  "current_ok c k \<longleftrightarrow> unat (k_current_task k) < tasks_length c"

lemma precondition_preemption_disabled_run [simp]:
  "preempt_ok c k \<Longrightarrow> precondition_preemption_disabled c k = Inr ((), k)"
  by (simp add: precondition_preemption_disabled_def preempt_ok_def kop_defs)

lemma postcondition_preemption_disabled_run [simp]:
  "preempt_ok c k \<Longrightarrow> postcondition_preemption_disabled c k = Inr ((), k)"
  by (simp add: postcondition_preemption_disabled_def preempt_ok_def kop_defs)

lemma precondition_preemption_disabled_fatal:
  "precondition_preemption_disabled c k =
     (if preempt_ok c k \<or> \<not> internal_asserts c then Inr ((), k)
      else Inl (Fatal ERROR_ID_INTERNAL_PRECONDITION_VIOLATED))"
  by (simp add: precondition_preemption_disabled_def preempt_ok_def kop_defs)

lemma get_current_task_run [simp]:
  "current_ok c k \<Longrightarrow> get_current_task c k = Inr (k_current_task k, k)"
  by (simp add: get_current_task_def get_current_task_check_def current_ok_def kop_defs)

lemma assert_task_valid_run [simp]:
  "assert_task_valid c t k =
     (if unat t < tasks_length c \<or> \<not> api_asserts c then Inr ((), k) else Inl (Fatal ERROR_ID_INVALID_ID))"
  by (simp add: assert_task_valid_def)

lemma internal_assert_task_valid_run [simp]:
  "internal_assert_task_valid c t k =
     (if unat t < tasks_length c \<or> \<not> internal_asserts c then Inr ((), k)
      else Inl (Fatal ERROR_ID_INTERNAL_INVALID_ID))"
  by (simp add: internal_assert_task_valid_def)

definition enter :: "config \<Rightarrow> ('s, 'z) kernel_scheme \<Rightarrow> ('s, 'z) kernel_scheme" where
  "enter c k = k\<lparr>k_preempt_disabled := k_preempt_disabled k \<or> preemption_support c\<rparr>"

definition leave :: "config \<Rightarrow> ('s, 'z) kernel_scheme \<Rightarrow> ('s, 'z) kernel_scheme" where
  "leave c k = k\<lparr>k_preempt_disabled := k_preempt_disabled k \<and> \<not> preemption_support c\<rparr>"

definition pend :: "config \<Rightarrow> ('s, 'z) kernel_scheme \<Rightarrow> ('s, 'z) kernel_scheme" where
  "pend c k = k\<lparr>k_preempt_pending := k_preempt_pending k \<or> preemption_support c\<rparr>"

lemma preempt_disable_run [simp]: "preempt_disable c k = Inr ((), enter c k)"
  by (simp add: preempt_disable_def enter_def kop_defs)

lemma preempt_pend_run [simp]: "preempt_pend c k = Inr ((), pend c k)"
  by (simp add: preempt_pend_def pend_def kop_defs)

lemma preempt_enable_run [simp]: "preempt_ok c k \<Longrightarrow> preempt_enable c k = Inr ((), leave c k)"
  by (simp add: preempt_enable_def leave_def kop_defs)

lemma enter_simps [simp]:
  "k_current_task (enter c k) = k_current_task k"
  "k_preempt_pending (enter c k) = k_preempt_pending k"
  "k_sched (enter c k) = k_sched k"
  "preempt_ok c (enter c k)"
  "current_ok c (enter c k) = current_ok c k"
  "enter c (enter c k) = enter c k"
  "leave c (enter c k) = leave c k"
  by (cases "preemption_support c"; simp add: enter_def leave_def preempt_ok_def current_ok_def)+

lemma leave_simps [simp]:
  "k_current_task (leave c k) = k_current_task k"
  "k_preempt_pending (leave c k) = k_preempt_pending k"
  "k_sched (leave c k) = k_sched k"
  "current_ok c (leave c k) = current_ok c k"
  "preemption_support c \<Longrightarrow> \<not> k_preempt_disabled (leave c k)"
  by (simp_all add: leave_def current_ok_def)

lemma pend_simps [simp]:
  "k_current_task (pend c k) = k_current_task k"
  "k_preempt_disabled (pend c k) = k_preempt_disabled k"
  "k_sched (pend c k) = k_sched k"
  "preempt_ok c (pend c k) = preempt_ok c k"
  "current_ok c (pend c k) = current_ok c k"
  by (simp_all add: pend_def preempt_ok_def current_ok_def)

lemma enter_ok [simp]: "preempt_ok c k \<Longrightarrow> enter c k = k"
  by (cases k; cases "preemption_support c") (simp_all add: enter_def preempt_ok_def)

lemma cooperative_frame [simp]:
  "enter (cooperative c) k = k" "leave (cooperative c) k = k" "pend (cooperative c) k = k"
  "preempt_ok (cooperative c) k"
  by (simp_all add: enter_def leave_def pend_def preempt_ok_def)

lemma on_sched_run: "m (k_sched k) = Inr (a, s) \<Longrightarrow> on_sched m k = Inr (a, k\<lparr>k_sched := s\<rparr>)"
  by (simp add: on_sched_def)

section \<open>Coroutines\<close>

text \<open>
  A routine that yields reports the program point \<open>'p\<close> it stopped at, or that it has finished with a
  result. \<open>co_bind\<close> runs a routine inside another one: the inner program points are wrapped into
  outer ones, and the rest of the outer routine follows when the inner one has finished.
\<close>

datatype ('p, 'a) progress = Suspended 'p | Finished 'a

definition co_bind ::
  "('k, ('p, 'a) progress) kop \<Rightarrow> ('p \<Rightarrow> 'q) \<Rightarrow> ('a \<Rightarrow> ('k, ('q, 'b) progress) kop) \<Rightarrow>
     ('k, ('q, 'b) progress) kop"
where
  "co_bind m wrap f =
     kbind m (\<lambda>r. case r of Suspended p \<Rightarrow> kreturn (Suspended (wrap p)) | Finished a \<Rightarrow> f a)"

definition co_finish :: "('k, unit) kop \<Rightarrow> 'a \<Rightarrow> ('k, ('p, 'a) progress) kop" where
  "co_finish m a = kbind m (\<lambda>_. kreturn (Finished a))"

declare co_bind_def [kop_defs] co_finish_def [kop_defs]

section \<open>Waking and blocking tasks\<close>

text \<open>
  What the components that wake and block tasks (signals, and through them timers, mutexes,
  semaphores and message queues) rely on: the variant's \<open>unblock\<close> and \<open>block\<close>, on top of a
  scheduler. \<open>block\<close> is the part before the yield.
\<close>

definition kernel_inv :: "config \<Rightarrow> ('s \<Rightarrow> bool) \<Rightarrow> ('s \<Rightarrow> nat) \<Rightarrow> ('s, 'z) kernel_scheme \<Rightarrow> bool" where
  "kernel_inv c sinv ntasks k \<longleftrightarrow>
     sinv (k_sched k) \<and> ntasks (k_sched k) = tasks_length c \<and> current_ok c k"

lemma kernel_inv_simps [simp]:
  "kernel_inv c sinv ntasks (enter c k) = kernel_inv c sinv ntasks k"
  "kernel_inv c sinv ntasks (leave c k) = kernel_inv c sinv ntasks k"
  "kernel_inv c sinv ntasks (pend c k) = kernel_inv c sinv ntasks k"
  by (simp_all add: kernel_inv_def)

locale task_control = scheduler +
  fixes c :: config
    and unblock :: "u8 \<Rightarrow> (('a, 'z) kernel_scheme, unit) kop"
    and block_task :: "(('a, 'z) kernel_scheme, unit) kop"
  assumes unblock: "kernel_inv c inv ntasks k \<Longrightarrow> preempt_ok c k \<Longrightarrow> unat t < tasks_length c \<Longrightarrow>
      unblock t k = Inr ((), pend c (k\<lparr>k_sched := ready t (k_sched k)\<rparr>))"
    and block_task: "kernel_inv c inv ntasks k \<Longrightarrow> preempt_ok c k \<Longrightarrow>
      block_task k = Inr ((), k\<lparr>k_sched := block (k_current_task k) (k_sched k)\<rparr>)"
begin

lemma unblock_inv:
  assumes "kernel_inv c inv ntasks k" and "preempt_ok c k" and "unat t < tasks_length c"
  shows "\<exists>k'. unblock t k = Inr ((), k') \<and> kernel_inv c inv ntasks k' \<and> preempt_ok c k' \<and>
    runnable (k_sched k') t"
proof -
  let ?k = "pend c (k\<lparr>k_sched := ready t (k_sched k)\<rparr>)"
  have s: "inv (k_sched k)" "unat t < ntasks (k_sched k)"
    using assms by (simp_all add: kernel_inv_def)
  have "kernel_inv c inv ntasks ?k" "preempt_ok c ?k" "runnable (k_sched ?k) t"
    using assms inv_ready [OF s] ntasks_ready [OF s] runnable_ready [OF s s(2)]
    by (simp_all add: kernel_inv_def current_ok_def preempt_ok_def)
  then show ?thesis using unblock [OF assms] by blast
qed

lemma block_inv:
  assumes "kernel_inv c inv ntasks k" and "preempt_ok c k"
  shows "\<exists>k'. block_task k = Inr ((), k') \<and> kernel_inv c inv ntasks k' \<and> preempt_ok c k' \<and>
    \<not> runnable (k_sched k') (k_current_task k)"
proof -
  let ?k = "k\<lparr>k_sched := block (k_current_task k) (k_sched k)\<rparr>"
  have s: "inv (k_sched k)" "unat (k_current_task k) < ntasks (k_sched k)"
    using assms by (simp_all add: kernel_inv_def current_ok_def)
  have "kernel_inv c inv ntasks ?k" "preempt_ok c ?k" "\<not> runnable (k_sched ?k) (k_current_task k)"
    using assms inv_block [OF s] ntasks_block [OF s] runnable_block [OF s s(2)]
    by (simp_all add: kernel_inv_def current_ok_def preempt_ok_def)
  then show ?thesis using block_task [OF assms] by blast
qed

end

end
