(* ===== verification/Interrupt_Events.thy ===== *)
theory Interrupt_Events
  imports Kernel
begin

text \<open>
  Interrupt events: the platform parts (\<open>components/interrupt-event-armv7m\<close>, \<open>-ppce500\<close>,
  \<open>-posix\<close>) that record raised events in a bit set and process them, and the platform-independent
  scheduling loop (\<open>components/interrupt-event\<close>). What happens to a processed event is up to
  \<open>interrupt_event_handle\<close>, which other components provide.

  Interrupt handlers run between any two steps of the processing loop. They only add events; what
  they add at point number \<open>n\<close> of a run is the mask \<open>isr n\<close>.
\<close>

section \<open>Model\<close>

record 's irq_kernel = "'s kernel" +
  k_interrupt_event :: u32
  k_system_is_idle :: bool

definition event_bit :: "nat \<Rightarrow> u32" where
  "event_bit i = push_bit i 1"

definition isr_raise :: "u32 \<Rightarrow> (('s, 'z) irq_kernel_scheme, unit) kop" where
  "isr_raise events = kmodify (\<lambda>k. k\<lparr>k_interrupt_event := k_interrupt_event k OR events\<rparr>)"

text \<open>\<open>__builtin_ffs\<close>: one more than the index of the least significant set bit.\<close>

definition builtin_ffs :: "u32 \<Rightarrow> nat" where
  "builtin_ffs w = (case find (bit w) [0..<32] of None \<Rightarrow> 0 | Some i \<Rightarrow> Suc i)"

lemma builtin_ffs_bit:
  assumes "w \<noteq> 0"
  shows "bit w (builtin_ffs w - 1)" and "builtin_ffs w - 1 < 32" and "j < builtin_ffs w - 1 \<Longrightarrow> \<not> bit w j"
proof -
  obtain n where n: "bit w n" using assms by (auto simp: bit_eq_iff)
  then have "n < 32" using bit_imp_le_length [of w n] by simp
  with n obtain i where i: "find (bit w) [0..<32] = Some i"
    by (cases "find (bit w) [0..<32]") (auto simp: find_None_iff)
  then have "i < 32" "bit w i" "\<forall>j < i. \<not> bit w j"
    by (auto simp: find_Some_iff)
  then show "bit w (builtin_ffs w - 1)" and "builtin_ffs w - 1 < 32"
    and "j < builtin_ffs w - 1 \<Longrightarrow> \<not> bit w j"
    by (simp_all add: builtin_ffs_def i)
qed

lemma clear_bit_less: "bit w i \<Longrightarrow> unat (w AND NOT (event_bit i)) < unat w"
proof -
  assume i: "bit w i"
  have "\<not> bit (w AND NOT (event_bit i)) i"
    by (simp add: event_bit_def bit_simps)
  then have "w AND NOT (event_bit i) \<noteq> w" using i by metis
  moreover have "w AND NOT (event_bit i) \<le> w" by (rule word_and_le2)
  ultimately show ?thesis by (simp add: word_le_nat_alt word_unat_eq_iff)
qed

subsection \<open>ARMv7-M\<close>

text \<open>Bit-band accesses read, set or clear one bit in a single memory access.\<close>

definition armv7m_interrupt_event_raise :: "u8 \<Rightarrow> (('s, 'z) irq_kernel_scheme, unit) kop" where
  "armv7m_interrupt_event_raise interrupt_event_id =
     (if unat interrupt_event_id < 32 then isr_raise (event_bit (unat interrupt_event_id))
      else kfail Out_Of_Bounds)"

definition armv7m_interrupt_application_event_check :: "('s, 'z) irq_kernel_scheme \<Rightarrow> bool" where
  "armv7m_interrupt_application_event_check k \<longleftrightarrow> k_interrupt_event k \<noteq> 0"

function armv7m_process_loop ::
  "(u8 \<Rightarrow> (('s, 'z) irq_kernel_scheme, unit) kop) \<Rightarrow> (nat \<Rightarrow> u32) \<Rightarrow> nat \<Rightarrow> u32 \<Rightarrow>
     (('s, 'z) irq_kernel_scheme, unit) kop"
where
  "armv7m_process_loop handle isr n tmp =
     (if tmp \<noteq> 0
      then let i = builtin_ffs tmp - 1 in
        kbind (isr_raise (isr n)) (\<lambda>_.
        kbind (kmodify (\<lambda>k. k\<lparr>k_interrupt_event := k_interrupt_event k AND NOT (event_bit i)\<rparr>)) (\<lambda>_.
        kbind (isr_raise (isr (Suc n))) (\<lambda>_.
        kbind (handle (of_nat i)) (\<lambda>_.
        armv7m_process_loop handle isr (Suc (Suc n)) (tmp AND NOT (event_bit i))))))
      else kreturn ())"
  by pat_completeness auto
termination
  by (relation "measure (\<lambda>(handle, isr, n, tmp). unat tmp)")
     (auto intro!: clear_bit_less simp: builtin_ffs_bit [simplified])

declare armv7m_process_loop.simps [simp del]

definition armv7m_interrupt_event_process ::
  "(u8 \<Rightarrow> (('s, 'z) irq_kernel_scheme, unit) kop) \<Rightarrow> (nat \<Rightarrow> u32) \<Rightarrow>
     (('s, 'z) irq_kernel_scheme, unit) kop"
where
  "armv7m_interrupt_event_process handle isr =
     kbind (kgets k_interrupt_event) (\<lambda>tmp. armv7m_process_loop handle isr 0 tmp)"

subsection \<open>PowerPC e500\<close>

definition ppce500_interrupt_event_raise :: "u8 \<Rightarrow> (('s, 'z) irq_kernel_scheme, unit) kop" where
  "ppce500_interrupt_event_raise interrupt_event_id = isr_raise (event_bit (unat interrupt_event_id))"

definition ppce500_interrupt_application_event_check :: "('s, 'z) irq_kernel_scheme \<Rightarrow> bool" where
  "ppce500_interrupt_application_event_check k \<longleftrightarrow> k_interrupt_event k \<noteq> 0"

text \<open>
  Here \<open>interrupt_event &= ~(1U << i)\<close> reads the variable, and writes it in a second step.
\<close>

function ppce500_process_loop ::
  "(u8 \<Rightarrow> (('s, 'z) irq_kernel_scheme, unit) kop) \<Rightarrow> (nat \<Rightarrow> u32) \<Rightarrow> nat \<Rightarrow> u32 \<Rightarrow>
     (('s, 'z) irq_kernel_scheme, unit) kop"
where
  "ppce500_process_loop handle isr n tmp =
     (if tmp \<noteq> 0
      then let i = builtin_ffs tmp - 1 in
        kbind (isr_raise (isr n)) (\<lambda>_.
        kbind (kgets k_interrupt_event) (\<lambda>read.
        kbind (isr_raise (isr (Suc n))) (\<lambda>_.
        kbind (kmodify (\<lambda>k. k\<lparr>k_interrupt_event := read AND NOT (event_bit i)\<rparr>)) (\<lambda>_.
        kbind (isr_raise (isr (Suc (Suc n)))) (\<lambda>_.
        kbind (handle (of_nat i)) (\<lambda>_.
        ppce500_process_loop handle isr (Suc (Suc (Suc n))) (tmp AND NOT (event_bit i))))))))
      else kreturn ())"
  by pat_completeness auto
termination
  by (relation "measure (\<lambda>(handle, isr, n, tmp). unat tmp)")
     (auto intro!: clear_bit_less simp: builtin_ffs_bit [simplified])

declare ppce500_process_loop.simps [simp del]

definition ppce500_interrupt_event_process ::
  "config \<Rightarrow> bool \<Rightarrow> (u8 \<Rightarrow> (('s, 'z) irq_kernel_scheme, unit) kop) \<Rightarrow> (nat \<Rightarrow> u32) \<Rightarrow>
     (('s, 'z) irq_kernel_scheme, unit) kop"
where
  "ppce500_interrupt_event_process c has_interrupt_events handle isr =
     (if has_interrupt_events
      then kbind (preempt_clear c) (\<lambda>_.
           kbind (kgets k_interrupt_event) (\<lambda>tmp. ppce500_process_loop handle isr 0 tmp))
      else preempt_clear c)"

subsection \<open>POSIX\<close>

text \<open>
  POSIX signals are blocked while the variable is changed. The outer loop runs until no event is
  pending; as handlers can keep raising events it takes fuel.
\<close>

definition posix_interrupt_event_raise :: "u8 \<Rightarrow> (('s, 'z) irq_kernel_scheme, unit) kop" where
  "posix_interrupt_event_raise interrupt_event_id = isr_raise (event_bit (unat interrupt_event_id))"

definition posix_interrupt_application_event_check :: "('s, 'z) irq_kernel_scheme \<Rightarrow> bool" where
  "posix_interrupt_application_event_check k \<longleftrightarrow> k_interrupt_event k \<noteq> 0"

primrec posix_process_pass ::
  "(u8 \<Rightarrow> (('s, 'z) irq_kernel_scheme, unit) kop) \<Rightarrow> (nat \<Rightarrow> u32) \<Rightarrow> nat list \<Rightarrow>
     (('s, 'z) irq_kernel_scheme, unit) kop"
where
  "posix_process_pass handle isr [] = kreturn ()"
| "posix_process_pass handle isr (current # rest) =
     kbind (isr_raise (isr current)) (\<lambda>_.
     kbind (kgets k_interrupt_event) (\<lambda>pending.
     if pending = 0 then kreturn ()
     else kbind
       (if pending AND event_bit current \<noteq> 0
        then kbind (kmodify (\<lambda>k. k\<lparr>k_interrupt_event := k_interrupt_event k AND NOT (event_bit current)\<rparr>))
               (\<lambda>_. handle (of_nat current))
        else kreturn ()) (\<lambda>_.
       posix_process_pass handle isr rest)))"

primrec posix_interrupt_event_process ::
  "nat \<Rightarrow> nat \<Rightarrow> (u8 \<Rightarrow> (('s, 'z) irq_kernel_scheme, unit) kop) \<Rightarrow> (nat \<Rightarrow> nat \<Rightarrow> u32) \<Rightarrow>
     (('s, 'z) irq_kernel_scheme, unit) kop"
where
  "posix_interrupt_event_process interrupt_events_length 0 handle isr =
     kbind (kgets k_interrupt_event) (\<lambda>pending.
     if pending \<noteq> 0 then kfail Diverges else kreturn ())"
| "posix_interrupt_event_process interrupt_events_length (Suc fuel) handle isr =
     kbind (kgets k_interrupt_event) (\<lambda>pending.
     if pending \<noteq> 0
     then kbind (posix_process_pass handle (isr fuel) [0..<interrupt_events_length]) (\<lambda>_.
       posix_interrupt_event_process interrupt_events_length fuel handle isr)
     else kreturn ())"

subsection \<open>The scheduling loop\<close>

text \<open>
  \<open>interrupt_event_get_next\<close> processes interrupt events and, where the component is configured with
  \<open>timer_process\<close>, timer ticks, and asks the scheduler for a task; when there is none, it waits for
  an interrupt and starts again. The platform's processing function, the tick processing and the
  scheduler are parameters. \<open>waits\<close> lists what interrupts do during each wait; when it is exhausted
  the system stays idle, which is the result \<open>None\<close>.
\<close>

definition set_idle :: "bool \<Rightarrow> (('s, 'z) irq_kernel_scheme, unit) kop" where
  "set_idle b = kmodify (\<lambda>k. k\<lparr>k_system_is_idle := b\<rparr>)"

primrec interrupt_event_get_next ::
  "config \<Rightarrow> (('s, 'z) irq_kernel_scheme, unit) kop \<Rightarrow> (('s, 'z) irq_kernel_scheme, unit) kop \<Rightarrow>
     (('s, 'z) irq_kernel_scheme, u8) kop \<Rightarrow> (('s, 'z) irq_kernel_scheme, unit) kop list \<Rightarrow>
     (('s, 'z) irq_kernel_scheme, u8 option) kop"
where
  "interrupt_event_get_next c process tick_process get_next [] =
     kbind process (\<lambda>_.
     kbind tick_process (\<lambda>_.
     kbind get_next (\<lambda>next.
     if next = TASK_ID_NONE
     then kbind (set_idle True) (\<lambda>_. kreturn None)
     else kbind (set_idle False) (\<lambda>_.
       kbind (internal_assert_task_valid c next) (\<lambda>_. kreturn (Some next))))))"
| "interrupt_event_get_next c process tick_process get_next (wait # waits) =
     kbind process (\<lambda>_.
     kbind tick_process (\<lambda>_.
     kbind get_next (\<lambda>next.
     if next = TASK_ID_NONE
     then kbind (set_idle True) (\<lambda>_.
       kbind wait (\<lambda>_. interrupt_event_get_next c process tick_process get_next waits))
     else kbind (set_idle False) (\<lambda>_.
       kbind (internal_assert_task_valid c next) (\<lambda>_. kreturn (Some next))))))"

section \<open>Event sets\<close>

definition events_in :: "u32 \<Rightarrow> nat list" where
  "events_in w = filter (bit w) [0..<32]"

lemma set_events_in: "set (events_in w) = {i. bit w i}"
  by (auto simp: events_in_def dest: bit_imp_le_length)

lemma bit_event_bit [simp]: "bit (event_bit i) j \<longleftrightarrow> i < 32 \<and> j = i"
  by (auto simp: event_bit_def bit_simps)

lemma events_in_zero [simp]: "events_in 0 = []"
  by (simp add: events_in_def)

lemma events_in_step:
  assumes "w \<noteq> 0"
  shows "events_in w = (builtin_ffs w - 1) # events_in (w AND NOT (event_bit (builtin_ffs w - 1)))"
proof -
  let ?i = "builtin_ffs w - 1"
  note i = builtin_ffs_bit [OF assms]
  have split: "[0..<32] = [0..<?i] @ ?i # [Suc ?i..<32]"
    using i(2) upt_add_eq_append [of 0 ?i "32 - ?i"] by (simp add: upt_conv_Cons del: upt_rec_numeral)
  let ?w = "w AND NOT (event_bit ?i)"
  have "filter (bit w) [0..<?i] = []" "filter (bit ?w) [0..<?i] = []"
    using i(3) by (auto simp: filter_empty_conv bit_and_iff)
  moreover have "filter (bit ?w) [Suc ?i..<32] = filter (bit w) [Suc ?i..<32]"
    by (intro filter_cong) (auto simp: bit_and_iff bit_not_iff dest: bit_imp_le_length)
  moreover have "\<not> bit ?w ?i" using i(2) by (simp add: bit_and_iff bit_not_iff)
  ultimately show ?thesis
    unfolding events_in_def split using i(1) by simp
qed

section \<open>Processing events\<close>

text \<open>
  What stays pending after the loop has cleared the events \<open>is\<close>, in terms of what was pending
  before and of what interrupt handlers raised meanwhile.
\<close>

primrec armv7m_pending :: "(nat \<Rightarrow> u32) \<Rightarrow> nat \<Rightarrow> nat list \<Rightarrow> u32 \<Rightarrow> u32" where
  "armv7m_pending isr n [] p = p"
| "armv7m_pending isr n (i # is) p =
     armv7m_pending isr (n + 2) is (((p OR isr n) AND NOT (event_bit i)) OR isr (n + 1))"

primrec ppce500_pending :: "(nat \<Rightarrow> u32) \<Rightarrow> nat \<Rightarrow> nat list \<Rightarrow> u32 \<Rightarrow> u32" where
  "ppce500_pending isr n [] p = p"
| "ppce500_pending isr n (i # is) p =
     ppce500_pending isr (n + 3) is (((p OR isr n) AND NOT (event_bit i)) OR isr (n + 2))"

lemma armv7m_pending_other:
  "b \<notin> set is \<Longrightarrow> bit (armv7m_pending isr n is p) b \<longleftrightarrow>
     bit p b \<or> (\<exists>m < 2 * length is. bit (isr (n + m)) b)"
proof (induction "is" arbitrary: n p)
  case Nil
  then show ?case by simp
next
  case (Cons i "is")
  have "(\<exists>m < 2 * length (i # is). bit (isr (n + m)) b) \<longleftrightarrow>
      bit (isr n) b \<or> bit (isr (n + 1)) b \<or> (\<exists>m < 2 * length is. bit (isr (n + 2 + m)) b)"
    (is "?l \<longleftrightarrow> ?r")
  proof
    assume ?l
    then obtain m where m: "m < 2 * length (i # is)" "bit (isr (n + m)) b" by blast
    consider "m = 0" | "m = 1" | m' where "m = m' + 2" by (cases m rule: nat.exhaust; cases "m - 1") auto
    then show ?r
    proof cases
      case 3
      then have "m' < 2 * length is" "bit (isr (n + 2 + m')) b" using m by (simp_all add: algebra_simps)
      then show ?thesis by blast
    qed (use m in simp_all)
  next
    assume ?r
    then consider "bit (isr n) b" | "bit (isr (n + 1)) b"
      | m where "m < 2 * length is" "bit (isr (n + 2 + m)) b" by blast
    then show ?l
    proof cases
      case 1
      then show ?thesis by (intro exI [of _ 0]) simp
    next
      case 2
      then show ?thesis by (intro exI [of _ 1]) simp
    next
      case 3
      then show ?thesis by (intro exI [of _ "m + 2"]) (simp add: algebra_simps)
    qed
  qed
  moreover have "bit (((p OR isr n) AND NOT (event_bit i)) OR isr (n + 1)) b \<longleftrightarrow>
      bit p b \<or> bit (isr n) b \<or> bit (isr (n + 1)) b"
    using Cons.prems by (auto simp: bit_simps dest: bit_imp_le_length)
  ultimately show ?case using Cons by auto
qed

lemma armv7m_pending_cleared:
  assumes "distinct is" and "j < length is"
  shows "bit (armv7m_pending isr n is p) (is ! j) \<longleftrightarrow>
    (\<exists>m. 2 * j < m \<and> m < 2 * length is \<and> bit (isr (n + m)) (is ! j))"
  using assms
proof (induction "is" arbitrary: n p j)
  case Nil
  then show ?case by simp
next
  case (Cons i "is")
  show ?case
  proof (cases j)
    case 0
    have "bit (((p OR isr n) AND NOT (event_bit i)) OR isr (n + 1)) i \<longleftrightarrow> bit (isr (n + 1)) i"
      by (auto simp: bit_simps dest: bit_imp_le_length)
    then have "bit (armv7m_pending isr n (i # is) p) i \<longleftrightarrow>
        bit (isr (n + 1)) i \<or> (\<exists>m < 2 * length is. bit (isr (n + 2 + m)) i)"
      using Cons.prems armv7m_pending_other [of i "is" isr "n + 2"] by simp
    also have "\<dots> \<longleftrightarrow> (\<exists>m. 0 < m \<and> m < 2 * length (i # is) \<and> bit (isr (n + m)) i)" (is "?l \<longleftrightarrow> ?r")
    proof
      assume ?l
      then show ?r
      proof
        assume "bit (isr (n + 1)) i"
        then show ?r by (intro exI [of _ 1]) simp
      next
        assume "\<exists>m < 2 * length is. bit (isr (n + 2 + m)) i"
        then obtain m where "m < 2 * length is" "bit (isr (n + 2 + m)) i" by blast
        then show ?r by (intro exI [of _ "m + 2"]) (simp add: algebra_simps)
      qed
    next
      assume ?r
      then obtain m where m: "0 < m" "m < 2 * length (i # is)" "bit (isr (n + m)) i" by blast
      show ?l
      proof (cases "m = 1")
        case False
        then obtain m' where "m = m' + 2" using m(1) by (metis One_nat_def Suc_1 add.commute add_Suc_shift gr0_conv_Suc not0_implies_Suc plus_1_eq_Suc)
        then have "m' < 2 * length is" "bit (isr (n + 2 + m')) i" using m by (simp_all add: algebra_simps)
        then show ?thesis by blast
      qed (use m in simp)
    qed
    finally show ?thesis using 0 by simp
  next
    case (Suc j')
    have "(\<exists>m. 2 * j' < m \<and> m < 2 * length is \<and> bit (isr (n + 2 + m)) (is ! j')) \<longleftrightarrow>
        (\<exists>m. 2 * j < m \<and> m < 2 * length (i # is) \<and> bit (isr (n + m)) (is ! j'))" (is "?l \<longleftrightarrow> ?r")
    proof
      assume ?l
      then obtain m where "2 * j' < m" "m < 2 * length is" "bit (isr (n + 2 + m)) (is ! j')" by blast
      then show ?r using Suc by (intro exI [of _ "m + 2"]) (simp add: algebra_simps)
    next
      assume ?r
      then obtain m where m: "2 * j < m" "m < 2 * length (i # is)" "bit (isr (n + m)) (is ! j')" by blast
      then have "m = (m - 2) + 2" using Suc by simp
      then obtain m' where "m = m' + 2" by blast
      then show ?l using m Suc by (intro exI [of _ m']) (simp add: algebra_simps)
    qed
    then show ?thesis using Cons Suc by simp
  qed
qed

lemma ppce500_pending_bound:
  "bit (ppce500_pending isr n is p) b \<Longrightarrow> bit p b \<or> (\<exists>m. bit (isr m) b)"
proof (induction "is" arbitrary: n p)
  case (Cons i "is")
  then have "bit (((p OR isr n) AND NOT (event_bit i)) OR isr (n + 2)) b \<or> (\<exists>m. bit (isr m) b)"
    using Cons.IH [of "n + 3"] by simp
  then show ?case by (auto simp: bit_or_iff bit_and_iff)
qed simp

lemma ppce500_pending_quiet:
  "\<forall>m < 3 * length is. isr (n + m) = 0 \<Longrightarrow> \<forall>i \<in> set is. i < 32 \<Longrightarrow>
     bit (ppce500_pending isr n is p) b \<longleftrightarrow> bit p b \<and> b \<notin> set is"
proof (induction "is" arbitrary: n p)
  case (Cons i "is")
  have "isr (n + m) = 0" if "m < 3 + 3 * length is" for m using Cons.prems(1) that by simp
  from this [of 0] this [of 2] have "isr n = 0" "isr (n + 2) = 0" by simp_all
  moreover have "\<forall>m < 3 * length is. isr (n + 3 + m) = 0"
    using \<open>\<And>m. m < 3 + 3 * length is \<Longrightarrow> isr (n + m) = 0\<close> by (simp add: add.assoc)
  ultimately show ?case
    using Cons.IH [of "n + 3"] Cons.prems(2) by (auto simp: bit_and_iff bit_not_iff dest: bit_imp_le_length)
qed simp

lemma length_events_in: "length (events_in w) \<le> 32"
  using length_filter_le [of "bit w" "[0..<32]"] by (simp add: events_in_def)

lemma ppce500_pending_all_handled:
  assumes "\<forall>m < 96. isr m = 0"
  shows "ppce500_pending isr 0 (events_in w) w = 0"
proof -
  have "\<forall>m < 3 * length (events_in w). isr (0 + m) = 0" using assms length_events_in [of w] by simp
  moreover have "\<forall>i \<in> set (events_in w). i < 32" by (simp add: events_in_def)
  ultimately show ?thesis
    by (intro bit_eqI) (simp add: ppce500_pending_quiet set_events_in)
qed

lemma distinct_events_in: "distinct (events_in w)"
  by (simp add: events_in_def)

text \<open>
  Handlers of events (they send signals, or make a task runnable) neither look at nor change the set
  of pending events.
\<close>

locale event_handler =
  fixes handle :: "u8 \<Rightarrow> (('s, 'z) irq_kernel_scheme, unit) kop"
    and effect :: "u8 \<Rightarrow> ('s, 'z) irq_kernel_scheme \<Rightarrow> ('s, 'z) irq_kernel_scheme"
    and ok :: "('s, 'z) irq_kernel_scheme \<Rightarrow> bool"
    and nevents :: nat
  assumes handle: "ok k \<Longrightarrow> unat e < nevents \<Longrightarrow> handle e k = Inr ((), effect e k)"
    and ok_effect: "ok k \<Longrightarrow> unat e < nevents \<Longrightarrow> ok (effect e k)"
    and ok_events: "ok (k\<lparr>k_interrupt_event := v\<rparr>) = ok k"
    and effect_events: "effect e (k\<lparr>k_interrupt_event := v\<rparr>) = (effect e k)\<lparr>k_interrupt_event := v\<rparr>"
begin

abbreviation handled :: "nat list \<Rightarrow> ('s, 'z) irq_kernel_scheme \<Rightarrow> ('s, 'z) irq_kernel_scheme" where
  "handled is k \<equiv> fold (\<lambda>i. effect (of_nat i)) is k"

lemma effect_keeps_events: "k_interrupt_event (effect e k) = k_interrupt_event k"
proof -
  have "effect e (k\<lparr>k_interrupt_event := k_interrupt_event k\<rparr>) =
      (effect e k)\<lparr>k_interrupt_event := k_interrupt_event k\<rparr>" by (rule effect_events)
  then have "effect e k = (effect e k)\<lparr>k_interrupt_event := k_interrupt_event k\<rparr>" by simp
  then show ?thesis by (metis irq_kernel.select_convs(1) irq_kernel.surjective irq_kernel.update_convs(1))
qed

lemma handled_events: "handled is (k\<lparr>k_interrupt_event := v\<rparr>) = (handled is k)\<lparr>k_interrupt_event := v\<rparr>"
  by (induction "is" arbitrary: k) (simp_all add: effect_events)

lemma armv7m_process_loop_eq:
  assumes "ok k" and "\<forall>i \<in> set (events_in tmp). i < nevents" and "nevents \<le> 256"
  shows "armv7m_process_loop handle isr n tmp k =
    Inr ((), (handled (events_in tmp) k)
      \<lparr>k_interrupt_event := armv7m_pending isr n (events_in tmp) (k_interrupt_event k)\<rparr>)"
  using assms(1,2)
proof (induction "unat tmp" arbitrary: tmp n k rule: less_induct)
  case less
  show ?case
  proof (cases "tmp = 0")
    case True
    then show ?thesis by (simp add: armv7m_process_loop.simps kreturn_def)
  next
    case False
    let ?i = "builtin_ffs tmp - 1"
    let ?tmp = "tmp AND NOT (event_bit ?i)"
    let ?p = "((k_interrupt_event k OR isr n) AND NOT (event_bit ?i)) OR isr (Suc n)"
    let ?k = "k\<lparr>k_interrupt_event := ?p\<rparr>"
    have split: "events_in tmp = ?i # events_in ?tmp" by (rule events_in_step [OF False])
    then have i: "?i < nevents" and rest: "\<forall>i \<in> set (events_in ?tmp). i < nevents"
      using less.prems by auto
    then have u: "unat (of_nat ?i :: u8) = ?i" using assms(3) by (simp add: u8_unat_of_nat)
    have smaller: "unat ?tmp < unat tmp" using builtin_ffs_bit(1) [OF False] by (rule clear_bit_less)
    have ok: "ok ?k" "ok (effect (of_nat ?i) ?k)"
      using less.prems(1) i u by (simp_all add: ok_events ok_effect)
    have "armv7m_process_loop handle isr n tmp k =
        armv7m_process_loop handle isr (Suc (Suc n)) ?tmp (effect (of_nat ?i) ?k)"
      using False handle [OF ok(1)] i u
      by (simp add: armv7m_process_loop.simps [of _ _ n tmp] isr_raise_def kbind_def kmodify_def Let_def)
    also have "\<dots> = Inr ((), (handled (events_in ?tmp) (effect (of_nat ?i) ?k))
      \<lparr>k_interrupt_event := armv7m_pending isr (Suc (Suc n)) (events_in ?tmp) ?p\<rparr>)"
      using less.hyps [OF smaller ok(2) rest] by (simp add: effect_keeps_events)
    finally show ?thesis
      by (simp add: split effect_events handled_events)
  qed
qed

lemma armv7m_process_eq:
  assumes "ok k" and "\<forall>i. bit (k_interrupt_event k) i \<longrightarrow> i < nevents" and "nevents \<le> 256"
  shows "armv7m_interrupt_event_process handle isr k =
    Inr ((), (handled (events_in (k_interrupt_event k)) k)
      \<lparr>k_interrupt_event :=
        armv7m_pending isr 0 (events_in (k_interrupt_event k)) (k_interrupt_event k)\<rparr>)"
  using assms
  by (simp add: armv7m_interrupt_event_process_def kbind_def kgets_def armv7m_process_loop_eq set_events_in)

lemma ppce500_process_loop_eq:
  assumes "ok k" and "\<forall>i \<in> set (events_in tmp). i < nevents" and "nevents \<le> 256"
  shows "ppce500_process_loop handle isr n tmp k =
    Inr ((), (handled (events_in tmp) k)
      \<lparr>k_interrupt_event := ppce500_pending isr n (events_in tmp) (k_interrupt_event k)\<rparr>)"
  using assms(1,2)
proof (induction "unat tmp" arbitrary: tmp n k rule: less_induct)
  case less
  show ?case
  proof (cases "tmp = 0")
    case True
    then show ?thesis by (simp add: ppce500_process_loop.simps kreturn_def)
  next
    case False
    let ?i = "builtin_ffs tmp - 1"
    let ?tmp = "tmp AND NOT (event_bit ?i)"
    let ?p = "((k_interrupt_event k OR isr n) AND NOT (event_bit ?i)) OR isr (Suc (Suc n))"
    let ?k = "k\<lparr>k_interrupt_event := ?p\<rparr>"
    have split: "events_in tmp = ?i # events_in ?tmp" by (rule events_in_step [OF False])
    then have i: "?i < nevents" and rest: "\<forall>i \<in> set (events_in ?tmp). i < nevents"
      using less.prems by auto
    then have u: "unat (of_nat ?i :: u8) = ?i" using assms(3) by (simp add: u8_unat_of_nat)
    have smaller: "unat ?tmp < unat tmp" using builtin_ffs_bit(1) [OF False] by (rule clear_bit_less)
    have ok: "ok ?k" "ok (effect (of_nat ?i) ?k)"
      using less.prems(1) i u by (simp_all add: ok_events ok_effect)
    have "ppce500_process_loop handle isr n tmp k =
        ppce500_process_loop handle isr (Suc (Suc (Suc n))) ?tmp (effect (of_nat ?i) ?k)"
      using False handle [OF ok(1)] i u
      by (simp add: ppce500_process_loop.simps [of _ _ n tmp] isr_raise_def kbind_def kmodify_def
          kgets_def Let_def)
    also have "\<dots> = Inr ((), (handled (events_in ?tmp) (effect (of_nat ?i) ?k))
      \<lparr>k_interrupt_event := ppce500_pending isr (Suc (Suc (Suc n))) (events_in ?tmp) ?p\<rparr>)"
      using less.hyps [OF smaller ok(2) rest] by (simp add: effect_keeps_events)
    finally show ?thesis
      by (simp add: split effect_events handled_events numeral_3_eq_3)
  qed
qed

text \<open>Without further events, one pass of the POSIX loop handles every pending event once.\<close>

lemma posix_process_pass_eq:
  assumes "ok k" and "n \<le> nevents" and "nevents \<le> 32"
    and "\<forall>i. bit (k_interrupt_event k) i \<longrightarrow> m \<le> i \<and> i < n"
  shows "posix_process_pass handle (\<lambda>_. 0) [m..<n] k =
    Inr ((), (handled (filter (bit (k_interrupt_event k)) [m..<n]) k)\<lparr>k_interrupt_event := 0\<rparr>)"
  using assms(1,4)
proof (induction "n - m" arbitrary: m k)
  case 0
  then have "n \<le> m" by simp
  then have "\<not> bit (k_interrupt_event k) i" for i using "0.prems"(2) by (meson le_less_trans not_le)
  then have "k_interrupt_event k = 0" by (simp add: bit_eq_iff)
  then have "k\<lparr>k_interrupt_event := 0\<rparr> = k" by simp
  with 0 show ?case by (simp add: kreturn_def)
next
  case (Suc d)
  have up: "[m..<n] = m # [Suc m..<n]" using Suc.hyps(2) by (simp add: upt_conv_Cons)
  have m: "m < nevents" "m < 32" using Suc.hyps(2) assms(2,3) by simp_all
  then have u: "unat (of_nat m :: u8) = m" by (simp add: u8_unat_of_nat)
  have same: "k\<lparr>k_interrupt_event := k_interrupt_event k\<rparr> = k" by simp
  consider (none) "k_interrupt_event k = 0" | (clear) "k_interrupt_event k \<noteq> 0" "\<not> bit (k_interrupt_event k) m"
    | (set) "bit (k_interrupt_event k) m" by blast
  then show ?case
  proof cases
    case none
    then have "k\<lparr>k_interrupt_event := 0\<rparr> = k" by simp
    with none show ?thesis
      by (simp add: up isr_raise_def kbind_def kmodify_def kgets_def kreturn_def)
  next
    case clear
    have "k_interrupt_event k AND event_bit m = 0"
      by (rule bit_word_eqI) (use clear in \<open>auto simp: bit_and_iff\<close>)
    moreover have "\<forall>i. bit (k_interrupt_event k) i \<longrightarrow> Suc m \<le> i \<and> i < n"
      using Suc.prems(2) clear(2) by (metis Suc_leI nat_less_le)
    ultimately show ?thesis
      using clear Suc.hyps(1) [of "Suc m" k] Suc.hyps(2) Suc.prems(1) same
      by (simp add: up isr_raise_def kbind_def kmodify_def kgets_def kreturn_def)
  next
    case set
    let ?p = "k_interrupt_event k AND NOT (event_bit m)"
    let ?k = "effect (of_nat m) (k\<lparr>k_interrupt_event := ?p\<rparr>)"
    have "bit (k_interrupt_event k AND event_bit m) m" using set m by (simp add: bit_and_iff)
    then have ne: "k_interrupt_event k AND event_bit m \<noteq> 0" "k_interrupt_event k \<noteq> 0"
      using set by (metis bit_0_eq bot_apply bot_bool_def)+
    have ok: "ok (k\<lparr>k_interrupt_event := ?p\<rparr>)" "ok ?k"
      using Suc.prems(1) m u by (simp_all add: ok_events ok_effect)
    have ev: "k_interrupt_event ?k = ?p" by (simp add: effect_keeps_events)
    have rest: "\<forall>i. bit (k_interrupt_event ?k) i \<longrightarrow> Suc m \<le> i \<and> i < n"
      using Suc.prems(2) m by (auto simp: ev bit_and_iff bit_not_iff Suc_le_eq nat_less_le)
    have filter: "filter (bit ?p) [Suc m..<n] = filter (bit (k_interrupt_event k)) [Suc m..<n]"
      using m by (intro filter_cong) (auto simp: bit_and_iff bit_not_iff dest: bit_imp_le_length)
    have "posix_process_pass handle (\<lambda>_. 0) [m..<n] k = posix_process_pass handle (\<lambda>_. 0) [Suc m..<n] ?k"
      using ne handle [OF ok(1)] m u same
      by (simp add: up isr_raise_def kbind_def kmodify_def kgets_def)
    also have "\<dots> = Inr ((), (handled (filter (bit ?p) [Suc m..<n]) ?k)\<lparr>k_interrupt_event := 0\<rparr>)"
      using Suc.hyps(1) [of "Suc m" ?k] Suc.hyps(2) ok(2) rest by (simp add: ev)
    finally show ?thesis
      using set by (simp add: up filter effect_events handled_events)
  qed
qed

lemma posix_process_eq:
  assumes "ok k" and "n \<le> nevents" and "nevents \<le> 32"
    and "\<forall>i. bit (k_interrupt_event k) i \<longrightarrow> i < n"
  shows "posix_interrupt_event_process n (Suc fuel) handle (\<lambda>_ _. 0) k =
    Inr ((), (handled (events_in (k_interrupt_event k)) k)\<lparr>k_interrupt_event := 0\<rparr>)"
proof -
  have n: "[0..<32] = [0..<n] @ [n..<32]"
    using assms(2,3) upt_add_eq_append [of 0 n "32 - n"] by simp
  have "filter (bit (k_interrupt_event k)) [n..<32] = []"
    using assms(4) by (auto simp: filter_empty_conv)
  then have ev: "events_in (k_interrupt_event k) = filter (bit (k_interrupt_event k)) [0..<n]"
    unfolding events_in_def n by simp
  show ?thesis
  proof (cases "k_interrupt_event k = 0")
    case True
    then have "k\<lparr>k_interrupt_event := 0\<rparr> = k" by simp
    then show ?thesis using True by (simp add: kbind_def kgets_def kreturn_def)
  next
    case False
    then show ?thesis
      using posix_process_pass_eq [OF assms(1-3), of 0] assms(4)
      by (cases fuel) (simp_all add: kbind_def kgets_def kreturn_def ev)
  qed
qed

end

section \<open>The scheduling loop picks a runnable task\<close>

text \<open>
  \<open>pre\<close> holds before events are processed, \<open>mid\<close> before the ticks are, and \<open>ok\<close> after that; a wait leads
  from the last to the first.
\<close>

context idle_scheduler
begin

lemma on_sched_get_next:
  assumes "inv (k_sched k)"
  shows "\<exists>u k'. on_sched get_next k = Inr (u, k') \<and> inv (k_sched k') \<and>
    ntasks (k_sched k') = ntasks (k_sched k) \<and> runnable (k_sched k') = runnable (k_sched k) \<and>
    (\<exists>s. k' = k\<lparr>k_sched := s\<rparr>) \<and> get_next (k_sched k) = Inr (u, k_sched k') \<and>
    (if u = TASK_ID_NONE then \<forall>t. unat t < ntasks (k_sched k) \<longrightarrow> \<not> runnable (k_sched k) t
     else unat u < ntasks (k_sched k) \<and> runnable (k_sched k) u)"
proof -
  obtain u s where s: "get_next (k_sched k) = Inr (u, s)"
    using next_total [OF assms] by blast
  have "on_sched get_next k = Inr (u, k\<lparr>k_sched := s\<rparr>)" using s by (simp add: on_sched_def)
  moreover have "if u = TASK_ID_NONE then \<forall>t. unat t < ntasks (k_sched k) \<longrightarrow> \<not> runnable (k_sched k) t
     else unat u < ntasks (k_sched k) \<and> runnable (k_sched k) u"
    using next_none_iff [OF assms s] next_is_runnable [OF assms s] by simp
  ultimately show ?thesis
    using s next_inv [OF assms s] next_ntasks [OF assms s] next_frame [OF assms s] by fastforce
qed

lemma event_loop:
  fixes pre mid ok :: "('a, 'z) irq_kernel_scheme \<Rightarrow> bool"
  assumes process: "\<And>k. pre k \<Longrightarrow> \<exists>k'. process k = Inr ((), k') \<and> mid k'"
    and tick: "\<And>k. mid k \<Longrightarrow> \<exists>k'. tick_process k = Inr ((), k') \<and> ok k'"
    and waits: "\<And>w k. w \<in> set waits \<Longrightarrow> ok k \<Longrightarrow> \<exists>k'. w k = Inr ((), k') \<and> pre k'"
    and ok_inv: "\<And>k. ok k \<Longrightarrow> kernel_inv c inv ntasks k"
    and ok_idle: "\<And>k b. ok k \<Longrightarrow> ok (k\<lparr>k_system_is_idle := b\<rparr>)"
    and ok_sched: "\<And>k s. ok k \<Longrightarrow> inv s \<Longrightarrow> ntasks s = ntasks (k_sched k) \<Longrightarrow> runnable s = runnable (k_sched k) \<Longrightarrow>
      ok (k\<lparr>k_sched := s\<rparr>)"
  shows "pre k \<Longrightarrow> \<exists>r k'. interrupt_event_get_next c process tick_process (on_sched get_next) waits k = Inr (r, k') \<and>
    ok k' \<and> (case r of
      Some u \<Rightarrow> unat u < tasks_length c \<and> runnable (k_sched k') u \<and> \<not> k_system_is_idle k' \<and>
        (\<exists>s. inv s \<and> get_next s = Inr (u, k_sched k'))
    | None \<Rightarrow> (\<forall>t. unat t < tasks_length c \<longrightarrow> \<not> runnable (k_sched k') t) \<and> k_system_is_idle k')"
  using waits
proof (induction waits arbitrary: k)
  case Nil
  obtain k1 where k1: "process k = Inr ((), k1)" "mid k1" using process [OF Nil.prems(1)] by blast
  obtain k2 where k2: "tick_process k1 = Inr ((), k2)" "ok k2" using tick [OF k1(2)] by blast
  have inv2: "inv (k_sched k2)" "ntasks (k_sched k2) = tasks_length c"
    using ok_inv [OF k2(2)] by (simp_all add: kernel_inv_def)
  obtain u k3 where k3: "on_sched get_next k2 = Inr (u, k3)" "inv (k_sched k3)"
    "ntasks (k_sched k3) = ntasks (k_sched k2)" "runnable (k_sched k3) = runnable (k_sched k2)"
    "\<exists>s. k3 = k2\<lparr>k_sched := s\<rparr>" "get_next (k_sched k2) = Inr (u, k_sched k3)"
    "if u = TASK_ID_NONE then \<forall>t. unat t < ntasks (k_sched k2) \<longrightarrow> \<not> runnable (k_sched k2) t
     else unat u < ntasks (k_sched k2) \<and> runnable (k_sched k2) u"
    using on_sched_get_next [OF inv2(1)] by blast
  have ok3: "ok k3" using k3 ok_sched [OF k2(2), of "k_sched k3"] by auto
  show ?case
    using k1(1) k2(1) k3 ok_idle [OF ok3] inv2
    by (cases "u = TASK_ID_NONE") (auto simp: kbind_def set_idle_def kmodify_def kreturn_def)
next
  case (Cons w ws)
  obtain k1 where k1: "process k = Inr ((), k1)" "mid k1" using process [OF Cons.prems(1)] by blast
  obtain k2 where k2: "tick_process k1 = Inr ((), k2)" "ok k2" using tick [OF k1(2)] by blast
  have inv2: "inv (k_sched k2)" "ntasks (k_sched k2) = tasks_length c"
    using ok_inv [OF k2(2)] by (simp_all add: kernel_inv_def)
  obtain u k3 where k3: "on_sched get_next k2 = Inr (u, k3)" "inv (k_sched k3)"
    "ntasks (k_sched k3) = ntasks (k_sched k2)" "runnable (k_sched k3) = runnable (k_sched k2)"
    "\<exists>s. k3 = k2\<lparr>k_sched := s\<rparr>" "get_next (k_sched k2) = Inr (u, k_sched k3)"
    "if u = TASK_ID_NONE then \<forall>t. unat t < ntasks (k_sched k2) \<longrightarrow> \<not> runnable (k_sched k2) t
     else unat u < ntasks (k_sched k2) \<and> runnable (k_sched k2) u"
    using on_sched_get_next [OF inv2(1)] by blast
  have ok3: "ok k3" using k3 ok_sched [OF k2(2), of "k_sched k3"] by auto
  show ?case
  proof (cases "u = TASK_ID_NONE")
    case False
    then show ?thesis
      using k1(1) k2(1) k3 ok_idle [OF ok3] inv2
      by (auto simp: kbind_def set_idle_def kmodify_def kreturn_def)
  next
    case True
    obtain k4 where k4: "w (k3\<lparr>k_system_is_idle := True\<rparr>) = Inr ((), k4)" "pre k4"
      using Cons.prems(2) [of w] ok_idle [OF ok3, of True] by auto
    have "interrupt_event_get_next c process tick_process (on_sched get_next) (w # ws) k =
        interrupt_event_get_next c process tick_process (on_sched get_next) ws k4"
      using k1(1) k2(1) k3(1) True k4(1) by (simp add: kbind_def set_idle_def kmodify_def)
    moreover have "\<And>w' k. w' \<in> set ws \<Longrightarrow> ok k \<Longrightarrow> \<exists>k'. w' k = Inr ((), k') \<and> pre k'"
      using Cons.prems(2) by simp
    ultimately show ?thesis using Cons.IH [OF k4(2)] by simp
  qed
qed

end

section \<open>Properties\<close>

lemma ppce500_process_loop_lost:
  "\<forall>i :: nat. i mod 3 \<noteq> 1 \<longrightarrow> isr (n + i) = isr' (n + i) \<Longrightarrow>
     ppce500_process_loop handle isr n tmp = ppce500_process_loop handle isr' n tmp"
proof (induction handle isr n tmp arbitrary: isr' rule: ppce500_process_loop.induct)
  case (1 handle isr n tmp)
  show ?case
  proof (cases "tmp = 0")
    case False
    let ?i = "builtin_ffs tmp - 1"
    have later: "\<forall>i :: nat. i mod 3 \<noteq> 1 \<longrightarrow> isr (Suc (Suc (Suc n)) + i) = isr' (Suc (Suc (Suc n)) + i)"
    proof (intro allI impI)
      fix i :: nat assume "i mod 3 \<noteq> 1"
      then have "(i + 3) mod 3 \<noteq> 1" by simp
      then have "isr (n + (i + 3)) = isr' (n + (i + 3))" using "1.prems" by blast
      then show "isr (Suc (Suc (Suc n)) + i) = isr' (Suc (Suc (Suc n)) + i)" by (simp add: eval_nat_numeral)
    qed
    have ends: "isr n = isr' n" "isr (Suc (Suc n)) = isr' (Suc (Suc n))"
      using spec [OF "1.prems", of 0] spec [OF "1.prems", of 2] by simp_all
    have rest: "ppce500_process_loop handle isr (Suc (Suc (Suc n))) (tmp AND NOT (event_bit ?i)) =
        ppce500_process_loop handle isr' (Suc (Suc (Suc n))) (tmp AND NOT (event_bit ?i))"
      using "1.IH" [OF _ refl] later False by blast
    show ?thesis
    proof (rule ext)
      fix k
      show "ppce500_process_loop handle isr n tmp k = ppce500_process_loop handle isr' n tmp k"
        unfolding ppce500_process_loop.simps [of handle isr n] ppce500_process_loop.simps [of handle isr' n]
        by (simp add: ends rest [simplified] kbind_def isr_raise_def kmodify_def kgets_def Let_def)
    qed
  qed (simp add: ppce500_process_loop.simps [of _ isr] ppce500_process_loop.simps [of _ isr'])
qed

text \<open>
  C32: On the PowerPC e500, an event that is raised between the read and the write of the statement that
  clears the event being processed is lost: the run of the processing loop is the same, in its result
  and in the state it leaves, as if the event had never been raised. The points of a run with a number
  of the form \<open>3 * i + 1\<close> lie there.
\<close>

theorem ppce500_event_lost:
  assumes "\<And>n. n mod 3 \<noteq> 1 \<Longrightarrow> isr n = isr' n"
  shows "ppce500_interrupt_event_process c has_events handle isr = ppce500_interrupt_event_process c has_events handle isr'"
proof -
  have "ppce500_process_loop handle isr 0 tmp = ppce500_process_loop handle isr' 0 tmp" for tmp
    by (rule ppce500_process_loop_lost) (simp add: assms)
  then have "ppce500_process_loop handle isr 0 = ppce500_process_loop handle isr' 0" by (rule ext)
  then show ?thesis by (simp add: ppce500_interrupt_event_process_def)
qed

theorem ppce500_event_lost_witness:
  "ppce500_interrupt_event_process (config_example 3) True (\<lambda>_. kreturn ()) (\<lambda>n. if n = 1 then event_bit 5 else 0) =
   ppce500_interrupt_event_process (config_example 3) True (\<lambda>_. kreturn ()) (\<lambda>_. 0)"
  by (rule ppce500_event_lost) auto

end
