(* ===== verification/Signals.thy ===== *)
theory Signals
  imports Interrupt_Events
begin

text \<open>
  The signal component (\<open>components/signal\<close>). Each task has a set of pending signals, a bit set;
  sending adds signals and makes the receiver runnable, waiting blocks until one of the requested
  signals is pending, receiving takes the requested signals out of the set. The variant supplies
  \<open>unblock\<close> and the part of \<open>block_on\<close> before the yield; in the variants without priority
  inheritance that part ignores the blocker.
\<close>

section \<open>Model\<close>

definition SIGNAL_SET_EMPTY :: u8 where
  "SIGNAL_SET_EMPTY = 0"

definition SIGNAL_SET_ALL :: u8 where
  "SIGNAL_SET_ALL = 255"

record signal_task =
  sig_signals :: u8

record 's signal_kernel = "'s irq_kernel" +
  k_signal_tasks :: "signal_task list"

definition signal_peek_mask :: "u8 \<Rightarrow> u8 \<Rightarrow> bool" where
  "signal_peek_mask pending_signals requested_signals \<longleftrightarrow>
     (pending_signals AND requested_signals) \<noteq> SIGNAL_SET_EMPTY"

definition PENDING_SIGNALS :: "u8 \<Rightarrow> (('s, 'z) signal_kernel_scheme, u8) kop" where
  "PENDING_SIGNALS task_id =
     kbind (array_read k_signal_tasks task_id) (\<lambda>t. kreturn (sig_signals t))"

definition set_PENDING_SIGNALS :: "u8 \<Rightarrow> (u8 \<Rightarrow> u8) \<Rightarrow> (('s, 'z) signal_kernel_scheme, unit) kop" where
  "set_PENDING_SIGNALS task_id f =
     array_modify k_signal_tasks k_signal_tasks_update task_id
       (\<lambda>t. t\<lparr>sig_signals := f (sig_signals t)\<rparr>)"

definition signal_pending :: "u8 \<Rightarrow> u8 \<Rightarrow> (('s, 'z) signal_kernel_scheme, bool) kop" where
  "signal_pending task_id sigmask =
     kbind (PENDING_SIGNALS task_id) (\<lambda>pending. kreturn (pending AND sigmask = sigmask))"

text \<open>The pointer to a pending set is the identifier of the task it belongs to.\<close>

definition signal_recv :: "config \<Rightarrow> u8 \<Rightarrow> u8 \<Rightarrow> (('s, 'z) signal_kernel_scheme, u8) kop" where
  "signal_recv c pending_signals requested_signals =
     kbind (PENDING_SIGNALS pending_signals) (\<lambda>pending.
     let received_signals = pending AND requested_signals in
     kbind (precondition_preemption_disabled c) (\<lambda>_.
     kbind (set_PENDING_SIGNALS pending_signals (\<lambda>p. p AND NOT received_signals)) (\<lambda>_.
     kbind (postcondition_preemption_disabled c) (\<lambda>_.
     kreturn received_signals))))"

definition signal_send_set ::
  "config \<Rightarrow> (u8 \<Rightarrow> (('s, 'z) signal_kernel_scheme, unit) kop) \<Rightarrow> u8 \<Rightarrow> u8 \<Rightarrow>
     (('s, 'z) signal_kernel_scheme, unit) kop"
where
  "signal_send_set c unblock task_id signals =
     kseq [precondition_preemption_disabled c,
           set_PENDING_SIGNALS task_id (\<lambda>p. p OR signals),
           unblock task_id,
           postcondition_preemption_disabled c]"

text \<open>
  The program points of \<open>signal_wait_set\<close>: in the \<open>yield\<close> that is taken when a requested signal is
  already pending, or in the \<open>block_on\<close> of the waiting loop. Both keep the task whose pending set
  the routine's pointer refers to and the requested signals.
\<close>

datatype signal_pc = Sig_Yielded u8 u8 | Sig_Blocked u8 u8 u8

definition signal_wait_finish ::
  "config \<Rightarrow> u8 \<Rightarrow> u8 \<Rightarrow> (('s, 'z) signal_kernel_scheme, (signal_pc, u8) progress) kop"
where
  "signal_wait_finish c pending_signals requested_signals =
     kbind (signal_recv c pending_signals requested_signals) (\<lambda>received_signals.
     co_finish (postcondition_preemption_disabled c) received_signals)"

text \<open>Waiting always gives up the processor before it returns, so it starts by suspending.\<close>

definition signal_wait_set_blocked_on ::
  "config \<Rightarrow> (u8 \<Rightarrow> (('s, 'z) signal_kernel_scheme, unit) kop) \<Rightarrow> u8 \<Rightarrow> u8 \<Rightarrow>
     (('s, 'z) signal_kernel_scheme, signal_pc) kop"
where
  "signal_wait_set_blocked_on c block_on requested_signals blocker =
     kbind (precondition_preemption_disabled c) (\<lambda>_.
     kbind (get_current_task c) (\<lambda>current.
     kbind (PENDING_SIGNALS current) (\<lambda>pending.
     if signal_peek_mask pending requested_signals
     then kreturn (Sig_Yielded current requested_signals)
     else kbind (block_on blocker) (\<lambda>_.
       kreturn (Sig_Blocked current requested_signals blocker)))))"

definition signal_wait_resume ::
  "config \<Rightarrow> (u8 \<Rightarrow> (('s, 'z) signal_kernel_scheme, unit) kop) \<Rightarrow> signal_pc \<Rightarrow>
     (('s, 'z) signal_kernel_scheme, (signal_pc, u8) progress) kop"
where
  "signal_wait_resume c block_on pc =
     (case pc of
        Sig_Yielded current requested_signals \<Rightarrow> signal_wait_finish c current requested_signals
      | Sig_Blocked current requested_signals blocker \<Rightarrow>
          kbind (postcondition_preemption_disabled c) (\<lambda>_.
          kbind (PENDING_SIGNALS current) (\<lambda>pending.
          if \<not> signal_peek_mask pending requested_signals
          then kbind (block_on blocker) (\<lambda>_.
            kreturn (Suspended (Sig_Blocked current requested_signals blocker)))
          else signal_wait_finish c current requested_signals)))"

subsection \<open>Public interface\<close>

definition rtos_signal_wait_set ::
  "config \<Rightarrow> (u8 \<Rightarrow> (('s, 'z) signal_kernel_scheme, unit) kop) \<Rightarrow> u8 \<Rightarrow>
     (('s, 'z) signal_kernel_scheme, signal_pc) kop"
where
  "rtos_signal_wait_set c block_on requested_signals =
     kbind (preempt_disable c) (\<lambda>_.
     signal_wait_set_blocked_on c block_on requested_signals TASK_ID_NONE)"

definition rtos_signal_wait_set_resume ::
  "config \<Rightarrow> (u8 \<Rightarrow> (('s, 'z) signal_kernel_scheme, unit) kop) \<Rightarrow> signal_pc \<Rightarrow>
     (('s, 'z) signal_kernel_scheme, (signal_pc, u8) progress) kop"
where
  "rtos_signal_wait_set_resume c block_on pc =
     co_bind (signal_wait_resume c block_on pc) id (\<lambda>received. co_finish (preempt_enable c) received)"

definition rtos_signal_poll_set :: "config \<Rightarrow> u8 \<Rightarrow> (('s, 'z) signal_kernel_scheme, u8) kop" where
  "rtos_signal_poll_set c requested_signals =
     kbind (get_current_task c) (\<lambda>current.
     kbind (preempt_disable c) (\<lambda>_.
     kbind (signal_recv c current requested_signals) (\<lambda>received_signals.
     kbind (preempt_enable c) (\<lambda>_.
     kreturn received_signals))))"

definition rtos_signal_peek_set :: "config \<Rightarrow> u8 \<Rightarrow> (('s, 'z) signal_kernel_scheme, u8) kop" where
  "rtos_signal_peek_set c requested_signals =
     kbind (get_current_task c) (\<lambda>current.
     kbind (PENDING_SIGNALS current) (\<lambda>pending.
     kreturn (pending AND requested_signals)))"

definition rtos_signal_send_set ::
  "config \<Rightarrow> (u8 \<Rightarrow> (('s, 'z) signal_kernel_scheme, unit) kop) \<Rightarrow> u8 \<Rightarrow> u8 \<Rightarrow>
     (('s, 'z) signal_kernel_scheme, unit) kop"
where
  "rtos_signal_send_set c unblock task_id signals =
     kseq [assert_task_valid c task_id,
           preempt_disable c,
           signal_send_set c unblock task_id signals,
           preempt_enable c]"

definition rtos_signal_poll :: "config \<Rightarrow> u8 \<Rightarrow> (('s, 'z) signal_kernel_scheme, bool) kop" where
  "rtos_signal_poll c requested_signal =
     kbind (rtos_signal_poll_set c requested_signal) (\<lambda>received.
     kreturn (received \<noteq> SIGNAL_SET_EMPTY))"

definition rtos_signal_peek :: "config \<Rightarrow> u8 \<Rightarrow> (('s, 'z) signal_kernel_scheme, bool) kop" where
  "rtos_signal_peek c requested_signal =
     kbind (rtos_signal_peek_set c requested_signal) (\<lambda>received.
     kreturn (received \<noteq> SIGNAL_SET_EMPTY))"

section \<open>What the operations do\<close>

definition pending_of :: "('s, 'z) signal_kernel_scheme \<Rightarrow> u8 \<Rightarrow> u8" where
  "pending_of k t = sig_signals (k_signal_tasks k ! unat t)"

definition signals_ok :: "config \<Rightarrow> ('s, 'z) signal_kernel_scheme \<Rightarrow> bool" where
  "signals_ok c k \<longleftrightarrow> length (k_signal_tasks k) = tasks_length c"

definition set_pending :: "u8 \<Rightarrow> u8 \<Rightarrow> ('s, 'z) signal_kernel_scheme \<Rightarrow> ('s, 'z) signal_kernel_scheme" where
  "set_pending t p k =
     k\<lparr>k_signal_tasks := (k_signal_tasks k)[unat t := (k_signal_tasks k ! unat t)\<lparr>sig_signals := p\<rparr>]\<rparr>"

lemma set_pending_simps [simp]:
  "k_current_task (set_pending t p k) = k_current_task k"
  "k_preempt_disabled (set_pending t p k) = k_preempt_disabled k"
  "k_preempt_pending (set_pending t p k) = k_preempt_pending k"
  "k_sched (set_pending t p k) = k_sched k"
  "length (k_signal_tasks (set_pending t p k)) = length (k_signal_tasks k)"
  "preempt_ok c (set_pending t p k) = preempt_ok c k"
  "current_ok c (set_pending t p k) = current_ok c k"
  "signals_ok c (set_pending t p k) = signals_ok c k"
  by (simp_all add: set_pending_def preempt_ok_def current_ok_def signals_ok_def)

lemma irq_frame [simp]:
  "k_interrupt_event (enter c k) = k_interrupt_event k"
  "k_interrupt_event (leave c k) = k_interrupt_event k"
  "k_interrupt_event (pend c k) = k_interrupt_event k"
  "k_interrupt_event (set_pending t p k') = k_interrupt_event k'"
  "k_system_is_idle (enter c k) = k_system_is_idle k"
  "k_system_is_idle (leave c k) = k_system_is_idle k"
  "k_system_is_idle (pend c k) = k_system_is_idle k"
  "k_system_is_idle (set_pending t p k') = k_system_is_idle k'"
  by (simp_all add: enter_def leave_def pend_def set_pending_def)

lemma irq_update_frame [simp]:
  "preempt_ok c (k_interrupt_event_update f k) = preempt_ok c k"
  "preempt_ok c (k_system_is_idle_update g k) = preempt_ok c k"
  "kernel_inv c sinv ntasks (k_interrupt_event_update f k) = kernel_inv c sinv ntasks k"
  "kernel_inv c sinv ntasks (k_system_is_idle_update g k) = kernel_inv c sinv ntasks k"
  "signals_ok c (k_interrupt_event_update f k') = signals_ok c k'"
  "signals_ok c (k_system_is_idle_update g k') = signals_ok c k'"
  "pending_of (k_interrupt_event_update f k') = pending_of k'"
  "pending_of (k_system_is_idle_update g k') = pending_of k'"
  by (simp_all add: preempt_ok_def kernel_inv_def current_ok_def signals_ok_def pending_of_def fun_eq_iff)

lemma signal_enter_leave [simp]:
  "k_signal_tasks (enter c k) = k_signal_tasks k"
  "k_signal_tasks (leave c k) = k_signal_tasks k"
  "k_signal_tasks (pend c k) = k_signal_tasks k"
  "k_signal_tasks (k_sched_update f k) = k_signal_tasks k"
  "pending_of (enter c k) t = pending_of k t"
  "pending_of (leave c k) t = pending_of k t"
  "pending_of (pend c k) t = pending_of k t"
  "pending_of (k_sched_update f k) t = pending_of k t"
  "signals_ok c (enter c k) = signals_ok c k"
  "signals_ok c (leave c k) = signals_ok c k"
  "signals_ok c (pend c k) = signals_ok c k"
  "signals_ok c (k_sched_update f k) = signals_ok c k"
  by (simp_all add: enter_def leave_def pend_def pending_of_def signals_ok_def)

lemma set_pending_commute [simp]:
  "leave c (set_pending t p k) = set_pending t p (leave c k)"
  "enter c (set_pending t p k) = set_pending t p (enter c k)"
  by (simp_all add: leave_def enter_def set_pending_def)

lemma pending_of_set:
  "unat t < length (k_signal_tasks k) \<Longrightarrow>
     pending_of (set_pending t p k) u = (if u = t then p else pending_of k u)"
  by (simp add: set_pending_def pending_of_def word_nth_update)

lemma PENDING_SIGNALS_run [simp]:
  "PENDING_SIGNALS t k =
     (if unat t < length (k_signal_tasks k) then Inr (pending_of k t, k) else Inl Out_Of_Bounds)"
  by (simp add: PENDING_SIGNALS_def pending_of_def kop_defs)

lemma set_PENDING_SIGNALS_run [simp]:
  "set_PENDING_SIGNALS t f k =
     (if unat t < length (k_signal_tasks k) then Inr ((), set_pending t (f (pending_of k t)) k)
      else Inl Out_Of_Bounds)"
  by (simp add: set_PENDING_SIGNALS_def pending_of_def set_pending_def kop_defs)

lemma and_not_and: "p AND (NOT p OR NOT q) = p AND NOT q" for p q :: "'a::len word"
  by (simp add: bit_eq_iff bit_simps) blast

text \<open>Receiving returns the requested signals that are pending and removes exactly these.\<close>

lemma signal_recv_eq:
  assumes "unat t < length (k_signal_tasks k)" and "preempt_ok c k"
  shows "signal_recv c t requested k =
    Inr (pending_of k t AND requested, set_pending t (pending_of k t AND NOT requested) k)"
  using assms by (simp add: signal_recv_def kbind_def kreturn_def Let_def and_not_and)

lemma signal_pending_eq:
  "unat t < length (k_signal_tasks k) \<Longrightarrow>
     signal_pending t sigmask k = Inr (pending_of k t AND sigmask = sigmask, k)"
  by (simp add: signal_pending_def kbind_def kreturn_def)

lemma rtos_signal_peek_set_eq:
  "current_ok c k \<Longrightarrow> signals_ok c k \<Longrightarrow>
     rtos_signal_peek_set c requested k = Inr (pending_of k (k_current_task k) AND requested, k)"
  by (simp add: rtos_signal_peek_set_def kbind_def kreturn_def current_ok_def signals_ok_def)

lemma rtos_signal_poll_set_eq:
  assumes "current_ok c k" and "signals_ok c k"
  shows "rtos_signal_poll_set c requested k =
    Inr (pending_of k (k_current_task k) AND requested,
         set_pending (k_current_task k) (pending_of k (k_current_task k) AND NOT requested) (leave c k))"
  using assms
  by (simp add: rtos_signal_poll_set_def kbind_def kreturn_def signal_recv_eq current_ok_def signals_ok_def)

section \<open>Sending and waiting\<close>

lemma kernel_inv_set_pending [simp]:
  "kernel_inv c sinv ntasks (set_pending t p k) = kernel_inv c sinv ntasks k"
  by (simp add: kernel_inv_def)

lemma signal_wait_finish_eq:
  assumes "unat t < length (k_signal_tasks k)" and "preempt_ok c k"
  shows "signal_wait_finish c t requested k =
    Inr (Finished (pending_of k t AND requested), set_pending t (pending_of k t AND NOT requested) k)"
  using assms
  by (simp add: signal_wait_finish_def kbind_def kreturn_def co_finish_def signal_recv_eq)

text \<open>When a requested signal is pending, waiting only yields: the task stays runnable.\<close>

lemma signal_wait_pending:
  assumes "preempt_ok c k" and "current_ok c k" and "signals_ok c k"
    and "pending_of k (k_current_task k) AND requested \<noteq> 0"
  shows "signal_wait_set_blocked_on c block_on requested blocker k =
    Inr (Sig_Yielded (k_current_task k) requested, k)"
  using assms
  by (simp add: signal_wait_set_blocked_on_def kbind_def kreturn_def signal_peek_mask_def
      SIGNAL_SET_EMPTY_def current_ok_def signals_ok_def)

lemma signal_wait_blocks:
  assumes "preempt_ok c k" and "current_ok c k" and "signals_ok c k"
    and "pending_of k (k_current_task k) AND requested = 0"
    and "block_on blocker k = Inr ((), k')"
  shows "signal_wait_set_blocked_on c block_on requested blocker k =
    Inr (Sig_Blocked (k_current_task k) requested blocker, k')"
  using assms
  by (simp add: signal_wait_set_blocked_on_def kbind_def kreturn_def signal_peek_mask_def
      SIGNAL_SET_EMPTY_def current_ok_def signals_ok_def)

text \<open>A task that is resumed leaves the wait when a requested signal is pending, and only then.\<close>

lemma signal_wait_resume_finishes:
  assumes "preempt_ok c k" and "unat t < length (k_signal_tasks k)"
    and "pending_of k t AND requested \<noteq> 0"
  shows "signal_wait_resume c block_on (Sig_Blocked t requested blocker) k =
    Inr (Finished (pending_of k t AND requested), set_pending t (pending_of k t AND NOT requested) k)"
  using assms
  by (simp add: signal_wait_resume_def kbind_def kreturn_def signal_peek_mask_def
      SIGNAL_SET_EMPTY_def signal_wait_finish_eq)

lemma signal_wait_resume_yielded:
  assumes "preempt_ok c k" and "unat t < length (k_signal_tasks k)"
  shows "signal_wait_resume c block_on (Sig_Yielded t requested) k =
    Inr (Finished (pending_of k t AND requested), set_pending t (pending_of k t AND NOT requested) k)"
  using assms by (simp add: signal_wait_resume_def signal_wait_finish_eq)

lemma signal_wait_resume_blocks_again:
  assumes "preempt_ok c k" and "unat t < length (k_signal_tasks k)"
    and "pending_of k t AND requested = 0" and "block_on blocker k = Inr ((), k')"
  shows "signal_wait_resume c block_on (Sig_Blocked t requested blocker) k =
    Inr (Suspended (Sig_Blocked t requested blocker), k')"
  using assms
  by (simp add: signal_wait_resume_def kbind_def kreturn_def signal_peek_mask_def
      SIGNAL_SET_EMPTY_def)

text \<open>The state after signals were sent to a task.\<close>

definition signal_sent ::
  "config \<Rightarrow> (u8 \<Rightarrow> 's \<Rightarrow> 's) \<Rightarrow> u8 \<Rightarrow> u8 \<Rightarrow> ('s, 'z) signal_kernel_scheme \<Rightarrow>
     ('s, 'z) signal_kernel_scheme"
where
  "signal_sent c ready t signals k =
     pend c ((set_pending t (pending_of k t OR signals) k)\<lparr>k_sched := ready t (k_sched k)\<rparr>)"

lemma signal_sent_simps [simp]:
  "k_current_task (signal_sent c ready t signals k) = k_current_task k"
  "k_preempt_disabled (signal_sent c ready t signals k) = k_preempt_disabled k"
  "k_sched (signal_sent c ready t signals k) = ready t (k_sched k)"
  "k_interrupt_event (signal_sent c ready t signals k) = k_interrupt_event k"
  "k_system_is_idle (signal_sent c ready t signals k) = k_system_is_idle k"
  "preempt_ok c (signal_sent c ready t signals k) = preempt_ok c k"
  "current_ok c (signal_sent c ready t signals k) = current_ok c k"
  "signals_ok c (signal_sent c ready t signals k) = signals_ok c k"
  by (simp_all add: signal_sent_def preempt_ok_def current_ok_def)

lemma pending_of_sent:
  "unat t < length (k_signal_tasks k) \<Longrightarrow> pending_of (signal_sent c ready t signals k) u =
     (if u = t then pending_of k u OR signals else pending_of k u)"
  by (simp add: signal_sent_def pending_of_set)

text \<open>The components above the signals rely on this contract; variants provide it by interpreting it.\<close>

locale signal_control = task_control set_runnable set_blocked get_next ready block inv ntasks runnable
    c unblock block_task
  for set_runnable set_blocked get_next ready block
    and inv :: "'s \<Rightarrow> bool" and ntasks runnable and c :: config
    and unblock :: "u8 \<Rightarrow> (('s, 'z) signal_kernel_scheme, unit) kop"
    and block_task
begin

lemma signal_send_set_eq:
  assumes "kernel_inv c inv ntasks k" and "preempt_ok c k" and "signals_ok c k"
    and "unat t < tasks_length c"
  shows "signal_send_set c unblock t signals k =
    Inr ((), pend c ((set_pending t (pending_of k t OR signals) k)\<lparr>k_sched := ready t (k_sched k)\<rparr>))"
proof -
  let ?k = "set_pending t (pending_of k t OR signals) k"
  have "unblock t ?k = Inr ((), pend c (?k\<lparr>k_sched := ready t (k_sched ?k)\<rparr>))"
    using assms by (intro unblock) simp_all
  moreover have "preempt_ok c (pend c (?k\<lparr>k_sched := ready t (k_sched ?k)\<rparr>))"
    using assms(2) by (simp add: preempt_ok_def)
  ultimately show ?thesis
    using assms by (simp add: signal_send_set_def kbind_def kreturn_def signals_ok_def)
qed

lemma signal_send_set_inv:
  assumes "kernel_inv c inv ntasks k" and "preempt_ok c k" and "signals_ok c k"
    and "unat t < tasks_length c"
  shows "\<exists>k'. signal_send_set c unblock t signals k = Inr ((), k') \<and> kernel_inv c inv ntasks k' \<and>
    preempt_ok c k' \<and> signals_ok c k' \<and> runnable (k_sched k') t \<and>
    pending_of k' t = pending_of k t OR signals \<and>
    (\<forall>u. u \<noteq> t \<longrightarrow> pending_of k' u = pending_of k u) \<and>
    (\<forall>u. unat u < tasks_length c \<longrightarrow> u \<noteq> t \<longrightarrow> runnable (k_sched k') u = runnable (k_sched k) u)"
proof -
  have s: "inv (k_sched k)" "unat t < ntasks (k_sched k)" "ntasks (k_sched k) = tasks_length c"
    using assms by (simp_all add: kernel_inv_def)
  have t: "unat t < length (k_signal_tasks k)" using assms by (simp add: signals_ok_def)
  show ?thesis
    unfolding signal_send_set_eq [OF assms]
    using assms s inv_ready [OF s(1,2)] ntasks_ready [OF s(1,2)] runnable_ready [OF s(1,2)]
    by (auto simp: pending_of_set [OF t] kernel_inv_def current_ok_def preempt_ok_def)
qed

lemma rtos_signal_send_set_cases:
  assumes "kernel_inv c inv ntasks k" and "signals_ok c k"
  shows "rtos_signal_send_set c unblock t signals k =
    (if unat t < tasks_length c
     then Inr ((), leave c (pend c
            ((set_pending t (pending_of k t OR signals) (enter c k))\<lparr>k_sched := ready t (k_sched k)\<rparr>)))
     else if api_asserts c then Inl (Fatal ERROR_ID_INVALID_ID)
     else Inl Out_Of_Bounds)"
proof (cases "unat t < tasks_length c")
  case True
  have "preempt_ok c (pend c (set_pending t p (enter c k)\<lparr>k_sched := s\<rparr>))" for p s
    by (simp add: preempt_ok_def enter_def)
  then show ?thesis
    using True assms signal_send_set_eq [of "enter c k" t signals]
    by (simp add: rtos_signal_send_set_def kbind_def kreturn_def)
next
  case False
  then show ?thesis
    using assms
    by (simp add: rtos_signal_send_set_def signal_send_set_def kbind_def kreturn_def signals_ok_def)
qed

text \<open>No wake-up is lost: after a requested signal was sent, the waiting task leaves its wait.\<close>

lemma send_then_resume:
  assumes "kernel_inv c inv ntasks k" and "preempt_ok c k" and "signals_ok c k"
    and "unat t < tasks_length c" and "signals AND requested \<noteq> 0"
  shows "\<exists>k' k''. signal_send_set c unblock t signals k = Inr ((), k') \<and> runnable (k_sched k') t \<and>
    signal_wait_resume c block_on (Sig_Blocked t requested blocker) k' =
      Inr (Finished ((pending_of k t OR signals) AND requested), k'') \<and>
    (pending_of k t OR signals) AND requested \<noteq> 0 \<and>
    pending_of k'' t = (pending_of k t OR signals) AND NOT requested"
proof -
  obtain k' where k': "signal_send_set c unblock t signals k = Inr ((), k')" "preempt_ok c k'"
    "signals_ok c k'" "runnable (k_sched k') t" "pending_of k' t = pending_of k t OR signals"
    using signal_send_set_inv [OF assms(1-4), of signals] by blast
  have t: "unat t < length (k_signal_tasks k')" using k'(3) assms(4) by (simp add: signals_ok_def)
  have ne: "(pending_of k t OR signals) AND requested \<noteq> 0"
  proof
    assume "(pending_of k t OR signals) AND requested = 0"
    then have "signals AND requested = 0"
      by (simp add: bit_eq_iff bit_simps) blast
    with assms(5) show False by simp
  qed
  show ?thesis
    using k' ne signal_wait_resume_finishes [OF k'(2) t, of requested block_on blocker]
    by (simp add: pending_of_set [OF t])
qed

lemma rtos_signal_wait_blocks:
  assumes "kernel_inv c inv ntasks k" and "signals_ok c k"
    and "pending_of k (k_current_task k) AND requested = 0"
    and "block_on TASK_ID_NONE = block_task"
  shows "rtos_signal_wait_set c block_on requested k =
    Inr (Sig_Blocked (k_current_task k) requested TASK_ID_NONE,
         (enter c k)\<lparr>k_sched := block (k_current_task k) (k_sched k)\<rparr>)"
proof -
  have "block_on TASK_ID_NONE (enter c k) =
      Inr ((), (enter c k)\<lparr>k_sched := block (k_current_task k) (k_sched k)\<rparr>)"
    using assms block_task [of "enter c k"] by simp
  then show ?thesis
    using assms signal_wait_blocks [of c "enter c k" requested block_on TASK_ID_NONE]
    by (simp add: rtos_signal_wait_set_def kbind_def kreturn_def kernel_inv_def)
qed

lemma signal_send_set_sent:
  assumes "kernel_inv c inv ntasks k" and "preempt_ok c k" and "signals_ok c k"
    and "unat t < tasks_length c"
  shows "signal_send_set c unblock t signals k = Inr ((), signal_sent c ready t signals k)"
  using signal_send_set_eq [OF assms] by (simp add: signal_sent_def)

lemma signal_sent_inv:
  assumes "kernel_inv c inv ntasks k" and "unat t < tasks_length c"
  shows "kernel_inv c inv ntasks (signal_sent c ready t signals k)"
  using assms inv_ready ntasks_ready by (simp add: kernel_inv_def)

lemma signal_sent_runnable:
  assumes "kernel_inv c inv ntasks k" and "unat t < tasks_length c" and "unat u < tasks_length c"
  shows "runnable (k_sched (signal_sent c ready t signals k)) u \<longleftrightarrow> u = t \<or> runnable (k_sched k) u"
  using assms by (simp add: kernel_inv_def runnable_ready)

end

end
