(* ===== verification/Tick_Sources.thy ===== *)
theory Tick_Sources
  imports Prelude
begin

text \<open>
  The platform parts of the timer component (\<open>components/timer-armv7m\<close>, \<open>timer-ppce500\<close>,
  \<open>timer-posix\<close>): the counter of ticks that interrupt handlers have announced and the kernel has not
  processed yet. Each platform makes reading and clearing the counter one atomic step.
\<close>

definition armv7m_timer_pending_ticks_check :: "u8 \<Rightarrow> bool" where
  "armv7m_timer_pending_ticks_check timer_pending_ticks \<longleftrightarrow> timer_pending_ticks \<noteq> 0"

definition armv7m_timer_pending_ticks_get_and_clear_atomically :: "u8 \<Rightarrow> u8 \<times> u8" where
  "armv7m_timer_pending_ticks_get_and_clear_atomically timer_pending_ticks = (timer_pending_ticks, 0)"

definition armv7m_timer_tick :: "u8 \<Rightarrow> u8" where
  "armv7m_timer_tick timer_pending_ticks =
     (if timer_pending_ticks < 2 then timer_pending_ticks + 1 else timer_pending_ticks)"

definition ppce500_timer_pending_ticks_check :: "u8 \<Rightarrow> bool" where
  "ppce500_timer_pending_ticks_check timer_pending_ticks \<longleftrightarrow> timer_pending_ticks \<noteq> 0"

definition ppce500_timer_pending_ticks_get_and_clear_atomically :: "u8 \<Rightarrow> u8 \<times> u8" where
  "ppce500_timer_pending_ticks_get_and_clear_atomically timer_pending_ticks = (timer_pending_ticks, 0)"

definition ppce500_timer_tick :: "u8 \<Rightarrow> u8" where
  "ppce500_timer_tick timer_pending_ticks =
     (if timer_pending_ticks < 2 then timer_pending_ticks + 1 else timer_pending_ticks)"

text \<open>The POSIX counter is an \<open>unsigned int\<close>; the returned value is converted to 8 bits.\<close>

definition posix_timer_pending_ticks_check :: "u32 \<Rightarrow> bool" where
  "posix_timer_pending_ticks_check timer_ticks_pending \<longleftrightarrow> timer_ticks_pending \<noteq> 0"

definition posix_timer_pending_ticks_get_and_clear_atomically :: "u32 \<Rightarrow> u8 \<times> u32" where
  "posix_timer_pending_ticks_get_and_clear_atomically timer_ticks_pending =
     (ucast timer_ticks_pending, 0)"

definition posix_timer_tick :: "u32 \<Rightarrow> u32" where
  "posix_timer_tick timer_ticks_pending =
     (if timer_ticks_pending < 2 then timer_ticks_pending + 1 else timer_ticks_pending)"

section \<open>Counting ticks\<close>

text \<open>
  Between two times the kernel takes the counter, it counts the ticks up to two, which is enough for
  the kernel to tell no tick, one tick, and an overflow apart.
\<close>

lemma u8_min2_step:
  "(if (of_nat (min 2 n) :: u8) < 2 then of_nat (min 2 n) + 1 else of_nat (min 2 n)) =
     (of_nat (min 2 (Suc n)) :: u8)"
proof -
  consider "n = 0" | "n = 1" | "2 \<le> n" by linarith
  then show ?thesis by cases (simp_all add: min_def)
qed

lemma u32_min2_step:
  "(if (of_nat (min 2 n) :: u32) < 2 then of_nat (min 2 n) + 1 else of_nat (min 2 n)) =
     (of_nat (min 2 (Suc n)) :: u32)"
proof -
  consider "n = 0" | "n = 1" | "2 \<le> n" by linarith
  then show ?thesis by cases (simp_all add: min_def)
qed

lemma armv7m_ticks_saturate: "(armv7m_timer_tick ^^ n) 0 = of_nat (min 2 n)"
proof (induction n)
  case (Suc n)
  then show ?case
    unfolding funpow.simps comp_apply armv7m_timer_tick_def by (simp only: u8_min2_step)
qed simp

lemma ppce500_ticks_saturate: "(ppce500_timer_tick ^^ n) 0 = of_nat (min 2 n)"
proof (induction n)
  case (Suc n)
  then show ?case
    unfolding funpow.simps comp_apply ppce500_timer_tick_def by (simp only: u8_min2_step)
qed simp

lemma posix_ticks_saturate: "(posix_timer_tick ^^ n) 0 = of_nat (min 2 n)"
proof (induction n)
  case (Suc n)
  then show ?case
    unfolding funpow.simps comp_apply posix_timer_tick_def by (simp only: u32_min2_step)
qed simp

lemma posix_get_and_clear:
  "posix_timer_pending_ticks_get_and_clear_atomically ((posix_timer_tick ^^ n) 0) =
     (of_nat (min 2 n), 0)"
proof -
  have "ucast (of_nat (min 2 n) :: u32) = (of_nat (min 2 n) :: u8)"
  proof -
    consider "n = 0" | "n = 1" | "2 \<le> n" by linarith
    then show ?thesis by cases (simp_all add: min_def)
  qed
  then show ?thesis
    by (simp add: posix_timer_pending_ticks_get_and_clear_atomically_def posix_ticks_saturate)
qed

text \<open>
  The three platforms count ticks alike. After any number \<open>n\<close> of ticks since the kernel last took the
  counter, the check says whether there was one, and taking the counter gives the kernel \<open>min 2 n\<close> and
  resets it. No number of ticks wraps it around.
\<close>

theorem tick_sources_count:
  "armv7m_timer_pending_ticks_check ((armv7m_timer_tick ^^ n) 0) = (0 < n) \<and>
   ppce500_timer_pending_ticks_check ((ppce500_timer_tick ^^ n) 0) = (0 < n) \<and>
   posix_timer_pending_ticks_check ((posix_timer_tick ^^ n) 0) = (0 < n) \<and>
   armv7m_timer_pending_ticks_get_and_clear_atomically ((armv7m_timer_tick ^^ n) 0) = (of_nat (min 2 n), 0) \<and>
   ppce500_timer_pending_ticks_get_and_clear_atomically ((ppce500_timer_tick ^^ n) 0) = (of_nat (min 2 n), 0) \<and>
   posix_timer_pending_ticks_get_and_clear_atomically ((posix_timer_tick ^^ n) 0) = (of_nat (min 2 n), 0)"
proof -
  consider "n = 0" | "n = 1" | "2 \<le> n" by linarith
  then have "(of_nat (min 2 n) :: u8) \<noteq> 0 \<longleftrightarrow> 0 < n" "(of_nat (min 2 n) :: u32) \<noteq> 0 \<longleftrightarrow> 0 < n"
    by (cases; simp add: min_def)+
  then show ?thesis
    by (simp add: armv7m_ticks_saturate ppce500_ticks_saturate posix_ticks_saturate posix_get_and_clear [unfolded posix_ticks_saturate]
        armv7m_timer_pending_ticks_check_def ppce500_timer_pending_ticks_check_def posix_timer_pending_ticks_check_def
        armv7m_timer_pending_ticks_get_and_clear_atomically_def ppce500_timer_pending_ticks_get_and_clear_atomically_def)
qed

end
