(* ===== verification/Timers.thy ===== *)
theory Timers
  imports Signals Tick_Sources
begin

text \<open>
  The timer component (\<open>components/timer\<close>). Timers send a signal set to a task, or report an
  error, when the low 16 bits of the tick counter reach their expiry value; a timer with a reload
  value is periodic. The pending-tick counter is that of \<open>timer-armv7m\<close>.
\<close>

section \<open>Model\<close>

record timer =
  tm_enabled :: bool
  tm_overflow :: bool
  tm_expiry :: u16
  tm_reload :: u16
  tm_error_id :: u8
  tm_task_id :: u8
  tm_signal_set :: u8

record 's timer_kernel = "'s signal_kernel" +
  k_timer_current_ticks :: u32
  k_timers :: "timer list"
  k_timer_pending_ticks :: u8
  k_task_timers :: "u8 list"

definition TIMER_ID_ZERO :: u8 where
  "TIMER_ID_ZERO = 0"

definition TIMER_ID_MAX :: "('s, 'z) timer_kernel_scheme \<Rightarrow> u8" where
  "TIMER_ID_MAX k = of_nat (length (k_timers k)) - 1"

definition timer_expired :: "timer \<Rightarrow> u16 \<Rightarrow> bool" where
  "timer_expired timer timeout \<longleftrightarrow> tm_enabled timer \<and> tm_expiry timer = timeout"

definition timer_is_periodic :: "timer \<Rightarrow> bool" where
  "timer_is_periodic timer \<longleftrightarrow> tm_reload timer > 0"

definition timer_modify :: "u8 \<Rightarrow> (timer \<Rightarrow> timer) \<Rightarrow> (('s, 'z) timer_kernel_scheme, unit) kop" where
  "timer_modify timer_id f = array_modify k_timers k_timers_update timer_id f"

definition timer_reload_set :: "u8 \<Rightarrow> u16 \<Rightarrow> (('s, 'z) timer_kernel_scheme, unit) kop" where
  "timer_reload_set timer_id ticks = timer_modify timer_id (\<lambda>t. t\<lparr>tm_reload := ticks\<rparr>)"

definition timer_disable :: "u8 \<Rightarrow> (('s, 'z) timer_kernel_scheme, unit) kop" where
  "timer_disable timer_id = timer_modify timer_id (\<lambda>t. t\<lparr>tm_enabled := False\<rparr>)"

definition current_timeout :: "('s, 'z) timer_kernel_scheme \<Rightarrow> u16" where
  "current_timeout k = ucast (k_timer_current_ticks k)"

definition assert_timer_valid :: "config \<Rightarrow> u8 \<Rightarrow> (('s, 'z) timer_kernel_scheme, unit) kop" where
  "assert_timer_valid c timer_id =
     kbind (kgets (\<lambda>k. length (k_timers k))) (\<lambda>timers_length.
     api_assert c (unat timer_id < timers_length) ERROR_ID_INVALID_ID)"

text \<open>The argument of \<open>timer_process_one\<close> is the identifier of the timer the pointer refers to.\<close>

definition timer_process_one ::
  "config \<Rightarrow> (u8 \<Rightarrow> (('s, 'z) timer_kernel_scheme, unit) kop) \<Rightarrow> u8 \<Rightarrow>
     (('s, 'z) timer_kernel_scheme, unit) kop"
where
  "timer_process_one c unblock timer_id =
     kbind (precondition_preemption_disabled c) (\<lambda>_.
     kbind (array_read k_timers timer_id) (\<lambda>timer.
     kbind (if timer_is_periodic timer
            then timer_modify timer_id (\<lambda>t. t\<lparr>tm_expiry := tm_expiry t + tm_reload t\<rparr>)
            else timer_modify timer_id (\<lambda>t. t\<lparr>tm_enabled := False\<rparr>)) (\<lambda>_.
     kbind (if tm_error_id timer \<noteq> ERROR_ID_NONE
            then fatal_error (tm_error_id timer)
            else
              kbind (signal_pending (tm_task_id timer) (tm_signal_set timer)) (\<lambda>pending.
              kseq [kwhen pending (timer_modify timer_id (\<lambda>t. t\<lparr>tm_overflow := True\<rparr>)),
                    signal_send_set c unblock (tm_task_id timer) (tm_signal_set timer)])) (\<lambda>_.
     postcondition_preemption_disabled c))))"

definition timer_enable ::
  "config \<Rightarrow> (u8 \<Rightarrow> (('s, 'z) timer_kernel_scheme, unit) kop) \<Rightarrow> u8 \<Rightarrow>
     (('s, 'z) timer_kernel_scheme, unit) kop"
where
  "timer_enable c unblock timer_id =
     kbind (precondition_preemption_disabled c) (\<lambda>_.
     kbind (array_read k_timers timer_id) (\<lambda>timer.
     kbind (if tm_reload timer = 0
            then timer_process_one c unblock timer_id
            else kbind (kgets current_timeout) (\<lambda>now.
              timer_modify timer_id
                (\<lambda>t. t\<lparr>tm_expiry := now + tm_reload t, tm_enabled := True\<rparr>))) (\<lambda>_.
     postcondition_preemption_disabled c)))"

definition timer_oneshot ::
  "config \<Rightarrow> (u8 \<Rightarrow> (('s, 'z) timer_kernel_scheme, unit) kop) \<Rightarrow> u8 \<Rightarrow> u16 \<Rightarrow>
     (('s, 'z) timer_kernel_scheme, unit) kop"
where
  "timer_oneshot c unblock timer_id timeout =
     kseq [precondition_preemption_disabled c,
           timer_reload_set timer_id timeout,
           timer_enable c unblock timer_id,
           timer_reload_set timer_id 0,
           postcondition_preemption_disabled c]"

definition timer_pending_ticks_get_and_clear_atomically ::
  "(('s, 'z) timer_kernel_scheme, u8) kop"
where
  "timer_pending_ticks_get_and_clear_atomically k =
     (let (pending_ticks, remaining) =
            armv7m_timer_pending_ticks_get_and_clear_atomically (k_timer_pending_ticks k)
      in Inr (pending_ticks, k\<lparr>k_timer_pending_ticks := remaining\<rparr>))"

text \<open>The body of the loop of \<open>timer_tick_process\<close>.\<close>

definition timer_visit ::
  "config \<Rightarrow> (u8 \<Rightarrow> (('s, 'z) timer_kernel_scheme, unit) kop) \<Rightarrow> u16 \<Rightarrow> u8 \<Rightarrow>
     (('s, 'z) timer_kernel_scheme, unit) kop"
where
  "timer_visit c unblock timeout timer_id =
     kbind (array_read k_timers timer_id) (\<lambda>timer.
     kwhen (timer_expired timer timeout) (timer_process_one c unblock timer_id))"

definition timer_tick_process ::
  "config \<Rightarrow> (u8 \<Rightarrow> (('s, 'z) timer_kernel_scheme, unit) kop) \<Rightarrow>
     (('s, 'z) timer_kernel_scheme, unit) kop"
where
  "timer_tick_process c unblock =
     kbind (precondition_preemption_disabled c) (\<lambda>_.
     kbind timer_pending_ticks_get_and_clear_atomically (\<lambda>pending_ticks.
     kbind (kwhen (pending_ticks > 1) (fatal_error ERROR_ID_TICK_OVERFLOW)) (\<lambda>_.
     kbind (kwhen (pending_ticks \<noteq> 0)
       (kbind (kmodify (\<lambda>k. k\<lparr>k_timer_current_ticks := k_timer_current_ticks k + 1\<rparr>)) (\<lambda>_.
        kbind (kgets current_timeout) (\<lambda>timeout.
        kbind (kgets (\<lambda>k. (k_timers k = [], TIMER_ID_MAX k))) (\<lambda>(no_timers, timer_id_max).
        kwhen (\<not> no_timers)
          (for_each_upto timer_id_max (timer_visit c unblock timeout))))))) (\<lambda>_.
     postcondition_preemption_disabled c))))"

subsection \<open>Public interface\<close>

definition rtos_timer_tick :: "(('s, 'z) timer_kernel_scheme, unit) kop" where
  "rtos_timer_tick =
     kmodify (\<lambda>k. k\<lparr>k_timer_pending_ticks := armv7m_timer_tick (k_timer_pending_ticks k)\<rparr>)"

definition rtos_sleep ::
  "config \<Rightarrow> (u8 \<Rightarrow> (('s, 'z) timer_kernel_scheme, unit) kop) \<Rightarrow>
     (u8 \<Rightarrow> (('s, 'z) timer_kernel_scheme, unit) kop) \<Rightarrow> u16 \<Rightarrow>
     (('s, 'z) timer_kernel_scheme, signal_pc) kop"
where
  "rtos_sleep c unblock block_on ticks =
     kbind (preempt_disable c) (\<lambda>_.
     kbind (get_current_task c) (\<lambda>current.
     kbind (array_read k_task_timers current) (\<lambda>timer_id.
     kbind (timer_oneshot c unblock timer_id ticks) (\<lambda>_.
     signal_wait_set_blocked_on c block_on (SIGNAL_ID__TASK_TIMER c) TASK_ID_NONE))))"

definition rtos_sleep_resume ::
  "config \<Rightarrow> (u8 \<Rightarrow> (('s, 'z) timer_kernel_scheme, unit) kop) \<Rightarrow> signal_pc \<Rightarrow>
     (('s, 'z) timer_kernel_scheme, (signal_pc, unit) progress) kop"
where
  "rtos_sleep_resume c block_on pc =
     co_bind (signal_wait_resume c block_on pc) id (\<lambda>_. co_finish (preempt_enable c) ())"

definition rtos_timer_enable ::
  "config \<Rightarrow> (u8 \<Rightarrow> (('s, 'z) timer_kernel_scheme, unit) kop) \<Rightarrow> u8 \<Rightarrow>
     (('s, 'z) timer_kernel_scheme, unit) kop"
where
  "rtos_timer_enable c unblock timer_id =
     kseq [assert_timer_valid c timer_id, preempt_disable c, timer_enable c unblock timer_id,
           preempt_enable c]"

definition rtos_timer_disable :: "config \<Rightarrow> u8 \<Rightarrow> (('s, 'z) timer_kernel_scheme, unit) kop" where
  "rtos_timer_disable c timer_id = kseq [assert_timer_valid c timer_id, timer_disable timer_id]"

definition rtos_timer_oneshot ::
  "config \<Rightarrow> (u8 \<Rightarrow> (('s, 'z) timer_kernel_scheme, unit) kop) \<Rightarrow> u8 \<Rightarrow> u16 \<Rightarrow>
     (('s, 'z) timer_kernel_scheme, unit) kop"
where
  "rtos_timer_oneshot c unblock timer_id timeout =
     kseq [assert_timer_valid c timer_id, preempt_disable c,
           timer_oneshot c unblock timer_id timeout, preempt_enable c]"

definition rtos_timer_check_overflow ::
  "config \<Rightarrow> u8 \<Rightarrow> (('s, 'z) timer_kernel_scheme, bool) kop"
where
  "rtos_timer_check_overflow c timer_id =
     kbind (assert_timer_valid c timer_id) (\<lambda>_.
     kbind (preempt_disable c) (\<lambda>_.
     kbind (array_read k_timers timer_id) (\<lambda>timer.
     kbind (timer_modify timer_id (\<lambda>t. t\<lparr>tm_overflow := False\<rparr>)) (\<lambda>_.
     kbind (preempt_enable c) (\<lambda>_.
     kreturn (tm_overflow timer))))))"

definition rtos_timer_remaining :: "config \<Rightarrow> u8 \<Rightarrow> (('s, 'z) timer_kernel_scheme, u16) kop" where
  "rtos_timer_remaining c timer_id =
     kbind (assert_timer_valid c timer_id) (\<lambda>_.
     kbind (preempt_disable c) (\<lambda>_.
     kbind (array_read k_timers timer_id) (\<lambda>timer.
     kbind (kgets current_timeout) (\<lambda>now.
     kbind (preempt_enable c) (\<lambda>_.
     kreturn (if tm_enabled timer then tm_expiry timer - now else 0))))))"

definition rtos_timer_reload_set ::
  "config \<Rightarrow> u8 \<Rightarrow> u16 \<Rightarrow> (('s, 'z) timer_kernel_scheme, unit) kop"
where
  "rtos_timer_reload_set c timer_id reload =
     kseq [assert_timer_valid c timer_id, timer_reload_set timer_id reload]"

definition rtos_timer_signal_set ::
  "config \<Rightarrow> u8 \<Rightarrow> u8 \<Rightarrow> u8 \<Rightarrow> (('s, 'z) timer_kernel_scheme, unit) kop"
where
  "rtos_timer_signal_set c timer_id task_id signal_set =
     kseq [assert_timer_valid c timer_id,
           assert_task_valid c task_id,
           api_assert c (signal_set \<noteq> SIGNAL_SET_EMPTY) ERROR_ID_TIMER_SIGNAL_SET_IS_EMPTY,
           preempt_disable c,
           timer_modify timer_id (\<lambda>t. t\<lparr>tm_error_id := ERROR_ID_NONE\<rparr>),
           timer_modify timer_id (\<lambda>t. t\<lparr>tm_task_id := task_id\<rparr>),
           timer_modify timer_id (\<lambda>t. t\<lparr>tm_signal_set := signal_set\<rparr>),
           preempt_enable c]"

definition rtos_timer_error_set ::
  "config \<Rightarrow> u8 \<Rightarrow> u8 \<Rightarrow> (('s, 'z) timer_kernel_scheme, unit) kop"
where
  "rtos_timer_error_set c timer_id error_id =
     kseq [assert_timer_valid c timer_id,
           timer_modify timer_id (\<lambda>t. t\<lparr>tm_error_id := error_id\<rparr>)]"

section \<open>State abstraction\<close>

lemma timer_frame [simp]:
  "k_timers (enter c k) = k_timers k"
  "k_timers (leave c k) = k_timers k"
  "k_timers (pend c k) = k_timers k"
  "k_timers (set_pending t p k) = k_timers k"
  "k_timer_current_ticks (enter c k) = k_timer_current_ticks k"
  "k_timer_current_ticks (leave c k) = k_timer_current_ticks k"
  "k_timer_current_ticks (pend c k) = k_timer_current_ticks k"
  "k_timer_current_ticks (set_pending t p k) = k_timer_current_ticks k"
  "k_timer_pending_ticks (enter c k) = k_timer_pending_ticks k"
  "k_timer_pending_ticks (leave c k) = k_timer_pending_ticks k"
  "k_timer_pending_ticks (pend c k) = k_timer_pending_ticks k"
  "k_timer_pending_ticks (set_pending t p k) = k_timer_pending_ticks k"
  "k_task_timers (enter c k) = k_task_timers k"
  "k_task_timers (leave c k) = k_task_timers k"
  "k_task_timers (pend c k) = k_task_timers k"
  "k_task_timers (set_pending t p k) = k_task_timers k"
  by (simp_all add: enter_def leave_def pend_def set_pending_def)

lemma timer_update_frame [simp]:
  "kernel_inv c sinv n (k_timers_update f k) = kernel_inv c sinv n k"
  "kernel_inv c sinv n (k_timer_current_ticks_update g k) = kernel_inv c sinv n k"
  "kernel_inv c sinv n (k_timer_pending_ticks_update h k) = kernel_inv c sinv n k"
  "preempt_ok c (k_timers_update f k) = preempt_ok c k"
  "preempt_ok c (k_timer_current_ticks_update g k) = preempt_ok c k"
  "preempt_ok c (k_timer_pending_ticks_update h k) = preempt_ok c k"
  "current_ok c (k_timers_update f k) = current_ok c k"
  "current_ok c (k_timer_current_ticks_update g k) = current_ok c k"
  "current_ok c (k_timer_pending_ticks_update h k) = current_ok c k"
  "signals_ok c (k_timers_update f k) = signals_ok c k"
  "signals_ok c (k_timer_current_ticks_update g k) = signals_ok c k"
  "signals_ok c (k_timer_pending_ticks_update h k) = signals_ok c k"
  "pending_of (k_timers_update f k) = pending_of k"
  "pending_of (k_timer_current_ticks_update g k) = pending_of k"
  "pending_of (k_timer_pending_ticks_update h k) = pending_of k"
  by (simp_all add: kernel_inv_def preempt_ok_def current_ok_def signals_ok_def pending_of_def fun_eq_iff)

text \<open>Timers that signal a task name a task of the system.\<close>

definition timers_ok :: "config \<Rightarrow> ('s, 'z) timer_kernel_scheme \<Rightarrow> bool" where
  "timers_ok c k \<longleftrightarrow> length (k_timers k) \<le> 255 \<and>
     (\<forall>tm \<in> set (k_timers k). tm_error_id tm = ERROR_ID_NONE \<longrightarrow> unat (tm_task_id tm) < tasks_length c)"

text \<open>What processing does to a timer, up to its overflow flag.\<close>

definition timer_advance :: "timer \<Rightarrow> timer" where
  "timer_advance tm =
     (if timer_is_periodic tm then tm\<lparr>tm_expiry := tm_expiry tm + tm_reload tm\<rparr>
      else tm\<lparr>tm_enabled := False\<rparr>)"

definition timer_step :: "u16 \<Rightarrow> timer \<Rightarrow> timer" where
  "timer_step now tm = (if timer_expired tm now then timer_advance tm else tm)"

definition timer_same :: "timer \<Rightarrow> timer \<Rightarrow> bool" where
  "timer_same a b \<longleftrightarrow> a\<lparr>tm_overflow := False\<rparr> = b\<lparr>tm_overflow := False\<rparr>"

fun timer_signals :: "u16 \<Rightarrow> u8 \<Rightarrow> timer list \<Rightarrow> u8" where
  "timer_signals now t [] = 0"
| "timer_signals now t (tm # tms) =
     (if timer_expired tm now \<and> tm_task_id tm = t then tm_signal_set tm OR timer_signals now t tms
      else timer_signals now t tms)"

lemma timer_signals_append:
  "timer_signals now t (xs @ ys) = timer_signals now t xs OR timer_signals now t ys"
  by (induction xs) (simp_all add: or.assoc)

lemma timer_advance_fields [simp]:
  "tm_reload (timer_advance tm) = tm_reload tm"
  "tm_error_id (timer_advance tm) = tm_error_id tm"
  "tm_task_id (timer_advance tm) = tm_task_id tm"
  "tm_signal_set (timer_advance tm) = tm_signal_set tm"
  "tm_overflow (timer_advance tm) = tm_overflow tm"
  by (simp_all add: timer_advance_def)

lemma timer_advance_overflow [simp]:
  "(timer_advance tm)\<lparr>tm_overflow := tm_overflow tm\<rparr> = timer_advance tm"
  by (cases tm) (simp add: timer_advance_def)

definition timer_fired ::
  "config \<Rightarrow> (u8 \<Rightarrow> 's \<Rightarrow> 's) \<Rightarrow> u8 \<Rightarrow> ('s, 'z) timer_kernel_scheme \<Rightarrow> ('s, 'z) timer_kernel_scheme"
where
  "timer_fired c ready i k =
     (let tm = k_timers k ! unat i; t = tm_task_id tm; sigs = tm_signal_set tm;
          over = (pending_of k t AND sigs = sigs);
          tm' = (timer_advance tm)\<lparr>tm_overflow := over \<or> tm_overflow tm\<rparr>
      in pend c ((set_pending t (pending_of k t OR sigs) (k\<lparr>k_timers := (k_timers k)[unat i := tm']\<rparr>))
           \<lparr>k_sched := ready t (k_sched k)\<rparr>))"

lemma timer_modify_run [simp]:
  "timer_modify i f k =
     (if unat i < length (k_timers k)
      then Inr ((), k\<lparr>k_timers := (k_timers k)[unat i := f (k_timers k ! unat i)]\<rparr>) else Inl Out_Of_Bounds)"
  by (simp add: timer_modify_def array_modify_def)

definition timer_kernel_inv ::
  "config \<Rightarrow> ('s \<Rightarrow> bool) \<Rightarrow> ('s \<Rightarrow> nat) \<Rightarrow> ('s, 'z) timer_kernel_scheme \<Rightarrow> bool"
where
  "timer_kernel_inv c sinv ntasks k \<longleftrightarrow>
     kernel_inv c sinv ntasks k \<and> preempt_ok c k \<and> signals_ok c k \<and> timers_ok c k"

section \<open>One timer over time\<close>

text \<open>
  \<open>timer_run now n tm\<close> is the timer after the \<open>n\<close> ticks that follow the time \<open>now\<close>, when nothing
  but tick processing changes it.
\<close>

fun timer_run :: "u16 \<Rightarrow> nat \<Rightarrow> timer \<Rightarrow> timer" where
  "timer_run now 0 tm = tm"
| "timer_run now (Suc n) tm = timer_step (now + of_nat (Suc n)) (timer_run now n tm)"

lemma timer_same_refl [simp]: "timer_same a a"
  by (simp add: timer_same_def)

lemma timer_same_trans: "timer_same a b \<Longrightarrow> timer_same b d \<Longrightarrow> timer_same a d"
  by (simp add: timer_same_def)

lemma timer_same_iff:
  "timer_same a b \<longleftrightarrow> tm_enabled a = tm_enabled b \<and> tm_expiry a = tm_expiry b \<and>
     tm_reload a = tm_reload b \<and> tm_error_id a = tm_error_id b \<and> tm_task_id a = tm_task_id b \<and>
     tm_signal_set a = tm_signal_set b"
  by (cases a; cases b) (simp add: timer_same_def)

lemma timer_same_step: "timer_same a b \<Longrightarrow> timer_same (timer_step now a) (timer_step now b)"
  by (auto simp: timer_same_iff timer_step_def timer_expired_def timer_advance_def timer_is_periodic_def)

lemma timer_step_fields [simp]:
  "tm_reload (timer_step now tm) = tm_reload tm"
  "tm_error_id (timer_step now tm) = tm_error_id tm"
  "tm_task_id (timer_step now tm) = tm_task_id tm"
  "tm_signal_set (timer_step now tm) = tm_signal_set tm"
  by (simp_all add: timer_step_def)

lemma timer_run_fields [simp]:
  "tm_reload (timer_run now n tm) = tm_reload tm"
  "tm_error_id (timer_run now n tm) = tm_error_id tm"
  "tm_task_id (timer_run now n tm) = tm_task_id tm"
  "tm_signal_set (timer_run now n tm) = tm_signal_set tm"
  by (induction n) simp_all

lemma u16_of_nat_eq_iff:
  assumes "a \<le> b" and "b - a < 65536"
  shows "(of_nat b :: u16) = of_nat a \<longleftrightarrow> b = a"
proof
  assume "(of_nat b :: u16) = of_nat a"
  then have "(of_nat (b - a) :: u16) = 0" using assms(1) by (simp add: of_nat_diff)
  then have "unat (of_nat (b - a) :: u16) = 0" by simp
  moreover have "unat (of_nat (b - a) :: u16) = b - a"
    using assms(2) by (simp add: unat_of_nat del: of_nat_diff)
  ultimately show "b = a" using assms(1) by simp
qed simp

lemma next_multiple:
  fixes n r :: nat
  assumes "0 < r"
  shows "Suc n \<le> r * (n div r + 1)" and "r * (n div r + 1) - Suc n < r"
    and "r * (n div r + 1) = Suc n \<longleftrightarrow> r dvd Suc n"
    and "Suc n div r = (if r dvd Suc n then n div r + 1 else n div r)"
proof -
  have n: "r * (n div r) + n mod r = n" and less: "n mod r < r" using assms by simp_all
  have split: "r * (n div r + 1) = r * (n div r) + r" by simp
  show "Suc n \<le> r * (n div r + 1)" unfolding split using n less by linarith
  show "r * (n div r + 1) - Suc n < r" unfolding split using n less by linarith
  show "Suc n div r = (if r dvd Suc n then n div r + 1 else n div r)"
    using assms by (simp add: div_Suc dvd_eq_mod_eq_0)
  then show "r * (n div r + 1) = Suc n \<longleftrightarrow> r dvd Suc n"
    by (metis add.commute div_mult_self1_is_m assms dvd_mult_div_cancel dvd_triv_left)
qed

text \<open>A periodic timer expires at every multiple of its period, and at no other tick.\<close>

lemma timer_periodic_run:
  assumes "tm_enabled tm" and "tm_reload tm = r" and "r \<noteq> 0" and "tm_expiry tm = now + r"
  shows "timer_run now n tm = tm\<lparr>tm_expiry := now + of_nat (unat r * (n div unat r + 1))\<rparr> \<and>
    (timer_expired (timer_run now n tm) (now + of_nat (Suc n)) \<longleftrightarrow> unat r dvd Suc n)"
proof -
  have r: "0 < unat r" using assms(3) by (simp add: unat_gt_0)
  have expired: "timer_expired (tm\<lparr>tm_expiry := now + of_nat (unat r * (n div unat r + 1))\<rparr>)
      (now + of_nat (Suc n)) \<longleftrightarrow> unat r dvd Suc n" for n
  proof -
    have "unat r * (n div unat r + 1) - Suc n < 65536"
      using next_multiple(2) [OF r, of n] unsigned_less [of r, where ?'a = nat] by simp
    then have "(of_nat (unat r * (n div unat r + 1)) :: u16) = of_nat (Suc n) \<longleftrightarrow> unat r dvd Suc n"
      using u16_of_nat_eq_iff [OF next_multiple(1) [OF r, of n]] next_multiple(3) [OF r, of n] by simp
    then show ?thesis using assms(1) by (simp add: timer_expired_def del: of_nat_mult of_nat_Suc)
  qed
  have state: "timer_run now n tm = tm\<lparr>tm_expiry := now + of_nat (unat r * (n div unat r + 1))\<rparr>"
  proof (induction n)
    case 0
    then show ?case using assms(4) by (cases tm) simp
  next
    case (Suc n)
    let ?tm = "tm\<lparr>tm_expiry := now + of_nat (unat r * (n div unat r + 1))\<rparr>"
    have per: "timer_is_periodic ?tm" using assms(2,3) by (simp add: timer_is_periodic_def word_gt_0)
    show ?case
    proof (cases "unat r dvd Suc n")
      case True
      then have "timer_run now (Suc n) tm = timer_advance ?tm"
        using Suc expired [of n] by (simp add: timer_step_def del: of_nat_mult of_nat_Suc)
      then show ?thesis
        using True per assms(2) next_multiple(4) [OF r, of n]
        by (simp add: timer_advance_def algebra_simps)
    next
      case False
      then have "timer_run now (Suc n) tm = ?tm"
        using Suc expired [of n] by (simp add: timer_step_def del: of_nat_mult of_nat_Suc)
      then show ?thesis using False next_multiple(4) [OF r, of n] by simp
    qed
  qed
  show ?thesis unfolding state using expired [of n] by simp
qed

text \<open>A one-shot timer expires exactly once.\<close>

lemma timer_oneshot_run:
  assumes "tm_enabled tm" and "tm_reload tm = 0" and "d \<noteq> 0" and "tm_expiry tm = now + d"
  shows "timer_run now n tm = tm\<lparr>tm_enabled := (n < unat d)\<rparr> \<and>
    (timer_expired (timer_run now n tm) (now + of_nat (Suc n)) \<longleftrightarrow> Suc n = unat d)"
proof -
  have d: "unat d < 65536" using unsigned_less [of d, where ?'a = nat] by simp
  have eq: "(now + d = now + of_nat (Suc n)) \<longleftrightarrow> Suc n = unat d" if "n < unat d" for n
    using u16_of_nat_eq_iff [of "Suc n" "unat d"] that d by (auto simp del: of_nat_Suc)
  have state: "timer_run now n tm = tm\<lparr>tm_enabled := (n < unat d)\<rparr>"
  proof (induction n)
    case 0
    have "0 < unat d" using assms(3) by (simp add: unat_gt_0)
    then show ?case using assms(1) by (cases tm) simp
  next
    case (Suc n)
    have per: "\<not> timer_is_periodic (tm\<lparr>tm_enabled := b\<rparr>)" for b
      using assms(2) by (simp add: timer_is_periodic_def)
    show ?case
    proof (cases "n < unat d")
      case True
      then show ?thesis
        using Suc eq [OF True] assms(4) per
        by (auto simp: timer_step_def timer_advance_def timer_expired_def simp del: of_nat_Suc)
    next
      case False
      then show ?thesis using Suc by (simp add: timer_step_def timer_expired_def del: of_nat_Suc)
    qed
  qed
  show ?thesis
    unfolding state using eq assms(4) by (auto simp: timer_expired_def simp del: of_nat_Suc)
qed

lemma timer_signals_same:
  "list_all2 timer_same xs ys \<Longrightarrow> timer_signals now t xs = timer_signals now t ys"
  by (induction rule: list_all2_induct) (auto simp: timer_same_iff timer_expired_def)

lemma timer_expired_same:
  "list_all2 timer_same xs ys \<Longrightarrow>
     (\<exists>tm \<in> set xs. timer_expired tm now \<and> tm_task_id tm = t) \<longleftrightarrow>
     (\<exists>tm \<in> set ys. timer_expired tm now \<and> tm_task_id tm = t)"
  by (induction rule: list_all2_induct) (auto simp: timer_same_iff timer_expired_def)

lemma timer_error_same:
  "list_all2 timer_same xs ys \<Longrightarrow>
     (\<forall>tm \<in> set xs. tm_error_id tm = e) \<longleftrightarrow> (\<forall>tm \<in> set ys. tm_error_id tm = e)"
  by (induction rule: list_all2_induct) (auto simp: timer_same_iff)

lemma timer_same_map_step:
  assumes zs: "list_all2 timer_same zs (map (timer_step now) xs)"
    and xs: "list_all2 timer_same xs (map f ys)"
  shows "list_all2 timer_same zs (map (\<lambda>y. timer_step now (f y)) ys)"
proof (rule list_all2_all_nthI)
  have len: "length zs = length xs" "length xs = length ys"
    using zs xs by (auto dest: list_all2_lengthD)
  then show "length zs = length (map (\<lambda>y. timer_step now (f y)) ys)" by simp
  fix i assume "i < length zs"
  then have "timer_same (zs ! i) (timer_step now (xs ! i))" and "timer_same (xs ! i) (f (ys ! i))"
    using list_all2_nthD [OF zs, of i] list_all2_nthD [OF xs, of i] len by simp_all
  from timer_same_trans [OF this(1) timer_same_step [OF this(2)]]
  show "timer_same (zs ! i) (map (\<lambda>y. timer_step now (f y)) ys ! i)"
    using len \<open>i < length zs\<close> by simp
qed

text \<open>What the timers send to a task, and whether they wake it, in the \<open>n\<close> ticks after \<open>now\<close>.\<close>

primrec timers_sent :: "u16 \<Rightarrow> nat \<Rightarrow> u8 \<Rightarrow> timer list \<Rightarrow> u8" where
  "timers_sent now 0 t tms = 0"
| "timers_sent now (Suc n) t tms =
     timers_sent now n t tms OR timer_signals (now + of_nat (Suc n)) t (map (timer_run now n) tms)"

primrec timers_woken :: "u16 \<Rightarrow> nat \<Rightarrow> u8 \<Rightarrow> timer list \<Rightarrow> bool" where
  "timers_woken now 0 t tms = False"
| "timers_woken now (Suc n) t tms =
     (timers_woken now n t tms \<or> (\<exists>tm \<in> set tms. tm_task_id tm = t \<and>
        timer_expired (timer_run now n tm) (now + of_nat (Suc n))))"

text \<open>The kernel processing \<open>n\<close> ticks, each as soon as it occurs.\<close>

fun timer_ticks ::
  "config \<Rightarrow> (u8 \<Rightarrow> (('s, 'z) timer_kernel_scheme, unit) kop) \<Rightarrow> nat \<Rightarrow>
     (('s, 'z) timer_kernel_scheme, unit) kop"
where
  "timer_ticks c unblock 0 = kreturn ()"
| "timer_ticks c unblock (Suc n) =
     kbind (timer_ticks c unblock n) (\<lambda>_. kseq [rtos_timer_tick, timer_tick_process c unblock])"

text \<open>The signals \<open>sigs\<close> of a task come from one timer only.\<close>

definition sole_source :: "timer list \<Rightarrow> nat \<Rightarrow> u8 \<Rightarrow> u8 \<Rightarrow> bool" where
  "sole_source tms i t sigs \<longleftrightarrow> i < length tms \<and> tm_task_id (tms ! i) = t \<and> tm_signal_set (tms ! i) = sigs \<and>
     (\<forall>j < length tms. j \<noteq> i \<longrightarrow> tm_task_id (tms ! j) = t \<longrightarrow> tm_signal_set (tms ! j) AND sigs = 0)"

lemma timer_signals_zero:
  "\<forall>tm \<in> set tms. tm_task_id tm = t \<longrightarrow> tm_signal_set tm AND sigs = 0 \<Longrightarrow>
     timer_signals now t tms AND sigs = 0"
  by (induction tms) (auto simp: bit.conj_disj_distrib2)

lemma timer_signals_sole:
  assumes "sole_source tms i t sigs"
  shows "timer_signals now t tms AND sigs = (if timer_expired (tms ! i) now then sigs else 0)"
proof -
  have i: "i < length tms" and tm: "tm_task_id (tms ! i) = t" "tm_signal_set (tms ! i) = sigs"
    and others: "\<And>j. j < length tms \<Longrightarrow> j \<noteq> i \<Longrightarrow> tm_task_id (tms ! j) = t \<Longrightarrow> tm_signal_set (tms ! j) AND sigs = 0"
    using assms by (simp_all add: sole_source_def)
  have split: "tms = take i tms @ (tms ! i) # drop (Suc i) tms" using i by (rule id_take_nth_drop)
  have "timer_signals now t (take i tms) AND sigs = 0"
    using others i by (intro timer_signals_zero) (auto simp: in_set_conv_nth)
  moreover have "timer_signals now t (drop (Suc i) tms) AND sigs = 0"
  proof (intro timer_signals_zero ballI impI)
    fix tm assume "tm \<in> set (drop (Suc i) tms)" and t: "tm_task_id tm = t"
    then obtain j where "j < length tms - Suc i" and "tm = tms ! (Suc i + j)"
      by (auto simp: in_set_conv_nth)
    then show "tm_signal_set tm AND sigs = 0" using others [of "Suc i + j"] t by simp
  qed
  moreover have "timer_signals now t tms AND sigs = (timer_signals now t (take i tms) AND sigs) OR
      ((if timer_expired (tms ! i) now then sigs else 0) OR (timer_signals now t (drop (Suc i) tms) AND sigs))"
    by (subst split, subst timer_signals_append) (simp add: tm bit.conj_disj_distrib2)
  ultimately show ?thesis by simp
qed

lemma timers_sent_oneshot:
  assumes sole: "sole_source tms i t sigs" and "tm_enabled (tms ! i)" and "tm_reload (tms ! i) = 0"
    and "d \<noteq> 0" and "tm_expiry (tms ! i) = now + d"
  shows "timers_sent now n t tms AND sigs = (if unat d \<le> n then sigs else 0)"
proof (induction n)
  case 0
  then show ?case using assms(4) by (simp add: unat_eq_0)
next
  case (Suc n)
  have i: "i < length tms" using sole by (simp add: sole_source_def)
  have "sole_source (map (timer_run now n) tms) i t sigs"
    using sole by (auto simp: sole_source_def)
  from timer_signals_sole [OF this, of "now + of_nat (Suc n)"]
  have "timer_signals (now + of_nat (Suc n)) t (map (timer_run now n) tms) AND sigs =
      (if Suc n = unat d then sigs else 0)"
    unfolding nth_map [OF i] conjunct2 [OF timer_oneshot_run [OF assms(2-5), of n]] .
  then show ?case
    using Suc by (auto simp: bit.conj_disj_distrib2 simp del: of_nat_Suc)
qed

text \<open>What tick processing never touches: everything but the scheduler, signals and timers.\<close>

definition timer_frame_eq :: "('s, 'z) timer_kernel_scheme \<Rightarrow> ('s, 'z) timer_kernel_scheme \<Rightarrow> bool" where
  "timer_frame_eq k k' \<longleftrightarrow> k_current_task k' = k_current_task k \<and>
     k_preempt_disabled k' = k_preempt_disabled k \<and> k_interrupt_event k' = k_interrupt_event k \<and>
     k_system_is_idle k' = k_system_is_idle k \<and> k_task_timers k' = k_task_timers k \<and>
     timer_kernel.more k' = timer_kernel.more k"

lemma timer_frame_eq_trans: "timer_frame_eq k k' \<Longrightarrow> timer_frame_eq k' k'' \<Longrightarrow> timer_frame_eq k k''"
  by (simp add: timer_frame_eq_def)

locale timer_control = signal_control set_runnable set_blocked get_next ready block inv ntasks runnable
    c unblock block_task
  for set_runnable set_blocked get_next ready block
    and inv :: "'s \<Rightarrow> bool" and ntasks runnable and c :: config
    and unblock :: "u8 \<Rightarrow> (('s, 'z) timer_kernel_scheme, unit) kop"
    and block_task
begin

lemma timer_process_one_eq:
  assumes "kernel_inv c inv ntasks k" and "preempt_ok c k" and "signals_ok c k" and "timers_ok c k"
    and "unat i < length (k_timers k)"
  shows "timer_process_one c unblock i k =
    (if tm_error_id (k_timers k ! unat i) \<noteq> ERROR_ID_NONE
     then Inl (Fatal (tm_error_id (k_timers k ! unat i)))
     else Inr ((), timer_fired c ready i k))"
proof -
  let ?tm = "k_timers k ! unat i"
  let ?t = "tm_task_id ?tm" and ?s = "tm_signal_set ?tm"
  let ?k1 = "k\<lparr>k_timers := (k_timers k)[unat i := timer_advance ?tm]\<rparr>"
  have modify: "(if timer_is_periodic ?tm
            then timer_modify i (\<lambda>t. t\<lparr>tm_expiry := tm_expiry t + tm_reload t\<rparr>)
            else timer_modify i (\<lambda>t. t\<lparr>tm_enabled := False\<rparr>)) k = Inr ((), ?k1)"
    using assms by (simp add: timer_advance_def)
  show ?thesis
  proof (cases "tm_error_id ?tm = ERROR_ID_NONE")
    case False
    then show ?thesis
      using assms modify by (simp add: timer_process_one_def kbind_def array_read_def)
  next
    case True
    have t: "unat ?t < tasks_length c"
      using True assms by (simp add: timers_ok_def)
    let ?over = "pending_of k ?t AND ?s = ?s"
    let ?k2 = "k\<lparr>k_timers := (k_timers k)[unat i := (timer_advance ?tm)\<lparr>tm_overflow := ?over \<or> tm_overflow ?tm\<rparr>]\<rparr>"
    have over: "kwhen ?over (timer_modify i (\<lambda>t. t\<lparr>tm_overflow := True\<rparr>)) ?k1 = Inr ((), ?k2)"
    proof (cases ?over)
      case True
      then show ?thesis using assms by (simp add: kwhen_def)
    next
      case False
      then show ?thesis by (simp add: kwhen_def kreturn_def)
    qed
    have pending: "signal_pending ?t ?s ?k1 = Inr (?over, ?k1)"
      using t assms by (simp add: signal_pending_eq signals_ok_def)
    have send: "signal_send_set c unblock ?t ?s ?k2 = Inr ((), timer_fired c ready i k)"
      using t assms signal_send_set_eq [of ?k2 ?t ?s] by (simp add: timer_fired_def Let_def)
    have ok: "preempt_ok c (timer_fired c ready i k)"
      using assms(2) by (simp add: timer_fired_def Let_def preempt_ok_def)
    show ?thesis
      using True assms modify over pending send ok
      by (simp add: timer_process_one_def kbind_def kreturn_def array_read_def)
  qed
qed

lemma timer_fired_facts:
  assumes "timer_kernel_inv c inv ntasks k" and i: "unat i < length (k_timers k)"
    and "tm_error_id (k_timers k ! unat i) = ERROR_ID_NONE"
  shows "timer_kernel_inv c inv ntasks (timer_fired c ready i k)"
    and "\<exists>b. k_timers (timer_fired c ready i k) =
      (k_timers k)[unat i := (timer_advance (k_timers k ! unat i))\<lparr>tm_overflow := b\<rparr>]"
    and "pending_of (timer_fired c ready i k) t =
      (if t = tm_task_id (k_timers k ! unat i) then pending_of k t OR tm_signal_set (k_timers k ! unat i)
       else pending_of k t)"
    and "unat t < tasks_length c \<Longrightarrow> runnable (k_sched (timer_fired c ready i k)) t \<longleftrightarrow>
      t = tm_task_id (k_timers k ! unat i) \<or> runnable (k_sched k) t"
    and "k_current_task (timer_fired c ready i k) = k_current_task k"
    and "k_timer_current_ticks (timer_fired c ready i k) = k_timer_current_ticks k"
    and "k_timer_pending_ticks (timer_fired c ready i k) = k_timer_pending_ticks k"
    and "timer_frame_eq k (timer_fired c ready i k)"
proof -
  let ?tm = "k_timers k ! unat i"
  have t: "unat (tm_task_id ?tm) < tasks_length c"
    using assms by (simp add: timers_ok_def timer_kernel_inv_def)
  have s: "inv (k_sched k)" "unat (tm_task_id ?tm) < ntasks (k_sched k)" "ntasks (k_sched k) = tasks_length c"
    using assms t by (simp_all add: kernel_inv_def timer_kernel_inv_def)
  have len: "unat (tm_task_id ?tm) < length (k_signal_tasks k)"
    using assms t by (simp add: signals_ok_def timer_kernel_inv_def)
  have ok: "tm_error_id tm = ERROR_ID_NONE \<longrightarrow> unat (tm_task_id tm) < tasks_length c"
    if "tm \<in> set (k_timers (timer_fired c ready i k))" for tm
    using that assms(1) t set_update_subset_insert [of "k_timers k" "unat i"]
    by (fastforce simp: timers_ok_def timer_kernel_inv_def timer_fired_def Let_def)
  then have "timers_ok c (timer_fired c ready i k)"
    using assms(1) by (simp add: timers_ok_def timer_kernel_inv_def) (simp add: timer_fired_def Let_def)
  moreover have "kernel_inv c inv ntasks (timer_fired c ready i k)"
    using assms(1) inv_ready [OF s(1,2)] ntasks_ready [OF s(1,2)]
    by (simp add: kernel_inv_def timer_kernel_inv_def timer_fired_def Let_def current_ok_def)
  ultimately show "timer_kernel_inv c inv ntasks (timer_fired c ready i k)"
    using assms(1) by (simp add: timer_kernel_inv_def timer_fired_def Let_def preempt_ok_def)
  show "\<exists>b. k_timers (timer_fired c ready i k) =
      (k_timers k)[unat i := (timer_advance ?tm)\<lparr>tm_overflow := b\<rparr>]"
    by (simp add: timer_fired_def Let_def) blast
  show "pending_of (timer_fired c ready i k) t =
      (if t = tm_task_id ?tm then pending_of k t OR tm_signal_set ?tm else pending_of k t)"
    using len by (simp add: timer_fired_def Let_def pending_of_set)
  show "runnable (k_sched (timer_fired c ready i k)) t \<longleftrightarrow>
      t = tm_task_id ?tm \<or> runnable (k_sched k) t" if "unat t < tasks_length c"
    using that s runnable_ready [OF s(1,2)] by (simp add: timer_fired_def Let_def)
qed (simp_all add: timer_fired_def Let_def timer_frame_eq_def pend_def set_pending_def)

text \<open>The loop over the timer table, after its first \<open>m\<close> iterations.\<close>

lemma timer_loop:
  assumes inv: "timer_kernel_inv c inv ntasks k"
    and no_error: "\<forall>tm \<in> set (take m (k_timers k)). timer_expired tm now \<longrightarrow> tm_error_id tm = ERROR_ID_NONE"
  shows "m \<le> length (k_timers k) \<Longrightarrow>
    \<exists>k'. kseq (map (timer_visit c unblock now) (ids m)) k = Inr ((), k') \<and>
      timer_kernel_inv c inv ntasks k' \<and> length (k_timers k') = length (k_timers k) \<and>
      (\<forall>i < m. timer_same (k_timers k' ! i) (timer_step now (k_timers k ! i))) \<and>
      (\<forall>i < length (k_timers k). m \<le> i \<longrightarrow> k_timers k' ! i = k_timers k ! i) \<and>
      (\<forall>t. pending_of k' t = pending_of k t OR timer_signals now t (take m (k_timers k))) \<and>
      (\<forall>t. unat t < tasks_length c \<longrightarrow> runnable (k_sched k') t =
         (runnable (k_sched k) t \<or> (\<exists>tm \<in> set (take m (k_timers k)). timer_expired tm now \<and> tm_task_id tm = t))) \<and>
      k_current_task k' = k_current_task k \<and> k_timer_current_ticks k' = k_timer_current_ticks k \<and>
      k_timer_pending_ticks k' = k_timer_pending_ticks k \<and> timer_frame_eq k k'"
  using no_error
proof (induction m)
  case 0
  then show ?case using inv by (simp add: ids_def kreturn_def timer_frame_eq_def)
next
  case (Suc m)
  have m: "m < length (k_timers k)" "m \<le> length (k_timers k)" using Suc.prems by simp_all
  have bound: "length (k_timers k) \<le> 255" using inv by (simp add: timer_kernel_inv_def timers_ok_def)
  let ?tm = "k_timers k ! m"
  have take: "take (Suc m) (k_timers k) = take m (k_timers k) @ [?tm]"
    using m by (simp add: take_Suc_conv_app_nth)
  obtain k' where k': "kseq (map (timer_visit c unblock now) (ids m)) k = Inr ((), k')"
    "timer_kernel_inv c inv ntasks k'" "length (k_timers k') = length (k_timers k)"
    "\<forall>i < m. timer_same (k_timers k' ! i) (timer_step now (k_timers k ! i))"
    "\<forall>i < length (k_timers k). m \<le> i \<longrightarrow> k_timers k' ! i = k_timers k ! i"
    "\<forall>t. pending_of k' t = pending_of k t OR timer_signals now t (take m (k_timers k))"
    "\<forall>t. unat t < tasks_length c \<longrightarrow> runnable (k_sched k') t =
       (runnable (k_sched k) t \<or> (\<exists>tm \<in> set (take m (k_timers k)). timer_expired tm now \<and> tm_task_id tm = t))"
    "k_current_task k' = k_current_task k" "k_timer_current_ticks k' = k_timer_current_ticks k"
    "k_timer_pending_ticks k' = k_timer_pending_ticks k" "timer_frame_eq k k'"
    using Suc.IH [OF m(2)] Suc.prems(2) by (auto simp: take)
  have u: "unat (of_nat m :: u8) = m" using m bound by (simp add: u8_unat_of_nat)
  have tm: "k_timers k' ! unat (of_nat m :: u8) = ?tm" using k'(5) m by (simp add: u)
  have len: "unat (of_nat m :: u8) < length (k_timers k')" using m k'(3) by (simp add: u)
  have split: "kseq (map (timer_visit c unblock now) (ids (Suc m))) k =
      kbind (timer_visit c unblock now (of_nat m)) kreturn k'"
    using k'(1) by (simp add: ids_def kseq_append kbind_def fun_eq_iff)
  show ?case
  proof (cases "timer_expired ?tm now")
    case False
    then have "timer_visit c unblock now (of_nat m) k' = Inr ((), k')"
      using len tm by (simp add: timer_visit_def kbind_def array_read_def kwhen_def kreturn_def)
    then have run: "kseq (map (timer_visit c unblock now) (ids (Suc m))) k = Inr ((), k')"
      using split by (simp add: kbind_def kreturn_def)
    have "timer_same (k_timers k' ! m) (timer_step now ?tm)"
      using False k'(5) m by (simp add: timer_step_def timer_same_def)
    then show ?thesis
      using False run k' by (auto simp: take timer_signals_append less_Suc_eq)
  next
    case True
    then have err: "tm_error_id ?tm = ERROR_ID_NONE" using Suc.prems(2) by (simp add: take)
    let ?k = "timer_fired c ready (of_nat m) k'"
    have "timer_visit c unblock now (of_nat m) k' = Inr ((), ?k)"
      using True len tm err k'(2) timer_process_one_eq [of k' "of_nat m"]
      by (simp add: timer_visit_def kbind_def array_read_def kwhen_def timer_kernel_inv_def)
    then have run: "kseq (map (timer_visit c unblock now) (ids (Suc m))) k = Inr ((), ?k)"
      using split by (simp add: kbind_def kreturn_def)
    note facts = timer_fired_facts [OF k'(2) len, unfolded tm, OF err]
    obtain b where b: "k_timers ?k = (k_timers k')[m := (timer_advance ?tm)\<lparr>tm_overflow := b\<rparr>]"
      using facts(2) by (auto simp: u)
    have same: "timer_same (k_timers ?k ! i) (timer_step now (k_timers k ! i))" if "i < Suc m" for i
      using that k'(3,4) m True
      by (cases "i = m") (auto simp: b timer_same_def timer_step_def nth_list_update)
    have rest: "k_timers ?k ! i = k_timers k ! i" if "i < length (k_timers k)" "Suc m \<le> i" for i
      using that k'(5) by (simp add: b)
    have pending: "pending_of ?k t = pending_of k t OR timer_signals now t (take (Suc m) (k_timers k))" for t
      using facts(3) [of t] k'(6) True by (simp add: take timer_signals_append or.assoc)
    have run_iff: "runnable (k_sched ?k) t =
       (runnable (k_sched k) t \<or> (\<exists>tm \<in> set (take (Suc m) (k_timers k)). timer_expired tm now \<and> tm_task_id tm = t))"
      if "unat t < tasks_length c" for t
      using facts(4) [OF that] k'(7) that True by (auto simp: take)
    have "timer_frame_eq k ?k" using timer_frame_eq_trans [OF k'(11) facts(8)] .
    then show ?thesis
      using run facts(1,5-7) same rest pending run_iff k'(3,8-10)
      by (intro exI [of _ ?k]) (simp add: b)
  qed
qed

lemma timer_loop_fatal:
  assumes inv: "timer_kernel_inv c inv ntasks k"
    and m: "m < length (k_timers k)"
    and err: "timer_expired (k_timers k ! m) now" "tm_error_id (k_timers k ! m) \<noteq> ERROR_ID_NONE"
    and first: "\<forall>tm \<in> set (take m (k_timers k)). timer_expired tm now \<longrightarrow> tm_error_id tm = ERROR_ID_NONE"
  shows "kseq (map (timer_visit c unblock now) (ids (length (k_timers k)))) k =
    Inl (Fatal (tm_error_id (k_timers k ! m)))"
proof -
  let ?n = "length (k_timers k)"
  have bound: "?n \<le> 255" using inv by (simp add: timer_kernel_inv_def timers_ok_def)
  obtain k' where k': "kseq (map (timer_visit c unblock now) (ids m)) k = Inr ((), k')"
    "timer_kernel_inv c inv ntasks k'" "length (k_timers k') = ?n"
    "\<forall>i < ?n. m \<le> i \<longrightarrow> k_timers k' ! i = k_timers k ! i"
    using timer_loop [OF inv first less_imp_le [OF m]] by blast
  have u: "unat (of_nat m :: u8) = m" using m bound by (simp add: u8_unat_of_nat)
  have "ids ?n = ids m @ of_nat m # map of_nat [Suc m..<?n]"
    using m upt_add_eq_append [of 0 m "?n - m"] by (simp add: ids_def upt_conv_Cons)
  moreover have "timer_visit c unblock now (of_nat m) k' = Inl (Fatal (tm_error_id (k_timers k ! m)))"
    using k' m err u timer_process_one_eq [of k' "of_nat m"]
    by (simp add: timer_visit_def kbind_def array_read_def kwhen_def timer_kernel_inv_def)
  ultimately show ?thesis
    using k'(1) by (simp add: kseq_append kbind_def)
qed

lemma timer_tick_none:
  assumes "timer_kernel_inv c inv ntasks k" and "k_timer_pending_ticks k = 0"
  shows "timer_tick_process c unblock k = Inr ((), k)"
proof -
  have "k\<lparr>k_timer_pending_ticks := 0\<rparr> = k" using assms(2) by simp
  then show ?thesis
    using assms
    by (simp add: timer_tick_process_def timer_pending_ticks_get_and_clear_atomically_def
        armv7m_timer_pending_ticks_get_and_clear_atomically_def kbind_def kwhen_def kreturn_def
        timer_kernel_inv_def)
qed

lemma timer_tick_overflow:
  assumes "timer_kernel_inv c inv ntasks k" and "k_timer_pending_ticks k > 1"
  shows "timer_tick_process c unblock k = Inl (Fatal ERROR_ID_TICK_OVERFLOW)"
  using assms
  by (simp add: timer_tick_process_def timer_pending_ticks_get_and_clear_atomically_def
      armv7m_timer_pending_ticks_get_and_clear_atomically_def kbind_def kwhen_def timer_kernel_inv_def)

lemma timer_tick_one:
  assumes inv: "timer_kernel_inv c inv ntasks k" and one: "k_timer_pending_ticks k = 1"
  shows "timer_tick_process c unblock k =
    kbind (kseq (map (timer_visit c unblock (ucast (k_timer_current_ticks k + 1)))
                   (ids (length (k_timers k)))))
      (\<lambda>_. postcondition_preemption_disabled c)
      (k\<lparr>k_timer_pending_ticks := 0, k_timer_current_ticks := k_timer_current_ticks k + 1\<rparr>)"
proof -
  let ?n = "length (k_timers k)"
  have bound: "?n \<le> 255" using inv by (simp add: timer_kernel_inv_def timers_ok_def)
  show ?thesis
  proof (cases "k_timers k = []")
    case True
    then show ?thesis
      using inv one
      by (simp add: timer_tick_process_def timer_pending_ticks_get_and_clear_atomically_def
          armv7m_timer_pending_ticks_get_and_clear_atomically_def kbind_def kwhen_def kreturn_def
          kgets_def kmodify_def timer_kernel_inv_def ids_def)
  next
    case False
    have max: "Suc (unat (TIMER_ID_MAX k)) = ?n" "TIMER_ID_MAX k \<noteq> 255"
      using max_index_unat [of ?n] bound False by (simp_all add: TIMER_ID_MAX_def)
    have "TIMER_ID_MAX (k\<lparr>k_timer_pending_ticks := 0, k_timer_current_ticks := k_timer_current_ticks k + 1\<rparr>)
        = TIMER_ID_MAX k"
      by (simp add: TIMER_ID_MAX_def)
    then show ?thesis
      using inv one False
      by (simp add: for_each_upto_kseq [OF max(2)] max(1) timer_tick_process_def timer_pending_ticks_get_and_clear_atomically_def
          armv7m_timer_pending_ticks_get_and_clear_atomically_def kbind_def kwhen_def kreturn_def
          kgets_def kmodify_def timer_kernel_inv_def current_timeout_def)
  qed
qed

text \<open>
  One tick, when no expired timer is a watchdog: every expired timer is processed once, its task gets
  its signals and becomes runnable, and nothing else changes.
\<close>

lemma timer_tick_process_eq:
  assumes inv: "timer_kernel_inv c inv ntasks k" and one: "k_timer_pending_ticks k = 1"
    and now: "now = ucast (k_timer_current_ticks k + 1)"
    and no_error: "\<forall>tm \<in> set (k_timers k). timer_expired tm now \<longrightarrow> tm_error_id tm = ERROR_ID_NONE"
  shows "\<exists>k'. timer_tick_process c unblock k = Inr ((), k') \<and> timer_kernel_inv c inv ntasks k' \<and>
    k_timer_pending_ticks k' = 0 \<and> k_timer_current_ticks k' = k_timer_current_ticks k + 1 \<and>
    k_current_task k' = k_current_task k \<and> timer_frame_eq k k' \<and>
    list_all2 timer_same (k_timers k') (map (timer_step now) (k_timers k)) \<and>
    (\<forall>t. pending_of k' t = pending_of k t OR timer_signals now t (k_timers k)) \<and>
    (\<forall>t. unat t < tasks_length c \<longrightarrow> runnable (k_sched k') t =
       (runnable (k_sched k) t \<or> (\<exists>tm \<in> set (k_timers k). timer_expired tm now \<and> tm_task_id tm = t)))"
proof -
  let ?k = "k\<lparr>k_timer_pending_ticks := 0, k_timer_current_ticks := k_timer_current_ticks k + 1\<rparr>"
  have "timer_kernel_inv c inv ntasks ?k"
    using inv by (simp add: timer_kernel_inv_def timers_ok_def)
  then obtain k' where k': "kseq (map (timer_visit c unblock now) (ids (length (k_timers k)))) ?k = Inr ((), k')"
    "timer_kernel_inv c inv ntasks k'" "length (k_timers k') = length (k_timers k)"
    "\<forall>i < length (k_timers k). timer_same (k_timers k' ! i) (timer_step now (k_timers k ! i))"
    "\<forall>t. pending_of k' t = pending_of k t OR timer_signals now t (k_timers k)"
    "\<forall>t. unat t < tasks_length c \<longrightarrow> runnable (k_sched k') t =
       (runnable (k_sched k) t \<or> (\<exists>tm \<in> set (k_timers k). timer_expired tm now \<and> tm_task_id tm = t))"
    "k_current_task k' = k_current_task k" "k_timer_current_ticks k' = k_timer_current_ticks k + 1"
    "k_timer_pending_ticks k' = 0" "timer_frame_eq ?k k'"
    using timer_loop [of ?k "length (k_timers k)" now] no_error by auto
  have "timer_tick_process c unblock k = Inr ((), k')"
    using timer_tick_one [OF inv one] k'(1,2) by (simp add: kbind_def timer_kernel_inv_def flip: now)
  moreover have "list_all2 timer_same (k_timers k') (map (timer_step now) (k_timers k))"
    using k'(3,4) by (simp add: list_all2_conv_all_nth)
  moreover have "timer_frame_eq k k'" using k'(10) by (simp add: timer_frame_eq_def)
  ultimately show ?thesis using k' by blast
qed

text \<open>A watchdog timer that expires ends the run with its error; the first one in the table decides.\<close>

lemma timer_tick_process_watchdog:
  assumes inv: "timer_kernel_inv c inv ntasks k" and one: "k_timer_pending_ticks k = 1"
    and now: "now = ucast (k_timer_current_ticks k + 1)"
    and m: "m < length (k_timers k)"
    and err: "timer_expired (k_timers k ! m) now" "tm_error_id (k_timers k ! m) \<noteq> ERROR_ID_NONE"
    and first: "\<forall>tm \<in> set (take m (k_timers k)). timer_expired tm now \<longrightarrow> tm_error_id tm = ERROR_ID_NONE"
  shows "timer_tick_process c unblock k = Inl (Fatal (tm_error_id (k_timers k ! m)))"
proof -
  let ?k = "k\<lparr>k_timer_pending_ticks := 0, k_timer_current_ticks := k_timer_current_ticks k + 1\<rparr>"
  have "timer_kernel_inv c inv ntasks ?k"
    using inv by (simp add: timer_kernel_inv_def timers_ok_def)
  then show ?thesis
    using timer_tick_one [OF inv one] timer_loop_fatal [of ?k m now] m err first
    by (simp add: kbind_def flip: now)
qed

subsection \<open>Enabling timers\<close>

lemma timer_enable_eq:
  assumes "timer_kernel_inv c inv ntasks k" and "unat i < length (k_timers k)"
    and "tm_reload (k_timers k ! unat i) \<noteq> 0"
  shows "timer_enable c unblock i k =
    Inr ((), k\<lparr>k_timers := (k_timers k)[unat i := (k_timers k ! unat i)
      \<lparr>tm_expiry := current_timeout k + tm_reload (k_timers k ! unat i), tm_enabled := True\<rparr>]\<rparr>)"
  using assms
  by (simp add: timer_enable_def kbind_def array_read_def kgets_def timer_kernel_inv_def)

text \<open>With a reload value of 0 the timer is processed at once.\<close>

lemma timer_enable_zero:
  assumes "timer_kernel_inv c inv ntasks k" and "unat i < length (k_timers k)"
    and "tm_reload (k_timers k ! unat i) = 0"
  shows "timer_enable c unblock i k =
    (if tm_error_id (k_timers k ! unat i) \<noteq> ERROR_ID_NONE
     then Inl (Fatal (tm_error_id (k_timers k ! unat i)))
     else Inr ((), timer_fired c ready i k))"
proof -
  have "tm_error_id (k_timers k ! unat i) = ERROR_ID_NONE \<Longrightarrow> preempt_ok c (timer_fired c ready i k)"
    using timer_fired_facts(1) [OF assms(1,2)] by (simp add: timer_kernel_inv_def)
  then show ?thesis
    using assms timer_process_one_eq [of k i]
    by (simp add: timer_enable_def kbind_def array_read_def timer_kernel_inv_def)
qed

lemma timer_kernel_inv_update:
  assumes "timer_kernel_inv c inv ntasks k" and "unat i < length (k_timers k)"
    and "tm_error_id (f (k_timers k ! unat i)) = tm_error_id (k_timers k ! unat i)"
    and "tm_task_id (f (k_timers k ! unat i)) = tm_task_id (k_timers k ! unat i)"
  shows "timer_kernel_inv c inv ntasks (k\<lparr>k_timers := (k_timers k)[unat i := f (k_timers k ! unat i)]\<rparr>)"
  using assms set_update_subset_insert [of "k_timers k" "unat i" "f (k_timers k ! unat i)"]
  by (auto simp: timer_kernel_inv_def timers_ok_def)

text \<open>A one-shot timer is armed for \<open>timeout\<close> ticks and left without a reload value.\<close>

lemma timer_oneshot_eq:
  assumes inv: "timer_kernel_inv c inv ntasks k" and i: "unat i < length (k_timers k)" and "timeout \<noteq> 0"
  shows "timer_oneshot c unblock i timeout k =
    Inr ((), k\<lparr>k_timers := (k_timers k)[unat i := (k_timers k ! unat i)
      \<lparr>tm_expiry := current_timeout k + timeout, tm_enabled := True, tm_reload := 0\<rparr>]\<rparr>)"
proof -
  let ?tm = "k_timers k ! unat i"
  let ?k1 = "k\<lparr>k_timers := (k_timers k)[unat i := ?tm\<lparr>tm_reload := timeout\<rparr>]\<rparr>"
  have "timer_kernel_inv c inv ntasks ?k1"
    using timer_kernel_inv_update [OF inv i, of "\<lambda>tm. tm\<lparr>tm_reload := timeout\<rparr>"] by simp
  then have "timer_enable c unblock i ?k1 =
    Inr ((), ?k1\<lparr>k_timers := (k_timers ?k1)[unat i := (k_timers ?k1 ! unat i)
      \<lparr>tm_expiry := current_timeout ?k1 + tm_reload (k_timers ?k1 ! unat i), tm_enabled := True\<rparr>]\<rparr>)"
    using i assms(3) by (intro timer_enable_eq) simp_all
  then show ?thesis
    using i inv
    by (simp add: timer_oneshot_def timer_reload_set_def kbind_def kreturn_def timer_kernel_inv_def
        current_timeout_def)
qed

lemma rtos_timer_remaining_eq:
  assumes "preempt_ok c (enter c k)"
  shows "rtos_timer_remaining c i k =
    (if unat i < length (k_timers k)
     then Inr (if tm_enabled (k_timers k ! unat i)
               then tm_expiry (k_timers k ! unat i) - current_timeout k else 0, leave c k)
     else if api_asserts c then Inl (Fatal ERROR_ID_INVALID_ID) else Inl Out_Of_Bounds)"
  by (simp add: rtos_timer_remaining_def assert_timer_valid_def kbind_def kgets_def array_read_def
      kreturn_def current_timeout_def)

subsection \<open>Sequences of ticks\<close>

lemma timer_ticks_run:
  assumes "timer_kernel_inv c inv ntasks k" and "k_timer_pending_ticks k = 0"
    and "\<forall>tm \<in> set (k_timers k). tm_error_id tm = ERROR_ID_NONE"
  shows "\<exists>k'. timer_ticks c unblock n k = Inr ((), k') \<and> timer_kernel_inv c inv ntasks k' \<and>
    k_timer_pending_ticks k' = 0 \<and> k_timer_current_ticks k' = k_timer_current_ticks k + of_nat n \<and>
    k_current_task k' = k_current_task k \<and>
    list_all2 timer_same (k_timers k') (map (timer_run (current_timeout k) n) (k_timers k)) \<and>
    (\<forall>t. pending_of k' t = pending_of k t OR timers_sent (current_timeout k) n t (k_timers k)) \<and>
    (\<forall>t. unat t < tasks_length c \<longrightarrow> runnable (k_sched k') t = (runnable (k_sched k) t \<or> timers_woken (current_timeout k) n t (k_timers k)))"
proof (induction n)
  case 0
  have "list_all2 timer_same (k_timers k) (k_timers k)" by (simp add: list_all2_refl)
  then show ?case using assms by (simp add: kreturn_def list.map_id0 [unfolded id_def])
next
  case (Suc n)
  let ?now = "current_timeout k"
  obtain k' where k': "timer_ticks c unblock n k = Inr ((), k')" "timer_kernel_inv c inv ntasks k'"
    "k_timer_pending_ticks k' = 0" "k_timer_current_ticks k' = k_timer_current_ticks k + of_nat n"
    "k_current_task k' = k_current_task k"
    "list_all2 timer_same (k_timers k') (map (timer_run ?now n) (k_timers k))"
    "\<forall>t. pending_of k' t = pending_of k t OR timers_sent ?now n t (k_timers k)"
    "\<forall>t. unat t < tasks_length c \<longrightarrow> runnable (k_sched k') t = (runnable (k_sched k) t \<or> timers_woken ?now n t (k_timers k))"
    using Suc.IH by blast
  let ?k1 = "k'\<lparr>k_timer_pending_ticks := 1\<rparr>"
  let ?t1 = "?now + of_nat (Suc n)"
  have now: "ucast (k_timer_current_ticks ?k1 + 1) = ?t1"
    using k'(4) by (simp add: current_timeout_def u16_of_u32_add u16_of_u32_nat)
  have errs: "\<forall>tm \<in> set (k_timers k'). tm_error_id tm = ERROR_ID_NONE"
    using timer_error_same [OF k'(6)] assms(3) by simp
  have inv1: "timer_kernel_inv c inv ntasks ?k1"
    using k'(2) by (simp add: timer_kernel_inv_def timers_ok_def)
  obtain k2 where k2: "timer_tick_process c unblock ?k1 = Inr ((), k2)" "timer_kernel_inv c inv ntasks k2"
    "k_timer_pending_ticks k2 = 0" "k_timer_current_ticks k2 = k_timer_current_ticks k' + 1"
    "k_current_task k2 = k_current_task k'"
    "list_all2 timer_same (k_timers k2) (map (timer_step ?t1) (k_timers k'))"
    "\<forall>t. pending_of k2 t = pending_of k' t OR timer_signals ?t1 t (k_timers k')"
    "\<forall>t. unat t < tasks_length c \<longrightarrow> runnable (k_sched k2) t =
       (runnable (k_sched k') t \<or> (\<exists>tm \<in> set (k_timers k'). timer_expired tm ?t1 \<and> tm_task_id tm = t))"
    using timer_tick_process_eq [OF inv1 _ now [symmetric]] errs by auto
  have "rtos_timer_tick k' = Inr ((), ?k1)"
    using k'(3) by (simp add: rtos_timer_tick_def kmodify_def armv7m_timer_tick_def)
  then have run: "timer_ticks c unblock (Suc n) k = Inr ((), k2)"
    using k'(1) k2(1) by (simp add: kbind_def kreturn_def)
  have same: "list_all2 timer_same (k_timers k2) (map (timer_run ?now (Suc n)) (k_timers k))"
  proof -
    have "(\<lambda>y. timer_step ?t1 (timer_run ?now n y)) = timer_run ?now (Suc n)"
      by (simp add: fun_eq_iff del: of_nat_Suc)
    with timer_same_map_step [OF k2(6) k'(6)] show ?thesis by (simp only:)
  qed
  have sigs: "timer_signals ?t1 t (k_timers k') = timer_signals ?t1 t (map (timer_run ?now n) (k_timers k))" for t
    by (rule timer_signals_same [OF k'(6)])
  have exp: "(\<exists>tm \<in> set (k_timers k'). timer_expired tm ?t1 \<and> tm_task_id tm = t) \<longleftrightarrow>
      (\<exists>tm \<in> set (k_timers k). tm_task_id tm = t \<and> timer_expired (timer_run ?now n tm) ?t1)" for t
    using timer_expired_same [OF k'(6), of ?t1 t] by auto
  have ticks: "k_timer_current_ticks k2 = k_timer_current_ticks k + of_nat (Suc n)"
    using k2(4) k'(4) by simp
  have pend: "\<forall>t. pending_of k2 t = pending_of k t OR timers_sent ?now (Suc n) t (k_timers k)"
    using k2(7) k'(7) by (simp add: sigs or.assoc del: of_nat_Suc)
  have wake: "\<forall>t. unat t < tasks_length c \<longrightarrow> runnable (k_sched k2) t =
       (runnable (k_sched k) t \<or> timers_woken ?now (Suc n) t (k_timers k))"
    using k2(8) k'(8) by (simp add: exp del: of_nat_Suc)
  have "k_current_task k2 = k_current_task k" using k2(5) k'(5) by simp
  then show ?case using run k2(2,3) ticks same pend wake by blast
qed

subsection \<open>Sleeping\<close>

text \<open>
  A task that sleeps for \<open>d\<close> ticks is blocked, and its wait can end after \<open>d\<close> ticks and not before,
  provided that nothing else sends it the task-timer signal.
\<close>

lemma rtos_sleep_begin:
  assumes inv: "timer_kernel_inv c inv ntasks (enter c k)" and "d \<noteq> 0"
    and i: "unat (k_current_task k) < length (k_task_timers k)"
      "unat (k_task_timers k ! unat (k_current_task k)) < length (k_timers k)"
    and clear: "pending_of k (k_current_task k) AND SIGNAL_ID__TASK_TIMER c = 0"
    and block_on: "block_on TASK_ID_NONE = block_task"
  shows "rtos_sleep c unblock block_on d k =
    Inr (Sig_Blocked (k_current_task k) (SIGNAL_ID__TASK_TIMER c) TASK_ID_NONE,
      (enter c k)\<lparr>k_timers := (k_timers k)[unat (k_task_timers k ! unat (k_current_task k)) :=
            (k_timers k ! unat (k_task_timers k ! unat (k_current_task k)))
              \<lparr>tm_expiry := current_timeout k + d, tm_enabled := True, tm_reload := 0\<rparr>],
          k_sched := block (k_current_task k) (k_sched k)\<rparr>)"
proof -
  let ?i = "k_task_timers k ! unat (k_current_task k)"
  let ?k1 = "(enter c k)\<lparr>k_timers := (k_timers k)[unat ?i := (k_timers k ! unat ?i)
      \<lparr>tm_expiry := current_timeout k + d, tm_enabled := True, tm_reload := 0\<rparr>]\<rparr>"
  have shot: "timer_oneshot c unblock ?i d (enter c k) = Inr ((), ?k1)"
    using timer_oneshot_eq [OF inv, of ?i d] i assms(2) by (simp add: current_timeout_def)
  have "block_on TASK_ID_NONE ?k1 = Inr ((), ?k1\<lparr>k_sched := block (k_current_task k) (k_sched k)\<rparr>)"
    using block_task [of ?k1] inv by (simp add: block_on timer_kernel_inv_def)
  then have "signal_wait_set_blocked_on c block_on (SIGNAL_ID__TASK_TIMER c) TASK_ID_NONE ?k1 =
      Inr (Sig_Blocked (k_current_task k) (SIGNAL_ID__TASK_TIMER c) TASK_ID_NONE,
           ?k1\<lparr>k_sched := block (k_current_task k) (k_sched k)\<rparr>)"
    using signal_wait_blocks [of c ?k1] inv clear
    by (simp add: timer_kernel_inv_def kernel_inv_def)
  then show ?thesis
    using shot i inv
    by (simp add: rtos_sleep_def kbind_def array_read_def kreturn_def
        timer_kernel_inv_def kernel_inv_def)
qed

lemma timer_oneshot_wakes:
  assumes inv: "timer_kernel_inv c inv ntasks k" and "k_timer_pending_ticks k = 0"
    and "\<forall>tm \<in> set (k_timers k). tm_error_id tm = ERROR_ID_NONE"
    and sole: "sole_source (k_timers k) i t sigs" and "sigs \<noteq> 0"
    and armed: "tm_enabled (k_timers k ! i)" "tm_reload (k_timers k ! i) = 0" "d \<noteq> 0"
      "tm_expiry (k_timers k ! i) = current_timeout k + d"
    and clear: "pending_of k t AND sigs = 0" and t: "unat t < tasks_length c"
  shows "\<exists>k'. timer_ticks c unblock n k = Inr ((), k') \<and> timer_kernel_inv c inv ntasks k' \<and>
    (pending_of k' t AND sigs \<noteq> 0 \<longleftrightarrow> unat d \<le> n) \<and> (unat d \<le> n \<longrightarrow> runnable (k_sched k') t)"
proof -
  obtain k' where k': "timer_ticks c unblock n k = Inr ((), k')" "timer_kernel_inv c inv ntasks k'"
    "\<forall>t. pending_of k' t = pending_of k t OR timers_sent (current_timeout k) n t (k_timers k)"
    "\<forall>t. unat t < tasks_length c \<longrightarrow> runnable (k_sched k') t =
       (runnable (k_sched k) t \<or> timers_woken (current_timeout k) n t (k_timers k))"
    using timer_ticks_run [OF assms(1-3), of n] by blast
  have "pending_of k' t AND sigs = timers_sent (current_timeout k) n t (k_timers k) AND sigs"
    using k'(3) clear by (simp add: bit.conj_disj_distrib2)
  then have pend: "pending_of k' t AND sigs \<noteq> 0 \<longleftrightarrow> unat d \<le> n"
    using timers_sent_oneshot [OF sole armed, of n] \<open>sigs \<noteq> 0\<close> by simp
  have "timers_woken (current_timeout k) n t (k_timers k)" if "unat d \<le> n"
    using that
  proof (induction n)
    case 0
    then show ?case using armed(3) by (simp add: unat_eq_0)
  next
    case (Suc n)
    then consider "unat d \<le> n" | "Suc n = unat d" by linarith
    then show ?case
    proof cases
      case 2
      then have "timer_expired (timer_run (current_timeout k) n (k_timers k ! i)) (current_timeout k + of_nat (Suc n))"
        unfolding conjunct2 [OF timer_oneshot_run [OF armed, of n]] .
      moreover have "k_timers k ! i \<in> set (k_timers k)" "tm_task_id (k_timers k ! i) = t"
        using sole by (simp_all add: sole_source_def)
      ultimately show ?thesis by (auto simp del: of_nat_Suc)
    qed (use Suc in simp)
  qed
  then show ?thesis using k' pend t by blast
qed

end

end
