(* ===== verification/Event_Signals.thy ===== *)
theory Event_Signals
  imports Timers
begin

text \<open>
  The interrupt-event-signal component: an interrupt event that is processed sends a configured set
  of signals to a configured task.
\<close>

section \<open>Model\<close>

record interrupt_event_handler =
  ie_task :: u8
  ie_sig_set :: u8

record 's event_kernel = "'s timer_kernel" +
  k_interrupt_events :: "interrupt_event_handler list"

definition interrupt_event_handle ::
  "config \<Rightarrow> (u8 \<Rightarrow> (('s, 'z) event_kernel_scheme, unit) kop) \<Rightarrow> u8 \<Rightarrow>
     (('s, 'z) event_kernel_scheme, unit) kop"
where
  "interrupt_event_handle c unblock interrupt_event_id =
     kbind (precondition_preemption_disabled c) (\<lambda>_.
     kbind (kgets (\<lambda>k. length (k_interrupt_events k))) (\<lambda>interrupt_events_length.
     kbind (internal_assert c (unat interrupt_event_id < interrupt_events_length)
              ERROR_ID_INTERNAL_INVALID_ID) (\<lambda>_.
     kbind (array_read k_interrupt_events interrupt_event_id) (\<lambda>handler.
     kbind (if preemption_support c
            then signal_send_set c unblock (ie_task handler) (ie_sig_set handler)
            else rtos_signal_send_set c unblock (ie_task handler) (ie_sig_set handler)) (\<lambda>_.
     postcondition_preemption_disabled c)))))"

definition rtos_interrupt_event_task_set ::
  "config \<Rightarrow> u8 \<Rightarrow> u8 \<Rightarrow> (('s, 'z) event_kernel_scheme, unit) kop"
where
  "rtos_interrupt_event_task_set c interrupt_event_id task_id =
     kbind (kgets (\<lambda>k. length (k_interrupt_events k))) (\<lambda>interrupt_events_length.
     kseq [api_assert c (unat interrupt_event_id < interrupt_events_length) ERROR_ID_INVALID_ID,
           api_assert c (unat task_id < tasks_length c) ERROR_ID_INVALID_ID,
           array_modify k_interrupt_events k_interrupt_events_update interrupt_event_id
             (\<lambda>h. h\<lparr>ie_task := task_id\<rparr>)])"

section \<open>Correctness\<close>

definition handlers_ok :: "config \<Rightarrow> nat \<Rightarrow> ('s, 'z) event_kernel_scheme \<Rightarrow> bool" where
  "handlers_ok c n k \<longleftrightarrow> length (k_interrupt_events k) = n \<and>
     (\<forall>h \<in> set (k_interrupt_events k). unat (ie_task h) < tasks_length c)"

definition event_kernel_inv ::
  "config \<Rightarrow> ('s \<Rightarrow> bool) \<Rightarrow> ('s \<Rightarrow> nat) \<Rightarrow> nat \<Rightarrow> ('s, 'z) event_kernel_scheme \<Rightarrow> bool"
where
  "event_kernel_inv c sinv ntasks n k \<longleftrightarrow> timer_kernel_inv c sinv ntasks k \<and> handlers_ok c n k"

text \<open>Handling an event is sending its signals.\<close>

definition event_effect ::
  "config \<Rightarrow> (u8 \<Rightarrow> 's \<Rightarrow> 's) \<Rightarrow> u8 \<Rightarrow> ('s, 'z) event_kernel_scheme \<Rightarrow> ('s, 'z) event_kernel_scheme"
where
  "event_effect c ready e k =
     (let h = k_interrupt_events k ! unat e; t = ie_task h
      in pend c ((set_pending t (pending_of k t OR ie_sig_set h) k)\<lparr>k_sched := ready t (k_sched k)\<rparr>))"

lemma handlers_frame [simp]:
  "k_interrupt_events (enter c k) = k_interrupt_events k"
  "k_interrupt_events (leave c k) = k_interrupt_events k"
  "k_interrupt_events (pend c k) = k_interrupt_events k"
  "k_interrupt_events (set_pending t p k) = k_interrupt_events k"
  by (simp_all add: enter_def leave_def pend_def set_pending_def)

lemma leave_cooperative: "\<not> preemption_support c \<Longrightarrow> leave c k = k"
  by (cases k) (simp add: leave_def)

lemma event_handlers_more:
  "timer_kernel.more k' = timer_kernel.more k \<Longrightarrow> k_interrupt_events k' = k_interrupt_events k"
  for k k' :: "('s, 'z) event_kernel_scheme"
  by (cases k; cases k') simp

lemma armv7m_pending_bound:
  "bit (armv7m_pending isr n is p) b \<Longrightarrow> bit p b \<or> (\<exists>m. bit (isr m) b)"
proof (induction "is" arbitrary: n p)
  case (Cons i "is")
  then have "bit (((p OR isr n) AND NOT (event_bit i)) OR isr (n + 1)) b \<or> (\<exists>m. bit (isr m) b)"
    using Cons.IH [of "n + 2"] by simp
  then show ?case by (auto simp: bit_or_iff bit_and_iff)
qed simp

locale event_control = timer_control set_runnable set_blocked get_next ready block inv ntasks runnable
    c unblock block_task
  for set_runnable set_blocked get_next ready block
    and inv :: "'s \<Rightarrow> bool" and ntasks runnable and c :: config
    and unblock :: "u8 \<Rightarrow> (('s, 'z) event_kernel_scheme, unit) kop"
    and block_task +
  fixes nevents :: nat
begin

lemma interrupt_event_handle_eq:
  assumes "event_kernel_inv c inv ntasks nevents k" and "unat e < nevents"
  shows "interrupt_event_handle c unblock e k = Inr ((), event_effect c ready e k)"
proof -
  let ?h = "k_interrupt_events k ! unat e"
  have k: "kernel_inv c inv ntasks k" "preempt_ok c k" "signals_ok c k" "timers_ok c k"
    using assms by (simp_all add: event_kernel_inv_def timer_kernel_inv_def)
  have e: "unat e < length (k_interrupt_events k)" using assms by (simp add: event_kernel_inv_def handlers_ok_def)
  then have "?h \<in> set (k_interrupt_events k)" by simp
  then have t: "unat (ie_task ?h) < tasks_length c"
    using assms(1) by (auto simp: event_kernel_inv_def handlers_ok_def)
  have ok: "preempt_ok c (event_effect c ready e k)"
    using k(2) by (simp add: event_effect_def Let_def preempt_ok_def)
  have "(if preemption_support c then signal_send_set c unblock (ie_task ?h) (ie_sig_set ?h)
         else rtos_signal_send_set c unblock (ie_task ?h) (ie_sig_set ?h)) k =
        Inr ((), event_effect c ready e k)"
    using t k signal_send_set_eq [OF k(1-3) t] rtos_signal_send_set_cases [OF k(1,3)]
    by (simp add: event_effect_def Let_def leave_cooperative)
  then show ?thesis
    using e k(2) ok
    by (simp add: interrupt_event_handle_def kbind_def kgets_def array_read_def)
qed

lemma event_effect_inv:
  assumes "event_kernel_inv c inv ntasks nevents k" and "unat e < nevents"
  shows "event_kernel_inv c inv ntasks nevents (event_effect c ready e k)"
proof -
  let ?h = "k_interrupt_events k ! unat e"
  have "unat e < length (k_interrupt_events k)" using assms by (simp add: event_kernel_inv_def handlers_ok_def)
  then have "?h \<in> set (k_interrupt_events k)" by simp
  then have t: "unat (ie_task ?h) < tasks_length c"
    using assms(1) by (auto simp: event_kernel_inv_def handlers_ok_def)
  have s: "inv (k_sched k)" "unat (ie_task ?h) < ntasks (k_sched k)"
    using assms(1) t by (simp_all add: event_kernel_inv_def timer_kernel_inv_def kernel_inv_def)
  show ?thesis
    using assms(1) inv_ready [OF s] ntasks_ready [OF s]
    by (simp add: event_kernel_inv_def timer_kernel_inv_def kernel_inv_def current_ok_def preempt_ok_def
        signals_ok_def timers_ok_def handlers_ok_def event_effect_def Let_def)
qed

sublocale events: event_handler "interrupt_event_handle c unblock" "event_effect c ready"
  "event_kernel_inv c inv ntasks nevents" nevents
proof
  fix k :: "('s, 'z) event_kernel_scheme" and v
  show "event_kernel_inv c inv ntasks nevents (k\<lparr>k_interrupt_event := v\<rparr>) =
      event_kernel_inv c inv ntasks nevents k"
    by (simp add: event_kernel_inv_def timer_kernel_inv_def timers_ok_def handlers_ok_def)
next
  fix e and k :: "('s, 'z) event_kernel_scheme" and v
  show "event_effect c ready e (k\<lparr>k_interrupt_event := v\<rparr>) = (event_effect c ready e k)\<lparr>k_interrupt_event := v\<rparr>"
    by (simp add: event_effect_def Let_def pend_def set_pending_def)
qed (rule interrupt_event_handle_eq event_effect_inv; assumption)+


text \<open>
  The state in which the scheduling loop runs without a fatal error: the invariants hold, only events
  of the configuration are pending, no tick was missed, and no timer is a watchdog.
\<close>

definition system_ok :: "('s, 'z) event_kernel_scheme \<Rightarrow> bool" where
  "system_ok k \<longleftrightarrow> event_kernel_inv c inv ntasks nevents k \<and> nevents \<le> 32 \<and>
     (\<forall>i. bit (k_interrupt_event k) i \<longrightarrow> i < nevents) \<and> k_timer_pending_ticks k \<le> 1 \<and>
     (\<forall>tm \<in> set (k_timers k). tm_error_id tm = ERROR_ID_NONE)"

lemma system_ok_kernel_inv: "system_ok k \<Longrightarrow> kernel_inv c inv ntasks k"
  by (simp add: system_ok_def event_kernel_inv_def timer_kernel_inv_def)

lemma system_ok_idle: "system_ok k \<Longrightarrow> system_ok (k\<lparr>k_system_is_idle := b\<rparr>)"
  by (simp add: system_ok_def event_kernel_inv_def timer_kernel_inv_def timers_ok_def handlers_ok_def)

lemma system_ok_sched:
  "system_ok k \<Longrightarrow> inv s \<Longrightarrow> ntasks s = ntasks (k_sched k) \<Longrightarrow> system_ok (k\<lparr>k_sched := s\<rparr>)"
  by (simp add: system_ok_def event_kernel_inv_def timer_kernel_inv_def timers_ok_def handlers_ok_def
      kernel_inv_def current_ok_def preempt_ok_def signals_ok_def)

lemma event_effect_frame:
  "k_timers (event_effect c ready e k) = k_timers k"
  "k_timer_pending_ticks (event_effect c ready e k) = k_timer_pending_ticks k"
  "k_current_task (event_effect c ready e k) = k_current_task k"
  by (simp_all add: event_effect_def Let_def)

lemma handled_ok:
  "event_kernel_inv c inv ntasks nevents k \<Longrightarrow> \<forall>i \<in> set is. i < nevents \<Longrightarrow> nevents \<le> 32 \<Longrightarrow>
     event_kernel_inv c inv ntasks nevents (events.handled is k) \<and> k_timers (events.handled is k) = k_timers k \<and>
     k_timer_pending_ticks (events.handled is k) = k_timer_pending_ticks k \<and>
     k_current_task (events.handled is k) = k_current_task k"
proof (induction "is" arbitrary: k)
  case (Cons i "is")
  have "unat (of_nat i :: u8) < nevents" using Cons.prems(2,3) by (simp add: u8_unat_of_nat)
  from event_effect_inv [OF Cons.prems(1) this] show ?case
    using Cons.IH [of "event_effect c ready (of_nat i) k"] Cons.prems by (simp add: event_effect_frame)
qed simp

text \<open>Processing on ARMv7-M, with interrupt handlers that raise events of the configuration meanwhile.\<close>

lemma system_ok_process:
  assumes ok: "system_ok k" and isr: "\<forall>m i. bit (isr m) i \<longrightarrow> i < nevents"
  shows "\<exists>k'. armv7m_interrupt_event_process (interrupt_event_handle c unblock) isr k = Inr ((), k') \<and>
    system_ok k' \<and> k_current_task k' = k_current_task k"
proof -
  let ?is = "events_in (k_interrupt_event k)"
  let ?p = "armv7m_pending isr 0 ?is (k_interrupt_event k)"
  let ?k' = "(events.handled ?is k)\<lparr>k_interrupt_event := ?p\<rparr>"
  have inv: "event_kernel_inv c inv ntasks nevents k" "nevents \<le> 32" "\<forall>i. bit (k_interrupt_event k) i \<longrightarrow> i < nevents"
    using ok by (simp_all add: system_ok_def)
  have h: "event_kernel_inv c inv ntasks nevents (events.handled ?is k)" "k_timers (events.handled ?is k) = k_timers k"
     "k_timer_pending_ticks (events.handled ?is k) = k_timer_pending_ticks k"
     "k_current_task (events.handled ?is k) = k_current_task k"
    using handled_ok [OF inv(1) _ inv(2), of ?is] inv(3) by (simp_all add: set_events_in)
  have "bit ?p i \<longrightarrow> i < nevents" for i
    using armv7m_pending_bound [of isr 0 ?is "k_interrupt_event k" i] inv(3) isr by blast
  then have "system_ok ?k'"
    using h ok by (simp add: system_ok_def events.ok_events)
  moreover have "armv7m_interrupt_event_process (interrupt_event_handle c unblock) isr k = Inr ((), ?k')"
    using inv by (intro events.armv7m_process_eq) simp_all
  ultimately show ?thesis using h(4) by (intro exI [of _ ?k']) simp
qed

lemma system_ok_tick:
  assumes ok: "system_ok k"
  shows "\<exists>k'. timer_tick_process c unblock k = Inr ((), k') \<and> system_ok k' \<and> k_current_task k' = k_current_task k"
proof (cases "k_timer_pending_ticks k = 0")
  case True
  then show ?thesis
    using ok timer_tick_none [of k] by (simp add: system_ok_def event_kernel_inv_def)
next
  case False
  then have "unat (k_timer_pending_ticks k) = 1"
    using ok by (simp add: system_ok_def word_le_nat_alt unat_eq_0 [symmetric] le_Suc_eq)
  then have one: "k_timer_pending_ticks k = 1" by (simp add: word_unat_eq_iff)
  have inv: "timer_kernel_inv c inv ntasks k" using ok by (simp add: system_ok_def event_kernel_inv_def)
  have err: "\<forall>tm \<in> set (k_timers k). timer_expired tm (ucast (k_timer_current_ticks k + 1)) \<longrightarrow> tm_error_id tm = ERROR_ID_NONE"
    using ok by (simp add: system_ok_def)
  obtain k' where k': "timer_tick_process c unblock k = Inr ((), k')" "timer_kernel_inv c inv ntasks k'"
    "k_timer_pending_ticks k' = 0" "k_current_task k' = k_current_task k" "timer_frame_eq k k'"
    "list_all2 timer_same (k_timers k') (map (timer_step (ucast (k_timer_current_ticks k + 1))) (k_timers k))"
    using timer_tick_process_eq [OF inv one refl err] by (elim exE conjE) (rule that; assumption)
  have "k_interrupt_events k' = k_interrupt_events k" "k_interrupt_event k' = k_interrupt_event k"
    using k'(5) by (auto simp: timer_frame_eq_def intro: event_handlers_more)
  moreover have "\<forall>tm \<in> set (k_timers k'). tm_error_id tm = ERROR_ID_NONE"
    using timer_error_same [OF k'(6)] ok by (simp add: system_ok_def)
  ultimately have "system_ok k'"
    using ok k' by (simp add: system_ok_def event_kernel_inv_def handlers_ok_def)
  then show ?thesis using k' by blast
qed

end

text \<open>Tasks stay runnable while events and ticks are processed.\<close>

definition keeps_runnable :: "config \<Rightarrow> ('s \<Rightarrow> u8 \<Rightarrow> bool) \<Rightarrow> ('s, 'z) kernel_scheme \<Rightarrow> ('s, 'z) kernel_scheme \<Rightarrow> bool" where
  "keeps_runnable c runnable k k' \<longleftrightarrow>
     (\<forall>t. unat t < tasks_length c \<longrightarrow> runnable (k_sched k) t \<longrightarrow> runnable (k_sched k') t)"

text \<open>The signals of an event have reached their task, which is runnable.\<close>

definition delivered ::
  "('s \<Rightarrow> u8 \<Rightarrow> bool) \<Rightarrow> interrupt_event_handler \<Rightarrow> ('s, 'z) signal_kernel_scheme \<Rightarrow> bool"
where
  "delivered runnable h k \<longleftrightarrow>
     pending_of k (ie_task h) AND ie_sig_set h = ie_sig_set h \<and> runnable (k_sched k) (ie_task h)"

context event_control
begin

lemma effect_delivers:
  assumes inv: "event_kernel_inv c inv ntasks nevents k" and e: "unat e < nevents"
  shows "delivered runnable (k_interrupt_events k ! unat e) (event_effect c ready e k)"
    and "h \<in> set (k_interrupt_events k) \<Longrightarrow> delivered runnable h k \<Longrightarrow> delivered runnable h (event_effect c ready e k)"
    and "k_interrupt_events (event_effect c ready e k) = k_interrupt_events k"
proof -
  let ?h = "k_interrupt_events k ! unat e"
  have ids: "unat (ie_task h) < length (k_signal_tasks k)" "unat (ie_task h) < ntasks (k_sched k)" if "h \<in> set (k_interrupt_events k)" for h
    using inv that by (auto simp: event_kernel_inv_def handlers_ok_def timer_kernel_inv_def signals_ok_def kernel_inv_def)
  have s: "inv (k_sched k)" using inv by (simp add: event_kernel_inv_def timer_kernel_inv_def kernel_inv_def)
  have "unat e < length (k_interrupt_events k)" using inv e by (simp add: event_kernel_inv_def handlers_ok_def)
  then have h: "?h \<in> set (k_interrupt_events k)" by simp
  show "delivered runnable ?h (event_effect c ready e k)"
    using ids [OF h] runnable_ready [OF s ids(2) [OF h] ids(2) [OF h]]
    by (simp add: delivered_def event_effect_def Let_def pending_of_set word_ao_absorbs)
  show "k_interrupt_events (event_effect c ready e k) = k_interrupt_events k"
    by (simp add: event_effect_def Let_def)
  assume "h \<in> set (k_interrupt_events k)" and d: "delivered runnable h k"
  then show "delivered runnable h (event_effect c ready e k)"
    using ids [OF h] ids [of h] d runnable_ready [OF s ids(2) [OF h], of "ie_task h"]
    by (auto simp: delivered_def event_effect_def Let_def pending_of_set word_ao_dist)
qed

lemma handled_delivers:
  "event_kernel_inv c inv ntasks nevents k \<Longrightarrow> \<forall>i \<in> set is. i < nevents \<Longrightarrow> nevents \<le> 32 \<Longrightarrow>
     (\<forall>i \<in> set is. delivered runnable (k_interrupt_events k ! i) (events.handled is k)) \<and>
     (\<forall>h \<in> set (k_interrupt_events k). delivered runnable h k \<longrightarrow> delivered runnable h (events.handled is k))"
proof (induction "is" arbitrary: k)
  case (Cons i "is")
  let ?k = "event_effect c ready (of_nat i) k"
  have u: "unat (of_nat i :: u8) = i" "unat (of_nat i :: u8) < nevents" using Cons.prems(2,3) by (simp_all add: u8_unat_of_nat)
  have "i < length (k_interrupt_events k)" using Cons.prems by (simp add: event_kernel_inv_def handlers_ok_def)
  then show ?case
    using Cons.IH [OF event_effect_inv [OF Cons.prems(1) u(2)]] Cons.prems(2,3) effect_delivers [OF Cons.prems(1) u(2)] u(1)
    by auto
qed simp

lemma handled_keeps_runnable:
  "event_kernel_inv c inv ntasks nevents k \<Longrightarrow> \<forall>i \<in> set is. i < nevents \<Longrightarrow> nevents \<le> 32 \<Longrightarrow>
     keeps_runnable c runnable k (events.handled is k)"
proof (induction "is" arbitrary: k)
  case (Cons i "is")
  let ?h = "k_interrupt_events k ! i"
  have u: "unat (of_nat i :: u8) = i" using Cons.prems(2,3) by (simp add: u8_unat_of_nat)
  have "i < length (k_interrupt_events k)"
    using Cons.prems by (simp add: event_kernel_inv_def handlers_ok_def)
  then have "?h \<in> set (k_interrupt_events k)" by simp
  then have "unat (ie_task ?h) < tasks_length c"
    using Cons.prems(1) by (auto simp: event_kernel_inv_def handlers_ok_def)
  moreover have "inv (k_sched k)" "ntasks (k_sched k) = tasks_length c"
    using Cons.prems(1) by (simp_all add: event_kernel_inv_def timer_kernel_inv_def kernel_inv_def)
  ultimately have "keeps_runnable c runnable k (event_effect c ready (of_nat i) k)"
    using u by (simp add: keeps_runnable_def event_effect_def Let_def runnable_ready)
  moreover have "event_kernel_inv c inv ntasks nevents (event_effect c ready (of_nat i) k)"
    using event_effect_inv [OF Cons.prems(1), of "of_nat i"] Cons.prems(2) u by simp
  ultimately show ?case
    using Cons.IH [of "event_effect c ready (of_nat i) k"] Cons.prems(2,3) by (simp add: keeps_runnable_def)
qed (simp add: keeps_runnable_def)

lemma tick_keeps_runnable:
  assumes ok: "system_ok k" and run: "timer_tick_process c unblock k = Inr ((), k')"
  shows "keeps_runnable c runnable k k'" and "k_timer_pending_ticks k' = 0"
    and "k_interrupt_event k' = k_interrupt_event k"
proof -
  have inv: "timer_kernel_inv c inv ntasks k" using ok by (simp add: system_ok_def event_kernel_inv_def)
  have "keeps_runnable c runnable k k' \<and> k_timer_pending_ticks k' = 0 \<and> k_interrupt_event k' = k_interrupt_event k"
  proof (cases "k_timer_pending_ticks k = 0")
    case True
    then show ?thesis using run timer_tick_none [OF inv] by (simp add: keeps_runnable_def)
  next
    case False
    then have "unat (k_timer_pending_ticks k) = 1"
      using ok by (simp add: system_ok_def word_le_nat_alt unat_eq_0 [symmetric] le_Suc_eq)
    then have one: "k_timer_pending_ticks k = 1" by (simp add: word_unat_eq_iff)
    have err: "\<forall>tm \<in> set (k_timers k). timer_expired tm (ucast (k_timer_current_ticks k + 1)) \<longrightarrow> tm_error_id tm = ERROR_ID_NONE"
      using ok by (simp add: system_ok_def)
    show ?thesis
      using timer_tick_process_eq [OF inv one refl err] run by (auto simp: keeps_runnable_def timer_frame_eq_def)
  qed
  then show "keeps_runnable c runnable k k'" "k_timer_pending_ticks k' = 0"
    "k_interrupt_event k' = k_interrupt_event k" by simp_all
qed

end

text \<open>
  What event and tick processing may do to the tasks: send signals to some, which wakes them. A task that is
  still blocked afterwards was blocked before and has received no signals.
\<close>

definition wakes_only ::
  "config \<Rightarrow> ('s \<Rightarrow> u8 \<Rightarrow> bool) \<Rightarrow> ('s, 'z) event_kernel_scheme \<Rightarrow> ('s, 'z) event_kernel_scheme \<Rightarrow> bool"
where
  "wakes_only c runnable k k' \<longleftrightarrow> k_current_task k' = k_current_task k \<and> k_task_timers k' = k_task_timers k \<and>
     length (k_timers k') = length (k_timers k) \<and> event_kernel.more k' = event_kernel.more k \<and>
     (\<forall>t. unat t < tasks_length c \<longrightarrow>
        (runnable (k_sched k') t \<or> \<not> runnable (k_sched k) t \<and> pending_of k' t = pending_of k t) \<and>
        pending_of k t AND pending_of k' t = pending_of k t)"

lemma wakes_only_refl [simp]: "wakes_only c runnable k k"
  by (simp add: wakes_only_def)

lemma and_absorb_trans: "a AND b = a \<Longrightarrow> b AND d = b \<Longrightarrow> a AND d = a" for a b d :: "'a::len word"
  by (metis and.assoc)

lemma wakes_only_trans: "wakes_only c runnable k k1 \<Longrightarrow> wakes_only c runnable k1 k2 \<Longrightarrow> wakes_only c runnable k k2"
  unfolding wakes_only_def by (intro conjI allI impI; (simp; fail | metis and_absorb_trans))

lemma wakes_only_update [simp]:
  "wakes_only c runnable k (k'\<lparr>k_interrupt_event := e\<rparr>) = wakes_only c runnable k k'"
  "wakes_only c runnable k (k'\<lparr>k_system_is_idle := b\<rparr>) = wakes_only c runnable k k'"
  "wakes_only c runnable k (k'\<lparr>k_timer_pending_ticks := n\<rparr>) = wakes_only c runnable k k'"
  by (cases k', simp add: wakes_only_def pending_of_def)+

lemma wakes_only_pending [simp]:
  "wakes_only c runnable k (k'\<lparr>k_preempt_pending := b\<rparr>) = wakes_only c runnable k k'"
  "wakes_only c runnable (k\<lparr>k_preempt_pending := b\<rparr>) k' = wakes_only c runnable k k'"
  by (cases k', cases k, simp add: wakes_only_def pending_of_def)+

lemma event_kernel_more_tail:
  "timer_kernel.more k' = timer_kernel.more k \<Longrightarrow> event_kernel.more k' = event_kernel.more k"
  for k k' :: "('s, 'z) event_kernel_scheme"
  by (cases k; cases k') simp

context event_control
begin

lemma effect_wakes_only:
  assumes inv: "event_kernel_inv c inv ntasks nevents k" and e: "unat e < nevents"
  shows "wakes_only c runnable k (event_effect c ready e k)"
proof -
  let ?h = "k_interrupt_events k ! unat e"
  have "unat e < length (k_interrupt_events k)" using inv e by (simp add: event_kernel_inv_def handlers_ok_def)
  then have "?h \<in> set (k_interrupt_events k)" by simp
  then have ids: "unat (ie_task ?h) < length (k_signal_tasks k)" "unat (ie_task ?h) < ntasks (k_sched k)" "ntasks (k_sched k) = tasks_length c"
    using inv by (auto simp: event_kernel_inv_def handlers_ok_def timer_kernel_inv_def signals_ok_def kernel_inv_def)
  have s: "inv (k_sched k)" using inv by (simp add: event_kernel_inv_def timer_kernel_inv_def kernel_inv_def)
  have "event_kernel.more (event_effect c ready e k) = event_kernel.more k"
    by (cases k) (simp add: event_effect_def Let_def pend_def set_pending_def)
  then show ?thesis
    using ids s runnable_ready [OF s ids(2)]
    by (simp add: wakes_only_def event_effect_def Let_def pending_of_set word_ao_absorbs)
qed

lemma handled_wakes_only:
  "event_kernel_inv c inv ntasks nevents k \<Longrightarrow> \<forall>i \<in> set is. i < nevents \<Longrightarrow> nevents \<le> 32 \<Longrightarrow>
     wakes_only c runnable k (events.handled is k)"
proof (induction "is" arbitrary: k)
  case (Cons i "is")
  have u: "unat (of_nat i :: u8) < nevents" using Cons.prems(2,3) by (simp add: u8_unat_of_nat)
  show ?case
    using wakes_only_trans [OF effect_wakes_only [OF Cons.prems(1) u]] Cons.IH [OF event_effect_inv [OF Cons.prems(1) u]] Cons.prems
    by simp
qed simp

lemma process_wakes_only:
  assumes ok: "system_ok k" and isr: "\<forall>m i. bit (isr m) i \<longrightarrow> i < nevents"
  shows "\<exists>k'. armv7m_interrupt_event_process (interrupt_event_handle c unblock) isr k = Inr ((), k') \<and>
    system_ok k' \<and> wakes_only c runnable k k'"
proof -
  let ?is = "events_in (k_interrupt_event k)"
  have inv: "event_kernel_inv c inv ntasks nevents k" "nevents \<le> 32" "\<forall>i. bit (k_interrupt_event k) i \<longrightarrow> i < nevents"
    using ok by (simp_all add: system_ok_def)
  obtain k' where k': "armv7m_interrupt_event_process (interrupt_event_handle c unblock) isr k = Inr ((), k')" "system_ok k'"
    using system_ok_process [OF ok isr] by blast
  have "k' = (events.handled ?is k)\<lparr>k_interrupt_event := armv7m_pending isr 0 ?is (k_interrupt_event k)\<rparr>"
    using events.armv7m_process_eq [OF inv(1)] inv(2,3) k'(1) by simp
  then have "wakes_only c runnable k k'"
    using handled_wakes_only [OF inv(1) _ inv(2), of ?is] inv(3) by (simp add: set_events_in)
  then show ?thesis using k' by blast
qed

lemma tick_wakes_only:
  assumes ok: "system_ok k"
  shows "\<exists>k'. timer_tick_process c unblock k = Inr ((), k') \<and> system_ok k' \<and> k_timer_pending_ticks k' = 0 \<and>
    wakes_only c runnable k k'"
proof (cases "k_timer_pending_ticks k = 0")
  case True
  then show ?thesis
    using ok timer_tick_none [of k] by (simp add: system_ok_def event_kernel_inv_def)
next
  case False
  then have "unat (k_timer_pending_ticks k) = 1"
    using ok by (simp add: system_ok_def word_le_nat_alt unat_eq_0 [symmetric] le_Suc_eq)
  then have one: "k_timer_pending_ticks k = 1" by (simp add: word_unat_eq_iff)
  have inv: "timer_kernel_inv c inv ntasks k" using ok by (simp add: system_ok_def event_kernel_inv_def)
  let ?now = "ucast (k_timer_current_ticks k + 1) :: u16"
  have err: "\<forall>tm \<in> set (k_timers k). timer_expired tm ?now \<longrightarrow> tm_error_id tm = ERROR_ID_NONE"
    using ok by (simp add: system_ok_def)
  obtain k1 where k1: "timer_tick_process c unblock k = Inr ((), k1)" "system_ok k1"
    using system_ok_tick [OF ok] by blast
  obtain k' where k': "timer_tick_process c unblock k = Inr ((), k')" "k_timer_pending_ticks k' = 0" "timer_frame_eq k k'"
    "list_all2 timer_same (k_timers k') (map (timer_step ?now) (k_timers k))"
    "\<forall>t. pending_of k' t = pending_of k t OR timer_signals ?now t (k_timers k)"
    "\<forall>t. unat t < tasks_length c \<longrightarrow> runnable (k_sched k') t =
       (runnable (k_sched k) t \<or> (\<exists>tm \<in> set (k_timers k). timer_expired tm ?now \<and> tm_task_id tm = t))"
    using timer_tick_process_eq [OF inv one refl err] by (elim exE conjE) (rule that; assumption)
  have none: "timer_signals now t tms = 0" if "\<not> (\<exists>tm \<in> set tms. timer_expired tm now \<and> tm_task_id tm = t)" for now t tms
    using that by (induction tms) auto
  have "length (k_timers k') = length (k_timers k)" using k'(4) by (simp add: list_all2_lengthD)
  then have "wakes_only c runnable k k'"
    using k'(3,5,6) none event_kernel_more_tail [of k' k] by (auto simp: wakes_only_def timer_frame_eq_def word_ao_absorbs)
  then show ?thesis using k1 k' by auto
qed

end

text \<open>With a scheduler that reports idleness, the scheduling loop picks a runnable task or stays idle.\<close>

locale idle_event_control = event_control set_runnable set_blocked get_next ready block inv ntasks runnable
    c unblock block_task nevents +
  idle_scheduler set_runnable set_blocked get_next ready block inv ntasks runnable
  for set_runnable set_blocked get_next ready block
    and inv :: "'s \<Rightarrow> bool" and ntasks runnable and c :: config
    and unblock :: "u8 \<Rightarrow> (('s, 'z) event_kernel_scheme, unit) kop"
    and block_task nevents
begin

text \<open>
  In the scheduling loop nothing happens to the tasks but that some are woken, if the waits only raise
  events of the configuration and at most one tick each.
\<close>

lemma get_next_wakes_only:
  fixes k :: "('s, 'z) event_kernel_scheme"
  assumes ok: "system_ok k" and isr: "\<forall>m i. bit (isr m) i \<longrightarrow> i < nevents"
    and waits: "\<forall>w \<in> set waits. \<forall>k. k_timer_pending_ticks k = 0 \<longrightarrow> (\<exists>e n.
      w k = Inr ((), k\<lparr>k_interrupt_event := k_interrupt_event k OR e, k_timer_pending_ticks := n\<rparr>) \<and>
      (\<forall>i. bit e i \<longrightarrow> i < nevents) \<and> n \<le> 1)"
  shows "\<exists>r k'. interrupt_event_get_next c (armv7m_interrupt_event_process (interrupt_event_handle c unblock) isr)
      (timer_tick_process c unblock) (on_sched get_next) waits k = Inr (r, k') \<and> system_ok k' \<and> wakes_only c runnable k k' \<and>
    (case r of
      Some u \<Rightarrow> unat u < tasks_length c \<and> runnable (k_sched k') u \<and> \<not> k_system_is_idle k' \<and>
        (\<exists>s. inv s \<and> get_next s = Inr (u, k_sched k'))
    | None \<Rightarrow> (\<forall>t. unat t < tasks_length c \<longrightarrow> \<not> runnable (k_sched k') t) \<and> k_system_is_idle k')"
proof -
  let ?pre = "\<lambda>k'. system_ok k' \<and> wakes_only c runnable k k'"
  let ?ok = "\<lambda>k'. ?pre k' \<and> k_timer_pending_ticks k' = 0"
  have "\<exists>r k'. interrupt_event_get_next c (armv7m_interrupt_event_process (interrupt_event_handle c unblock) isr)
      (timer_tick_process c unblock) (on_sched get_next) waits k = Inr (r, k') \<and> ?ok k' \<and>
    (case r of
      Some u \<Rightarrow> unat u < tasks_length c \<and> runnable (k_sched k') u \<and> \<not> k_system_is_idle k' \<and>
        (\<exists>s. inv s \<and> get_next s = Inr (u, k_sched k'))
    | None \<Rightarrow> (\<forall>t. unat t < tasks_length c \<longrightarrow> \<not> runnable (k_sched k') t) \<and> k_system_is_idle k')"
  proof (rule event_loop [where pre = ?pre and mid = ?pre and ok = ?ok])
    fix k1 assume "?pre k1"
    then show "\<exists>k'. armv7m_interrupt_event_process (interrupt_event_handle c unblock) isr k1 = Inr ((), k') \<and> ?pre k'"
      using process_wakes_only [OF _ isr, of k1] wakes_only_trans by blast
    show "\<exists>k'. timer_tick_process c unblock k1 = Inr ((), k') \<and> ?ok k'"
      using tick_wakes_only [of k1] wakes_only_trans \<open>?pre k1\<close> by blast
  next
    fix w k1 assume w: "w \<in> set waits" and k1: "?ok k1"
    then obtain e n where "w k1 = Inr ((), k1\<lparr>k_interrupt_event := k_interrupt_event k1 OR e, k_timer_pending_ticks := n\<rparr>)"
      "\<forall>i. bit e i \<longrightarrow> i < nevents" "n \<le> 1"
      using waits by blast
    moreover from this k1 have "system_ok (k1\<lparr>k_interrupt_event := k_interrupt_event k1 OR e, k_timer_pending_ticks := n\<rparr>)"
      by (auto simp: system_ok_def event_kernel_inv_def timer_kernel_inv_def timers_ok_def handlers_ok_def bit_or_iff)
    ultimately show "\<exists>k'. w k1 = Inr ((), k') \<and> ?pre k'" using k1 by simp
  next
    fix k1 s assume "?ok k1" "inv s" "ntasks s = ntasks (k_sched k1)" "runnable s = runnable (k_sched k1)"
    then show "?ok (k1\<lparr>k_sched := s\<rparr>)" by (simp add: system_ok_sched) (simp add: wakes_only_def)
  qed (simp_all add: ok system_ok_kernel_inv system_ok_idle)
  then show ?thesis by blast
qed

lemma system_get_next:
  assumes ok: "system_ok k" and isr: "\<forall>m i. bit (isr m) i \<longrightarrow> i < nevents"
    and waits: "\<forall>w \<in> set waits. \<forall>k. system_ok k \<longrightarrow> (\<exists>k'. w k = Inr ((), k') \<and> system_ok k')"
  shows "\<exists>r k'. interrupt_event_get_next c (armv7m_interrupt_event_process (interrupt_event_handle c unblock) isr)
      (timer_tick_process c unblock) (on_sched get_next) waits k = Inr (r, k') \<and> system_ok k' \<and>
    (case r of
      Some u \<Rightarrow> unat u < tasks_length c \<and> runnable (k_sched k') u \<and> \<not> k_system_is_idle k' \<and>
        (\<exists>s. inv s \<and> get_next s = Inr (u, k_sched k'))
    | None \<Rightarrow> (\<forall>t. unat t < tasks_length c \<longrightarrow> \<not> runnable (k_sched k') t) \<and> k_system_is_idle k')"
proof (rule event_loop [where pre = system_ok and mid = system_ok and ok = system_ok])
  fix k assume "system_ok k"
  then show "\<exists>k'. armv7m_interrupt_event_process (interrupt_event_handle c unblock) isr k = Inr ((), k') \<and> system_ok k'"
    using system_ok_process [OF _ isr] by blast
  show "\<exists>k'. timer_tick_process c unblock k = Inr ((), k') \<and> system_ok k'"
    using system_ok_tick [OF \<open>system_ok k\<close>] by blast
next
  fix w k assume "w \<in> set waits" and "system_ok k"
  then show "\<exists>k'. w k = Inr ((), k') \<and> system_ok k'" using waits by simp
qed (simp_all add: ok system_ok_kernel_inv system_ok_idle system_ok_sched)

end

end
