(* ===== verification/Waiters.thy ===== *)
theory Waiters
  imports Timers
begin

text \<open>
  Mutexes, semaphores and message queues keep a table with one entry per task, which names the
  object the task waits for. They wake the waiters of an object by the same loop over this table.
  This theory describes the loop once, for any such table and any way of waking that sends one
  fixed set of signals.
\<close>

definition wake_waiter ::
  "('k \<Rightarrow> u8 list) \<Rightarrow> ((u8 list \<Rightarrow> u8 list) \<Rightarrow> 'k \<Rightarrow> 'k) \<Rightarrow> (u8 \<Rightarrow> ('k, unit) kop) \<Rightarrow> u8 \<Rightarrow> u8 \<Rightarrow> u8 \<Rightarrow>
     ('k, unit) kop"
where
  "wake_waiter fld upd wake none x t =
     kbind (array_read fld t) (\<lambda>w.
     kwhen (w = x) (kseq [array_modify fld upd t (\<lambda>_. none), wake t]))"

text \<open>
  Waking tasks only makes tasks runnable in the scheduler's state; if any, preemption is pending then.
\<close>

definition readied ::
  "config \<Rightarrow> (u8 \<Rightarrow> 's \<Rightarrow> 's) \<Rightarrow> ('s, 'z) signal_kernel_scheme \<Rightarrow> ('s, 'z) signal_kernel_scheme \<Rightarrow> bool"
where
  "readied c ready k k' \<longleftrightarrow> (\<exists>ts. k_sched k' = fold ready ts (k_sched k) \<and>
     (if ts = [] then k_preempt_pending k' = k_preempt_pending k else preemption_support c \<longrightarrow> k_preempt_pending k'))"

lemma readied_refl [simp]: "readied c ready k k"
  unfolding readied_def by (rule exI [of _ "[]"]) simp

lemma readied_sent: "readied c ready k k' \<Longrightarrow> readied c ready k (signal_sent c ready t sigs k')"
proof -
  assume "readied c ready k k'"
  then obtain ts where "k_sched k' = fold ready ts (k_sched k)" by (auto simp: readied_def)
  then show ?thesis unfolding readied_def by (intro exI [of _ "ts @ [t]"]) (simp add: signal_sent_def pend_def)
qed

lemma readied_frame:
  "k_sched k1 = k_sched k \<Longrightarrow> k_preempt_pending k1 = k_preempt_pending k \<Longrightarrow> k_sched k2 = k_sched k' \<Longrightarrow>
     k_preempt_pending k2 = k_preempt_pending k' \<Longrightarrow> readied c ready k1 k2 = readied c ready k k'"
  by (simp add: readied_def)

locale waiter_table = signal_control set_runnable set_blocked get_next ready block inv ntasks runnable
    c unblock block_task
  for set_runnable set_blocked get_next ready block
    and inv :: "'s \<Rightarrow> bool" and ntasks runnable and c :: config
    and unblock :: "u8 \<Rightarrow> (('s, 'z) signal_kernel_scheme, unit) kop"
    and block_task +
  fixes fld :: "('s, 'z) signal_kernel_scheme \<Rightarrow> u8 list"
    and upd :: "(u8 list \<Rightarrow> u8 list) \<Rightarrow> ('s, 'z) signal_kernel_scheme \<Rightarrow> ('s, 'z) signal_kernel_scheme"
    and wake :: "u8 \<Rightarrow> (('s, 'z) signal_kernel_scheme, unit) kop"
    and none :: u8
    and signals :: u8
  assumes fld_upd: "fld (upd f k) = f (fld k)"
    and fld_sent: "fld (signal_sent c ready t sigs k) = fld k"
    and upd_current: "k_current_task (upd f k) = k_current_task k"
    and upd_sched: "k_sched (upd f k) = k_sched k"
    and upd_signals: "k_signal_tasks (upd f k) = k_signal_tasks k"
    and upd_disabled: "k_preempt_disabled (upd f k) = k_preempt_disabled k"
    and wake: "kernel_inv c inv ntasks k \<Longrightarrow> preempt_ok c k \<Longrightarrow> signals_ok c k \<Longrightarrow> unat t < tasks_length c \<Longrightarrow>
      wake t k = Inr ((), signal_sent c ready t signals k)"
begin

definition waiters_ok :: "('s, 'z) signal_kernel_scheme \<Rightarrow> bool" where
  "waiters_ok k \<longleftrightarrow> kernel_inv c inv ntasks k \<and> preempt_ok c k \<and> signals_ok c k \<and>
     length (fld k) = tasks_length c"

lemma waiters_ok_upd: "waiters_ok k \<Longrightarrow> length (f (fld k)) = length (fld k) \<Longrightarrow> waiters_ok (upd f k)"
  by (simp add: waiters_ok_def kernel_inv_def preempt_ok_def current_ok_def signals_ok_def
      fld_upd upd_current upd_sched upd_signals upd_disabled)

lemma waiters_ok_sent: "waiters_ok k \<Longrightarrow> unat t < tasks_length c \<Longrightarrow> waiters_ok (signal_sent c ready t sigs k)"
  by (simp add: waiters_ok_def signal_sent_inv fld_sent)

lemma wake_waiter_ok:
  assumes "waiters_ok k" and "unat t < tasks_length c" and "wake_waiter fld upd wake none x t k = Inr ((), k')"
  shows "waiters_ok k'"
proof (cases "fld k ! unat t = x")
  case True
  let ?k1 = "upd (\<lambda>xs. xs[unat t := none]) k"
  have ok1: "waiters_ok ?k1" by (rule waiters_ok_upd [OF assms(1)]) simp
  then have "wake t ?k1 = Inr ((), signal_sent c ready t signals ?k1)"
    using assms(2) by (intro wake) (simp_all add: waiters_ok_def)
  then have "k' = signal_sent c ready t signals ?k1"
    using True assms
    by (simp add: wake_waiter_def kbind_def array_read_def array_modify_def kwhen_def kreturn_def waiters_ok_def)
  then show ?thesis using waiters_ok_sent [OF ok1 assms(2)] by simp
next
  case False
  then show ?thesis
    using assms by (simp add: wake_waiter_def kbind_def array_read_def kwhen_def kreturn_def waiters_ok_def)
qed

lemma pending_of_upd: "pending_of (upd f k) = pending_of k"
  by (simp add: pending_of_def upd_signals fun_eq_iff)

text \<open>
  Waking all waiters of \<open>x\<close> clears exactly their entries, sends each of them the signals, and makes
  them runnable. Whatever sending signals and changing the table preserve is preserved.
\<close>

lemma wake_waiters_upto:
  assumes ok: "waiters_ok k" and bound: "tasks_length c \<le> 255" and ne: "x \<noteq> none"
    and Q: "Q k" and Q_sent: "\<forall>t k. Q k \<longrightarrow> Q (signal_sent c ready t signals k)"
    and Q_upd: "\<forall>f k. Q k \<longrightarrow> Q (upd f k)"
  shows "m \<le> tasks_length c \<Longrightarrow>
    \<exists>k'. kseq (map (wake_waiter fld upd wake none x) (ids m)) k = Inr ((), k') \<and> waiters_ok k' \<and> Q k' \<and>
      (\<forall>t < tasks_length c. fld k' ! t = (if t < m \<and> fld k ! t = x then none else fld k ! t)) \<and>
      (\<forall>t. unat t < tasks_length c \<longrightarrow> pending_of k' t =
        (if unat t < m \<and> fld k ! unat t = x then pending_of k t OR signals else pending_of k t)) \<and>
      (\<forall>t. unat t < tasks_length c \<longrightarrow> runnable (k_sched k') t =
        (runnable (k_sched k) t \<or> unat t < m \<and> fld k ! unat t = x)) \<and>
      k_current_task k' = k_current_task k"
proof (induction m)
  case 0
  then show ?case using ok Q by (simp add: ids_def kreturn_def)
next
  case (Suc m)
  then obtain k' where k': "kseq (map (wake_waiter fld upd wake none x) (ids m)) k = Inr ((), k')"
    "waiters_ok k'" "Q k'"
    "\<forall>t < tasks_length c. fld k' ! t = (if t < m \<and> fld k ! t = x then none else fld k ! t)"
    "\<forall>t. unat t < tasks_length c \<longrightarrow> pending_of k' t =
        (if unat t < m \<and> fld k ! unat t = x then pending_of k t OR signals else pending_of k t)"
    "\<forall>t. unat t < tasks_length c \<longrightarrow> runnable (k_sched k') t =
        (runnable (k_sched k) t \<or> unat t < m \<and> fld k ! unat t = x)"
    "k_current_task k' = k_current_task k"
    by auto
  have m: "m < tasks_length c" using Suc.prems by simp
  let ?t = "of_nat m :: u8"
  have u: "unat ?t = m" using m bound by (simp add: u8_unat_of_nat)
  have eq_t: "t = ?t \<longleftrightarrow> unat t = m" for t :: u8
    using u by (auto simp: word_unat_eq_iff)
  have len: "length (fld k') = tasks_length c" using k'(2) by (simp add: waiters_ok_def)
  have read: "fld k' ! m = fld k ! m" using k'(4) m by simp
  have split: "kseq (map (wake_waiter fld upd wake none x) (ids (Suc m))) k =
      kbind (wake_waiter fld upd wake none x ?t) kreturn k'"
    using k'(1) by (simp add: ids_def kseq_append kbind_def fun_eq_iff)
  show ?case
  proof (cases "fld k ! m = x")
    case False
    then have "wake_waiter fld upd wake none x ?t k' = Inr ((), k')"
      using len m read by (simp add: wake_waiter_def kbind_def array_read_def kwhen_def kreturn_def u)
    then have "kseq (map (wake_waiter fld upd wake none x) (ids (Suc m))) k = Inr ((), k')"
      using split by (simp add: kbind_def kreturn_def)
    then show ?thesis
      using False k' by (intro exI [of _ k']) (auto simp: less_Suc_eq)
  next
    case True
    let ?k1 = "upd (\<lambda>xs. xs[m := none]) k'"
    let ?k2 = "signal_sent c ready ?t signals ?k1"
    have ok1: "waiters_ok ?k1" by (rule waiters_ok_upd [OF k'(2)]) simp
    have t: "unat ?t < tasks_length c" using m u by simp
    have ok2: "waiters_ok ?k2" by (rule waiters_ok_sent [OF ok1 t])
    have "wake ?t ?k1 = Inr ((), ?k2)" using ok1 t by (intro wake) (simp_all add: waiters_ok_def)
    then have "wake_waiter fld upd wake none x ?t k' = Inr ((), ?k2)"
      using True len m read
      by (simp add: wake_waiter_def kbind_def array_read_def array_modify_def kwhen_def kreturn_def u)
    then have run: "kseq (map (wake_waiter fld upd wake none x) (ids (Suc m))) k = Inr ((), ?k2)"
      using split by (simp add: kbind_def kreturn_def)
    have sig: "unat ?t < length (k_signal_tasks ?k1)" using ok1 t by (simp add: waiters_ok_def signals_ok_def)
    have fld: "fld ?k2 ! s = (if s < Suc m \<and> fld k ! s = x then none else fld k ! s)"
      if "s < tasks_length c" for s
      using that k'(4) True len by (cases "s = m") (auto simp: fld_sent fld_upd less_Suc_eq)
    have pend: "pending_of ?k2 s =
        (if unat s < Suc m \<and> fld k ! unat s = x then pending_of k s OR signals else pending_of k s)"
      if "unat s < tasks_length c" for s
      using that k'(5) True eq_t [of s] by (auto simp: pending_of_sent [OF sig] pending_of_upd less_Suc_eq)
    have inv1: "kernel_inv c inv ntasks ?k1" using ok1 by (simp add: waiters_ok_def)
    have run_iff: "runnable (k_sched ?k2) s =
        (runnable (k_sched k) s \<or> unat s < Suc m \<and> fld k ! unat s = x)"
      if "unat s < tasks_length c" for s
      using that k'(6) True eq_t [of s] signal_sent_runnable [OF inv1 t that]
      by (auto simp: upd_sched less_Suc_eq)
    have "Q ?k2" using k'(3) Q_sent Q_upd by blast
    moreover have "k_current_task ?k2 = k_current_task k" using k'(7) by (simp add: upd_current)
    ultimately show ?thesis using run ok2 fld pend run_iff by blast
  qed
qed

lemma wake_waiters:
  assumes "waiters_ok k" and bound: "tasks_length c \<le> 255" and "x \<noteq> none"
    and "Q k" and "\<forall>t k. Q k \<longrightarrow> Q (signal_sent c ready t signals k)" and "\<forall>f k. Q k \<longrightarrow> Q (upd f k)"
  shows "\<exists>k'. for_each 0 (tasks_length c) (wake_waiter fld upd wake none x) k = Inr ((), k') \<and>
      waiters_ok k' \<and> Q k' \<and>
      (\<forall>t < tasks_length c. fld k' ! t = (if fld k ! t = x then none else fld k ! t)) \<and>
      (\<forall>t. unat t < tasks_length c \<longrightarrow> pending_of k' t =
        (if fld k ! unat t = x then pending_of k t OR signals else pending_of k t)) \<and>
      (\<forall>t. unat t < tasks_length c \<longrightarrow> runnable (k_sched k') t =
        (runnable (k_sched k) t \<or> fld k ! unat t = x)) \<and>
      k_current_task k' = k_current_task k"
  unfolding for_each_kseq [OF bound]
  using wake_waiters_upto [OF assms order_refl] by fastforce

end

end
