(* ===== verification/Blocking_Mutex.thy ===== *)
theory Blocking_Mutex
  imports Event_Signals Waiters
begin

text \<open>
  The blocking-mutex component (\<open>components/blocking-mutex\<close>). A mutex records its holder; a task
  that finds it held registers as a waiter and blocks until an unlock wakes all waiters. What
  blocking and waking mean is up to the variant, as are the switches \<open>prio_ceiling\<close> and
  \<open>mutex.stats\<close>; they are collected in the record \<open>mutex_core\<close>.
\<close>

section \<open>Model\<close>

definition MUTEX_ID_NONE :: u8 where
  "MUTEX_ID_NONE = 255"

record mutex =
  mx_holder :: u8

record mutex_stat =
  ms_lock_counter :: u32
  ms_lock_contended_counter :: u32
  ms_lock_max_wait_time :: u16

record 's mutex_kernel = "'s event_kernel" +
  k_mutexes :: "mutex list"
  k_mutex_waiters :: "u8 list"
  k_mutex_stats_enabled :: bool
  k_mutex_stats :: "mutex_stat list"

text \<open>
  The operations the variant supplies. Blocking starts by suspending at a program point of the
  signal component and is resumed from it.
\<close>

record 'k mutex_core =
  mutex_core_block_on :: "u8 \<Rightarrow> ('k, signal_pc) kop"
  mutex_core_block_on_resume :: "signal_pc \<Rightarrow> ('k, (signal_pc, unit) progress) kop"
  mutex_core_block_on_timeout :: "u8 \<Rightarrow> u16 \<Rightarrow> ('k, signal_pc) kop"
  mutex_core_block_on_timeout_resume :: "signal_pc \<Rightarrow> ('k, (signal_pc, unit) progress) kop"
  mutex_core_unblock :: "u8 \<Rightarrow> ('k, unit) kop"
  mutex_core_locked_by :: "u8 \<Rightarrow> u8 \<Rightarrow> ('k, unit) kop"
  mutex_core_unlocked :: "u8 \<Rightarrow> ('k, unit) kop"
  mutex_prio_ceiling :: bool
  mutex_with_stats :: bool

definition assert_mutex_valid :: "config \<Rightarrow> u8 \<Rightarrow> (('s, 'z) mutex_kernel_scheme, unit) kop" where
  "assert_mutex_valid c mutex =
     kbind (kgets (\<lambda>k. length (k_mutexes k))) (\<lambda>mutexes_length.
     api_assert c (unat mutex < mutexes_length) ERROR_ID_INVALID_ID)"

definition mutex_holder :: "u8 \<Rightarrow> (('s, 'z) mutex_kernel_scheme, u8) kop" where
  "mutex_holder m = kbind (array_read k_mutexes m) (\<lambda>mutex. kreturn (mx_holder mutex))"

definition set_mutex_holder :: "u8 \<Rightarrow> u8 \<Rightarrow> (('s, 'z) mutex_kernel_scheme, unit) kop" where
  "set_mutex_holder m t = array_modify k_mutexes k_mutexes_update m (\<lambda>mutex. mutex\<lparr>mx_holder := t\<rparr>)"

definition set_mutex_waiter :: "u8 \<Rightarrow> u8 \<Rightarrow> (('s, 'z) mutex_kernel_scheme, unit) kop" where
  "set_mutex_waiter t m = array_modify k_mutex_waiters k_mutex_waiters_update t (\<lambda>_. m)"

definition mutex_try_lock ::
  "config \<Rightarrow> ('s, 'z) mutex_kernel_scheme mutex_core \<Rightarrow> u8 \<Rightarrow> (('s, 'z) mutex_kernel_scheme, bool) kop"
where
  "mutex_try_lock c mc m =
     kbind (mutex_holder m) (\<lambda>holder.
     let r = (holder = TASK_ID_NONE) in
     kbind (precondition_preemption_disabled c) (\<lambda>_.
     kbind (kwhen r
       (kbind (get_current_task c) (\<lambda>current.
        kbind (set_mutex_holder m current) (\<lambda>_.
        kwhen (mutex_prio_ceiling mc)
          (kbind (get_current_task c) (\<lambda>current. mutex_core_locked_by mc m current)))))) (\<lambda>_.
     kbind (postcondition_preemption_disabled c) (\<lambda>_.
     kreturn r))))"

definition mutex_stats_update ::
  "u8 \<Rightarrow> bool \<Rightarrow> u32 \<Rightarrow> (('s, 'z) mutex_kernel_scheme, unit) kop"
where
  "mutex_stats_update m contended wait_start_ticks =
     kbind (kgets k_mutex_stats_enabled) (\<lambda>enabled.
     kwhen enabled
       (kbind (array_modify k_mutex_stats k_mutex_stats_update m
                (\<lambda>st. st\<lparr>ms_lock_counter := ms_lock_counter st + 1\<rparr>)) (\<lambda>_.
        kwhen contended
          (kbind (kgets k_timer_current_ticks) (\<lambda>now.
           let wait_time = ucast (now - wait_start_ticks) in
           array_modify k_mutex_stats k_mutex_stats_update m
             (\<lambda>st. st\<lparr>ms_lock_contended_counter := ms_lock_contended_counter st + 1,
                ms_lock_max_wait_time :=
                  (if wait_time > ms_lock_max_wait_time st then wait_time
                   else ms_lock_max_wait_time st)\<rparr>))))))"

subsection \<open>Public interface\<close>

text \<open>
  The program points of the locking routines: blocked, with the mutex, whether the lock was
  contended, and the tick count the statistics and the timeout are computed from; or preempted in
  \<open>preempt_enable\<close> before the statistics are updated.
\<close>

datatype mutex_pc =
    Mutex_Locking u8 bool u32 signal_pc
  | Mutex_Lock_Timing u8 bool u32 u16 signal_pc
  | Mutex_Lock_Done u8 bool u32 bool

definition mutex_lock_done ::
  "config \<Rightarrow> ('s, 'z) mutex_kernel_scheme mutex_core \<Rightarrow> u8 \<Rightarrow> bool \<Rightarrow> u32 \<Rightarrow> bool \<Rightarrow>
     (('s, 'z) mutex_kernel_scheme, (mutex_pc, bool) progress) kop"
where
  "mutex_lock_done c mc m contended wait_start_ticks r =
     kbind (preempt_enable c) (\<lambda>_.
     if mutex_with_stats mc
     then kbind (kgets k_preempt_pending) (\<lambda>pending.
       if preemption_support c \<and> pending
       then kreturn (Suspended (Mutex_Lock_Done m contended wait_start_ticks r))
       else co_finish (mutex_stats_update m contended wait_start_ticks) r)
     else kreturn (Finished r))"

text \<open>One evaluation of the loop condition of \<open>mutex_lock\<close>, and the loop body when it is true.\<close>

definition mutex_lock_attempt ::
  "config \<Rightarrow> ('s, 'z) mutex_kernel_scheme mutex_core \<Rightarrow> u8 \<Rightarrow> bool \<Rightarrow> u32 \<Rightarrow>
     (('s, 'z) mutex_kernel_scheme, (mutex_pc, bool) progress) kop"
where
  "mutex_lock_attempt c mc m contended wait_start_ticks =
     kbind (mutex_try_lock c mc m) (\<lambda>r.
     if r then mutex_lock_done c mc m contended wait_start_ticks True
     else
       kbind (get_current_task c) (\<lambda>current.
       kbind (set_mutex_waiter current m) (\<lambda>_.
       kbind (mutex_holder m) (\<lambda>holder.
       kbind (mutex_core_block_on mc holder) (\<lambda>p.
       kreturn (Suspended (Mutex_Locking m True wait_start_ticks p)))))))"

definition assert_mutex_not_held :: "config \<Rightarrow> u8 \<Rightarrow> (('s, 'z) mutex_kernel_scheme, unit) kop" where
  "assert_mutex_not_held c m =
     api_assert_expr c
       (kbind (mutex_holder m) (\<lambda>holder.
        kbind (get_current_task c) (\<lambda>current. kreturn (holder \<noteq> current)))) ERROR_ID_DEADLOCK"

definition rtos_mutex_lock ::
  "config \<Rightarrow> ('s, 'z) mutex_kernel_scheme mutex_core \<Rightarrow> u8 \<Rightarrow>
     (('s, 'z) mutex_kernel_scheme, (mutex_pc, bool) progress) kop"
where
  "rtos_mutex_lock c mc m =
     kbind (kgets k_timer_current_ticks) (\<lambda>wait_start_ticks.
     kbind (assert_mutex_valid c m) (\<lambda>_.
     kbind (assert_mutex_not_held c m) (\<lambda>_.
     kbind (preempt_disable c) (\<lambda>_.
     mutex_lock_attempt c mc m False wait_start_ticks))))"

definition mutex_lock_timeout_attempt ::
  "config \<Rightarrow> ('s, 'z) mutex_kernel_scheme mutex_core \<Rightarrow> u8 \<Rightarrow> bool \<Rightarrow> u32 \<Rightarrow> u16 \<Rightarrow>
     (('s, 'z) mutex_kernel_scheme, (mutex_pc, bool) progress) kop"
where
  "mutex_lock_timeout_attempt c mc m contended absolute_timeout timeout =
     kbind (mutex_try_lock c mc m) (\<lambda>ret.
     let contended = (contended \<or> \<not> ret) in
     kbind (kgets k_timer_current_ticks) (\<lambda>now.
     if \<not> ret \<and> absolute_timeout > now
     then
       kbind (get_current_task c) (\<lambda>current.
       kbind (set_mutex_waiter current m) (\<lambda>_.
       kbind (mutex_holder m) (\<lambda>holder.
       kbind (mutex_core_block_on_timeout mc holder (ucast (absolute_timeout - now))) (\<lambda>p.
       kreturn (Suspended (Mutex_Lock_Timing m contended absolute_timeout timeout p))))))
     else mutex_lock_done c mc m contended (absolute_timeout - ucast timeout) ret))"

definition rtos_mutex_lock_timeout ::
  "config \<Rightarrow> ('s, 'z) mutex_kernel_scheme mutex_core \<Rightarrow> u8 \<Rightarrow> u16 \<Rightarrow>
     (('s, 'z) mutex_kernel_scheme, (mutex_pc, bool) progress) kop"
where
  "rtos_mutex_lock_timeout c mc m timeout =
     kbind (kgets (\<lambda>k. k_timer_current_ticks k + ucast timeout)) (\<lambda>absolute_timeout.
     kbind (assert_mutex_valid c m) (\<lambda>_.
     kbind (assert_mutex_not_held c m) (\<lambda>_.
     kbind (preempt_disable c) (\<lambda>_.
     mutex_lock_timeout_attempt c mc m False absolute_timeout timeout))))"

definition rtos_mutex_resume ::
  "config \<Rightarrow> ('s, 'z) mutex_kernel_scheme mutex_core \<Rightarrow> mutex_pc \<Rightarrow>
     (('s, 'z) mutex_kernel_scheme, (mutex_pc, bool) progress) kop"
where
  "rtos_mutex_resume c mc pc =
     (case pc of
        Mutex_Locking m contended wait_start_ticks p \<Rightarrow>
          co_bind (mutex_core_block_on_resume mc p) (Mutex_Locking m contended wait_start_ticks)
            (\<lambda>_. mutex_lock_attempt c mc m contended wait_start_ticks)
      | Mutex_Lock_Timing m contended absolute_timeout timeout p \<Rightarrow>
          co_bind (mutex_core_block_on_timeout_resume mc p)
            (Mutex_Lock_Timing m contended absolute_timeout timeout)
            (\<lambda>_. mutex_lock_timeout_attempt c mc m contended absolute_timeout timeout)
      | Mutex_Lock_Done m contended wait_start_ticks r \<Rightarrow>
          co_finish (mutex_stats_update m contended wait_start_ticks) r)"

definition rtos_mutex_unlock ::
  "config \<Rightarrow> ('s, 'z) mutex_kernel_scheme mutex_core \<Rightarrow> u8 \<Rightarrow> (('s, 'z) mutex_kernel_scheme, unit) kop"
where
  "rtos_mutex_unlock c mc m =
     kseq [assert_mutex_valid c m,
           api_assert_expr c
             (kbind (mutex_holder m) (\<lambda>holder.
              kbind (get_current_task c) (\<lambda>current. kreturn (holder = current))))
             ERROR_ID_NOT_HOLDING_MUTEX,
           preempt_disable c,
           kwhen (mutex_prio_ceiling mc) (mutex_core_unlocked mc m),
           for_each TASK_ID_ZERO (TASK_ID_END c)
             (wake_waiter k_mutex_waiters k_mutex_waiters_update (mutex_core_unblock mc) MUTEX_ID_NONE m),
           set_mutex_holder m TASK_ID_NONE,
           preempt_enable c]"

definition rtos_mutex_try_lock ::
  "config \<Rightarrow> ('s, 'z) mutex_kernel_scheme mutex_core \<Rightarrow> u8 \<Rightarrow> (('s, 'z) mutex_kernel_scheme, bool) kop"
where
  "rtos_mutex_try_lock c mc m =
     kbind (assert_mutex_valid c m) (\<lambda>_.
     kbind (preempt_disable c) (\<lambda>_.
     kbind (mutex_try_lock c mc m) (\<lambda>r.
     kbind (preempt_enable c) (\<lambda>_.
     kreturn r))))"

definition rtos_mutex_holder_is_current ::
  "config \<Rightarrow> u8 \<Rightarrow> (('s, 'z) mutex_kernel_scheme, bool) kop"
where
  "rtos_mutex_holder_is_current c m =
     kbind (assert_mutex_valid c m) (\<lambda>_.
     kbind (mutex_holder m) (\<lambda>holder.
     kbind (get_current_task c) (\<lambda>current.
     kreturn (holder = current))))"

definition rtos_mutex_stats_clear :: "(('s, 'z) mutex_kernel_scheme, unit) kop" where
  "rtos_mutex_stats_clear k =
     for_each 0 (length (k_mutexes k)) (\<lambda>mutex_index.
       kseq [array_modify k_mutex_stats k_mutex_stats_update mutex_index
               (\<lambda>st. st\<lparr>ms_lock_counter := 0\<rparr>),
             array_modify k_mutex_stats k_mutex_stats_update mutex_index
               (\<lambda>st. st\<lparr>ms_lock_contended_counter := 0\<rparr>),
             array_modify k_mutex_stats k_mutex_stats_update mutex_index
               (\<lambda>st. st\<lparr>ms_lock_max_wait_time := 0\<rparr>)]) k"

section \<open>State abstraction\<close>

definition holder_of :: "('s, 'z) mutex_kernel_scheme \<Rightarrow> u8 \<Rightarrow> u8" where
  "holder_of k m = mx_holder (k_mutexes k ! unat m)"

definition waiting_for :: "('s, 'z) mutex_kernel_scheme \<Rightarrow> u8 \<Rightarrow> u8" where
  "waiting_for k t = k_mutex_waiters k ! unat t"

definition set_holder :: "u8 \<Rightarrow> u8 \<Rightarrow> ('s, 'z) mutex_kernel_scheme \<Rightarrow> ('s, 'z) mutex_kernel_scheme" where
  "set_holder m t k = k\<lparr>k_mutexes := (k_mutexes k)[unat m := (k_mutexes k ! unat m)\<lparr>mx_holder := t\<rparr>]\<rparr>"

definition set_waiter :: "u8 \<Rightarrow> u8 \<Rightarrow> ('s, 'z) mutex_kernel_scheme \<Rightarrow> ('s, 'z) mutex_kernel_scheme" where
  "set_waiter t m k = k\<lparr>k_mutex_waiters := (k_mutex_waiters k)[unat t := m]\<rparr>"

text \<open>There is one waiter entry per task, and fewer mutexes than \<open>MUTEX_ID_NONE\<close>.\<close>

definition mutexes_ok :: "config \<Rightarrow> ('s, 'z) mutex_kernel_scheme \<Rightarrow> bool" where
  "mutexes_ok c k \<longleftrightarrow> length (k_mutexes k) \<le> 255 \<and> length (k_mutex_waiters k) = tasks_length c \<and>
     length (k_mutex_stats k) = length (k_mutexes k)"

lemma mutex_frame [simp]:
  "k_mutexes (enter c k) = k_mutexes k" "k_mutexes (leave c k) = k_mutexes k"
  "k_mutexes (pend c k) = k_mutexes k" "k_mutexes (set_pending t p k) = k_mutexes k"
  "k_mutex_waiters (enter c k) = k_mutex_waiters k" "k_mutex_waiters (leave c k) = k_mutex_waiters k"
  "k_mutex_waiters (pend c k) = k_mutex_waiters k"
  "k_mutex_waiters (set_pending t p k) = k_mutex_waiters k"
  "k_mutex_stats (enter c k) = k_mutex_stats k" "k_mutex_stats (leave c k) = k_mutex_stats k"
  "k_mutex_stats (pend c k) = k_mutex_stats k" "k_mutex_stats (set_pending t p k) = k_mutex_stats k"
  by (simp_all add: enter_def leave_def pend_def set_pending_def)

lemma mutex_update_frame [simp]:
  "k_current_task (set_holder m t k) = k_current_task k" "k_current_task (set_waiter t m k) = k_current_task k"
  "k_sched (set_holder m t k) = k_sched k" "k_sched (set_waiter t m k) = k_sched k"
  "preempt_ok c (set_holder m t k) = preempt_ok c k" "preempt_ok c (set_waiter t m k) = preempt_ok c k"
  "current_ok c (set_holder m t k) = current_ok c k" "current_ok c (set_waiter t m k) = current_ok c k"
  "kernel_inv c sinv n (set_holder m t k) = kernel_inv c sinv n k"
  "kernel_inv c sinv n (set_waiter t m k) = kernel_inv c sinv n k"
  "signals_ok c (set_holder m t k) = signals_ok c k" "signals_ok c (set_waiter t m k) = signals_ok c k"
  "pending_of (set_holder m t k) = pending_of k" "pending_of (set_waiter t m k) = pending_of k"
  "timers_ok c (set_holder m t k) = timers_ok c k" "timers_ok c (set_waiter t m k) = timers_ok c k"
  "mutexes_ok c (set_holder m t k) = mutexes_ok c k" "mutexes_ok c (set_waiter t m k) = mutexes_ok c k"
  "k_mutexes (set_waiter t m k) = k_mutexes k" "k_mutex_waiters (set_holder m t k) = k_mutex_waiters k"
  "length (k_mutexes (set_holder m t k)) = length (k_mutexes k)"
  "length (k_mutex_waiters (set_waiter t m k)) = length (k_mutex_waiters k)"
  "k_timer_current_ticks (set_holder m t k) = k_timer_current_ticks k"
  "k_timer_current_ticks (set_waiter t m k) = k_timer_current_ticks k"
  by (simp_all add: set_holder_def set_waiter_def preempt_ok_def current_ok_def kernel_inv_def
      signals_ok_def pending_of_def timers_ok_def mutexes_ok_def fun_eq_iff)

lemma mutexes_ok_frame [simp]:
  "mutexes_ok c (enter c' k) = mutexes_ok c k" "mutexes_ok c (leave c' k) = mutexes_ok c k"
  "mutexes_ok c (pend c' k) = mutexes_ok c k" "mutexes_ok c (set_pending t p k) = mutexes_ok c k"
  "mutexes_ok c (k_sched_update f k) = mutexes_ok c k"
  by (simp_all add: mutexes_ok_def)

lemma holder_of_frame [simp]:
  "holder_of (enter c k) = holder_of k" "holder_of (leave c k) = holder_of k"
  "holder_of (pend c k) = holder_of k" "holder_of (set_pending t p k) = holder_of k"
  "holder_of (set_waiter t m k) = holder_of k" "holder_of (k_sched_update f k) = holder_of k"
  by (simp_all add: holder_of_def fun_eq_iff)

lemma waiting_for_frame [simp]:
  "waiting_for (enter c k) = waiting_for k" "waiting_for (leave c k) = waiting_for k"
  "waiting_for (pend c k) = waiting_for k" "waiting_for (set_pending t p k) = waiting_for k"
  "waiting_for (set_holder m t k) = waiting_for k" "waiting_for (k_sched_update f k) = waiting_for k"
  by (simp_all add: waiting_for_def fun_eq_iff)

lemma holder_of_set:
  "unat m < length (k_mutexes k) \<Longrightarrow> holder_of (set_holder m t k) n = (if n = m then t else holder_of k n)"
  by (simp add: holder_of_def set_holder_def word_nth_update)

lemma waiting_for_set:
  "unat t < length (k_mutex_waiters k) \<Longrightarrow>
     waiting_for (set_waiter t m k) u = (if u = t then m else waiting_for k u)"
  by (simp add: waiting_for_def set_waiter_def word_nth_update)

lemma mutex_holder_run [simp]:
  "mutex_holder m k = (if unat m < length (k_mutexes k) then Inr (holder_of k m, k) else Inl Out_Of_Bounds)"
  by (simp add: mutex_holder_def holder_of_def kop_defs)

lemma set_mutex_holder_run [simp]:
  "set_mutex_holder m t k = (if unat m < length (k_mutexes k) then Inr ((), set_holder m t k) else Inl Out_Of_Bounds)"
  by (simp add: set_mutex_holder_def set_holder_def kop_defs)

lemma set_mutex_waiter_run [simp]:
  "set_mutex_waiter t m k = (if unat t < length (k_mutex_waiters k) then Inr ((), set_waiter t m k) else Inl Out_Of_Bounds)"
  by (simp add: set_mutex_waiter_def set_waiter_def kop_defs)

lemma assert_mutex_valid_run [simp]:
  "assert_mutex_valid c m k =
     (if unat m < length (k_mutexes k) \<or> \<not> api_asserts c then Inr ((), k) else Inl (Fatal ERROR_ID_INVALID_ID))"
  by (simp add: assert_mutex_valid_def kop_defs)

lemma assert_mutex_not_held_run:
  "current_ok c k \<Longrightarrow> unat m < length (k_mutexes k) \<Longrightarrow> assert_mutex_not_held c m k =
     (if holder_of k m \<noteq> k_current_task k \<or> \<not> api_asserts c then Inr ((), k) else Inl (Fatal ERROR_ID_DEADLOCK))"
  unfolding assert_mutex_not_held_def
  by (subst api_assert_expr_run [where b = "holder_of k m \<noteq> k_current_task k"]) (simp_all add: kop_defs)

section \<open>Locking\<close>

text \<open>Without a priority ceiling, \<open>mutex_try_lock\<close> takes a free mutex and fails on a held one.\<close>

lemma mutex_try_lock_eq:
  assumes "current_ok c k" and "preempt_ok c k" and "unat m < length (k_mutexes k)"
    and "\<not> mutex_prio_ceiling mc"
  shows "mutex_try_lock c mc m k =
    (if holder_of k m = TASK_ID_NONE then Inr (True, set_holder m (k_current_task k) k) else Inr (False, k))"
  using assms by (simp add: mutex_try_lock_def kbind_def kwhen_def kreturn_def)

lemma mutex_try_lock_held:
  assumes "current_ok c k" and "preempt_ok c k" and "unat m < length (k_mutexes k)"
    and "holder_of k m \<noteq> TASK_ID_NONE"
  shows "mutex_try_lock c mc m k = Inr (False, k)"
  using assms by (simp add: mutex_try_lock_def kbind_def kwhen_def kreturn_def)

text \<open>A failed attempt registers the task as a waiter of the mutex and blocks on the holder.\<close>

lemma mutex_lock_attempt_blocks:
  assumes "current_ok c k" and "preempt_ok c k" and "unat m < length (k_mutexes k)" and "mutexes_ok c k"
    and "holder_of k m \<noteq> TASK_ID_NONE"
    and "mutex_core_block_on mc (holder_of k m) (set_waiter (k_current_task k) m k) = Inr (p, k')"
  shows "mutex_lock_attempt c mc m contended start k = Inr (Suspended (Mutex_Locking m True start p), k')"
  using assms mutex_try_lock_held [OF assms(1-3,5)]
  by (simp add: mutex_lock_attempt_def kbind_def kreturn_def mutexes_ok_def current_ok_def)

lemma rtos_mutex_lock_deadlock:
  assumes "current_ok c k" and "unat m < length (k_mutexes k)" and "api_asserts c"
    and "holder_of k m = k_current_task k"
  shows "rtos_mutex_lock c mc m k = Inl (Fatal ERROR_ID_DEADLOCK)"
  using assms
  by (simp add: rtos_mutex_lock_def kbind_def kgets_def assert_mutex_not_held_run)

section \<open>Unlocking\<close>

lemma mutex_sent_frame [simp]:
  "k_mutexes (signal_sent c ready t sigs k) = k_mutexes k"
  "k_mutex_waiters (signal_sent c ready t sigs k) = k_mutex_waiters k"
  "k_mutex_stats (signal_sent c ready t sigs k) = k_mutex_stats k"
  "k_timers (signal_sent c ready t sigs k') = k_timers k'"
  "k_timer_current_ticks (signal_sent c ready t sigs k') = k_timer_current_ticks k'"
  "k_timer_pending_ticks (signal_sent c ready t sigs k') = k_timer_pending_ticks k'"
  "k_task_timers (signal_sent c ready t sigs k') = k_task_timers k'"
  "k_interrupt_events (signal_sent c ready t sigs k'') = k_interrupt_events k''"
  by (simp_all add: signal_sent_def)

text \<open>What waking tasks leaves alone.\<close>

definition mutex_rest_eq :: "('s, 'z) mutex_kernel_scheme \<Rightarrow> ('s, 'z) mutex_kernel_scheme \<Rightarrow> bool" where
  "mutex_rest_eq k k' \<longleftrightarrow> k_current_task k' = k_current_task k \<and>
     k_preempt_disabled k' = k_preempt_disabled k \<and> k_interrupt_event k' = k_interrupt_event k \<and>
     k_timers k' = k_timers k \<and> k_timer_current_ticks k' = k_timer_current_ticks k \<and>
     k_timer_pending_ticks k' = k_timer_pending_ticks k \<and> k_task_timers k' = k_task_timers k \<and>
     k_interrupt_events k' = k_interrupt_events k \<and> k_mutexes k' = k_mutexes k \<and>
     k_mutex_stats k' = k_mutex_stats k \<and> mutex_kernel.more k' = mutex_kernel.more k"

definition outside_mutexes_eq :: "('s, 'z) mutex_kernel_scheme \<Rightarrow> ('s, 'z) mutex_kernel_scheme \<Rightarrow> bool" where
  "outside_mutexes_eq k k' \<longleftrightarrow> k_interrupt_event k' = k_interrupt_event k \<and> k_timers k' = k_timers k \<and>
     k_timer_pending_ticks k' = k_timer_pending_ticks k \<and> k_task_timers k' = k_task_timers k \<and>
     k_interrupt_events k' = k_interrupt_events k \<and> length (k_mutex_waiters k') = length (k_mutex_waiters k) \<and>
     k_mutex_stats k' = k_mutex_stats k"

lemma mutex_rest_refl [simp]: "mutex_rest_eq k k"
  by (simp add: mutex_rest_eq_def)

lemma mutex_rest_sent: "\<forall>t k'. mutex_rest_eq k k' \<longrightarrow> mutex_rest_eq k (signal_sent c ready t sigs k')"
  by (simp add: mutex_rest_eq_def) (simp add: signal_sent_def pend_def set_pending_def)

lemma mutex_rest_waiters: "\<forall>f k'. mutex_rest_eq k k' \<longrightarrow> mutex_rest_eq k (k_mutex_waiters_update f k')"
  by (simp add: mutex_rest_eq_def)

lemma mutex_rest_readied_sent:
  "\<forall>t k'. mutex_rest_eq k k' \<and> readied c ready k1 k' \<longrightarrow>
     mutex_rest_eq k (signal_sent c ready t sigs k') \<and> readied c ready k1 (signal_sent c ready t sigs k')"
  using mutex_rest_sent readied_sent by blast

lemma mutex_rest_readied_waiters:
  "\<forall>f k'. mutex_rest_eq k k' \<and> readied c ready k1 k' \<longrightarrow>
     mutex_rest_eq k (k_mutex_waiters_update f k') \<and> readied c ready k1 (k_mutex_waiters_update f k')"
  using mutex_rest_waiters [of k] by (auto simp: readied_def)

locale mutex_control = event_control set_runnable set_blocked get_next ready block inv ntasks runnable
    c unblock block_task nevents
  for set_runnable set_blocked get_next ready block
    and inv :: "'s \<Rightarrow> bool" and ntasks runnable and c :: config
    and unblock :: "u8 \<Rightarrow> (('s, 'z) mutex_kernel_scheme, unit) kop"
    and block_task nevents +
  fixes mc :: "('s, 'z) mutex_kernel_scheme mutex_core"
  assumes core_unblock: "kernel_inv c inv ntasks k \<Longrightarrow> preempt_ok c k \<Longrightarrow> signals_ok c k \<Longrightarrow>
      unat t < tasks_length c \<Longrightarrow>
      mutex_core_unblock mc t k = Inr ((), signal_sent c ready t (SIGNAL_ID__TASK_TIMER c) k)"
begin

sublocale mutex_waiters: waiter_table set_runnable set_blocked get_next ready block inv ntasks runnable
  c unblock block_task k_mutex_waiters k_mutex_waiters_update "mutex_core_unblock mc" MUTEX_ID_NONE
  "SIGNAL_ID__TASK_TIMER c"
  by unfold_locales (rule core_unblock; assumption | simp)+

text \<open>
  Unlocking frees the mutex and wakes all tasks that wait for it: none of them stays registered, and
  each of them is runnable and has the signal it waits for pending.
\<close>

lemma rtos_mutex_unlock_from:
  assumes cur: "current_ok c k" and m: "unat m < length (k_mutexes k)"
    and owner: "holder_of k m = k_current_task k \<or> \<not> api_asserts c"
    and core: "kwhen (mutex_prio_ceiling mc) (mutex_core_unlocked mc m) (enter c k) = Inr ((), k1)"
    and k1: "mutex_waiters.waiters_ok k1" "mutex_rest_eq (enter c k) k1" "k_mutex_waiters k1 = k_mutex_waiters k"
    and len: "length (k_mutexes k) \<le> 255" "tasks_length c \<le> 255"
  shows "\<exists>k'. rtos_mutex_unlock c mc m k = Inr ((), k') \<and> kernel_inv c inv ntasks k' \<and> signals_ok c k' \<and>
    holder_of k' m = TASK_ID_NONE \<and> (\<forall>n. n \<noteq> m \<longrightarrow> holder_of k' n = holder_of k n) \<and>
    (\<forall>t. unat t < tasks_length c \<longrightarrow>
       waiting_for k' t = (if waiting_for k t = m then MUTEX_ID_NONE else waiting_for k t)) \<and>
    (\<forall>t. unat t < tasks_length c \<longrightarrow> pending_of k' t =
       (if waiting_for k t = m then pending_of k1 t OR SIGNAL_ID__TASK_TIMER c else pending_of k1 t)) \<and>
    (\<forall>t. unat t < tasks_length c \<longrightarrow>
       runnable (k_sched k') t = (runnable (k_sched k1) t \<or> waiting_for k t = m)) \<and>
    k_current_task k' = k_current_task k \<and> (preemption_support c \<longrightarrow> \<not> k_preempt_disabled k') \<and>
    length (k_mutexes k') = length (k_mutexes k) \<and> outside_mutexes_eq k k' \<and>
    mutex_kernel.more k' = mutex_kernel.more k \<and> readied c ready k1 k'"
proof -
  have ne: "m \<noteq> MUTEX_ID_NONE" using m len(1) by (auto simp: MUTEX_ID_NONE_def)
  obtain k2 where k2: "for_each 0 (tasks_length c)
      (wake_waiter k_mutex_waiters k_mutex_waiters_update (mutex_core_unblock mc) MUTEX_ID_NONE m) k1 = Inr ((), k2)"
    "mutex_waiters.waiters_ok k2" "mutex_rest_eq (enter c k) k2 \<and> readied c ready k1 k2"
    "\<forall>t < tasks_length c. k_mutex_waiters k2 ! t =
       (if k_mutex_waiters k1 ! t = m then MUTEX_ID_NONE else k_mutex_waiters k1 ! t)"
    "\<forall>t. unat t < tasks_length c \<longrightarrow> pending_of k2 t =
       (if k_mutex_waiters k1 ! unat t = m then pending_of k1 t OR SIGNAL_ID__TASK_TIMER c else pending_of k1 t)"
    "\<forall>t. unat t < tasks_length c \<longrightarrow> runnable (k_sched k2) t =
       (runnable (k_sched k1) t \<or> k_mutex_waiters k1 ! unat t = m)"
    using mutex_waiters.wake_waiters [where Q = "\<lambda>k2. mutex_rest_eq (enter c k) k2 \<and> readied c ready k1 k2",
        OF k1(1) len(2) ne conjI [OF k1(2) readied_refl] mutex_rest_readied_sent mutex_rest_readied_waiters]
    by (elim exE conjE) (rule that; (intro conjI)?; assumption)
  let ?k3 = "leave c (set_holder m TASK_ID_NONE k2)"
  have ok2: "kernel_inv c inv ntasks k2" "preempt_ok c k2" "signals_ok c k2"
    using k2(2) by (simp_all add: mutex_waiters.waiters_ok_def)
  have m2: "unat m < length (k_mutexes k2)" using k2(3) m by (simp add: mutex_rest_eq_def)
  have mx: "k_mutexes k2 = k_mutexes k" using k2(3) by (simp add: mutex_rest_eq_def)
  have assert: "api_assert_expr c (kbind (mutex_holder m) (\<lambda>holder.
      kbind (get_current_task c) (\<lambda>current. kreturn (holder = current)))) ERROR_ID_NOT_HOLDING_MUTEX k = Inr ((), k)"
    by (subst api_assert_expr_run [where b = "holder_of k m = k_current_task k"])
       (use cur m owner in \<open>simp_all add: kbind_def kreturn_def\<close>)
  have run: "rtos_mutex_unlock c mc m k = Inr ((), ?k3)"
    using m cur assert core k2(1) m2 ok2(2)
    by (simp add: rtos_mutex_unlock_def kbind_def kreturn_def TASK_ID_ZERO_def TASK_ID_END_def)
  have "holder_of ?k3 n = (if n = m then TASK_ID_NONE else holder_of k n)" for n
    by (simp add: holder_of_set [OF m2]) (simp add: holder_of_def mx)
  moreover have "k_current_task k2 = k_current_task k" using k2(3) by (simp add: mutex_rest_eq_def)
  moreover have "outside_mutexes_eq k ?k3"
    using k2(2,3) k1 by (simp add: outside_mutexes_eq_def mutex_rest_eq_def set_holder_def mutex_waiters.waiters_ok_def leave_def enter_def)
  moreover have "mutex_kernel.more ?k3 = mutex_kernel.more k"
  proof -
    have "mutex_kernel.more ?k3 = mutex_kernel.more k2" by (cases k2) (simp add: set_holder_def leave_def)
    moreover have "mutex_kernel.more (enter c k) = mutex_kernel.more k" by (cases k) (simp add: enter_def)
    ultimately show ?thesis using k2(3) by (simp add: mutex_rest_eq_def)
  qed
  moreover have "readied c ready k1 ?k3"
    using k2(3) readied_frame [of k1 k1 ?k3 k2] by (simp add: set_holder_def)
  ultimately show ?thesis
    using run ok2 k2(4-6) mx by (intro exI [of _ ?k3]) (simp add: waiting_for_def k1(3))
qed

end

end
