(* ===== verification/Semaphore.thy ===== *)
theory Semaphore
  imports Blocking_Mutex
begin

text \<open>
  The simple-semaphore component (\<open>components/simple-semaphore\<close>), with values of the default 8 bits.
  \<open>semaphore_enable_max\<close> adds a maximum value per semaphore. As for mutexes, the variant supplies how
  a task blocks and is woken.
\<close>

section \<open>Model\<close>

definition SEM_ID_NONE :: u8 where
  "SEM_ID_NONE = 255"

definition SEM_VALUE_ZERO :: u8 where
  "SEM_VALUE_ZERO = 0"

definition SEM_VALUE_MAX :: u8 where
  "SEM_VALUE_MAX = 255"

record semaphore =
  sem_value :: u8
  sem_max :: u8

record 's sem_kernel = "'s mutex_kernel" +
  k_semaphores :: "semaphore list"
  k_sem_waiters :: "u8 list"

record 'k sem_core =
  sem_core_block :: "('k, signal_pc) kop"
  sem_core_block_resume :: "signal_pc \<Rightarrow> ('k, (signal_pc, unit) progress) kop"
  sem_core_block_timeout :: "u16 \<Rightarrow> ('k, signal_pc) kop"
  sem_core_block_timeout_resume :: "signal_pc \<Rightarrow> ('k, (signal_pc, unit) progress) kop"
  sem_core_unblock :: "u8 \<Rightarrow> ('k, unit) kop"
  sem_enable_max :: bool

definition assert_sem_valid :: "config \<Rightarrow> u8 \<Rightarrow> (('s, 'z) sem_kernel_scheme, unit) kop" where
  "assert_sem_valid c sem =
     kbind (kgets (\<lambda>k. length (k_semaphores k))) (\<lambda>semaphores_length.
     api_assert c (unat sem < semaphores_length) ERROR_ID_INVALID_ID)"

definition set_sem_waiter :: "u8 \<Rightarrow> u8 \<Rightarrow> (('s, 'z) sem_kernel_scheme, unit) kop" where
  "set_sem_waiter t s = array_modify k_sem_waiters k_sem_waiters_update t (\<lambda>_. s)"

definition sem_modify :: "u8 \<Rightarrow> (semaphore \<Rightarrow> semaphore) \<Rightarrow> (('s, 'z) sem_kernel_scheme, unit) kop" where
  "sem_modify s f = array_modify k_semaphores k_semaphores_update s f"

definition sem_init :: "config \<Rightarrow> (('s, 'z) sem_kernel_scheme, unit) kop" where
  "sem_init c = for_each TASK_ID_ZERO (TASK_ID_END c) (\<lambda>t. set_sem_waiter t SEM_ID_NONE)"

text \<open>Both branches return, so the postcondition after them is never reached.\<close>

definition internal_sem_try_wait :: "config \<Rightarrow> u8 \<Rightarrow> (('s, 'z) sem_kernel_scheme, bool) kop" where
  "internal_sem_try_wait c s =
     kbind (precondition_preemption_disabled c) (\<lambda>_.
     kbind (array_read k_semaphores s) (\<lambda>sem.
     if sem_value sem = SEM_VALUE_ZERO then kreturn False
     else kbind (sem_modify s (\<lambda>sem. sem\<lparr>sem_value := sem_value sem - 1\<rparr>)) (\<lambda>_. kreturn True)))"

subsection \<open>Public interface\<close>

datatype sem_pc = Sem_Waiting u8 signal_pc | Sem_Wait_Timing u8 u32 signal_pc

definition sem_wait_attempt ::
  "config \<Rightarrow> ('s, 'z) sem_kernel_scheme sem_core \<Rightarrow> u8 \<Rightarrow>
     (('s, 'z) sem_kernel_scheme, (sem_pc, bool) progress) kop"
where
  "sem_wait_attempt c sc s =
     kbind (internal_sem_try_wait c s) (\<lambda>r.
     if \<not> r
     then
       kbind (get_current_task c) (\<lambda>current.
       kbind (set_sem_waiter current s) (\<lambda>_.
       kbind (sem_core_block sc) (\<lambda>p. kreturn (Suspended (Sem_Waiting s p)))))
     else co_finish (preempt_enable c) True)"

definition rtos_sem_wait ::
  "config \<Rightarrow> ('s, 'z) sem_kernel_scheme sem_core \<Rightarrow> u8 \<Rightarrow>
     (('s, 'z) sem_kernel_scheme, (sem_pc, bool) progress) kop"
where
  "rtos_sem_wait c sc s =
     kbind (assert_sem_valid c s) (\<lambda>_.
     kbind (preempt_disable c) (\<lambda>_.
     sem_wait_attempt c sc s))"

definition sem_wait_timeout_attempt ::
  "config \<Rightarrow> ('s, 'z) sem_kernel_scheme sem_core \<Rightarrow> u8 \<Rightarrow> u32 \<Rightarrow>
     (('s, 'z) sem_kernel_scheme, (sem_pc, bool) progress) kop"
where
  "sem_wait_timeout_attempt c sc s absolute_timeout =
     kbind (internal_sem_try_wait c s) (\<lambda>ret.
     kbind (kgets k_timer_current_ticks) (\<lambda>now.
     if \<not> ret \<and> absolute_timeout > now
     then
       kbind (get_current_task c) (\<lambda>current.
       kbind (set_sem_waiter current s) (\<lambda>_.
       kbind (sem_core_block_timeout sc (ucast (absolute_timeout - now))) (\<lambda>p.
       kreturn (Suspended (Sem_Wait_Timing s absolute_timeout p)))))
     else co_finish (preempt_enable c) ret))"

definition rtos_sem_wait_timeout ::
  "config \<Rightarrow> ('s, 'z) sem_kernel_scheme sem_core \<Rightarrow> u8 \<Rightarrow> u16 \<Rightarrow>
     (('s, 'z) sem_kernel_scheme, (sem_pc, bool) progress) kop"
where
  "rtos_sem_wait_timeout c sc s timeout =
     kbind (kgets (\<lambda>k. k_timer_current_ticks k + ucast timeout)) (\<lambda>absolute_timeout.
     kbind (assert_sem_valid c s) (\<lambda>_.
     kbind (preempt_disable c) (\<lambda>_.
     sem_wait_timeout_attempt c sc s absolute_timeout)))"

definition rtos_sem_resume ::
  "config \<Rightarrow> ('s, 'z) sem_kernel_scheme sem_core \<Rightarrow> sem_pc \<Rightarrow>
     (('s, 'z) sem_kernel_scheme, (sem_pc, bool) progress) kop"
where
  "rtos_sem_resume c sc pc =
     (case pc of
        Sem_Waiting s p \<Rightarrow>
          co_bind (sem_core_block_resume sc p) (Sem_Waiting s) (\<lambda>_. sem_wait_attempt c sc s)
      | Sem_Wait_Timing s absolute_timeout p \<Rightarrow>
          co_bind (sem_core_block_timeout_resume sc p) (Sem_Wait_Timing s absolute_timeout)
            (\<lambda>_. sem_wait_timeout_attempt c sc s absolute_timeout))"

definition rtos_sem_post ::
  "config \<Rightarrow> ('s, 'z) sem_kernel_scheme sem_core \<Rightarrow> u8 \<Rightarrow> (('s, 'z) sem_kernel_scheme, unit) kop"
where
  "rtos_sem_post c sc s =
     kseq [assert_sem_valid c s,
           preempt_disable c,
           kwhen (sem_enable_max sc)
             (kbind (api_assert_expr c
                 (kbind (array_read k_semaphores s) (\<lambda>sem. kreturn (sem_max sem \<noteq> SEM_VALUE_ZERO)))
                 ERROR_ID_SEMAPHORE_MAX_USE_BEFORE_INIT) (\<lambda>_.
              kbind (array_read k_semaphores s) (\<lambda>sem.
              kwhen (sem_value sem \<ge> sem_max sem) (fatal_error ERROR_ID_SEMAPHORE_MAX_EXCEEDED)))),
           kbind (array_read k_semaphores s) (\<lambda>sem.
             kwhen (sem_value sem = SEM_VALUE_ZERO)
               (for_each TASK_ID_ZERO (TASK_ID_END c)
                 (wake_waiter k_sem_waiters k_sem_waiters_update (sem_core_unblock sc) SEM_ID_NONE s))),
           sem_modify s (\<lambda>sem. sem\<lparr>sem_value := sem_value sem + 1\<rparr>),
           preempt_enable c]"

definition rtos_sem_try_wait :: "config \<Rightarrow> u8 \<Rightarrow> (('s, 'z) sem_kernel_scheme, bool) kop" where
  "rtos_sem_try_wait c s =
     kbind (assert_sem_valid c s) (\<lambda>_.
     kbind (preempt_disable c) (\<lambda>_.
     kbind (internal_sem_try_wait c s) (\<lambda>r.
     kbind (preempt_enable c) (\<lambda>_. kreturn r))))"

definition rtos_sem_max_init :: "config \<Rightarrow> u8 \<Rightarrow> u8 \<Rightarrow> (('s, 'z) sem_kernel_scheme, unit) kop" where
  "rtos_sem_max_init c s max_value =
     kseq [assert_sem_valid c s,
           api_assert c (max_value \<noteq> SEM_VALUE_ZERO) ERROR_ID_SEMAPHORE_MAX_INVALID,
           api_assert_expr c
             (kbind (array_read k_semaphores s) (\<lambda>sem. kreturn (sem_max sem = SEM_VALUE_ZERO)))
             ERROR_ID_SEMAPHORE_MAX_ALREADY_INIT,
           sem_modify s (\<lambda>sem. sem\<lparr>sem_max := max_value\<rparr>)]"

section \<open>State abstraction\<close>

definition value_of :: "('s, 'z) sem_kernel_scheme \<Rightarrow> u8 \<Rightarrow> u8" where
  "value_of k s = sem_value (k_semaphores k ! unat s)"

definition max_of :: "('s, 'z) sem_kernel_scheme \<Rightarrow> u8 \<Rightarrow> u8" where
  "max_of k s = sem_max (k_semaphores k ! unat s)"

definition sem_waiting_for :: "('s, 'z) sem_kernel_scheme \<Rightarrow> u8 \<Rightarrow> u8" where
  "sem_waiting_for k t = k_sem_waiters k ! unat t"

definition set_value :: "u8 \<Rightarrow> u8 \<Rightarrow> ('s, 'z) sem_kernel_scheme \<Rightarrow> ('s, 'z) sem_kernel_scheme" where
  "set_value s v k =
     k\<lparr>k_semaphores := (k_semaphores k)[unat s := (k_semaphores k ! unat s)\<lparr>sem_value := v\<rparr>]\<rparr>"

definition semaphores_ok :: "config \<Rightarrow> ('s, 'z) sem_kernel_scheme \<Rightarrow> bool" where
  "semaphores_ok c k \<longleftrightarrow> length (k_semaphores k) \<le> 255 \<and> length (k_sem_waiters k) = tasks_length c"

lemma sem_frame [simp]:
  "k_semaphores (enter c k) = k_semaphores k" "k_semaphores (leave c k) = k_semaphores k"
  "k_semaphores (pend c k) = k_semaphores k" "k_semaphores (set_pending t p k) = k_semaphores k"
  "k_semaphores (signal_sent c ready t p k) = k_semaphores k"
  "k_sem_waiters (enter c k) = k_sem_waiters k" "k_sem_waiters (leave c k) = k_sem_waiters k"
  "k_sem_waiters (pend c k) = k_sem_waiters k" "k_sem_waiters (set_pending t p k) = k_sem_waiters k"
  "k_sem_waiters (signal_sent c ready t p k) = k_sem_waiters k"
  by (simp_all add: enter_def leave_def pend_def set_pending_def signal_sent_def)

lemma sem_update_frame [simp]:
  "k_current_task (set_value s v k) = k_current_task k" "k_sched (set_value s v k) = k_sched k"
  "k_preempt_disabled (set_value s v k) = k_preempt_disabled k"
  "preempt_ok c (set_value s v k) = preempt_ok c k" "current_ok c (set_value s v k) = current_ok c k"
  "kernel_inv c sinv n (set_value s v k) = kernel_inv c sinv n k"
  "signals_ok c (set_value s v k) = signals_ok c k" "pending_of (set_value s v k) = pending_of k"
  "k_sem_waiters (set_value s v k) = k_sem_waiters k"
  "length (k_semaphores (set_value s v k)) = length (k_semaphores k)"
  by (simp_all add: set_value_def preempt_ok_def current_ok_def kernel_inv_def signals_ok_def
      pending_of_def fun_eq_iff)

lemma value_of_frame [simp]:
  "value_of (enter c k) = value_of k" "value_of (leave c k) = value_of k"
  "value_of (k_sem_waiters_update f k) = value_of k" "value_of (k_sched_update g k) = value_of k"
  by (simp_all add: value_of_def fun_eq_iff)

lemma value_of_set:
  "unat s < length (k_semaphores k) \<Longrightarrow> value_of (set_value s v k) r = (if r = s then v else value_of k r)"
  by (simp add: value_of_def set_value_def word_nth_update)

lemma set_value_leave: "leave c (set_value s v k) = set_value s v (leave c k)"
  by (simp add: leave_def set_value_def)

lemma sem_read_run [simp]:
  "array_read k_semaphores s k =
     (if unat s < length (k_semaphores k) then Inr (k_semaphores k ! unat s, k) else Inl Out_Of_Bounds)"
  by (simp add: array_read_def)

lemma sem_modify_value_run [simp]:
  "sem_modify s (\<lambda>sem. sem\<lparr>sem_value := f (sem_value sem)\<rparr>) k =
     (if unat s < length (k_semaphores k) then Inr ((), set_value s (f (value_of k s)) k) else Inl Out_Of_Bounds)"
  by (simp add: sem_modify_def array_modify_def set_value_def value_of_def)

lemma assert_sem_valid_run [simp]:
  "assert_sem_valid c s k =
     (if unat s < length (k_semaphores k) \<or> \<not> api_asserts c then Inr ((), k) else Inl (Fatal ERROR_ID_INVALID_ID))"
  by (simp add: assert_sem_valid_def kop_defs)

lemma set_sem_waiter_run [simp]:
  "set_sem_waiter t s k =
     (if unat t < length (k_sem_waiters k)
      then Inr ((), k\<lparr>k_sem_waiters := (k_sem_waiters k)[unat t := s]\<rparr>) else Inl Out_Of_Bounds)"
  by (simp add: set_sem_waiter_def array_modify_def)

text \<open>Setting the maximum value, once.\<close>

definition set_max :: "u8 \<Rightarrow> u8 \<Rightarrow> ('s, 'z) sem_kernel_scheme \<Rightarrow> ('s, 'z) sem_kernel_scheme" where
  "set_max s v k = k\<lparr>k_semaphores := (k_semaphores k)[unat s := (k_semaphores k ! unat s)\<lparr>sem_max := v\<rparr>]\<rparr>"

lemma set_max_frame [simp]:
  "k_current_task (set_max s v k) = k_current_task k" "k_sched (set_max s v k) = k_sched k"
  "length (k_semaphores (set_max s v k)) = length (k_semaphores k)" "k_sem_waiters (set_max s v k) = k_sem_waiters k"
  by (simp_all add: set_max_def)

lemma value_of_set_max [simp]: "value_of (set_max s v k) r = value_of k r"
  by (cases "unat s < length (k_semaphores k)") (simp_all add: value_of_def set_max_def word_nth_update list_update_beyond not_less)

lemma rtos_sem_max_init_eq:
  "unat s < length (k_semaphores k) \<Longrightarrow> rtos_sem_max_init c s v k =
     (if api_asserts c \<and> v = 0 then Inl (Fatal ERROR_ID_SEMAPHORE_MAX_INVALID)
      else if api_asserts c \<and> max_of k s \<noteq> 0 then Inl (Fatal ERROR_ID_SEMAPHORE_MAX_ALREADY_INIT)
      else Inr ((), set_max s v k))"
  by (simp add: rtos_sem_max_init_def kop_defs api_assert_expr_def api_error_def SEM_VALUE_ZERO_def max_of_def set_max_def sem_modify_def)

section \<open>Waiting\<close>

text \<open>Waiting takes one unit when there is one and fails otherwise; it never goes below 0.\<close>

lemma internal_sem_try_wait_eq:
  assumes "preempt_ok c k" and "unat s < length (k_semaphores k)"
  shows "internal_sem_try_wait c s k =
    (if value_of k s = 0 then Inr (False, k) else Inr (True, set_value s (value_of k s - 1) k))"
  using assms sem_modify_value_run [of s "\<lambda>v. v - 1" k]
  by (simp add: internal_sem_try_wait_def kbind_def kreturn_def SEM_VALUE_ZERO_def value_of_def)

lemma internal_sem_try_wait_unat:
  assumes "preempt_ok c k" and "unat s < length (k_semaphores k)"
    and "internal_sem_try_wait c s k = Inr (r, k')"
  shows "unat (value_of k' s) = (if r then unat (value_of k s) - 1 else unat (value_of k s))"
    and "r \<longleftrightarrow> 0 < unat (value_of k s)"
  using assms
  by (auto simp: internal_sem_try_wait_eq value_of_set unat_gt_0 unat_minus_one split: if_splits)

lemma rtos_sem_try_wait_eq:
  assumes "unat s < length (k_semaphores k)"
  shows "rtos_sem_try_wait c s k =
    (if value_of k s = 0 then Inr (False, leave c k)
     else Inr (True, set_value s (value_of k s - 1) (leave c k)))"
  using assms
  by (simp add: rtos_sem_try_wait_def kbind_def kreturn_def internal_sem_try_wait_eq set_value_leave)

section \<open>Waiters of a semaphore\<close>

text \<open>
  A task is registered as a waiter of a semaphore only while the value is 0: this is what lets
  \<open>sem_post\<close> skip the wake-up loop for positive values. Blocking registers the current task.
\<close>

definition sem_waiters_inv :: "config \<Rightarrow> ('s, 'z) sem_kernel_scheme \<Rightarrow> bool" where
  "sem_waiters_inv c k \<longleftrightarrow>
     (\<forall>t s. unat t < tasks_length c \<longrightarrow> unat s < length (k_semaphores k) \<longrightarrow>
        sem_waiting_for k t = s \<longrightarrow> value_of k s = 0)"

lemma sem_waiting_for_frame [simp]:
  "sem_waiting_for (enter c k) = sem_waiting_for k" "sem_waiting_for (leave c k) = sem_waiting_for k"
  "sem_waiting_for (set_value s v k) = sem_waiting_for k"
  "sem_waiting_for (k_sched_update g k) = sem_waiting_for k"
  by (simp_all add: sem_waiting_for_def fun_eq_iff)

lemma sem_waiters_inv_frame [simp]:
  "sem_waiters_inv c (enter c' k) = sem_waiters_inv c k" "sem_waiters_inv c (leave c' k) = sem_waiters_inv c k"
  "sem_waiters_inv c (k_sched_update g k) = sem_waiters_inv c k"
  by (simp_all add: sem_waiters_inv_def)

lemma sem_init_inv:
  assumes "length (k_sem_waiters k) = tasks_length c" and "tasks_length c \<le> 255"
    and "length (k_semaphores k) \<le> 255"
  shows "\<exists>k'. sem_init c k = Inr ((), k') \<and> sem_waiters_inv c k' \<and> k_semaphores k' = k_semaphores k"
proof -
  let ?g = "\<lambda>t k. k\<lparr>k_sem_waiters := (k_sem_waiters k)[unat t := SEM_ID_NONE]\<rparr>"
  let ?P = "\<lambda>k'. length (k_sem_waiters k') = tasks_length c \<and> k_semaphores k' = k_semaphores k"
  have fold: "t \<in> set xs \<or> k_sem_waiters k' ! unat t = SEM_ID_NONE \<Longrightarrow> unat t < length (k_sem_waiters k') \<Longrightarrow>
      k_sem_waiters (fold ?g xs k') ! unat t = SEM_ID_NONE" for t xs k'
  proof (induction xs arbitrary: k')
    case (Cons u xs)
    show ?case using Cons.prems Cons.IH [of "?g u k'"] by (cases "u = t") (auto simp: word_unat_eq_iff)
  qed simp
  have run: "sem_init c k = Inr ((), fold ?g (ids (tasks_length c)) k) \<and> ?P (fold ?g (ids (tasks_length c)) k)"
    unfolding sem_init_def TASK_ID_ZERO_def TASK_ID_END_def for_each_kseq [OF assms(2)]
    by (rule kseq_map_fold) (use assms in \<open>auto simp: set_ids\<close>)
  have "sem_waiting_for (fold ?g (ids (tasks_length c)) k) t = 255" if "unat t < tasks_length c" for t
    using that fold [of t "ids (tasks_length c)" k] assms
    by (simp add: sem_waiting_for_def set_ids SEM_ID_NONE_def)
  then have "sem_waiters_inv c (fold ?g (ids (tasks_length c)) k)"
    using run assms by (simp add: sem_waiters_inv_def)
  with run show ?thesis by blast
qed

lemma sem_waiters_inv_take:
  assumes "sem_waiters_inv c k" and "unat s < length (k_semaphores k)" and "value_of k s \<noteq> 0"
  shows "sem_waiters_inv c (set_value s (value_of k s - 1) k)"
  using assms by (auto simp: sem_waiters_inv_def value_of_set)

lemma internal_sem_try_wait_inv:
  assumes "preempt_ok c k" and "unat s < length (k_semaphores k)" and "sem_waiters_inv c k"
    and "internal_sem_try_wait c s k = Inr (r, k')"
  shows "sem_waiters_inv c k'"
  using assms by (auto simp: internal_sem_try_wait_eq sem_waiters_inv_take split: if_splits)

text \<open>A task that finds the value 0 registers and blocks; the registration keeps the invariant.\<close>

lemma sem_wait_attempt_blocks:
  assumes "preempt_ok c k" and "current_ok c k" and "unat s < length (k_semaphores k)"
    and "semaphores_ok c k" and "value_of k s = 0"
    and "sem_core_block sc (k\<lparr>k_sem_waiters := (k_sem_waiters k)[unat (k_current_task k) := s]\<rparr>) = Inr (p, k')"
  shows "sem_wait_attempt c sc s k = Inr (Suspended (Sem_Waiting s p), k')"
  using assms
  by (simp add: sem_wait_attempt_def kbind_def kreturn_def internal_sem_try_wait_eq semaphores_ok_def current_ok_def)

lemma sem_waiters_inv_register:
  assumes "sem_waiters_inv c k" and "value_of k s = 0" and "semaphores_ok c k"
    and "unat t < tasks_length c"
  shows "sem_waiters_inv c (k\<lparr>k_sem_waiters := (k_sem_waiters k)[unat t := s]\<rparr>)"
  using assms
  by (auto simp: sem_waiters_inv_def sem_waiting_for_def semaphores_ok_def nth_list_update value_of_def)

lemma sem_wait_attempt_takes:
  assumes "preempt_ok c k" and "unat s < length (k_semaphores k)" and "value_of k s \<noteq> 0"
  shows "sem_wait_attempt c sc s k =
    Inr (Finished True, set_value s (value_of k s - 1) (leave c k))"
  using assms
  by (simp add: sem_wait_attempt_def kbind_def kreturn_def internal_sem_try_wait_eq co_finish_def set_value_leave)

section \<open>Posting\<close>

text \<open>What waking tasks leaves alone.\<close>

definition sem_rest_eq :: "('s, 'z) sem_kernel_scheme \<Rightarrow> ('s, 'z) sem_kernel_scheme \<Rightarrow> bool" where
  "sem_rest_eq k k' \<longleftrightarrow> k_current_task k' = k_current_task k \<and>
     k_preempt_disabled k' = k_preempt_disabled k \<and> k_interrupt_event k' = k_interrupt_event k \<and>
     k_timers k' = k_timers k \<and> k_timer_current_ticks k' = k_timer_current_ticks k \<and>
     k_timer_pending_ticks k' = k_timer_pending_ticks k \<and> k_task_timers k' = k_task_timers k \<and>
     k_interrupt_events k' = k_interrupt_events k \<and> k_mutexes k' = k_mutexes k \<and>
     k_mutex_waiters k' = k_mutex_waiters k \<and> k_mutex_stats k' = k_mutex_stats k \<and>
     k_semaphores k' = k_semaphores k \<and> sem_kernel.more k' = sem_kernel.more k"

definition sem_outside_eq :: "('s, 'z) sem_kernel_scheme \<Rightarrow> ('s, 'z) sem_kernel_scheme \<Rightarrow> bool" where
  "sem_outside_eq k k' \<longleftrightarrow> k_current_task k' = k_current_task k \<and> k_interrupt_event k' = k_interrupt_event k \<and>
     k_timers k' = k_timers k \<and> k_timer_pending_ticks k' = k_timer_pending_ticks k \<and> k_task_timers k' = k_task_timers k \<and>
     k_interrupt_events k' = k_interrupt_events k \<and> k_mutexes k' = k_mutexes k \<and>
     k_mutex_waiters k' = k_mutex_waiters k \<and> k_mutex_stats k' = k_mutex_stats k \<and> sem_kernel.more k' = sem_kernel.more k"

lemma sem_rest_refl [simp]: "sem_rest_eq k k"
  by (simp add: sem_rest_eq_def)

lemma sem_rest_sent: "\<forall>t k'. sem_rest_eq k k' \<longrightarrow> sem_rest_eq k (signal_sent c ready t sigs k')"
  by (simp add: sem_rest_eq_def) (simp add: signal_sent_def pend_def set_pending_def)

lemma sem_rest_waiters: "\<forall>f k'. sem_rest_eq k k' \<longrightarrow> sem_rest_eq k (k_sem_waiters_update f k')"
  by (simp add: sem_rest_eq_def)

lemma sem_rest_readied_sent:
  "\<forall>t k'. sem_rest_eq k k' \<and> readied c ready k1 k' \<longrightarrow>
     sem_rest_eq k (signal_sent c ready t sigs k') \<and> readied c ready k1 (signal_sent c ready t sigs k')"
  using sem_rest_sent readied_sent by blast

lemma sem_rest_readied_waiters:
  "\<forall>f k'. sem_rest_eq k k' \<and> readied c ready k1 k' \<longrightarrow>
     sem_rest_eq k (k_sem_waiters_update f k') \<and> readied c ready k1 (k_sem_waiters_update f k')"
  using sem_rest_waiters [of k] by (auto simp: readied_def)

locale sem_control = event_control set_runnable set_blocked get_next ready block inv ntasks runnable
    c unblock block_task nevents
  for set_runnable set_blocked get_next ready block
    and inv :: "'s \<Rightarrow> bool" and ntasks runnable and c :: config
    and unblock :: "u8 \<Rightarrow> (('s, 'z) sem_kernel_scheme, unit) kop"
    and block_task nevents +
  fixes sc :: "('s, 'z) sem_kernel_scheme sem_core"
  assumes core_unblock: "kernel_inv c inv ntasks k \<Longrightarrow> preempt_ok c k \<Longrightarrow> signals_ok c k \<Longrightarrow>
      unat t < tasks_length c \<Longrightarrow>
      sem_core_unblock sc t k = Inr ((), signal_sent c ready t (SIGNAL_ID__TASK_TIMER c) k)"
begin

sublocale sem_waiters: waiter_table set_runnable set_blocked get_next ready block inv ntasks runnable
  c unblock block_task k_sem_waiters k_sem_waiters_update "sem_core_unblock sc" SEM_ID_NONE
  "SIGNAL_ID__TASK_TIMER c"
  by unfold_locales (rule core_unblock; assumption | simp)+

lemma sem_wake_if_zero:
  assumes ok: "kernel_inv c inv ntasks k" "signals_ok c k" and s: "unat s < length (k_semaphores k)"
    and sems: "semaphores_ok c k" and len: "tasks_length c \<le> 255" and winv: "sem_waiters_inv c k"
  shows "\<exists>k1. kbind (array_read k_semaphores s) (\<lambda>sem.
      kwhen (sem_value sem = SEM_VALUE_ZERO)
        (for_each 0 (tasks_length c)
          (wake_waiter k_sem_waiters k_sem_waiters_update (sem_core_unblock sc) SEM_ID_NONE s))) (enter c k)
      = Inr ((), k1) \<and> kernel_inv c inv ntasks k1 \<and> preempt_ok c k1 \<and> signals_ok c k1 \<and>
    sem_rest_eq (enter c k) k1 \<and>
    (\<forall>t. unat t < tasks_length c \<longrightarrow>
       sem_waiting_for k1 t = (if sem_waiting_for k t = s then SEM_ID_NONE else sem_waiting_for k t)) \<and>
    (\<forall>t. unat t < tasks_length c \<longrightarrow> pending_of k1 t =
       (if sem_waiting_for k t = s then pending_of k t OR SIGNAL_ID__TASK_TIMER c else pending_of k t)) \<and>
    (\<forall>t. unat t < tasks_length c \<longrightarrow>
       runnable (k_sched k1) t = (runnable (k_sched k) t \<or> sem_waiting_for k t = s)) \<and>
    length (k_sem_waiters k1) = tasks_length c \<and> readied c ready (enter c k) k1"
proof (cases "value_of k s = 0")
  case True
  have ne: "s \<noteq> SEM_ID_NONE" using s sems by (auto simp: SEM_ID_NONE_def semaphores_ok_def)
  have w: "sem_waiters.waiters_ok (enter c k)"
    using ok sems by (simp add: sem_waiters.waiters_ok_def semaphores_ok_def)
  obtain k1 where k1: "for_each 0 (tasks_length c)
      (wake_waiter k_sem_waiters k_sem_waiters_update (sem_core_unblock sc) SEM_ID_NONE s) (enter c k) = Inr ((), k1)"
    "sem_waiters.waiters_ok k1" "sem_rest_eq (enter c k) k1 \<and> readied c ready (enter c k) k1"
    "\<forall>t < tasks_length c. k_sem_waiters k1 ! t =
       (if k_sem_waiters (enter c k) ! t = s then SEM_ID_NONE else k_sem_waiters (enter c k) ! t)"
    "\<forall>t. unat t < tasks_length c \<longrightarrow> pending_of k1 t =
       (if k_sem_waiters (enter c k) ! unat t = s then pending_of (enter c k) t OR SIGNAL_ID__TASK_TIMER c
        else pending_of (enter c k) t)"
    "\<forall>t. unat t < tasks_length c \<longrightarrow> runnable (k_sched k1) t =
       (runnable (k_sched (enter c k)) t \<or> k_sem_waiters (enter c k) ! unat t = s)"
    using sem_waiters.wake_waiters [where Q = "\<lambda>k1. sem_rest_eq (enter c k) k1 \<and> readied c ready (enter c k) k1",
        OF w len ne conjI [OF sem_rest_refl readied_refl] sem_rest_readied_sent sem_rest_readied_waiters]
    by (elim exE conjE) (rule that; (intro conjI)?; assumption)
  then show ?thesis
    using True s
    by (intro exI [of _ k1])
       (simp add: kbind_def kwhen_def SEM_VALUE_ZERO_def value_of_def sem_waiting_for_def
         sem_waiters.waiters_ok_def)
next
  case False
  then have "\<forall>t. unat t < tasks_length c \<longrightarrow> sem_waiting_for k t \<noteq> s"
    using winv s by (auto simp: sem_waiters_inv_def)
  then show ?thesis
    using False s ok sems
    by (intro exI [of _ "enter c k"])
       (simp add: kbind_def kwhen_def kreturn_def SEM_VALUE_ZERO_def value_of_def semaphores_ok_def)
qed

text \<open>
  Posting adds one unit and wakes all tasks registered for the semaphore; with a maximum, a post
  that would exceed it is a fatal error instead.
\<close>

lemma rtos_sem_post_eq:
  assumes ok: "kernel_inv c inv ntasks k" "signals_ok c k" and s: "unat s < length (k_semaphores k)"
    and sems: "semaphores_ok c k" and len: "tasks_length c \<le> 255" and winv: "sem_waiters_inv c k"
    and max: "sem_enable_max sc \<longrightarrow> max_of k s \<noteq> 0 \<and> value_of k s < max_of k s"
  shows "\<exists>k'. rtos_sem_post c sc s k = Inr ((), k') \<and> kernel_inv c inv ntasks k' \<and> signals_ok c k' \<and>
    semaphores_ok c k' \<and> sem_waiters_inv c k' \<and>
    value_of k' s = value_of k s + 1 \<and> (\<forall>r. r \<noteq> s \<longrightarrow> value_of k' r = value_of k r) \<and>
    (\<forall>t. unat t < tasks_length c \<longrightarrow>
       sem_waiting_for k' t = (if sem_waiting_for k t = s then SEM_ID_NONE else sem_waiting_for k t)) \<and>
    (\<forall>t. unat t < tasks_length c \<longrightarrow> pending_of k' t =
       (if sem_waiting_for k t = s then pending_of k t OR SIGNAL_ID__TASK_TIMER c else pending_of k t)) \<and>
    (\<forall>t. unat t < tasks_length c \<longrightarrow>
       runnable (k_sched k') t = (runnable (k_sched k) t \<or> sem_waiting_for k t = s)) \<and>
    length (k_semaphores k') = length (k_semaphores k) \<and> sem_outside_eq k k' \<and> readied c ready k k' \<and>
    (preemption_support c \<longrightarrow> \<not> k_preempt_disabled k')"
proof -
  obtain k1 where k1: "kbind (array_read k_semaphores s) (\<lambda>sem.
      kwhen (sem_value sem = SEM_VALUE_ZERO)
        (for_each 0 (tasks_length c)
          (wake_waiter k_sem_waiters k_sem_waiters_update (sem_core_unblock sc) SEM_ID_NONE s))) (enter c k)
      = Inr ((), k1)" "kernel_inv c inv ntasks k1" "preempt_ok c k1" "signals_ok c k1"
    "sem_rest_eq (enter c k) k1"
    "\<forall>t. unat t < tasks_length c \<longrightarrow>
       sem_waiting_for k1 t = (if sem_waiting_for k t = s then SEM_ID_NONE else sem_waiting_for k t)"
    "\<forall>t. unat t < tasks_length c \<longrightarrow> pending_of k1 t =
       (if sem_waiting_for k t = s then pending_of k t OR SIGNAL_ID__TASK_TIMER c else pending_of k t)"
    "\<forall>t. unat t < tasks_length c \<longrightarrow>
       runnable (k_sched k1) t = (runnable (k_sched k) t \<or> sem_waiting_for k t = s)"
    "length (k_sem_waiters k1) = tasks_length c" "readied c ready (enter c k) k1"
    using sem_wake_if_zero [OF assms(1-6)] by (elim exE conjE) (rule that; assumption)
  have sm: "k_semaphores k1 = k_semaphores k" using k1(5) by (simp add: sem_rest_eq_def)
  have s1: "unat s < length (k_semaphores k1)" using s sm by simp
  have v1: "value_of k1 = value_of k" by (simp add: value_of_def sm fun_eq_iff)
  have maxes: "kwhen (sem_enable_max sc)
             (kbind (api_assert_expr c
                 (kbind (array_read k_semaphores s) (\<lambda>sem. kreturn (sem_max sem \<noteq> SEM_VALUE_ZERO)))
                 ERROR_ID_SEMAPHORE_MAX_USE_BEFORE_INIT) (\<lambda>_.
              kbind (array_read k_semaphores s) (\<lambda>sem.
              kwhen (sem_value sem \<ge> sem_max sem) (fatal_error ERROR_ID_SEMAPHORE_MAX_EXCEEDED))))
        (enter c k) = Inr ((), enter c k)"
    using max s
    by (auto simp: kwhen_def kbind_def kreturn_def api_assert_expr_def max_of_def value_of_def SEM_VALUE_ZERO_def)
  let ?k' = "set_value s (value_of k s + 1) (leave c k1)"
  have run: "rtos_sem_post c sc s k = Inr ((), ?k')"
    using s maxes k1(1,3) s1 sem_modify_value_run [of s "\<lambda>v. v + 1" k1]
    by (simp add: rtos_sem_post_def kbind_def kreturn_def TASK_ID_ZERO_def TASK_ID_END_def set_value_leave v1)
  have ne: "s \<noteq> SEM_ID_NONE" using s sems by (auto simp: SEM_ID_NONE_def semaphores_ok_def)
  have val: "value_of ?k' r = (if r = s then value_of k s + 1 else value_of k r)" for r
    using s1 by (simp add: value_of_set v1)
  have "sem_waiters_inv c ?k'"
    using winv k1(6) sems sm ne unfolding sem_waiters_inv_def val
    by (auto simp: SEM_ID_NONE_def semaphores_ok_def)
  moreover have "semaphores_ok c ?k'" using sems sm k1(9) by (simp add: semaphores_ok_def)
  moreover have "sem_outside_eq k ?k'"
    using k1(5) by (simp add: sem_outside_eq_def sem_rest_eq_def set_value_def leave_def enter_def)
  moreover have "readied c ready k ?k'"
    using k1(10) readied_frame [of k "enter c k" ?k' k1] by (simp add: set_value_def)
  ultimately show ?thesis
    using run val k1(2-4,6-8) sm by (intro exI [of _ ?k']) (simp add: val)
qed

lemma rtos_sem_post_exceeds:
  assumes "unat s < length (k_semaphores k)" and "sem_enable_max sc"
    and "max_of k s \<noteq> 0" and "max_of k s \<le> value_of k s"
  shows "rtos_sem_post c sc s k = Inl (Fatal ERROR_ID_SEMAPHORE_MAX_EXCEEDED)"
  using assms
  by (auto simp: rtos_sem_post_def kwhen_def kbind_def kreturn_def api_assert_expr_def max_of_def value_of_def
      SEM_VALUE_ZERO_def)

end

end
