(* ===== verification/Message_Queue.thy ===== *)
theory Message_Queue
  imports Blocking_Mutex
begin

text \<open>
  The message-queue component (\<open>components/message-queue\<close>). A queue is a ring buffer of fixed-size
  messages in a byte array. The code copies messages between these arrays and buffers of the
  application through pointers, so the model has a byte memory: a pointer is an address, \<open>NULL\<close> is 0.
\<close>

section \<open>Model\<close>

definition MESSAGE_QUEUE_ID_NONE :: u8 where
  "MESSAGE_QUEUE_ID_NONE = 255"

record message_queue =
  mq_messages :: nat
  mq_message_size :: u8
  mq_queue_length :: u8
  mq_head :: u8
  mq_available :: u8

record 's mq_kernel = "'s mutex_kernel" +
  k_message_queues :: "message_queue list"
  k_message_queue_waiters :: "u8 list"
  k_memory :: "nat \<Rightarrow> u8"

text \<open>
  The variant supplies how a task blocks, is woken, and is seen to be unblocked. \<open>mq_config\<close> is what
  the template instantiates per queue: array, message size and queue length.
\<close>

record 'k mq_core =
  mq_core_block :: "('k, signal_pc) kop"
  mq_core_block_resume :: "signal_pc \<Rightarrow> ('k, (signal_pc, unit) progress) kop"
  mq_core_block_timeout :: "u16 \<Rightarrow> ('k, signal_pc) kop"
  mq_core_block_timeout_resume :: "signal_pc \<Rightarrow> ('k, (signal_pc, unit) progress) kop"
  mq_core_unblock :: "u8 \<Rightarrow> ('k, unit) kop"
  mq_core_is_unblocked :: "u8 \<Rightarrow> ('k, bool) kop"
  mq_config :: "(nat \<times> u8 \<times> u8) list"

definition TASK_ID_MAX :: "config \<Rightarrow> u8" where
  "TASK_ID_MAX c = of_nat (tasks_length c) - 1"

definition mq_modify :: "u8 \<Rightarrow> (message_queue \<Rightarrow> message_queue) \<Rightarrow> (('s, 'z) mq_kernel_scheme, unit) kop" where
  "mq_modify q f = array_modify k_message_queues k_message_queues_update q f"

definition set_mq_waiter :: "u8 \<Rightarrow> u8 \<Rightarrow> (('s, 'z) mq_kernel_scheme, unit) kop" where
  "set_mq_waiter t q = array_modify k_message_queue_waiters k_message_queue_waiters_update t (\<lambda>_. q)"

definition message_queue_api_assert_valid :: "config \<Rightarrow> u8 \<Rightarrow> (('s, 'z) mq_kernel_scheme, unit) kop" where
  "message_queue_api_assert_valid c q =
     kbind (kgets (\<lambda>k. length (k_message_queues k))) (\<lambda>message_queues_length.
     api_assert c (unat q < message_queues_length) ERROR_ID_INVALID_ID)"

definition message_queue_internal_assert_valid :: "config \<Rightarrow> u8 \<Rightarrow> (('s, 'z) mq_kernel_scheme, unit) kop" where
  "message_queue_internal_assert_valid c q =
     kbind (kgets (\<lambda>k. length (k_message_queues k))) (\<lambda>message_queues_length.
     internal_assert c (unat q < message_queues_length) ERROR_ID_INVALID_ID)"

text \<open>\<open>message_queue_init\<close> counts down to 0, and then checks the waiters.\<close>

definition mq_init_check :: "config \<Rightarrow> u8 \<Rightarrow> (('s, 'z) mq_kernel_scheme, unit) kop" where
  "mq_init_check c q =
     kbind (array_read k_message_queues q) (\<lambda>mq.
     internal_assert c
       (mq_messages mq \<noteq> 0 \<and> mq_message_size mq \<noteq> 0 \<and> mq_queue_length mq \<noteq> 0 \<and>
        mq_head mq = 0 \<and> mq_available mq = 0)
       ERROR_ID_MESSAGE_QUEUE_INTERNAL_INCORRECT_INITIALIZATION)"

fun mq_init_loop :: "config \<Rightarrow> nat \<Rightarrow> (('s, 'z) mq_kernel_scheme, unit) kop" where
  "mq_init_loop c 0 = mq_init_check c 0"
| "mq_init_loop c (Suc q) = kbind (mq_init_check c (of_nat (Suc q))) (\<lambda>_. mq_init_loop c q)"

definition message_queue_init :: "config \<Rightarrow> (('s, 'z) mq_kernel_scheme, unit) kop" where
  "message_queue_init c =
     kbind (kgets (\<lambda>k. length (k_message_queues k))) (\<lambda>message_queues_length.
     kwhen (0 < message_queues_length \<and> internal_asserts c)
       (kseq [mq_init_loop c (unat (of_nat message_queues_length - 1 :: u8)),
              for_each_upto (TASK_ID_MAX c) (\<lambda>task.
                kbind (array_read k_message_queue_waiters task) (\<lambda>w.
                internal_assert c (w = MESSAGE_QUEUE_ID_NONE)
                  ERROR_ID_MESSAGE_QUEUE_INTERNAL_INCORRECT_INITIALIZATION))]))"

subsection \<open>Invariant checks of the code\<close>

definition mq_check_config ::
  "config \<Rightarrow> ('s, 'z) mq_kernel_scheme mq_core \<Rightarrow> u8 \<Rightarrow> (('s, 'z) mq_kernel_scheme, unit) kop"
where
  "mq_check_config c mc idx =
     kbind (array_read k_message_queues idx) (\<lambda>mq.
     case mq_config mc ! unat idx of (messages, message_size, queue_length) \<Rightarrow>
     kseq [internal_assert c (mq_messages mq = messages)
             ERROR_ID_MESSAGE_QUEUE_INTERNAL_VIOLATED_INVARIANT_INVALID_MESSAGES_POINTER,
           internal_assert c (mq_message_size mq = message_size)
             ERROR_ID_MESSAGE_QUEUE_INTERNAL_VIOLATED_INVARIANT_INVALID_MESSAGE_SIZE,
           internal_assert c (mq_queue_length mq = queue_length)
             ERROR_ID_MESSAGE_QUEUE_INTERNAL_VIOLATED_INVARIANT_INVALID_QUEUE_LENGTH])"

definition mq_check_queue :: "config \<Rightarrow> u8 \<Rightarrow> (('s, 'z) mq_kernel_scheme, unit) kop" where
  "mq_check_queue c q =
     kbind (array_read k_message_queues q) (\<lambda>mq.
     kseq [internal_assert c (mq_messages mq \<noteq> 0 \<and> mq_message_size mq \<noteq> 0 \<and> mq_queue_length mq \<noteq> 0)
             ERROR_ID_MESSAGE_QUEUE_INTERNAL_VIOLATED_INVARIANT_CONFIGURATION,
           internal_assert c (mq_head mq < mq_queue_length mq)
             ERROR_ID_MESSAGE_QUEUE_INTERNAL_VIOLATED_INVARIANT_INVALID_HEAD,
           internal_assert c (mq_available mq \<le> mq_queue_length mq)
             ERROR_ID_MESSAGE_QUEUE_INTERNAL_VIOLATED_INVARIANT_INVALID_AVAILABLE])"

definition mq_check_waiter ::
  "config \<Rightarrow> ('s, 'z) mq_kernel_scheme mq_core \<Rightarrow> u8 \<Rightarrow> (('s, 'z) mq_kernel_scheme, unit) kop"
where
  "mq_check_waiter c mc task =
     kbind (array_read k_message_queue_waiters task) (\<lambda>q.
     kbind (kgets (\<lambda>k. length (k_message_queues k))) (\<lambda>message_queues_length.
     kbind (internal_assert c (unat q < message_queues_length \<or> q = MESSAGE_QUEUE_ID_NONE)
       ERROR_ID_MESSAGE_QUEUE_INTERNAL_VIOLATED_INVARIANT_INVALID_ID_IN_WAITERS) (\<lambda>_.
     kwhen (q \<noteq> MESSAGE_QUEUE_ID_NONE)
       (kbind (array_read k_message_queues q) (\<lambda>mq.
        kbind (internal_assert c (mq_available mq = 0 \<or> mq_available mq = mq_queue_length mq)
          ERROR_ID_MESSAGE_QUEUE_INTERNAL_VIOLATED_INVARIANT_TASKS_BLOCKED_DESPITE_AVAILABLE_MESSAGES) (\<lambda>_.
        kbind (mq_core_is_unblocked mc task) (\<lambda>unblocked.
        internal_assert c (\<not> unblocked)
          ERROR_ID_MESSAGE_QUEUE_INTERNAL_VIOLATED_INVARIANT_WAITING_TASK_IS_NOT_BLOCKED)))))))"

definition message_queue_invariants_check ::
  "config \<Rightarrow> ('s, 'z) mq_kernel_scheme mq_core \<Rightarrow> (('s, 'z) mq_kernel_scheme, unit) kop"
where
  "message_queue_invariants_check c mc =
     kwhen (internal_asserts c)
       (kbind (kgets (\<lambda>k. length (k_message_queues k))) (\<lambda>message_queues_length.
        kseq [kseq (map (mq_check_config c mc) (ids (length (mq_config mc)))),
              for_each 0 message_queues_length (mq_check_queue c),
              for_each_upto (TASK_ID_MAX c) (mq_check_waiter c mc),
              kbind (get_current_task c) (\<lambda>current.
              kbind (array_read k_task_timers current) (\<lambda>timer_id.
              kbind (array_read k_timers timer_id) (\<lambda>timer.
              internal_assert c (\<not> tm_enabled timer)
                ERROR_ID_MESSAGE_QUEUE_INTERNAL_VIOLATED_INVARIANT_TIMER_IS_ENABLED)))]))"

subsection \<open>Waiting and waking\<close>

definition mq_wake_waiter ::
  "('s, 'z) mq_kernel_scheme mq_core \<Rightarrow> u8 \<Rightarrow> u8 \<Rightarrow> (('s, 'z) mq_kernel_scheme, unit) kop"
where
  "mq_wake_waiter mc q task =
     kbind (array_read k_message_queue_waiters task) (\<lambda>w.
     kwhen (w = q) (kseq [mq_core_unblock mc task, set_mq_waiter task MESSAGE_QUEUE_ID_NONE]))"

definition message_queue_waiters_wakeup ::
  "config \<Rightarrow> ('s, 'z) mq_kernel_scheme mq_core \<Rightarrow> u8 \<Rightarrow> (('s, 'z) mq_kernel_scheme, unit) kop"
where
  "message_queue_waiters_wakeup c mc q =
     kbind (message_queue_internal_assert_valid c q) (\<lambda>_.
     for_each_upto (TASK_ID_MAX c) (mq_wake_waiter mc q))"

definition message_queue_wait ::
  "config \<Rightarrow> ('s, 'z) mq_kernel_scheme mq_core \<Rightarrow> u8 \<Rightarrow> (('s, 'z) mq_kernel_scheme, signal_pc) kop"
where
  "message_queue_wait c mc q =
     kbind (message_queue_internal_assert_valid c q) (\<lambda>_.
     kbind (message_queue_invariants_check c mc) (\<lambda>_.
     kbind (get_current_task c) (\<lambda>current.
     kbind (set_mq_waiter current q) (\<lambda>_.
     mq_core_block mc))))"

definition message_queue_wait_resume ::
  "config \<Rightarrow> ('s, 'z) mq_kernel_scheme mq_core \<Rightarrow> signal_pc \<Rightarrow>
     (('s, 'z) mq_kernel_scheme, (signal_pc, unit) progress) kop"
where
  "message_queue_wait_resume c mc p =
     co_bind (mq_core_block_resume mc p) id
       (\<lambda>_. co_finish (message_queue_invariants_check c mc) ())"

definition message_queue_wait_timeout ::
  "config \<Rightarrow> ('s, 'z) mq_kernel_scheme mq_core \<Rightarrow> u8 \<Rightarrow> u16 \<Rightarrow> (('s, 'z) mq_kernel_scheme, signal_pc) kop"
where
  "message_queue_wait_timeout c mc q timeout =
     kbind (message_queue_internal_assert_valid c q) (\<lambda>_.
     kbind (internal_assert c (timeout \<noteq> 0) ERROR_ID_MESSAGE_QUEUE_INTERNAL_ZERO_TIMEOUT) (\<lambda>_.
     kbind (message_queue_invariants_check c mc) (\<lambda>_.
     kbind (get_current_task c) (\<lambda>current.
     kbind (set_mq_waiter current q) (\<lambda>_.
     mq_core_block_timeout mc timeout)))))"

definition message_queue_wait_timeout_resume ::
  "config \<Rightarrow> ('s, 'z) mq_kernel_scheme mq_core \<Rightarrow> signal_pc \<Rightarrow>
     (('s, 'z) mq_kernel_scheme, (signal_pc, unit) progress) kop"
where
  "message_queue_wait_timeout_resume c mc p =
     co_bind (mq_core_block_timeout_resume mc p) id (\<lambda>_.
       kbind (get_current_task c) (\<lambda>current.
       kbind (set_mq_waiter current MESSAGE_QUEUE_ID_NONE) (\<lambda>_.
       co_finish (message_queue_invariants_check c mc) ())))"

subsection \<open>Copying\<close>

function memcopy_loop :: "nat \<Rightarrow> nat \<Rightarrow> nat \<Rightarrow> (nat \<Rightarrow> u8) \<Rightarrow> nat \<Rightarrow> u8" where
  "memcopy_loop dst src dst_end mem =
     (if dst < dst_end then memcopy_loop (Suc dst) (Suc src) dst_end (mem(dst := mem src)) else mem)"
  by pat_completeness auto
termination
  by (relation "measure (\<lambda>(dst, src, dst_end, mem). dst_end - dst)") auto

declare memcopy_loop.simps [simp del]

definition memcopy :: "config \<Rightarrow> nat \<Rightarrow> nat \<Rightarrow> u8 \<Rightarrow> (('s, 'z) mq_kernel_scheme, unit) kop" where
  "memcopy c dst src len =
     kbind (api_assert c (dst < src \<or> src + unat len \<le> dst) ERROR_ID_MESSAGE_QUEUE_BUFFER_OVERLAP) (\<lambda>_.
     kmodify (\<lambda>k. k\<lparr>k_memory := memcopy_loop dst src (dst + unat len) (k_memory k)\<rparr>))"

subsection \<open>Public interface\<close>

text \<open>
  The computations of \<open>buffer_index\<close> and \<open>buffer_offset\<close>: in the type \<open>int\<close>, then stored in 8 and 16
  bits. The pointer \<open>messages + offset\<close> is an address.
\<close>

definition mq_buffer_index :: "message_queue \<Rightarrow> u8" where
  "mq_buffer_index mq = of_nat ((unat (mq_head mq) + unat (mq_available mq)) mod unat (mq_queue_length mq))"

definition mq_buffer_offset :: "u8 \<Rightarrow> message_queue \<Rightarrow> u16" where
  "mq_buffer_offset index mq = of_nat (unat index * unat (mq_message_size mq))"

definition rtos_message_queue_try_put ::
  "config \<Rightarrow> ('s, 'z) mq_kernel_scheme mq_core \<Rightarrow> u8 \<Rightarrow> nat \<Rightarrow> (('s, 'z) mq_kernel_scheme, bool) kop"
where
  "rtos_message_queue_try_put c mc q message =
     kbind (message_queue_api_assert_valid c q) (\<lambda>_.
     kbind (api_assert c (message \<noteq> 0) ERROR_ID_MESSAGE_QUEUE_INVALID_POINTER) (\<lambda>_.
     kbind (message_queue_invariants_check c mc) (\<lambda>_.
     kbind (array_read k_message_queues q) (\<lambda>mq.
     if mq_available mq = mq_queue_length mq then kreturn False
     else
       let buffer_offset = mq_buffer_offset (mq_buffer_index mq) mq in
       kbind (memcopy c (mq_messages mq + unat buffer_offset) message (mq_message_size mq)) (\<lambda>_.
       kbind (mq_modify q (\<lambda>mq. mq\<lparr>mq_available := mq_available mq + 1\<rparr>)) (\<lambda>_.
       kbind (array_read k_message_queues q) (\<lambda>mq.
       kbind (kwhen (mq_available mq = 1) (message_queue_waiters_wakeup c mc q)) (\<lambda>_.
       kbind (message_queue_invariants_check c mc) (\<lambda>_.
       kreturn True)))))))))"

definition rtos_message_queue_try_get ::
  "config \<Rightarrow> ('s, 'z) mq_kernel_scheme mq_core \<Rightarrow> u8 \<Rightarrow> nat \<Rightarrow> (('s, 'z) mq_kernel_scheme, bool) kop"
where
  "rtos_message_queue_try_get c mc q message =
     kbind (message_queue_api_assert_valid c q) (\<lambda>_.
     kbind (api_assert c (message \<noteq> 0) ERROR_ID_MESSAGE_QUEUE_INVALID_POINTER) (\<lambda>_.
     kbind (message_queue_invariants_check c mc) (\<lambda>_.
     kbind (array_read k_message_queues q) (\<lambda>mq.
     if mq_available mq = 0 then kreturn False
     else
       let buffer_offset = mq_buffer_offset (mq_head mq) mq in
       kbind (memcopy c message (mq_messages mq + unat buffer_offset) (mq_message_size mq)) (\<lambda>_.
       kbind (mq_modify q (\<lambda>mq. mq\<lparr>mq_head := of_nat ((unat (mq_head mq) + 1) mod unat (mq_queue_length mq))\<rparr>)) (\<lambda>_.
       kbind (mq_modify q (\<lambda>mq. mq\<lparr>mq_available := mq_available mq - 1\<rparr>)) (\<lambda>_.
       kbind (array_read k_message_queues q) (\<lambda>mq.
       kbind (kgets (\<lambda>k. length (k_message_queues k))) (\<lambda>message_queues_length.
       kbind (kwhen (int (unat (mq_available mq)) = int message_queues_length - 1)
                (message_queue_waiters_wakeup c mc q)) (\<lambda>_.
       kbind (message_queue_invariants_check c mc) (\<lambda>_.
       kreturn True)))))))))))"

text \<open>
  The blocking routines stop in \<open>message_queue_wait\<close> or \<open>message_queue_wait_timeout\<close>, with the queue,
  the application's buffer, and the absolute timeout.
\<close>

datatype mq_pc =
    MQ_Putting u8 nat signal_pc
  | MQ_Getting u8 nat signal_pc
  | MQ_Put_Timing u8 nat u32 signal_pc
  | MQ_Get_Timing u8 nat u32 signal_pc

definition mq_put_attempt ::
  "config \<Rightarrow> ('s, 'z) mq_kernel_scheme mq_core \<Rightarrow> u8 \<Rightarrow> nat \<Rightarrow>
     (('s, 'z) mq_kernel_scheme, (mq_pc, bool) progress) kop"
where
  "mq_put_attempt c mc q message =
     kbind (rtos_message_queue_try_put c mc q message) (\<lambda>r.
     if r then kreturn (Finished True)
     else kbind (message_queue_wait c mc q) (\<lambda>p. kreturn (Suspended (MQ_Putting q message p))))"

definition rtos_message_queue_put ::
  "config \<Rightarrow> ('s, 'z) mq_kernel_scheme mq_core \<Rightarrow> u8 \<Rightarrow> nat \<Rightarrow>
     (('s, 'z) mq_kernel_scheme, (mq_pc, bool) progress) kop"
where
  "rtos_message_queue_put c mc q message =
     kbind (message_queue_api_assert_valid c q) (\<lambda>_.
     kbind (api_assert c (message \<noteq> 0) ERROR_ID_MESSAGE_QUEUE_INVALID_POINTER) (\<lambda>_.
     mq_put_attempt c mc q message))"

definition mq_get_attempt ::
  "config \<Rightarrow> ('s, 'z) mq_kernel_scheme mq_core \<Rightarrow> u8 \<Rightarrow> nat \<Rightarrow>
     (('s, 'z) mq_kernel_scheme, (mq_pc, bool) progress) kop"
where
  "mq_get_attempt c mc q message =
     kbind (rtos_message_queue_try_get c mc q message) (\<lambda>r.
     if r then kreturn (Finished True)
     else kbind (message_queue_wait c mc q) (\<lambda>p. kreturn (Suspended (MQ_Getting q message p))))"

definition rtos_message_queue_get ::
  "config \<Rightarrow> ('s, 'z) mq_kernel_scheme mq_core \<Rightarrow> u8 \<Rightarrow> nat \<Rightarrow>
     (('s, 'z) mq_kernel_scheme, (mq_pc, bool) progress) kop"
where
  "rtos_message_queue_get c mc q message =
     kbind (message_queue_api_assert_valid c q) (\<lambda>_.
     kbind (api_assert c (message \<noteq> 0) ERROR_ID_MESSAGE_QUEUE_INVALID_POINTER) (\<lambda>_.
     mq_get_attempt c mc q message))"

text \<open>\<open>timeout\<close> is passed on as a relative tick count of 16 bits.\<close>

definition mq_timeout_asserts ::
  "config \<Rightarrow> ('s, 'z) mq_kernel_scheme mq_core \<Rightarrow> u8 \<Rightarrow> nat \<Rightarrow> u16 \<Rightarrow> (('s, 'z) mq_kernel_scheme, unit) kop"
where
  "mq_timeout_asserts c mc q message timeout =
     kseq [message_queue_api_assert_valid c q,
           api_assert c (message \<noteq> 0) ERROR_ID_MESSAGE_QUEUE_INVALID_POINTER,
           api_assert c (timeout \<noteq> 0) ERROR_ID_MESSAGE_QUEUE_ZERO_TIMEOUT,
           kbind (kgets k_timer_current_ticks) (\<lambda>now.
             internal_assert c (now < - 1 - ucast timeout) ERROR_ID_MESSAGE_QUEUE_INTERNAL_TICK_OVERFLOW),
           message_queue_invariants_check c mc]"

definition mq_put_timeout_attempt ::
  "config \<Rightarrow> ('s, 'z) mq_kernel_scheme mq_core \<Rightarrow> u8 \<Rightarrow> nat \<Rightarrow> u32 \<Rightarrow>
     (('s, 'z) mq_kernel_scheme, (mq_pc, bool) progress) kop"
where
  "mq_put_timeout_attempt c mc q message absolute_timeout =
     kbind (array_read k_message_queues q) (\<lambda>mq.
     kbind (kgets k_timer_current_ticks) (\<lambda>now.
     if mq_available mq = mq_queue_length mq \<and> absolute_timeout > now
     then kbind (message_queue_wait_timeout c mc q (ucast (absolute_timeout - now))) (\<lambda>p.
       kreturn (Suspended (MQ_Put_Timing q message absolute_timeout p)))
     else kbind (rtos_message_queue_try_put c mc q message) (\<lambda>r. kreturn (Finished r))))"

definition rtos_message_queue_put_timeout ::
  "config \<Rightarrow> ('s, 'z) mq_kernel_scheme mq_core \<Rightarrow> u8 \<Rightarrow> nat \<Rightarrow> u16 \<Rightarrow>
     (('s, 'z) mq_kernel_scheme, (mq_pc, bool) progress) kop"
where
  "rtos_message_queue_put_timeout c mc q message timeout =
     kbind (kgets (\<lambda>k. k_timer_current_ticks k + ucast timeout)) (\<lambda>absolute_timeout.
     kbind (mq_timeout_asserts c mc q message timeout) (\<lambda>_.
     mq_put_timeout_attempt c mc q message absolute_timeout))"

definition mq_get_timeout_attempt ::
  "config \<Rightarrow> ('s, 'z) mq_kernel_scheme mq_core \<Rightarrow> u8 \<Rightarrow> nat \<Rightarrow> u32 \<Rightarrow>
     (('s, 'z) mq_kernel_scheme, (mq_pc, bool) progress) kop"
where
  "mq_get_timeout_attempt c mc q message absolute_timeout =
     kbind (array_read k_message_queues q) (\<lambda>mq.
     kbind (kgets k_timer_current_ticks) (\<lambda>now.
     if mq_available mq = 0 \<and> absolute_timeout > now
     then kbind (message_queue_wait_timeout c mc q (ucast (absolute_timeout - now))) (\<lambda>p.
       kreturn (Suspended (MQ_Get_Timing q message absolute_timeout p)))
     else kbind (rtos_message_queue_try_get c mc q message) (\<lambda>r. kreturn (Finished r))))"

definition rtos_message_queue_get_timeout ::
  "config \<Rightarrow> ('s, 'z) mq_kernel_scheme mq_core \<Rightarrow> u8 \<Rightarrow> nat \<Rightarrow> u16 \<Rightarrow>
     (('s, 'z) mq_kernel_scheme, (mq_pc, bool) progress) kop"
where
  "rtos_message_queue_get_timeout c mc q message timeout =
     kbind (kgets (\<lambda>k. k_timer_current_ticks k + ucast timeout)) (\<lambda>absolute_timeout.
     kbind (mq_timeout_asserts c mc q message timeout) (\<lambda>_.
     mq_get_timeout_attempt c mc q message absolute_timeout))"

definition rtos_message_queue_resume ::
  "config \<Rightarrow> ('s, 'z) mq_kernel_scheme mq_core \<Rightarrow> mq_pc \<Rightarrow>
     (('s, 'z) mq_kernel_scheme, (mq_pc, bool) progress) kop"
where
  "rtos_message_queue_resume c mc pc =
     (case pc of
        MQ_Putting q message p \<Rightarrow>
          co_bind (message_queue_wait_resume c mc p) (MQ_Putting q message) (\<lambda>_. mq_put_attempt c mc q message)
      | MQ_Getting q message p \<Rightarrow>
          co_bind (message_queue_wait_resume c mc p) (MQ_Getting q message) (\<lambda>_. mq_get_attempt c mc q message)
      | MQ_Put_Timing q message absolute_timeout p \<Rightarrow>
          co_bind (message_queue_wait_timeout_resume c mc p) (MQ_Put_Timing q message absolute_timeout)
            (\<lambda>_. mq_put_timeout_attempt c mc q message absolute_timeout)
      | MQ_Get_Timing q message absolute_timeout p \<Rightarrow>
          co_bind (message_queue_wait_timeout_resume c mc p) (MQ_Get_Timing q message absolute_timeout)
            (\<lambda>_. mq_get_timeout_attempt c mc q message absolute_timeout))"

section \<open>Copying messages\<close>

text \<open>
  With the asserted condition the loop copies exactly \<open>len\<close> bytes, also when the destination
  overlaps the end of the source.
\<close>

lemma memcopy_loop_eq:
  assumes "dst < src \<or> src + n \<le> dst"
  shows "memcopy_loop dst src (dst + n) mem a = (if dst \<le> a \<and> a < dst + n then mem (src + (a - dst)) else mem a)"
  using assms
proof (induction n arbitrary: dst src mem)
  case 0
  show ?case by (auto simp: memcopy_loop.simps)
next
  case (Suc n)
  have "memcopy_loop dst src (dst + Suc n) mem a = memcopy_loop (Suc dst) (Suc src) (Suc dst + n) (mem(dst := mem src)) a"
    by (simp add: memcopy_loop.simps [of dst])
  also have "\<dots> = (if Suc dst \<le> a \<and> a < Suc dst + n then (mem(dst := mem src)) (Suc src + (a - Suc dst))
      else (mem(dst := mem src)) a)"
    by (rule Suc.IH) (use Suc.prems in auto)
  also have "\<dots> = (if dst \<le> a \<and> a < dst + Suc n then mem (src + (a - dst)) else mem a)"
    using Suc.prems by (auto simp: Suc_diff_Suc not_less_eq_eq)
  finally show ?case .
qed

definition read_bytes :: "(nat \<Rightarrow> u8) \<Rightarrow> nat \<Rightarrow> nat \<Rightarrow> u8 list" where
  "read_bytes mem p n = map (\<lambda>i. mem (p + i)) [0..<n]"

definition region :: "nat \<Rightarrow> nat \<Rightarrow> nat set" where
  "region p n = {p..<p + n}"

lemma read_bytes_cong: "(\<And>a. a \<in> region p n \<Longrightarrow> mem a = mem' a) \<Longrightarrow> read_bytes mem p n = read_bytes mem' p n"
  by (simp add: read_bytes_def region_def)

lemma read_bytes_copied:
  assumes "dst < src \<or> src + n \<le> dst"
  shows "read_bytes (memcopy_loop dst src (dst + n) mem) dst n = read_bytes mem src n"
  by (simp add: read_bytes_def memcopy_loop_eq [OF assms])

lemma read_bytes_not_copied:
  assumes "dst < src \<or> src + n \<le> dst" and "region dst n \<inter> region p m = {}"
  shows "read_bytes (memcopy_loop dst src (dst + n) mem) p m = read_bytes mem p m"
proof (rule read_bytes_cong)
  fix a assume a: "a \<in> region p m"
  then have "a \<notin> region dst n" using assms(2) by blast
  then show "memcopy_loop dst src (dst + n) mem a = mem a"
    by (auto simp: memcopy_loop_eq [OF assms(1)] region_def)
qed

lemma memcopy_run:
  "memcopy c dst src len k =
     (if dst < src \<or> src + unat len \<le> dst \<or> \<not> api_asserts c
      then Inr ((), k\<lparr>k_memory := memcopy_loop dst src (dst + unat len) (k_memory k)\<rparr>)
      else Inl (Fatal ERROR_ID_MESSAGE_QUEUE_BUFFER_OVERLAP))"
  by (simp add: memcopy_def kbind_def kmodify_def)

section \<open>Queues as lists of messages\<close>

definition mq_wf :: "message_queue \<Rightarrow> bool" where
  "mq_wf mq \<longleftrightarrow> mq_message_size mq \<noteq> 0 \<and> mq_queue_length mq \<noteq> 0 \<and>
     mq_head mq < mq_queue_length mq \<and> mq_available mq \<le> mq_queue_length mq"

definition mq_slot :: "message_queue \<Rightarrow> nat \<Rightarrow> nat" where
  "mq_slot mq i = mq_messages mq +
     ((unat (mq_head mq) + i) mod unat (mq_queue_length mq)) * unat (mq_message_size mq)"

definition mq_contents :: "(nat \<Rightarrow> u8) \<Rightarrow> message_queue \<Rightarrow> u8 list list" where
  "mq_contents mem mq =
     map (\<lambda>i. read_bytes mem (mq_slot mq i) (unat (mq_message_size mq))) [0..<unat (mq_available mq)]"

definition mq_array :: "message_queue \<Rightarrow> nat set" where
  "mq_array mq = region (mq_messages mq) (unat (mq_queue_length mq) * unat (mq_message_size mq))"

lemma mq_wf_nat:
  assumes "mq_wf mq"
  shows "0 < unat (mq_queue_length mq)" and "unat (mq_head mq) < unat (mq_queue_length mq)"
    and "unat (mq_available mq) \<le> unat (mq_queue_length mq)" and "unat (mq_queue_length mq) < 256"
    and "0 < unat (mq_message_size mq)" and "unat (mq_message_size mq) < 256"
  using assms u8_unat_less [of "mq_queue_length mq"] u8_unat_less [of "mq_message_size mq"]
  by (simp_all add: mq_wf_def unat_gt_0 word_less_nat_alt word_le_nat_alt)

lemma region_mult:
  assumes "i < (n::nat)"
  shows "region (p + i * s) s \<subseteq> region p (n * s)"
proof
  fix a assume a: "a \<in> region (p + i * s) s"
  have "Suc i * s \<le> n * s" using assms by (intro mult_le_mono1) simp
  then show "a \<in> region p (n * s)" using a by (simp add: region_def)
qed

lemma mq_slot_region:
  assumes "mq_wf mq"
  shows "region (mq_slot mq i) (unat (mq_message_size mq)) \<subseteq> mq_array mq"
  unfolding mq_slot_def mq_array_def
  by (rule region_mult) (use mq_wf_nat(1) [OF assms] in simp)

lemma region_disjoint_mult:
  assumes "(i::nat) \<noteq> j"
  shows "region (p + i * s) s \<inter> region (p + j * s) s = {}"
proof -
  have "i * s + s \<le> j * s" if "i < j" for i j :: nat
    using mult_le_mono1 [of "Suc i" j s] that by simp
  then show ?thesis using assms by (force simp: region_def neq_iff)
qed

text \<open>Different positions of the ring are different slots.\<close>

lemma mq_slot_disjoint:
  assumes "i < j" and "j < unat (mq_queue_length mq)"
  shows "region (mq_slot mq j) (unat (mq_message_size mq)) \<inter> region (mq_slot mq i) (unat (mq_message_size mq)) = {}"
proof -
  let ?n = "unat (mq_queue_length mq)" and ?h = "unat (mq_head mq)"
  have "(?h + j) mod ?n \<noteq> (?h + i) mod ?n"
  proof
    assume "(?h + j) mod ?n = (?h + i) mod ?n"
    then have "?n dvd (?h + j) - (?h + i)" by (rule mod_eq_dvd_iff_nat [THEN iffD1, rotated]) (use assms in simp)
    then have "?n dvd j - i" by simp
    then show False using assms by (auto dest: dvd_imp_le)
  qed
  then show ?thesis unfolding mq_slot_def by (intro region_disjoint_mult)
qed

lemma mq_offset_exact:
  assumes "i < 256" and "s < 256"
  shows "unat (of_nat (i * s) :: u16) = i * s"
proof -
  have "i * s \<le> 255 * 255" using assms by (intro mult_le_mono) auto
  then show ?thesis by (simp add: unat_of_nat del: of_nat_mult)
qed

text \<open>The position the code writes to is the slot after the last message, in exact arithmetic.\<close>

lemma mq_put_position:
  assumes "mq_wf mq"
  shows "mq_messages mq + unat (mq_buffer_offset (mq_buffer_index mq) mq) = mq_slot mq (unat (mq_available mq))"
proof -
  let ?j = "(unat (mq_head mq) + unat (mq_available mq)) mod unat (mq_queue_length mq)"
  have j: "?j < 256"
    using mq_wf_nat(1,4) [OF assms(1)]
    by (meson less_trans mod_less_divisor)
  then have "unat (mq_buffer_index mq) = ?j" unfolding mq_buffer_index_def by (rule u8_unat_of_nat)
  then show ?thesis
    using mq_offset_exact [OF j mq_wf_nat(6) [OF assms(1)]] by (simp add: mq_slot_def mq_buffer_offset_def)
qed

lemma mq_get_position:
  assumes "mq_wf mq"
  shows "mq_messages mq + unat (mq_buffer_offset (mq_head mq) mq) = mq_slot mq 0"
  using mq_offset_exact [of "unat (mq_head mq)" "unat (mq_message_size mq)"] mq_wf_nat [OF assms]
  by (simp add: mq_slot_def mq_buffer_offset_def)

definition mq_pushed :: "message_queue \<Rightarrow> message_queue" where
  "mq_pushed mq = mq\<lparr>mq_available := mq_available mq + 1\<rparr>"

definition mq_popped :: "message_queue \<Rightarrow> message_queue" where
  "mq_popped mq = mq\<lparr>mq_head := of_nat ((unat (mq_head mq) + 1) mod unat (mq_queue_length mq)),
     mq_available := mq_available mq - 1\<rparr>"

lemma mq_pushed_available:
  assumes "mq_wf mq" and "mq_available mq \<noteq> mq_queue_length mq"
  shows "unat (mq_available mq + 1) = Suc (unat (mq_available mq))"
    and "Suc (unat (mq_available mq)) \<le> unat (mq_queue_length mq)"
proof -
  have lt: "unat (mq_available mq) < unat (mq_queue_length mq)"
    using assms by (auto simp: mq_wf_def word_less_nat_alt word_le_nat_alt word_unat_eq_iff)
  then show "Suc (unat (mq_available mq)) \<le> unat (mq_queue_length mq)" by simp
  have "mq_available mq \<noteq> 255" using lt mq_wf_nat(4) [OF assms(1)] by (auto simp: u8_not_max_iff)
  then show "unat (mq_available mq + 1) = Suc (unat (mq_available mq))" by (rule u8_succ)
qed

lemma mq_pushed_wf:
  assumes "mq_wf mq" and "mq_available mq \<noteq> mq_queue_length mq"
  shows "mq_wf (mq_pushed mq)" and "mq_array (mq_pushed mq) = mq_array mq"
  using assms mq_pushed_available [OF assms]
  by (simp_all add: mq_wf_def mq_pushed_def mq_array_def word_le_nat_alt)

text \<open>Writing a message into the next free slot appends it.\<close>

lemma mq_contents_pushed:
  assumes wf: "mq_wf mq" and free: "mq_available mq \<noteq> mq_queue_length mq"
    and nov: "mq_slot mq (unat (mq_available mq)) < src \<or>
      src + unat (mq_message_size mq) \<le> mq_slot mq (unat (mq_available mq))"
  defines "dst \<equiv> mq_slot mq (unat (mq_available mq))" and "n \<equiv> unat (mq_message_size mq)"
  shows "mq_contents (memcopy_loop dst src (dst + n) mem) (mq_pushed mq) =
    mq_contents mem mq @ [read_bytes mem src n]"
proof -
  let ?mem = "memcopy_loop dst src (dst + n) mem"
  have cond: "dst < src \<or> src + n \<le> dst" using nov by (simp add: dst_def n_def)
  have slot: "mq_slot (mq_pushed mq) i = mq_slot mq i" for i by (simp add: mq_slot_def mq_pushed_def)
  have old: "read_bytes ?mem (mq_slot mq i) n = read_bytes mem (mq_slot mq i) n"
    if "i < unat (mq_available mq)" for i
  proof (rule read_bytes_not_copied [OF cond])
    show "region dst n \<inter> region (mq_slot mq i) n = {}"
      unfolding dst_def n_def
      by (rule mq_slot_disjoint [OF that]) (use mq_pushed_available(2) [OF wf free] in simp)
  qed
  have new: "read_bytes ?mem dst n = read_bytes mem src n" by (rule read_bytes_copied [OF cond])
  have avail: "unat (mq_available (mq_pushed mq)) = Suc (unat (mq_available mq))"
    using mq_pushed_available(1) [OF wf free] by (simp add: mq_pushed_def)
  have size: "mq_message_size (mq_pushed mq) = mq_message_size mq" by (simp add: mq_pushed_def)
  show ?thesis
    unfolding mq_contents_def avail size slot
    using old new by (simp add: n_def dst_def)
qed

lemma mq_popped_wf:
  assumes "mq_wf mq" and "mq_available mq \<noteq> 0"
  shows "mq_wf (mq_popped mq)" and "mq_array (mq_popped mq) = mq_array mq"
    and "unat (mq_available (mq_popped mq)) = unat (mq_available mq) - 1"
proof -
  note n = mq_wf_nat [OF assms(1)]
  have lt: "(unat (mq_head mq) + 1) mod unat (mq_queue_length mq) < unat (mq_queue_length mq)" using n(1) by simp
  then have "unat (mq_head (mq_popped mq)) < unat (mq_queue_length mq)"
    using n(4) by (simp add: mq_popped_def u8_unat_of_nat)
  moreover show a: "unat (mq_available (mq_popped mq)) = unat (mq_available mq) - 1"
    using assms(2) by (simp add: mq_popped_def unat_minus_one)
  ultimately show "mq_wf (mq_popped mq)"
    using assms n(3) unfolding mq_wf_def by (simp add: word_less_nat_alt word_le_nat_alt mq_popped_def)
  show "mq_array (mq_popped mq) = mq_array mq" by (simp add: mq_popped_def mq_array_def)
qed

lemma mq_slot_popped:
  assumes "mq_wf mq"
  shows "mq_slot (mq_popped mq) i = mq_slot mq (Suc i)"
proof -
  note n = mq_wf_nat [OF assms(1)]
  have "(unat (mq_head mq) + 1) mod unat (mq_queue_length mq) < 256"
    using n(1,4) by (meson less_trans mod_less_divisor)
  then have "unat (mq_head (mq_popped mq)) = (unat (mq_head mq) + 1) mod unat (mq_queue_length mq)"
    by (simp add: mq_popped_def u8_unat_of_nat)
  moreover have "mq_queue_length (mq_popped mq) = mq_queue_length mq"
    "mq_message_size (mq_popped mq) = mq_message_size mq" "mq_messages (mq_popped mq) = mq_messages mq"
    by (simp_all add: mq_popped_def)
  ultimately show ?thesis
    unfolding mq_slot_def
    using mod_add_left_eq [of "unat (mq_head mq) + 1" "unat (mq_queue_length mq)" i] by simp
qed

text \<open>Advancing the head removes the oldest message.\<close>

lemma mq_contents_popped:
  assumes wf: "mq_wf mq" and avail: "mq_available mq \<noteq> 0"
    and disj: "region p n \<inter> mq_array mq = {}" and cond: "p < src \<or> src + n \<le> p"
  shows "mq_contents mem mq = read_bytes mem (mq_slot mq 0) (unat (mq_message_size mq)) #
    mq_contents (memcopy_loop p src (p + n) mem) (mq_popped mq)"
proof -
  obtain m where m: "unat (mq_available mq) = Suc m"
    using avail by (metis not0_implies_Suc unat_eq_zero)
  have same: "read_bytes (memcopy_loop p src (p + n) mem) (mq_slot mq i) (unat (mq_message_size mq)) =
      read_bytes mem (mq_slot mq i) (unat (mq_message_size mq))" for i
    by (rule read_bytes_not_copied [OF cond]) (use disj mq_slot_region [OF wf, of i] in blast)
  have size: "mq_message_size (mq_popped mq) = mq_message_size mq" by (simp add: mq_popped_def)
  have "unat (mq_available (mq_popped mq)) = m" using mq_popped_wf(3) [OF wf avail] m by simp
  then show ?thesis
    unfolding mq_contents_def mq_slot_popped [OF wf] size m
    by (simp add: same upt_conv_Cons map_Suc_upt [symmetric] del: upt_Suc map_Suc_upt)
qed

lemma mq_contents_frame:
  assumes "mq_wf mq" and "region p n \<inter> mq_array mq = {}" and "p < src \<or> src + n \<le> p"
  shows "mq_contents (memcopy_loop p src (p + n) mem) mq = mq_contents mem mq"
  unfolding mq_contents_def
proof (rule map_cong [OF refl])
  fix i
  show "read_bytes (memcopy_loop p src (p + n) mem) (mq_slot mq i) (unat (mq_message_size mq)) =
      read_bytes mem (mq_slot mq i) (unat (mq_message_size mq))"
    by (rule read_bytes_not_copied [OF assms(3)]) (use assms(2) mq_slot_region [OF assms(1), of i] in blast)
qed

section \<open>The invariant checks\<close>

definition queue_of :: "('s, 'z) mq_kernel_scheme \<Rightarrow> u8 \<Rightarrow> message_queue" where
  "queue_of k q = k_message_queues k ! unat q"

definition mq_waiting_for :: "('s, 'z) mq_kernel_scheme \<Rightarrow> u8 \<Rightarrow> u8" where
  "mq_waiting_for k t = k_message_queue_waiters k ! unat t"

definition contents_of :: "('s, 'z) mq_kernel_scheme \<Rightarrow> u8 \<Rightarrow> u8 list list" where
  "contents_of k q = mq_contents (k_memory k) (queue_of k q)"

definition current_timer_enabled :: "('s, 'z) mq_kernel_scheme \<Rightarrow> bool" where
  "current_timer_enabled k \<longleftrightarrow>
     tm_enabled (k_timers k ! unat (k_task_timers k ! unat (k_current_task k)))"

text \<open>Table sizes: what the template generates for \<open>n\<close> queues.\<close>

definition mq_tables_ok :: "config \<Rightarrow> nat \<Rightarrow> ('s, 'z) mq_kernel_scheme \<Rightarrow> bool" where
  "mq_tables_ok c n k \<longleftrightarrow> length (k_message_queues k) = n \<and> n \<le> 255 \<and>
     length (k_message_queue_waiters k) = tasks_length c \<and> length (k_task_timers k) = tasks_length c \<and>
     (\<forall>i \<in> set (k_task_timers k). unat i < length (k_timers k))"

text \<open>What \<open>message_queue_invariants_check\<close> checks; \<open>rn\<close> says which tasks are unblocked.\<close>

definition mq_config_ok :: "(nat \<times> u8 \<times> u8) list \<Rightarrow> ('s, 'z) mq_kernel_scheme \<Rightarrow> bool" where
  "mq_config_ok cfg k \<longleftrightarrow>
     (\<forall>q. unat q < length cfg \<longrightarrow> unat q < length (k_message_queues k) \<longrightarrow>
        cfg ! unat q = (mq_messages (queue_of k q), mq_message_size (queue_of k q), mq_queue_length (queue_of k q)))"

definition mq_waiter_ok :: "(u8 \<Rightarrow> bool) \<Rightarrow> ('s, 'z) mq_kernel_scheme \<Rightarrow> u8 \<Rightarrow> bool" where
  "mq_waiter_ok rn k t \<longleftrightarrow>
     (let q = mq_waiting_for k t in q \<noteq> MESSAGE_QUEUE_ID_NONE \<longrightarrow>
        unat q < length (k_message_queues k) \<and>
        (mq_available (queue_of k q) = 0 \<or> mq_available (queue_of k q) = mq_queue_length (queue_of k q)) \<and>
        \<not> rn t)"

definition mq_check_ok ::
  "config \<Rightarrow> (nat \<times> u8 \<times> u8) list \<Rightarrow> (u8 \<Rightarrow> bool) \<Rightarrow> ('s, 'z) mq_kernel_scheme \<Rightarrow> bool"
where
  "mq_check_ok c cfg rn k \<longleftrightarrow> mq_config_ok cfg k \<and>
     (\<forall>q. unat q < length (k_message_queues k) \<longrightarrow> mq_messages (queue_of k q) \<noteq> 0 \<and> mq_wf (queue_of k q)) \<and>
     (\<forall>t. unat t < tasks_length c \<longrightarrow> mq_waiter_ok rn k t) \<and> \<not> current_timer_enabled k"

text \<open>Sequencing checks that leave the state alone.\<close>

definition checks :: "('k, unit) kop \<Rightarrow> 'k \<Rightarrow> bool \<Rightarrow> bool" where
  "checks m k b \<longleftrightarrow> (\<exists>e. m k = (if b then Inr ((), k) else Inl e))"

lemma checks_kseq: "checks m k a \<Longrightarrow> checks (kseq ms) k b \<Longrightarrow> checks (kseq (m # ms)) k (a \<and> b)"
  by (cases a) (auto simp: checks_def kbind_def)

lemma checks_kseq_Nil: "checks (kseq []) k True"
  by (simp add: checks_def kreturn_def)

lemma checks_internal_assert: "internal_asserts c \<Longrightarrow> checks (internal_assert c b e) k b"
  by (simp add: checks_def)

lemma checks_kseq_map:
  "\<forall>i \<in> set is. checks (f i) k (P i) \<Longrightarrow> checks (kseq (map f is)) k (\<forall>i \<in> set is. P i)"
proof (induction "is")
  case (Cons i "is")
  then have "checks (kseq (f i # map f is)) k (P i \<and> (\<forall>i \<in> set is. P i))"
    by (intro checks_kseq) auto
  then show ?case by (simp del: kseq.simps)
qed (simp add: checks_kseq_Nil del: kseq.simps)

lemma checks_for_each:
  assumes "n \<le> 255" and "\<forall>i. unat i < n \<longrightarrow> checks (f i) k (P i)"
  shows "checks (for_each 0 n f) k (\<forall>i. unat i < n \<longrightarrow> P i)"
  using checks_kseq_map [of "ids n" f k P] assms by (simp add: checks_def for_each_kseq set_ids)

lemma checks_for_each_upto:
  assumes "0 < n" "n \<le> 255" and "\<forall>i. unat i < n \<longrightarrow> checks (f i) k (P i)"
  shows "checks (for_each_upto (of_nat n - 1) f) k (\<forall>i. unat i < n \<longrightarrow> P i)"
  using checks_for_each [OF assms(2,3)] max_index_unat [OF assms(1,2)] by (simp add: for_each_upto_def)

lemma checks_config:
  assumes c: "internal_asserts c" and q: "unat q < length (k_message_queues k)"
  shows "checks (mq_check_config c mc q) k
    (mq_config mc ! unat q = (mq_messages (queue_of k q), mq_message_size (queue_of k q), mq_queue_length (queue_of k q)))"
  using assms
  by (cases "mq_config mc ! unat q")
     (auto simp: checks_def mq_check_config_def array_read_def kbind_def kreturn_def queue_of_def)

lemma checks_queue:
  assumes c: "internal_asserts c" and q: "unat q < length (k_message_queues k)"
  shows "checks (mq_check_queue c q) k (mq_messages (queue_of k q) \<noteq> 0 \<and> mq_wf (queue_of k q))"
  using assms
  by (auto simp: checks_def mq_check_queue_def array_read_def kbind_def kreturn_def mq_wf_def queue_of_def)

lemma checks_waiter:
  assumes c: "internal_asserts c" and "unat t < length (k_message_queue_waiters k)"
    and "length (k_message_queues k) \<le> 255" and "mq_core_is_unblocked mc t k = Inr (rn t, k)"
  shows "checks (mq_check_waiter c mc t) k (mq_waiter_ok rn k t)"
  using assms
  by (auto simp: checks_def mq_check_waiter_def array_read_def kbind_def kreturn_def kwhen_def kgets_def
      mq_waiter_ok_def Let_def mq_waiting_for_def queue_of_def MESSAGE_QUEUE_ID_NONE_def)

lemma message_queue_invariants_check_iff:
  assumes c: "internal_asserts c" and ok: "mq_tables_ok c n k" "current_ok c k" "tasks_length c \<le> 255"
    and cfg: "length (mq_config mc) = n"
    and rn: "\<forall>t. unat t < tasks_length c \<longrightarrow> mq_core_is_unblocked mc t k = Inr (rn t, k)"
  shows "checks (message_queue_invariants_check c mc) k (mq_check_ok c (mq_config mc) rn k)"
proof -
  have n: "length (k_message_queues k) = n" "n \<le> 255" and w: "length (k_message_queue_waiters k) = tasks_length c"
    and cur: "unat (k_current_task k) < length (k_task_timers k)"
      "unat (k_task_timers k ! unat (k_current_task k)) < length (k_timers k)"
    using ok(1,2) by (simp_all add: mq_tables_ok_def current_ok_def)
  have "0 < tasks_length c" using ok(2) by (simp add: current_ok_def)
  note upto = checks_for_each_upto [OF this ok(3)]
  have 1: "checks (kseq (map (mq_check_config c mc) (ids n))) k (mq_config_ok (mq_config mc) k)"
    using checks_kseq_map [of "ids n" "mq_check_config c mc" k "\<lambda>q. mq_config mc ! unat q = (mq_messages (queue_of k q),
        mq_message_size (queue_of k q), mq_queue_length (queue_of k q))"] checks_config [OF c, of _ k mc] n cfg
    by (simp add: mq_config_ok_def set_ids)
  have 2: "checks (for_each 0 n (mq_check_queue c)) k
      (\<forall>q. unat q < n \<longrightarrow> mq_messages (queue_of k q) \<noteq> 0 \<and> mq_wf (queue_of k q))"
    by (rule checks_for_each [OF n(2)]) (use checks_queue [OF c, of _ k] n in simp)
  have 3: "checks (for_each_upto (TASK_ID_MAX c) (mq_check_waiter c mc)) k
      (\<forall>t. unat t < tasks_length c \<longrightarrow> mq_waiter_ok rn k t)"
    unfolding TASK_ID_MAX_def
    by (rule upto) (use checks_waiter [OF c, of _ k mc rn] n w rn in simp)
  have 4: "checks (kbind (get_current_task c) (\<lambda>current.
              kbind (array_read k_task_timers current) (\<lambda>timer_id.
              kbind (array_read k_timers timer_id) (\<lambda>timer.
              internal_assert c (\<not> tm_enabled timer)
                ERROR_ID_MESSAGE_QUEUE_INTERNAL_VIOLATED_INVARIANT_TIMER_IS_ENABLED)))) k
      (\<not> current_timer_enabled k)"
    using ok(2) cur c by (simp add: checks_def kbind_def array_read_def current_timer_enabled_def)
  show ?thesis
    using checks_kseq [OF 1 checks_kseq [OF 2 checks_kseq [OF 3 checks_kseq [OF 4 checks_kseq_Nil]]]] c n(1) cfg
    by (simp add: checks_def message_queue_invariants_check_def kwhen_def kbind_def kgets_def mq_check_ok_def
        del: kseq.simps)
qed

section \<open>Waking the waiters of a queue\<close>

lemma mq_frame [simp]:
  "k_message_queues (enter c k) = k_message_queues k" "k_message_queues (leave c k) = k_message_queues k"
  "k_message_queue_waiters (enter c k) = k_message_queue_waiters k"
  "k_message_queue_waiters (leave c k) = k_message_queue_waiters k"
  "k_memory (enter c k) = k_memory k" "k_memory (leave c k) = k_memory k"
  "k_message_queues (signal_sent c ready t p k) = k_message_queues k"
  "k_message_queue_waiters (signal_sent c ready t p k) = k_message_queue_waiters k"
  "k_memory (signal_sent c ready t p k) = k_memory k"
  by (simp_all add: enter_def leave_def signal_sent_def pend_def set_pending_def)

definition mq_rest_eq :: "('s, 'z) mq_kernel_scheme \<Rightarrow> ('s, 'z) mq_kernel_scheme \<Rightarrow> bool" where
  "mq_rest_eq k k' \<longleftrightarrow> k_current_task k' = k_current_task k \<and>
     k_preempt_disabled k' = k_preempt_disabled k \<and> k_interrupt_event k' = k_interrupt_event k \<and>
     k_timers k' = k_timers k \<and> k_timer_current_ticks k' = k_timer_current_ticks k \<and>
     k_timer_pending_ticks k' = k_timer_pending_ticks k \<and> k_task_timers k' = k_task_timers k \<and>
     k_interrupt_events k' = k_interrupt_events k \<and> k_mutexes k' = k_mutexes k \<and>
     k_mutex_waiters k' = k_mutex_waiters k \<and> k_mutex_stats k' = k_mutex_stats k \<and>
     k_message_queues k' = k_message_queues k \<and> k_memory k' = k_memory k"

lemma mq_rest_refl [simp]: "mq_rest_eq k k"
  by (simp add: mq_rest_eq_def)

lemma mq_rest_sent: "\<forall>t k'. mq_rest_eq k k' \<longrightarrow> mq_rest_eq k (signal_sent c ready t sigs k')"
  by (simp add: mq_rest_eq_def)

lemma mq_rest_waiters: "\<forall>f k'. mq_rest_eq k k' \<longrightarrow> mq_rest_eq k (k_message_queue_waiters_update f k')"
  by (simp add: mq_rest_eq_def)

lemma mq_waiters_sent_commute:
  "signal_sent c ready t sigs (k_message_queue_waiters_update f k) =
     k_message_queue_waiters_update f (signal_sent c ready t sigs k)"
  by (simp add: signal_sent_def pend_def set_pending_def pending_of_def)

locale mq_control = event_control set_runnable set_blocked get_next ready block inv ntasks runnable
    c unblock block_task nevents
  for set_runnable set_blocked get_next ready block
    and inv :: "'s \<Rightarrow> bool" and ntasks runnable and c :: config
    and unblock :: "u8 \<Rightarrow> (('s, 'z) mq_kernel_scheme, unit) kop"
    and block_task nevents +
  fixes mc :: "('s, 'z) mq_kernel_scheme mq_core" and nqueues :: nat
  assumes core_unblock: "kernel_inv c inv ntasks k \<Longrightarrow> preempt_ok c k \<Longrightarrow> signals_ok c k \<Longrightarrow>
      unat t < tasks_length c \<Longrightarrow>
      mq_core_unblock mc t k = Inr ((), signal_sent c ready t (SIGNAL_ID__TASK_TIMER c) k)"
    and core_is_unblocked: "kernel_inv c inv ntasks k \<Longrightarrow> unat t < tasks_length c \<Longrightarrow>
      mq_core_is_unblocked mc t k = Inr (runnable (k_sched k) t, k)"
    and config_length: "length (mq_config mc) = nqueues"
begin

sublocale mq_waiters: waiter_table set_runnable set_blocked get_next ready block inv ntasks runnable
  c unblock block_task k_message_queue_waiters k_message_queue_waiters_update "mq_core_unblock mc"
  MESSAGE_QUEUE_ID_NONE "SIGNAL_ID__TASK_TIMER c"
  by unfold_locales (rule core_unblock; assumption | simp)+

text \<open>Here the waiter is woken before its entry is cleared; the result is the same.\<close>

lemma mq_wake_waiter_eq:
  assumes "mq_waiters.waiters_ok k" and "unat t < tasks_length c"
  shows "mq_wake_waiter mc q t k =
    wake_waiter k_message_queue_waiters k_message_queue_waiters_update (mq_core_unblock mc) MESSAGE_QUEUE_ID_NONE q t k"
proof -
  let ?k1 = "k_message_queue_waiters_update (\<lambda>xs. xs[unat t := MESSAGE_QUEUE_ID_NONE]) k"
  have len: "length (k_message_queue_waiters k) = tasks_length c"
    using assms(1) by (simp add: mq_waiters.waiters_ok_def)
  have "mq_waiters.waiters_ok ?k1" by (rule mq_waiters.waiters_ok_upd [OF assms(1)]) simp
  then have "mq_core_unblock mc t k = Inr ((), signal_sent c ready t (SIGNAL_ID__TASK_TIMER c) k)"
    "mq_core_unblock mc t ?k1 = Inr ((), signal_sent c ready t (SIGNAL_ID__TASK_TIMER c) ?k1)"
    using assms core_unblock by (simp_all add: mq_waiters.waiters_ok_def)
  then show ?thesis
    using len assms(2)
    by (simp add: mq_wake_waiter_def wake_waiter_def kbind_def array_read_def array_modify_def kwhen_def
        kreturn_def set_mq_waiter_def mq_waiters_sent_commute)
qed

lemma message_queue_waiters_wakeup_eq:
  assumes ok: "mq_waiters.waiters_ok k" and len: "tasks_length c \<le> 255"
    and q: "unat q < length (k_message_queues k)" and n: "length (k_message_queues k) \<le> 255"
  shows "\<exists>k'. message_queue_waiters_wakeup c mc q k = Inr ((), k') \<and> mq_waiters.waiters_ok k' \<and> mq_rest_eq k k' \<and>
    (\<forall>t. unat t < tasks_length c \<longrightarrow> mq_waiting_for k' t =
       (if mq_waiting_for k t = q then MESSAGE_QUEUE_ID_NONE else mq_waiting_for k t)) \<and>
    (\<forall>t. unat t < tasks_length c \<longrightarrow> pending_of k' t =
       (if mq_waiting_for k t = q then pending_of k t OR SIGNAL_ID__TASK_TIMER c else pending_of k t)) \<and>
    (\<forall>t. unat t < tasks_length c \<longrightarrow> runnable (k_sched k') t = (runnable (k_sched k) t \<or> mq_waiting_for k t = q))"
proof -
  have ne: "q \<noteq> MESSAGE_QUEUE_ID_NONE" using q n by (auto simp: MESSAGE_QUEUE_ID_NONE_def)
  have pos: "0 < tasks_length c"
    using ok by (simp add: mq_waiters.waiters_ok_def kernel_inv_def current_ok_def)
  have "message_queue_waiters_wakeup c mc q k = kseq (map (mq_wake_waiter mc q) (ids (tasks_length c))) k"
    using q max_index_unat [OF pos len]
    by (simp add: message_queue_waiters_wakeup_def message_queue_internal_assert_valid_def kbind_def kgets_def
        for_each_upto_def TASK_ID_MAX_def for_each_kseq [OF len])
  also have "\<dots> = for_each 0 (tasks_length c)
      (wake_waiter k_message_queue_waiters k_message_queue_waiters_update (mq_core_unblock mc) MESSAGE_QUEUE_ID_NONE q) k"
    unfolding for_each_kseq [OF len]
    by (rule kseq_map_cong [where P = mq_waiters.waiters_ok])
       (use ok len mq_wake_waiter_eq mq_waiters.wake_waiter_ok in \<open>auto simp: set_ids\<close>)
  finally have run: "message_queue_waiters_wakeup c mc q k = for_each 0 (tasks_length c)
      (wake_waiter k_message_queue_waiters k_message_queue_waiters_update (mq_core_unblock mc) MESSAGE_QUEUE_ID_NONE q) k" .
  show ?thesis
    unfolding run
    using mq_waiters.wake_waiters [where Q = "mq_rest_eq k", OF ok len ne mq_rest_refl mq_rest_sent mq_rest_waiters]
    unfolding mq_waiting_for_def by fastforce
qed

end

section \<open>Putting and getting\<close>

definition set_queue :: "u8 \<Rightarrow> message_queue \<Rightarrow> (nat \<Rightarrow> u8) \<Rightarrow> ('s, 'z) mq_kernel_scheme \<Rightarrow> ('s, 'z) mq_kernel_scheme" where
  "set_queue q mq mem k = k\<lparr>k_message_queues := (k_message_queues k)[unat q := mq], k_memory := mem\<rparr>"

lemma set_queue_frame [simp]:
  "kernel_inv c sinv nt (set_queue q mq mem k) = kernel_inv c sinv nt k"
  "preempt_ok c (set_queue q mq mem k) = preempt_ok c k" "current_ok c (set_queue q mq mem k) = current_ok c k"
  "signals_ok c (set_queue q mq mem k) = signals_ok c k" "pending_of (set_queue q mq mem k) = pending_of k"
  "k_sched (set_queue q mq mem k) = k_sched k" "mq_tables_ok c n (set_queue q mq mem k) = mq_tables_ok c n k"
  "mq_waiting_for (set_queue q mq mem k) = mq_waiting_for k"
  "current_timer_enabled (set_queue q mq mem k) = current_timer_enabled k"
  "length (k_message_queues (set_queue q mq mem k)) = length (k_message_queues k)"
  "k_message_queue_waiters (set_queue q mq mem k) = k_message_queue_waiters k"
  "k_memory (set_queue q mq mem k) = mem"
  by (simp_all add: set_queue_def kernel_inv_def preempt_ok_def current_ok_def signals_ok_def pending_of_def
      mq_tables_ok_def mq_waiting_for_def current_timer_enabled_def fun_eq_iff)

lemma queue_of_set:
  "unat q < length (k_message_queues k) \<Longrightarrow> queue_of (set_queue q mq mem k) r = (if r = q then mq else queue_of k r)"
  by (simp add: queue_of_def set_queue_def word_nth_update)

definition queues_ok :: "('s, 'z) mq_kernel_scheme \<Rightarrow> bool" where
  "queues_ok k \<longleftrightarrow>
     (\<forall>q. unat q < length (k_message_queues k) \<longrightarrow> mq_wf (queue_of k q)) \<and>
     (\<forall>q r. unat q < length (k_message_queues k) \<longrightarrow> unat r < length (k_message_queues k) \<longrightarrow> q \<noteq> r \<longrightarrow>
        mq_array (queue_of k q) \<inter> mq_array (queue_of k r) = {})"

lemma queues_ok_set:
  assumes "queues_ok k" and "unat q < length (k_message_queues k)" and "mq_wf mq"
    and "mq_array mq = mq_array (queue_of k q)"
  shows "queues_ok (set_queue q mq mem k)"
  using assms by (auto simp: queues_ok_def queue_of_set)

text \<open>An application buffer: not \<open>NULL\<close>, and outside the array of every queue.\<close>

definition buffer_ok :: "nat \<Rightarrow> u8 \<Rightarrow> ('s, 'z) mq_kernel_scheme \<Rightarrow> bool" where
  "buffer_ok message msg_size k \<longleftrightarrow> message \<noteq> 0 \<and>
     (\<forall>r. unat r < length (k_message_queues k) \<longrightarrow> region message (unat msg_size) \<inter> mq_array (queue_of k r) = {})"

lemma region_disjoint_order:
  assumes "region p n \<inter> region a n = {}" and "0 < n"
  shows "(p < a \<or> a + n \<le> p) \<and> (a < p \<or> p + n \<le> a)"
proof -
  have "p \<notin> region a n" "a \<notin> region p n" using assms by (auto simp: region_def)
  then show ?thesis using assms(2) by (auto simp: region_def)
qed

text \<open>What an operation on a queue leaves alone: the configuration of all queues.\<close>

definition mq_static :: "('s, 'z) mq_kernel_scheme \<Rightarrow> u8 \<Rightarrow> nat \<times> u8 \<times> u8" where
  "mq_static k q = (mq_messages (queue_of k q), mq_message_size (queue_of k q), mq_queue_length (queue_of k q))"

lemma mq_static_array: "mq_static k' q = mq_static k q \<Longrightarrow> mq_array (queue_of k' q) = mq_array (queue_of k q)"
  by (simp add: mq_static_def mq_array_def)

lemma mq_available_contents: "length (contents_of k q) = unat (mq_available (queue_of k q))"
  by (simp add: contents_of_def mq_contents_def)

lemma buffer_ok_static:
  "mq_static k' = mq_static k \<Longrightarrow> length (k_message_queues k') = length (k_message_queues k) \<Longrightarrow>
     buffer_ok p (mq_message_size (queue_of k' q)) k' = buffer_ok p (mq_message_size (queue_of k q)) k"
  by (simp add: buffer_ok_def mq_static_array [of k' _ k] fun_eq_iff) (simp add: mq_static_def)

text \<open>A task that puts several messages, and one that gets several and looks at each.\<close>

primrec mq_puts ::
  "config \<Rightarrow> ('s, 'z) mq_kernel_scheme mq_core \<Rightarrow> u8 \<Rightarrow> nat list \<Rightarrow> (('s, 'z) mq_kernel_scheme, bool) kop"
where
  "mq_puts c mc q [] = kreturn True"
| "mq_puts c mc q (p # ps) =
     kbind (rtos_message_queue_try_put c mc q p) (\<lambda>r.
     kbind (mq_puts c mc q ps) (\<lambda>rs. kreturn (r \<and> rs)))"

primrec mq_gets ::
  "config \<Rightarrow> ('s, 'z) mq_kernel_scheme mq_core \<Rightarrow> u8 \<Rightarrow> nat list \<Rightarrow> (('s, 'z) mq_kernel_scheme, u8 list list) kop"
where
  "mq_gets c mc q [] = kreturn []"
| "mq_gets c mc q (p # ps) =
     kbind (rtos_message_queue_try_get c mc q p) (\<lambda>r.
     kbind (kgets (\<lambda>k. read_bytes (k_memory k) p (unat (mq_message_size (queue_of k q))))) (\<lambda>message.
     kbind (mq_gets c mc q ps) (\<lambda>messages. kreturn (if r then message # messages else messages))))"

context mq_control
begin

definition mq_inv :: "('s, 'z) mq_kernel_scheme \<Rightarrow> bool" where
  "mq_inv k \<longleftrightarrow> kernel_inv c inv ntasks k \<and> preempt_ok c k \<and> signals_ok c k \<and> tasks_length c \<le> 255 \<and>
     mq_tables_ok c nqueues k \<and> queues_ok k \<and>
     (internal_asserts c \<longrightarrow> mq_check_ok c (mq_config mc) (runnable (k_sched k)) k)"

lemma invariants_check_checks:
  assumes "kernel_inv c inv ntasks k" and "mq_tables_ok c nqueues k" and "tasks_length c \<le> 255"
    and "internal_asserts c"
  shows "checks (message_queue_invariants_check c mc) k (mq_check_ok c (mq_config mc) (runnable (k_sched k)) k)"
  by (rule message_queue_invariants_check_iff)
     (use assms core_is_unblocked config_length in \<open>auto simp: kernel_inv_def\<close>)

lemma invariants_check_run:
  assumes "mq_inv k"
  shows "message_queue_invariants_check c mc k = Inr ((), k)"
proof (cases "internal_asserts c")
  case True
  then show ?thesis using assms invariants_check_checks [of k] by (auto simp: mq_inv_def checks_def)
next
  case False
  then show ?thesis by (simp add: message_queue_invariants_check_def kwhen_def kreturn_def)
qed

lemma mq_inv_waiters_ok: "mq_inv k \<Longrightarrow> mq_waiters.waiters_ok k"
  by (simp add: mq_inv_def mq_waiters.waiters_ok_def mq_tables_ok_def)

text \<open>
  Changing one queue and then waking its waiters, or not: the invariant holds afterwards if no task
  stays registered while the queue is neither empty nor full.
\<close>

lemma mq_inv_after:
  assumes inv: "mq_inv k" and q: "unat q < nqueues"
    and mq: "mq_wf mq" "mq_array mq = mq_array (queue_of k q)" "mq_messages mq = mq_messages (queue_of k q)"
      "mq_message_size mq = mq_message_size (queue_of k q)" "mq_queue_length mq = mq_queue_length (queue_of k q)"
    and rest: "mq_rest_eq (set_queue q mq mem k) k'" "mq_waiters.waiters_ok k'"
    and woken: "\<forall>t. unat t < tasks_length c \<longrightarrow> mq_waiting_for k' t =
       (if b \<and> mq_waiting_for k t = q then MESSAGE_QUEUE_ID_NONE else mq_waiting_for k t)"
      "\<forall>t. unat t < tasks_length c \<longrightarrow> runnable (k_sched k') t = (runnable (k_sched k) t \<or> b \<and> mq_waiting_for k t = q)"
    and safe: "\<forall>t. internal_asserts c \<longrightarrow> unat t < tasks_length c \<longrightarrow> mq_waiting_for k t = q \<longrightarrow>
      b \<or> mq_available mq = 0 \<or> mq_available mq = mq_queue_length mq"
  shows "mq_inv k'"
proof -
  have n: "length (k_message_queues k) = nqueues" using inv by (simp add: mq_inv_def mq_tables_ok_def)
  have qs: "k_message_queues k' = k_message_queues (set_queue q mq mem k)"
    using rest(1) by (simp add: mq_rest_eq_def)
  have qof: "queue_of k' r = (if r = q then mq else queue_of k r)" for r
    using queue_of_set [of q k mq mem r] q n by (simp add: queue_of_def qs)
  have "queues_ok k'"
    using queues_ok_set [of k q mq mem] inv q n mq(1,2) by (simp add: queues_ok_def queue_of_def qs mq_inv_def)
  moreover have "mq_tables_ok c nqueues k'"
  proof -
    have "length (k_message_queue_waiters k') = tasks_length c" using rest(2) by (simp add: mq_waiters.waiters_ok_def)
    moreover have "k_task_timers k' = k_task_timers k" "k_timers k' = k_timers k"
      using rest(1) by (simp_all add: mq_rest_eq_def set_queue_def)
    ultimately show ?thesis using inv by (simp add: mq_tables_ok_def qs mq_inv_def)
  qed
  moreover have "mq_check_ok c (mq_config mc) (runnable (k_sched k')) k'" if c: "internal_asserts c"
  proof -
    have ok: "mq_check_ok c (mq_config mc) (runnable (k_sched k)) k" using inv c by (simp add: mq_inv_def)
    have "mq_config_ok (mq_config mc) k'"
      using ok mq(3-5) by (simp add: mq_check_ok_def mq_config_ok_def qs qof)
    moreover have "mq_messages (queue_of k' r) \<noteq> 0 \<and> mq_wf (queue_of k' r)" if "unat r < nqueues" for r
      using ok that mq n by (auto simp: mq_check_ok_def qof)
    moreover have "mq_waiter_ok (runnable (k_sched k')) k' t" if t: "unat t < tasks_length c" for t
    proof -
      have "mq_waiter_ok (runnable (k_sched k)) k t" using ok t by (simp add: mq_check_ok_def)
      then show ?thesis
        using woken t safe c by (simp add: mq_waiter_ok_def Let_def qs qof) metis
    qed
    moreover have "\<not> current_timer_enabled k'"
      using ok rest(1) by (simp add: mq_check_ok_def mq_rest_eq_def current_timer_enabled_def set_queue_def)
    ultimately show ?thesis using n by (simp add: mq_check_ok_def qs)
  qed
  ultimately show ?thesis
    using rest(2) inv by (simp add: mq_inv_def mq_waiters.waiters_ok_def)
qed

text \<open>\<open>mq_woken b q k k'\<close>: if \<open>b\<close>, all tasks that wait for \<open>q\<close> have been woken, and no others.\<close>

definition mq_woken :: "bool \<Rightarrow> u8 \<Rightarrow> ('s, 'z) mq_kernel_scheme \<Rightarrow> ('s, 'z) mq_kernel_scheme \<Rightarrow> bool" where
  "mq_woken b q k k' \<longleftrightarrow> (\<forall>t. unat t < tasks_length c \<longrightarrow>
     mq_waiting_for k' t = (if b \<and> mq_waiting_for k t = q then MESSAGE_QUEUE_ID_NONE else mq_waiting_for k t) \<and>
     pending_of k' t = (if b \<and> mq_waiting_for k t = q then pending_of k t OR SIGNAL_ID__TASK_TIMER c else pending_of k t) \<and>
     runnable (k_sched k') t = (runnable (k_sched k) t \<or> b \<and> mq_waiting_for k t = q))"

lemma mq_finish:
  assumes inv: "mq_inv k" and q: "unat q < nqueues"
    and mq: "mq_wf mq" "mq_array mq = mq_array (queue_of k q)" "mq_messages mq = mq_messages (queue_of k q)"
      "mq_message_size mq = mq_message_size (queue_of k q)" "mq_queue_length mq = mq_queue_length (queue_of k q)"
    and safe: "\<forall>t. internal_asserts c \<longrightarrow> unat t < tasks_length c \<longrightarrow> mq_waiting_for k t = q \<longrightarrow>
      b \<or> mq_available mq = 0 \<or> mq_available mq = mq_queue_length mq"
  shows "\<exists>k'. kbind (kwhen b (message_queue_waiters_wakeup c mc q)) (\<lambda>_.
      kbind (message_queue_invariants_check c mc) (\<lambda>_. kreturn True)) (set_queue q mq mem k) = Inr (True, k') \<and>
    mq_inv k' \<and> mq_rest_eq (set_queue q mq mem k) k' \<and> mq_woken b q k k'"
proof -
  let ?k = "set_queue q mq mem k"
  have n: "length (k_message_queues k) = nqueues" "nqueues \<le> 255" "tasks_length c \<le> 255"
    using inv by (simp_all add: mq_inv_def mq_tables_ok_def)
  have ok: "mq_waiters.waiters_ok ?k"
    using mq_inv_waiters_ok [OF inv] by (simp add: mq_waiters.waiters_ok_def)
  have "\<exists>k'. kwhen b (message_queue_waiters_wakeup c mc q) ?k = Inr ((), k') \<and>
      mq_waiters.waiters_ok k' \<and> mq_rest_eq ?k k' \<and> mq_woken b q k k'"
  proof (cases b)
    case True
    have q': "unat q < length (k_message_queues ?k)" "length (k_message_queues ?k) \<le> 255" using q n by simp_all
    show ?thesis
      using message_queue_waiters_wakeup_eq [OF ok n(3) q'] True
      by (elim ex_forward) (simp add: mq_woken_def kwhen_def)
  next
    case False
    then show ?thesis
      using ok by (intro exI [of _ ?k]) (simp add: mq_woken_def kwhen_def kreturn_def)
  qed
  then obtain k' where k': "kwhen b (message_queue_waiters_wakeup c mc q) ?k = Inr ((), k')"
    "mq_waiters.waiters_ok k'" "mq_rest_eq ?k k'" "mq_woken b q k k'" by blast
  have "mq_inv k'"
    using k'(4) by (intro mq_inv_after [OF inv q mq k'(3,2) _ _ safe]) (simp_all add: mq_woken_def)
  then show ?thesis
    using k' invariants_check_run [of k'] by (intro exI [of _ k']) (simp add: kbind_def kreturn_def)
qed

lemma set_queue_run:
  assumes "unat q < length (k_message_queues k)"
  shows "mq_modify q f (k\<lparr>k_memory := mem\<rparr>) = Inr ((), set_queue q (f (queue_of k q)) mem k)"
    and "mq_modify q f (set_queue q mq mem k) = Inr ((), set_queue q (f mq) mem k)"
    and "array_read k_message_queues q (set_queue q mq mem k) = Inr (mq, set_queue q mq mem k)"
  using assms by (simp_all add: mq_modify_def array_modify_def array_read_def set_queue_def queue_of_def)

lemma api_asserts_run:
  assumes "mq_inv k" and "unat q < nqueues" and "message \<noteq> 0"
  shows "message_queue_api_assert_valid c q k = Inr ((), k)"
    and "api_assert c (message \<noteq> 0) ERROR_ID_MESSAGE_QUEUE_INVALID_POINTER k = Inr ((), k)"
    and "array_read k_message_queues q k = Inr (queue_of k q, k)"
  using assms
  by (simp_all add: message_queue_api_assert_valid_def kbind_def kgets_def array_read_def queue_of_def
      mq_inv_def mq_tables_ok_def)

text \<open>A full queue takes nothing, an empty one gives nothing; the state does not change.\<close>

lemma rtos_message_queue_try_put_full:
  assumes "mq_inv k" and "unat q < nqueues" and "message \<noteq> 0"
    and "mq_available (queue_of k q) = mq_queue_length (queue_of k q)"
  shows "rtos_message_queue_try_put c mc q message k = Inr (False, k)"
  using assms(4) api_asserts_run [OF assms(1-3)] invariants_check_run [OF assms(1)]
  by (simp add: rtos_message_queue_try_put_def kbind_def kreturn_def)

lemma rtos_message_queue_try_get_empty:
  assumes "mq_inv k" and "unat q < nqueues" and "message \<noteq> 0"
    and "mq_available (queue_of k q) = 0"
  shows "rtos_message_queue_try_get c mc q message k = Inr (False, k)"
  using assms(4) api_asserts_run [OF assms(1-3)] invariants_check_run [OF assms(1)]
  by (simp add: rtos_message_queue_try_get_def kbind_def kreturn_def)

text \<open>
  Putting appends the message to the queue's contents, leaves the other queues alone, and wakes the
  waiting tasks when the queue was empty.
\<close>

lemma rtos_message_queue_try_put_appends:
  assumes inv: "mq_inv k" and q: "unat q < nqueues" and buf: "buffer_ok message (mq_message_size (queue_of k q)) k"
    and free: "mq_available (queue_of k q) \<noteq> mq_queue_length (queue_of k q)"
  shows "\<exists>k'. rtos_message_queue_try_put c mc q message k = Inr (True, k') \<and> mq_inv k' \<and>
    contents_of k' q = contents_of k q @ [read_bytes (k_memory k) message (unat (mq_message_size (queue_of k q)))] \<and>
    (\<forall>r. unat r < nqueues \<longrightarrow> r \<noteq> q \<longrightarrow> contents_of k' r = contents_of k r) \<and>
    mq_woken (mq_available (queue_of k q) = 0) q k k' \<and> mq_static k' = mq_static k \<and>
    (\<forall>a. a \<notin> mq_array (queue_of k q) \<longrightarrow> k_memory k' a = k_memory k a)"
proof -
  let ?mq = "queue_of k q" and ?n = "unat (mq_message_size (queue_of k q))"
  let ?dst = "mq_slot ?mq (unat (mq_available ?mq))"
  let ?mem = "memcopy_loop ?dst message (?dst + ?n) (k_memory k)"
  have n: "length (k_message_queues k) = nqueues" using inv by (simp add: mq_inv_def mq_tables_ok_def)
  have wf: "mq_wf ?mq" using inv q n by (simp add: mq_inv_def queues_ok_def)
  note av = mq_pushed_available [OF wf free]
  have sub: "region ?dst ?n \<subseteq> mq_array ?mq" by (rule mq_slot_region [OF wf])
  have "region message ?n \<inter> region ?dst ?n = {}" using sub buf q n by (auto simp: buffer_ok_def)
  from region_disjoint_order [OF this mq_wf_nat(5) [OF wf]]
  have ord: "?dst < message \<or> message + ?n \<le> ?dst" by blast
  have one: "(mq_available ?mq + 1 = 1) = (mq_available ?mq = 0)" by simp
  have safe: "\<forall>t. internal_asserts c \<longrightarrow> unat t < tasks_length c \<longrightarrow> mq_waiting_for k t = q \<longrightarrow>
      mq_available ?mq = 0 \<or> mq_available (mq_pushed ?mq) = 0 \<or> mq_available (mq_pushed ?mq) = mq_queue_length (mq_pushed ?mq)"
  proof (intro allI impI)
    fix t assume c: "internal_asserts c" and t: "unat t < tasks_length c" and w: "mq_waiting_for k t = q"
    have "mq_waiter_ok (runnable (k_sched k)) k t" using inv c t by (simp add: mq_inv_def mq_check_ok_def)
    moreover have "q \<noteq> MESSAGE_QUEUE_ID_NONE"
      using q inv by (auto simp: MESSAGE_QUEUE_ID_NONE_def mq_inv_def mq_tables_ok_def)
    ultimately show "mq_available ?mq = 0 \<or> mq_available (mq_pushed ?mq) = 0 \<or>
        mq_available (mq_pushed ?mq) = mq_queue_length (mq_pushed ?mq)"
      using free w by (auto simp: mq_waiter_ok_def)
  qed
  obtain k' where k': "kbind (kwhen (mq_available ?mq = 0) (message_queue_waiters_wakeup c mc q)) (\<lambda>_.
      kbind (message_queue_invariants_check c mc) (\<lambda>_. kreturn True)) (set_queue q (mq_pushed ?mq) ?mem k) = Inr (True, k')"
    "mq_inv k'" "mq_rest_eq (set_queue q (mq_pushed ?mq) ?mem k) k'" "mq_woken (mq_available ?mq = 0) q k k'"
    using mq_finish [OF inv q mq_pushed_wf [OF wf free] _ _ _ safe, of ?mem] by (auto simp: mq_pushed_def)
  have copy: "memcopy c ?dst message (mq_message_size ?mq) k = Inr ((), k\<lparr>k_memory := ?mem\<rparr>)"
    using ord by (auto simp: memcopy_run)
  have "rtos_message_queue_try_put c mc q message k = Inr (True, k')"
    using free buf q n api_asserts_run [OF inv q, of message] invariants_check_run [OF inv] copy k'(1)
    by (simp add: rtos_message_queue_try_put_def kbind_def Let_def mq_put_position [OF wf] set_queue_run
        buffer_ok_def mq_pushed_def [symmetric])
       (simp add: mq_pushed_def one)
  moreover have "contents_of k' q = contents_of k q @ [read_bytes (k_memory k) message ?n]"
    using mq_contents_pushed [OF wf free ord] k'(3) q n
    by (simp add: contents_of_def queue_of_def mq_rest_eq_def) (simp add: set_queue_def)
  moreover have "contents_of k' r = contents_of k r" if r: "unat r < nqueues" "r \<noteq> q" for r
  proof -
    have "queue_of k' r = queue_of k r"
      using k'(3) queue_of_set [of q k "mq_pushed ?mq" ?mem r] r q n by (simp add: queue_of_def mq_rest_eq_def)
    moreover have "region ?dst ?n \<inter> mq_array (queue_of k r) = {}"
      using sub inv r q n unfolding mq_inv_def queues_ok_def by blast
    ultimately show ?thesis
      using mq_contents_frame [of "queue_of k r" ?dst ?n message "k_memory k"] ord inv r n k'(3)
      by (simp add: contents_of_def mq_rest_eq_def mq_inv_def queues_ok_def)
  qed
  moreover have "mq_static k' = mq_static k"
    using k'(3) queue_of_set [of q k "mq_pushed ?mq" ?mem] q n
    by (simp add: fun_eq_iff mq_static_def queue_of_def mq_rest_eq_def) (simp add: mq_pushed_def)
  moreover have "k_memory k' a = k_memory k a" if "a \<notin> mq_array ?mq" for a
  proof -
    have "a \<notin> region ?dst ?n" using sub that by blast
    then show ?thesis using k'(3) memcopy_loop_eq [OF ord, of "k_memory k" a] by (auto simp: mq_rest_eq_def region_def)
  qed
  ultimately show ?thesis using k'(2,4) by blast
qed

text \<open>
  Getting removes the oldest message and stores it in the buffer. Waiting tasks are woken when the
  number of remaining messages is one less than the number of message queues of the system.
\<close>

lemma rtos_message_queue_try_get_removes:
  assumes inv: "mq_inv k" and q: "unat q < nqueues" and buf: "buffer_ok message (mq_message_size (queue_of k q)) k"
    and avail: "mq_available (queue_of k q) \<noteq> 0"
    and safe: "\<forall>t. internal_asserts c \<longrightarrow> unat t < tasks_length c \<longrightarrow> mq_waiting_for k t = q \<longrightarrow>
      unat (mq_available (queue_of k q)) = nqueues \<or> mq_available (queue_of k q) = 1"
  shows "\<exists>k'. rtos_message_queue_try_get c mc q message k = Inr (True, k') \<and> mq_inv k' \<and>
    contents_of k q = read_bytes (k_memory k') message (unat (mq_message_size (queue_of k q))) # contents_of k' q \<and>
    (\<forall>r. unat r < nqueues \<longrightarrow> r \<noteq> q \<longrightarrow> contents_of k' r = contents_of k r) \<and>
    mq_woken (unat (mq_available (queue_of k q)) = nqueues) q k k' \<and> mq_static k' = mq_static k"
proof -
  let ?mq = "queue_of k q" and ?n = "unat (mq_message_size (queue_of k q))"
  let ?src = "mq_slot ?mq 0" and ?b = "unat (mq_available ?mq) = nqueues"
  let ?mem = "memcopy_loop message ?src (message + ?n) (k_memory k)"
  have n: "length (k_message_queues k) = nqueues" using inv by (simp add: mq_inv_def mq_tables_ok_def)
  have wf: "mq_wf ?mq" using inv q n by (simp add: mq_inv_def queues_ok_def)
  have disj: "region message ?n \<inter> mq_array (queue_of k r) = {}" if "unat r < nqueues" for r
    using buf that n by (simp add: buffer_ok_def)
  have "region message ?n \<inter> region ?src ?n = {}"
    using mq_slot_region [OF wf, of 0] disj [OF q] by blast
  from region_disjoint_order [OF this mq_wf_nat(5) [OF wf]]
  have ord: "message < ?src \<or> ?src + ?n \<le> message" by blast
  note pop = mq_popped_wf [OF wf avail]
  have test: "(int (unat (mq_available (mq_popped ?mq))) = int nqueues - 1) = ?b"
  proof -
    have "0 < unat (mq_available ?mq)" using avail by (simp add: unat_gt_0)
    then show ?thesis unfolding pop(3) by linarith
  qed
  have fields: "mq_messages (mq_popped ?mq) = mq_messages ?mq" "mq_message_size (mq_popped ?mq) = mq_message_size ?mq"
    "mq_queue_length (mq_popped ?mq) = mq_queue_length ?mq" "mq_available (mq_popped ?mq) = mq_available ?mq - 1"
    by (simp_all add: mq_popped_def)
  have safe': "\<forall>t. internal_asserts c \<longrightarrow> unat t < tasks_length c \<longrightarrow> mq_waiting_for k t = q \<longrightarrow>
      ?b \<or> mq_available (mq_popped ?mq) = 0 \<or> mq_available (mq_popped ?mq) = mq_queue_length (mq_popped ?mq)"
    using safe by (auto simp: fields)
  obtain k' where k': "kbind (kwhen ?b (message_queue_waiters_wakeup c mc q)) (\<lambda>_.
      kbind (message_queue_invariants_check c mc) (\<lambda>_. kreturn True)) (set_queue q (mq_popped ?mq) ?mem k) = Inr (True, k')"
    "mq_inv k'" "mq_rest_eq (set_queue q (mq_popped ?mq) ?mem k) k'" "mq_woken ?b q k k'"
    using mq_finish [OF inv q pop(1,2) fields(1-3) safe', of ?mem] by blast
  have copy: "memcopy c message ?src (mq_message_size ?mq) k = Inr ((), k\<lparr>k_memory := ?mem\<rparr>)"
    using ord by (auto simp: memcopy_run)
  have popped: "(?mq\<lparr>mq_head := of_nat ((unat (mq_head ?mq) + 1) mod unat (mq_queue_length ?mq))\<rparr>)
      \<lparr>mq_available := mq_available (?mq\<lparr>mq_head := of_nat ((unat (mq_head ?mq) + 1) mod unat (mq_queue_length ?mq))\<rparr>) - 1\<rparr>
      = mq_popped ?mq"
    by (simp add: mq_popped_def)
  have nq: "length (k_message_queues (set_queue q mq mem k)) = nqueues" for mq mem using n by simp
  have "rtos_message_queue_try_get c mc q message k = Inr (True, k')"
    using avail buf q n api_asserts_run [OF inv q, of message] invariants_check_run [OF inv] copy k'(1)
    unfolding rtos_message_queue_try_get_def kbind_def Let_def mq_get_position [OF wf]
    by (simp add: mq_get_position [OF wf] set_queue_run buffer_ok_def kgets_def test test [simplified] popped [simplified] nq
        del: of_nat_Suc)
  moreover have "contents_of k q = read_bytes (k_memory k') message ?n # contents_of k' q"
  proof -
    have "read_bytes ?mem message ?n = read_bytes (k_memory k) ?src ?n"
      by (rule read_bytes_copied [OF ord])
    then show ?thesis
      using mq_contents_popped [OF wf avail disj [OF q] ord] k'(3) q n
      by (simp add: contents_of_def queue_of_def mq_rest_eq_def) (simp add: set_queue_def)
  qed
  moreover have "contents_of k' r = contents_of k r" if r: "unat r < nqueues" "r \<noteq> q" for r
  proof -
    have "queue_of k' r = queue_of k r"
      using k'(3) queue_of_set [of q k "mq_popped ?mq" ?mem r] r q n by (simp add: queue_of_def mq_rest_eq_def)
    then show ?thesis
      using mq_contents_frame [of "queue_of k r" message ?n ?src "k_memory k"] ord inv r n k'(3) disj
      by (simp add: contents_of_def mq_rest_eq_def mq_inv_def queues_ok_def)
  qed
  moreover have "mq_static k' = mq_static k"
    using k'(3) queue_of_set [of q k "mq_popped ?mq" ?mem] q n
    by (simp add: fun_eq_iff mq_static_def queue_of_def mq_rest_eq_def) (simp add: mq_popped_def)
  ultimately show ?thesis using k'(2,4) by blast
qed

text \<open>
  Several messages: they come out in the order they went in, byte for byte, if there is room for them
  and no other task waits for the queue.
\<close>

lemma mq_puts_appends:
  assumes "mq_inv k" and "unat q < nqueues"
    and "\<forall>p \<in> set ps. buffer_ok p (mq_message_size (queue_of k q)) k"
    and "length (contents_of k q) + length ps \<le> unat (mq_queue_length (queue_of k q))"
    and "\<forall>t. unat t < tasks_length c \<longrightarrow> mq_waiting_for k t \<noteq> q"
  shows "\<exists>k'. mq_puts c mc q ps k = Inr (True, k') \<and> mq_inv k' \<and> mq_static k' = mq_static k \<and>
    contents_of k' q = contents_of k q @ map (\<lambda>p. read_bytes (k_memory k) p (unat (mq_message_size (queue_of k q)))) ps \<and>
    (\<forall>t. unat t < tasks_length c \<longrightarrow> mq_waiting_for k' t \<noteq> q)"
  using assms
proof (induction ps arbitrary: k)
  case (Cons p ps)
  let ?n = "unat (mq_message_size (queue_of k q))"
  have n: "length (k_message_queues k) = nqueues" "nqueues \<le> 255"
    using Cons.prems(1) by (simp_all add: mq_inv_def mq_tables_ok_def)
  have free: "mq_available (queue_of k q) \<noteq> mq_queue_length (queue_of k q)"
    using Cons.prems(4) by (auto simp: mq_available_contents)
  have buf: "buffer_ok p (mq_message_size (queue_of k q)) k" using Cons.prems(3) by simp
  obtain k1 where k1: "rtos_message_queue_try_put c mc q p k = Inr (True, k1)" "mq_inv k1"
    "contents_of k1 q = contents_of k q @ [read_bytes (k_memory k) p ?n]"
    "mq_woken (mq_available (queue_of k q) = 0) q k k1" "mq_static k1 = mq_static k"
    "\<forall>a. a \<notin> mq_array (queue_of k q) \<longrightarrow> k_memory k1 a = k_memory k a"
    using rtos_message_queue_try_put_appends [OF Cons.prems(1,2) buf free] by (elim exE conjE) (rule that; assumption)
  have n1: "length (k_message_queues k1) = nqueues" using k1(2) by (simp add: mq_inv_def mq_tables_ok_def)
  have st: "mq_message_size (queue_of k1 q) = mq_message_size (queue_of k q)"
    "mq_queue_length (queue_of k1 q) = mq_queue_length (queue_of k q)"
    using fun_cong [OF k1(5), of q] by (simp_all add: mq_static_def)
  have none: "q \<noteq> MESSAGE_QUEUE_ID_NONE" using Cons.prems(2) n(2) by (auto simp: MESSAGE_QUEUE_ID_NONE_def)
  have same: "read_bytes (k_memory k1) p' ?n = read_bytes (k_memory k) p' ?n" if "p' \<in> set ps" for p'
  proof (rule read_bytes_cong)
    fix a assume a: "a \<in> region p' ?n"
    have "region p' ?n \<inter> mq_array (queue_of k q) = {}" using that Cons.prems(2,3) n by (simp add: buffer_ok_def)
    then show "k_memory k1 a = k_memory k a" using a k1(6) by blast
  qed
  have "\<forall>t. unat t < tasks_length c \<longrightarrow> mq_waiting_for k1 t \<noteq> q"
    using k1(4) Cons.prems(5) none by (simp add: mq_woken_def)
  moreover have "\<forall>p \<in> set ps. buffer_ok p (mq_message_size (queue_of k1 q)) k1"
    using Cons.prems(3) by (simp add: buffer_ok_static [OF k1(5)] n n1)
  ultimately obtain k2 where "mq_puts c mc q ps k1 = Inr (True, k2)" "mq_inv k2" "mq_static k2 = mq_static k1"
    "contents_of k2 q = contents_of k1 q @ map (\<lambda>p. read_bytes (k_memory k1) p ?n) ps"
    "\<forall>t. unat t < tasks_length c \<longrightarrow> mq_waiting_for k2 t \<noteq> q"
    using Cons.IH [OF k1(2) Cons.prems(2)] k1(3) Cons.prems(4) st by auto
  then show ?case
    using k1(1,3,5) same by (intro exI [of _ k2]) (simp add: kbind_def kreturn_def cong: map_cong)
qed (simp add: kreturn_def)

lemma mq_gets_removes:
  assumes "mq_inv k" and "unat q < nqueues"
    and "\<forall>p \<in> set ps. buffer_ok p (mq_message_size (queue_of k q)) k"
    and "length ps \<le> length (contents_of k q)"
    and "\<forall>t. unat t < tasks_length c \<longrightarrow> mq_waiting_for k t \<noteq> q"
  shows "\<exists>k'. mq_gets c mc q ps k = Inr (take (length ps) (contents_of k q), k') \<and> mq_inv k' \<and>
    contents_of k' q = drop (length ps) (contents_of k q)"
  using assms
proof (induction ps arbitrary: k)
  case (Cons p ps)
  have n: "length (k_message_queues k) = nqueues" "nqueues \<le> 255"
    using Cons.prems(1) by (simp_all add: mq_inv_def mq_tables_ok_def)
  have avail: "mq_available (queue_of k q) \<noteq> 0"
    using Cons.prems(4) by (auto simp: mq_available_contents)
  have buf: "buffer_ok p (mq_message_size (queue_of k q)) k" using Cons.prems(3) by simp
  obtain k1 where k1: "rtos_message_queue_try_get c mc q p k = Inr (True, k1)" "mq_inv k1"
    "contents_of k q = read_bytes (k_memory k1) p (unat (mq_message_size (queue_of k q))) # contents_of k1 q"
    "mq_woken (unat (mq_available (queue_of k q)) = nqueues) q k k1" "mq_static k1 = mq_static k"
    using rtos_message_queue_try_get_removes [OF Cons.prems(1,2) buf avail] Cons.prems(5) by blast
  have n1: "length (k_message_queues k1) = nqueues" using k1(2) by (simp add: mq_inv_def mq_tables_ok_def)
  have none: "q \<noteq> MESSAGE_QUEUE_ID_NONE" using Cons.prems(2) n(2) by (auto simp: MESSAGE_QUEUE_ID_NONE_def)
  have size: "mq_message_size (queue_of k1 q) = mq_message_size (queue_of k q)"
    using fun_cong [OF k1(5), of q] by (simp add: mq_static_def)
  have "\<forall>t. unat t < tasks_length c \<longrightarrow> mq_waiting_for k1 t \<noteq> q"
    using k1(4) Cons.prems(5) none by (simp add: mq_woken_def)
  moreover have "\<forall>p \<in> set ps. buffer_ok p (mq_message_size (queue_of k1 q)) k1"
    using Cons.prems(3) by (simp add: buffer_ok_static [OF k1(5)] n n1)
  ultimately obtain k2 where "mq_gets c mc q ps k1 = Inr (take (length ps) (contents_of k1 q), k2)" "mq_inv k2"
    "contents_of k2 q = drop (length ps) (contents_of k1 q)"
    using Cons.IH [OF k1(2) Cons.prems(2)] k1(3) Cons.prems(4) by auto
  then show ?case
    using k1(1,3) size
    by (intro exI [of _ k2]) (simp add: kbind_def kreturn_def kgets_def queue_of_def)
qed (simp add: kreturn_def)

text \<open>
  So a task that waits to put into a full queue is not woken by a get, unless the queue length
  happens to be the number of message queues: it stays registered and blocked although there is room.
\<close>

lemma try_get_no_wakeup:
  assumes inv: "mq_inv k" and q: "unat q < nqueues" and buf: "buffer_ok message (mq_message_size (queue_of k q)) k"
    and full: "mq_available (queue_of k q) = mq_queue_length (queue_of k q)"
    and len: "unat (mq_queue_length (queue_of k q)) \<noteq> nqueues"
    and t: "unat t < tasks_length c" "mq_waiting_for k t = q" "\<not> runnable (k_sched k) t"
    and off: "\<not> internal_asserts c"
  shows "\<exists>k'. rtos_message_queue_try_get c mc q message k = Inr (True, k') \<and>
    length (contents_of k' q) < unat (mq_queue_length (queue_of k q)) \<and>
    mq_waiting_for k' t = q \<and> \<not> runnable (k_sched k') t \<and> pending_of k' t = pending_of k t"
proof -
  have "mq_wf (queue_of k q)" using inv q by (simp add: mq_inv_def queues_ok_def mq_tables_ok_def)
  then have ne: "mq_available (queue_of k q) \<noteq> 0" using full by (auto simp: mq_wf_def)
  obtain k' where "rtos_message_queue_try_get c mc q message k = Inr (True, k')"
    "contents_of k q = read_bytes (k_memory k') message (unat (mq_message_size (queue_of k q))) # contents_of k' q"
    "mq_woken (unat (mq_available (queue_of k q)) = nqueues) q k k'"
    using rtos_message_queue_try_get_removes [OF inv q buf ne] off by blast
  moreover have "length (contents_of k q) = unat (mq_queue_length (queue_of k q))"
    by (simp add: contents_of_def mq_contents_def full)
  ultimately show ?thesis using full len t by (simp add: mq_woken_def)
qed

end

end
