(* ===== verification/Simple_Mutex.thy ===== *)
theory Simple_Mutex
  imports Signals
begin

text \<open>
  The simple-mutex component (\<open>components/simple-mutex\<close>) of the variants Gatria, Kraz and Acrux: a
  flag per mutex. A task that finds it set yields and tries again. The component records no holder
  and does not check who unlocks.
\<close>

section \<open>Model\<close>

record smutex =
  sm_locked :: bool

record 's smutex_kernel = "'s signal_kernel" +
  k_smutexes :: "smutex list"

definition assert_smutex_valid :: "config \<Rightarrow> u8 \<Rightarrow> (('s, 'z) smutex_kernel_scheme, unit) kop" where
  "assert_smutex_valid c mutex =
     kbind (kgets (\<lambda>k. length (k_smutexes k))) (\<lambda>mutexes_length.
     api_assert c (unat mutex < mutexes_length) ERROR_ID_INVALID_ID)"

definition set_smutex_locked :: "u8 \<Rightarrow> bool \<Rightarrow> (('s, 'z) smutex_kernel_scheme, unit) kop" where
  "set_smutex_locked m b = array_modify k_smutexes k_smutexes_update m (\<lambda>mutex. mutex\<lparr>sm_locked := b\<rparr>)"

definition internal_mutex_try_lock :: "u8 \<Rightarrow> (('s, 'z) smutex_kernel_scheme, bool) kop" where
  "internal_mutex_try_lock m =
     kbind (array_read k_smutexes m) (\<lambda>mutex.
     if sm_locked mutex then kreturn False
     else kbind (set_smutex_locked m True) (\<lambda>_. kreturn True))"

text \<open>The one program point of \<open>mutex_lock\<close> is the \<open>yield\<close> in its loop.\<close>

datatype smutex_pc = SMutex_Yielded u8

definition smutex_lock_attempt ::
  "config \<Rightarrow> u8 \<Rightarrow> (('s, 'z) smutex_kernel_scheme, (smutex_pc, unit) progress) kop"
where
  "smutex_lock_attempt c m =
     kbind (internal_mutex_try_lock m) (\<lambda>r.
     if \<not> r then kreturn (Suspended (SMutex_Yielded m))
     else co_finish (preempt_enable c) ())"

definition rtos_smutex_lock ::
  "config \<Rightarrow> u8 \<Rightarrow> (('s, 'z) smutex_kernel_scheme, (smutex_pc, unit) progress) kop"
where
  "rtos_smutex_lock c m =
     kbind (assert_smutex_valid c m) (\<lambda>_.
     kbind (preempt_disable c) (\<lambda>_.
     smutex_lock_attempt c m))"

definition rtos_smutex_lock_resume ::
  "config \<Rightarrow> smutex_pc \<Rightarrow> (('s, 'z) smutex_kernel_scheme, (smutex_pc, unit) progress) kop"
where
  "rtos_smutex_lock_resume c pc = (case pc of SMutex_Yielded m \<Rightarrow> smutex_lock_attempt c m)"

definition rtos_smutex_unlock :: "config \<Rightarrow> u8 \<Rightarrow> (('s, 'z) smutex_kernel_scheme, unit) kop" where
  "rtos_smutex_unlock c m =
     kbind (assert_smutex_valid c m) (\<lambda>_. set_smutex_locked m False)"

definition rtos_smutex_try_lock :: "config \<Rightarrow> u8 \<Rightarrow> (('s, 'z) smutex_kernel_scheme, bool) kop" where
  "rtos_smutex_try_lock c m =
     kbind (assert_smutex_valid c m) (\<lambda>_.
     kbind (preempt_disable c) (\<lambda>_.
     kbind (internal_mutex_try_lock m) (\<lambda>r.
     kbind (preempt_enable c) (\<lambda>_.
     kreturn r))))"

section \<open>What the operations do\<close>

definition locked :: "('s, 'z) smutex_kernel_scheme \<Rightarrow> u8 \<Rightarrow> bool" where
  "locked k m = sm_locked (k_smutexes k ! unat m)"

definition set_locked :: "u8 \<Rightarrow> bool \<Rightarrow> ('s, 'z) smutex_kernel_scheme \<Rightarrow> ('s, 'z) smutex_kernel_scheme" where
  "set_locked m b k = k\<lparr>k_smutexes := (k_smutexes k)[unat m := (k_smutexes k ! unat m)\<lparr>sm_locked := b\<rparr>]\<rparr>"

lemma locked_frame [simp]:
  "k_smutexes (enter c k) = k_smutexes k" "k_smutexes (leave c k) = k_smutexes k"
  "locked (enter c k) = locked k" "locked (leave c k) = locked k"
  "preempt_ok c (set_locked m b k) = preempt_ok c k"
  "length (k_smutexes (set_locked m b k)) = length (k_smutexes k)"
  by (simp_all add: enter_def leave_def locked_def set_locked_def preempt_ok_def fun_eq_iff)

lemma locked_set:
  "unat m < length (k_smutexes k) \<Longrightarrow> locked (set_locked m b k) n = (if n = m then b else locked k n)"
  by (simp add: locked_def set_locked_def word_nth_update)

lemma assert_smutex_valid_run [simp]:
  "assert_smutex_valid c m k =
     (if unat m < length (k_smutexes k) \<or> \<not> api_asserts c then Inr ((), k) else Inl (Fatal ERROR_ID_INVALID_ID))"
  by (simp add: assert_smutex_valid_def kop_defs)

lemma set_smutex_locked_run [simp]:
  "set_smutex_locked m b k =
     (if unat m < length (k_smutexes k) then Inr ((), set_locked m b k) else Inl Out_Of_Bounds)"
  by (simp add: set_smutex_locked_def set_locked_def kop_defs)

lemma internal_mutex_try_lock_eq:
  "internal_mutex_try_lock m k =
     (if unat m < length (k_smutexes k)
      then Inr (\<not> locked k m, if locked k m then k else set_locked m True k)
      else Inl Out_Of_Bounds)"
  by (simp add: internal_mutex_try_lock_def kbind_def kreturn_def array_read_def locked_def)

lemma rtos_smutex_try_lock_eq:
  "unat m < length (k_smutexes k) \<Longrightarrow> rtos_smutex_try_lock c m k =
     Inr (\<not> locked k m, leave c (if locked k m then enter c k else set_locked m True (enter c k)))"
  by (simp add: rtos_smutex_try_lock_def kbind_def kreturn_def internal_mutex_try_lock_eq)

lemma smutex_lock_attempt_eq:
  "preempt_ok c k \<Longrightarrow> unat m < length (k_smutexes k) \<Longrightarrow> smutex_lock_attempt c m k =
     (if locked k m then Inr (Suspended (SMutex_Yielded m), k)
      else Inr (Finished (), leave c (set_locked m True k)))"
  by (simp add: smutex_lock_attempt_def kbind_def kreturn_def co_finish_def internal_mutex_try_lock_eq)

lemma rtos_smutex_lock_eq:
  "unat m < length (k_smutexes k) \<Longrightarrow> rtos_smutex_lock c m k =
     (if locked k m then Inr (Suspended (SMutex_Yielded m), enter c k)
      else Inr (Finished (), leave c (set_locked m True (enter c k))))"
  by (simp add: rtos_smutex_lock_def kbind_def smutex_lock_attempt_eq)

lemma rtos_smutex_unlock_eq:
  "unat m < length (k_smutexes k) \<Longrightarrow> rtos_smutex_unlock c m k = Inr ((), set_locked m False k)"
  by (simp add: rtos_smutex_unlock_def kbind_def)

section \<open>Mutual exclusion\<close>

text \<open>
  Tasks calling the component in any order. The second component of the state says which mutexes
  each task has acquired and not released; a task unlocks only what it has acquired, which the
  documentation requires of the application. A call that suspends in the loop may be resumed at any
  later time. Whatever the rest of the kernel does leaves the flags alone.
\<close>

inductive smutex_step ::
  "config \<Rightarrow> (('s, 'z) smutex_kernel_scheme \<times> (u8 \<Rightarrow> u8 set)) \<Rightarrow>
     (('s, 'z) smutex_kernel_scheme \<times> (u8 \<Rightarrow> u8 set)) \<Rightarrow> bool"
  for c
where
  Lock: "rtos_smutex_lock c m k = Inr (r, k') \<Longrightarrow>
    smutex_step c (k, own) (k', if r = Finished () then own(t := insert m (own t)) else own)"
| Resume: "rtos_smutex_lock_resume c pc k = Inr (r, k') \<Longrightarrow> pc = SMutex_Yielded m \<Longrightarrow>
    smutex_step c (k, own) (k', if r = Finished () then own(t := insert m (own t)) else own)"
| Try_Lock: "rtos_smutex_try_lock c m k = Inr (r, k') \<Longrightarrow>
    smutex_step c (k, own) (k', if r then own(t := insert m (own t)) else own)"
| Unlock: "rtos_smutex_unlock c m k = Inr ((), k') \<Longrightarrow> m \<in> own t \<Longrightarrow>
    smutex_step c (k, own) (k', own(t := own t - {m}))"
| Other: "k_smutexes k' = k_smutexes k \<Longrightarrow> smutex_step c (k, own) (k', own)"

definition smutex_exclusive :: "('s, 'z) smutex_kernel_scheme \<times> (u8 \<Rightarrow> u8 set) \<Rightarrow> bool" where
  "smutex_exclusive = (\<lambda>(k, own).
     (\<forall>t m. m \<in> own t \<longrightarrow> unat m < length (k_smutexes k) \<and> locked k m) \<and>
     (\<forall>t u m. m \<in> own t \<longrightarrow> m \<in> own u \<longrightarrow> t = u))"

lemma smutex_exclusive_acquire:
  assumes "smutex_exclusive (k, own)" and "unat m < length (k_smutexes k)" and "\<not> locked k m"
    and "k_smutexes k' = k_smutexes (set_locked m True k)"
  shows "smutex_exclusive (k', own(t := insert m (own t)))"
proof -
  have "locked k' = locked (set_locked m True k)" by (simp add: locked_def assms(4) fun_eq_iff)
  moreover have "length (k_smutexes k') = length (k_smutexes k)" by (simp add: assms(4))
  ultimately show ?thesis
    using assms(1-3) by (auto simp: smutex_exclusive_def locked_set)
qed

lemma smutex_exclusive_same:
  "smutex_exclusive (k, own) \<Longrightarrow> k_smutexes k' = k_smutexes k \<Longrightarrow> smutex_exclusive (k', own)"
  by (simp add: smutex_exclusive_def locked_def)

lemma set_locked_enter:
  "k_smutexes (leave c (set_locked m b (enter c k))) = k_smutexes (set_locked m b k)"
  by (simp add: set_locked_def)

lemma smutex_api_bounds:
  assumes "rtos_smutex_lock c m k = Inr (r, k') \<or> rtos_smutex_try_lock c m k = Inr (b, k') \<or>
    rtos_smutex_unlock c m k = Inr ((), k') \<or> smutex_lock_attempt c m k = Inr (r, k')"
  shows "unat m < length (k_smutexes k)"
  using assms
  by (auto simp: rtos_smutex_lock_def rtos_smutex_try_lock_def rtos_smutex_unlock_def
      smutex_lock_attempt_def kbind_def internal_mutex_try_lock_eq split: if_splits)

lemma smutex_lock_attempt_cases:
  assumes "smutex_lock_attempt c m k = Inr (r, k')"
  shows "locked k m \<and> r = Suspended (SMutex_Yielded m) \<and> k' = k \<or>
    \<not> locked k m \<and> r = Finished () \<and> k_smutexes k' = k_smutexes (set_locked m True k)"
proof -
  have m: "unat m < length (k_smutexes k)" using assms smutex_api_bounds by blast
  have "k_smutexes k2 = k_smutexes k1" if "preempt_enable c k1 = Inr (u, k2)"
    for u and k1 k2 :: "('a, 'b) smutex_kernel_scheme"
    using that
    by (auto simp: preempt_enable_def kwhen_def kbind_def kreturn_def kmodify_def
        precondition_preemption_disabled_fatal split: if_splits)
  then show ?thesis
    using assms m
    by (fastforce simp: smutex_lock_attempt_def internal_mutex_try_lock_eq kbind_def kreturn_def co_finish_def
        split: if_splits sum.splits)
qed

theorem smutex_step_exclusive:
  assumes "smutex_step c st st'" and "smutex_exclusive st"
  shows "smutex_exclusive st'"
  using assms
proof (induction rule: smutex_step.induct)
  case (Lock m k r k' own t)
  then have m: "unat m < length (k_smutexes k)" using smutex_api_bounds by blast
  show ?case
    using Lock set_locked_enter [of c m True k]
    by (auto simp: rtos_smutex_lock_eq [OF m] intro: smutex_exclusive_same smutex_exclusive_acquire [OF _ m] split: if_splits)
next
  case (Resume pc k r k' m own t)
  then have att: "smutex_lock_attempt c m k = Inr (r, k')" by (simp add: rtos_smutex_lock_resume_def)
  then have m: "unat m < length (k_smutexes k)" using smutex_api_bounds by blast
  show ?case
    using smutex_lock_attempt_cases [OF att] smutex_exclusive_acquire [OF Resume.prems m] Resume.prems
    by auto
next
  case (Try_Lock m k r k' own t)
  then have m: "unat m < length (k_smutexes k)" using smutex_api_bounds by blast
  show ?case
    using Try_Lock set_locked_enter [of c m True k]
    by (auto simp: rtos_smutex_try_lock_eq [OF m] intro: smutex_exclusive_same smutex_exclusive_acquire [OF _ m] split: if_splits)
next
  case (Unlock m k k' own t)
  then have m: "unat m < length (k_smutexes k)" using smutex_api_bounds by blast
  then have "k' = set_locked m False k" using Unlock by (simp add: rtos_smutex_unlock_eq)
  then show ?case
    using Unlock.prems Unlock.hyps(2) by (auto simp: smutex_exclusive_def locked_set [OF m])
next
  case (Other k' k own)
  then show ?case by (rule smutex_exclusive_same [rotated])
qed

lemma smutex_steps_exclusive:
  "(smutex_step c)\<^sup>*\<^sup>* st st' \<Longrightarrow> smutex_exclusive st \<Longrightarrow> smutex_exclusive st'"
  by (induction rule: rtranclp_induct) (auto intro: smutex_step_exclusive)

text \<open>
  C37: Mutual exclusion. However tasks interleave their calls, from a state in which none of them has a
  mutex: a mutex that a task has acquired and not released is locked, no other task has it, and a task
  that tries to lock it does not succeed.
\<close>

theorem smutex_mutual_exclusion:
  assumes "(smutex_step c)\<^sup>*\<^sup>* (k, \<lambda>_. {}) (k', own)" and "m \<in> own t"
  shows "locked k' m \<and> (\<forall>u. m \<in> own u \<longrightarrow> u = t) \<and>
    (\<exists>k2. rtos_smutex_try_lock c m k' = Inr (False, k2)) \<and>
    (\<exists>k2. rtos_smutex_lock c m k' = Inr (Suspended (SMutex_Yielded m), k2))"
proof -
  have "smutex_exclusive (k, \<lambda>_. {})" by (simp add: smutex_exclusive_def)
  then have "smutex_exclusive (k', own)" by (rule smutex_steps_exclusive [OF assms(1)])
  then have m: "unat m < length (k_smutexes k')" "locked k' m" "\<forall>u. m \<in> own u \<longrightarrow> u = t"
    using assms(2) by (auto simp: smutex_exclusive_def)
  then show ?thesis by (simp add: rtos_smutex_try_lock_eq rtos_smutex_lock_eq)
qed

text \<open>Task 0 locks a mutex, and task 1 waits for it in the loop.\<close>

definition smutex_example :: "unit smutex_kernel" where
  "smutex_example = \<lparr>k_current_task = 0, k_preempt_disabled = False, k_preempt_pending = False, k_sched = (),
     k_interrupt_event = 0, k_system_is_idle = False, k_signal_tasks = [], k_smutexes = [\<lparr>sm_locked = False\<rparr>]\<rparr>"

theorem smutex_mutual_exclusion_witness:
  "\<exists>k' k2. rtos_smutex_lock (cooperative (config_example 2)) 0 smutex_example = Inr (Finished (), k') \<and>
    rtos_smutex_lock (cooperative (config_example 2)) 0 k' = Inr (Suspended (SMutex_Yielded 0), k2)"
proof -
  let ?c = "cooperative (config_example 2)"
  let ?k = "leave ?c (set_locked 0 True (enter ?c smutex_example))"
  let ?own = "(\<lambda>_. {})(0 := {0}) :: u8 \<Rightarrow> u8 set"
  have lock: "rtos_smutex_lock ?c 0 smutex_example = Inr (Finished (), ?k)"
    by (simp add: rtos_smutex_lock_eq smutex_example_def locked_def)
  have "smutex_step ?c (smutex_example, \<lambda>_. {}) (?k, ?own)"
    using smutex_step.Lock [OF lock, of "\<lambda>_. {}" 0] by simp
  then have "(smutex_step ?c)\<^sup>*\<^sup>* (smutex_example, \<lambda>_. {}) (?k, ?own)" by (rule r_into_rtranclp)
  from smutex_mutual_exclusion [OF this, of 0 0] show ?thesis using lock by auto
qed

end
