(* ===== verification/Acamar.thy ===== *)
theory Acamar
  imports Kernel
begin

text \<open>
  The Acamar variant (\<open>components/acamar\<close>): no scheduler, tasks pass control explicitly. A context
  switch is the pair of the task that is left and the task that is entered; it is the result of the
  routine that performs it. Setting up a task's initial context (\<open>context_init\<close>) belongs to the
  context-switch component of the platform and is a parameter.
\<close>

definition acamar_yield_to :: "config \<Rightarrow> u8 \<Rightarrow> (('s, 'z) kernel_scheme, u8 \<times> u8) kop" where
  "acamar_yield_to c to =
     kbind (get_current_task c) (\<lambda>from.
     kbind (kmodify (\<lambda>k. k\<lparr>k_current_task := to\<rparr>)) (\<lambda>_.
     kreturn (from, to)))"

definition acamar_start ::
  "config \<Rightarrow> (u8 \<Rightarrow> (('s, 'z) kernel_scheme, unit) kop) \<Rightarrow> (('s, 'z) kernel_scheme, u8) kop"
where
  "acamar_start c context_init =
     kbind (kseq (map context_init (ids (tasks_length c)))) (\<lambda>_. kreturn TASK_ID_ZERO)"

lemma acamar_yield_to_eq:
  assumes "current_ok c k"
  shows "acamar_yield_to c to k = Inr ((k_current_task k, to), k\<lparr>k_current_task := to\<rparr>)"
  using assms by (simp add: acamar_yield_to_def kbind_def kmodify_def kreturn_def)

text \<open>
  The target is not checked: control passed to an identifier that is no task leaves an invalid
  current task behind, which the next call detects only with internal assertions.
\<close>

lemma acamar_yield_to_invalid:
  assumes "current_ok c k" and "\<not> unat to < tasks_length c" and "internal_asserts c"
  shows "\<exists>k'. acamar_yield_to c to k = Inr ((k_current_task k, to), k') \<and>
    acamar_yield_to c to' k' = Inl (Fatal ERROR_ID_INTERNAL_CURRENT_TASK_INVALID)"
  using assms
  by (simp add: acamar_yield_to_eq)
     (simp add: acamar_yield_to_def get_current_task_def get_current_task_check_def kbind_def kgets_def)

end
