(* ===== verification/Gatria.thy ===== *)
theory Gatria
  imports Sched_RR Simple_Mutex
begin

text \<open>
  The Gatria variant (\<open>components/gatria\<close>): cooperative round-robin scheduling with simple mutexes.
  The scheduler is configured with \<open>assume_runnable\<close>, so the application must keep a task runnable.
\<close>

section \<open>Model\<close>

definition gatria_yield_to :: "config \<Rightarrow> u8 \<Rightarrow> ((rr_sched, 'z) kernel_scheme, u8 \<times> u8) kop" where
  "gatria_yield_to c to =
     kbind (get_current_task c) (\<lambda>from.
     kbind (kmodify (\<lambda>k. k\<lparr>k_current_task := to\<rparr>)) (\<lambda>_.
     kreturn (from, to)))"

definition gatria_yield :: "config \<Rightarrow> ((rr_sched, 'z) kernel_scheme, u8 \<times> u8) kop" where
  "gatria_yield c = kbind (on_sched (rr_sched_get_next True)) (\<lambda>to. gatria_yield_to c to)"

text \<open>The part of \<open>block\<close> before it yields, and all of it.\<close>

definition gatria_set_blocked :: "config \<Rightarrow> ((rr_sched, 'z) kernel_scheme, unit) kop" where
  "gatria_set_blocked c = kbind (get_current_task c) (\<lambda>current. on_sched (rr_sched_set_blocked current))"

definition gatria_block :: "config \<Rightarrow> ((rr_sched, 'z) kernel_scheme, u8 \<times> u8) kop" where
  "gatria_block c = kbind (gatria_set_blocked c) (\<lambda>_. gatria_yield c)"

definition gatria_unblock :: "u8 \<Rightarrow> ((rr_sched, 'z) kernel_scheme, unit) kop" where
  "gatria_unblock task = on_sched (rr_sched_set_runnable task)"

definition gatria_start ::
  "config \<Rightarrow> (u8 \<Rightarrow> ((rr_sched, 'z) kernel_scheme, unit) kop) \<Rightarrow> ((rr_sched, 'z) kernel_scheme, u8) kop"
where
  "gatria_start c context_init =
     kbind (kseq (map context_init (ids (tasks_length c)))) (\<lambda>_. kreturn TASK_ID_ZERO)"

section \<open>Correctness\<close>

abbreviation gatria_inv :: "config \<Rightarrow> (rr_sched, 'z) kernel_scheme \<Rightarrow> bool" where
  "gatria_inv c \<equiv> kernel_inv c rr_inv rr_ntasks"

lemma rr_unblock_law:
  "kernel_inv (cooperative c) rr_inv rr_ntasks k \<Longrightarrow> unat t < tasks_length c \<Longrightarrow>
     on_sched (rr_sched_set_runnable t) k = Inr ((), k\<lparr>k_sched := rr_ready t (k_sched k)\<rparr>)"
  by (rule on_sched_run, rule rr_update_laws(1)) (simp_all add: kernel_inv_def)

lemma rr_block_law:
  assumes "kernel_inv c rr_inv rr_ntasks k"
  shows "kbind (get_current_task c) (\<lambda>current. on_sched (rr_sched_set_blocked current)) k =
     Inr ((), k\<lparr>k_sched := rr_block (k_current_task k) (k_sched k)\<rparr>)"
proof -
  have "on_sched (rr_sched_set_blocked (k_current_task k)) k =
      Inr ((), k\<lparr>k_sched := rr_block (k_current_task k) (k_sched k)\<rparr>)"
    by (rule on_sched_run, rule rr_update_laws(2)) (use assms in \<open>simp_all add: kernel_inv_def current_ok_def\<close>)
  then show ?thesis using assms by (simp add: kbind_def kernel_inv_def)
qed

interpretation gatria: task_control rr_sched_set_runnable rr_sched_set_blocked "rr_sched_get_next True"
  rr_ready rr_block rr_inv rr_ntasks rr_is_runnable "cooperative c" gatria_unblock "gatria_set_blocked (cooperative c)"
  by unfold_locales (simp_all add: gatria_unblock_def gatria_set_blocked_def rr_unblock_law rr_block_law)

text \<open>\<open>yield\<close> switches to the task the reference model of the scheduler picks.\<close>

lemma gatria_yield_eq:
  assumes inv: "gatria_inv c k"
    and nxt: "rr_model_next (rr_flags (k_sched k)) (unat (rr_cur (k_sched k))) = Some i"
  shows "gatria_yield c k = Inr ((k_current_task k, of_nat i),
      k\<lparr>k_sched := (k_sched k)\<lparr>rr_cur := of_nat i\<rparr>, k_current_task := of_nat i\<rparr>)"
proof -
  have s: "rr_inv (k_sched k)" using inv by (simp add: kernel_inv_def)
  have cur: "unat (rr_cur (k_sched k)) < length (rr_flags (k_sched k))" using s by (simp add: rr_inv_def)
  have "\<exists>i < rr_ntasks (k_sched k). rr_flags (k_sched k) ! i"
    using rr_model_next_Some [OF cur nxt] by (auto simp: rr_ntasks_def)
  then have "rr_sched_get_next True (k_sched k) = Inr (of_nat i, (k_sched k)\<lparr>rr_cur := of_nat i\<rparr>)"
    using rr_get_next_eq [OF s, of True] nxt by simp
  then have "on_sched (rr_sched_get_next True) k =
      Inr (of_nat i, k\<lparr>k_sched := (k_sched k)\<lparr>rr_cur := of_nat i\<rparr>\<rparr>)"
    by (rule on_sched_run)
  then show ?thesis
    using inv by (simp add: gatria_yield_def gatria_yield_to_def kbind_def kmodify_def kreturn_def kernel_inv_def current_ok_def
        get_current_task_def get_current_task_check_def kgets_def)
qed

text \<open>
  When the only task that can run blocks, \<open>block\<close> does not return: the scheduler, configured with
  \<open>assume_runnable\<close>, searches forever. No other task can run until an interrupt changes that, and
  Gatria has none.
\<close>

theorem gatria_block_last:
  assumes inv: "gatria_inv (cooperative c) k"
    and last: "\<forall>t. unat t < tasks_length c \<longrightarrow> rr_is_runnable (k_sched k) t \<longrightarrow> t = k_current_task k"
  shows "gatria_block (cooperative c) k = Inl Diverges"
proof -
  let ?s = "rr_block (k_current_task k) (k_sched k)"
  have s: "rr_inv (k_sched k)" "unat (k_current_task k) < rr_ntasks (k_sched k)" "rr_ntasks (k_sched k) = tasks_length c"
    using inv by (simp_all add: kernel_inv_def current_ok_def)
  have s': "rr_inv ?s" "rr_ntasks ?s = rr_ntasks (k_sched k)" using rr_update_laws [OF s(1,2)] by simp_all
  have "\<not> rr_is_runnable ?s t" if "unat t < rr_ntasks ?s" for t
    using rr_runnable_update(2) [OF s(1,2)] last s that s' by auto
  then have "\<forall>i < rr_ntasks ?s. \<not> rr_flags ?s ! i"
    using rr_some_runnable [OF s'(1)] by blast
  from rr_get_next_diverges [OF s'(1) this] show ?thesis
    using rr_block_law [OF inv]
    by (simp add: gatria_block_def gatria_set_blocked_def gatria_yield_def kbind_def on_sched_def)
qed

definition gatria_example :: "rr_sched kernel" where
  "gatria_example = \<lparr>k_current_task = 1, k_preempt_disabled = False, k_preempt_pending = False,
     k_sched = rr_example 1 [False, True]\<rparr>"

theorem gatria_block_last_witness:
  "gatria_block (cooperative (config_example 2)) gatria_example = Inl Diverges"
  by (rule gatria_block_last)
     (auto simp: gatria_example_def config_example_def kernel_inv_def current_ok_def rr_example_def rr_inv_def
       rr_ntasks_def rr_is_runnable_def ids_all ids_simps)

end
