(* ===== verification/Kraz.thy ===== *)
theory Kraz
  imports Gatria
begin

text \<open>
  The Kraz variant (\<open>components/kraz\<close>): Gatria's scheduling with signals instead of a public
  \<open>block\<close> and \<open>unblock\<close>.
\<close>

section \<open>Model\<close>

definition kraz_yield_to :: "config \<Rightarrow> u8 \<Rightarrow> ((rr_sched, 'z) signal_kernel_scheme, u8 \<times> u8) kop" where
  "kraz_yield_to c to =
     kbind (get_current_task c) (\<lambda>from.
     kbind (kmodify (\<lambda>k. k\<lparr>k_current_task := to\<rparr>)) (\<lambda>_.
     kreturn (from, to)))"

definition kraz_yield :: "config \<Rightarrow> ((rr_sched, 'z) signal_kernel_scheme, u8 \<times> u8) kop" where
  "kraz_yield c = kbind (on_sched (rr_sched_get_next True)) (\<lambda>to. kraz_yield_to c to)"

definition kraz_set_blocked :: "config \<Rightarrow> ((rr_sched, 'z) signal_kernel_scheme, unit) kop" where
  "kraz_set_blocked c = kbind (get_current_task c) (\<lambda>current. on_sched (rr_sched_set_blocked current))"

definition kraz_block :: "config \<Rightarrow> ((rr_sched, 'z) signal_kernel_scheme, u8 \<times> u8) kop" where
  "kraz_block c = kbind (kraz_set_blocked c) (\<lambda>_. kraz_yield c)"

definition kraz_unblock :: "u8 \<Rightarrow> ((rr_sched, 'z) signal_kernel_scheme, unit) kop" where
  "kraz_unblock task = on_sched (rr_sched_set_runnable task)"

definition kraz_start ::
  "config \<Rightarrow> (u8 \<Rightarrow> ((rr_sched, 'z) signal_kernel_scheme, unit) kop) \<Rightarrow>
     ((rr_sched, 'z) signal_kernel_scheme, u8) kop"
where
  "kraz_start c context_init =
     kbind (kseq (map context_init (ids (tasks_length c)))) (\<lambda>_. kreturn TASK_ID_ZERO)"

section \<open>Correctness\<close>

interpretation kraz: signal_control rr_sched_set_runnable rr_sched_set_blocked "rr_sched_get_next True"
  rr_ready rr_block rr_inv rr_ntasks rr_is_runnable "cooperative c" kraz_unblock "kraz_set_blocked (cooperative c)"
  by unfold_locales (simp_all add: kraz_unblock_def kraz_set_blocked_def rr_unblock_law rr_block_law)

end
