(* ===== verification/Acrux.thy ===== *)
theory Acrux
  imports Gatria
begin

text \<open>
  The Acrux variant (\<open>components/acrux\<close>): Gatria with interrupt events. An event makes the task with
  the same number runnable; \<open>yield\<close> processes events and waits for interrupts when no task can run.
\<close>

section \<open>Model\<close>

text \<open>The macro \<open>interrupt_event_id_to_taskid\<close> is a cast between types of the same width.\<close>

definition acrux_interrupt_event_handle :: "u8 \<Rightarrow> ((rr_sched, 'z) irq_kernel_scheme, unit) kop" where
  "acrux_interrupt_event_handle interrupt_event_id = on_sched (rr_sched_set_runnable interrupt_event_id)"

definition acrux_yield_to :: "config \<Rightarrow> u8 \<Rightarrow> ((rr_sched, 'z) irq_kernel_scheme, u8 \<times> u8) kop" where
  "acrux_yield_to c to =
     kbind (get_current_task c) (\<lambda>from.
     kbind (kmodify (\<lambda>k. k\<lparr>k_current_task := to\<rparr>)) (\<lambda>_.
     kreturn (from, to)))"

text \<open>
  \<open>process\<close> is the event processing of the platform, applied to this variant's handler; \<open>waits\<close> is
  what interrupts do while the system idles. The result is \<open>None\<close> while it still idles.
\<close>

definition acrux_yield ::
  "config \<Rightarrow> ((rr_sched, 'z) irq_kernel_scheme, unit) kop \<Rightarrow> ((rr_sched, 'z) irq_kernel_scheme, unit) kop list \<Rightarrow>
     ((rr_sched, 'z) irq_kernel_scheme, (u8 \<times> u8) option) kop"
where
  "acrux_yield c process waits =
     kbind (interrupt_event_get_next c process (kreturn ()) (on_sched (rr_sched_get_next False)) waits) (\<lambda>next.
     case next of
       None \<Rightarrow> kreturn None
     | Some to \<Rightarrow> kbind (acrux_yield_to c to) (\<lambda>switch. kreturn (Some switch)))"

definition acrux_set_blocked :: "config \<Rightarrow> ((rr_sched, 'z) irq_kernel_scheme, unit) kop" where
  "acrux_set_blocked c = kbind (get_current_task c) (\<lambda>current. on_sched (rr_sched_set_blocked current))"

definition acrux_block ::
  "config \<Rightarrow> ((rr_sched, 'z) irq_kernel_scheme, unit) kop \<Rightarrow> ((rr_sched, 'z) irq_kernel_scheme, unit) kop list \<Rightarrow>
     ((rr_sched, 'z) irq_kernel_scheme, (u8 \<times> u8) option) kop"
where
  "acrux_block c process waits = kbind (acrux_set_blocked c) (\<lambda>_. acrux_yield c process waits)"

definition acrux_unblock :: "u8 \<Rightarrow> ((rr_sched, 'z) irq_kernel_scheme, unit) kop" where
  "acrux_unblock task = on_sched (rr_sched_set_runnable task)"

definition acrux_start ::
  "config \<Rightarrow> (u8 \<Rightarrow> ((rr_sched, 'z) irq_kernel_scheme, unit) kop) \<Rightarrow> ((rr_sched, 'z) irq_kernel_scheme, u8) kop"
where
  "acrux_start c context_init =
     kbind (kseq (map context_init (ids (tasks_length c)))) (\<lambda>_. kreturn TASK_ID_ZERO)"

section \<open>Correctness\<close>

interpretation acrux: task_control rr_sched_set_runnable rr_sched_set_blocked "rr_sched_get_next False"
  rr_ready rr_block rr_inv rr_ntasks rr_is_runnable "cooperative c" acrux_unblock "acrux_set_blocked (cooperative c)"
  by unfold_locales (simp_all add: acrux_unblock_def acrux_set_blocked_def rr_unblock_law rr_block_law)

definition acrux_effect :: "u8 \<Rightarrow> (rr_sched, 'z) irq_kernel_scheme \<Rightarrow> (rr_sched, 'z) irq_kernel_scheme" where
  "acrux_effect e k = k\<lparr>k_sched := rr_ready e (k_sched k)\<rparr>"

text \<open>Events name tasks, so there are at most as many events as tasks.\<close>

definition acrux_ok :: "config \<Rightarrow> nat \<Rightarrow> (rr_sched, 'z) irq_kernel_scheme \<Rightarrow> bool" where
  "acrux_ok c nevents k \<longleftrightarrow> kernel_inv c rr_inv rr_ntasks k \<and> nevents \<le> tasks_length c"

interpretation acrux_events: event_handler acrux_interrupt_event_handle acrux_effect "acrux_ok (cooperative c) n" n
proof
  fix k :: "(rr_sched, 'a) irq_kernel_scheme" and e :: u8 and v
  assume ok: "acrux_ok (cooperative c) n k" and e: "unat e < n"
  then have "kernel_inv (cooperative c) rr_inv rr_ntasks k" "unat e < tasks_length c"
    by (simp_all add: acrux_ok_def)
  then show "acrux_interrupt_event_handle e k = Inr ((), acrux_effect e k)"
    unfolding acrux_interrupt_event_handle_def acrux_effect_def by (rule rr_unblock_law)
  have "rr_inv (k_sched k)" "unat e < rr_ntasks (k_sched k)"
    using ok e by (simp_all add: acrux_ok_def kernel_inv_def)
  then show "acrux_ok (cooperative c) n (acrux_effect e k)"
    using ok rr_update_laws(3,5) [of "k_sched k" e] by (simp add: acrux_effect_def acrux_ok_def kernel_inv_def current_ok_def)
next
  fix k :: "(rr_sched, 'a) irq_kernel_scheme" and e :: u8 and v
  show "acrux_ok (cooperative c) n (k\<lparr>k_interrupt_event := v\<rparr>) = acrux_ok (cooperative c) n k"
    by (simp add: acrux_ok_def)
  show "acrux_effect e (k\<lparr>k_interrupt_event := v\<rparr>) = (acrux_effect e k)\<lparr>k_interrupt_event := v\<rparr>"
    by (simp add: acrux_effect_def)
qed

end
