(* ===== verification/Profiling.thy ===== *)
theory Profiling
  imports Message_Queue
begin

text \<open>
  The profiling component (\<open>components/profiling\<close>) of Rigel, with \<open>task_uptime\<close> configured: a timer
  interrupt of the application samples which task is running; the last counter is for the idle system.
\<close>

record 's profiling_kernel = "'s mq_kernel" +
  k_profiling_task_uptimes :: "u32 list"

definition rtos_profiling_record_sample :: "config \<Rightarrow> (('s, 'z) profiling_kernel_scheme, unit) kop" where
  "rtos_profiling_record_sample c =
     kbind (kgets k_system_is_idle) (\<lambda>system_is_idle.
     kbind (if \<not> system_is_idle then get_current_task c else kreturn (of_nat (tasks_length c))) (\<lambda>idx.
     array_modify k_profiling_task_uptimes k_profiling_task_uptimes_update idx (\<lambda>n. n + 1)))"

text \<open>Each sample counts for exactly one of the counters, so their sum is the number of samples.\<close>

lemma sum_list_increment:
  "i < length xs \<Longrightarrow> sum_list (xs[i := xs ! i + 1]) = sum_list xs + (1::u32)"
  by (induction xs arbitrary: i) (auto simp: nth_Cons algebra_simps split: nat.splits)

lemma rtos_profiling_record_sample_eq:
  assumes "current_ok c k" and "tasks_length c \<le> 255"
    and len: "length (k_profiling_task_uptimes k) = Suc (tasks_length c)"
  defines "i \<equiv> if k_system_is_idle k then tasks_length c else unat (k_current_task k)"
  shows "rtos_profiling_record_sample c k =
      Inr ((), k\<lparr>k_profiling_task_uptimes := (k_profiling_task_uptimes k)[i := k_profiling_task_uptimes k ! i + 1]\<rparr>)"
    and "sum_list ((k_profiling_task_uptimes k)[i := k_profiling_task_uptimes k ! i + 1]) =
      sum_list (k_profiling_task_uptimes k) + 1"
proof -
  have i: "i < length (k_profiling_task_uptimes k)"
    using assms(1) by (simp add: i_def len current_ok_def)
  then show "sum_list ((k_profiling_task_uptimes k)[i := k_profiling_task_uptimes k ! i + 1]) =
      sum_list (k_profiling_task_uptimes k) + 1"
    by (rule sum_list_increment)
  show "rtos_profiling_record_sample c k =
      Inr ((), k\<lparr>k_profiling_task_uptimes := (k_profiling_task_uptimes k)[i := k_profiling_task_uptimes k ! i + 1]\<rparr>)"
  proof (cases "k_system_is_idle k")
    case True
    have "unat (of_nat (tasks_length c) :: u8) = tasks_length c"
      using assms(2) by (intro u8_unat_of_nat) simp
    then show ?thesis
      using True len
      by (simp add: rtos_profiling_record_sample_def kbind_def kgets_def kreturn_def array_modify_def i_def)
  next
    case False
    then show ?thesis
      using i assms(1)
      by (simp add: rtos_profiling_record_sample_def kbind_def kgets_def array_modify_def i_def)
  qed
qed

end
