(* ===== verification/Rigel.thy ===== *)
theory Rigel
  imports Gatria Profiling
begin

text \<open>
  The Rigel variant (\<open>components/rigel\<close>): cooperative round-robin scheduling with signals, timers,
  interrupt events, blocking mutexes and message queues. Mutexes and message queues block a task by
  waiting for its task-timer signal and wake it by sending that signal.
\<close>

section \<open>Model\<close>

definition rigel_yield_to :: "config \<Rightarrow> u8 \<Rightarrow> ((rr_sched, 'z) mq_kernel_scheme, u8 \<times> u8) kop" where
  "rigel_yield_to c to =
     kbind (get_current_task c) (\<lambda>from.
     kbind (internal_assert c (unat to < tasks_length c) ERROR_ID_INTERNAL_INVALID_ID) (\<lambda>_.
     kbind (kmodify (\<lambda>k. k\<lparr>k_current_task := to\<rparr>)) (\<lambda>_.
     kreturn (from, to))))"

definition rigel_unblock :: "u8 \<Rightarrow> ((rr_sched, 'z) kernel_scheme, unit) kop" where
  "rigel_unblock task = on_sched (rr_sched_set_runnable task)"

text \<open>
  As in Acrux, with tick processing: \<open>process\<close> is the platform's event processing and \<open>waits\<close> what
  interrupts do while the system idles.
\<close>

definition rigel_yield ::
  "config \<Rightarrow> ((rr_sched, 'z) mq_kernel_scheme, unit) kop \<Rightarrow> ((rr_sched, 'z) mq_kernel_scheme, unit) kop list \<Rightarrow>
     ((rr_sched, 'z) mq_kernel_scheme, (u8 \<times> u8) option) kop"
where
  "rigel_yield c process waits =
     kbind (interrupt_event_get_next c process (timer_tick_process c rigel_unblock)
              (on_sched (rr_sched_get_next False)) waits) (\<lambda>next.
     case next of
       None \<Rightarrow> kreturn None
     | Some to \<Rightarrow> kbind (rigel_yield_to c to) (\<lambda>switch. kreturn (Some switch)))"

text \<open>The part of \<open>block\<close> before it yields, and all of it.\<close>

definition rigel_set_blocked :: "config \<Rightarrow> ((rr_sched, 'z) kernel_scheme, unit) kop" where
  "rigel_set_blocked c = kbind (get_current_task c) (\<lambda>current. on_sched (rr_sched_set_blocked current))"

definition rigel_block ::
  "config \<Rightarrow> ((rr_sched, 'z) mq_kernel_scheme, unit) kop \<Rightarrow> ((rr_sched, 'z) mq_kernel_scheme, unit) kop list \<Rightarrow>
     ((rr_sched, 'z) mq_kernel_scheme, (u8 \<times> u8) option) kop"
where
  "rigel_block c process waits = kbind (rigel_set_blocked c) (\<lambda>_. rigel_yield c process waits)"

text \<open>
  The macros \<open>mutex_core_block_on\<close>, \<open>mutex_core_unblock\<close> and their like for message queues. Rigel
  has no lock timeouts and no priority ceiling; those operations of the record are never used.
\<close>

definition rigel_task_wait :: "config \<Rightarrow> ((rr_sched, 'z) signal_kernel_scheme, signal_pc) kop" where
  "rigel_task_wait c = rtos_signal_wait_set c (\<lambda>_. rigel_set_blocked c) (SIGNAL_ID__TASK_TIMER c)"

definition rigel_task_wait_resume ::
  "config \<Rightarrow> signal_pc \<Rightarrow> ((rr_sched, 'z) signal_kernel_scheme, (signal_pc, unit) progress) kop"
where
  "rigel_task_wait_resume c p =
     co_bind (rtos_signal_wait_set_resume c (\<lambda>_. rigel_set_blocked c) p) id (\<lambda>_. kreturn (Finished ()))"

definition rigel_task_send :: "config \<Rightarrow> u8 \<Rightarrow> ((rr_sched, 'z) signal_kernel_scheme, unit) kop" where
  "rigel_task_send c task = rtos_signal_send_set c rigel_unblock task (SIGNAL_ID__TASK_TIMER c)"

definition rigel_mutex_core :: "config \<Rightarrow> bool \<Rightarrow> (rr_sched, 'z) mutex_kernel_scheme mutex_core" where
  "rigel_mutex_core c with_stats =
     \<lparr>mutex_core_block_on = (\<lambda>_. rigel_task_wait c),
      mutex_core_block_on_resume = rigel_task_wait_resume c,
      mutex_core_block_on_timeout = (\<lambda>_ _. rigel_task_wait c),
      mutex_core_block_on_timeout_resume = rigel_task_wait_resume c,
      mutex_core_unblock = rigel_task_send c,
      mutex_core_locked_by = (\<lambda>_ _. kreturn ()),
      mutex_core_unlocked = (\<lambda>_. kreturn ()),
      mutex_prio_ceiling = False,
      mutex_with_stats = with_stats\<rparr>"

definition rigel_mq_block_timeout :: "config \<Rightarrow> u16 \<Rightarrow> ((rr_sched, 'z) timer_kernel_scheme, signal_pc) kop" where
  "rigel_mq_block_timeout c timeout = rtos_sleep c rigel_unblock (\<lambda>_. rigel_set_blocked c) timeout"

definition rigel_mq_block_timeout_resume ::
  "config \<Rightarrow> signal_pc \<Rightarrow> ((rr_sched, 'z) timer_kernel_scheme, (signal_pc, unit) progress) kop"
where
  "rigel_mq_block_timeout_resume c p =
     co_bind (rtos_sleep_resume c (\<lambda>_. rigel_set_blocked c) p) id (\<lambda>_.
       kbind (get_current_task c) (\<lambda>current.
       kbind (array_read k_task_timers current) (\<lambda>timer_id.
       co_finish (rtos_timer_disable c timer_id) ())))"

definition rigel_mq_is_unblocked :: "u8 \<Rightarrow> ((rr_sched, 'z) kernel_scheme, bool) kop" where
  "rigel_mq_is_unblocked task = on_sched (rr_sched_runnable task)"

definition rigel_mq_core :: "config \<Rightarrow> (nat \<times> u8 \<times> u8) list \<Rightarrow> (rr_sched, 'z) mq_kernel_scheme mq_core" where
  "rigel_mq_core c queues =
     \<lparr>mq_core_block = rigel_task_wait c,
      mq_core_block_resume = rigel_task_wait_resume c,
      mq_core_block_timeout = rigel_mq_block_timeout c,
      mq_core_block_timeout_resume = rigel_mq_block_timeout_resume c,
      mq_core_unblock = rigel_task_send c,
      mq_core_is_unblocked = rigel_mq_is_unblocked,
      mq_config = queues\<rparr>"

text \<open>
  The entry trampoline of a task: it yields, or waits to be started, before the task's function runs.
\<close>

datatype rigel_entry_pc = Entry_Yielded | Entry_Waiting signal_pc

definition rigel_entry ::
  "config \<Rightarrow> bool \<Rightarrow> ((rr_sched, 'z) mq_kernel_scheme, (rigel_entry_pc, unit) progress) kop"
where
  "rigel_entry c start =
     (if start then kreturn (Suspended Entry_Yielded)
      else kbind (rtos_signal_wait_set c (\<lambda>_. rigel_set_blocked c) (SIGNAL_ID__RTOS_UTIL c)) (\<lambda>p.
        kreturn (Suspended (Entry_Waiting p))))"

definition rigel_entry_resume ::
  "config \<Rightarrow> rigel_entry_pc \<Rightarrow> ((rr_sched, 'z) mq_kernel_scheme, (rigel_entry_pc, unit) progress) kop"
where
  "rigel_entry_resume c pc =
     (case pc of
        Entry_Yielded \<Rightarrow> kreturn (Finished ())
      | Entry_Waiting p \<Rightarrow>
          co_bind (rtos_signal_wait_set_resume c (\<lambda>_. rigel_set_blocked c) p) Entry_Waiting (\<lambda>_. kreturn (Finished ())))"

definition rigel_entry_return :: "config \<Rightarrow> ((rr_sched, 'z) mq_kernel_scheme, unit) kop" where
  "rigel_entry_return c = api_error c ERROR_ID_TASK_FUNCTION_RETURNS"

definition rtos_task_start :: "config \<Rightarrow> u8 \<Rightarrow> ((rr_sched, 'z) mq_kernel_scheme, unit) kop" where
  "rtos_task_start c task =
     kseq [assert_task_valid c task,
           rtos_signal_send_set c rigel_unblock task (SIGNAL_ID__RTOS_UTIL c)]"

definition rigel_start ::
  "config \<Rightarrow> (u8 \<Rightarrow> ((rr_sched, 'z) mq_kernel_scheme, unit) kop) \<Rightarrow> ((rr_sched, 'z) mq_kernel_scheme, u8) kop"
where
  "rigel_start c context_init =
     kbind (message_queue_init c) (\<lambda>_.
     kbind (kseq (map (\<lambda>idx. kseq [context_init idx, on_sched (rr_sched_set_runnable idx)]) (ids (tasks_length c)))) (\<lambda>_.
     kreturn TASK_ID_ZERO))"

section \<open>The contracts of the components\<close>

interpretation rigel: signal_control rr_sched_set_runnable rr_sched_set_blocked "rr_sched_get_next False"
  rr_ready rr_block rr_inv rr_ntasks rr_is_runnable "cooperative c" rigel_unblock "rigel_set_blocked (cooperative c)"
  by unfold_locales (simp_all add: rigel_unblock_def rigel_set_blocked_def rr_unblock_law rr_block_law)

interpretation rigel_timer: timer_control rr_sched_set_runnable rr_sched_set_blocked "rr_sched_get_next False"
  rr_ready rr_block rr_inv rr_ntasks rr_is_runnable "cooperative c" rigel_unblock "rigel_set_blocked (cooperative c)"
  by unfold_locales

interpretation rigel_events: idle_event_control rr_sched_set_runnable rr_sched_set_blocked "rr_sched_get_next False"
  rr_ready rr_block rr_inv rr_ntasks rr_is_runnable "cooperative c" rigel_unblock "rigel_set_blocked (cooperative c)"
  nev
  for c nev
  by unfold_locales

lemma rigel_task_send_eq:
  assumes "kernel_inv (cooperative c) rr_inv rr_ntasks k" and "signals_ok (cooperative c) k" and "unat t < tasks_length c"
  shows "rigel_task_send (cooperative c) t k =
    Inr ((), signal_sent (cooperative c) rr_ready t (SIGNAL_ID__TASK_TIMER c) k)"
  using assms rigel.rtos_signal_send_set_cases [OF assms(1,2), of t "SIGNAL_ID__TASK_TIMER c"]
  by (simp add: rigel_task_send_def signal_sent_def)

interpretation rigel_mutex: mutex_control rr_sched_set_runnable rr_sched_set_blocked "rr_sched_get_next False"
  rr_ready rr_block rr_inv rr_ntasks rr_is_runnable "cooperative c" rigel_unblock "rigel_set_blocked (cooperative c)"
  nev "rigel_mutex_core (cooperative c) with_stats"
  by unfold_locales (simp add: rigel_mutex_core_def rigel_task_send_eq)

lemma rigel_mq_is_unblocked_eq:
  assumes "kernel_inv (cooperative c) rr_inv rr_ntasks k" and "unat t < tasks_length c"
  shows "rigel_mq_is_unblocked t k = Inr (rr_is_runnable (k_sched k) t, k)"
  using assms
  by (simp add: rigel_mq_is_unblocked_def on_sched_def rr_sched_runnable_def kbind_def kreturn_def array_read_def
      kernel_inv_def rr_ntasks_def rr_is_runnable_def)

interpretation rigel_mq: mq_control rr_sched_set_runnable rr_sched_set_blocked "rr_sched_get_next False"
  rr_ready rr_block rr_inv rr_ntasks rr_is_runnable "cooperative c" rigel_unblock "rigel_set_blocked (cooperative c)"
  nev "rigel_mq_core (cooperative c) queues" "length queues"
  by unfold_locales (simp_all add: rigel_mq_core_def rigel_task_send_eq rigel_mq_is_unblocked_eq)

end
