(* ===== verification/Rigel_Properties.thy ===== *)
theory Rigel_Properties
  imports Rigel
begin

text \<open>
  What the Rigel variant promises the tasks of a system: the contracts of its components, instantiated
  with the round-robin scheduler, as statements about the calls that tasks make.
\<close>

section \<open>A system for examples\<close>

text \<open>
  Three tasks, of which task 0 runs and task 1 waits, a timer per task, one interrupt event that wakes
  task 1 with the signals 8, one mutex and two message queues.
\<close>

definition timer_example :: "u8 \<Rightarrow> timer" where
  "timer_example task =
     \<lparr>tm_enabled = False, tm_overflow = False, tm_expiry = 0, tm_reload = 0, tm_error_id = ERROR_ID_NONE,
      tm_task_id = task, tm_signal_set = 2\<rparr>"

definition rigel_example :: "rr_sched mq_kernel" where
  "rigel_example =
     \<lparr>k_current_task = 0, k_preempt_disabled = False, k_preempt_pending = False,
      k_sched = rr_example 0 [True, False, True],
      k_interrupt_event = 0, k_system_is_idle = False,
      k_signal_tasks = [\<lparr>sig_signals = 0\<rparr>, \<lparr>sig_signals = 0\<rparr>, \<lparr>sig_signals = 0\<rparr>],
      k_timer_current_ticks = 0, k_timers = map timer_example [0, 1, 2], k_timer_pending_ticks = 0,
      k_task_timers = [0, 1, 2],
      k_interrupt_events = [\<lparr>ie_task = 1, ie_sig_set = 8\<rparr>],
      k_mutexes = [\<lparr>mx_holder = 0\<rparr>], k_mutex_waiters = [255, 0, 255], k_mutex_stats_enabled = False,
      k_mutex_stats = [\<lparr>ms_lock_counter = 0, ms_lock_contended_counter = 0, ms_lock_max_wait_time = 0\<rparr>],
      k_message_queues =
        [\<lparr>mq_messages = 100, mq_message_size = 2, mq_queue_length = 3, mq_head = 2, mq_available = 0\<rparr>,
         \<lparr>mq_messages = 200, mq_message_size = 1, mq_queue_length = 4, mq_head = 0, mq_available = 0\<rparr>],
      k_message_queue_waiters = [255, 0, 255], k_memory = (\<lambda>_. 0)\<rparr>"

abbreviation rigel_config :: config where
  "rigel_config \<equiv> config_example 3"

lemmas example_defs =
  rigel_example_def timer_example_def config_example_def rr_example_def rr_inv_def rr_ntasks_def rr_is_runnable_def
  kernel_inv_def current_ok_def preempt_ok_def signals_ok_def timers_ok_def timer_kernel_inv_def handlers_ok_def
  event_kernel_inv_def pending_of_def sole_source_def ERROR_ID_NONE_def cooperative_def

lemma rigel_example_ok:
  "kernel_inv (cooperative rigel_config) rr_inv rr_ntasks rigel_example"
  "signals_ok (cooperative rigel_config) rigel_example"
  "timer_kernel_inv (cooperative rigel_config) rr_inv rr_ntasks rigel_example"
  "rigel_events.system_ok rigel_config 1 rigel_example"
  unfolding rigel_events.system_ok_def by (simp_all add: example_defs)

section \<open>Signals\<close>

text \<open>
  A task that waits for signals of which none is pending is blocked. Whatever state the system has
  reached when another task sends it one of them, the task is runnable afterwards, its wait, continued
  while no more signals have arrived, returns exactly the requested signals that are pending, at least
  one, and those are no longer pending for it then.
\<close>

theorem rigel_signal_wait_send:
  fixes k k2 :: "(rr_sched, 'z) mq_kernel_scheme"
  assumes k: "kernel_inv (cooperative c) rr_inv rr_ntasks k" "signals_ok (cooperative c) k"
    and idle: "pending_of k (k_current_task k) AND requested = 0"
    and k2: "kernel_inv (cooperative c) rr_inv rr_ntasks k2" "signals_ok (cooperative c) k2"
    and sig: "signals AND requested \<noteq> 0"
  shows "\<exists>p k1 k3 k4. rtos_signal_wait_set (cooperative c) (\<lambda>_. rigel_set_blocked (cooperative c)) requested k = Inr (p, k1) \<and>
    \<not> rr_is_runnable (k_sched k1) (k_current_task k) \<and>
    rtos_signal_send_set (cooperative c) rigel_unblock (k_current_task k) signals k2 = Inr ((), k3) \<and>
    rr_is_runnable (k_sched k3) (k_current_task k) \<and>
    rtos_signal_wait_set_resume (cooperative c) (\<lambda>_. rigel_set_blocked (cooperative c)) p k3 =
      Inr (Finished (pending_of k3 (k_current_task k) AND requested), k4) \<and>
    pending_of k3 (k_current_task k) AND requested \<noteq> 0 \<and> pending_of k4 (k_current_task k) AND requested = 0"
proof -
  let ?me = "k_current_task k" and ?c = "cooperative c"
  have me: "unat ?me < tasks_length ?c" "unat ?me < rr_ntasks (k_sched k)" "rr_inv (k_sched k)"
    using k(1) by (simp_all add: kernel_inv_def current_ok_def)
  let ?k1 = "k\<lparr>k_sched := rr_block ?me (k_sched k)\<rparr>"
  have wait: "rtos_signal_wait_set ?c (\<lambda>_. rigel_set_blocked ?c) requested k = Inr (Sig_Blocked ?me requested TASK_ID_NONE, ?k1)"
    using rigel.rtos_signal_wait_blocks [OF k idle, of "\<lambda>_. rigel_set_blocked ?c"] by simp
  have blocked: "\<not> rr_is_runnable (k_sched ?k1) ?me"
    using rr_runnable_update(2) [OF me(3,2,2)] by simp
  let ?k3 = "signal_sent ?c rr_ready ?me signals k2"
  have send: "rtos_signal_send_set ?c rigel_unblock ?me signals k2 = Inr ((), ?k3)"
    using rigel.rtos_signal_send_set_cases [OF k2, of ?me signals] me by (simp add: signal_sent_def)
  have ready: "rr_is_runnable (k_sched ?k3) ?me"
    using rigel.signal_sent_runnable [OF k2(1) me(1,1)] by simp
  have len: "unat ?me < length (k_signal_tasks k2)" using k2(2) me(1) by (simp add: signals_ok_def)
  have pend: "pending_of ?k3 ?me = pending_of k2 ?me OR signals"
    using pending_of_sent [OF len] by simp
  then have ne: "pending_of ?k3 ?me AND requested \<noteq> 0" using sig by (simp add: word_ao_dist or_eq_0_iff)
  have "unat ?me < length (k_signal_tasks ?k3)" using len by (simp add: signal_sent_def)
  with ne have "rtos_signal_wait_set_resume ?c (\<lambda>_. rigel_set_blocked ?c) (Sig_Blocked ?me requested TASK_ID_NONE) ?k3 =
      Inr (Finished (pending_of ?k3 ?me AND requested), set_pending ?me (pending_of ?k3 ?me AND NOT requested) ?k3)"
    using signal_wait_resume_finishes [of ?c ?k3 ?me requested]
    by (simp add: rtos_signal_wait_set_resume_def co_bind_def co_finish_def kbind_def kreturn_def)
  moreover have "pending_of (set_pending ?me (pending_of ?k3 ?me AND NOT requested) ?k3) ?me AND requested = 0"
    using \<open>unat ?me < length (k_signal_tasks ?k3)\<close> by (simp add: pending_of_set word_bw_assocs)
  ultimately show ?thesis using wait blocked send ready ne by blast
qed

theorem rigel_signal_wait_send_witness:
  "\<exists>p k1 k3 k4. rtos_signal_wait_set (cooperative rigel_config) (\<lambda>_. rigel_set_blocked (cooperative rigel_config)) 12 rigel_example = Inr (p, k1) \<and>
    rtos_signal_send_set (cooperative rigel_config) rigel_unblock 0 4 rigel_example = Inr ((), k3) \<and>
    rtos_signal_wait_set_resume (cooperative rigel_config) (\<lambda>_. rigel_set_blocked (cooperative rigel_config)) p k3 =
      Inr (Finished (pending_of k3 0 AND 12), k4)"
proof -
  have "pending_of rigel_example (k_current_task rigel_example) AND 12 = 0" "k_current_task rigel_example = 0"
    by (simp_all add: example_defs)
  then show ?thesis
    using rigel_signal_wait_send [OF rigel_example_ok(1,2) _ rigel_example_ok(1,2), of 12 4] by auto
qed

section \<open>Timers\<close>

definition sleeping :: "u16 \<Rightarrow> (rr_sched, 'z) mq_kernel_scheme \<Rightarrow> (rr_sched, 'z) mq_kernel_scheme" where
  "sleeping d k =
     (let me = k_current_task k; i = unat (k_task_timers k ! unat me)
      in k\<lparr>k_timers := (k_timers k)[i := (k_timers k ! i)
            \<lparr>tm_expiry := current_timeout k + d, tm_enabled := True, tm_reload := 0\<rparr>],
          k_sched := rr_block me (k_sched k)\<rparr>)"

text \<open>What the timer properties assume of the task that calls, and that it holds again while it sleeps.\<close>

definition sleep_ok :: "config \<Rightarrow> u8 \<Rightarrow> (rr_sched, 'z) mq_kernel_scheme \<Rightarrow> bool" where
  "sleep_ok c me k \<longleftrightarrow> timer_kernel_inv (cooperative c) rr_inv rr_ntasks k \<and> k_timer_pending_ticks k = 0 \<and>
     (\<forall>tm \<in> set (k_timers k). tm_error_id tm = ERROR_ID_NONE) \<and> unat me < length (k_task_timers k) \<and>
     sole_source (k_timers k) (unat (k_task_timers k ! unat me)) me (SIGNAL_ID__TASK_TIMER c) \<and>
     SIGNAL_ID__TASK_TIMER c \<noteq> 0 \<and> pending_of k me AND SIGNAL_ID__TASK_TIMER c = 0"

lemma sleeping_ok:
  assumes ok: "sleep_ok c (k_current_task k) k"
  shows "sleep_ok c (k_current_task k) (sleeping d k)" and "\<not> rr_is_runnable (k_sched (sleeping d k)) (k_current_task k)"
proof -
  let ?c = "cooperative c" and ?me = "k_current_task k" and ?i = "k_task_timers k ! unat (k_current_task k)"
  let ?f = "\<lambda>tm. tm\<lparr>tm_expiry := current_timeout k + d, tm_enabled := True, tm_reload := 0\<rparr>"
  have inv: "timer_kernel_inv ?c rr_inv rr_ntasks k" and i: "unat ?i < length (k_timers k)"
    using ok by (simp_all add: sleep_ok_def sole_source_def)
  then have kinv: "kernel_inv ?c rr_inv rr_ntasks k" and bound: "unat ?me < tasks_length c" "unat ?me < rr_ntasks (k_sched k)" "rr_inv (k_sched k)"
    by (simp_all add: timer_kernel_inv_def kernel_inv_def current_ok_def)
  show "\<not> rr_is_runnable (k_sched (sleeping d k)) ?me"
    using rr_runnable_update(2) [OF bound(3,2,2)] by (simp add: sleeping_def Let_def)
  have "timer_kernel_inv ?c rr_inv rr_ntasks (k\<lparr>k_timers := (k_timers k)[unat ?i := ?f (k_timers k ! unat ?i)]\<rparr>)"
    by (rule rigel_timer.timer_kernel_inv_update [OF inv i]) simp_all
  then have "timer_kernel_inv ?c rr_inv rr_ntasks (sleeping d k)"
    using rr_update_laws [OF bound(3,2)] kinv
    by (simp add: sleeping_def Let_def timer_kernel_inv_def kernel_inv_def current_ok_def preempt_ok_def signals_ok_def timers_ok_def)
  then show "sleep_ok c ?me (sleeping d k)"
    using ok i by (auto simp: sleep_ok_def sleeping_def Let_def sole_source_def nth_list_update pending_of_def
        dest!: set_update_subset_insert [THEN subsetD])
qed

lemma rigel_sleeps:
  assumes ok: "sleep_ok c (k_current_task k) k" and d: "d \<noteq> 0"
  shows "rtos_sleep (cooperative c) rigel_unblock (\<lambda>_. rigel_set_blocked (cooperative c)) d k =
    Inr (Sig_Blocked (k_current_task k) (SIGNAL_ID__TASK_TIMER c) TASK_ID_NONE, sleeping d k)"
  using rigel_timer.rtos_sleep_begin [of c k d "\<lambda>_. rigel_set_blocked (cooperative c)"] ok d
  by (simp add: sleep_ok_def sole_source_def sleeping_def Let_def)

lemma rigel_sleeps_until:
  assumes ok: "sleep_ok c (k_current_task k) k" and d: "d \<noteq> 0"
  shows "\<exists>k2. timer_ticks (cooperative c) rigel_unblock n (sleeping d k) = Inr ((), k2) \<and>
    timer_kernel_inv (cooperative c) rr_inv rr_ntasks k2 \<and>
    (pending_of k2 (k_current_task k) AND SIGNAL_ID__TASK_TIMER c \<noteq> 0 \<longleftrightarrow> unat d \<le> n) \<and>
    (unat d \<le> n \<longrightarrow> rr_is_runnable (k_sched k2) (k_current_task k))"
proof -
  let ?i = "unat (k_task_timers k ! unat (k_current_task k))"
  note ok1 = sleeping_ok(1) [OF ok, of d, unfolded sleep_ok_def]
  have same: "k_task_timers (sleeping d k) = k_task_timers k" by (simp add: sleeping_def Let_def)
  have "?i < length (k_timers k)" "unat (k_current_task k) < tasks_length c"
    using ok by (simp_all add: sleep_ok_def sole_source_def timer_kernel_inv_def kernel_inv_def current_ok_def)
  then show ?thesis
    using rigel_timer.timer_oneshot_wakes [of c "sleeping d k" ?i "k_current_task k" "SIGNAL_ID__TASK_TIMER c" d n] ok1 d
    unfolding same by (simp add: sleeping_def Let_def current_timeout_def)
qed

text \<open>
  C25: A task that sleeps for \<open>d\<close> ticks is blocked, and after any number \<open>n\<close> of ticks its call, when the
  scheduler continues it, returns if \<open>n\<close> is at least \<open>d\<close> and is blocked again otherwise. From tick \<open>d\<close>
  on the task is runnable. This needs that no other timer sends the task the reserved signal and that
  the signal is not pending already.
\<close>

theorem rigel_sleep_duration:
  fixes k :: "(rr_sched, 'z) mq_kernel_scheme"
  assumes ok: "sleep_ok c (k_current_task k) k" and d: "d \<noteq> 0"
  shows "\<exists>p k1. rtos_sleep (cooperative c) rigel_unblock (\<lambda>_. rigel_set_blocked (cooperative c)) d k = Inr (p, k1) \<and>
    \<not> rr_is_runnable (k_sched k1) (k_current_task k) \<and>
    (\<forall>n. \<exists>k2 r k3. timer_ticks (cooperative c) rigel_unblock n k1 = Inr ((), k2) \<and>
       rtos_sleep_resume (cooperative c) (\<lambda>_. rigel_set_blocked (cooperative c)) p (k2\<lparr>k_current_task := k_current_task k\<rparr>) = Inr (r, k3) \<and>
       r = (if unat d \<le> n then Finished () else Suspended p) \<and>
       (unat d \<le> n \<longrightarrow> rr_is_runnable (k_sched k2) (k_current_task k)))"
proof -
  let ?c = "cooperative c" and ?me = "k_current_task k" and ?sig = "SIGNAL_ID__TASK_TIMER c"
  let ?block = "\<lambda>_. rigel_set_blocked ?c" and ?p = "Sig_Blocked (k_current_task k) (SIGNAL_ID__TASK_TIMER c) TASK_ID_NONE"
  have "\<exists>k2 r k3. timer_ticks ?c rigel_unblock n (sleeping d k) = Inr ((), k2) \<and>
       rtos_sleep_resume ?c ?block ?p (k2\<lparr>k_current_task := ?me\<rparr>) = Inr (r, k3) \<and>
       r = (if unat d \<le> n then Finished () else Suspended ?p) \<and> (unat d \<le> n \<longrightarrow> rr_is_runnable (k_sched k2) ?me)" for n
  proof -
    obtain k2 where k2: "timer_ticks ?c rigel_unblock n (sleeping d k) = Inr ((), k2)" "timer_kernel_inv ?c rr_inv rr_ntasks k2"
      "pending_of k2 ?me AND ?sig \<noteq> 0 \<longleftrightarrow> unat d \<le> n" "unat d \<le> n \<longrightarrow> rr_is_runnable (k_sched k2) ?me"
      using rigel_sleeps_until [OF ok d, of n] by blast
    let ?k2 = "k2\<lparr>k_current_task := ?me\<rparr>"
    have "unat ?me < tasks_length c" using ok by (simp add: sleep_ok_def timer_kernel_inv_def kernel_inv_def current_ok_def)
    then have len: "unat ?me < length (k_signal_tasks ?k2)" and cur: "kernel_inv ?c rr_inv rr_ntasks ?k2"
      and pend: "pending_of ?k2 ?me = pending_of k2 ?me"
      using k2(2) by (simp_all add: timer_kernel_inv_def signals_ok_def kernel_inv_def current_ok_def pending_of_def)
    have "\<exists>k3. rtos_sleep_resume ?c ?block ?p ?k2 = Inr (if unat d \<le> n then Finished () else Suspended ?p, k3)"
      using signal_wait_resume_finishes [of ?c ?k2 ?me ?sig ?block] signal_wait_resume_blocks_again [of ?c ?k2 ?me ?sig ?block]
        len pend k2(3) rigel.block_task [OF cur]
      by (auto simp: rtos_sleep_resume_def co_bind_def co_finish_def kbind_def kreturn_def)
    then show ?thesis using k2(1,4) by blast
  qed
  then show ?thesis using rigel_sleeps [OF ok d] sleeping_ok(2) [OF ok, of d] by blast
qed

lemma rigel_example_sleep: "sleep_ok rigel_config 0 rigel_example"
  using rigel_example_ok(3) unfolding sleep_ok_def by (auto simp: example_defs nth_Cons split: nat.splits)

theorem rigel_sleep_duration_witness:
  "\<exists>p k1 k2 k3. rtos_sleep (cooperative rigel_config) rigel_unblock (\<lambda>_. rigel_set_blocked (cooperative rigel_config)) 5 rigel_example = Inr (p, k1) \<and>
    timer_ticks (cooperative rigel_config) rigel_unblock 5 k1 = Inr ((), k2) \<and>
    rtos_sleep_resume (cooperative rigel_config) (\<lambda>_. rigel_set_blocked (cooperative rigel_config)) p (k2\<lparr>k_current_task := 0\<rparr>) = Inr (Finished (), k3)"
proof -
  have me: "k_current_task rigel_example = 0" by (simp add: rigel_example_def)
  obtain p k1 where p: "rtos_sleep (cooperative rigel_config) rigel_unblock (\<lambda>_. rigel_set_blocked (cooperative rigel_config)) 5 rigel_example = Inr (p, k1)"
    and after: "\<forall>n. \<exists>k2 r k3. timer_ticks (cooperative rigel_config) rigel_unblock n k1 = Inr ((), k2) \<and>
       rtos_sleep_resume (cooperative rigel_config) (\<lambda>_. rigel_set_blocked (cooperative rigel_config)) p (k2\<lparr>k_current_task := 0\<rparr>) = Inr (r, k3) \<and>
       r = (if unat (5::u16) \<le> n then Finished () else Suspended p) \<and> (unat (5::u16) \<le> n \<longrightarrow> rr_is_runnable (k_sched k2) 0)"
    using rigel_sleep_duration [of rigel_config rigel_example 5] rigel_example_sleep me by auto
  from spec [OF after, of 5] p show ?thesis by auto
qed

text \<open>
  C29: A periodic timer that is armed with a reload value sends its signals at the ticks that are
  multiples of that value and at no other, for any number of ticks: neither the 16-bit expiry time nor
  the 32-bit tick counter wrapping around makes it miss or repeat one. Stated for the tick after any
  \<open>n\<close> ticks, once the task has taken what was sent before.
\<close>

theorem rigel_periodic_timer:
  fixes k :: "(rr_sched, 'z) mq_kernel_scheme"
  assumes inv: "timer_kernel_inv (cooperative c) rr_inv rr_ntasks k" and ticks: "k_timer_pending_ticks k = 0"
    and no_watchdog: "\<forall>tm \<in> set (k_timers k). tm_error_id tm = ERROR_ID_NONE"
    and sole: "sole_source (k_timers k) i t sigs" and t: "unat t < tasks_length c"
    and armed: "tm_enabled (k_timers k ! i)" "tm_reload (k_timers k ! i) = r" "r \<noteq> 0"
      "tm_expiry (k_timers k ! i) = current_timeout k + r"
  shows "\<exists>k1 k2. timer_ticks (cooperative c) rigel_unblock n k = Inr ((), k1) \<and>
    timer_ticks (cooperative c) rigel_unblock 1 (set_pending t 0 k1) = Inr ((), k2) \<and>
    pending_of k2 t AND sigs = (if unat r dvd Suc n then sigs else 0)"
proof -
  let ?c = "cooperative c" and ?now = "current_timeout k"
  obtain k1 where k1: "timer_ticks ?c rigel_unblock n k = Inr ((), k1)" "timer_kernel_inv ?c rr_inv rr_ntasks k1"
    "k_timer_pending_ticks k1 = 0" "k_timer_current_ticks k1 = k_timer_current_ticks k + of_nat n"
    "list_all2 timer_same (k_timers k1) (map (timer_run ?now n) (k_timers k))"
    using rigel_timer.timer_ticks_run [OF inv ticks no_watchdog, of n] by blast
  let ?k1 = "set_pending t 0 k1"
  have i: "i < length (k_timers k)" using sole by (simp add: sole_source_def)
  have len: "unat t < length (k_signal_tasks k1)" using k1(2) t by (simp add: timer_kernel_inv_def signals_ok_def)
  have inv1: "timer_kernel_inv ?c rr_inv rr_ntasks ?k1"
    using k1(2) by (simp add: timer_kernel_inv_def timers_ok_def)
  have errs: "\<forall>tm \<in> set (k_timers ?k1). tm_error_id tm = ERROR_ID_NONE"
    using timer_error_same [OF k1(5), of ERROR_ID_NONE] no_watchdog by simp
  have now: "current_timeout ?k1 + 1 = ?now + of_nat (Suc n)"
    using k1(4) by (simp add: current_timeout_def set_pending_def u16_of_u32_add u16_of_u32_nat)
  obtain k2 where k2: "timer_ticks ?c rigel_unblock 1 ?k1 = Inr ((), k2)"
    "\<forall>u. pending_of k2 u = pending_of ?k1 u OR timers_sent (current_timeout ?k1) 1 u (k_timers ?k1)"
    using rigel_timer.timer_ticks_run [OF inv1 _ errs, of 1] k1(3) by auto
  have "pending_of k2 t = timer_signals (?now + of_nat (Suc n)) t (map (timer_run ?now n) (k_timers k))"
    using k2(2) len now timer_signals_same [OF k1(5), of "?now + of_nat (Suc n)" t] map_idI [of "k_timers k1" "timer_run x 0" for x]
    by (simp add: pending_of_set of_nat_1 [unfolded One_nat_def] del: of_nat_Suc)
  moreover have "sole_source (map (timer_run ?now n) (k_timers k)) i t sigs"
    using sole by (simp add: sole_source_def)
  ultimately have "pending_of k2 t AND sigs = (if timer_expired (timer_run ?now n (k_timers k ! i)) (?now + of_nat (Suc n)) then sigs else 0)"
    using timer_signals_sole i by (simp del: of_nat_Suc)
  then show ?thesis
    unfolding timer_periodic_run [OF armed, of n, THEN conjunct2] using k1(1) k2(1) by blast
qed

text \<open>Timer 1 of the example, armed to fire every third tick.\<close>

abbreviation periodic_example :: "rr_sched mq_kernel" where
  "periodic_example \<equiv> rigel_example\<lparr>k_timers := (k_timers rigel_example)[1 :=
     (timer_example 1)\<lparr>tm_enabled := True, tm_reload := 3, tm_expiry := 3\<rparr>]\<rparr>"

theorem rigel_periodic_timer_witness:
  "\<exists>k1 k2. timer_ticks (cooperative rigel_config) rigel_unblock 5 periodic_example = Inr ((), k1) \<and>
    timer_ticks (cooperative rigel_config) rigel_unblock 1 (set_pending 1 0 k1) = Inr ((), k2) \<and> pending_of k2 1 AND 2 = 2"
proof -
  have "timer_kernel_inv (cooperative rigel_config) rr_inv rr_ntasks periodic_example"
    "\<forall>tm \<in> set (k_timers periodic_example). tm_error_id tm = ERROR_ID_NONE"
    "sole_source (k_timers periodic_example) 1 1 2" "k_timer_pending_ticks periodic_example = 0"
    by (auto simp: example_defs nth_Cons split: nat.splits)
  from rigel_periodic_timer [OF this(1) this(4) this(2) this(3), of 3 5] show ?thesis
    by (simp add: rigel_example_def current_timeout_def timer_example_def cooperative_def config_example_def)
qed

lemma ticks_pending:
  fixes k :: "('s, 'z) timer_kernel_scheme"
  assumes "k_timer_pending_ticks k = of_nat (min 2 m)"
  shows "kseq (replicate n rtos_timer_tick) k = Inr ((), k\<lparr>k_timer_pending_ticks := of_nat (min 2 (m + n))\<rparr>)"
  using assms
proof (induction n arbitrary: k m)
  case 0
  have "k\<lparr>k_timer_pending_ticks := of_nat (min 2 m)\<rparr> = k" using 0 by (cases k) simp
  then show ?case by (simp add: kop_defs)
next
  case (Suc n)
  let ?k = "k\<lparr>k_timer_pending_ticks := of_nat (min 2 (Suc m))\<rparr>"
  have "armv7m_timer_tick (of_nat (min 2 m)) = of_nat (min 2 (Suc m))"
    unfolding armv7m_timer_tick_def by (rule u8_min2_step)
  then have "rtos_timer_tick k = Inr ((), ?k)"
    using Suc.prems by (simp only: rtos_timer_tick_def kmodify_def)
  then show ?case using Suc.IH [of ?k "Suc m"] by (simp add: kop_defs)
qed

text \<open>
  C30: The kernel notices when ticks come faster than it processes them: after two or more ticks, the
  next processing is the fatal error for tick overflow, however many they were. After none, it does
  nothing. After one, the first watchdog timer that has expired is its fatal error.
\<close>

theorem rigel_tick_errors:
  fixes k :: "(rr_sched, 'z) mq_kernel_scheme"
  assumes inv: "timer_kernel_inv (cooperative c) rr_inv rr_ntasks k" and "k_timer_pending_ticks k = 0"
    and now: "now = ucast (k_timer_current_ticks k + 1)"
    and m: "m < length (k_timers k)" "timer_expired (k_timers k ! m) now" "tm_error_id (k_timers k ! m) \<noteq> ERROR_ID_NONE"
      "\<forall>tm \<in> set (take m (k_timers k)). timer_expired tm now \<longrightarrow> tm_error_id tm = ERROR_ID_NONE"
  shows "kbind (kseq (replicate n rtos_timer_tick)) (\<lambda>_. timer_tick_process (cooperative c) rigel_unblock) k =
    (if n = 0 then Inr ((), k) else if n = 1 then Inl (Fatal (tm_error_id (k_timers k ! m)))
     else Inl (Fatal ERROR_ID_TICK_OVERFLOW))"
proof -
  let ?k = "k\<lparr>k_timer_pending_ticks := of_nat (min 2 n)\<rparr>"
  have run: "kseq (replicate n rtos_timer_tick) k = Inr ((), ?k)"
    using ticks_pending [of k 0 n] assms(2) by simp
  have inv': "timer_kernel_inv (cooperative c) rr_inv rr_ntasks ?k"
    using inv by (simp add: timer_kernel_inv_def timers_ok_def)
  consider "n = 0" | "n = 1" | "2 \<le> n" by linarith
  then show ?thesis
  proof cases
    case 1
    then show ?thesis using assms(2) rigel_timer.timer_tick_none [OF inv] by (simp add: kop_defs)
  next
    case 2
    then show ?thesis
      using run rigel_timer.timer_tick_process_watchdog [OF inv', of now m] now m by (simp add: kop_defs)
  next
    case 3
    then show ?thesis using run rigel_timer.timer_tick_overflow [OF inv'] by (simp add: kop_defs min_def)
  qed
qed

abbreviation watchdog_example :: "rr_sched mq_kernel" where
  "watchdog_example \<equiv> rigel_example\<lparr>k_timers := (k_timers rigel_example)[1 :=
     (timer_example 1)\<lparr>tm_enabled := True, tm_expiry := 1, tm_error_id := 77\<rparr>]\<rparr>"

theorem rigel_tick_errors_witness:
  "kbind (kseq (replicate 1 rtos_timer_tick)) (\<lambda>_. timer_tick_process (cooperative rigel_config) rigel_unblock) watchdog_example = Inl (Fatal 77) \<and>
   kbind (kseq (replicate 300 rtos_timer_tick)) (\<lambda>_. timer_tick_process (cooperative rigel_config) rigel_unblock) watchdog_example = Inl (Fatal ERROR_ID_TICK_OVERFLOW)"
proof -
  have ok: "timer_kernel_inv (cooperative rigel_config) rr_inv rr_ntasks watchdog_example" "k_timer_pending_ticks watchdog_example = 0"
    "1 < length (k_timers watchdog_example)" "timer_expired (k_timers watchdog_example ! 1) (ucast (k_timer_current_ticks watchdog_example + 1))"
    "tm_error_id (k_timers watchdog_example ! 1) = 77"
    "\<forall>tm \<in> set (take 1 (k_timers watchdog_example)). timer_expired tm (ucast (k_timer_current_ticks watchdog_example + 1)) \<longrightarrow> tm_error_id tm = ERROR_ID_NONE"
    by (auto simp: example_defs timer_expired_def)
  have "tm_error_id (k_timers watchdog_example ! 1) \<noteq> ERROR_ID_NONE" unfolding ok(5) by (simp add: ERROR_ID_NONE_def)
  note run = rigel_tick_errors [OF ok(1,2) refl ok(3,4) this ok(6), unfolded ok(5)]
  show ?thesis unfolding run by simp
qed

section \<open>Interrupt events\<close>

text \<open>
  C18: Processing interrupt events on ARMv7-M loses none. Whatever interrupt handlers raise between its
  steps, it returns; every event that was pending has been handled, so its signals have reached its
  task, which is runnable; and every event raised during the run is pending afterwards, unless it was
  raised before the same event, pending from before, was cleared, and was handled with it.
\<close>

theorem rigel_events_delivered:
  fixes k :: "(rr_sched, 'z) mq_kernel_scheme"
  assumes ok: "rigel_events.system_ok c nev k" and isr: "\<forall>m i. bit (isr m) i \<longrightarrow> i < nev"
  shows "\<exists>k'. armv7m_interrupt_event_process (interrupt_event_handle (cooperative c) rigel_unblock) isr k = Inr ((), k') \<and>
    (\<forall>e. bit (k_interrupt_event k) e \<longrightarrow> delivered rr_is_runnable (k_interrupt_events k ! e) k') \<and>
    (\<forall>e m. bit (isr m) e \<longrightarrow> m < 2 * length (events_in (k_interrupt_event k)) \<longrightarrow> bit (k_interrupt_event k') e \<or>
       (\<exists>j < length (events_in (k_interrupt_event k)). events_in (k_interrupt_event k) ! j = e \<and> m \<le> 2 * j))"
proof -
  let ?is = "events_in (k_interrupt_event k)" and ?effect = "event_effect (cooperative c) rr_ready"
  let ?p = "armv7m_pending isr 0 ?is (k_interrupt_event k)"
  let ?k' = "(fold (\<lambda>i. ?effect (of_nat i)) ?is k)\<lparr>k_interrupt_event := ?p\<rparr>"
  have inv: "event_kernel_inv (cooperative c) rr_inv rr_ntasks nev k" "nev \<le> 32" "\<forall>i \<in> set ?is. i < nev"
    using ok by (simp_all add: rigel_events.system_ok_def set_events_in)
  have "armv7m_interrupt_event_process (interrupt_event_handle (cooperative c) rigel_unblock) isr k = Inr ((), ?k')"
    by (rule rigel_events.events.armv7m_process_eq [OF inv(1)]) (use inv(2,3) in \<open>simp_all add: set_events_in\<close>)
  moreover have "delivered rr_is_runnable (k_interrupt_events k ! e) ?k'" if "bit (k_interrupt_event k) e" for e
    using rigel_events.handled_delivers [OF inv(1,3,2)] that by (simp add: set_events_in delivered_def)
  moreover have "bit ?p e \<or> (\<exists>j < length ?is. ?is ! j = e \<and> m \<le> 2 * j)" if "bit (isr m) e" "m < 2 * length ?is" for e m
  proof (cases "e \<in> set ?is")
    case True
    then obtain j where j: "j < length ?is" "?is ! j = e" by (auto simp: in_set_conv_nth)
    then show ?thesis
      using armv7m_pending_cleared [OF distinct_events_in j(1), of isr 0 "k_interrupt_event k"] that
      by (cases "m \<le> 2 * j") auto
  next
    case False
    then show ?thesis using armv7m_pending_other [OF False, of isr 0 "k_interrupt_event k"] that by auto
  qed
  ultimately show ?thesis by (intro exI [of _ ?k']) simp
qed

abbreviation event_example :: "rr_sched mq_kernel" where
  "event_example \<equiv> rigel_example\<lparr>k_interrupt_event := 1\<rparr>"

lemma event_example_ok: "rigel_events.system_ok rigel_config 1 event_example"
  unfolding rigel_events.system_ok_def by (simp add: example_defs bit_1_iff)

theorem rigel_events_delivered_witness:
  "\<exists>k'. armv7m_interrupt_event_process (interrupt_event_handle (cooperative rigel_config) rigel_unblock)
      (\<lambda>n. if n = 1 then 1 else 0) event_example = Inr ((), k') \<and>
    rr_is_runnable (k_sched k') 1 \<and> bit (k_interrupt_event k') 0"
proof -
  have in1: "events_in 1 = [0]" by (simp add: events_in_def bit_1_iff upt_conv_Cons)
  have "\<forall>m i. bit (if m = (1::nat) then 1 else 0 :: u32) i \<longrightarrow> i < 1" by (simp add: bit_1_iff)
  from rigel_events_delivered [OF event_example_ok this] obtain k' where k':
    "armv7m_interrupt_event_process (interrupt_event_handle (cooperative rigel_config) rigel_unblock)
      (\<lambda>n. if n = 1 then 1 else 0) event_example = Inr ((), k')"
    "delivered rr_is_runnable (k_interrupt_events event_example ! 0) k'"
    "\<forall>e m. bit (if m = (1::nat) then 1 else 0 :: u32) e \<longrightarrow> m < 2 \<longrightarrow> bit (k_interrupt_event k') e \<or> e = 0 \<and> m = 0"
    by (auto simp: in1 bit_1_iff)
  have "bit (k_interrupt_event k') 0" using spec [OF spec [OF k'(3), of 0], of 1] by (simp add: bit_1_iff)
  with k' show ?thesis by (auto simp: delivered_def rigel_example_def)
qed

section \<open>Yielding\<close>

text \<open>
  C34: A task that yields hands the processor to a runnable task, once all pending events and ticks have
  been processed, however often the system has to wait for interrupts until there is one. The current
  task is then that task. If the interrupts run out first, no task is runnable and the system is marked
  idle. No fatal error occurs on the way.
\<close>

theorem rigel_yield_picks:
  assumes ok: "rigel_events.system_ok c nev k" and isr: "\<forall>m i. bit (isr m) i \<longrightarrow> i < nev"
    and waits: "\<forall>w \<in> set waits. \<forall>k. rigel_events.system_ok c nev k \<longrightarrow>
      (\<exists>k'. w k = Inr ((), k') \<and> rigel_events.system_ok c nev k' \<and> k_current_task k' = k_current_task k)"
  shows "\<exists>r k'. rigel_yield (cooperative c)
      (armv7m_interrupt_event_process (interrupt_event_handle (cooperative c) rigel_unblock) isr) waits k = Inr (r, k') \<and>
    (case r of
      Some (from, to) \<Rightarrow> k_current_task k' = to \<and> unat to < tasks_length c \<and> rr_is_runnable (k_sched k') to
    | None \<Rightarrow> (\<forall>t. unat t < tasks_length c \<longrightarrow> \<not> rr_is_runnable (k_sched k') t) \<and> k_system_is_idle k')"
proof -
  let ?process = "armv7m_interrupt_event_process (interrupt_event_handle (cooperative c) rigel_unblock) isr"
  have w: "\<forall>w \<in> set waits. \<forall>k. rigel_events.system_ok c nev k \<longrightarrow>
      (\<exists>k'. w k = Inr ((), k') \<and> rigel_events.system_ok c nev k')"
    using waits by blast
  obtain r k' where r: "interrupt_event_get_next (cooperative c) ?process (timer_tick_process (cooperative c) rigel_unblock)
      (on_sched (rr_sched_get_next False)) waits k = Inr (r, k')" "rigel_events.system_ok c nev k'"
    "case r of
      Some u \<Rightarrow> unat u < tasks_length (cooperative c) \<and> rr_is_runnable (k_sched k') u \<and> \<not> k_system_is_idle k' \<and>
        (\<exists>s. rr_inv s \<and> rr_sched_get_next False s = Inr (u, k_sched k'))
    | None \<Rightarrow> (\<forall>t. unat t < tasks_length (cooperative c) \<longrightarrow> \<not> rr_is_runnable (k_sched k') t) \<and> k_system_is_idle k'"
    using rigel_events.system_get_next [OF ok isr w] by (elim exE conjE) (rule that; assumption)
  have "current_ok (cooperative c) k'"
    using rigel_events.system_ok_kernel_inv [OF r(2)] by (simp add: kernel_inv_def)
  then show ?thesis
    using r(1,3)
    by (cases r) (simp_all add: rigel_yield_def rigel_yield_to_def kbind_def kmodify_def kreturn_def)
qed

text \<open>A system with no runnable task, and an interrupt that raises event 0 while it waits.\<close>

abbreviation idle_example :: "rr_sched mq_kernel" where
  "idle_example \<equiv> rigel_example\<lparr>k_sched := rr_example 0 [False, False, False]\<rparr>"

lemma idle_example_ok: "rigel_events.system_ok rigel_config 1 idle_example"
  unfolding rigel_events.system_ok_def by (simp add: example_defs)

theorem rigel_yield_picks_witness:
  "\<exists>r k'. rigel_yield (cooperative rigel_config)
     (armv7m_interrupt_event_process (interrupt_event_handle (cooperative rigel_config) rigel_unblock) (\<lambda>_. 0))
     [isr_raise 1] idle_example = Inr (r, k')"
proof -
  have isr: "\<forall>m i. bit ((\<lambda>_. 0 :: u32) (m :: nat)) i \<longrightarrow> i < 1" by simp
  have "\<exists>k'. isr_raise 1 k = Inr ((), k') \<and> rigel_events.system_ok rigel_config 1 k' \<and> k_current_task k' = k_current_task k"
    if "rigel_events.system_ok rigel_config 1 k" for k :: "rr_sched mq_kernel"
    using that unfolding rigel_events.system_ok_def
    by (auto simp: isr_raise_def kmodify_def event_kernel_inv_def timer_kernel_inv_def timers_ok_def handlers_ok_def bit_or_iff bit_1_iff)
  then show ?thesis using rigel_yield_picks [OF idle_example_ok isr, of "[isr_raise 1]"] by auto
qed

end
