(* ===== verification/Rigel_Sync.thy ===== *)
theory Rigel_Sync
  imports Rigel_Properties
begin

text \<open>
  Mutexes, message queues and profiling of the Rigel variant: what the calls of a task do, with the
  round-robin scheduler and the blocking of tasks on their task-timer signal.
\<close>

section \<open>Mutexes\<close>

abbreviation rigel_mc :: "config \<Rightarrow> (rr_sched, 'z) mutex_kernel_scheme mutex_core" where
  "rigel_mc c \<equiv> rigel_mutex_core (cooperative c) False"

lemma rigel_mc_simps [simp]:
  "mutex_core_block_on (rigel_mc c) b = rigel_task_wait (cooperative c)"
  "mutex_core_block_on_resume (rigel_mc c) = rigel_task_wait_resume (cooperative c)"
  "mutex_core_unlocked (rigel_mc c) m = kreturn ()"
  "\<not> mutex_prio_ceiling (rigel_mc c)" "\<not> mutex_with_stats (rigel_mc c)"
  by (simp_all add: rigel_mutex_core_def)

lemma rigel_task_wait_eq:
  fixes k :: "(rr_sched, 'z) signal_kernel_scheme"
  assumes "kernel_inv (cooperative c) rr_inv rr_ntasks k" "signals_ok (cooperative c) k"
    and "pending_of k (k_current_task k) AND SIGNAL_ID__TASK_TIMER c = 0"
  shows "rigel_task_wait (cooperative c) k =
    Inr (Sig_Blocked (k_current_task k) (SIGNAL_ID__TASK_TIMER c) TASK_ID_NONE,
         k\<lparr>k_sched := rr_block (k_current_task k) (k_sched k)\<rparr>)"
  using rigel.rtos_signal_wait_blocks [OF assms(1,2), of "SIGNAL_ID__TASK_TIMER c"
      "\<lambda>_. rigel_set_blocked (cooperative c)"] assms(3)
  by (simp add: rigel_task_wait_def)

lemma rigel_task_wait_woken:
  fixes k :: "(rr_sched, 'z) signal_kernel_scheme"
  assumes "unat t < length (k_signal_tasks k)" and "pending_of k t AND SIGNAL_ID__TASK_TIMER c \<noteq> 0"
  shows "rigel_task_wait_resume (cooperative c) (Sig_Blocked t (SIGNAL_ID__TASK_TIMER c) TASK_ID_NONE) k =
    Inr (Finished (), set_pending t (pending_of k t AND NOT (SIGNAL_ID__TASK_TIMER c)) k)"
  using assms signal_wait_resume_finishes [of "cooperative c" k t "SIGNAL_ID__TASK_TIMER c"]
  by (simp add: rigel_task_wait_resume_def rtos_signal_wait_set_resume_def co_bind_def co_finish_def kbind_def kreturn_def)

lemma rigel_current_not_none:
  fixes k :: "(rr_sched, 'z) kernel_scheme"
  assumes "kernel_inv (cooperative c) rr_inv rr_ntasks k"
  shows "k_current_task k \<noteq> TASK_ID_NONE"
  using assms rr_ntasks_bound [of "k_sched k"]
  by (auto simp: kernel_inv_def current_ok_def TASK_ID_NONE_def)

text \<open>
  Locking a mutex takes it when it is free. A task that already holds it gets the fatal deadlock
  error. When another task holds it, the caller is registered as waiting for this mutex and blocked,
  and nothing else changes: the holder keeps it.
\<close>

theorem rigel_mutex_lock:
  fixes k :: "(rr_sched, 'z) mq_kernel_scheme"
  assumes k: "kernel_inv (cooperative c) rr_inv rr_ntasks k" "signals_ok (cooperative c) k" "mutexes_ok (cooperative c) k"
    and m: "unat m < length (k_mutexes k)" and api: "api_asserts c"
    and sig: "pending_of k (k_current_task k) AND SIGNAL_ID__TASK_TIMER c = 0"
  shows "rtos_mutex_lock (cooperative c) (rigel_mc c) m k =
    (if holder_of k m = TASK_ID_NONE then Inr (Finished True, set_holder m (k_current_task k) k)
     else if holder_of k m = k_current_task k then Inl (Fatal ERROR_ID_DEADLOCK)
     else Inr (Suspended (Mutex_Locking m True (k_timer_current_ticks k)
                 (Sig_Blocked (k_current_task k) (SIGNAL_ID__TASK_TIMER c) TASK_ID_NONE)),
               (set_waiter (k_current_task k) m k)\<lparr>k_sched := rr_block (k_current_task k) (k_sched k)\<rparr>))"
proof -
  let ?me = "k_current_task k"
  have cur: "current_ok (cooperative c) k" "?me \<noteq> TASK_ID_NONE"
    using k(1) rigel_current_not_none [OF k(1)] by (simp_all add: kernel_inv_def)
  note lock = mutex_try_lock_eq [OF cur(1) _ m, of "rigel_mc c"]
  consider (free) "holder_of k m = TASK_ID_NONE" | (self) "holder_of k m = ?me" |
    (held) "holder_of k m \<noteq> TASK_ID_NONE" "holder_of k m \<noteq> ?me" by blast
  then show ?thesis
  proof cases
    case free
    then show ?thesis
      using lock m cur
      by (simp add: rtos_mutex_lock_def mutex_lock_attempt_def mutex_lock_done_def kbind_def kgets_def kreturn_def
          assert_mutex_not_held_run)
  next
    case self
    then show ?thesis using rtos_mutex_lock_deadlock [OF cur(1) m] api cur(2) by simp
  next
    case held
    have "rigel_task_wait (cooperative c) (set_waiter ?me m k) =
        Inr (Sig_Blocked ?me (SIGNAL_ID__TASK_TIMER c) TASK_ID_NONE,
             (set_waiter ?me m k)\<lparr>k_sched := rr_block ?me (k_sched k)\<rparr>)"
      using rigel_task_wait_eq [of c "set_waiter ?me m k"] k sig by simp
    then show ?thesis
      using held m cur mutex_lock_attempt_blocks [OF cur(1) _ m k(3) held(1), of "rigel_mc c"]
      by (simp add: rtos_mutex_lock_def kbind_def kgets_def assert_mutex_not_held_run)
  qed
qed

abbreviation mutex_example :: "rr_sched mq_kernel" where
  "mutex_example \<equiv> rigel_example\<lparr>k_current_task := 2\<rparr>"

lemma mutex_example_ok:
  "kernel_inv (cooperative rigel_config) rr_inv rr_ntasks mutex_example"
  "signals_ok (cooperative rigel_config) mutex_example" "mutexes_ok (cooperative rigel_config) mutex_example"
  by (simp_all add: example_defs mutexes_ok_def)

theorem rigel_mutex_lock_witness:
  "rtos_mutex_lock (cooperative rigel_config) (rigel_mc rigel_config) 0 mutex_example =
     Inr (Suspended (Mutex_Locking 0 True 0 (Sig_Blocked 2 2 TASK_ID_NONE)),
          (set_waiter 2 0 mutex_example)\<lparr>k_sched := rr_block 2 (k_sched mutex_example)\<rparr>)"
proof -
  have facts: "unat (0 :: u8) < length (k_mutexes mutex_example)" "api_asserts rigel_config"
    "pending_of mutex_example (k_current_task mutex_example) AND SIGNAL_ID__TASK_TIMER rigel_config = 0"
    "holder_of mutex_example 0 = 0" "k_current_task mutex_example = 2" "k_timer_current_ticks mutex_example = 0"
    "SIGNAL_ID__TASK_TIMER rigel_config = 2" "TASK_ID_NONE \<noteq> 0"
    by (simp_all add: example_defs holder_of_def TASK_ID_NONE_def)
  show ?thesis
    using rigel_mutex_lock [OF mutex_example_ok facts(1-3)] unfolding facts by (simp add: TASK_ID_NONE_def)
qed

text \<open>
  The holder of a mutex hands it over by unlocking: the mutex is free, every task that waits for it
  is runnable and no longer registered, and all other mutexes and registrations are as before. The call
  of such a task, when the scheduler continues it before another task locks the mutex, returns with
  that task as the holder, and its wake-up signal is used up.
\<close>

theorem rigel_mutex_handover:
  fixes k :: "(rr_sched, 'z) mq_kernel_scheme"
  assumes k: "kernel_inv (cooperative c) rr_inv rr_ntasks k" "signals_ok (cooperative c) k" "mutexes_ok (cooperative c) k"
    and m: "unat m < length (k_mutexes k)" and owner: "holder_of k m = k_current_task k"
    and t: "unat t < tasks_length c" "waiting_for k t = m" and sig: "SIGNAL_ID__TASK_TIMER c \<noteq> 0"
  shows "\<exists>k2 k3. rtos_mutex_unlock (cooperative c) (rigel_mc c) m k = Inr ((), k2) \<and>
    holder_of k2 m = TASK_ID_NONE \<and> (\<forall>n. n \<noteq> m \<longrightarrow> holder_of k2 n = holder_of k n) \<and>
    (\<forall>u. unat u < tasks_length c \<longrightarrow>
       waiting_for k2 u = (if waiting_for k u = m then MUTEX_ID_NONE else waiting_for k u) \<and>
       rr_is_runnable (k_sched k2) u = (rr_is_runnable (k_sched k) u \<or> waiting_for k u = m)) \<and>
    rtos_mutex_resume (cooperative c) (rigel_mc c)
      (Mutex_Locking m True start (Sig_Blocked t (SIGNAL_ID__TASK_TIMER c) TASK_ID_NONE)) (k2\<lparr>k_current_task := t\<rparr>) =
      Inr (Finished True, k3) \<and>
    holder_of k3 m = t \<and> pending_of k3 t AND SIGNAL_ID__TASK_TIMER c = 0"
proof -
  let ?c = "cooperative c" and ?s = "SIGNAL_ID__TASK_TIMER c"
  have len: "length (k_mutexes k) \<le> 255" "tasks_length ?c \<le> 255"
    using k(1,3) rr_ntasks_bound [of "k_sched k"] by (auto simp: mutexes_ok_def kernel_inv_def)
  have w: "rigel_mutex.mutex_waiters.waiters_ok c k"
    using k by (simp add: rigel_mutex.mutex_waiters.waiters_ok_def mutexes_ok_def)
  have cur: "current_ok ?c k" using k(1) by (simp add: kernel_inv_def)
  have core: "kwhen (mutex_prio_ceiling (rigel_mc c)) (mutex_core_unlocked (rigel_mc c) m) (enter ?c k) = Inr ((), k)"
    by (simp add: kwhen_def kreturn_def)
  obtain k2 where k2: "rtos_mutex_unlock ?c (rigel_mc c) m k = Inr ((), k2)" "kernel_inv ?c rr_inv rr_ntasks k2"
    "signals_ok ?c k2" "holder_of k2 m = TASK_ID_NONE" "\<forall>n. n \<noteq> m \<longrightarrow> holder_of k2 n = holder_of k n"
    "\<forall>t. unat t < tasks_length c \<longrightarrow> waiting_for k2 t = (if waiting_for k t = m then MUTEX_ID_NONE else waiting_for k t)"
    "\<forall>t. unat t < tasks_length c \<longrightarrow> pending_of k2 t = (if waiting_for k t = m then pending_of k t OR ?s else pending_of k t)"
    "\<forall>t. unat t < tasks_length c \<longrightarrow> rr_is_runnable (k_sched k2) t = (rr_is_runnable (k_sched k) t \<or> waiting_for k t = m)"
    "length (k_mutexes k2) = length (k_mutexes k)"
    using rigel_mutex.rtos_mutex_unlock_from [of c k m False k] cur m owner core w len
    by (simp add: mutex_rest_eq_def cong: if_cong) (elim exE conjE, rule that, assumption+)
  let ?k2 = "k2\<lparr>k_current_task := t\<rparr>" and ?woken = "set_pending t (pending_of k2 t AND NOT ?s) (k2\<lparr>k_current_task := t\<rparr>)"
  have len2: "unat t < length (k_signal_tasks k2)" using k2(3) t(1) by (simp add: signals_ok_def)
  have "pending_of k2 t AND ?s \<noteq> 0" using k2(7) t sig by (simp add: word_ao_dist or_eq_0_iff)
  then have wake: "rigel_task_wait_resume ?c (Sig_Blocked t ?s TASK_ID_NONE) ?k2 = Inr (Finished (), ?woken)"
    using rigel_task_wait_woken [of t ?k2 c] len2 by (simp add: pending_of_def)
  have cur2: "current_ok ?c ?woken" "unat m < length (k_mutexes ?woken)" "holder_of ?woken m = TASK_ID_NONE"
    using k2(2,4,9) t m by (simp_all add: kernel_inv_def current_ok_def holder_of_def)
  let ?k3 = "set_holder m t ?woken"
  have "rtos_mutex_resume ?c (rigel_mc c) (Mutex_Locking m True start (Sig_Blocked t ?s TASK_ID_NONE)) ?k2 = Inr (Finished True, ?k3)"
    using wake mutex_try_lock_eq [OF cur2(1) _ cur2(2), of "rigel_mc c"] cur2(3)
    by (simp add: rtos_mutex_resume_def co_bind_def kbind_def mutex_lock_attempt_def mutex_lock_done_def kreturn_def)
  moreover have "holder_of ?k3 m = t" using holder_of_set [OF cur2(2)] by simp
  moreover have "pending_of ?k3 t AND ?s = 0"
    using len2 by (simp add: pending_of_set word_bw_assocs)
  ultimately show ?thesis using k2 by (intro exI [of _ k2] exI [of _ ?k3]) simp
qed

theorem rigel_mutex_handover_witness:
  "\<exists>k2 k3. rtos_mutex_unlock (cooperative rigel_config) (rigel_mc rigel_config) 0 rigel_example = Inr ((), k2) \<and>
    rtos_mutex_resume (cooperative rigel_config) (rigel_mc rigel_config) (Mutex_Locking 0 True 7 (Sig_Blocked 1 2 TASK_ID_NONE))
      (k2\<lparr>k_current_task := 1\<rparr>) = Inr (Finished True, k3) \<and> holder_of k3 0 = 1"
proof -
  have "mutexes_ok (cooperative rigel_config) rigel_example" "holder_of rigel_example 0 = k_current_task rigel_example"
    "unat (0 :: u8) < length (k_mutexes rigel_example)" "unat (1 :: u8) < tasks_length rigel_config"
    "waiting_for rigel_example 1 = 0" "SIGNAL_ID__TASK_TIMER rigel_config = 2"
    by (simp_all add: example_defs mutexes_ok_def holder_of_def waiting_for_def)
  then show ?thesis
    using rigel_mutex_handover [OF rigel_example_ok(1,2), where m = 0 and t = 1 and start = 7] by auto
qed

text \<open>
  Every call on a mutex that does not exist, locking a mutex that the task holds already, with or
  without a timeout, and unlocking a mutex that another task or nobody holds each end with the error
  that is meant for it, in every variant, when API assertions are compiled in.
\<close>

theorem mutex_misuse_errors:
  assumes "api_asserts c" and "current_ok c k"
  shows "(\<not> unat m < length (k_mutexes k) \<longrightarrow>
      rtos_mutex_lock c mc m k = Inl (Fatal ERROR_ID_INVALID_ID) \<and>
      rtos_mutex_lock_timeout c mc m timeout k = Inl (Fatal ERROR_ID_INVALID_ID) \<and>
      rtos_mutex_try_lock c mc m k = Inl (Fatal ERROR_ID_INVALID_ID) \<and>
      rtos_mutex_unlock c mc m k = Inl (Fatal ERROR_ID_INVALID_ID) \<and>
      rtos_mutex_holder_is_current c m k = Inl (Fatal ERROR_ID_INVALID_ID)) \<and>
    (unat m < length (k_mutexes k) \<longrightarrow> holder_of k m = k_current_task k \<longrightarrow>
      rtos_mutex_lock c mc m k = Inl (Fatal ERROR_ID_DEADLOCK) \<and>
      rtos_mutex_lock_timeout c mc m timeout k = Inl (Fatal ERROR_ID_DEADLOCK)) \<and>
    (unat m < length (k_mutexes k) \<longrightarrow> holder_of k m \<noteq> k_current_task k \<longrightarrow>
      rtos_mutex_unlock c mc m k = Inl (Fatal ERROR_ID_NOT_HOLDING_MUTEX))"
proof -
  have held: "api_assert_expr c (kbind (mutex_holder m) (\<lambda>holder.
      kbind (get_current_task c) (\<lambda>current. kreturn (holder = current)))) e k =
      (if holder_of k m = k_current_task k then Inr ((), k) else Inl (Fatal e))" if "unat m < length (k_mutexes k)" for e
    by (subst api_assert_expr_run [where b = "holder_of k m = k_current_task k"])
       (use assms that in \<open>simp_all add: kbind_def kreturn_def\<close>)
  show ?thesis
    using assms held
    by (simp add: rtos_mutex_lock_def rtos_mutex_lock_timeout_def rtos_mutex_try_lock_def rtos_mutex_unlock_def
        rtos_mutex_holder_is_current_def kbind_def kgets_def assert_mutex_not_held_run)
qed

theorem mutex_misuse_errors_witness:
  "rtos_mutex_lock rigel_config (rigel_mc rigel_config) 9 rigel_example = Inl (Fatal ERROR_ID_INVALID_ID) \<and>
    rtos_mutex_lock rigel_config (rigel_mc rigel_config) 0 rigel_example = Inl (Fatal ERROR_ID_DEADLOCK) \<and>
    rtos_mutex_unlock rigel_config (rigel_mc rigel_config) 0 mutex_example = Inl (Fatal ERROR_ID_NOT_HOLDING_MUTEX)"
proof -
  have "api_asserts rigel_config" "current_ok rigel_config rigel_example" "current_ok rigel_config mutex_example"
    "length (k_mutexes rigel_example) = 1" "length (k_mutexes mutex_example) = 1"
    "holder_of rigel_example 0 = k_current_task rigel_example" "holder_of mutex_example 0 \<noteq> k_current_task mutex_example"
    by (simp_all add: example_defs holder_of_def)
  then show ?thesis
    using mutex_misuse_errors [of rigel_config rigel_example 9 "rigel_mc rigel_config"] mutex_misuse_errors [of rigel_config rigel_example 0 "rigel_mc rigel_config"]
      mutex_misuse_errors [of rigel_config mutex_example 0 "rigel_mc rigel_config"] by simp
qed

section \<open>Message queues\<close>

abbreviation rigel_mqc :: "config \<Rightarrow> (nat \<times> u8 \<times> u8) list \<Rightarrow> (rr_sched, 'z) mq_kernel_scheme mq_core" where
  "rigel_mqc c queues \<equiv> rigel_mq_core (cooperative c) queues"

text \<open>
  C16: \<open>try_put\<close> implements the append operation of a bounded list of messages: it reports whether there
  was room, and the contents of the queue are then the old ones followed by the bytes of the caller's
  buffer. A full queue, the other queues and the configuration of all queues stay as they are. The
  tasks that wait for the queue are woken when it was empty, and only then.
\<close>

theorem rigel_mq_put:
  fixes k :: "(rr_sched, 'z) mq_kernel_scheme"
  assumes "rigel_mq.mq_inv c queues k" and "unat q < length queues"
    and "buffer_ok message (mq_message_size (queue_of k q)) k"
  shows "\<exists>r k'. rtos_message_queue_try_put (cooperative c) (rigel_mqc c queues) q message k = Inr (r, k') \<and>
    rigel_mq.mq_inv c queues k' \<and> mq_static k' = mq_static k \<and>
    r = (length (contents_of k q) < unat (mq_queue_length (queue_of k q))) \<and>
    (\<forall>p. unat p < length queues \<longrightarrow> contents_of k' p =
      (if r \<and> p = q then contents_of k q @ [read_bytes (k_memory k) message (unat (mq_message_size (queue_of k q)))]
       else contents_of k p)) \<and>
    (\<forall>t. unat t < tasks_length c \<longrightarrow>
      rr_is_runnable (k_sched k') t = (rr_is_runnable (k_sched k) t \<or> r \<and> contents_of k q = [] \<and> mq_waiting_for k t = q))"
proof (cases "mq_available (queue_of k q) = mq_queue_length (queue_of k q)")
  case True
  then show ?thesis
    using rigel_mq.rtos_message_queue_try_put_full [OF assms(1,2) _ True, of message] assms
    by (intro exI [of _ False]) (simp add: buffer_ok_def mq_available_contents)
next
  case False
  have wf: "mq_wf (queue_of k q)"
    using assms(1,2) by (simp add: rigel_mq.mq_inv_def queues_ok_def mq_tables_ok_def)
  have "mq_available (queue_of k q) = 0 \<longleftrightarrow> contents_of k q = []"
    using mq_available_contents [of k q] by (auto simp: unat_eq_zero)
  moreover have "length (contents_of k q) < unat (mq_queue_length (queue_of k q))"
    using mq_pushed_available(2) [OF wf False] by (simp add: mq_available_contents)
  ultimately show ?thesis
    using rigel_mq.rtos_message_queue_try_put_appends [OF assms False]
    by (intro exI [of _ True]) (elim ex_forward, simp add: rigel_mq.mq_woken_def)
qed

text \<open>Task 1 of the example waits for queue 0; a buffer is at address 50 and the queues are at 100 and 200.\<close>

abbreviation rigel_queues :: "(nat \<times> u8 \<times> u8) list" where
  "rigel_queues \<equiv> [(100, 2, 3), (200, 1, 4)]"

lemmas mq_example_defs =
  example_defs rigel_example_def rigel_mq_core_def mq_tables_ok_def queues_ok_def mq_check_ok_def mq_config_ok_def
  mq_waiter_ok_def current_timer_enabled_def queue_of_def mq_waiting_for_def mq_wf_def mq_array_def region_def
  MESSAGE_QUEUE_ID_NONE_def buffer_ok_def

lemma u8_below_2: "unat (q :: u8) < 2 \<longleftrightarrow> q = 0 \<or> q = 1"
  by (auto simp: word_unat_eq_iff)

lemma mq_example_ok:
  "rigel_mq.mq_inv rigel_config rigel_queues rigel_example"
  "buffer_ok 50 (mq_message_size (queue_of rigel_example 0)) rigel_example"
  "buffer_ok 50 (mq_message_size (queue_of rigel_example 1)) rigel_example"
proof -
  show "rigel_mq.mq_inv rigel_config rigel_queues rigel_example"
    unfolding rigel_mq.mq_inv_def
    by (simp add: mq_example_defs u8_below_2 ids_all ids_simps Let_def numeral_2_eq_2 [symmetric] all_conj_distrib)
  show "buffer_ok 50 (mq_message_size (queue_of rigel_example 0)) rigel_example"
    "buffer_ok 50 (mq_message_size (queue_of rigel_example 1)) rigel_example"
    by (auto simp: mq_example_defs u8_below_2 numeral_2_eq_2 [symmetric])
qed

theorem rigel_mq_put_witness:
  "\<exists>r k'. rtos_message_queue_try_put (cooperative rigel_config) (rigel_mqc rigel_config rigel_queues) 0 50 rigel_example =
      Inr (r, k') \<and> r \<and> contents_of k' 0 = [[0, 0]] \<and> rr_is_runnable (k_sched k') 1"
proof -
  have facts: "contents_of rigel_example 0 = []" "mq_message_size (queue_of rigel_example 0) = 2"
    "mq_queue_length (queue_of rigel_example 0) = 3" "read_bytes (k_memory rigel_example) 50 2 = [0, 0]"
    "mq_waiting_for rigel_example 1 = 0" "unat (1 :: u8) < tasks_length rigel_config" "unat (0 :: u8) < length rigel_queues"
    by (simp_all add: mq_example_defs contents_of_def mq_contents_def read_bytes_def numeral_2_eq_2)
  show ?thesis
    using rigel_mq_put [OF mq_example_ok(1) facts(7) mq_example_ok(2)] facts(6,7) unfolding facts(1-5)
    by (elim ex_forward) (auto simp: facts(1-5))
qed

text \<open>
  C17: \<open>try_get\<close> implements the removal of the first message of a list: it reports whether there was one,
  and then the caller's buffer holds the first message and the contents of the queue are the rest. An
  empty queue, the other queues and the configuration of all queues stay as they are. This is proved for
  states in which no task waits for the queue or it has just one message, or where the internal
  assertions are off; the tasks that wait are woken when the number of messages was the number of
  message queues of the system.
\<close>

theorem rigel_mq_get:
  fixes k :: "(rr_sched, 'z) mq_kernel_scheme"
  assumes "rigel_mq.mq_inv c queues k" and "unat q < length queues"
    and "buffer_ok message (mq_message_size (queue_of k q)) k"
    and "\<forall>t. internal_asserts c \<longrightarrow> unat t < tasks_length c \<longrightarrow> mq_waiting_for k t = q \<longrightarrow> length (contents_of k q) = 1"
  shows "\<exists>r k'. rtos_message_queue_try_get (cooperative c) (rigel_mqc c queues) q message k = Inr (r, k') \<and>
    rigel_mq.mq_inv c queues k' \<and> mq_static k' = mq_static k \<and> r = (contents_of k q \<noteq> []) \<and>
    (r \<longrightarrow> contents_of k q = read_bytes (k_memory k') message (unat (mq_message_size (queue_of k q))) # contents_of k' q) \<and>
    (\<forall>p. unat p < length queues \<longrightarrow> \<not> r \<or> p \<noteq> q \<longrightarrow> contents_of k' p = contents_of k p) \<and>
    (\<forall>t. unat t < tasks_length c \<longrightarrow>
      rr_is_runnable (k_sched k') t =
        (rr_is_runnable (k_sched k) t \<or> r \<and> length (contents_of k q) = length queues \<and> mq_waiting_for k t = q))"
proof (cases "mq_available (queue_of k q) = 0")
  case True
  then show ?thesis
    using rigel_mq.rtos_message_queue_try_get_empty [OF assms(1,2) _ True, of message] assms mq_available_contents [of k q]
    by (intro exI [of _ False]) (simp add: buffer_ok_def)
next
  case False
  have one: "mq_available (queue_of k q) = 1" if "length (contents_of k q) = 1"
    using that mq_available_contents [of k q] by (simp add: word_unat_eq_iff)
  have ne: "contents_of k q \<noteq> []" using False mq_available_contents [of k q] by (auto simp: unat_eq_zero)
  have safe: "\<forall>t. internal_asserts (cooperative c) \<longrightarrow> unat t < tasks_length (cooperative c) \<longrightarrow> mq_waiting_for k t = q \<longrightarrow>
      unat (mq_available (queue_of k q)) = length queues \<or> mq_available (queue_of k q) = 1"
    using assms(4) one by simp
  obtain k' where k': "rtos_message_queue_try_get (cooperative c) (rigel_mqc c queues) q message k = Inr (True, k')"
    "rigel_mq.mq_inv c queues k'"
    "contents_of k q = read_bytes (k_memory k') message (unat (mq_message_size (queue_of k q))) # contents_of k' q"
    "\<forall>r. unat r < length queues \<longrightarrow> r \<noteq> q \<longrightarrow> contents_of k' r = contents_of k r"
    "rigel_mq.mq_woken c (unat (mq_available (queue_of k q)) = length queues) q k k'" "mq_static k' = mq_static k"
    using rigel_mq.rtos_message_queue_try_get_removes [OF assms(1-3) False safe] by (elim exE conjE) (rule that)
  have "\<forall>t. unat t < tasks_length c \<longrightarrow> rr_is_runnable (k_sched k') t =
      (rr_is_runnable (k_sched k) t \<or> length (contents_of k q) = length queues \<and> mq_waiting_for k t = q)"
    using k'(5) by (simp add: rigel_mq.mq_woken_def mq_available_contents)
  then show ?thesis using k'(1-4,6) ne by (intro exI [of _ True] exI [of _ k']) blast
qed

abbreviation full_example :: "rr_sched mq_kernel" where
  "full_example \<equiv> rigel_example
     \<lparr>k_message_queues :=
        [\<lparr>mq_messages = 100, mq_message_size = 2, mq_queue_length = 3, mq_head = 2, mq_available = 0\<rparr>,
         \<lparr>mq_messages = 200, mq_message_size = 1, mq_queue_length = 4, mq_head = 3, mq_available = 4\<rparr>],
      k_message_queue_waiters := [255, 1, 255], k_memory := (\<lambda>a. of_nat a)\<rparr>"

lemma full_example_ok:
  "rigel_mq.mq_inv rigel_config rigel_queues full_example"
  "buffer_ok 50 (mq_message_size (queue_of full_example 1)) full_example"
  unfolding rigel_mq.mq_inv_def
  by (auto simp: mq_example_defs u8_below_2 ids_all ids_simps Let_def numeral_2_eq_2 [symmetric] all_conj_distrib)

lemma full_example_contents: "contents_of full_example 1 = [[203], [200], [201], [202]]"
  by (simp add: mq_example_defs contents_of_def mq_contents_def mq_slot_def read_bytes_def upt_conv_Cons)

text \<open>In this state, task 1 waits for the full queue 1; without it, a get succeeds.\<close>

abbreviation half_example :: "rr_sched mq_kernel" where
  "half_example \<equiv> full_example\<lparr>k_message_queue_waiters := [255, 255, 255]\<rparr>"

lemma half_example_ok:
  "rigel_mq.mq_inv rigel_config rigel_queues half_example"
  "buffer_ok 50 (mq_message_size (queue_of half_example 1)) half_example"
  "contents_of half_example 1 = [[203], [200], [201], [202]]"
  "\<forall>t. unat t < tasks_length rigel_config \<longrightarrow> mq_waiting_for half_example t = 255"
proof -
  show "contents_of half_example 1 = [[203], [200], [201], [202]]"
    using full_example_contents by (simp add: contents_of_def queue_of_def)
  show "rigel_mq.mq_inv rigel_config rigel_queues half_example"
    "buffer_ok 50 (mq_message_size (queue_of half_example 1)) half_example"
    unfolding rigel_mq.mq_inv_def
    by (auto simp: mq_example_defs u8_below_2 ids_all ids_simps Let_def numeral_2_eq_2 [symmetric] all_conj_distrib)
  show "\<forall>t. unat t < tasks_length rigel_config \<longrightarrow> mq_waiting_for half_example t = 255"
    by (simp add: mq_waiting_for_def config_example_def ids_all ids_simps)
qed

theorem rigel_mq_get_witness:
  "\<exists>r k'. rtos_message_queue_try_get (cooperative rigel_config) (rigel_mqc rigel_config rigel_queues) 1 50 half_example =
      Inr (r, k') \<and> r \<and> read_bytes (k_memory k') 50 1 = [203] \<and> contents_of k' 1 = [[200], [201], [202]]"
proof -
  have facts: "unat (1 :: u8) < length rigel_queues" "unat (mq_message_size (queue_of half_example 1)) = 1"
    "\<forall>t. internal_asserts rigel_config \<longrightarrow> unat t < tasks_length rigel_config \<longrightarrow>
      mq_waiting_for half_example t = 1 \<longrightarrow> length (contents_of half_example 1) = 1"
    using half_example_ok(4) by (simp_all add: queue_of_def)
  show ?thesis
    using rigel_mq_get [OF half_example_ok(1) facts(1) half_example_ok(2) facts(3)] unfolding facts(2) half_example_ok(3)
    by (elim ex_forward) auto
qed

text \<open>
  C23: Messages come out of a queue in the order they went in, byte for byte: a task that puts several
  messages into an empty queue that has room for them succeeds each time, and getting as many, into
  whatever buffers, delivers the bytes of the buffers that were put and leaves the queue empty. No
  other task waits for the queue meanwhile.
\<close>

theorem rigel_mq_fifo:
  fixes k :: "(rr_sched, 'z) mq_kernel_scheme"
  assumes inv: "rigel_mq.mq_inv c queues k" and q: "unat q < length queues"
    and buf: "\<forall>p \<in> set ps \<union> set ds. buffer_ok p (mq_message_size (queue_of k q)) k"
    and room: "contents_of k q = []" "length ps \<le> unat (mq_queue_length (queue_of k q))" "length ds = length ps"
    and alone: "\<forall>t. unat t < tasks_length c \<longrightarrow> mq_waiting_for k t \<noteq> q"
  shows "\<exists>k1 k2. mq_puts (cooperative c) (rigel_mqc c queues) q ps k = Inr (True, k1) \<and>
    mq_gets (cooperative c) (rigel_mqc c queues) q ds k1 =
      Inr (map (\<lambda>p. read_bytes (k_memory k) p (unat (mq_message_size (queue_of k q)))) ps, k2) \<and>
    contents_of k2 q = [] \<and> rigel_mq.mq_inv c queues k2"
proof -
  have alone': "\<forall>t. unat t < tasks_length (cooperative c) \<longrightarrow> mq_waiting_for k t \<noteq> q" using alone by simp
  have 1: "\<forall>p \<in> set ps. buffer_ok p (mq_message_size (queue_of k q)) k"
    "length (contents_of k q) + length ps \<le> unat (mq_queue_length (queue_of k q))"
    using buf room by simp_all
  obtain k1 where k1: "mq_puts (cooperative c) (rigel_mqc c queues) q ps k = Inr (True, k1)"
    "rigel_mq.mq_inv c queues k1" "mq_static k1 = mq_static k"
    "contents_of k1 q = contents_of k q @ map (\<lambda>p. read_bytes (k_memory k) p (unat (mq_message_size (queue_of k q)))) ps"
    "\<forall>t. unat t < tasks_length (cooperative c) \<longrightarrow> mq_waiting_for k1 t \<noteq> q"
    using rigel_mq.mq_puts_appends [OF inv q 1 alone'] by (elim exE conjE) (rule that)
  have "length (k_message_queues k1) = length (k_message_queues k)"
    using inv k1(2) by (simp add: rigel_mq.mq_inv_def mq_tables_ok_def)
  then have "\<forall>p \<in> set ds. buffer_ok p (mq_message_size (queue_of k1 q)) k1"
    using buf buffer_ok_static [OF k1(3)] by simp
  moreover have "length ds \<le> length (contents_of k1 q)" using k1(4) room by simp
  ultimately obtain k2 where "mq_gets (cooperative c) (rigel_mqc c queues) q ds k1 =
      Inr (take (length ds) (contents_of k1 q), k2)" "rigel_mq.mq_inv c queues k2"
    "contents_of k2 q = drop (length ds) (contents_of k1 q)"
    using rigel_mq.mq_gets_removes [OF k1(2) q _ _ k1(5), of ds] by blast
  then show ?thesis using k1(1,4) room by (intro exI [of _ k1] exI [of _ k2]) simp
qed

theorem rigel_mq_fifo_witness:
  "\<exists>k1 k2. mq_puts (cooperative rigel_config) (rigel_mqc rigel_config rigel_queues) 0 [50, 60, 51]
      (half_example) = Inr (True, k1) \<and>
    mq_gets (cooperative rigel_config) (rigel_mqc rigel_config rigel_queues) 0 [70, 72, 74] k1 =
      Inr ([[50, 51], [60, 61], [51, 52]], k2)"
proof -
  have facts: "unat (0 :: u8) < length rigel_queues" "contents_of half_example 0 = []"
    "mq_message_size (queue_of half_example 0) = 2" "length [70, 72, 74 :: nat] = length [50, 60, 51 :: nat]"
    "length [50, 60, 51 :: nat] \<le> unat (mq_queue_length (queue_of half_example 0))"
    "\<forall>t. unat t < tasks_length rigel_config \<longrightarrow> mq_waiting_for half_example t \<noteq> 0"
    using half_example_ok(4) by (simp_all add: mq_example_defs contents_of_def mq_contents_def)
  have "\<forall>p \<in> set [50, 60, 51] \<union> set [70, 72, 74]. buffer_ok p (mq_message_size (queue_of half_example 0)) half_example"
    by (auto simp: mq_example_defs u8_below_2 numeral_2_eq_2 [symmetric])
  note rigel_mq_fifo [OF half_example_ok(1) facts(1) this facts(2,5,4,6)]
  moreover have "map (\<lambda>p. read_bytes (k_memory half_example) p (unat (mq_message_size (queue_of half_example 0)))) [50, 60, 51] =
      [[50, 51], [60, 61], [51, 52]]"
    unfolding facts(3) by (simp add: read_bytes_def upt_conv_Cons)
  ultimately show ?thesis by (elim ex_forward) simp
qed

text \<open>
  C31: A task that waits to put a message into a full queue is not woken when another task gets one: it
  stays registered and blocked while there is room, unless the length of the queue is the number of
  message queues of the system, which is what \<open>try_get\<close> compares the number of messages with. This is
  the behaviour without internal assertions.
\<close>

theorem rigel_mq_lost_wakeup:
  fixes k :: "(rr_sched, 'z) mq_kernel_scheme"
  assumes "rigel_mq.mq_inv c queues k" and "unat q < length queues"
    and "buffer_ok message (mq_message_size (queue_of k q)) k"
    and full: "length (contents_of k q) = unat (mq_queue_length (queue_of k q))"
    and "unat (mq_queue_length (queue_of k q)) \<noteq> length queues"
    and "unat t < tasks_length c" "mq_waiting_for k t = q" "\<not> rr_is_runnable (k_sched k) t"
    and "\<not> internal_asserts c"
  shows "\<exists>k'. rtos_message_queue_try_get (cooperative c) (rigel_mqc c queues) q message k = Inr (True, k') \<and>
    length (contents_of k' q) < unat (mq_queue_length (queue_of k q)) \<and>
    mq_waiting_for k' t = q \<and> \<not> rr_is_runnable (k_sched k') t \<and> pending_of k' t = pending_of k t"
proof (rule rigel_mq.try_get_no_wakeup [OF assms(1-3) _ assms(5)])
  show "mq_available (queue_of k q) = mq_queue_length (queue_of k q)"
    using full by (simp add: mq_available_contents word_unat_eq_iff)
qed (use assms in simp_all)

theorem rigel_mq_lost_wakeup_witness:
  "\<exists>k'. rtos_message_queue_try_get (cooperative (rigel_config\<lparr>internal_asserts := False\<rparr>))
      (rigel_mqc (rigel_config\<lparr>internal_asserts := False\<rparr>) rigel_queues) 1 50 full_example = Inr (True, k') \<and>
    length (contents_of k' 1) < 4 \<and> mq_waiting_for k' 1 = 1 \<and> \<not> rr_is_runnable (k_sched k') 1"
proof -
  have inv: "rigel_mq.mq_inv (rigel_config\<lparr>internal_asserts := False\<rparr>) rigel_queues full_example"
    unfolding rigel_mq.mq_inv_def
    by (auto simp: mq_example_defs u8_below_2 ids_all ids_simps Let_def numeral_2_eq_2 [symmetric] all_conj_distrib)
  have facts: "unat (1 :: u8) < length rigel_queues" "unat (mq_queue_length (queue_of full_example 1)) = 4"
    "mq_waiting_for full_example 1 = 1" "\<not> rr_is_runnable (k_sched full_example) 1"
    "unat (1 :: u8) < tasks_length (rigel_config\<lparr>internal_asserts := False\<rparr>)" "length rigel_queues \<noteq> 4"
    by (simp_all add: mq_example_defs)
  show ?thesis
    using rigel_mq_lost_wakeup [OF inv facts(1) full_example_ok(2), of 1]
    unfolding full_example_contents facts(2,3) using facts(4-6) by auto
qed

section \<open>Profiling\<close>

text \<open>
  A sample counts for exactly one of the counters: that of the current task, or the last one when the
  system is idle. So the counters add up to the number of samples, modulo \<open>2^32\<close>.
\<close>

theorem rigel_profiling_sample:
  fixes k :: "(rr_sched, 'z) profiling_kernel_scheme"
  assumes "current_ok c k" and "tasks_length c \<le> 255" and "length (k_profiling_task_uptimes k) = Suc (tasks_length c)"
  shows "\<exists>k'. rtos_profiling_record_sample c k = Inr ((), k') \<and>
    (\<forall>i. i \<le> tasks_length c \<longrightarrow> k_profiling_task_uptimes k' ! i = k_profiling_task_uptimes k ! i +
      (if i = (if k_system_is_idle k then tasks_length c else unat (k_current_task k)) then 1 else 0)) \<and>
    sum_list (k_profiling_task_uptimes k') = sum_list (k_profiling_task_uptimes k) + 1 \<and>
    length (k_profiling_task_uptimes k') = Suc (tasks_length c)"
  using rtos_profiling_record_sample_eq [OF assms] assms(3)
  by (auto simp: nth_list_update)

abbreviation profiling_example :: "rr_sched profiling_kernel" where
  "profiling_example \<equiv> mq_kernel.extend rigel_example (profiling_kernel.fields [5, 0, 0, 4294967295])"

theorem rigel_profiling_sample_witness:
  "\<exists>k'. rtos_profiling_record_sample rigel_config profiling_example = Inr ((), k') \<and>
    k_profiling_task_uptimes k' ! 0 = 6 \<and> sum_list (k_profiling_task_uptimes k') = 5"
proof -
  have ok: "current_ok rigel_config profiling_example" "tasks_length rigel_config = 3"
    "k_profiling_task_uptimes profiling_example = [5, 0, 0, 4294967295]"
    "k_system_is_idle profiling_example = False" "k_current_task profiling_example = 0"
    by (simp_all add: example_defs mq_kernel.defs profiling_kernel.defs)
  obtain k' where k': "rtos_profiling_record_sample rigel_config profiling_example = Inr ((), k')"
    "\<forall>i. i \<le> tasks_length rigel_config \<longrightarrow> k_profiling_task_uptimes k' ! i = k_profiling_task_uptimes profiling_example ! i +
      (if i = (if k_system_is_idle profiling_example then tasks_length rigel_config
               else unat (k_current_task profiling_example)) then 1 else 0)"
    "sum_list (k_profiling_task_uptimes k') = sum_list (k_profiling_task_uptimes profiling_example) + 1"
    using rigel_profiling_sample [OF ok(1)] ok(2,3) by auto
  then show ?thesis using spec [OF k'(2), of 0] unfolding ok by (intro exI [of _ k']) simp
qed

end
