(* ===== verification/Kochab.thy ===== *)
theory Kochab
  imports Sched_Prio_Inherit Semaphore
begin

text \<open>
  The Kochab variant (\<open>components/kochab\<close>): preemptive priority scheduling with priority inheritance,
  signals, timers, interrupt events, blocking mutexes with lock timeouts, and semaphores. A task that
  waits for a mutex is recorded as blocked on the holder, to which the scheduler then gives its
  priority. The context switch of \<open>yield\<close> is up to the platform (see theory \<open>Preempt_PPCe500\<close>).
\<close>

section \<open>Model\<close>

text \<open>The part of \<open>block_on\<close> before its \<open>yield\<close>; \<open>block()\<close> is \<open>block_on(TASK_ID_NONE)\<close>.\<close>

definition kochab_block_on :: "config \<Rightarrow> u8 \<Rightarrow> ((pi_sched, 'z) kernel_scheme, unit) kop" where
  "kochab_block_on c blocker =
     kbind (precondition_preemption_disabled c) (\<lambda>_.
     kbind (get_current_task c) (\<lambda>current.
     on_sched (pi_sched_set_blocked_on current blocker)))"

definition kochab_unblock :: "config \<Rightarrow> u8 \<Rightarrow> ((pi_sched, 'z) kernel_scheme, unit) kop" where
  "kochab_unblock c task =
     kseq [precondition_preemption_disabled c,
           on_sched (pi_sched_set_runnable task),
           preempt_pend c,
           postcondition_preemption_disabled c]"

text \<open>The mutex macros.\<close>

definition kochab_mutex_core_block_on :: "config \<Rightarrow> u8 \<Rightarrow> ((pi_sched, 'z) signal_kernel_scheme, signal_pc) kop" where
  "kochab_mutex_core_block_on c blocker =
     signal_wait_set_blocked_on c (kochab_block_on c) (SIGNAL_ID__TASK_TIMER c) blocker"

definition kochab_wait_resume ::
  "config \<Rightarrow> signal_pc \<Rightarrow> ((pi_sched, 'z) signal_kernel_scheme, (signal_pc, unit) progress) kop"
where
  "kochab_wait_resume c p =
     co_bind (signal_wait_resume c (kochab_block_on c) p) id (\<lambda>_. kreturn (Finished ()))"

definition kochab_mutex_core_unblock :: "config \<Rightarrow> u8 \<Rightarrow> ((pi_sched, 'z) signal_kernel_scheme, unit) kop" where
  "kochab_mutex_core_unblock c task = signal_send_set c (kochab_unblock c) task (SIGNAL_ID__TASK_TIMER c)"

definition kochab_mutex_core_block_on_timeout ::
  "config \<Rightarrow> u8 \<Rightarrow> u16 \<Rightarrow> ((pi_sched, 'z) timer_kernel_scheme, signal_pc) kop"
where
  "kochab_mutex_core_block_on_timeout c t ticks =
     kbind (precondition_preemption_disabled c) (\<lambda>_.
     kbind (get_current_task c) (\<lambda>current.
     kbind (array_read k_task_timers current) (\<lambda>timer_id.
     kbind (timer_oneshot c (kochab_unblock c) timer_id ticks) (\<lambda>_.
     kochab_mutex_core_block_on c t))))"

text \<open>After the wait, both timeout routines disable the timer of the task.\<close>

definition kochab_timeout_resume ::
  "config \<Rightarrow> signal_pc \<Rightarrow> ((pi_sched, 'z) timer_kernel_scheme, (signal_pc, unit) progress) kop"
where
  "kochab_timeout_resume c p =
     co_bind (kochab_wait_resume c p) id (\<lambda>_.
       kbind (get_current_task c) (\<lambda>current.
       kbind (array_read k_task_timers current) (\<lambda>timer_id.
       kbind (timer_disable timer_id) (\<lambda>_.
       co_finish (postcondition_preemption_disabled c) ()))))"

text \<open>The semaphore macros.\<close>

definition kochab_sem_core_block :: "config \<Rightarrow> ((pi_sched, 'z) signal_kernel_scheme, signal_pc) kop" where
  "kochab_sem_core_block c =
     signal_wait_set_blocked_on c (kochab_block_on c) (SIGNAL_ID__TASK_TIMER c) TASK_ID_NONE"

definition kochab_sem_core_unblock :: "config \<Rightarrow> u8 \<Rightarrow> ((pi_sched, 'z) signal_kernel_scheme, unit) kop" where
  "kochab_sem_core_unblock c task = signal_send_set c (kochab_unblock c) task (SIGNAL_ID__TASK_TIMER c)"

definition kochab_sem_core_block_timeout ::
  "config \<Rightarrow> u16 \<Rightarrow> ((pi_sched, 'z) timer_kernel_scheme, signal_pc) kop"
where
  "kochab_sem_core_block_timeout c ticks =
     kbind (precondition_preemption_disabled c) (\<lambda>_.
     kbind (get_current_task c) (\<lambda>current.
     kbind (array_read k_task_timers current) (\<lambda>timer_id.
     kbind (timer_oneshot c (kochab_unblock c) timer_id ticks) (\<lambda>_.
     kochab_sem_core_block c))))"

definition kochab_mutex_core :: "config \<Rightarrow> bool \<Rightarrow> (pi_sched, 'z) mutex_kernel_scheme mutex_core" where
  "kochab_mutex_core c with_stats =
     \<lparr>mutex_core_block_on = kochab_mutex_core_block_on c,
      mutex_core_block_on_resume = kochab_wait_resume c,
      mutex_core_block_on_timeout = kochab_mutex_core_block_on_timeout c,
      mutex_core_block_on_timeout_resume = kochab_timeout_resume c,
      mutex_core_unblock = kochab_mutex_core_unblock c,
      mutex_core_locked_by = (\<lambda>_ _. kreturn ()),
      mutex_core_unlocked = (\<lambda>_. kreturn ()),
      mutex_prio_ceiling = False,
      mutex_with_stats = with_stats\<rparr>"

definition kochab_sem_core :: "config \<Rightarrow> bool \<Rightarrow> (pi_sched, 'z) sem_kernel_scheme sem_core" where
  "kochab_sem_core c enable_max =
     \<lparr>sem_core_block = kochab_sem_core_block c,
      sem_core_block_resume = kochab_wait_resume c,
      sem_core_block_timeout = kochab_sem_core_block_timeout c,
      sem_core_block_timeout_resume = kochab_timeout_resume c,
      sem_core_unblock = kochab_sem_core_unblock c,
      sem_enable_max = enable_max\<rparr>"

text \<open>The entry function of a task, up to the call of the application's function.\<close>

definition kochab_entry :: "config \<Rightarrow> ((pi_sched, 'z) sem_kernel_scheme, unit) kop" where
  "kochab_entry c = kseq [precondition_preemption_disabled c, preempt_enable c]"

definition kochab_start ::
  "config \<Rightarrow> ((pi_sched, 'z) sem_kernel_scheme, unit) kop \<Rightarrow> (u8 \<Rightarrow> ((pi_sched, 'z) sem_kernel_scheme, unit) kop) \<Rightarrow>
     ((pi_sched, 'z) sem_kernel_scheme, u8) kop"
where
  "kochab_start c preempt_init context_init =
     kbind (sem_init c) (\<lambda>_.
     kbind preempt_init (\<lambda>_.
     kbind (kseq (map (\<lambda>idx. kseq [context_init idx, on_sched (pi_sched_set_runnable idx)]) (ids (tasks_length c)))) (\<lambda>_.
     kreturn TASK_ID_ZERO)))"

section \<open>The contracts of the components\<close>

lemma kochab_unblock_law:
  assumes "kernel_inv c pi_inv pi_ntasks k" and "preempt_ok c k" and "unat t < tasks_length c"
  shows "kochab_unblock c t k = Inr ((), pend c (k\<lparr>k_sched := pi_set t t (k_sched k)\<rparr>))"
proof -
  have run: "on_sched (pi_sched_set_runnable t) k = Inr ((), k\<lparr>k_sched := pi_set t t (k_sched k)\<rparr>)"
    by (rule on_sched_run, rule pi_update_laws(1)) (use assms in \<open>simp_all add: kernel_inv_def\<close>)
  have "preempt_ok c (k\<lparr>k_sched := pi_set t t (k_sched k)\<rparr>)" using assms(2) by (simp add: preempt_ok_def)
  then show ?thesis
    using assms(2) run by (simp add: kochab_unblock_def kbind_def kreturn_def)
qed

lemma kochab_block_on_run:
  assumes "kernel_inv c pi_inv pi_ntasks k" and "preempt_ok c k"
  shows "kochab_block_on c b k = Inr ((), k\<lparr>k_sched := pi_set (k_current_task k) b (k_sched k)\<rparr>)"
proof -
  have "unat (k_current_task k) < length (pi_tasks (k_sched k))"
    using assms(1) by (simp add: kernel_inv_def current_ok_def pi_ntasks_def)
  then have "on_sched (pi_sched_set_blocked_on (k_current_task k) b) k =
      Inr ((), k\<lparr>k_sched := pi_set (k_current_task k) b (k_sched k)\<rparr>)"
    by (intro on_sched_run) (simp add: pi_sched_set_blocked_on_def array_modify_def pi_set_def)
  then show ?thesis using assms by (simp add: kochab_block_on_def kbind_def kernel_inv_def)
qed

interpretation kochab: signal_control pi_sched_set_runnable pi_sched_set_blocked "pi_sched_get_next undef"
  "\<lambda>t. pi_set t t" "\<lambda>t. pi_set t TASK_ID_NONE" pi_inv pi_ntasks pi_is_runnable "preemptive c"
  "kochab_unblock (preemptive c)" "kochab_block_on (preemptive c) TASK_ID_NONE"
  for undef c
  by unfold_locales (simp_all add: kochab_unblock_law kochab_block_on_run)

interpretation kochab_events: idle_event_control pi_sched_set_runnable pi_sched_set_blocked "pi_sched_get_next undef"
  "\<lambda>t. pi_set t t" "\<lambda>t. pi_set t TASK_ID_NONE" pi_inv pi_ntasks pi_is_runnable "preemptive c"
  "kochab_unblock (preemptive c)" "kochab_block_on (preemptive c) TASK_ID_NONE" nev
  for undef c nev
  by unfold_locales

interpretation kochab_mutex: mutex_control pi_sched_set_runnable pi_sched_set_blocked "pi_sched_get_next undef"
  "\<lambda>t. pi_set t t" "\<lambda>t. pi_set t TASK_ID_NONE" pi_inv pi_ntasks pi_is_runnable "preemptive c"
  "kochab_unblock (preemptive c)" "kochab_block_on (preemptive c) TASK_ID_NONE" nev
  "kochab_mutex_core (preemptive c) with_stats"
  for undef c nev with_stats
  by unfold_locales
     (simp add: kochab_mutex_core_def kochab_mutex_core_unblock_def kochab.signal_send_set_sent)

interpretation kochab_sem: sem_control pi_sched_set_runnable pi_sched_set_blocked "pi_sched_get_next undef"
  "\<lambda>t. pi_set t t" "\<lambda>t. pi_set t TASK_ID_NONE" pi_inv pi_ntasks pi_is_runnable "preemptive c"
  "kochab_unblock (preemptive c)" "kochab_block_on (preemptive c) TASK_ID_NONE" nev
  "kochab_sem_core (preemptive c) enable_max"
  for undef c nev enable_max
  by unfold_locales
     (simp add: kochab_sem_core_def kochab_sem_core_unblock_def kochab.signal_send_set_sent)

end
