(* ===== verification/Context_Frames.thy ===== *)
theory Context_Frames
  imports Prelude
begin

text \<open>
  The initial execution contexts of tasks and the layout of the stack frames they are made of
  (\<open>components/context-switch-armv7m\<close>, \<open>context-switch-ppce500\<close>, \<open>context-switch-preempt-armv7m\<close> and
  \<open>context-switch-preempt-ppce500\<close>). Stacks are arrays of 32-bit words in one memory of words; a
  pointer to a word is its index, so that \<open>(uint32_t) p\<close> is the byte address \<open>4 * p\<close>. The code
  addresses of assembly routines are parameters.
\<close>

type_synonym words = "nat \<Rightarrow> u32"

definition address_of :: "nat \<Rightarrow> u32" where
  "address_of p = of_nat (4 * p)"

definition store :: "nat \<Rightarrow> u32 \<Rightarrow> (words, unit) kop" where
  "store p v = kmodify (\<lambda>mem. mem(p := v))"

declare store_def [kop_defs]

text \<open>
  \<open>stack_base + stack_size - size\<close>: a pointer below the stack is undefined in C.
\<close>

definition stack_top :: "nat \<Rightarrow> nat \<Rightarrow> nat \<Rightarrow> (words, nat) kop" where
  "stack_top stack_base stack_size size_in_words =
     (if size_in_words \<le> stack_size then kreturn (stack_base + stack_size - size_in_words)
      else kfail Out_Of_Bounds)"

declare stack_top_def [kop_defs]

section \<open>ARMv7-M without preemption\<close>

definition armv7m_context_slots :: "(string \<times> nat) list" where
  "armv7m_context_slots =
     [(''V1'', 0), (''V2'', 1), (''V3'', 2), (''V4'', 3), (''V5'', 4), (''V6'', 5), (''V7'', 6),
      (''V8'', 7), (''IP'', 8), (''PC'', 9)]"

definition armv7m_CONTEXT_SIZE :: nat where
  "armv7m_CONTEXT_SIZE = 10"

definition armv7m_context_init :: "u32 \<Rightarrow> u32 \<Rightarrow> nat \<Rightarrow> nat \<Rightarrow> (words, nat) kop" where
  "armv7m_context_init trampoline fn stack_base stack_size =
     kbind (stack_top stack_base stack_size armv7m_CONTEXT_SIZE) (\<lambda>context.
     kbind (store (context + 0) fn) (\<lambda>_.
     kbind (store (context + 9) trampoline) (\<lambda>_.
     kreturn context)))"

section \<open>ARMv7-M with preemption\<close>

text \<open>The words of the frame by name: saved by the kernel, then by the exception entry.\<close>

definition armv7m_preempt_context_slots :: "(string \<times> nat) list" where
  "armv7m_preempt_context_slots =
     [(''PREEMPT_DISABLED'', 0),
      (''R4'', 1), (''R5'', 2), (''R6'', 3), (''R7'', 4), (''R8'', 5), (''R9'', 6), (''R10'', 7), (''R11'', 8),
      (''EXCEPTION_RETURN'', 9),
      (''S16'', 10), (''S17'', 11), (''S18'', 12), (''S19'', 13), (''S20'', 14), (''S21'', 15), (''S22'', 16),
      (''S23'', 17), (''S24'', 18), (''S25'', 19), (''S26'', 20), (''S27'', 21), (''S28'', 22), (''S29'', 23),
      (''S30'', 24), (''S31'', 25),
      (''R0'', 26), (''R1'', 27), (''R2'', 28), (''R3'', 29), (''IP'', 30), (''LR'', 31), (''PC'', 32),
      (''PSR'', 33)]"

text \<open>The words that the exception entry adds when floating point is enabled.\<close>

definition armv7m_preempt_fp_slots :: "(string \<times> nat) list" where
  "armv7m_preempt_fp_slots =
     [(''S0'', 34), (''S1'', 35), (''S2'', 36), (''S3'', 37), (''S4'', 38), (''S5'', 39), (''S6'', 40),
      (''S7'', 41), (''S8'', 42), (''S9'', 43), (''S10'', 44), (''S11'', 45), (''S12'', 46), (''S13'', 47),
      (''S14'', 48), (''S15'', 49), (''FPSCR'', 50), (''ALIGNER'', 51)]"

definition CONTEXT_NONFP_SIZE :: nat where
  "CONTEXT_NONFP_SIZE = 34"

definition CONTEXT_FP_SIZE :: nat where
  "CONTEXT_FP_SIZE = 52"

definition EPSR_THUMB_BIT_OFFSET :: nat where
  "EPSR_THUMB_BIT_OFFSET = 24"

definition EXC_RETURN_INITIAL_TASK :: u32 where
  "EXC_RETURN_INITIAL_TASK = 0xfffffff9"

definition armv7m_preempt_context_init :: "u32 \<Rightarrow> u32 \<Rightarrow> nat \<Rightarrow> nat \<Rightarrow> (words, nat) kop" where
  "armv7m_preempt_context_init task_entry_trampoline fn stack_base stack_size =
     kbind (stack_top stack_base stack_size CONTEXT_NONFP_SIZE) (\<lambda>context.
     kbind (store (context + 0) 1) (\<lambda>_.
     kbind (store (context + 1) fn) (\<lambda>_.
     kbind (store (context + 32) task_entry_trampoline) (\<lambda>_.
     kbind (store (context + 33) (push_bit EPSR_THUMB_BIT_OFFSET 1)) (\<lambda>_.
     kbind (store (context + 9) EXC_RETURN_INITIAL_TASK) (\<lambda>_.
     kreturn context))))))"

text \<open>
  \<open>preempt_init\<close> sets the priority fields of the two system handler priority registers, then disables
  preemption. The pair is the registers \<open>SHPR2\<close> and \<open>SHPR3\<close>.
\<close>

definition SHPR2_SVCALL_PRIO_MASK :: u32 where
  "SHPR2_SVCALL_PRIO_MASK = 0x00ffffff"

definition SHPR2_SVCALL_PRIO_OFFSET :: nat where
  "SHPR2_SVCALL_PRIO_OFFSET = 24"

definition SHPR3_PENDSV_PRIO_MASK :: u32 where
  "SHPR3_PENDSV_PRIO_MASK = 0xff00ffff"

definition SHPR3_PENDSV_PRIO_OFFSET :: nat where
  "SHPR3_PENDSV_PRIO_OFFSET = 16"

definition armv7m_preempt_init :: "u32 \<Rightarrow> u32 \<Rightarrow> u32 \<times> u32 \<Rightarrow> u32 \<times> u32" where
  "armv7m_preempt_init svcall_priority pendsv_priority shpr =
     (let (shpr2, shpr3) = shpr in
      (push_bit SHPR2_SVCALL_PRIO_OFFSET svcall_priority OR (SHPR2_SVCALL_PRIO_MASK AND shpr2),
       push_bit SHPR3_PENDSV_PRIO_OFFSET pendsv_priority OR (SHPR3_PENDSV_PRIO_MASK AND shpr3)))"

section \<open>PowerPC e500 without preemption\<close>

definition CONTEXT_BC_IDX :: nat where
  "CONTEXT_BC_IDX = 0"

definition CONTEXT_LR_IDX :: nat where
  "CONTEXT_LR_IDX = 1"

definition CONTEXT_HEADER_SIZE :: nat where
  "CONTEXT_HEADER_SIZE = CONTEXT_LR_IDX + 1"

definition ppce500_context_slots :: "(string \<times> nat) list" where
  "ppce500_context_slots =
     [(''BC'', CONTEXT_BC_IDX), (''LR'', CONTEXT_LR_IDX),
      (''GPR14'', 2), (''GPR15'', 3), (''GPR16'', 4), (''GPR17'', 5), (''GPR18'', 6), (''GPR19'', 7),
      (''GPR20'', 8), (''GPR21'', 9), (''GPR22'', 10), (''GPR23'', 11), (''GPR24'', 12), (''GPR25'', 13),
      (''GPR26'', 14), (''GPR27'', 15), (''GPR28'', 16), (''GPR29'', 17), (''GPR30'', 18), (''GPR31'', 19)]"

definition ppce500_FRAME_SIZE :: nat where
  "ppce500_FRAME_SIZE = 19 + 1"

definition ppce500_context_init :: "u32 \<Rightarrow> nat \<Rightarrow> nat \<Rightarrow> (words, nat) kop" where
  "ppce500_context_init fn stack_base stack_size =
     kbind (stack_top stack_base stack_size (CONTEXT_HEADER_SIZE + ppce500_FRAME_SIZE)) (\<lambda>context.
     let init_context = context + ppce500_FRAME_SIZE in
     kbind (store (init_context + CONTEXT_BC_IDX) 0) (\<lambda>_.
     kbind (store (init_context + CONTEXT_LR_IDX) fn) (\<lambda>_.
     kbind (store (context + CONTEXT_BC_IDX) (address_of (init_context + CONTEXT_BC_IDX))) (\<lambda>_.
     kreturn context))))"

section \<open>PowerPC e500 with preemption\<close>

text \<open>
  The frame when the signal processing engine is disabled in the task's machine state, with one word
  per general purpose register, and when it is enabled, with two.
\<close>

definition CONTEXT_SRR0_IDX :: nat where
  "CONTEXT_SRR0_IDX = 3"

definition CONTEXT_SRR1_IDX :: nat where
  "CONTEXT_SRR1_IDX = 4"

definition CONTEXT_PREEMPT_RESTORE_STATUS :: nat where
  "CONTEXT_PREEMPT_RESTORE_STATUS = 37"

definition CONTEXT_FRAME_SIZE :: nat where
  "CONTEXT_FRAME_SIZE = CONTEXT_PREEMPT_RESTORE_STATUS + 1"

definition CONTEXT_SPE_PREEMPT_RESTORE_STATUS :: nat where
  "CONTEXT_SPE_PREEMPT_RESTORE_STATUS = 67"

definition CONTEXT_SPE_FRAME_SIZE :: nat where
  "CONTEXT_SPE_FRAME_SIZE = CONTEXT_SPE_PREEMPT_RESTORE_STATUS + 1"

definition ppce500_special_slots :: "(string \<times> nat) list" where
  "ppce500_special_slots =
     [(''BC'', CONTEXT_BC_IDX), (''LR'', CONTEXT_LR_IDX), (''INTERRUPTED_LR'', 2), (''SRR0'', CONTEXT_SRR0_IDX),
      (''SRR1'', CONTEXT_SRR1_IDX), (''XER'', 5), (''CTR'', 6), (''CR'', 7)]"

definition ppce500_gpr_slots :: "(string \<times> nat) list" where
  "ppce500_gpr_slots =
     [(''GPR0'', 8), (''GPR3'', 9), (''GPR4'', 10), (''GPR5'', 11), (''GPR6'', 12), (''GPR7'', 13), (''GPR8'', 14),
      (''GPR9'', 15), (''GPR10'', 16), (''GPR11'', 17), (''GPR12'', 18), (''GPR14'', 19), (''GPR15'', 20),
      (''GPR16'', 21), (''GPR17'', 22), (''GPR18'', 23), (''GPR19'', 24), (''GPR20'', 25), (''GPR21'', 26),
      (''GPR22'', 27), (''GPR23'', 28), (''GPR24'', 29), (''GPR25'', 30), (''GPR26'', 31), (''GPR27'', 32),
      (''GPR28'', 33), (''GPR29'', 34), (''GPR30'', 35), (''GPR31'', 36)]"

definition ppce500_spe_gpr_slots :: "(string \<times> nat) list" where
  "ppce500_spe_gpr_slots =
     [(''GPR0'', 8), (''GPR3'', 10), (''GPR4'', 12), (''GPR5'', 14), (''GPR6'', 16), (''GPR7'', 18), (''GPR8'', 20),
      (''GPR9'', 22), (''GPR10'', 24), (''GPR11'', 26), (''GPR12'', 28), (''GPR14'', 30), (''GPR15'', 32),
      (''GPR16'', 34), (''GPR17'', 36), (''GPR18'', 38), (''GPR19'', 40), (''GPR20'', 42), (''GPR21'', 44),
      (''GPR22'', 46), (''GPR23'', 48), (''GPR24'', 50), (''GPR25'', 52), (''GPR26'', 54), (''GPR27'', 56),
      (''GPR28'', 58), (''GPR29'', 60), (''GPR30'', 62), (''GPR31'', 64)]"

definition CONTEXT_SPE_ALIGNMENT_PADDING :: nat where
  "CONTEXT_SPE_ALIGNMENT_PADDING = 66"

definition PPCE500_MSR_EE_SET :: u32 where
  "PPCE500_MSR_EE_SET = 0x8000"

definition PPCE500_MSR_SPE_BIT :: u32 where
  "PPCE500_MSR_SPE_BIT = 0x2000000"

definition PREEMPT_RESTORE_DISABLED :: u32 where
  "PREEMPT_RESTORE_DISABLED = 1"

definition PREEMPT_RESTORE_VOLATILES :: u32 where
  "PREEMPT_RESTORE_VOLATILES = 2"

text \<open>
  Which word of a frame holds the preemption status. \<open>spe\<close> is the configuration option
  \<open>spe_64bit_support\<close>, \<open>msr\<close> the machine state saved in the frame.
\<close>

definition status_slot :: "bool \<Rightarrow> u32 \<Rightarrow> nat" where
  "status_slot spe msr =
     (if spe \<and> msr AND PPCE500_MSR_SPE_BIT \<noteq> 0 then CONTEXT_SPE_PREEMPT_RESTORE_STATUS
      else CONTEXT_PREEMPT_RESTORE_STATUS)"

definition preempt_frame_size :: "bool \<Rightarrow> u32 \<Rightarrow> nat" where
  "preempt_frame_size spe msr =
     (if spe \<and> msr AND PPCE500_MSR_SPE_BIT \<noteq> 0 then CONTEXT_SPE_FRAME_SIZE else CONTEXT_FRAME_SIZE)"

definition ppce500_preempt_context_init :: "bool \<Rightarrow> u32 \<Rightarrow> u32 \<Rightarrow> nat \<Rightarrow> nat \<Rightarrow> (words, nat) kop" where
  "ppce500_preempt_context_init spe current_msr fn stack_base stack_size =
     kbind (stack_top stack_base stack_size (CONTEXT_HEADER_SIZE + preempt_frame_size spe current_msr)) (\<lambda>context.
     let init_context = context + preempt_frame_size spe current_msr in
     kbind (store (init_context + CONTEXT_BC_IDX) 0) (\<lambda>_.
     kbind (store (context + CONTEXT_SRR0_IDX) fn) (\<lambda>_.
     kbind (store (context + CONTEXT_SRR1_IDX) (current_msr OR PPCE500_MSR_EE_SET)) (\<lambda>_.
     kbind (kgets (\<lambda>mem. mem (context + CONTEXT_SRR1_IDX))) (\<lambda>srr1.
     kbind (store (context + status_slot spe srr1) (PREEMPT_RESTORE_DISABLED OR PREEMPT_RESTORE_VOLATILES)) (\<lambda>_.
     kbind (store (context + CONTEXT_BC_IDX) (address_of (init_context + CONTEXT_BC_IDX))) (\<lambda>_.
     kreturn context)))))))"

section \<open>Frame layouts\<close>

text \<open>
  A layout of slots of \<open>w\<close> words each fits a frame: the slots lie between two bounds and do not
  overlap.
\<close>

fun packed :: "nat \<Rightarrow> nat \<Rightarrow> nat \<Rightarrow> (string \<times> nat) list \<Rightarrow> bool" where
  "packed w start bound [] \<longleftrightarrow> start \<le> bound"
| "packed w start bound ((_, i) # slots) \<longleftrightarrow> start \<le> i \<and> packed w (i + w) bound slots"

lemma packed_le: "packed w start bound slots \<Longrightarrow> start \<le> bound"
  by (induction w start bound slots rule: packed.induct) auto

lemma packed_bounds: "packed w start bound slots \<Longrightarrow> (r, i) \<in> set slots \<Longrightarrow> start \<le> i \<and> i + w \<le> bound"
  by (induction w start bound slots rule: packed.induct) (auto dest: packed_le)

lemma packed_disjoint:
  assumes "packed w start bound slots" and "m < n" and "n < length slots"
  shows "snd (slots ! m) + w \<le> snd (slots ! n)"
  using assms
proof (induction w start bound slots arbitrary: m n rule: packed.induct)
  case (2 w start bound s j slots)
  show ?case
  proof (cases m)
    case 0
    obtain r i where ri: "slots ! (n - 1) = (r, i)" by fastforce
    moreover have "(r, i) \<in> set slots" using ri 2(3,4) by (metis One_nat_def Suc_less_eq Suc_pred length_Cons less_nat_zero_code nat_neq_iff nth_mem)
    ultimately show ?thesis using 0 2 packed_bounds [of w "j + w" bound slots r i] by (cases n) auto
  qed (use 2 in \<open>cases n; simp\<close>)
qed simp

section \<open>Initial contexts\<close>

lemmas frame_sizes =
  CONTEXT_NONFP_SIZE_def CONTEXT_FP_SIZE_def armv7m_CONTEXT_SIZE_def CONTEXT_HEADER_SIZE_def ppce500_FRAME_SIZE_def
  CONTEXT_FRAME_SIZE_def CONTEXT_SPE_FRAME_SIZE_def CONTEXT_BC_IDX_def CONTEXT_LR_IDX_def CONTEXT_SRR0_IDX_def
  CONTEXT_SRR1_IDX_def CONTEXT_PREEMPT_RESTORE_STATUS_def CONTEXT_SPE_PREEMPT_RESTORE_STATUS_def

lemma msr_ee_keeps_spe: "(msr OR PPCE500_MSR_EE_SET) AND PPCE500_MSR_SPE_BIT = msr AND PPCE500_MSR_SPE_BIT"
proof -
  have "PPCE500_MSR_EE_SET AND PPCE500_MSR_SPE_BIT = 0"
    by (simp add: PPCE500_MSR_EE_SET_def PPCE500_MSR_SPE_BIT_def)
  then show ?thesis by (simp add: word_ao_dist)
qed

lemma status_slot_ee: "status_slot spe (msr OR PPCE500_MSR_EE_SET) = status_slot spe msr"
  by (simp add: status_slot_def msr_ee_keeps_spe)

lemma status_slot_last: "Suc (status_slot spe msr) = preempt_frame_size spe msr"
  by (simp add: status_slot_def preempt_frame_size_def frame_sizes)

text \<open>All words that differ after a routine lie in a region.\<close>

definition writes_within :: "words \<Rightarrow> words \<Rightarrow> nat \<Rightarrow> nat \<Rightarrow> bool" where
  "writes_within mem mem' a b \<longleftrightarrow> (\<forall>p. mem' p \<noteq> mem p \<longrightarrow> a \<le> p \<and> p < b)"

lemma writes_within_refl [simp]: "writes_within mem mem a b"
  by (simp add: writes_within_def)

lemma writes_within_update:
  "writes_within mem mem' a b \<Longrightarrow> a \<le> p \<Longrightarrow> p < b \<Longrightarrow> writes_within mem (mem'(p := v)) a b"
  by (simp add: writes_within_def)

text \<open>What a stack holds after its context was set up, whatever it held before.\<close>

lemma stack_top_obtain:
  assumes "n \<le> stack_size"
  obtains ctxt where "stack_top stack_base stack_size n = kreturn ctxt" and "ctxt + n = stack_base + stack_size"
    and "stack_base \<le> ctxt"
  using assms by (intro that [of "stack_base + stack_size - n"]) (simp_all add: stack_top_def)

lemmas context_init_run = kbind_def kreturn_def kmodify_def kgets_def store_def Let_def

lemma ppce500_preempt_context_init_frame:
  assumes "CONTEXT_HEADER_SIZE + preempt_frame_size spe msr \<le> stack_size"
  shows "\<exists>ctxt mem'. ppce500_preempt_context_init spe msr fn stack_base stack_size mem = Inr (ctxt, mem') \<and>
    ctxt + preempt_frame_size spe msr + CONTEXT_HEADER_SIZE = stack_base + stack_size \<and>
    writes_within mem mem' stack_base (stack_base + stack_size) \<and>
    mem' (ctxt + CONTEXT_SRR0_IDX) = fn \<and>
    mem' (ctxt + CONTEXT_SRR1_IDX) = msr OR PPCE500_MSR_EE_SET \<and>
    mem' (ctxt + status_slot spe (mem' (ctxt + CONTEXT_SRR1_IDX))) = PREEMPT_RESTORE_DISABLED OR PREEMPT_RESTORE_VOLATILES \<and>
    mem' (ctxt + CONTEXT_BC_IDX) = address_of (ctxt + preempt_frame_size spe msr) \<and>
    mem' (ctxt + preempt_frame_size spe msr) = 0"
proof -
  let ?size = "preempt_frame_size spe msr" and ?slot = "status_slot spe msr"
  let ?status = "PREEMPT_RESTORE_DISABLED OR PREEMPT_RESTORE_VOLATILES"
  have idx: "CONTEXT_BC_IDX = 0" "CONTEXT_SRR0_IDX = 3" "CONTEXT_SRR1_IDX = 4" "CONTEXT_HEADER_SIZE = 2"
    by (simp_all add: frame_sizes)
  have size: "?size = Suc ?slot" by (rule status_slot_last [symmetric])
  have slot: "37 \<le> ?slot" by (simp add: status_slot_def frame_sizes)
  obtain p where p: "stack_top stack_base stack_size (2 + ?size) = kreturn p" "p + (2 + ?size) = stack_base + stack_size"
    "stack_base \<le> p"
    using stack_top_obtain assms unfolding idx by blast
  let ?mem = "mem(p + ?size := 0, p + 3 := fn, p + 4 := msr OR PPCE500_MSR_EE_SET, p + ?slot := ?status,
    p := address_of (p + ?size))"
  have "ppce500_preempt_context_init spe msr fn stack_base stack_size mem = Inr (p, ?mem)"
    using p(1) by (simp add: ppce500_preempt_context_init_def context_init_run status_slot_ee idx)
  moreover have "writes_within mem ?mem stack_base (stack_base + stack_size)"
    using p(2,3) size slot by (intro writes_within_update writes_within_refl) simp_all
  moreover have "?mem (p + 3) = fn" "?mem (p + 4) = msr OR PPCE500_MSR_EE_SET" "?mem (p + ?slot) = ?status"
    "?mem (p + 0) = address_of (p + ?size)" "?mem (p + ?size) = 0"
    using slot size by simp_all
  ultimately show ?thesis
    using p(2) unfolding idx by (intro exI [of _ p] exI [of _ ?mem]) (simp add: status_slot_ee del: fun_upd_apply)
qed

lemma ppce500_context_init_frame:
  assumes "CONTEXT_HEADER_SIZE + ppce500_FRAME_SIZE \<le> stack_size"
  shows "\<exists>ctxt mem'. ppce500_context_init fn stack_base stack_size mem = Inr (ctxt, mem') \<and>
    ctxt + ppce500_FRAME_SIZE + CONTEXT_HEADER_SIZE = stack_base + stack_size \<and>
    writes_within mem mem' stack_base (stack_base + stack_size) \<and>
    mem' (ctxt + CONTEXT_BC_IDX) = address_of (ctxt + ppce500_FRAME_SIZE) \<and>
    mem' (ctxt + ppce500_FRAME_SIZE + CONTEXT_BC_IDX) = 0 \<and> mem' (ctxt + ppce500_FRAME_SIZE + CONTEXT_LR_IDX) = fn"
proof -
  obtain p where p: "stack_top stack_base stack_size (CONTEXT_HEADER_SIZE + ppce500_FRAME_SIZE) = kreturn p"
    "p + (CONTEXT_HEADER_SIZE + ppce500_FRAME_SIZE) = stack_base + stack_size" "stack_base \<le> p"
    using stack_top_obtain assms by blast
  have "writes_within mem (mem(p + 20 := 0, p + 20 + 1 := fn, p := address_of (p + 20))) stack_base (stack_base + stack_size)"
    using p(2,3) by (intro writes_within_update writes_within_refl) (simp_all add: frame_sizes)
  then show ?thesis
    using p by (simp add: ppce500_context_init_def context_init_run frame_sizes)
qed

lemma armv7m_context_init_frame:
  assumes "armv7m_CONTEXT_SIZE \<le> stack_size"
  shows "\<exists>ctxt mem'. armv7m_context_init trampoline fn stack_base stack_size mem = Inr (ctxt, mem') \<and>
    ctxt + armv7m_CONTEXT_SIZE = stack_base + stack_size \<and>
    writes_within mem mem' stack_base (stack_base + stack_size) \<and>
    mem' ctxt = fn \<and> mem' (ctxt + 9) = trampoline"
proof -
  obtain p where p: "stack_top stack_base stack_size armv7m_CONTEXT_SIZE = kreturn p"
    "p + armv7m_CONTEXT_SIZE = stack_base + stack_size" "stack_base \<le> p"
    using stack_top_obtain assms by blast
  have "writes_within mem (mem(p := fn, p + 9 := trampoline)) stack_base (stack_base + stack_size)"
    using p(2,3) by (intro writes_within_update writes_within_refl) (simp_all add: frame_sizes)
  then show ?thesis
    using p by (simp add: armv7m_context_init_def context_init_run frame_sizes)
qed

lemma armv7m_preempt_context_init_frame:
  assumes "CONTEXT_NONFP_SIZE \<le> stack_size"
  shows "\<exists>ctxt mem'. armv7m_preempt_context_init trampoline fn stack_base stack_size mem = Inr (ctxt, mem') \<and>
    ctxt + CONTEXT_NONFP_SIZE = stack_base + stack_size \<and>
    writes_within mem mem' stack_base (stack_base + stack_size) \<and>
    mem' ctxt \<noteq> 0 \<and> mem' (ctxt + 1) = fn \<and> mem' (ctxt + 32) = trampoline \<and>
    bit (mem' (ctxt + 33)) EPSR_THUMB_BIT_OFFSET \<and> mem' (ctxt + 9) = EXC_RETURN_INITIAL_TASK"
proof -
  obtain p where p: "stack_top stack_base stack_size CONTEXT_NONFP_SIZE = kreturn p"
    "p + CONTEXT_NONFP_SIZE = stack_base + stack_size" "stack_base \<le> p"
    using stack_top_obtain assms by blast
  let ?mem = "mem(p + 0 := 1, p + 1 := fn, p + 32 := trampoline, p + 33 := push_bit EPSR_THUMB_BIT_OFFSET 1,
    p + 9 := EXC_RETURN_INITIAL_TASK)"
  have "writes_within mem ?mem stack_base (stack_base + stack_size)"
    using p(2,3) by (intro writes_within_update writes_within_refl) (simp_all add: frame_sizes)
  moreover have "armv7m_preempt_context_init trampoline fn stack_base stack_size mem = Inr (p, ?mem)"
    using p(1) by (simp add: armv7m_preempt_context_init_def context_init_run)
  ultimately show ?thesis
    using p(2) by (intro exI [of _ p] exI [of _ ?mem]) (simp add: EPSR_THUMB_BIT_OFFSET_def bit_push_bit_iff)
qed

text \<open>The priority fields that \<open>preempt_init\<close> sets, for priorities of eight bits; the other bits stay.\<close>

lemma armv7m_preempt_init_fields:
  assumes "unat svcall < 256" and "unat pendsv < 256"
  shows "armv7m_preempt_init svcall pendsv (r2, r3) = (r2', r3') \<Longrightarrow>
    bit r2' i = (if 24 \<le> i then i < 32 \<and> bit svcall (i - 24) else bit r2 i) \<and>
    bit r3' i = (if 16 \<le> i \<and> i < 24 then bit pendsv (i - 16) else bit r3 i)"
proof -
  have m2: "bit SHPR2_SVCALL_PRIO_MASK j \<longleftrightarrow> j < 24" if "j < 32" for j
  proof -
    have "SHPR2_SVCALL_PRIO_MASK = mask 24" by (simp add: SHPR2_SVCALL_PRIO_MASK_def mask_eq_exp_minus_1)
    show ?thesis unfolding \<open>SHPR2_SVCALL_PRIO_MASK = _\<close> using that by (auto simp: bit_mask_iff)
  qed
  have m3: "bit SHPR3_PENDSV_PRIO_MASK j \<longleftrightarrow> j < 16 \<or> 24 \<le> j" if "j < 32" for j
  proof -
    have "SHPR3_PENDSV_PRIO_MASK = NOT (push_bit 16 (mask 8))" by (simp add: SHPR3_PENDSV_PRIO_MASK_def mask_eq_exp_minus_1)
    show ?thesis unfolding \<open>SHPR3_PENDSV_PRIO_MASK = _\<close> using that by (auto simp: bit_not_iff bit_push_bit_iff bit_mask_iff)
  qed
  have small: "\<not> bit v j" if "unat v < 256" "8 \<le> j" for v :: u32 and j
  proof
    assume "bit v j"
    then have "bit (unat v) j" by (simp only: bit_unsigned_iff) (simp add: bit_imp_le_length)
    then have "odd (unat v div 2 ^ j)" by (simp only: bit_iff_odd not_False_eq_True)
    then have "2 ^ j \<le> unat v" by (metis div_less even_zero not_le)
    moreover have "(256 :: nat) \<le> 2 ^ j" using that(2) power_increasing [of 8 j "2 :: nat"] by simp
    ultimately show False using that(1) by simp
  qed
  assume "armv7m_preempt_init svcall pendsv (r2, r3) = (r2', r3')"
  then have r: "r2' = push_bit 24 svcall OR (SHPR2_SVCALL_PRIO_MASK AND r2)"
    "r3' = push_bit 16 pendsv OR (SHPR3_PENDSV_PRIO_MASK AND r3)"
    by (simp_all add: armv7m_preempt_init_def SHPR2_SVCALL_PRIO_OFFSET_def SHPR3_PENDSV_PRIO_OFFSET_def)
  show ?thesis
    unfolding r using small [OF assms(1)] small [OF assms(2)] m2 m3
    by (auto simp: bit_or_iff bit_and_iff bit_push_bit_iff dest: bit_imp_le_length)
qed

text \<open>
  C36: Setting up the context of a task writes only to its stack, on every platform: it returns a frame
  that ends with the stack when the stack has room for it, and otherwise would have to write below the
  stack, which is undefined. The room that each platform needs is given in words, the unit of
  \<open>stack_size\<close>.
\<close>

theorem context_init_within_stack:
  "list_all (\<lambda>(context_init, size).
     if size \<le> stack_size
     then \<exists>context mem'. context_init stack_base stack_size mem = Inr (context, mem') \<and> context + size = stack_base + stack_size \<and>
       writes_within mem mem' stack_base (stack_base + stack_size)
     else context_init stack_base stack_size mem = Inl Out_Of_Bounds)
   [(armv7m_context_init trampoline fn, armv7m_CONTEXT_SIZE),
    (armv7m_preempt_context_init trampoline fn, CONTEXT_NONFP_SIZE),
    (ppce500_context_init fn, CONTEXT_HEADER_SIZE + ppce500_FRAME_SIZE),
    (ppce500_preempt_context_init spe msr fn, CONTEXT_HEADER_SIZE + preempt_frame_size spe msr)]"
proof -
  have small: "armv7m_context_init trampoline fn stack_base stack_size mem = Inl Out_Of_Bounds" if "stack_size < armv7m_CONTEXT_SIZE"
    using that by (simp add: armv7m_context_init_def kop_defs)
  have small_preempt: "armv7m_preempt_context_init trampoline fn stack_base stack_size mem = Inl Out_Of_Bounds"
    if "stack_size < CONTEXT_NONFP_SIZE"
    using that by (simp add: armv7m_preempt_context_init_def kop_defs)
  have small_ppc: "ppce500_context_init fn stack_base stack_size mem = Inl Out_Of_Bounds"
    if "stack_size < CONTEXT_HEADER_SIZE + ppce500_FRAME_SIZE"
    using that by (simp add: ppce500_context_init_def kop_defs)
  have small_ppc_preempt: "ppce500_preempt_context_init spe msr fn stack_base stack_size mem = Inl Out_Of_Bounds"
    if "stack_size < CONTEXT_HEADER_SIZE + preempt_frame_size spe msr"
    using that by (simp add: ppce500_preempt_context_init_def kop_defs)
  show ?thesis
    using armv7m_context_init_frame [of stack_size trampoline fn stack_base mem]
      armv7m_preempt_context_init_frame [of stack_size trampoline fn stack_base mem]
      ppce500_context_init_frame [of stack_size fn stack_base mem]
      ppce500_preempt_context_init_frame [of spe msr stack_size fn stack_base mem]
      small small_preempt small_ppc small_ppc_preempt
    by (auto simp: add.commute add.left_commute not_le)
qed

end
