(* ===== verification/Preempt_PPCe500.thy ===== *)
theory Preempt_PPCe500
  imports Semaphore Context_Frames
begin

text \<open>
  Preemption and context switching on the PowerPC e500 (\<open>components/context-switch-preempt-ppce500\<close>).
  The state has the interrupt-enable flag of the machine, the saved context of every task, and the
  memory words of the stacks. The assembly routines around this code are not modelled: a switch away
  from a task ends a routine at a program point, and the routine continues from there when the task
  is switched to again.
\<close>

section \<open>Model\<close>

record 's ppc_kernel = "'s sem_kernel" +
  k_interrupts_enabled :: bool
  k_contexts :: "nat list"
  k_words :: words

definition interrupts_enable :: "(('s, 'z) ppc_kernel_scheme, unit) kop" where
  "interrupts_enable = kmodify (\<lambda>k. k\<lparr>k_interrupts_enabled := True\<rparr>)"

definition interrupts_disable :: "(('s, 'z) ppc_kernel_scheme, unit) kop" where
  "interrupts_disable = kmodify (\<lambda>k. k\<lparr>k_interrupts_enabled := False\<rparr>)"

definition assert_irqs :: "config \<Rightarrow> bool \<Rightarrow> u8 \<Rightarrow> (('s, 'z) ppc_kernel_scheme, unit) kop" where
  "assert_irqs c enabled error_id =
     kbind (kgets k_interrupts_enabled) (\<lambda>irqs_enabled. internal_assert c (irqs_enabled = enabled) error_id)"

definition precondition_interrupts_disabled :: "config \<Rightarrow> (('s, 'z) ppc_kernel_scheme, unit) kop" where
  "precondition_interrupts_disabled c = assert_irqs c False ERROR_ID_INTERNAL_PRECONDITION_VIOLATED"

definition precondition_interrupts_enabled :: "config \<Rightarrow> (('s, 'z) ppc_kernel_scheme, unit) kop" where
  "precondition_interrupts_enabled c = assert_irqs c True ERROR_ID_INTERNAL_PRECONDITION_VIOLATED"

definition postcondition_interrupts_disabled :: "config \<Rightarrow> (('s, 'z) ppc_kernel_scheme, unit) kop" where
  "postcondition_interrupts_disabled c = assert_irqs c False ERROR_ID_INTERNAL_POSTCONDITION_VIOLATED"

definition postcondition_interrupts_enabled :: "config \<Rightarrow> (('s, 'z) ppc_kernel_scheme, unit) kop" where
  "postcondition_interrupts_enabled c = assert_irqs c True ERROR_ID_INTERNAL_POSTCONDITION_VIOLATED"

definition set_preempt_disabled :: "bool \<Rightarrow> (('s, 'z) ppc_kernel_scheme, unit) kop" where
  "set_preempt_disabled b = kmodify (\<lambda>k. k\<lparr>k_preempt_disabled := b\<rparr>)"

definition postcondition_preemption_enabled :: "config \<Rightarrow> (('s, 'z) ppc_kernel_scheme, unit) kop" where
  "postcondition_preemption_enabled c =
     kbind (kgets k_preempt_disabled) (\<lambda>preempt_disabled.
     internal_assert c (\<not> preempt_disabled) ERROR_ID_INTERNAL_POSTCONDITION_VIOLATED)"

definition postcondition_conditional_preempt_disabled ::
  "config \<Rightarrow> bool \<Rightarrow> bool \<Rightarrow> (('s, 'z) ppc_kernel_scheme, unit) kop"
where
  "postcondition_conditional_preempt_disabled c condition target =
     (if condition
      then kbind (kgets k_preempt_disabled) (\<lambda>preempt_disabled.
             internal_assert c (preempt_disabled = target) ERROR_ID_INTERNAL_POSTCONDITION_VIOLATED)
      else postcondition_preemption_disabled c)"

text \<open>
  The loop runs \<open>interrupt_event_get_next\<close> until no preemption became pending meanwhile. \<open>get_next n\<close>
  is its \<open>n\<close>th run, with the interrupts that arrive during it; how often the loop runs is up to them,
  so it takes fuel.
\<close>

primrec preempt_irq_scheduler_loop ::
  "(nat \<Rightarrow> (('s, 'z) ppc_kernel_scheme, u8) kop) \<Rightarrow> nat \<Rightarrow> nat \<Rightarrow> (('s, 'z) ppc_kernel_scheme, u8) kop"
where
  "preempt_irq_scheduler_loop get_next 0 n = kfail Diverges"
| "preempt_irq_scheduler_loop get_next (Suc fuel) n =
     kbind interrupts_enable (\<lambda>_.
     kbind (get_next n) (\<lambda>next.
     kbind interrupts_disable (\<lambda>_.
     kbind (kgets k_preempt_pending) (\<lambda>preempt_pending.
     if preempt_pending then preempt_irq_scheduler_loop get_next fuel (Suc n) else kreturn next))))"

definition preempt_irq_invoke_scheduler ::
  "config \<Rightarrow> (nat \<Rightarrow> (('s, 'z) ppc_kernel_scheme, u8) kop) \<Rightarrow> nat \<Rightarrow> (('s, 'z) ppc_kernel_scheme, u8) kop"
where
  "preempt_irq_invoke_scheduler c get_next fuel =
     kbind (precondition_preemption_disabled c) (\<lambda>_.
     kbind (preempt_irq_scheduler_loop get_next fuel 0) (\<lambda>next.
     kbind (postcondition_preemption_disabled c) (\<lambda>_.
     kbind (postcondition_interrupts_disabled c) (\<lambda>_.
     kreturn next))))"

text \<open>
  \<open>yield_common\<close> either stops in the system call that switches to another task, which saves whether
  the task is to continue with preemption disabled, or finishes.
\<close>

datatype yield_pc = Yield_Syscall u8 bool

definition yield_common_end :: "config \<Rightarrow> bool \<Rightarrow> (('s, 'z) ppc_kernel_scheme, unit) kop" where
  "yield_common_end c return_with_preempt_disabled =
     kseq [interrupts_enable,
           postcondition_conditional_preempt_disabled c True return_with_preempt_disabled,
           postcondition_interrupts_enabled c]"

definition yield_common ::
  "config \<Rightarrow> (nat \<Rightarrow> (('s, 'z) ppc_kernel_scheme, u8) kop) \<Rightarrow> nat \<Rightarrow> bool \<Rightarrow>
     (('s, 'z) ppc_kernel_scheme, (yield_pc, unit) progress) kop"
where
  "yield_common c get_next fuel return_with_preempt_disabled =
     kbind (precondition_interrupts_enabled c) (\<lambda>_.
     kbind (precondition_preemption_disabled c) (\<lambda>_.
     kbind (get_current_task c) (\<lambda>from.
     kbind (preempt_irq_invoke_scheduler c get_next fuel) (\<lambda>to.
     if from \<noteq> to then kreturn (Suspended (Yield_Syscall to return_with_preempt_disabled))
     else
       kbind (set_preempt_disabled return_with_preempt_disabled) (\<lambda>_.
       co_finish (yield_common_end c return_with_preempt_disabled) ())))))"

definition yield_common_resume ::
  "config \<Rightarrow> yield_pc \<Rightarrow> (('s, 'z) ppc_kernel_scheme, (yield_pc, unit) progress) kop"
where
  "yield_common_resume c pc =
     (case pc of Yield_Syscall to return_with_preempt_disabled \<Rightarrow>
        co_finish (yield_common_end c return_with_preempt_disabled) ())"

definition ppce500_yield ::
  "config \<Rightarrow> (nat \<Rightarrow> (('s, 'z) ppc_kernel_scheme, u8) kop) \<Rightarrow> nat \<Rightarrow>
     (('s, 'z) ppc_kernel_scheme, (yield_pc, unit) progress) kop"
where
  "ppce500_yield c get_next fuel =
     kbind (precondition_preemption_disabled c) (\<lambda>_.
     co_bind (yield_common c get_next fuel True) id (\<lambda>_. co_finish (postcondition_preemption_disabled c) ()))"

definition ppce500_yield_resume ::
  "config \<Rightarrow> yield_pc \<Rightarrow> (('s, 'z) ppc_kernel_scheme, (yield_pc, unit) progress) kop"
where
  "ppce500_yield_resume c pc =
     co_bind (yield_common_resume c pc) id (\<lambda>_. co_finish (postcondition_preemption_disabled c) ())"

definition preempt_enable_end :: "config \<Rightarrow> (('s, 'z) ppc_kernel_scheme, unit) kop" where
  "preempt_enable_end c = kseq [postcondition_preemption_enabled c, postcondition_interrupts_enabled c]"

definition ppce500_preempt_enable ::
  "config \<Rightarrow> (nat \<Rightarrow> (('s, 'z) ppc_kernel_scheme, u8) kop) \<Rightarrow> nat \<Rightarrow>
     (('s, 'z) ppc_kernel_scheme, (yield_pc, unit) progress) kop"
where
  "ppce500_preempt_enable c get_next fuel =
     kbind (precondition_interrupts_enabled c) (\<lambda>_.
     kbind (precondition_preemption_disabled c) (\<lambda>_.
     kbind interrupts_disable (\<lambda>_.
     kbind (kgets k_preempt_pending) (\<lambda>preempt_pending.
     if preempt_pending
     then
       kbind interrupts_enable (\<lambda>_.
       co_bind (yield_common c get_next fuel False) id (\<lambda>_. co_finish (preempt_enable_end c) ()))
     else
       kbind (set_preempt_disabled False) (\<lambda>_.
       kbind interrupts_enable (\<lambda>_.
       co_finish (preempt_enable_end c) ()))))))"

definition ppce500_preempt_enable_resume ::
  "config \<Rightarrow> yield_pc \<Rightarrow> (('s, 'z) ppc_kernel_scheme, (yield_pc, unit) progress) kop"
where
  "ppce500_preempt_enable_resume c pc =
     co_bind (yield_common_resume c pc) id (\<lambda>_. co_finish (preempt_enable_end c) ())"

text \<open>Called by the interrupt entry code, with the task to switch to as the result, if any.\<close>

definition rtos_internal_preempt_irq_scheduler_wrapper ::
  "config \<Rightarrow> (nat \<Rightarrow> (('s, 'z) ppc_kernel_scheme, u8) kop) \<Rightarrow> nat \<Rightarrow> (('s, 'z) ppc_kernel_scheme, u8) kop"
where
  "rtos_internal_preempt_irq_scheduler_wrapper c get_next fuel =
     kbind (precondition_interrupts_disabled c) (\<lambda>_.
     kbind (kgets k_preempt_disabled) (\<lambda>initial_preempt_disabled.
     kbind (kmodify (\<lambda>k. k\<lparr>k_preempt_pending := True\<rparr>)) (\<lambda>_.
     kbind
       (if initial_preempt_disabled then kreturn TASK_ID_NONE
        else
          kbind (set_preempt_disabled True) (\<lambda>_.
          kbind (preempt_irq_invoke_scheduler c get_next fuel) (\<lambda>to.
          kbind (get_current_task c) (\<lambda>current.
          if to = current
          then kbind (set_preempt_disabled initial_preempt_disabled) (\<lambda>_. kreturn TASK_ID_NONE)
          else kreturn to)))) (\<lambda>to.
     kbind (postcondition_conditional_preempt_disabled c (to = TASK_ID_NONE) initial_preempt_disabled) (\<lambda>_.
     kbind (postcondition_interrupts_disabled c) (\<lambda>_.
     kreturn to))))))"

definition write_word :: "nat \<Rightarrow> u32 \<Rightarrow> (('s, 'z) ppc_kernel_scheme, unit) kop" where
  "write_word p v = kmodify (\<lambda>k. k\<lparr>k_words := (k_words k)(p := v)\<rparr>)"

definition read_word :: "nat \<Rightarrow> (('s, 'z) ppc_kernel_scheme, u32) kop" where
  "read_word p = kgets (\<lambda>k. k_words k p)"

text \<open>The second half of a context switch: what it passes to the assembly routine that restores the task.\<close>

definition context_switch_first ::
  "config \<Rightarrow> bool \<Rightarrow> u8 \<Rightarrow> (('s, 'z) ppc_kernel_scheme, bool \<times> nat) kop"
where
  "context_switch_first c spe to =
     kbind (precondition_interrupts_disabled c) (\<lambda>_.
     kbind (precondition_preemption_disabled c) (\<lambda>_.
     kbind (array_read k_contexts to) (\<lambda>ctxt_to.
     kbind (kmodify (\<lambda>k. k\<lparr>k_current_task := to\<rparr>)) (\<lambda>_.
     kbind (read_word (ctxt_to + CONTEXT_SRR1_IDX)) (\<lambda>srr1.
     kbind (read_word (ctxt_to + status_slot spe srr1)) (\<lambda>restore_status.
     kbind (kwhen (restore_status AND PREEMPT_RESTORE_DISABLED = 0) (set_preempt_disabled False)) (\<lambda>_.
     kreturn (restore_status AND PREEMPT_RESTORE_VOLATILES \<noteq> 0, ctxt_to))))))))"

definition preempt_status :: "bool \<Rightarrow> bool \<Rightarrow> u32" where
  "preempt_status restore_preempt_disabled restore_volatiles =
     (if restore_preempt_disabled then PREEMPT_RESTORE_DISABLED else 0) OR
     (if restore_volatiles then PREEMPT_RESTORE_VOLATILES else 0)"

definition rtos_internal_context_switch ::
  "config \<Rightarrow> bool \<Rightarrow> u8 \<Rightarrow> nat \<Rightarrow> bool \<Rightarrow> bool \<Rightarrow> (('s, 'z) ppc_kernel_scheme, bool \<times> nat) kop"
where
  "rtos_internal_context_switch c spe to ctxt restore_preempt_disabled restore_volatiles =
     kbind (precondition_interrupts_disabled c) (\<lambda>_.
     kbind (precondition_preemption_disabled c) (\<lambda>_.
     kbind (get_current_task c) (\<lambda>current.
     kbind (read_word (ctxt + CONTEXT_SRR1_IDX)) (\<lambda>srr1.
     kbind (write_word (ctxt + status_slot spe srr1) (preempt_status restore_preempt_disabled restore_volatiles)) (\<lambda>_.
     kbind (array_modify k_contexts k_contexts_update current (\<lambda>_. ctxt)) (\<lambda>_.
     context_switch_first c spe to))))))"

section \<open>The scheduler invocation\<close>

text \<open>
  One run of \<open>interrupt_event_get_next\<close> on this platform, with what interrupts do during it: \<open>isr\<close>
  while the events are processed, \<open>late\<close> afterwards, and \<open>ticked\<close> when a timer tick arrives. Interrupts
  find preemption disabled, so they leave it pending. A system that stays idle does not return.
\<close>

definition ppce500_scheduler_run ::
  "config \<Rightarrow> (u8 \<Rightarrow> (('s, 'z) ppc_kernel_scheme, unit) kop) \<Rightarrow> ('s, u8) kop \<Rightarrow> (nat \<Rightarrow> u32) \<Rightarrow> u32 \<Rightarrow> bool \<Rightarrow>
     (('s, 'z) ppc_kernel_scheme, unit) kop list \<Rightarrow> (('s, 'z) ppc_kernel_scheme, u8) kop"
where
  "ppce500_scheduler_run c unblock get_next isr late ticked waits =
     kbind (interrupt_event_get_next c
       (ppce500_interrupt_event_process c True (interrupt_event_handle c unblock) isr)
       (timer_tick_process c unblock) (on_sched get_next) waits) (\<lambda>r.
     kbind (isr_raise late) (\<lambda>_.
     kbind (kwhen ticked rtos_timer_tick) (\<lambda>_.
     kbind (kwhen (late \<noteq> 0 \<or> ticked \<or> list_ex (\<lambda>m. isr m \<noteq> 0) [0..<96]) (preempt_pend c)) (\<lambda>_.
     case r of None \<Rightarrow> kfail Diverges | Some next \<Rightarrow> kreturn next))))"

lemma scheduler_loop_step:
  assumes "get_next n (k\<lparr>k_interrupts_enabled := True\<rparr>) = Inr (v, k1)"
  shows "preempt_irq_scheduler_loop get_next (Suc fuel) n k =
    (if k_preempt_pending k1 then preempt_irq_scheduler_loop get_next fuel (Suc n) (k1\<lparr>k_interrupts_enabled := False\<rparr>)
     else Inr (v, k1\<lparr>k_interrupts_enabled := False\<rparr>))"
  using assms by (simp add: kop_defs interrupts_enable_def interrupts_disable_def)

locale ppce500_scheduler = idle_event_control set_runnable set_blocked get_next ready block inv ntasks runnable
    c unblock block_task nevents
  for set_runnable set_blocked get_next ready block
    and inv :: "'s \<Rightarrow> bool" and ntasks runnable and c :: config
    and unblock :: "u8 \<Rightarrow> (('s, 'z) ppc_kernel_scheme, unit) kop"
    and block_task nevents +
  assumes preemption: "preemption_support c"
begin

lemma event_kernel_inv_pending:
  "event_kernel_inv c inv ntasks nevents (k\<lparr>k_preempt_pending := b\<rparr>) = event_kernel_inv c inv ntasks nevents k"
  for k :: "('s, 'z) ppc_kernel_scheme"
  by (simp add: event_kernel_inv_def timer_kernel_inv_def timers_ok_def handlers_ok_def kernel_inv_def
      current_ok_def preempt_ok_def signals_ok_def)

lemma system_ok_flags [simp]:
  "system_ok (k\<lparr>k_preempt_pending := b\<rparr>) = system_ok k"
  "system_ok (k\<lparr>k_interrupts_enabled := b\<rparr>) = system_ok k"
  for k :: "('s, 'z) ppc_kernel_scheme"
  by (simp_all add: system_ok_def event_kernel_inv_def timer_kernel_inv_def timers_ok_def handlers_ok_def kernel_inv_def
      current_ok_def preempt_ok_def signals_ok_def)

lemma process_eq:
  fixes k :: "('s, 'z) ppc_kernel_scheme"
  assumes ok: "system_ok k"
  shows "ppce500_interrupt_event_process c True (interrupt_event_handle c unblock) isr k =
    Inr ((), (events.handled (events_in (k_interrupt_event k)) (k\<lparr>k_preempt_pending := False\<rparr>))
      \<lparr>k_interrupt_event := ppce500_pending isr 0 (events_in (k_interrupt_event k)) (k_interrupt_event k)\<rparr>)"
proof -
  let ?k = "k\<lparr>k_preempt_pending := False\<rparr>"
  have "event_kernel_inv c inv ntasks nevents ?k" "nevents \<le> 256"
    "\<forall>i \<in> set (events_in (k_interrupt_event k)). i < nevents"
    using ok by (simp_all add: system_ok_def event_kernel_inv_pending set_events_in)
  from events.ppce500_process_loop_eq [OF this(1,3,2), of isr 0] show ?thesis
    using preemption
    by (simp add: ppce500_interrupt_event_process_def preempt_clear_def kwhen_def kbind_def kmodify_def kgets_def)
qed

text \<open>
  Processing keeps the system in order and every runnable task runnable; without interrupts no event
  stays pending.
\<close>

lemma process_ok:
  fixes k :: "('s, 'z) ppc_kernel_scheme"
  assumes ok: "system_ok k" and isr: "\<forall>m i. bit (isr m) i \<longrightarrow> i < nevents"
  shows "\<exists>k'. ppce500_interrupt_event_process c True (interrupt_event_handle c unblock) isr k = Inr ((), k') \<and>
    system_ok k' \<and> wakes_only c runnable k k' \<and> keeps_runnable c runnable k k' \<and>
    ((\<forall>m < 96. isr m = 0) \<longrightarrow> k_interrupt_event k' = 0)"
proof -
  let ?is = "events_in (k_interrupt_event k)" and ?k = "k\<lparr>k_preempt_pending := False\<rparr>"
  let ?p = "ppce500_pending isr 0 ?is (k_interrupt_event k)"
  let ?k' = "(events.handled ?is ?k)\<lparr>k_interrupt_event := ?p\<rparr>"
  have inv: "event_kernel_inv c inv ntasks nevents ?k" "nevents \<le> 32" "\<forall>i \<in> set ?is. i < nevents"
    using ok by (simp_all add: system_ok_def event_kernel_inv_pending set_events_in)
  note h = handled_ok [OF inv(1,3,2)]
  have "bit ?p i \<longrightarrow> i < nevents" for i
    using ppce500_pending_bound [of isr 0 ?is "k_interrupt_event k" i] inv(3) isr by (auto simp: set_events_in)
  then have "system_ok ?k'"
    using h ok by (simp add: system_ok_def events.ok_events)
  moreover have "wakes_only c runnable k ?k'"
    using handled_wakes_only [OF inv(1,3,2)] by simp
  moreover from this have "keeps_runnable c runnable k ?k'"
    by (auto simp: wakes_only_def keeps_runnable_def)
  ultimately show ?thesis
    using process_eq [OF ok, of isr] ppce500_pending_all_handled [of isr "k_interrupt_event k"]
    by (intro exI [of _ ?k']) simp
qed

definition wait_ok :: "(('s, 'z) ppc_kernel_scheme, unit) kop \<Rightarrow> bool" where
  "wait_ok w \<longleftrightarrow> (\<forall>k. k_timer_pending_ticks k = 0 \<longrightarrow> k_interrupts_enabled k \<longrightarrow> (\<exists>e n b.
     w k = Inr ((), k\<lparr>k_interrupt_event := k_interrupt_event k OR e, k_timer_pending_ticks := n, k_preempt_pending := b\<rparr>) \<and>
     (\<forall>i. bit e i \<longrightarrow> i < nevents) \<and> n \<le> 1))"

lemma run_ok:
  fixes k :: "('s, 'z) ppc_kernel_scheme"
  assumes ok: "system_ok k" "k_interrupts_enabled k" and isr: "\<forall>m i. bit (isr m) i \<longrightarrow> i < nevents"
    and late: "\<forall>i. bit late i \<longrightarrow> i < nevents" and waits: "\<forall>w \<in> set waits. wait_ok w"
  shows "case ppce500_scheduler_run c unblock get_next isr late ticked waits k of
      Inl e \<Rightarrow> e = Diverges
    | Inr (u, k') \<Rightarrow> system_ok k' \<and> wakes_only c runnable k k' \<and> unat u < tasks_length c \<and> runnable (k_sched k') u \<and>
        (\<exists>s. inv s \<and> get_next s = Inr (u, k_sched k')) \<and>
        (\<not> k_preempt_pending k' \<longrightarrow> k_interrupt_event k' = 0 \<and> k_timer_pending_ticks k' = 0)"
proof -
  let ?pre = "\<lambda>k' :: ('s, 'z) ppc_kernel_scheme. system_ok k' \<and> wakes_only c runnable k k' \<and> k_interrupts_enabled k'"
  let ?mid = "\<lambda>k'. ?pre k' \<and> ((\<forall>m < 96. isr m = 0) \<longrightarrow> k_interrupt_event k' = 0)"
  let ?ok = "\<lambda>k'. ?mid k' \<and> k_timer_pending_ticks k' = 0"
  let ?process = "ppce500_interrupt_event_process c True (interrupt_event_handle c unblock) isr"
  have enabled: "k_interrupts_enabled k2" if "wakes_only c runnable k1 k2" "k_interrupts_enabled k1"
    for k1 k2 :: "('s, 'z) ppc_kernel_scheme"
    using that by (cases k1; cases k2) (simp add: wakes_only_def)
  obtain r k1 where k1: "interrupt_event_get_next c ?process (timer_tick_process c unblock) (on_sched get_next) waits k = Inr (r, k1)"
    "?ok k1" "case r of
      Some u \<Rightarrow> unat u < tasks_length c \<and> runnable (k_sched k1) u \<and> \<not> k_system_is_idle k1 \<and>
        (\<exists>s. inv s \<and> get_next s = Inr (u, k_sched k1))
    | None \<Rightarrow> (\<forall>t. unat t < tasks_length c \<longrightarrow> \<not> runnable (k_sched k1) t) \<and> k_system_is_idle k1"
  proof -
    have "\<exists>r k'. interrupt_event_get_next c ?process (timer_tick_process c unblock) (on_sched get_next) waits k = Inr (r, k') \<and>
      ?ok k' \<and> (case r of
        Some u \<Rightarrow> unat u < tasks_length c \<and> runnable (k_sched k') u \<and> \<not> k_system_is_idle k' \<and>
          (\<exists>s. inv s \<and> get_next s = Inr (u, k_sched k'))
      | None \<Rightarrow> (\<forall>t. unat t < tasks_length c \<longrightarrow> \<not> runnable (k_sched k') t) \<and> k_system_is_idle k')"
    proof (rule event_loop [where pre = ?pre and mid = ?mid])
      fix k1 assume "?pre k1"
      then show "\<exists>k'. ?process k1 = Inr ((), k') \<and> ?mid k'"
        using process_ok [OF _ isr, of k1] wakes_only_trans enabled by blast
    next
      fix k1 assume "?mid k1"
      then show "\<exists>k'. timer_tick_process c unblock k1 = Inr ((), k') \<and> ?ok k'"
        using tick_wakes_only [of k1] wakes_only_trans enabled tick_keeps_runnable(3) [of k1] by metis
    next
      fix w k1 assume w: "w \<in> set waits" and k1: "?ok k1"
      then obtain e n b where w': "w k1 = Inr ((), k1\<lparr>k_interrupt_event := k_interrupt_event k1 OR e, k_timer_pending_ticks := n, k_preempt_pending := b\<rparr>)"
        "\<forall>i. bit e i \<longrightarrow> i < nevents" "n \<le> 1"
        using waits unfolding wait_ok_def by blast
      then have "system_ok (k1\<lparr>k_interrupt_event := k_interrupt_event k1 OR e, k_timer_pending_ticks := n\<rparr>)"
        using k1 by (auto simp: system_ok_def event_kernel_inv_def timer_kernel_inv_def timers_ok_def handlers_ok_def bit_or_iff)
      then show "\<exists>k'. w k1 = Inr ((), k') \<and> ?pre k'" using k1 w'(1) by simp
    next
      fix k1 s assume "?ok k1" "inv s" "ntasks s = ntasks (k_sched k1)" "runnable s = runnable (k_sched k1)"
      then show "?ok (k1\<lparr>k_sched := s\<rparr>)" by (simp add: system_ok_sched) (simp add: wakes_only_def)
    qed (simp_all add: ok system_ok_kernel_inv system_ok_idle)
    then show ?thesis using that by blast
  qed
  let ?k2 = "k1\<lparr>k_interrupt_event := k_interrupt_event k1 OR late\<rparr>"
  let ?k3 = "if ticked then ?k2\<lparr>k_timer_pending_ticks := 1\<rparr> else ?k2"
  let ?arrived = "late \<noteq> 0 \<or> ticked \<or> list_ex (\<lambda>m. isr m \<noteq> 0) [0..<96]"
  let ?k' = "if ?arrived then pend c ?k3 else ?k3"
  have ok2: "system_ok ?k2"
    using k1(2) late by (auto simp: system_ok_def events.ok_events bit_or_iff)
  then have ok3: "system_ok ?k3"
    by (simp add: system_ok_def event_kernel_inv_def timer_kernel_inv_def timers_ok_def handlers_ok_def)
  have run: "ppce500_scheduler_run c unblock get_next isr late ticked waits k =
      (case r of None \<Rightarrow> Inl Diverges | Some u \<Rightarrow> Inr (u, ?k'))"
    using k1(1,2) by (cases r; cases ticked; cases ?arrived;
      simp add: ppce500_scheduler_run_def kop_defs isr_raise_def rtos_timer_tick_def armv7m_timer_tick_def)+
  obtain k' where k': "k' = ?k'" by blast
  have "system_ok k'" using ok3 by (auto simp: pend_def k')
  moreover have "wakes_only c runnable k k'" using k1(2) by (auto simp: pend_def k')
  moreover have "k_interrupt_event k' = 0 \<and> k_timer_pending_ticks k' = 0" if "\<not> k_preempt_pending k'"
    using that k1(2) preemption by (auto simp: pend_def k' list_ex_iff split: if_splits)
  moreover have "k_sched k' = k_sched k1" by (simp add: k')
  ultimately show ?thesis using k1(3) unfolding run k' [symmetric] by (cases r) auto
qed

text \<open>
  When the invocation returns, no preemption is pending, and neither is any event or tick: every
  interrupt up to then has had its effect on the scheduler, and a runnable task was picked.
\<close>

lemma wakes_only_flags:
  "wakes_only c runnable k k' \<Longrightarrow> wakes_only c runnable (k\<lparr>k_interrupts_enabled := b\<rparr>) (k'\<lparr>k_interrupts_enabled := b\<rparr>)"
  for k k' :: "('s, 'z) ppc_kernel_scheme"
  by (cases k; cases k') (simp add: wakes_only_def pending_of_def)

lemma scheduler_loop_cases:
  fixes k :: "('s, 'z) ppc_kernel_scheme"
  assumes isr: "\<forall>n m i. bit (isr n m) i \<longrightarrow> i < nevents" and late: "\<forall>n i. bit (late n) i \<longrightarrow> i < nevents"
    and waits: "\<forall>n. \<forall>w \<in> set (waits n). wait_ok w"
  shows "system_ok k \<Longrightarrow>
    case preempt_irq_scheduler_loop (\<lambda>n. ppce500_scheduler_run c unblock get_next (isr n) (late n) (ticked n) (waits n)) fuel n k of
      Inl e \<Rightarrow> e = Diverges
    | Inr (u, k') \<Rightarrow> system_ok k' \<and> wakes_only c runnable (k\<lparr>k_interrupts_enabled := False\<rparr>) k' \<and>
        unat u < tasks_length c \<and> runnable (k_sched k') u \<and> (\<exists>s. inv s \<and> get_next s = Inr (u, k_sched k')) \<and>
        \<not> k_preempt_pending k' \<and> \<not> k_interrupts_enabled k' \<and> k_interrupt_event k' = 0 \<and> k_timer_pending_ticks k' = 0"
proof (induction fuel arbitrary: n k)
  case (Suc fuel)
  let ?run = "\<lambda>n. ppce500_scheduler_run c unblock get_next (isr n) (late n) (ticked n) (waits n)"
  let ?k = "k\<lparr>k_interrupts_enabled := True\<rparr>"
  have run: "case ?run n ?k of Inl e \<Rightarrow> e = Diverges
    | Inr (u, k') \<Rightarrow> system_ok k' \<and> wakes_only c runnable ?k k' \<and> unat u < tasks_length c \<and> runnable (k_sched k') u \<and>
        (\<exists>s. inv s \<and> get_next s = Inr (u, k_sched k')) \<and>
        (\<not> k_preempt_pending k' \<longrightarrow> k_interrupt_event k' = 0 \<and> k_timer_pending_ticks k' = 0)"
    by (rule run_ok) (use Suc.prems isr late waits in simp_all)
  show ?case
  proof (cases "?run n ?k")
    case (Inl e)
    then show ?thesis using run by (simp add: kop_defs interrupts_enable_def)
  next
    case (Inr vk)
    obtain v k1 where v: "?run n ?k = Inr (v, k1)" using Inr by (cases vk) simp
    let ?k1 = "k1\<lparr>k_interrupts_enabled := False\<rparr>"
    have w: "wakes_only c runnable (k\<lparr>k_interrupts_enabled := False\<rparr>) ?k1"
      using run v wakes_only_flags [of ?k k1 False] by simp
    note step = scheduler_loop_step [where get_next = ?run, OF v, of fuel]
    show ?thesis
    proof (cases "k_preempt_pending k1")
      case True
      have "system_ok ?k1" using run v by simp
      from Suc.IH [OF this, of "Suc n"] show ?thesis
        unfolding step using True by (auto split: sum.splits intro: wakes_only_trans [OF w])
    next
      case False
      then show ?thesis unfolding step using run v w by simp
    qed
  qed
qed (simp add: kop_defs)

lemma scheduler_loop_safe:
  fixes k :: "('s, 'z) ppc_kernel_scheme"
  assumes "\<forall>n m i. bit (isr n m) i \<longrightarrow> i < nevents" and "\<forall>n i. bit (late n) i \<longrightarrow> i < nevents"
    and "\<forall>n. \<forall>w \<in> set (waits n). wait_ok w" and "system_ok k"
    and "preempt_irq_scheduler_loop (\<lambda>n. ppce500_scheduler_run c unblock get_next (isr n) (late n) (ticked n) (waits n)) fuel n k =
      Inr (u, k')"
  shows "system_ok k' \<and> unat u < tasks_length c \<and> runnable (k_sched k') u \<and> \<not> k_preempt_pending k' \<and>
    \<not> k_interrupts_enabled k' \<and> k_interrupt_event k' = 0 \<and> k_timer_pending_ticks k' = 0"
  using scheduler_loop_cases [OF assms(1-4), of ticked fuel n] assms(5) by simp

lemma get_next_picks:
  assumes "process k = Inr ((), k1)" and "tick_process k1 = Inr ((), k2)" and "on_sched get_next k2 = Inr (u, k3)"
    and "u \<noteq> TASK_ID_NONE" and "unat u < tasks_length c"
  shows "interrupt_event_get_next c process tick_process (on_sched get_next) waits k =
    Inr (Some u, k3\<lparr>k_system_is_idle := False\<rparr>)"
  using assms by (cases waits) (simp_all add: kop_defs set_idle_def)

text \<open>A run returns when some task is runnable, and that task stays runnable, whatever interrupts do.\<close>

lemma run_returns:
  fixes k :: "('s, 'z) ppc_kernel_scheme"
  assumes ok: "system_ok k" "k_interrupts_enabled k" and isr: "\<forall>m i. bit (isr m) i \<longrightarrow> i < nevents" and late: "\<forall>i. bit late i \<longrightarrow> i < nevents"
    and t: "unat t < tasks_length c" "runnable (k_sched k) t"
  shows "\<exists>u k'. ppce500_scheduler_run c unblock get_next isr late ticked waits k = Inr (u, k') \<and> system_ok k' \<and>
    runnable (k_sched k') t"
proof -
  let ?process = "ppce500_interrupt_event_process c True (interrupt_event_handle c unblock) isr"
  obtain k1 where k1: "?process k = Inr ((), k1)" "system_ok k1" "keeps_runnable c runnable k k1"
    using process_ok [OF ok(1) isr] by blast
  obtain k2 where k2: "timer_tick_process c unblock k1 = Inr ((), k2)" "system_ok k2"
    using system_ok_tick [OF k1(2)] by blast
  have t2: "runnable (k_sched k2) t"
    using t k1(3) tick_keeps_runnable(1) [OF k1(2) k2(1)] by (simp add: keeps_runnable_def)
  have inv2: "inv (k_sched k2)" "ntasks (k_sched k2) = tasks_length c"
    using system_ok_kernel_inv [OF k2(2)] by (simp_all add: kernel_inv_def)
  obtain u s where s: "on_sched get_next k2 = Inr (u, k2\<lparr>k_sched := s\<rparr>)" "runnable s = runnable (k_sched k2)"
    "if u = TASK_ID_NONE then \<forall>t. unat t < ntasks (k_sched k2) \<longrightarrow> \<not> runnable (k_sched k2) t
     else unat u < ntasks (k_sched k2) \<and> runnable (k_sched k2) u"
    using on_sched_get_next [OF inv2(1)] by auto
  have u: "u \<noteq> TASK_ID_NONE" "unat u < tasks_length c" using s(3) t(1) t2 inv2(2) by (auto split: if_splits)
  have "\<exists>k'. runnable (k_sched k') t \<and> (\<forall>waits. ppce500_scheduler_run c unblock get_next isr late ticked waits k = Inr (u, k'))"
    using get_next_picks [where process = ?process and k = k and ?k1.0 = k1
      and tick_process = "timer_tick_process c unblock" and ?k2.0 = k2 and ?k3.0 = "k2\<lparr>k_sched := s\<rparr>",
      OF k1(1) k2(1) s(1) u] t2 s(2)
    by (cases ticked; cases "late \<noteq> 0 \<or> list_ex (\<lambda>m. isr m \<noteq> 0) [0..<96]")
       (simp_all add: ppce500_scheduler_run_def kop_defs isr_raise_def rtos_timer_tick_def preempt_pend_def)
  then obtain k' where k': "runnable (k_sched k') t"
    "\<And>waits. ppce500_scheduler_run c unblock get_next isr late ticked waits k = Inr (u, k')" by blast
  then show ?thesis using run_ok [OF ok isr late, of "[]" ticked] by auto
qed

text \<open>Without interrupts, two runs are enough: the second finds nothing to process.\<close>

lemma run_quiet:
  fixes k :: "('s, 'z) ppc_kernel_scheme"
  assumes ok: "system_ok k" and t: "unat t < tasks_length c" "runnable (k_sched k) t"
  shows "\<exists>u k'. ppce500_scheduler_run c unblock get_next (\<lambda>_. 0) 0 False waits k = Inr (u, k') \<and> system_ok k' \<and>
    runnable (k_sched k') t \<and> k_interrupt_event k' = 0 \<and> k_timer_pending_ticks k' = 0 \<and>
    (k_interrupt_event k = 0 \<and> k_timer_pending_ticks k = 0 \<longrightarrow> \<not> k_preempt_pending k')"
proof -
  let ?process = "ppce500_interrupt_event_process c True (interrupt_event_handle c unblock) (\<lambda>_. 0)"
  obtain k1 where k1: "?process k = Inr ((), k1)" "system_ok k1" "keeps_runnable c runnable k k1" "k_interrupt_event k1 = 0"
    using process_ok [OF ok, of "\<lambda>_. 0"] by auto
  obtain k2 where k2: "timer_tick_process c unblock k1 = Inr ((), k2)" "system_ok k2"
    using system_ok_tick [OF k1(2)] by blast
  note tick = tick_keeps_runnable [OF k1(2) k2(1)]
  have t2: "runnable (k_sched k2) t" using t k1(3) tick(1) by (simp add: keeps_runnable_def)
  have inv2: "inv (k_sched k2)" "ntasks (k_sched k2) = tasks_length c"
    using system_ok_kernel_inv [OF k2(2)] by (simp_all add: kernel_inv_def)
  obtain u s where s: "on_sched get_next k2 = Inr (u, k2\<lparr>k_sched := s\<rparr>)" "inv s" "ntasks s = ntasks (k_sched k2)"
    "runnable s = runnable (k_sched k2)"
    "if u = TASK_ID_NONE then \<forall>t. unat t < ntasks (k_sched k2) \<longrightarrow> \<not> runnable (k_sched k2) t
     else unat u < ntasks (k_sched k2) \<and> runnable (k_sched k2) u"
    using on_sched_get_next [OF inv2(1)] by auto
  have u: "u \<noteq> TASK_ID_NONE" "unat u < tasks_length c" using s(5) t(1) t2 inv2(2) by (auto split: if_splits)
  let ?k' = "k2\<lparr>k_sched := s, k_system_is_idle := False\<rparr>"
  have run: "ppce500_scheduler_run c unblock get_next (\<lambda>_. 0) 0 False waits k = Inr (u, ?k')"
    using get_next_picks [where process = ?process and waits = waits and k = k and ?k1.0 = k1
      and tick_process = "timer_tick_process c unblock" and ?k2.0 = k2 and ?k3.0 = "k2\<lparr>k_sched := s\<rparr>",
      OF k1(1) k2(1) s(1) u]
    by (simp add: ppce500_scheduler_run_def kop_defs isr_raise_def list_ex_iff)
  have "system_ok ?k'" using system_ok_idle [OF system_ok_sched [OF k2(2) s(2,3)], of False] by simp
  moreover have "\<not> k_preempt_pending ?k'" if "k_interrupt_event k = 0" "k_timer_pending_ticks k = 0"
  proof -
    have "k1 = k\<lparr>k_preempt_pending := False, k_interrupt_event := 0\<rparr>"
      using k1(1) process_eq [OF ok, of "\<lambda>_. 0"] that(1) by simp
    moreover have "k2 = k1"
      using timer_tick_none [of k1] k2(1) that(2) k1(2) \<open>k1 = _\<close> by (simp add: system_ok_def event_kernel_inv_def)
    ultimately show ?thesis by simp
  qed
  ultimately show ?thesis using run t2 s(4) k1(4) tick(2,3) by auto
qed

text \<open>So the loop returns within two runs after the last one that an interrupt interferes with.\<close>

lemma scheduler_loop_returns:
  fixes k :: "('s, 'z) ppc_kernel_scheme"
  assumes isr: "\<forall>n m i. bit (isr n m) i \<longrightarrow> i < nevents" and late: "\<forall>n i. bit (late n) i \<longrightarrow> i < nevents"
    and quiet: "\<forall>n \<ge> N. isr n = (\<lambda>_. 0) \<and> late n = 0 \<and> \<not> ticked n" and t: "unat t < tasks_length c"
  shows "system_ok k \<Longrightarrow> runnable (k_sched k) t \<Longrightarrow> \<exists>u k'. preempt_irq_scheduler_loop
    (\<lambda>n. ppce500_scheduler_run c unblock get_next (isr n) (late n) (ticked n) (waits n)) (Suc (Suc (N - n))) n k = Inr (u, k')"
proof (induction "N - n" arbitrary: n k)
  case 0
  let ?run = "\<lambda>n. ppce500_scheduler_run c unblock get_next (isr n) (late n) (ticked n) (waits n)"
  let ?k = "k\<lparr>k_interrupts_enabled := True\<rparr>"
  have q: "?run m = ppce500_scheduler_run c unblock get_next (\<lambda>_. 0) 0 False (waits m)" if "n \<le> m" for m
    using quiet 0(1) that by simp
  obtain v k1 where k1: "?run n ?k = Inr (v, k1)" "system_ok k1" "runnable (k_sched k1) t"
    "k_interrupt_event k1 = 0" "k_timer_pending_ticks k1 = 0"
    using run_quiet [of ?k t "waits n"] 0 t q [of n] by auto
  obtain w k2 where k2: "?run (Suc n) (k1\<lparr>k_interrupts_enabled := True\<rparr>) = Inr (w, k2)" "\<not> k_preempt_pending k2"
    using run_quiet [of "k1\<lparr>k_interrupts_enabled := True\<rparr>" t "waits (Suc n)"] k1 t q [of "Suc n"] by auto
  show ?case
    using k1(1) k2 0(1) by (cases "k_preempt_pending k1") (simp_all add: kop_defs interrupts_enable_def interrupts_disable_def)
next
  case (Suc d)
  let ?run = "\<lambda>n. ppce500_scheduler_run c unblock get_next (isr n) (late n) (ticked n) (waits n)"
  have n: "d = N - Suc n" "Suc (Suc (N - Suc n)) = Suc (N - n)" using Suc.hyps(2) by simp_all
  have "system_ok (k\<lparr>k_interrupts_enabled := True\<rparr>)" "k_interrupts_enabled (k\<lparr>k_interrupts_enabled := True\<rparr>)"
    "runnable (k_sched (k\<lparr>k_interrupts_enabled := True\<rparr>)) t"
    using Suc.prems by simp_all
  from run_returns [OF this(1,2) _ _ t this(3)] obtain v k1 where k1: "?run n (k\<lparr>k_interrupts_enabled := True\<rparr>) = Inr (v, k1)"
    "system_ok k1" "runnable (k_sched k1) t"
    using isr late by blast
  let ?k1 = "k1\<lparr>k_interrupts_enabled := False\<rparr>"
  obtain u k2 where "preempt_irq_scheduler_loop ?run (Suc (N - n)) (Suc n) ?k1 = Inr (u, k2)"
    using Suc.hyps(1) [OF n(1), of ?k1] k1 n(2) by auto
  then show ?case using scheduler_loop_step [where get_next = ?run, OF k1(1), of "Suc (N - n)"] by auto
qed

end

section \<open>Enabling preemption, and preemption by interrupts\<close>

text \<open>The state in which tasks run kernel code, and in which interrupt entry code does.\<close>

definition irq_ok :: "config \<Rightarrow> ('s, 'z) ppc_kernel_scheme \<Rightarrow> bool" where
  "irq_ok c k \<longleftrightarrow> k_preempt_disabled k \<and> current_ok c k \<and> \<not> k_interrupts_enabled k"

lemmas irq_defs =
  assert_irqs_def precondition_interrupts_disabled_def precondition_interrupts_enabled_def
  postcondition_interrupts_disabled_def postcondition_interrupts_enabled_def interrupts_enable_def
  interrupts_disable_def set_preempt_disabled_def postcondition_preemption_enabled_def
  postcondition_conditional_preempt_disabled_def

lemma current_ok_flags [simp]:
  "current_ok c (k\<lparr>k_preempt_pending := p\<rparr>) = current_ok c k"
  "current_ok c (k\<lparr>k_preempt_disabled := d\<rparr>) = current_ok c k"
  "current_ok c ((k' :: ('s, 'z) ppc_kernel_scheme)\<lparr>k_interrupts_enabled := b\<rparr>) = current_ok c k'"
  by (simp_all add: current_ok_def)

lemma interrupts_same:
  "k_interrupts_enabled k \<Longrightarrow> k\<lparr>k_interrupts_enabled := True\<rparr> = k"
  "k_interrupts_enabled k \<Longrightarrow> k\<lparr>k_preempt_disabled := d, k_interrupts_enabled := True\<rparr> = k\<lparr>k_preempt_disabled := d\<rparr>"
  by (cases k; simp)+

lemma preempt_ok_disabled: "k_preempt_disabled k \<Longrightarrow> preempt_ok c k"
  by (simp add: preempt_ok_def)

lemma invoke_scheduler_run:
  assumes "k_preempt_disabled k" and "preempt_irq_scheduler_loop get_next fuel 0 k = Inr (to, k')" and "irq_ok c k'"
  shows "preempt_irq_invoke_scheduler c get_next fuel k = Inr (to, k')"
  using assms by (simp add: preempt_irq_invoke_scheduler_def kbind_def kreturn_def kgets_def preempt_ok_disabled irq_ok_def irq_defs)

lemma yield_common_run:
  assumes "k_preempt_disabled k" and "k_interrupts_enabled k" and "current_ok c k"
    and "preempt_irq_scheduler_loop get_next fuel 0 k = Inr (to, k')" and "irq_ok c k'"
  shows "yield_common c get_next fuel d k =
    (if k_current_task k \<noteq> to then Inr (Suspended (Yield_Syscall to d), k')
     else Inr (Finished (), k'\<lparr>k_preempt_disabled := d, k_interrupts_enabled := True\<rparr>))"
  using assms invoke_scheduler_run [OF assms(1,4,5)]
  by (simp add: yield_common_def yield_common_end_def kbind_def kreturn_def kgets_def kmodify_def co_finish_def
      preempt_ok_disabled irq_defs)

text \<open>
  Enabling preemption while none is pending is the flag change that theory \<open>Kernel\<close> has for it; a
  pending one runs the scheduler.
\<close>

lemma ppce500_preempt_enable_none:
  assumes "k_interrupts_enabled k" and "k_preempt_disabled k" and "\<not> k_preempt_pending k"
  shows "ppce500_preempt_enable c get_next fuel k = Inr (Finished (), k\<lparr>k_preempt_disabled := False\<rparr>)"
    and "preempt_enable (preemptive c) k = Inr ((), k\<lparr>k_preempt_disabled := False\<rparr>)"
proof -
  show "ppce500_preempt_enable c get_next fuel k = Inr (Finished (), k\<lparr>k_preempt_disabled := False\<rparr>)"
    using assms by (simp add: ppce500_preempt_enable_def preempt_enable_end_def kbind_def kreturn_def kgets_def
        kmodify_def co_finish_def preempt_ok_disabled irq_defs interrupts_same)
  show "preempt_enable (preemptive c) k = Inr ((), k\<lparr>k_preempt_disabled := False\<rparr>)"
    using assms(2) by (simp add: preempt_ok_disabled leave_def)
qed

lemma ppce500_preempt_enable_pending:
  assumes "k_interrupts_enabled k" and "k_preempt_disabled k" and "k_preempt_pending k" and "current_ok c k"
    and "preempt_irq_scheduler_loop get_next fuel 0 k = Inr (to, k')" and "irq_ok c k'"
  shows "ppce500_preempt_enable c get_next fuel k =
    (if k_current_task k \<noteq> to then Inr (Suspended (Yield_Syscall to False), k')
     else Inr (Finished (), k'\<lparr>k_preempt_disabled := False, k_interrupts_enabled := True\<rparr>))"
  using assms yield_common_run [OF assms(2,1,4,5,6), of False]
  by (simp add: ppce500_preempt_enable_def preempt_enable_end_def kbind_def kreturn_def kgets_def
      kmodify_def co_finish_def co_bind_def preempt_ok_disabled irq_defs interrupts_same)

lemma ppce500_yield_run:
  assumes "k_preempt_disabled k" and "k_interrupts_enabled k" and "current_ok c k"
    and "preempt_irq_scheduler_loop get_next fuel 0 k = Inr (to, k')" and "irq_ok c k'"
  shows "ppce500_yield c get_next fuel k =
    (if k_current_task k \<noteq> to then Inr (Suspended (Yield_Syscall to True), k')
     else Inr (Finished (), k'\<lparr>k_preempt_disabled := True, k_interrupts_enabled := True\<rparr>))"
  using assms(1) yield_common_run [OF assms, of True]
  by (simp add: ppce500_yield_def kbind_def kreturn_def co_finish_def co_bind_def preempt_ok_def)

text \<open>The scheduler invocation is the only part that may not return.\<close>

lemma yield_common_fails:
  assumes "k_preempt_disabled k" and "k_interrupts_enabled k" and "current_ok c k"
    and "preempt_irq_scheduler_loop get_next fuel 0 k = Inl e"
  shows "yield_common c get_next fuel d k = Inl e"
  using assms by (simp add: yield_common_def preempt_irq_invoke_scheduler_def kbind_def kreturn_def kgets_def preempt_ok_disabled irq_defs)

lemma scheduler_fails:
  assumes "k_preempt_disabled k" and "k_interrupts_enabled k" and "current_ok c k"
    and "preempt_irq_scheduler_loop get_next fuel 0 k = Inl e"
  shows "ppce500_yield c get_next fuel k = Inl e"
    and "k_preempt_pending k \<Longrightarrow> ppce500_preempt_enable c get_next fuel k = Inl e"
  using assms(1,2) yield_common_fails [OF assms]
  by (simp_all add: ppce500_yield_def ppce500_preempt_enable_def kbind_def kreturn_def kgets_def kmodify_def co_bind_def
      preempt_ok_disabled irq_defs interrupts_same)

lemma irq_wrapper_fails:
  assumes "\<not> k_interrupts_enabled k" and "\<not> k_preempt_disabled k"
    and "preempt_irq_scheduler_loop get_next fuel 0 (k\<lparr>k_preempt_pending := True, k_preempt_disabled := True\<rparr>) = Inl e"
  shows "rtos_internal_preempt_irq_scheduler_wrapper c get_next fuel k = Inl e"
proof -
  have "k\<lparr>k_preempt_pending := True, k_preempt_disabled := True\<rparr> = k\<lparr>k_preempt_disabled := True, k_preempt_pending := True\<rparr>" by simp
  then show ?thesis
    using assms by (simp add: rtos_internal_preempt_irq_scheduler_wrapper_def preempt_irq_invoke_scheduler_def kbind_def kreturn_def
        kgets_def kmodify_def irq_defs preempt_ok_disabled)
qed

text \<open>Continuing after the switch back, with the preemption flag as \<open>context_switch_first\<close> restores it.\<close>

lemma yield_common_resumed:
  assumes "k_preempt_disabled k = d"
  shows "yield_common_resume c (Yield_Syscall to d) k = Inr (Finished (), k\<lparr>k_interrupts_enabled := True\<rparr>)"
  using assms by (simp add: yield_common_resume_def yield_common_end_def kbind_def kreturn_def kgets_def kmodify_def
      co_finish_def irq_defs)

lemma irq_wrapper_disabled:
  assumes "\<not> k_interrupts_enabled k" and "k_preempt_disabled k"
  shows "rtos_internal_preempt_irq_scheduler_wrapper c get_next fuel k = Inr (TASK_ID_NONE, k\<lparr>k_preempt_pending := True\<rparr>)"
  using assms by (simp add: rtos_internal_preempt_irq_scheduler_wrapper_def kbind_def kreturn_def kgets_def kmodify_def irq_defs)

lemma irq_wrapper_enabled:
  assumes "\<not> k_interrupts_enabled k" and "\<not> k_preempt_disabled k"
    and loop: "preempt_irq_scheduler_loop get_next fuel 0 (k\<lparr>k_preempt_pending := True, k_preempt_disabled := True\<rparr>) = Inr (to, k')"
    and "irq_ok c k'" and "unat to < tasks_length c" and "tasks_length c \<le> 255"
  shows "rtos_internal_preempt_irq_scheduler_wrapper c get_next fuel k =
    (if to = k_current_task k' then Inr (TASK_ID_NONE, k'\<lparr>k_preempt_disabled := False\<rparr>) else Inr (to, k'))"
proof -
  have "to \<noteq> TASK_ID_NONE" using assms(5,6) by (auto simp: TASK_ID_NONE_def)
  moreover have "k\<lparr>k_preempt_pending := True, k_preempt_disabled := True\<rparr> = k\<lparr>k_preempt_disabled := True, k_preempt_pending := True\<rparr>" by simp
  ultimately show ?thesis
    using assms invoke_scheduler_run [OF _ loop assms(4)]
    by (auto simp: rtos_internal_preempt_irq_scheduler_wrapper_def kbind_def kreturn_def kgets_def kmodify_def irq_defs
        irq_ok_def preempt_ok_disabled)
qed

section \<open>Saving and restoring\<close>

lemma preempt_status_bits:
  "preempt_status d v AND PREEMPT_RESTORE_DISABLED = 0 \<longleftrightarrow> \<not> d"
  "preempt_status d v AND PREEMPT_RESTORE_VOLATILES = 0 \<longleftrightarrow> \<not> v"
  by (cases d; cases v; simp add: preempt_status_def PREEMPT_RESTORE_DISABLED_def PREEMPT_RESTORE_VOLATILES_def)+

lemma status_slot_srr1 [simp]: "CONTEXT_SRR1_IDX \<noteq> status_slot spe msr"
  by (simp add: status_slot_def CONTEXT_SRR1_IDX_def CONTEXT_SPE_PREEMPT_RESTORE_STATUS_def CONTEXT_PREEMPT_RESTORE_STATUS_def)

definition saved_status :: "bool \<Rightarrow> words \<Rightarrow> nat \<Rightarrow> u32" where
  "saved_status spe words ctxt = words (ctxt + status_slot spe (words (ctxt + CONTEXT_SRR1_IDX)))"

lemma context_switch_first_eq:
  assumes "\<not> k_interrupts_enabled k" and "k_preempt_disabled k" and "unat to < length (k_contexts k)"
  shows "context_switch_first c spe to k =
    (let ctxt = k_contexts k ! unat to; status = saved_status spe (k_words k) ctxt
     in Inr ((status AND PREEMPT_RESTORE_VOLATILES \<noteq> 0, ctxt),
          k\<lparr>k_current_task := to, k_preempt_disabled := (status AND PREEMPT_RESTORE_DISABLED \<noteq> 0)\<rparr>))"
proof -
  have "k\<lparr>k_current_task := to, k_preempt_disabled := True\<rparr> = k\<lparr>k_current_task := to\<rparr>"
    using assms(2) by (cases k) simp
  then show ?thesis
    using assms by (simp add: context_switch_first_def saved_status_def read_word_def kbind_def kreturn_def kgets_def
        kmodify_def kwhen_def array_read_def irq_defs preempt_ok_disabled Let_def)
qed

definition saved :: "bool \<Rightarrow> nat \<Rightarrow> bool \<Rightarrow> bool \<Rightarrow> ('s, 'z) ppc_kernel_scheme \<Rightarrow> ('s, 'z) ppc_kernel_scheme" where
  "saved spe ctxt d v k =
     k\<lparr>k_words := (k_words k)(ctxt + status_slot spe (k_words k (ctxt + CONTEXT_SRR1_IDX)) := preempt_status d v),
       k_contexts := (k_contexts k)[unat (k_current_task k) := ctxt]\<rparr>"

lemma contexts_update_eq:
  "k_contexts_update f (k\<lparr>k_words := w\<rparr>) = k\<lparr>k_words := w, k_contexts := f (k_contexts k)\<rparr>"
  by (cases k) simp

lemma context_switch_eq:
  assumes "\<not> k_interrupts_enabled k" and "k_preempt_disabled k" and "current_ok c k"
    and "length (k_contexts k) = tasks_length c"
  shows "rtos_internal_context_switch c spe to ctxt d v k = context_switch_first c spe to (saved spe ctxt d v k)"
  using assms by (simp add: rtos_internal_context_switch_def saved_def read_word_def write_word_def kbind_def kreturn_def kgets_def
      kmodify_def array_modify_def irq_defs preempt_ok_disabled current_ok_def [of c k]
      contexts_update_eq [of "\<lambda>xs. xs[unat (k_current_task k) := ctxt]"])

lemma saved_status_saved: "saved_status spe (k_words (saved spe ctxt d v k)) ctxt = preempt_status d v"
  by (simp add: saved_status_def saved_def)

text \<open>
  A task that is switched to again, its frame and context pointer untouched, continues with the
  preemption flag and from the frame it was switched away with.
\<close>

lemma switch_back:
  assumes "unat me < length (k_contexts k)" and "me = k_current_task k"
    and "\<not> k_interrupts_enabled k2" and "k_preempt_disabled k2"
    and "length (k_contexts k2) = length (k_contexts k)"
    and "k_contexts k2 ! unat me = k_contexts (saved spe ctxt d v k) ! unat me"
    and "\<And>i. i < preempt_frame_size spe (k_words k (ctxt + CONTEXT_SRR1_IDX)) \<Longrightarrow>
      k_words k2 (ctxt + i) = k_words (saved spe ctxt d v k) (ctxt + i)"
  shows "context_switch_first c spe me k2 = Inr ((v, ctxt), k2\<lparr>k_current_task := me, k_preempt_disabled := d\<rparr>)"
proof -
  let ?msr = "k_words k (ctxt + CONTEXT_SRR1_IDX)"
  have "CONTEXT_SRR1_IDX < preempt_frame_size spe ?msr" "status_slot spe ?msr < preempt_frame_size spe ?msr"
    by (simp_all add: preempt_frame_size_def status_slot_def frame_sizes)
  then have "k_words k2 (ctxt + CONTEXT_SRR1_IDX) = ?msr"
    "k_words k2 (ctxt + status_slot spe ?msr) = preempt_status d v"
    using assms(7) by (simp_all add: saved_def)
  then have "saved_status spe (k_words k2) ctxt = preempt_status d v" by (simp add: saved_status_def)
  moreover have "k_contexts k2 ! unat me = ctxt" using assms(1,2,6) by (simp add: saved_def)
  ultimately show ?thesis
    using assms(1,3,4,5) by (simp add: context_switch_first_eq Let_def preempt_status_bits)
qed

end
