(* ===== verification/Kochab_PPCe500.thy ===== *)
theory Kochab_PPCe500
  imports Kochab Preempt_PPCe500
begin

text \<open>
  The Kochab variant on the PowerPC e500: its interpretation of the contract of the scheduler
  invocation of \<open>components/context-switch-preempt-ppce500\<close>.
\<close>

interpretation kochab_ppc: ppce500_scheduler pi_sched_set_runnable pi_sched_set_blocked "pi_sched_get_next undef"
  "\<lambda>t. pi_set t t" "\<lambda>t. pi_set t TASK_ID_NONE" pi_inv pi_ntasks pi_is_runnable "preemptive c"
  "kochab_unblock (preemptive c)" "kochab_block_on (preemptive c) TASK_ID_NONE" nev
  for undef c nev
  by unfold_locales simp

end
