(* ===== verification/Kochab_Properties.thy ===== *)
theory Kochab_Properties
  imports Kochab_PPCe500
begin

text \<open>
  What the Kochab variant promises: priority inheritance through mutexes, semaphores, timeouts, and the
  scheduler invocation on the PowerPC e500.
\<close>

section \<open>A system for examples\<close>

text \<open>
  Three tasks, of which task 1 runs, task 2 is runnable, and task 0 waits for semaphore 0; a timer per
  task, one interrupt event for task 0, a mutex that task 2 holds, and two semaphores.
\<close>

abbreviation kochab_config :: config where
  "kochab_config \<equiv> config_example 3"

definition kochab_timer :: "u8 \<Rightarrow> timer" where
  "kochab_timer task =
     \<lparr>tm_enabled = False, tm_overflow = False, tm_expiry = 0, tm_reload = 0, tm_error_id = ERROR_ID_NONE,
      tm_task_id = task, tm_signal_set = 2\<rparr>"

definition kochab_example :: "pi_sched ppc_kernel" where
  "kochab_example =
     \<lparr>k_current_task = 1, k_preempt_disabled = False, k_preempt_pending = False,
      k_sched = pi_example [255, 1, 2],
      k_interrupt_event = 0, k_system_is_idle = False,
      k_signal_tasks = [\<lparr>sig_signals = 0\<rparr>, \<lparr>sig_signals = 0\<rparr>, \<lparr>sig_signals = 0\<rparr>],
      k_timer_current_ticks = 100, k_timers = map kochab_timer [0, 1, 2], k_timer_pending_ticks = 0,
      k_task_timers = [0, 1, 2],
      k_interrupt_events = [\<lparr>ie_task = 0, ie_sig_set = 8\<rparr>],
      k_mutexes = [\<lparr>mx_holder = 2\<rparr>], k_mutex_waiters = [255, 255, 255], k_mutex_stats_enabled = False,
      k_mutex_stats = [\<lparr>ms_lock_counter = 0, ms_lock_contended_counter = 0, ms_lock_max_wait_time = 0\<rparr>],
      k_semaphores = [\<lparr>sem_value = 0, sem_max = 3\<rparr>, \<lparr>sem_value = 3, sem_max = 3\<rparr>],
      k_sem_waiters = [0, 255, 255],
      k_interrupts_enabled = True, k_contexts = [900, 600, 300], k_words = (\<lambda>_. 0)\<rparr>"

lemma kochab_example_inv: "pi_inv (pi_example [255, 1, 2])"
proof -
  have "pi_closed (pi_example [255, 1, 2])"
    by (simp add: pi_closed_def ids_all ids_simps TASK_ID_NONE_def)
  moreover have "\<forall>t. unat t < 3 \<longrightarrow> (\<exists>p. pi_path (pi_example [255, 1, 2]) t p)"
    using pi_path_end [of 0 "pi_example [255, 1, 2]"] pi_path_end [of 1 "pi_example [255, 1, 2]"]
      pi_path_end [of 2 "pi_example [255, 1, 2]"]
    by (auto simp: ids_all ids_simps TASK_ID_NONE_def)
  ultimately show ?thesis by (simp add: pi_inv_def)
qed

lemmas kochab_defs =
  kochab_example_def kochab_timer_def config_example_def kernel_inv_def current_ok_def preempt_ok_def signals_ok_def
  timers_ok_def timer_kernel_inv_def handlers_ok_def event_kernel_inv_def pending_of_def ERROR_ID_NONE_def
  preemptive_def kochab_example_inv

lemma kochab_example_ok:
  "kernel_inv (preemptive kochab_config) pi_inv pi_ntasks kochab_example"
  "signals_ok (preemptive kochab_config) kochab_example"
  "mutexes_ok (preemptive kochab_config) kochab_example"
  "semaphores_ok (preemptive kochab_config) kochab_example"
  "kochab_events.system_ok kochab_config 1 (kochab_example\<lparr>k_preempt_disabled := True\<rparr>)"
  unfolding kochab_events.system_ok_def
  by (simp_all add: kochab_defs mutexes_ok_def semaphores_ok_def)

section \<open>Mutexes and priority inheritance\<close>

abbreviation kochab_mc :: "config \<Rightarrow> (pi_sched, 'z) mutex_kernel_scheme mutex_core" where
  "kochab_mc c \<equiv> kochab_mutex_core (preemptive c) False"

lemma kochab_mc_simps [simp]:
  "mutex_core_block_on (kochab_mutex_core c with_stats) = kochab_mutex_core_block_on c"
  "mutex_core_block_on_timeout (kochab_mutex_core c with_stats) = kochab_mutex_core_block_on_timeout c"
  "mutex_core_unlocked (kochab_mutex_core c with_stats) m = kreturn ()"
  "\<not> mutex_prio_ceiling (kochab_mutex_core c with_stats)"
  "mutex_with_stats (kochab_mutex_core c with_stats) = with_stats"
  by (simp_all add: kochab_mutex_core_def)

lemma kochab_blocks_on:
  fixes k :: "(pi_sched, 'z) signal_kernel_scheme"
  assumes "kernel_inv c pi_inv pi_ntasks k" "preempt_ok c k" "signals_ok c k"
    and "pending_of k (k_current_task k) AND SIGNAL_ID__TASK_TIMER c = 0"
  shows "kochab_mutex_core_block_on c h k =
    Inr (Sig_Blocked (k_current_task k) (SIGNAL_ID__TASK_TIMER c) h,
         k\<lparr>k_sched := pi_set (k_current_task k) h (k_sched k)\<rparr>)"
  unfolding kochab_mutex_core_block_on_def
  using signal_wait_blocks [where block_on = "kochab_block_on c" and blocker = h, OF assms(2) _ assms(3,4)]
    kochab_block_on_run [OF assms(1,2), of h] assms(1)
  by (simp add: kernel_inv_def)

text \<open>
  C15: Priority inheritance. The task that runs, ahead of which all more urgent tasks just wait, finds a
  mutex held: it is registered as waiting for the mutex and blocked on its holder, and the scheduler
  then runs the task that the holder depends on, in particular the holder itself when it is runnable,
  although other tasks of higher priority than that one may be runnable. This needs that the
  holder does not depend on the caller.
\<close>

theorem kochab_priority_inheritance:
  fixes k :: "(pi_sched, 'z) mutex_kernel_scheme"
  assumes k: "kernel_inv (preemptive c) pi_inv pi_ntasks k" "signals_ok (preemptive c) k" "mutexes_ok (preemptive c) k"
    and m: "unat m < length (k_mutexes k)"
    and sig: "pending_of k (k_current_task k) AND SIGNAL_ID__TASK_TIMER c = 0"
    and me: "pi_is_runnable (k_sched k) (k_current_task k)" "\<forall>v. v < k_current_task k \<longrightarrow> pi_waits (k_sched k) v"
    and h: "pi_serves (k_sched k) (holder_of k m) u" "u \<noteq> k_current_task k"
  shows "\<exists>p k'. rtos_mutex_lock (preemptive c) (kochab_mc c) m k = Inr (Suspended p, k') \<and>
    waiting_for k' (k_current_task k) = m \<and> holder_of k' = holder_of k \<and>
    kernel_inv (preemptive c) pi_inv pi_ntasks k' \<and>
    pi_sched_get_next undef (k_sched k') = Inr (u, k_sched k')"
proof -
  let ?c = "preemptive c" and ?me = "k_current_task k" and ?h = "holder_of k m" and ?s = "k_sched k"
  have cur: "current_ok ?c k" "unat ?me < pi_ntasks ?s" "pi_inv ?s"
    using k(1) by (simp_all add: kernel_inv_def current_ok_def)
  have self: "pi_next ?s ?me = ?me" using me(1) by (simp add: pi_is_runnable_def)
  have ne: "?h \<noteq> ?me" using h cur self by (auto simp: pi_serves_self_iff)
  have "unat ?h < pi_ntasks ?s" using h(1) by (blast elim: pi_serves.cases)
  then have none: "?h \<noteq> TASK_ID_NONE" using pi_ntasks_bound [OF cur(3)] by (auto simp: TASK_ID_NONE_def)
  note inherit = pi_block_on_inherits [OF cur(3,2) me h(1,2) ne]
  let ?k1 = "enter ?c k"
  let ?k2 = "(set_waiter ?me m ?k1)\<lparr>k_sched := pi_set ?me ?h ?s\<rparr>"
  have ok1: "preempt_ok ?c ?k1" "mutexes_ok ?c ?k1" "unat m < length (k_mutexes ?k1)" using k m by simp_all
  have "kochab_mutex_core_block_on ?c ?h (set_waiter ?me m ?k1) = Inr (Sig_Blocked ?me (SIGNAL_ID__TASK_TIMER c) ?h, ?k2)"
    using kochab_blocks_on [of ?c "set_waiter ?me m ?k1" ?h] k sig by simp
  then have "rtos_mutex_lock ?c (kochab_mc c) m k =
      Inr (Suspended (Mutex_Locking m True (k_timer_current_ticks k) (Sig_Blocked ?me (SIGNAL_ID__TASK_TIMER c) ?h)), ?k2)"
    using cur(1) m ne none mutex_lock_attempt_blocks [OF _ ok1(1,3,2), of "kochab_mc c"]
    by (simp add: rtos_mutex_lock_def kbind_def kgets_def assert_mutex_not_held_run)
  moreover have "unat ?me < length (k_mutex_waiters k)" using k(3) cur(1) by (simp add: mutexes_ok_def current_ok_def)
  moreover have "kernel_inv ?c pi_inv pi_ntasks ?k2"
    using inherit(1) k(1) by (simp add: kernel_inv_def current_ok_def)
  moreover have "holder_of ?k2 = holder_of k" by simp
  moreover have "waiting_for ?k2 ?me = m" if "unat ?me < length (k_mutex_waiters k)"
    using waiting_for_set [of ?me ?k1 m ?me] that by simp
  moreover have "pi_sched_get_next undef (k_sched ?k2) = Inr (u, k_sched ?k2)" using inherit(2) by simp
  ultimately show ?thesis by blast
qed

theorem kochab_priority_inheritance_witness:
  "\<exists>p k'. rtos_mutex_lock (preemptive kochab_config) (kochab_mc kochab_config) 0 kochab_example = Inr (Suspended p, k') \<and>
    waiting_for k' 1 = 0 \<and> pi_sched_get_next 0 (k_sched k') = Inr (2, k_sched k')"
proof -
  have "pi_serves (pi_example [255, 1, 2]) 2 2" by (rule pi_serves_self) simp_all
  moreover have "pi_waits (pi_example [255, 1, 2]) v" if "v < 1" for v
    using that by (intro pi_waits_none) (simp_all add: TASK_ID_NONE_def)
  ultimately show ?thesis
    using kochab_priority_inheritance [OF kochab_example_ok(1-3), of 0 2 0]
    by (auto simp: kochab_defs holder_of_def pi_is_runnable_def)
qed

lemma timeout_fits:
  fixes now :: u32 and timeout :: u16
  shows "now < now + ucast timeout \<longleftrightarrow> timeout \<noteq> 0 \<and> unat now + unat timeout < 2 ^ 32"
proof -
  have "unat timeout < 2 ^ 16" by (rule order.strict_trans2 [OF unsigned_less]) simp
  then have u: "unat (ucast timeout :: u32) = unat timeout"
    by (simp add: unsigned_ucast_eq take_bit_nat_eq_self)
  show ?thesis
  proof (cases "unat now + unat timeout < 2 ^ 32")
    case True
    then have "unat (now + ucast timeout) = unat now + unat timeout" by (simp add: unat_word_ariths u)
    then show ?thesis using True by (simp add: word_less_nat_alt unat_gt_0)
  next
    case False
    have "unat now < 2 ^ 32" by (rule order.strict_trans2 [OF unsigned_less]) simp
    moreover have "unat timeout < 2 ^ 32" using \<open>unat timeout < 2 ^ 16\<close> by simp
    ultimately have "unat (now + ucast timeout) = unat now + unat timeout - 2 ^ 32"
      using False by (simp add: unat_word_ariths u mod_if)
    then show ?thesis using False \<open>unat timeout < 2 ^ 32\<close> by (simp add: word_less_nat_alt)
  qed
qed



section \<open>Semaphores\<close>

abbreviation kochab_sc :: "config \<Rightarrow> bool \<Rightarrow> (pi_sched, 'z) sem_kernel_scheme sem_core" where
  "kochab_sc c enable_max \<equiv> kochab_sem_core (preemptive c) enable_max"

lemma kochab_sc_simps [simp]:
  "sem_core_block (kochab_sem_core c enable_max) = kochab_mutex_core_block_on c TASK_ID_NONE"
  "sem_core_block_resume (kochab_sem_core c enable_max) = kochab_wait_resume c"
  "sem_enable_max (kochab_sem_core c enable_max) = enable_max"
  by (simp_all add: kochab_sem_core_def kochab_sem_core_block_def kochab_mutex_core_block_on_def fun_eq_iff)

lemma kochab_wait_woken:
  fixes k :: "(pi_sched, 'z) signal_kernel_scheme"
  assumes "preempt_ok c k" and "unat t < length (k_signal_tasks k)"
    and "pending_of k t AND SIGNAL_ID__TASK_TIMER c \<noteq> 0"
  shows "kochab_wait_resume c (Sig_Blocked t (SIGNAL_ID__TASK_TIMER c) h) k =
    Inr (Finished (), set_pending t (pending_of k t AND NOT (SIGNAL_ID__TASK_TIMER c)) k)"
  using signal_wait_resume_finishes [OF assms]
  by (simp add: kochab_wait_resume_def co_bind_def kbind_def kreturn_def)

text \<open>
  Posting a semaphore adds 1 to its value, modulo 256 when it has no maximum, and to no other. All
  tasks that wait for it, and no others, are made runnable and are no longer registered. Posting keeps
  the invariant that tasks wait only for semaphores with value 0.
\<close>

theorem kochab_sem_post:
  fixes k :: "(pi_sched, 'z) sem_kernel_scheme"
  assumes k: "kernel_inv (preemptive c) pi_inv pi_ntasks k" "signals_ok (preemptive c) k"
    and sems: "semaphores_ok (preemptive c) k" "sem_waiters_inv (preemptive c) k"
    and s: "unat s < length (k_semaphores k)" and max: "enable_max \<longrightarrow> max_of k s \<noteq> 0 \<and> value_of k s < max_of k s"
  shows "\<exists>k'. rtos_sem_post (preemptive c) (kochab_sc c enable_max) s k = Inr ((), k') \<and>
    (\<forall>r. value_of k' r = (if r = s then value_of k r + 1 else value_of k r)) \<and>
    (\<forall>t. unat t < tasks_length c \<longrightarrow>
      sem_waiting_for k' t = (if sem_waiting_for k t = s then SEM_ID_NONE else sem_waiting_for k t) \<and>
      pi_is_runnable (k_sched k') t = (pi_is_runnable (k_sched k) t \<or> sem_waiting_for k t = s)) \<and>
    kernel_inv (preemptive c) pi_inv pi_ntasks k' \<and> signals_ok (preemptive c) k' \<and>
    semaphores_ok (preemptive c) k' \<and> sem_waiters_inv (preemptive c) k'"
proof -
  have len: "tasks_length (preemptive c) \<le> 255"
    using k(1) pi_ntasks_bound [of "k_sched k"] by (auto simp: kernel_inv_def)
  have max': "sem_enable_max (kochab_sc c enable_max) \<longrightarrow> max_of k s \<noteq> 0 \<and> value_of k s < max_of k s"
    using max by (simp add: kochab_sem_core_def)
  obtain k' where "rtos_sem_post (preemptive c) (kochab_sc c enable_max) s k = Inr ((), k')"
    "kernel_inv (preemptive c) pi_inv pi_ntasks k'" "signals_ok (preemptive c) k'" "semaphores_ok (preemptive c) k'"
    "sem_waiters_inv (preemptive c) k'" "value_of k' s = value_of k s + 1" "\<forall>r. r \<noteq> s \<longrightarrow> value_of k' r = value_of k r"
    "\<forall>t. unat t < tasks_length (preemptive c) \<longrightarrow>
       sem_waiting_for k' t = (if sem_waiting_for k t = s then SEM_ID_NONE else sem_waiting_for k t)"
    "\<forall>t. unat t < tasks_length (preemptive c) \<longrightarrow>
       pi_is_runnable (k_sched k') t = (pi_is_runnable (k_sched k) t \<or> sem_waiting_for k t = s)"
    using kochab_sem.rtos_sem_post_eq [where enable_max = enable_max, OF k s sems(1) len sems(2) max'] by (elim exE conjE) (rule that)
  then show ?thesis by (intro exI [of _ k']) simp
qed

lemma kochab_example_waiters: "sem_waiters_inv (preemptive kochab_config) kochab_example"
  by (auto simp: sem_waiters_inv_def sem_waiting_for_def value_of_def kochab_defs ids_all ids_simps)

theorem kochab_sem_post_witness:
  "\<exists>k'. rtos_sem_post (preemptive kochab_config) (kochab_sc kochab_config True) 0 kochab_example = Inr ((), k') \<and>
    value_of k' 0 = 1 \<and> value_of k' 1 = 3 \<and> pi_is_runnable (k_sched k') 0"
proof -
  have facts: "unat (0 :: u8) < length (k_semaphores kochab_example)"
    "True \<longrightarrow> max_of kochab_example 0 \<noteq> 0 \<and> value_of kochab_example 0 < max_of kochab_example 0"
    "value_of kochab_example 0 = 0" "value_of kochab_example 1 = 3" "sem_waiting_for kochab_example 0 = 0"
    "unat (0 :: u8) < tasks_length kochab_config"
    by (simp_all add: kochab_defs max_of_def value_of_def sem_waiting_for_def)
  show ?thesis
    using kochab_sem_post [where enable_max = True, OF kochab_example_ok(1,2,4) kochab_example_waiters facts(1,2)]
    by (elim ex_forward) (use facts(3-6) in auto)
qed

text \<open>
  Each misuse of a semaphore ends with the error that is meant for it, in every variant: a semaphore
  that does not exist, posting with no maximum set or above the maximum, setting the maximum to 0 or
  for a second time. The error for exceeding the maximum does not depend on API assertions.
\<close>

theorem sem_misuse_errors:
  "(api_asserts c \<longrightarrow> \<not> unat s < length (k_semaphores k) \<longrightarrow>
      rtos_sem_wait c sc s k = Inl (Fatal ERROR_ID_INVALID_ID) \<and>
      rtos_sem_wait_timeout c sc s timeout k = Inl (Fatal ERROR_ID_INVALID_ID) \<and>
      rtos_sem_try_wait c s k = Inl (Fatal ERROR_ID_INVALID_ID) \<and>
      rtos_sem_post c sc s k = Inl (Fatal ERROR_ID_INVALID_ID) \<and>
      rtos_sem_max_init c s max_value k = Inl (Fatal ERROR_ID_INVALID_ID)) \<and>
    (unat s < length (k_semaphores k) \<longrightarrow>
      (sem_enable_max sc \<longrightarrow> max_of k s = 0 \<longrightarrow> api_asserts c \<longrightarrow>
        rtos_sem_post c sc s k = Inl (Fatal ERROR_ID_SEMAPHORE_MAX_USE_BEFORE_INIT)) \<and>
      (sem_enable_max sc \<longrightarrow> max_of k s \<noteq> 0 \<longrightarrow> max_of k s \<le> value_of k s \<longrightarrow>
        rtos_sem_post c sc s k = Inl (Fatal ERROR_ID_SEMAPHORE_MAX_EXCEEDED)) \<and>
      (api_asserts c \<longrightarrow> rtos_sem_max_init c s 0 k = Inl (Fatal ERROR_ID_SEMAPHORE_MAX_INVALID)) \<and>
      (api_asserts c \<longrightarrow> max_value \<noteq> 0 \<longrightarrow> max_of k s \<noteq> 0 \<longrightarrow>
        rtos_sem_max_init c s max_value k = Inl (Fatal ERROR_ID_SEMAPHORE_MAX_ALREADY_INIT)))"
proof -
  have run: "api_assert_expr c (kbind (array_read k_semaphores s) (\<lambda>sem. kreturn (P sem))) e k' =
      (if P (k_semaphores k ! unat s) \<or> \<not> api_asserts c then Inr ((), k') else Inl (Fatal e))"
    if "unat s < length (k_semaphores k)" "k_semaphores k' = k_semaphores k" for P e and k' :: "('s, 'z) sem_kernel_scheme"
    by (subst api_assert_expr_run [where b = "P (k_semaphores k ! unat s)"]) (use that in \<open>simp_all add: kbind_def kreturn_def\<close>)
  show ?thesis
    by (simp add: rtos_sem_wait_def rtos_sem_wait_timeout_def rtos_sem_try_wait_def rtos_sem_post_def rtos_sem_max_init_def
        kbind_def kgets_def kwhen_def kreturn_def run max_of_def value_of_def SEM_VALUE_ZERO_def)
qed

theorem sem_misuse_errors_witness:
  "rtos_sem_wait kochab_config (kochab_sc kochab_config True) 7 kochab_example = Inl (Fatal ERROR_ID_INVALID_ID) \<and>
    rtos_sem_post kochab_config (kochab_sc kochab_config True) 1 kochab_example = Inl (Fatal ERROR_ID_SEMAPHORE_MAX_EXCEEDED) \<and>
    rtos_sem_max_init kochab_config 0 5 kochab_example = Inl (Fatal ERROR_ID_SEMAPHORE_MAX_ALREADY_INIT)"
proof -
  have "api_asserts kochab_config" "length (k_semaphores kochab_example) = 2" "max_of kochab_example 0 = 3"
    "max_of kochab_example 1 = 3" "value_of kochab_example 1 = 3"
    by (simp_all add: kochab_defs max_of_def value_of_def)
  then show ?thesis
    using sem_misuse_errors [of kochab_config 7 kochab_example "kochab_sc kochab_config True"]
      sem_misuse_errors [of kochab_config 1 kochab_example "kochab_sc kochab_config True"]
      sem_misuse_errors [where c = kochab_config and s = 0 and k = kochab_example and max_value = 5] by simp
qed

text \<open>
  C26: A task that waits for a semaphore with value 0 is registered and blocked. When the semaphore is
  posted in a later state in which it still waits, it becomes runnable, and its call, continued before
  another task takes the unit, returns with the value back at 0 and the wake-up signal used up.
\<close>

theorem kochab_sem_wait_post:
  fixes k k2 :: "(pi_sched, 'z) sem_kernel_scheme"
  defines "me \<equiv> k_current_task k"
  assumes k: "kernel_inv (preemptive c) pi_inv pi_ntasks k" "signals_ok (preemptive c) k" "semaphores_ok (preemptive c) k"
    and s: "unat s < length (k_semaphores k)" and zero: "value_of k s = 0"
    and clear: "pending_of k me AND SIGNAL_ID__TASK_TIMER c = 0" and sig: "SIGNAL_ID__TASK_TIMER c \<noteq> 0"
    and k2: "kernel_inv (preemptive c) pi_inv pi_ntasks k2" "signals_ok (preemptive c) k2" "semaphores_ok (preemptive c) k2"
      "sem_waiters_inv (preemptive c) k2"
    and s2: "unat s < length (k_semaphores k2)" and waits: "sem_waiting_for k2 me = s"
  shows "\<exists>p k1 k3 k4. rtos_sem_wait (preemptive c) (kochab_sc c False) s k = Inr (Suspended p, k1) \<and>
    sem_waiting_for k1 me = s \<and> \<not> pi_is_runnable (k_sched k1) me \<and>
    rtos_sem_post (preemptive c) (kochab_sc c False) s k2 = Inr ((), k3) \<and> pi_is_runnable (k_sched k3) me \<and>
    rtos_sem_resume (preemptive c) (kochab_sc c False) p (k3\<lparr>k_current_task := me, k_preempt_disabled := True\<rparr>) =
      Inr (Finished True, k4) \<and>
    value_of k4 s = 0 \<and> pending_of k4 me AND SIGNAL_ID__TASK_TIMER c = 0"
proof -
  let ?c = "preemptive c" and ?t = "SIGNAL_ID__TASK_TIMER c"
  have len: "tasks_length ?c \<le> 255" using k(1) pi_ntasks_bound [of "k_sched k"] by (auto simp: kernel_inv_def)
  have me: "unat me < tasks_length c" using k(1) by (simp add: kernel_inv_def current_ok_def me_def)
  let ?k1 = "(enter ?c k)\<lparr>k_sem_waiters := (k_sem_waiters k)[unat me := s]\<rparr>"
  let ?k1' = "?k1\<lparr>k_sched := pi_set me TASK_ID_NONE (k_sched k)\<rparr>" and ?p = "Sig_Blocked me ?t TASK_ID_NONE"
  have "kochab_mutex_core_block_on ?c TASK_ID_NONE ?k1 = Inr (?p, ?k1')"
    using kochab_blocks_on [of ?c ?k1 TASK_ID_NONE] k clear
    by (simp add: me_def kernel_inv_def current_ok_def preempt_ok_def signals_ok_def pending_of_def enter_def)
  then have wait: "rtos_sem_wait ?c (kochab_sc c False) s k = Inr (Suspended (Sem_Waiting s ?p), ?k1')"
    using sem_wait_attempt_blocks [of ?c "enter ?c k" s "kochab_sc c False" ?p ?k1'] k s zero
    by (simp add: rtos_sem_wait_def kbind_def kernel_inv_def me_def semaphores_ok_def)
  have "unat me < length (k_sem_waiters k)" using k(3) me by (simp add: semaphores_ok_def)
  then have reg: "sem_waiting_for ?k1' me = s" by (simp add: sem_waiting_for_def)
  have blocked: "\<not> pi_is_runnable (k_sched ?k1') me"
    using pi_runnable_update(2) [of "k_sched k" me me] k(1) me by (simp add: kernel_inv_def)
  obtain k3 where k3: "rtos_sem_post ?c (kochab_sc c False) s k2 = Inr ((), k3)" "signals_ok ?c k3" "semaphores_ok ?c k3"
    "value_of k3 s = value_of k2 s + 1" "length (k_semaphores k3) = length (k_semaphores k2)"
    "\<forall>t. unat t < tasks_length c \<longrightarrow> pending_of k3 t =
      (if sem_waiting_for k2 t = s then pending_of k2 t OR ?t else pending_of k2 t)"
    "\<forall>t. unat t < tasks_length c \<longrightarrow>
       pi_is_runnable (k_sched k3) t = (pi_is_runnable (k_sched k2) t \<or> sem_waiting_for k2 t = s)"
    using kochab_sem.rtos_sem_post_eq [where enable_max = False, OF k2(1,2) s2 k2(3) len k2(4)]
    by (simp add: cong: if_cong) (elim exE conjE, rule that, assumption+)
  let ?k3 = "k3\<lparr>k_current_task := me, k_preempt_disabled := True\<rparr>"
  have sig3: "unat me < length (k_signal_tasks ?k3)" "pending_of ?k3 me AND ?t \<noteq> 0"
    using k3(2,6) me waits sig by (simp_all add: signals_ok_def pending_of_def word_ao_dist or_eq_0_iff)
  let ?k4 = "set_pending me (pending_of ?k3 me AND NOT ?t) ?k3"
  have wake: "kochab_wait_resume ?c ?p ?k3 = Inr (Finished (), ?k4)"
    using kochab_wait_woken [of ?c ?k3 me TASK_ID_NONE] sig3 by (simp add: preempt_ok_def)
  have "value_of k2 s = 0" using k2(4) s2 waits me by (auto simp: sem_waiters_inv_def)
  then have one: "value_of ?k4 s = 1" using k3(4) by (simp add: value_of_def)
  let ?k5 = "set_value s 0 (leave ?c ?k4)"
  have "rtos_sem_resume ?c (kochab_sc c False) (Sem_Waiting s ?p) ?k3 = Inr (Finished True, ?k5)"
    using wake sem_wait_attempt_takes [of ?c ?k4 s "kochab_sc c False"] one k3(5) s2
    by (simp add: rtos_sem_resume_def co_bind_def kbind_def preempt_ok_def)
  moreover have "value_of ?k5 s = 0" using value_of_set [of s "leave ?c ?k4" 0 s] k3(5) s2 by simp
  moreover have "pending_of ?k5 me AND ?t = 0" using sig3(1) by (simp add: pending_of_set word_bw_assocs)
  ultimately show ?thesis using wait reg blocked k3(1,7) waits me by fastforce
qed

abbreviation kochab_waiting :: "pi_sched ppc_kernel" where
  "kochab_waiting \<equiv> kochab_example\<lparr>k_current_task := 2, k_sem_waiters := [255, 0, 255]\<rparr>"

theorem kochab_sem_wait_post_witness:
  "\<exists>p k1 k3 k4. rtos_sem_wait (preemptive kochab_config) (kochab_sc kochab_config False) 0 kochab_example = Inr (Suspended p, k1) \<and>
    rtos_sem_post (preemptive kochab_config) (kochab_sc kochab_config False) 0 kochab_waiting = Inr ((), k3) \<and>
    rtos_sem_resume (preemptive kochab_config) (kochab_sc kochab_config False) p
      (k3\<lparr>k_current_task := 1, k_preempt_disabled := True\<rparr>) = Inr (Finished True, k4) \<and> value_of k4 0 = 0"
proof -
  have k2: "kernel_inv (preemptive kochab_config) pi_inv pi_ntasks kochab_waiting"
    "signals_ok (preemptive kochab_config) kochab_waiting" "semaphores_ok (preemptive kochab_config) kochab_waiting"
    by (simp_all add: kochab_defs semaphores_ok_def)
  have inv2: "sem_waiters_inv (preemptive kochab_config) kochab_waiting"
    by (auto simp: sem_waiters_inv_def sem_waiting_for_def value_of_def kochab_defs ids_all ids_simps)
  have facts: "unat (0 :: u8) < length (k_semaphores kochab_example)" "value_of kochab_example 0 = 0"
    "pending_of kochab_example (k_current_task kochab_example) AND SIGNAL_ID__TASK_TIMER kochab_config = 0"
    "SIGNAL_ID__TASK_TIMER kochab_config \<noteq> 0" "unat (0 :: u8) < length (k_semaphores kochab_waiting)"
    "sem_waiting_for kochab_waiting (k_current_task kochab_example) = 0"
    by (simp_all add: kochab_defs value_of_def sem_waiting_for_def)
  have "k_current_task kochab_example = 1" by (simp add: kochab_example_def)
  then show ?thesis
    using kochab_sem_wait_post [OF kochab_example_ok(1,2,4) facts(1-4) k2 inv2 facts(5,6)] by auto
qed

section \<open>The scheduler invocation on the PowerPC e500\<close>

text \<open>
  When a task is runnable, the invocation of the scheduler returns within two runs after the last
  one in which interrupts raise events or ticks, whatever they raise before. It returns a runnable task,
  with interrupts disabled, and no preemption, event or tick is pending then: all of them have had their
  effect on the decision.
\<close>

theorem kochab_scheduler_loop:
  fixes k :: "(pi_sched, 'z) ppc_kernel_scheme"
  assumes isr: "\<forall>n m i. bit (isr n m) i \<longrightarrow> i < nev" and late: "\<forall>n i. bit (late n) i \<longrightarrow> i < nev"
    and quiet: "\<forall>n \<ge> N. isr n = (\<lambda>_. 0) \<and> late n = 0 \<and> \<not> ticked n"
    and k: "kochab_events.system_ok c nev k" and t: "unat t < tasks_length c" "pi_is_runnable (k_sched k) t"
  shows "\<exists>u k'. preempt_irq_scheduler_loop
      (\<lambda>n. ppce500_scheduler_run (preemptive c) (kochab_unblock (preemptive c)) (pi_sched_get_next undef)
        (isr n) (late n) (ticked n) []) (N + 2) 0 k = Inr (u, k') \<and>
    unat u < tasks_length c \<and> pi_is_runnable (k_sched k') u \<and> \<not> k_preempt_pending k' \<and>
    \<not> k_interrupts_enabled k' \<and> k_interrupt_event k' = 0 \<and> k_timer_pending_ticks k' = 0"
proof -
  have t': "unat t < tasks_length (preemptive c)" using t(1) by simp
  obtain u k' where run: "preempt_irq_scheduler_loop
      (\<lambda>n. ppce500_scheduler_run (preemptive c) (kochab_unblock (preemptive c)) (pi_sched_get_next undef)
        (isr n) (late n) (ticked n) []) (Suc (Suc N)) 0 k = Inr (u, k')"
    using kochab_ppc.scheduler_loop_returns [OF isr late quiet t' k t(2), of undef "\<lambda>_. []" 0] by auto
  have "\<forall>n. \<forall>w \<in> set ((\<lambda>_. []) (n :: nat)). kochab_ppc.wait_ok nev w" by simp
  from kochab_ppc.scheduler_loop_safe [OF isr late this k, of undef ticked "Suc (Suc N)" 0 u k'] run
  show ?thesis by (intro exI [of _ u] exI [of _ k']) simp
qed

theorem kochab_scheduler_loop_witness:
  "\<exists>u k'. preempt_irq_scheduler_loop
      (\<lambda>n. ppce500_scheduler_run (preemptive kochab_config) (kochab_unblock (preemptive kochab_config)) (pi_sched_get_next 0)
        (\<lambda>m. if n = 0 \<and> m = 5 then 1 else 0) 0 (n = 0) []) (1 + 2) 0 (kochab_example\<lparr>k_preempt_disabled := True\<rparr>) = Inr (u, k') \<and>
    k_interrupt_event k' = 0 \<and> k_timer_pending_ticks k' = 0"
proof -
  let ?isr = "\<lambda>n m. if n = 0 \<and> m = (5 :: nat) then 1 else 0 :: u32"
  have isr: "\<forall>n m i. bit (?isr n m) i \<longrightarrow> i < 1" by (simp add: bit_1_iff)
  have quiet: "\<forall>n \<ge> 1. ?isr n = (\<lambda>_. 0) \<and> (0 :: u32) = 0 \<and> \<not> n = (0 :: nat)" by simp
  have late: "\<forall>n i. bit ((\<lambda>_ :: nat. 0 :: u32) n) i \<longrightarrow> i < 1" by simp
  have "unat (1 :: u8) < tasks_length kochab_config" "pi_is_runnable (k_sched (kochab_example\<lparr>k_preempt_disabled := True\<rparr>)) 1"
    by (simp_all add: kochab_defs pi_is_runnable_def)
  from kochab_scheduler_loop [where isr = ?isr and late = "\<lambda>_. 0" and ticked = "\<lambda>n. n = 0" and N = 1 and undef = 0,
      OF isr late quiet kochab_example_ok(5) this]
  show ?thesis by blast
qed

text \<open>
  An interrupt that finds preemption disabled only leaves it pending. One that finds it enabled runs
  the scheduler, which returns as above; the result is no task when the scheduler picked the current
  one, with preemption enabled again, and the picked task otherwise, with preemption still disabled for
  the switch. In both cases the picked task is runnable.
\<close>

theorem kochab_interrupt_preempts:
  fixes k :: "(pi_sched, 'z) ppc_kernel_scheme"
  defines "k0 \<equiv> k\<lparr>k_preempt_pending := True, k_preempt_disabled := True\<rparr>"
  assumes irq: "\<not> k_interrupts_enabled k" and k: "kochab_events.system_ok c nev k0"
    and t: "unat t < tasks_length c" "pi_is_runnable (k_sched k) t"
    and isr: "\<forall>n m i. bit (isr n m) i \<longrightarrow> i < nev" and late: "\<forall>n i. bit (late n) i \<longrightarrow> i < nev"
    and quiet: "\<forall>n \<ge> N. isr n = (\<lambda>_. 0) \<and> late n = 0 \<and> \<not> ticked n"
  shows "\<exists>to k'. rtos_internal_preempt_irq_scheduler_wrapper (preemptive c)
      (\<lambda>n. ppce500_scheduler_run (preemptive c) (kochab_unblock (preemptive c)) (pi_sched_get_next undef)
        (isr n) (late n) (ticked n) []) (N + 2) k = Inr (to, k') \<and>
    (if k_preempt_disabled k then to = TASK_ID_NONE \<and> k' = k\<lparr>k_preempt_pending := True\<rparr>
     else if to = TASK_ID_NONE then \<not> k_preempt_disabled k' \<and> pi_is_runnable (k_sched k') (k_current_task k')
     else k_preempt_disabled k' \<and> to \<noteq> k_current_task k' \<and> unat to < tasks_length c \<and> pi_is_runnable (k_sched k') to)"
proof (cases "k_preempt_disabled k")
  case True
  then show ?thesis using irq_wrapper_disabled [OF irq] by (intro exI conjI) (assumption | simp)+
next
  case False
  let ?run = "\<lambda>n. ppce500_scheduler_run (preemptive c) (kochab_unblock (preemptive c)) (pi_sched_get_next undef)
        (isr n) (late n) (ticked n) []"
  have t': "unat t < tasks_length (preemptive c)" "pi_is_runnable (k_sched k0) t" using t by (simp_all add: k0_def)
  have len: "tasks_length (preemptive c) \<le> 255"
    using kochab_events.system_ok_kernel_inv [OF k] pi_ntasks_bound [of "k_sched k"] by (auto simp: kernel_inv_def k0_def)
  obtain to k' where run: "preempt_irq_scheduler_loop ?run (N + 2) 0 k0 = Inr (to, k')"
    using kochab_ppc.scheduler_loop_returns [OF isr late quiet t'(1) k t'(2), of undef "\<lambda>_. []" 0] by auto
  have "\<forall>n. \<forall>w \<in> set ((\<lambda>_. []) (n :: nat)). kochab_ppc.wait_ok nev w" by simp
  from kochab_ppc.scheduler_loop_safe [OF isr late this k, of undef ticked "N + 2" 0 to k'] run
  have safe: "kochab_events.system_ok c nev k'" "unat to < tasks_length c" "pi_is_runnable (k_sched k') to"
    "\<not> k_interrupts_enabled k'" by simp_all
  then have ok: "irq_ok (preemptive c) k'"
    by (auto simp: irq_ok_def kochab_events.system_ok_def event_kernel_inv_def timer_kernel_inv_def kernel_inv_def preempt_ok_def)
  have none: "to \<noteq> TASK_ID_NONE" using safe(2) len by (auto simp: TASK_ID_NONE_def)
  have "to = k_current_task k' \<Longrightarrow> rtos_internal_preempt_irq_scheduler_wrapper (preemptive c) ?run (N + 2) k =
      Inr (TASK_ID_NONE, k'\<lparr>k_preempt_disabled := False\<rparr>)"
    and "to \<noteq> k_current_task k' \<Longrightarrow> rtos_internal_preempt_irq_scheduler_wrapper (preemptive c) ?run (N + 2) k = Inr (to, k')"
    using irq_wrapper_enabled [OF irq False run [unfolded k0_def] ok _ len] safe(2) by simp_all
  then show ?thesis using False safe none ok by (cases "to = k_current_task k'") (auto simp: irq_ok_def)
qed

theorem kochab_interrupt_preempts_witness:
  "\<exists>to k'. rtos_internal_preempt_irq_scheduler_wrapper (preemptive kochab_config)
      (\<lambda>n. ppce500_scheduler_run (preemptive kochab_config) (kochab_unblock (preemptive kochab_config)) (pi_sched_get_next 0)
        (\<lambda>_. 0) 0 False []) (0 + 2) (kochab_example\<lparr>k_interrupts_enabled := False, k_interrupt_event := 1\<rparr>) = Inr (to, k')"
proof -
  let ?k = "kochab_example\<lparr>k_interrupts_enabled := False, k_interrupt_event := 1\<rparr>"
  have ok: "kochab_events.system_ok kochab_config 1 (?k\<lparr>k_preempt_pending := True, k_preempt_disabled := True\<rparr>)"
    unfolding kochab_events.system_ok_def by (simp add: kochab_defs bit_1_iff)
  have k: "\<not> k_interrupts_enabled ?k" "unat (1 :: u8) < tasks_length kochab_config" "pi_is_runnable (k_sched ?k) 1"
    by (simp_all add: kochab_defs pi_is_runnable_def)
  have q: "\<forall>n m i. bit ((\<lambda>_ _. 0 :: u32) (n :: nat) (m :: nat)) i \<longrightarrow> i < 1" "\<forall>n i. bit ((\<lambda>_. 0 :: u32) (n :: nat)) i \<longrightarrow> i < 1"
    "\<forall>n \<ge> 0. (\<lambda>_ _. 0 :: u32) (n :: nat) = (\<lambda>_ :: nat. 0) \<and> (\<lambda>_. 0 :: u32) n = 0 \<and> \<not> (\<lambda>_. False) n" by simp_all
  show ?thesis using kochab_interrupt_preempts [OF k(1) ok k(2,3) q, of 0] by blast
qed

end
