(* ===== verification/Phact.thy ===== *)
theory Phact
  imports Sched_Prio_Ceiling Semaphore
begin

text \<open>
  The Phact variant (\<open>components/phact\<close>): as Kochab, with the priority-ceiling scheduler. Locking a
  mutex raises its holder to the ceiling, unlocking pends a preemption.
\<close>

section \<open>Model\<close>

definition phact_block :: "config \<Rightarrow> ((pc_sched, 'z) kernel_scheme, unit) kop" where
  "phact_block c =
     kbind (precondition_preemption_disabled c) (\<lambda>_.
     kbind (get_current_task c) (\<lambda>current.
     on_sched (pc_sched_set_blocked current)))"

definition phact_unblock :: "config \<Rightarrow> u8 \<Rightarrow> ((pc_sched, 'z) kernel_scheme, unit) kop" where
  "phact_unblock c task =
     kseq [precondition_preemption_disabled c,
           on_sched (pc_sched_set_runnable task),
           preempt_pend c,
           postcondition_preemption_disabled c]"

definition phact_core_block :: "config \<Rightarrow> ((pc_sched, 'z) signal_kernel_scheme, signal_pc) kop" where
  "phact_core_block c =
     signal_wait_set_blocked_on c (\<lambda>_. phact_block c) (SIGNAL_ID__TASK_TIMER c) TASK_ID_NONE"

definition phact_wait_resume ::
  "config \<Rightarrow> signal_pc \<Rightarrow> ((pc_sched, 'z) signal_kernel_scheme, (signal_pc, unit) progress) kop"
where
  "phact_wait_resume c p =
     co_bind (signal_wait_resume c (\<lambda>_. phact_block c) p) id (\<lambda>_. kreturn (Finished ()))"

definition phact_core_unblock :: "config \<Rightarrow> u8 \<Rightarrow> ((pc_sched, 'z) signal_kernel_scheme, unit) kop" where
  "phact_core_unblock c task = signal_send_set c (phact_unblock c) task (SIGNAL_ID__TASK_TIMER c)"

text \<open>The task \<open>t\<close> that the mutex component passes is not used.\<close>

definition phact_mutex_core_block_on_timeout ::
  "config \<Rightarrow> u8 \<Rightarrow> u16 \<Rightarrow> ((pc_sched, 'z) timer_kernel_scheme, signal_pc) kop"
where
  "phact_mutex_core_block_on_timeout c t ticks =
     kbind (precondition_preemption_disabled c) (\<lambda>_.
     kbind (get_current_task c) (\<lambda>current.
     kbind (array_read k_task_timers current) (\<lambda>timer_id.
     kbind (timer_oneshot c (phact_unblock c) timer_id ticks) (\<lambda>_.
     phact_core_block c))))"

definition phact_sem_core_block_timeout ::
  "config \<Rightarrow> u16 \<Rightarrow> ((pc_sched, 'z) timer_kernel_scheme, signal_pc) kop"
where
  "phact_sem_core_block_timeout c ticks =
     kbind (precondition_preemption_disabled c) (\<lambda>_.
     kbind (get_current_task c) (\<lambda>current.
     kbind (array_read k_task_timers current) (\<lambda>timer_id.
     kbind (timer_oneshot c (phact_unblock c) timer_id ticks) (\<lambda>_.
     phact_core_block c))))"

definition phact_timeout_resume ::
  "config \<Rightarrow> signal_pc \<Rightarrow> ((pc_sched, 'z) timer_kernel_scheme, (signal_pc, unit) progress) kop"
where
  "phact_timeout_resume c p =
     co_bind (phact_wait_resume c p) id (\<lambda>_.
       kbind (get_current_task c) (\<lambda>current.
       kbind (array_read k_task_timers current) (\<lambda>timer_id.
       kbind (timer_disable timer_id) (\<lambda>_.
       co_finish (postcondition_preemption_disabled c) ()))))"

definition phact_mutex_core_locked_by :: "config \<Rightarrow> u8 \<Rightarrow> u8 \<Rightarrow> ((pc_sched, 'z) kernel_scheme, unit) kop" where
  "phact_mutex_core_locked_by c mutex task =
     kseq [precondition_preemption_disabled c,
           on_sched (pc_sched_set_mutex_locked_by c mutex task),
           postcondition_preemption_disabled c]"

definition phact_mutex_core_unlocked :: "config \<Rightarrow> u8 \<Rightarrow> ((pc_sched, 'z) kernel_scheme, unit) kop" where
  "phact_mutex_core_unlocked c mutex =
     kseq [precondition_preemption_disabled c,
           on_sched (pc_sched_set_mutex_unlocked mutex),
           preempt_pend c,
           postcondition_preemption_disabled c]"

definition phact_mutex_core :: "config \<Rightarrow> bool \<Rightarrow> (pc_sched, 'z) mutex_kernel_scheme mutex_core" where
  "phact_mutex_core c with_stats =
     \<lparr>mutex_core_block_on = (\<lambda>_. phact_core_block c),
      mutex_core_block_on_resume = phact_wait_resume c,
      mutex_core_block_on_timeout = phact_mutex_core_block_on_timeout c,
      mutex_core_block_on_timeout_resume = phact_timeout_resume c,
      mutex_core_unblock = phact_core_unblock c,
      mutex_core_locked_by = phact_mutex_core_locked_by c,
      mutex_core_unlocked = phact_mutex_core_unlocked c,
      mutex_prio_ceiling = True,
      mutex_with_stats = with_stats\<rparr>"

definition phact_sem_core :: "config \<Rightarrow> bool \<Rightarrow> (pc_sched, 'z) sem_kernel_scheme sem_core" where
  "phact_sem_core c enable_max =
     \<lparr>sem_core_block = phact_core_block c,
      sem_core_block_resume = phact_wait_resume c,
      sem_core_block_timeout = phact_sem_core_block_timeout c,
      sem_core_block_timeout_resume = phact_timeout_resume c,
      sem_core_unblock = phact_core_unblock c,
      sem_enable_max = enable_max\<rparr>"

definition phact_entry :: "config \<Rightarrow> ((pc_sched, 'z) sem_kernel_scheme, unit) kop" where
  "phact_entry c = kseq [precondition_preemption_disabled c, preempt_enable c]"

definition phact_start ::
  "config \<Rightarrow> ((pc_sched, 'z) sem_kernel_scheme, unit) kop \<Rightarrow> (u8 \<Rightarrow> ((pc_sched, 'z) sem_kernel_scheme, unit) kop) \<Rightarrow>
     ((pc_sched, 'z) sem_kernel_scheme, u8) kop"
where
  "phact_start c preempt_init context_init =
     kbind (sem_init c) (\<lambda>_.
     kbind preempt_init (\<lambda>_.
     kbind (kseq (map (\<lambda>idx. kseq [context_init idx, on_sched (pc_sched_set_runnable idx)]) (ids (tasks_length c)))) (\<lambda>_.
     kreturn TASK_ID_ZERO)))"

section \<open>The contracts of the components\<close>

lemma phact_unblock_law:
  assumes "kernel_inv c pc_inv pc_ntasks k" and "preempt_ok c k" and "unat t < tasks_length c"
  shows "phact_unblock c t k = Inr ((), pend c (k\<lparr>k_sched := pc_ready t (k_sched k)\<rparr>))"
proof -
  have run: "on_sched (pc_sched_set_runnable t) k = Inr ((), k\<lparr>k_sched := pc_ready t (k_sched k)\<rparr>)"
    by (rule on_sched_run, rule pc_update_laws(1)) (use assms in \<open>simp_all add: kernel_inv_def\<close>)
  have "preempt_ok c (k\<lparr>k_sched := pc_ready t (k_sched k)\<rparr>)" using assms(2) by (simp add: preempt_ok_def)
  then show ?thesis
    using assms(2) run by (simp add: phact_unblock_def kbind_def kreturn_def)
qed

lemma phact_block_law:
  assumes "kernel_inv c pc_inv pc_ntasks k" and "preempt_ok c k"
  shows "phact_block c k = Inr ((), k\<lparr>k_sched := pc_block (k_current_task k) (k_sched k)\<rparr>)"
proof -
  have "on_sched (pc_sched_set_blocked (k_current_task k)) k =
      Inr ((), k\<lparr>k_sched := pc_block (k_current_task k) (k_sched k)\<rparr>)"
    by (rule on_sched_run, rule pc_update_laws(2)) (use assms in \<open>simp_all add: kernel_inv_def current_ok_def\<close>)
  then show ?thesis using assms by (simp add: phact_block_def kbind_def kernel_inv_def)
qed

interpretation phact: signal_control pc_sched_set_runnable pc_sched_set_blocked "pc_sched_get_next undef"
  pc_ready pc_block pc_inv pc_ntasks pc_is_runnable "preemptive c" "phact_unblock (preemptive c)" "phact_block (preemptive c)"
  for undef c
  by unfold_locales (simp_all add: phact_unblock_law phact_block_law)

interpretation phact_events: event_control pc_sched_set_runnable pc_sched_set_blocked "pc_sched_get_next undef"
  pc_ready pc_block pc_inv pc_ntasks pc_is_runnable "preemptive c" "phact_unblock (preemptive c)" "phact_block (preemptive c)" nev
  for undef c nev
  by unfold_locales

interpretation phact_mutex: mutex_control pc_sched_set_runnable pc_sched_set_blocked "pc_sched_get_next undef"
  pc_ready pc_block pc_inv pc_ntasks pc_is_runnable "preemptive c" "phact_unblock (preemptive c)" "phact_block (preemptive c)" nev
  "phact_mutex_core (preemptive c) with_stats"
  for undef c nev with_stats
  by unfold_locales (simp add: phact_mutex_core_def phact_core_unblock_def phact.signal_send_set_sent)

interpretation phact_sem: sem_control pc_sched_set_runnable pc_sched_set_blocked "pc_sched_get_next undef"
  pc_ready pc_block pc_inv pc_ntasks pc_is_runnable "preemptive c" "phact_unblock (preemptive c)" "phact_block (preemptive c)" nev
  "phact_sem_core (preemptive c) enable_max"
  for undef c nev enable_max
  by unfold_locales (simp add: phact_sem_core_def phact_core_unblock_def phact.signal_send_set_sent)

end
