(* ===== verification/Phact_System.thy ===== *)
theory Phact_System
  imports Phact
begin

text \<open>
  A Phact system, with priority ceilings, as a transition system: tasks that lock mutexes and wait for signals, events
  that wake them, and preemption between any two calls. The mutexes follow the immediate ceiling protocol, so a task
  that runs finds every mutex free that it may lock, if tasks do not wait while they hold a mutex. Locks with
  timeouts, semaphores and sleeping are not among the calls here.
\<close>

section \<open>The system\<close>

datatype phact_thread =
    Ph_Running
  | Ph_In_Wait signal_pc
  | Ph_In_Lock mutex_pc

datatype phact_call =
    Ph_Lock u8
  | Ph_Try_Lock u8
  | Ph_Unlock u8
  | Ph_Wait u8
  | Ph_Send u8 u8

type_synonym 'z phact_state = "(pc_sched, 'z) mutex_kernel_scheme \<times> (u8 \<Rightarrow> phact_thread)"

definition phact_thread_of :: "('p \<Rightarrow> phact_thread) \<Rightarrow> ('p, 'a) progress \<Rightarrow> phact_thread" where
  "phact_thread_of f r = (case r of Suspended p \<Rightarrow> f p | Finished _ \<Rightarrow> Ph_Running)"

definition phact_invoke :: "config \<Rightarrow> phact_call \<Rightarrow> ((pc_sched, 'z) mutex_kernel_scheme, phact_thread) kop" where
  "phact_invoke c call =
     (case call of
        Ph_Lock m \<Rightarrow>
          kbind (rtos_mutex_lock c (phact_mutex_core c False) m) (\<lambda>r. kreturn (phact_thread_of Ph_In_Lock r))
      | Ph_Try_Lock m \<Rightarrow> kbind (rtos_mutex_try_lock c (phact_mutex_core c False) m) (\<lambda>_. kreturn Ph_Running)
      | Ph_Unlock m \<Rightarrow> kbind (rtos_mutex_unlock c (phact_mutex_core c False) m) (\<lambda>_. kreturn Ph_Running)
      | Ph_Wait r \<Rightarrow> kbind (rtos_signal_wait_set c (\<lambda>_. phact_block c) r) (\<lambda>p. kreturn (Ph_In_Wait p))
      | Ph_Send t r \<Rightarrow> kbind (rtos_signal_send_set c (phact_unblock c) t r) (\<lambda>_. kreturn Ph_Running))"

definition phact_continue :: "config \<Rightarrow> phact_thread \<Rightarrow> ((pc_sched, 'z) mutex_kernel_scheme, phact_thread) kop" where
  "phact_continue c thread =
     (case thread of
        Ph_In_Wait p \<Rightarrow>
          kbind (rtos_signal_wait_set_resume c (\<lambda>_. phact_block c) p) (\<lambda>r. kreturn (phact_thread_of Ph_In_Wait r))
      | Ph_In_Lock p \<Rightarrow>
          kbind (rtos_mutex_resume c (phact_mutex_core c False) p) (\<lambda>r. kreturn (phact_thread_of Ph_In_Lock r))
      | Ph_Running \<Rightarrow> kreturn Ph_Running)"

text \<open>A turn of the current task: it makes a call, or continues the one in which it gave up the processor.\<close>

definition phact_turn :: "config \<Rightarrow> phact_call \<Rightarrow> 'z phact_state \<Rightarrow> failure + 'z phact_state" where
  "phact_turn c call = (\<lambda>(k, threads).
     let me = k_current_task k in
     case (if threads me = Ph_Running then phact_invoke c call else phact_continue c (threads me)) k of
       Inl e \<Rightarrow> Inl e
     | Inr (thread, k') \<Rightarrow> Inr (k', threads(me := thread)))"

text \<open>
  What is required of tasks: a mutex that a task locks has a ceiling above the task's priority, a task unlocks only what
  it holds, and it does not wait for signals while it holds a mutex.
\<close>

definition phact_call_ok :: "config \<Rightarrow> phact_call \<Rightarrow> (pc_sched, 'z) mutex_kernel_scheme \<Rightarrow> bool" where
  "phact_call_ok c call k \<longleftrightarrow>
     (let me = k_current_task k; s = k_sched k in
      case call of
        Ph_Lock m \<Rightarrow> unat m < length (k_mutexes k) \<and> pc_midx s m < pc_tidx s me \<and> holder_of k m \<noteq> me
      | Ph_Try_Lock m \<Rightarrow> unat m < length (k_mutexes k) \<and> pc_midx s m < pc_tidx s me
      | Ph_Unlock m \<Rightarrow> unat m < length (k_mutexes k) \<and> holder_of k m = me
      | Ph_Wait r \<Rightarrow> list_all (\<lambda>m. \<not> pc_holds s me m) (ids (pc_nmutexes s))
      | Ph_Send t r \<Rightarrow> unat t < tasks_length c)"

text \<open>
  The scheduler picks a task. When none can run it picks \<open>undef\<close>, the value that its uninitialised variable
  has, and the system switches to that task: it finds no signal and blocks again.
\<close>

definition phact_next :: "u8 \<Rightarrow> pc_sched \<Rightarrow> u8 \<Rightarrow> bool" where
  "phact_next undef s t \<longleftrightarrow> pc_sched_get_next undef s = Inr (t, s) \<and> unat t < pc_ntasks s"

definition phact_picks :: "u8 \<Rightarrow> pc_sched \<Rightarrow> u8 \<Rightarrow> bool" where
  "phact_picks undef s t \<longleftrightarrow> pc_sched_get_next undef s = Inr (t, s) \<and> pc_is_runnable s t"

text \<open>
  The steps: a turn of the current task, if it is the one that the scheduler picks; signals that the kernel sends to a
  task for an event or a timer; and a switch to the task that is picked, with the flag of that task.
\<close>

inductive phact_step :: "u8 \<Rightarrow> config \<Rightarrow> 'z phact_state \<Rightarrow> 'z phact_state \<Rightarrow> bool" for undef c where
  turn: "phact_step undef c (k, threads) st'"
    if "phact_next undef (k_sched k) (k_current_task k)"
      and "threads (k_current_task k) = Ph_Running \<longrightarrow> phact_call_ok c call k"
      and "phact_turn (preemptive c) call (k, threads) = Inr st'"
| event: "phact_step undef c (k, threads) (k'\<lparr>k_preempt_disabled := k_preempt_disabled k\<rparr>, threads)"
    if "unat t < tasks_length c"
      and "kbind (preempt_disable (preemptive c))
             (\<lambda>_. signal_send_set (preemptive c) (phact_unblock (preemptive c)) t r) k = Inr ((), k')"
| switch: "phact_step undef c (k, threads) (k\<lparr>k_current_task := t, k_preempt_disabled := (threads t \<noteq> Ph_Running)\<rparr>, threads)"
    if "phact_next undef (k_sched k) t"

section \<open>The ceiling protocol\<close>

text \<open>
  Of two tasks that hold mutexes, one has preempted the other: its priority is above the ceilings of what the other
  holds.
\<close>

definition pc_nested :: "pc_sched \<Rightarrow> bool" where
  "pc_nested s \<longleftrightarrow> (\<forall>t u m n. unat t < pc_ntasks s \<longrightarrow> unat u < pc_ntasks s \<longrightarrow> t \<noteq> u \<longrightarrow> pc_holds s t n \<longrightarrow>
     pc_holds s u m \<longrightarrow> pc_tidx s t < pc_midx s m \<or> pc_tidx s u < pc_midx s n)"

definition pc_holders_run :: "pc_sched \<Rightarrow> bool" where
  "pc_holders_run s \<longleftrightarrow> (\<forall>t m. unat t < pc_ntasks s \<longrightarrow> pc_holds s t m \<longrightarrow> pc_is_runnable s t)"

lemma phact_picks_highest:
  assumes "pc_inv s" and "phact_picks undef s t" and "unat t < pc_ntasks s"
  obtains i where "pc_priority s t i"
    and "\<And>v j. unat v < pc_ntasks s \<Longrightarrow> pc_is_runnable s v \<Longrightarrow> pc_priority s v j \<Longrightarrow> i \<le> j"
  using pc_get_next_highest [OF assms(1,3), of undef] assms(2) that by (auto simp: phact_picks_def)

lemma pc_priority_own [simp]: "pc_priority s t (pc_tidx s t)" and pc_priority_ceiling: "pc_holds s t m \<Longrightarrow> pc_priority s t (pc_midx s m)"
  by (auto simp: pc_priority_def)

lemma pc_tidx_midx:
  "pc_inv s \<Longrightarrow> unat t < pc_ntasks s \<Longrightarrow> unat m < pc_nmutexes s \<Longrightarrow> pc_tidx s t \<noteq> pc_midx s m"
  unfolding pc_inv_def pc_tables_def by blast

text \<open>The task that is picked has a priority above the ceiling of every mutex that others hold.\<close>

lemma pc_above_ceilings:
  assumes inv: "pc_inv s" and nested: "pc_nested s" and run: "pc_holders_run s"
    and t: "phact_picks undef s t" "unat t < pc_ntasks s"
    and u: "unat u < pc_ntasks s" "u \<noteq> t" "pc_holds s u m"
  shows "pc_tidx s t < pc_midx s m"
proof -
  obtain i where i: "pc_priority s t i"
    and least: "\<And>v j. unat v < pc_ntasks s \<Longrightarrow> pc_is_runnable s v \<Longrightarrow> pc_priority s v j \<Longrightarrow> i \<le> j"
    using phact_picks_highest [OF inv t] by blast
  have urun: "pc_is_runnable s u" using run u by (auto simp: pc_holders_run_def)
  have m: "i \<le> pc_midx s m" by (rule least [OF u(1) urun pc_priority_ceiling [OF u(3)]])
  consider (own) "i = pc_tidx s t" | (ceiling) n where "pc_holds s t n" "i = pc_midx s n"
    using i by (auto simp: pc_priority_def)
  then show ?thesis
  proof cases
    case own
    have "unat m < pc_nmutexes s" using u(3) by (simp add: pc_holds_def)
    then show ?thesis using m own pc_tidx_midx [OF inv t(2), of m] by auto
  next
    case ceiling
    have "i \<le> pc_tidx s u" by (rule least [OF u(1) urun]) simp
    then have "\<not> pc_tidx s u < pc_midx s n" using ceiling by simp
    then show ?thesis using nested t(2) u ceiling(1) unfolding pc_nested_def by blast
  qed
qed

text \<open>So it finds free what it may lock, and locking it keeps the protocol's invariant.\<close>

lemma pc_holders_unique: "pc_inv s \<Longrightarrow> unat t < pc_ntasks s \<Longrightarrow> unat u < pc_ntasks s \<Longrightarrow> pc_holds s t m \<Longrightarrow> pc_holds s u m \<Longrightarrow> t = u"
  using pc_tidx_inj [of s t u] by (simp add: pc_holds_def)

lemma pc_finds_free:
  assumes inv: "pc_inv s" and nested: "pc_nested s" and run: "pc_holders_run s"
    and t: "phact_picks undef s t" "unat t < pc_ntasks s" "\<not> pc_holds s t m"
    and m: "unat m < pc_nmutexes s" "pc_midx s m < pc_tidx s t"
  shows "pc_locker s (pc_midx s m) = SCHED_INDEX_NONE"
proof (rule ccontr)
  assume "pc_locker s (pc_midx s m) \<noteq> SCHED_INDEX_NONE"
  then obtain u where u: "unat u < pc_ntasks s" "pc_locker s (pc_midx s m) = pc_tidx s u"
    by (rule pc_mutex_locker [OF inv m(1)])
  then have holds: "pc_holds s u m" using m by (simp add: pc_holds_def)
  with t(3) have "u \<noteq> t" by blast
  from pc_above_ceilings [OF inv nested run t(1,2) u(1) this holds] m(2) show False by simp
qed

lemma pc_nested_lock:
  assumes inv: "pc_inv s" and nested: "pc_nested s" and run: "pc_holders_run s"
    and t: "phact_picks undef s t" "unat t < pc_ntasks s" and m: "unat m < pc_nmutexes s" "pc_midx s m < pc_tidx s t"
  defines "s' \<equiv> pc_set_locker (pc_midx s m) (pc_tidx s t) s"
  shows "pc_nested s'" and "pc_holders_run s'"
proof -
  have l: "pc_tidx s t = SCHED_INDEX_NONE \<or> (\<exists>u. unat u < pc_ntasks s \<and> pc_tidx s t = pc_tidx s u \<and> pc_midx s m < pc_tidx s u)"
    using t(2) m(2) by blast
  have holds: "pc_holds s' v n \<longleftrightarrow> unat n < pc_nmutexes s \<and> (if n = m then v = t else pc_holds s v n)" if "unat v < pc_ntasks s" for v n
    using pc_set_mutex_laws(3) [OF inv m(1) l, of v n] pc_tidx_inj [OF inv t(2) that] unfolding s'_def by auto
  have above: "pc_tidx s t < pc_midx s n" if "unat v < pc_ntasks s" "v \<noteq> t" "pc_holds s v n" for v n
    by (rule pc_above_ceilings [OF inv nested run t that])
  have eq: "pc_ntasks s' = pc_ntasks s" "pc_tidx s' = pc_tidx s" "pc_midx s' = pc_midx s"
    by (simp_all add: s'_def)
  show "pc_nested s'"
    unfolding pc_nested_def eq
  proof (intro allI impI)
    fix v u a b
    assume *: "unat v < pc_ntasks s" "unat u < pc_ntasks s" "v \<noteq> u" "pc_holds s' v b" "pc_holds s' u a"
    show "pc_tidx s v < pc_midx s a \<or> pc_tidx s u < pc_midx s b"
    proof (cases "v = t \<or> u = t")
      case True
      then show ?thesis using * above holds by (auto split: if_splits)
    next
      case False
      then show ?thesis using * nested holds unfolding pc_nested_def by (metis (full_types))
    qed
  qed
  have runs: "pc_is_runnable s' v = pc_is_runnable s v" if "unat v < pc_ntasks s" for v
    unfolding s'_def by (rule pc_set_mutex_laws(2) [OF inv m(1) l that])
  show "pc_holders_run s'"
    using run t holds runs unfolding pc_holders_run_def eq phact_picks_def by (metis (full_types))
qed

text \<open>Unlocking, waking and blocking a task that holds nothing keep it, too.\<close>

lemma pc_nested_fewer:
  assumes "pc_nested s" and "pc_ntasks s' = pc_ntasks s" "pc_tidx s' = pc_tidx s" "pc_midx s' = pc_midx s"
    and "\<And>t m. unat t < pc_ntasks s \<Longrightarrow> pc_holds s' t m \<Longrightarrow> pc_holds s t m"
  shows "pc_nested s'"
  using assms unfolding pc_nested_def by metis

lemma pc_protocol_unlock:
  assumes inv: "pc_inv s" and "pc_nested s" and "pc_holders_run s" and m: "unat m < pc_nmutexes s"
  defines "s' \<equiv> pc_set_locker (pc_midx s m) SCHED_INDEX_NONE s"
  shows "pc_inv s'" and "pc_nested s'" and "pc_holders_run s'"
    and "\<And>t n. unat t < pc_ntasks s \<Longrightarrow> pc_holds s' t n \<longleftrightarrow> n \<noteq> m \<and> pc_holds s t n"
    and "\<And>t. unat t < pc_ntasks s \<Longrightarrow> pc_is_runnable s' t = pc_is_runnable s t"
proof -
  note laws = pc_set_mutex_laws [OF inv m disjI1 [OF refl], folded s'_def]
  show "pc_inv s'" by (rule laws)
  show holds: "pc_holds s' t n \<longleftrightarrow> n \<noteq> m \<and> pc_holds s t n" if "unat t < pc_ntasks s" for t n
    using laws(3) [of t n] pc_task_index(2) [OF inv that] by (auto simp: pc_holds_def)
  show runs: "pc_is_runnable s' t = pc_is_runnable s t" if "unat t < pc_ntasks s" for t
    by (rule laws(2) [OF that])
  have eq: "pc_ntasks s' = pc_ntasks s" "pc_tidx s' = pc_tidx s" "pc_midx s' = pc_midx s" by (simp_all add: s'_def)
  show "pc_nested s'" by (rule pc_nested_fewer [OF assms(2) eq]) (simp add: holds)
  show "pc_holders_run s'" using assms(3) holds runs unfolding pc_holders_run_def eq by metis
qed

lemma pc_task_holds:
  assumes inv: "pc_inv s" and t: "unat t < pc_ntasks s"
  shows "pc_holds (pc_ready t s) u m = pc_holds s u m" and "pc_holds (pc_block t s) u m = pc_holds s u m"
  using pc_tidx_midx [OF inv t, of m]
  by (auto simp: pc_holds_def pc_ready_def pc_block_def pc_locker_set [OF pc_task_index(1) [OF inv t]])

lemma pc_protocol_tasks:
  assumes inv: "pc_inv s" and "pc_nested s" and "pc_holders_run s" and t: "unat t < pc_ntasks s"
  shows "pc_nested (pc_ready t s)" and "pc_holders_run (pc_ready t s)" and "pc_nested (pc_block t s)"
    and "(\<And>m. \<not> pc_holds s t m) \<Longrightarrow> pc_holders_run (pc_block t s)"
proof -
  have eq: "pc_ntasks (pc_ready t s) = pc_ntasks s" "pc_tidx (pc_ready t s) = pc_tidx s" "pc_midx (pc_ready t s) = pc_midx s"
    "pc_ntasks (pc_block t s) = pc_ntasks s" "pc_tidx (pc_block t s) = pc_tidx s" "pc_midx (pc_block t s) = pc_midx s"
    by (simp_all add: pc_ready_def pc_block_def)
  note holds = pc_task_holds [OF inv t]
  show "pc_nested (pc_ready t s)" by (rule pc_nested_fewer [OF assms(2)]) (simp_all add: eq holds)
  show "pc_nested (pc_block t s)" by (rule pc_nested_fewer [OF assms(2)]) (simp_all add: eq holds)
  show "pc_holders_run (pc_ready t s)"
    using assms(3) by (auto simp: pc_holders_run_def eq holds pc_runnable_update(1) [OF inv t])
  show "pc_holders_run (pc_block t s)" if "\<And>m. \<not> pc_holds s t m"
    using assms(3) that by (auto simp: pc_holders_run_def eq holds pc_runnable_update(2) [OF inv t])
qed

section \<open>The invariant\<close>

text \<open>The holder of a mutex is the same in the table of mutexes and for the scheduler.\<close>

definition phact_agrees :: "(pc_sched, 'z) mutex_kernel_scheme \<Rightarrow> bool" where
  "phact_agrees k \<longleftrightarrow> (let s = k_sched k in length (k_mutexes k) = pc_nmutexes s \<and>
     (\<forall>m. unat m < pc_nmutexes s \<longrightarrow>
        (if pc_locker s (pc_midx s m) = SCHED_INDEX_NONE then holder_of k m = TASK_ID_NONE
         else unat (holder_of k m) < pc_ntasks s \<and> pc_locker s (pc_midx s m) = pc_tidx s (holder_of k m))))"

definition phact_ok :: "config \<Rightarrow> (pc_sched, 'z) mutex_kernel_scheme \<Rightarrow> bool" where
  "phact_ok c k \<longleftrightarrow> kernel_inv c pc_inv pc_ntasks k \<and> signals_ok c k \<and> length (k_mutexes k) \<le> 255 \<and>
     length (k_mutex_waiters k) = tasks_length c \<and> (\<forall>t. unat t < tasks_length c \<longrightarrow> waiting_for k t = MUTEX_ID_NONE) \<and>
     phact_agrees k \<and> pc_nested (k_sched k) \<and> pc_holders_run (k_sched k)"

text \<open>
  A task in a wait holds no mutex, and no task is ever in a lock. A task that cannot run is in a wait, and has no signal
  it waits for.
\<close>

definition phact_thread_ok :: "(pc_sched, 'z) mutex_kernel_scheme \<Rightarrow> u8 \<Rightarrow> phact_thread \<Rightarrow> bool" where
  "phact_thread_ok k t thread \<longleftrightarrow>
     (case thread of
        Ph_Running \<Rightarrow> pc_is_runnable (k_sched k) t
      | Ph_In_Wait p \<Rightarrow> (\<forall>m. \<not> pc_holds (k_sched k) t m) \<and>
          (\<exists>r. p = Sig_Yielded t r \<and> pc_is_runnable (k_sched k) t \<or>
             p = Sig_Blocked t r TASK_ID_NONE \<and> (pc_is_runnable (k_sched k) t \<or> pending_of k t AND r = 0))
      | Ph_In_Lock _ \<Rightarrow> False)"

definition phact_inv :: "config \<Rightarrow> 'z phact_state \<Rightarrow> bool" where
  "phact_inv c = (\<lambda>(k, threads). phact_ok c k \<and> (\<forall>t. unat t < tasks_length c \<longrightarrow> phact_thread_ok k t (threads t)) \<and>
     (k_preempt_disabled k \<longleftrightarrow> threads (k_current_task k) \<noteq> Ph_Running))"

lemma phact_agrees_holds:
  assumes "phact_agrees k" and "pc_inv (k_sched k)" and "unat t < pc_ntasks (k_sched k)" and "unat m < length (k_mutexes k)"
  shows "pc_holds (k_sched k) t m \<longleftrightarrow> holder_of k m = t"
  using assms pc_tidx_inj [OF assms(2), of _ t] pc_task_index(2) [OF assms(2,3)] pc_ntasks_bound [OF assms(2)]
  by (auto simp: phact_agrees_def Let_def pc_holds_def TASK_ID_NONE_def split: if_splits)

section \<open>The calls\<close>

text \<open>What a turn of the current task does to the rest of the system.\<close>

definition phact_stays :: "(pc_sched, 'z) mutex_kernel_scheme \<Rightarrow> (pc_sched, 'z) mutex_kernel_scheme \<Rightarrow> u8 \<Rightarrow> bool" where
  "phact_stays k k' t \<longleftrightarrow> (\<forall>m. pc_holds (k_sched k') t m = pc_holds (k_sched k) t m) \<and>
     (pc_is_runnable (k_sched k) t \<longrightarrow> pc_is_runnable (k_sched k') t) \<and>
     (pc_is_runnable (k_sched k') t \<or> pending_of k' t = pending_of k t)"

lemma phact_thread_ok_stays: "phact_stays k k' t \<Longrightarrow> phact_thread_ok k t thread \<Longrightarrow> phact_thread_ok k' t thread"
  by (auto simp: phact_stays_def phact_thread_ok_def split: phact_thread.splits)

definition phact_result ::
  "config \<Rightarrow> (pc_sched, 'z) mutex_kernel_scheme \<Rightarrow> phact_thread \<Rightarrow> (pc_sched, 'z) mutex_kernel_scheme \<Rightarrow> bool"
where
  "phact_result c k thread k' \<longleftrightarrow> phact_ok c k' \<and> k_current_task k' = k_current_task k \<and>
     phact_thread_ok k' (k_current_task k) thread \<and> (k_preempt_disabled k' \<longleftrightarrow> thread \<noteq> Ph_Running) \<and>
     (\<forall>t. unat t < tasks_length c \<longrightarrow> t \<noteq> k_current_task k \<longrightarrow> phact_stays k k' t)"

lemma phact_ok_facts:
  assumes "phact_ok c k"
  shows "kernel_inv (preemptive c) pc_inv pc_ntasks k" "signals_ok (preemptive c) k" "pc_inv (k_sched k)"
    "pc_ntasks (k_sched k) = tasks_length c" "unat (k_current_task k) < tasks_length c" "current_ok (preemptive c) k"
    "length (k_mutexes k) = pc_nmutexes (k_sched k)" "tasks_length c \<le> 255"
    "pc_nested (k_sched k)" "pc_holders_run (k_sched k)" "length (k_mutexes k) \<le> 255"
  using assms pc_ntasks_bound [of "k_sched k"]
  by (auto simp: phact_ok_def kernel_inv_def current_ok_def signals_ok_def phact_agrees_def Let_def)

text \<open>States that differ in nothing that matters here.\<close>

lemma phact_ok_same:
  assumes "k_sched k' = k_sched k" and "k_current_task k' = k_current_task k"
    and "length (k_signal_tasks k') = length (k_signal_tasks k)" and "k_mutexes k' = k_mutexes k"
    and "k_mutex_waiters k' = k_mutex_waiters k"
  shows "phact_ok c k' = phact_ok c k"
  using assms
  by (simp add: phact_ok_def kernel_inv_def current_ok_def signals_ok_def waiting_for_def holder_of_def phact_agrees_def)

lemma phact_ok_switch:
  fixes k :: "(pc_sched, 'z) mutex_kernel_scheme"
  assumes "phact_ok c k" and "unat t < tasks_length c"
  shows "phact_ok c (k\<lparr>k_current_task := t, k_preempt_disabled := b\<rparr>)"
proof -
  have "holder_of (k\<lparr>k_current_task := t, k_preempt_disabled := b\<rparr>) = holder_of k"
    "waiting_for (k\<lparr>k_current_task := t, k_preempt_disabled := b\<rparr>) = waiting_for k"
    by (simp_all add: holder_of_def waiting_for_def fun_eq_iff)
  then show ?thesis
    using assms by (auto simp: phact_ok_def kernel_inv_def current_ok_def signals_ok_def phact_agrees_def Let_def split: if_splits)
qed

lemma phact_try_lock_free:
  fixes k :: "(pc_sched, 'z) mutex_kernel_scheme"
  assumes "current_ok c k" and "preempt_ok c k" and "unat m < length (k_mutexes k)" and "holder_of k m = TASK_ID_NONE"
    and "pc_inv (k_sched k)" and "unat m < pc_nmutexes (k_sched k)" and "unat (k_current_task k) < pc_ntasks (k_sched k)"
    and "pc_locker (k_sched k) (pc_midx (k_sched k) m) = SCHED_INDEX_NONE"
    and "pc_midx (k_sched k) m < pc_tidx (k_sched k) (k_current_task k)"
  shows "mutex_try_lock c (phact_mutex_core c with_stats) m k =
    Inr (True, (set_holder m (k_current_task k) k)
      \<lparr>k_sched := pc_set_locker (pc_midx (k_sched k) m) (pc_tidx (k_sched k) (k_current_task k)) (k_sched k)\<rparr>)"
    (is "_ = Inr (True, ?k\<lparr>k_sched := ?s\<rparr>)")
proof -
  have [simp]: "k_preempt_disabled (set_holder m (k_current_task k) k) = k_preempt_disabled k" by (simp add: set_holder_def)
  have "on_sched (pc_sched_set_mutex_locked_by c m (k_current_task k)) ?k = Inr ((), ?k\<lparr>k_sched := ?s\<rparr>)"
    by (rule on_sched_run) (simp add: pc_sched_set_mutex_locked_by_eq assms)
  moreover have "preempt_ok c (?k\<lparr>k_sched := ?s\<rparr>)" using assms(2) by (simp add: preempt_ok_def)
  ultimately show ?thesis
    using assms by (simp add: mutex_try_lock_def phact_mutex_core_def phact_mutex_core_locked_by_def kbind_def kwhen_def kreturn_def)
qed

text \<open>A mutex that is free and may be locked is taken; the tables keep agreeing.\<close>

lemma phact_takes_ok:
  fixes k :: "(pc_sched, 'z) mutex_kernel_scheme"
  assumes ok: "phact_ok c k" and picks: "phact_picks undef (k_sched k) (k_current_task k)"
    and m: "unat m < length (k_mutexes k)" "pc_midx (k_sched k) m < pc_tidx (k_sched k) (k_current_task k)"
    and free: "pc_locker (k_sched k) (pc_midx (k_sched k) m) = SCHED_INDEX_NONE"
  defines "s' \<equiv> pc_set_locker (pc_midx (k_sched k) m) (pc_tidx (k_sched k) (k_current_task k)) (k_sched k)"
    and "k' \<equiv> leave (preemptive c) ((set_holder m (k_current_task k) (enter (preemptive c) k))
      \<lparr>k_sched := pc_set_locker (pc_midx (k_sched k) m) (pc_tidx (k_sched k) (k_current_task k)) (k_sched k)\<rparr>)"
  shows "phact_result c k Ph_Running k'" and "holder_of k' m = k_current_task k" and "pc_holds (k_sched k') (k_current_task k) m"
proof -
  note k = phact_ok_facts [OF ok]
  let ?me = "k_current_task k" and ?s = "k_sched k"
  have me: "unat ?me < pc_ntasks ?s" using k by simp
  have mm: "unat m < pc_nmutexes ?s" using m k by simp
  have l: "pc_tidx ?s ?me = SCHED_INDEX_NONE \<or> (\<exists>u. unat u < pc_ntasks ?s \<and> pc_tidx ?s ?me = pc_tidx ?s u \<and> pc_midx ?s m < pc_tidx ?s u)"
    using me m(2) by blast
  note laws = pc_set_mutex_laws [OF k(3) mm l, folded s'_def]
  note nested = pc_nested_lock [OF k(3,9,10) picks me mm m(2), folded s'_def]
  have eq: "pc_ntasks s' = pc_ntasks ?s" "pc_nmutexes s' = pc_nmutexes ?s" "pc_tidx s' = pc_tidx ?s" "pc_midx s' = pc_midx ?s"
    by (simp_all add: s'_def)
  have sched: "k_sched k' = s'" by (simp add: k'_def s'_def)
  have holder: "holder_of k' n = (if n = m then ?me else holder_of k n)" for n
    using m(1) holder_of_set [of m "enter (preemptive c) k" ?me n] by (simp add: k'_def)
  show "holder_of k' m = ?me" using holder by simp
  show "pc_holds (k_sched k') ?me m" using laws(3) [of ?me m] mm by (simp add: sched)
  have locker: "pc_locker s' (pc_midx ?s n) = (if n = m then pc_tidx ?s ?me else pc_locker ?s (pc_midx ?s n))" if "unat n < pc_nmutexes ?s" for n
    using pc_locker_set [OF pc_mutex_index(1) [OF k(3) mm]] pc_midx_inj [OF k(3) that mm] by (simp add: s'_def)
  have len: "length (k_mutexes k') = pc_nmutexes ?s" using k(7) by (simp add: k'_def set_holder_def)
  have "phact_agrees k'"
    using ok me pc_task_index(2) [OF k(3) me]
    by (auto simp: phact_ok_def phact_agrees_def Let_def sched eq holder locker len)
  moreover have frame: "k_signal_tasks k' = k_signal_tasks k" "k_mutex_waiters k' = k_mutex_waiters k" "k_current_task k' = ?me"
    by (simp_all add: k'_def set_holder_def)
  ultimately have "phact_ok c k'"
    using ok nested laws(1) k(4) k(11) k(7)
    by (auto simp: phact_ok_def sched kernel_inv_def current_ok_def signals_ok_def eq waiting_for_def frame len)
  moreover have "phact_stays k k' t" if "unat t < tasks_length c" "t \<noteq> ?me" for t
    using laws(2,3) [of t] that k(4) pc_tidx_inj [OF k(3) me, of t] free pc_task_index(2) [OF k(3), of t]
    by (auto simp: phact_stays_def sched pending_of_def frame pc_holds_def)
  moreover have "pc_is_runnable s' ?me" using laws(2) [of ?me] me picks by (simp add: phact_picks_def)
  ultimately show "phact_result c k Ph_Running k'"
    by (simp add: phact_result_def phact_thread_ok_def sched frame) (simp add: k'_def leave_def)
qed

lemma phact_free:
  fixes k :: "(pc_sched, 'z) mutex_kernel_scheme"
  assumes ok: "phact_ok c k" and picks: "phact_picks undef (k_sched k) (k_current_task k)"
    and m: "unat m < length (k_mutexes k)" "pc_midx (k_sched k) m < pc_tidx (k_sched k) (k_current_task k)"
      "holder_of k m \<noteq> k_current_task k"
  shows "pc_locker (k_sched k) (pc_midx (k_sched k) m) = SCHED_INDEX_NONE" and "holder_of k m = TASK_ID_NONE"
proof -
  note k = phact_ok_facts [OF ok]
  let ?me = "k_current_task k" and ?s = "k_sched k"
  have agrees: "phact_agrees k" using ok by (simp add: phact_ok_def)
  have "\<not> pc_holds ?s ?me m" using phact_agrees_holds [OF agrees k(3) _ m(1)] m(3) k by simp
  then show free: "pc_locker ?s (pc_midx ?s m) = SCHED_INDEX_NONE"
    using m(1,2) k by (intro pc_finds_free [OF k(3,9,10) picks]) simp_all
  then show "holder_of k m = TASK_ID_NONE" using agrees m(1) k(7) by (auto simp: phact_agrees_def Let_def)
qed

lemma phact_locks:
  fixes k :: "(pc_sched, 'z) mutex_kernel_scheme"
  assumes ok: "phact_ok c k" and picks: "phact_picks undef (k_sched k) (k_current_task k)"
    and call: "phact_call_ok c (Ph_Lock m) k"
  shows "\<exists>k'. rtos_mutex_lock (preemptive c) (phact_mutex_core (preemptive c) False) m k = Inr (Finished True, k') \<and>
    holder_of k' m = k_current_task k \<and> pc_holds (k_sched k') (k_current_task k) m \<and> phact_result c k Ph_Running k'"
proof -
  note k = phact_ok_facts [OF ok]
  let ?me = "k_current_task k" and ?s = "k_sched k"
  let ?k = "(set_holder m ?me (enter (preemptive c) k))\<lparr>k_sched := pc_set_locker (pc_midx ?s m) (pc_tidx ?s ?me) ?s\<rparr>"
  have m: "unat m < length (k_mutexes k)" "pc_midx ?s m < pc_tidx ?s ?me" "holder_of k m \<noteq> ?me"
    using call by (simp_all add: phact_call_ok_def Let_def)
  note free = phact_free [OF ok picks m]
  have tried: "mutex_try_lock (preemptive c) (phact_mutex_core (preemptive c) False) m (enter (preemptive c) k) = Inr (True, ?k)"
    using phact_try_lock_free [of "preemptive c" "enter (preemptive c) k" m False] m free k by simp
  have "preempt_ok (preemptive c) ?k" by (simp add: preempt_ok_def enter_def set_holder_def)
  then have "rtos_mutex_lock (preemptive c) (phact_mutex_core (preemptive c) False) m k = Inr (Finished True, leave (preemptive c) ?k)"
    using m k tried
    by (simp add: rtos_mutex_lock_def mutex_lock_attempt_def mutex_lock_done_def kbind_def kgets_def kreturn_def
        assert_mutex_not_held_run) (simp add: phact_mutex_core_def)
  then show ?thesis using phact_takes_ok [OF ok picks m(1,2) free(1)] by blast
qed

text \<open>Calls that change no mutex: the scheduler's state stays an allowed one, with the same lockers.\<close>

lemma phact_ok_sched:
  assumes ok: "phact_ok c k" and frame: "k_current_task k' = k_current_task k" "length (k_signal_tasks k') = length (k_signal_tasks k)"
    "k_mutexes k' = k_mutexes k" "k_mutex_waiters k' = k_mutex_waiters k" "k_sched k' = s'"
    and s': "pc_inv s'" "pc_nested s'" "pc_holders_run s'" "pc_ntasks s' = pc_ntasks (k_sched k)"
    "pc_nmutexes s' = pc_nmutexes (k_sched k)" "pc_tidx s' = pc_tidx (k_sched k)" "pc_midx s' = pc_midx (k_sched k)"
    and locker: "\<And>m. unat m < pc_nmutexes (k_sched k) \<Longrightarrow> pc_locker s' (pc_midx (k_sched k) m) = pc_locker (k_sched k) (pc_midx (k_sched k) m)"
  shows "phact_ok c k'"
proof -
  have "holder_of k' = holder_of k" "waiting_for k' = waiting_for k"
    using frame by (simp_all add: holder_of_def waiting_for_def fun_eq_iff)
  then show ?thesis
    using assms
    by (auto simp: phact_ok_def kernel_inv_def current_ok_def signals_ok_def phact_agrees_def Let_def split: if_splits)
qed

lemma phact_task_locker:
  assumes inv: "pc_inv s" and t: "unat t < pc_ntasks s" and m: "unat m < pc_nmutexes s"
  shows "pc_locker (pc_ready t s) (pc_midx s m) = pc_locker s (pc_midx s m)"
    and "pc_locker (pc_block t s) (pc_midx s m) = pc_locker s (pc_midx s m)"
  using pc_tidx_midx [OF inv t m] by (auto simp: pc_ready_def pc_block_def pc_locker_set [OF pc_task_index(1) [OF inv t]])

lemma phact_ok_tasks:
  fixes k k' :: "(pc_sched, 'z) mutex_kernel_scheme"
  assumes ok: "phact_ok c k" and t: "unat t < tasks_length c"
    and frame: "k_current_task k' = k_current_task k" "length (k_signal_tasks k') = length (k_signal_tasks k)"
      "k_mutexes k' = k_mutexes k" "k_mutex_waiters k' = k_mutex_waiters k"
  shows "k_sched k' = pc_ready t (k_sched k) \<Longrightarrow> phact_ok c k'"
    and "k_sched k' = pc_block t (k_sched k) \<Longrightarrow> \<forall>m. \<not> pc_holds (k_sched k) t m \<Longrightarrow> phact_ok c k'"
proof -
  note k = phact_ok_facts [OF ok]
  have t': "unat t < pc_ntasks (k_sched k)" using t k(4) by simp
  have eq: "pc_nmutexes (pc_ready t s) = pc_nmutexes s" "pc_tidx (pc_ready t s) = pc_tidx s" "pc_midx (pc_ready t s) = pc_midx s"
    "pc_nmutexes (pc_block t s) = pc_nmutexes s" "pc_tidx (pc_block t s) = pc_tidx s" "pc_midx (pc_block t s) = pc_midx s" for s
    by (simp_all add: pc_ready_def pc_block_def)
  show "phact_ok c k'" if "k_sched k' = pc_ready t (k_sched k)"
    by (rule phact_ok_sched [OF ok frame that])
       (use pc_update_laws [OF k(3) t'] pc_protocol_tasks [OF k(3,9,10) t'] phact_task_locker [OF k(3) t'] in \<open>simp_all add: eq\<close>)
  show "phact_ok c k'" if "k_sched k' = pc_block t (k_sched k)" "\<forall>m. \<not> pc_holds (k_sched k) t m"
    by (rule phact_ok_sched [OF ok frame that(1)])
       (use that(2) pc_update_laws [OF k(3) t'] pc_protocol_tasks [OF k(3,9,10) t'] phact_task_locker [OF k(3) t'] in \<open>simp_all add: eq\<close>)
qed

lemma phact_tries:
  fixes k :: "(pc_sched, 'z) mutex_kernel_scheme"
  assumes ok: "phact_ok c k" and picks: "phact_picks undef (k_sched k) (k_current_task k)"
    and call: "phact_call_ok c (Ph_Try_Lock m) k"
  shows "\<exists>k'. rtos_mutex_try_lock (preemptive c) (phact_mutex_core (preemptive c) False) m k =
      Inr (holder_of k m \<noteq> k_current_task k, k') \<and>
    holder_of k' m = k_current_task k \<and> phact_result c k Ph_Running k'"
proof (cases "holder_of k m = k_current_task k")
  case True
  note k = phact_ok_facts [OF ok]
  have m: "unat m < length (k_mutexes k)" using call by (simp add: phact_call_ok_def Let_def)
  have "k_current_task k \<noteq> TASK_ID_NONE" using k(5,8) by (auto simp: TASK_ID_NONE_def)
  then have "mutex_try_lock (preemptive c) (phact_mutex_core (preemptive c) False) m (enter (preemptive c) k) =
      Inr (False, enter (preemptive c) k)"
    using m True by (simp add: mutex_try_lock_def kbind_def kwhen_def kreturn_def)
  then have "rtos_mutex_try_lock (preemptive c) (phact_mutex_core (preemptive c) False) m k = Inr (False, leave (preemptive c) k)"
    using m by (simp add: rtos_mutex_try_lock_def kbind_def kreturn_def)
  moreover have "phact_ok c (leave (preemptive c) k)" using ok by (subst phact_ok_same [of _ k]) simp_all
  ultimately show ?thesis
    using True picks by (simp add: phact_result_def phact_thread_ok_def phact_stays_def pending_of_def phact_picks_def)
next
  case False
  note k = phact_ok_facts [OF ok]
  let ?me = "k_current_task k" and ?s = "k_sched k"
  let ?k = "(set_holder m ?me (enter (preemptive c) k))\<lparr>k_sched := pc_set_locker (pc_midx ?s m) (pc_tidx ?s ?me) ?s\<rparr>"
  have m: "unat m < length (k_mutexes k)" "pc_midx ?s m < pc_tidx ?s ?me"
    using call by (simp_all add: phact_call_ok_def Let_def)
  note free = phact_free [OF ok picks m False]
  have "mutex_try_lock (preemptive c) (phact_mutex_core (preemptive c) False) m (enter (preemptive c) k) = Inr (True, ?k)"
    using phact_try_lock_free [of "preemptive c" "enter (preemptive c) k" m False] m free k by simp
  moreover have "preempt_ok (preemptive c) ?k" by (simp add: preempt_ok_def enter_def set_holder_def)
  ultimately have "rtos_mutex_try_lock (preemptive c) (phact_mutex_core (preemptive c) False) m k =
      Inr (holder_of k m \<noteq> ?me, leave (preemptive c) ?k)"
    using m False by (simp add: rtos_mutex_try_lock_def kbind_def kreturn_def)
  then show ?thesis using phact_takes_ok [OF ok picks m free(1)] by blast
qed

lemma phact_unlocks:
  fixes k :: "(pc_sched, 'z) mutex_kernel_scheme"
  assumes ok: "phact_ok c k" and run: "pc_is_runnable (k_sched k) (k_current_task k)"
    and call: "phact_call_ok c (Ph_Unlock m) k"
  shows "\<exists>k'. rtos_mutex_unlock (preemptive c) (phact_mutex_core (preemptive c) False) m k = Inr ((), k') \<and>
    holder_of k' m = TASK_ID_NONE \<and> phact_result c k Ph_Running k'"
proof -
  note k = phact_ok_facts [OF ok]
  let ?c = "preemptive c" and ?me = "k_current_task k" and ?s = "k_sched k"
  let ?s' = "pc_set_locker (pc_midx ?s m) SCHED_INDEX_NONE ?s"
  let ?k1 = "pend ?c ((enter ?c k)\<lparr>k_sched := ?s'\<rparr>)"
  define k' where "k' = leave ?c (set_holder m TASK_ID_NONE ?k1)"
  have m: "unat m < length (k_mutexes k)" "holder_of k m = ?me" using call by (simp_all add: phact_call_ok_def Let_def)
  have mm: "unat m < pc_nmutexes ?s" using m k by simp
  have ne: "m \<noteq> MUTEX_ID_NONE" using m(1) k(11) by (auto simp: MUTEX_ID_NONE_def)
  have ok1: "preempt_ok ?c ?k1" "preempt_ok ?c (set_holder m TASK_ID_NONE ?k1)" "preempt_ok ?c ((enter ?c k)\<lparr>k_sched := ?s'\<rparr>)"
    by (simp_all add: preempt_ok_def enter_def pend_def set_holder_def)
  have "on_sched (pc_sched_set_mutex_unlocked m) (enter ?c k) = Inr ((), (enter ?c k)\<lparr>k_sched := ?s'\<rparr>)"
    by (rule on_sched_run) (simp add: pc_sched_set_mutex_unlocked_eq k mm)
  then have core: "phact_mutex_core_unlocked ?c m (enter ?c k) = Inr ((), ?k1)"
    using ok1 by (simp add: phact_mutex_core_unlocked_def kbind_def kreturn_def)
  have wait: "wake_waiter k_mutex_waiters k_mutex_waiters_update w MUTEX_ID_NONE m t ?k1 = Inr ((), ?k1)" if "unat t < tasks_length c" for t w
    using ok that ne by (simp add: wake_waiter_def phact_ok_def waiting_for_def kbind_def kwhen_def kreturn_def array_read_def)
  have all: "kseq (map (wake_waiter k_mutex_waiters k_mutex_waiters_update w MUTEX_ID_NONE m) ts) ?k1 = Inr ((), ?k1)"
    if "\<forall>t \<in> set ts. unat t < tasks_length c" for ts w
    using that by (induction ts) (simp_all add: kbind_def kreturn_def wait)
  have loop: "for_each 0 (tasks_length c) (wake_waiter k_mutex_waiters k_mutex_waiters_update w MUTEX_ID_NONE m) ?k1 = Inr ((), ?k1)" for w
    unfolding for_each_kseq [OF k(8)] by (rule all) (simp add: set_ids [OF k(8)])
  have assert: "api_assert_expr ?c (kbind (mutex_holder m) (\<lambda>holder.
      kbind (get_current_task ?c) (\<lambda>current. kreturn (holder = current)))) ERROR_ID_NOT_HOLDING_MUTEX k = Inr ((), k)"
    by (subst api_assert_expr_run [where b = True]) (use k m in \<open>simp_all add: kbind_def kreturn_def\<close>)
  have result: "rtos_mutex_unlock ?c (phact_mutex_core ?c False) m k = Inr ((), k')"
    using m(1) assert core loop ok1
    by (simp add: k'_def rtos_mutex_unlock_def phact_mutex_core_def kbind_def kreturn_def kwhen_def TASK_ID_ZERO_def TASK_ID_END_def)
  note laws = pc_protocol_unlock [OF k(3,9,10) mm]
  have holder: "holder_of k' n = (if n = m then TASK_ID_NONE else holder_of k n)" for n
    using m(1) holder_of_set [of m ?k1 TASK_ID_NONE n] by (simp add: k'_def)
  have locker: "pc_locker ?s' (pc_midx ?s n) = (if n = m then SCHED_INDEX_NONE else pc_locker ?s (pc_midx ?s n))" if "unat n < pc_nmutexes ?s" for n
    using pc_locker_set [OF pc_mutex_index(1) [OF k(3) mm]] pc_midx_inj [OF k(3) that mm] by simp
  have frame: "k_signal_tasks k' = k_signal_tasks k" "k_mutex_waiters k' = k_mutex_waiters k" "k_current_task k' = ?me"
    "k_sched k' = ?s'" "length (k_mutexes k') = length (k_mutexes k)"
    by (simp_all add: k'_def set_holder_def)
  have "phact_agrees k'"
    using ok by (auto simp: phact_ok_def phact_agrees_def Let_def frame holder locker)
  then have "phact_ok c k'"
    using ok laws(1-3) by (simp add: phact_ok_def kernel_inv_def current_ok_def signals_ok_def waiting_for_def frame)
  moreover have "phact_stays k k' t" if "unat t < tasks_length c" "t \<noteq> ?me" for t
    using laws(4,5) [of t] that k(4) phact_agrees_holds [of k t m] ok m
    by (auto simp: phact_stays_def frame pending_of_def phact_ok_def k)
  moreover have "pc_is_runnable ?s' ?me" using laws(5) [of ?me] k(4,5) run by simp
  ultimately have "phact_result c k Ph_Running k'"
    by (simp add: phact_result_def phact_thread_ok_def frame) (simp add: k'_def leave_def)
  then show ?thesis using result holder by auto
qed

lemma phact_task_result:
  fixes k k' :: "(pc_sched, 'z) mutex_kernel_scheme"
  assumes ok: "phact_ok c k" and "phact_ok c k'"
    and "k_current_task k' = k_current_task k" and "k_preempt_disabled k' \<longleftrightarrow> thread \<noteq> Ph_Running"
    and sched: "k_sched k' = k_sched k \<or> k_sched k' = pc_block (k_current_task k) (k_sched k) \<or>
      (\<exists>t. unat t < tasks_length c \<and> k_sched k' = pc_ready t (k_sched k))"
    and pending: "\<And>t. unat t < tasks_length c \<Longrightarrow> t \<noteq> k_current_task k \<Longrightarrow> pending_of k' t \<noteq> pending_of k t \<Longrightarrow>
      k_sched k' = pc_ready t (k_sched k)"
    and thread: "phact_thread_ok k' (k_current_task k) thread"
  shows "phact_result c k thread k'"
proof -
  note k = phact_ok_facts [OF ok]
  have "phact_stays k k' u" if u: "unat u < tasks_length c" "u \<noteq> k_current_task k" for u
    unfolding phact_stays_def
  proof (intro conjI)
    show "\<forall>m. pc_holds (k_sched k') u m = pc_holds (k_sched k) u m" using sched pc_task_holds [OF k(3)] k(4,5) by auto
    show "pc_is_runnable (k_sched k) u \<longrightarrow> pc_is_runnable (k_sched k') u"
      using sched pc_runnable_update [OF k(3) _, of _ u] k(4,5) u by auto
    show "pc_is_runnable (k_sched k') u \<or> pending_of k' u = pending_of k u"
      using pending [OF u] pc_runnable_update(1) [OF k(3), of u u] k(4) u by auto
  qed
  then show ?thesis using assms by (simp add: phact_result_def)
qed

lemma phact_sends:
  fixes k :: "(pc_sched, 'z) mutex_kernel_scheme"
  assumes ok: "phact_ok c k" and run: "pc_is_runnable (k_sched k) (k_current_task k)" and t: "unat t < tasks_length c"
  shows "\<exists>k'. rtos_signal_send_set (preemptive c) (phact_unblock (preemptive c)) t r k = Inr ((), k') \<and>
    pc_is_runnable (k_sched k') t \<and> phact_result c k Ph_Running k'"
proof -
  note k = phact_ok_facts [OF ok]
  let ?c = "preemptive c"
  define k' where "k' = leave ?c (pend ?c ((set_pending t (pending_of k t OR r) (enter ?c k))\<lparr>k_sched := pc_ready t (k_sched k)\<rparr>))"
  have result: "rtos_signal_send_set ?c (phact_unblock ?c) t r k = Inr ((), k')"
    using phact.rtos_signal_send_set_cases [OF k(1,2), of t r] t by (simp add: k'_def)
  have frame: "k_current_task k' = k_current_task k" "length (k_signal_tasks k') = length (k_signal_tasks k)"
      "k_mutexes k' = k_mutexes k" "k_mutex_waiters k' = k_mutex_waiters k" "k_sched k' = pc_ready t (k_sched k)"
    by (simp_all add: k'_def set_pending_def)
  have "phact_ok c k'" by (rule phact_ok_tasks(1) [OF ok t frame])
  moreover have "\<not> k_preempt_disabled k'" by (simp add: k'_def)
  moreover have "pending_of k' u = (if u = t then pending_of k t OR r else pending_of k u)" for u
    using t k(2) by (simp add: k'_def pending_of_set signals_ok_def)
  moreover have "pc_is_runnable (k_sched k') (k_current_task k)"
    using run pc_runnable_update(1) [OF k(3), of t "k_current_task k"] t k(4,5) frame by simp
  ultimately have "phact_result c k Ph_Running k'"
    using frame t by (intro phact_task_result [OF ok]) (auto simp: phact_thread_ok_def split: if_splits)
  moreover have "pc_is_runnable (k_sched k') t" using pc_runnable_update(1) [OF k(3), of t t] t k(4) frame by simp
  ultimately show ?thesis using result by blast
qed

lemma phact_waits:
  fixes k :: "(pc_sched, 'z) mutex_kernel_scheme"
  assumes ok: "phact_ok c k" and run: "pc_is_runnable (k_sched k) (k_current_task k)" and call: "phact_call_ok c (Ph_Wait r) k"
  shows "\<exists>p k'. rtos_signal_wait_set (preemptive c) (\<lambda>_. phact_block (preemptive c)) r k = Inr (p, k') \<and>
    phact_result c k (Ph_In_Wait p) k'"
proof -
  note k = phact_ok_facts [OF ok]
  let ?c = "preemptive c" and ?me = "k_current_task k"
  have none: "\<forall>m. \<not> pc_holds (k_sched k) ?me m"
    using call set_ids [of "pc_nmutexes (k_sched k)"] k(7,11)
    by (simp add: phact_call_ok_def Let_def list_all_iff) (auto simp: pc_holds_def)
  show ?thesis
  proof (cases "pending_of k ?me AND r = 0")
    case True
    let ?k' = "(enter ?c k)\<lparr>k_sched := pc_block ?me (k_sched k)\<rparr>"
    have "rtos_signal_wait_set ?c (\<lambda>_. phact_block ?c) r k = Inr (Sig_Blocked ?me r TASK_ID_NONE, ?k')"
      by (rule phact.rtos_signal_wait_blocks [OF k(1,2) True]) simp
    moreover have "phact_ok c ?k'" by (rule phact_ok_tasks(2) [OF ok k(5) _ _ _ _ _ none]) simp_all
    then have "phact_result c k (Ph_In_Wait (Sig_Blocked ?me r TASK_ID_NONE)) ?k'"
      using none True pc_task_holds(2) [OF k(3)] k(4,5)
      by (intro phact_task_result [OF ok]) (auto simp: phact_thread_ok_def enter_def pending_of_def)
    ultimately show ?thesis by blast
  next
    case False
    have "rtos_signal_wait_set ?c (\<lambda>_. phact_block ?c) r k = Inr (Sig_Yielded ?me r, enter ?c k)"
      using signal_wait_pending [of ?c "enter ?c k" r] False k by (simp add: rtos_signal_wait_set_def kbind_def)
    moreover have "phact_ok c (enter ?c k)" using ok by (subst phact_ok_same [of _ k]) simp_all
    then have "phact_result c k (Ph_In_Wait (Sig_Yielded ?me r)) (enter ?c k)"
      using none run by (intro phact_task_result [OF ok]) (auto simp: phact_thread_ok_def enter_def pending_of_def)
    ultimately show ?thesis by blast
  qed
qed

lemma phact_resumes:
  fixes k :: "(pc_sched, 'z) mutex_kernel_scheme"
  assumes ok: "phact_ok c k" and thread: "phact_thread_ok k (k_current_task k) (Ph_In_Wait p)" and dis: "k_preempt_disabled k"
  shows "\<exists>x k'. rtos_signal_wait_set_resume (preemptive c) (\<lambda>_. phact_block (preemptive c)) p k = Inr (x, k') \<and>
    phact_result c k (phact_thread_of Ph_In_Wait x) k'"
proof -
  note k = phact_ok_facts [OF ok]
  let ?c = "preemptive c" and ?me = "k_current_task k"
  have none: "\<forall>m. \<not> pc_holds (k_sched k) ?me m" using thread by (simp add: phact_thread_ok_def)
  have pre: "preempt_ok ?c k" using dis by (simp add: preempt_ok_def)
  have me: "unat ?me < length (k_signal_tasks k)" using k(2,5) by (simp add: signals_ok_def)
  obtain r where p: "p = Sig_Yielded ?me r \<and> pc_is_runnable (k_sched k) ?me \<or>
      p = Sig_Blocked ?me r TASK_ID_NONE \<and> (pc_is_runnable (k_sched k) ?me \<or> pending_of k ?me AND r = 0)"
    using thread by (auto simp: phact_thread_ok_def)
  show ?thesis
  proof (cases "p = Sig_Blocked ?me r TASK_ID_NONE \<and> pending_of k ?me AND r = 0")
    case True
    let ?k' = "k\<lparr>k_sched := pc_block ?me (k_sched k)\<rparr>"
    have "rtos_signal_wait_set_resume ?c (\<lambda>_. phact_block ?c) p k = Inr (Suspended (Sig_Blocked ?me r TASK_ID_NONE), ?k')"
      using signal_wait_resume_blocks_again [of ?c k ?me r "\<lambda>_. phact_block ?c" TASK_ID_NONE ?k'] phact_block_law [OF k(1) pre] True pre me
      by (simp add: rtos_signal_wait_set_resume_def co_bind_def kbind_def kreturn_def)
    moreover have "phact_ok c ?k'" by (rule phact_ok_tasks(2) [OF ok k(5) _ _ _ _ _ none]) simp_all
    then have "phact_result c k (Ph_In_Wait (Sig_Blocked ?me r TASK_ID_NONE)) ?k'"
      using none True dis pc_task_holds(2) [OF k(3)] k(4,5)
      by (intro phact_task_result [OF ok]) (auto simp: phact_thread_ok_def pending_of_def)
    ultimately show ?thesis by (auto simp: phact_thread_of_def)
  next
    case False
    let ?k' = "leave ?c (set_pending ?me (pending_of k ?me AND NOT r) k)"
    have "preempt_ok ?c (set_pending ?me (pending_of k ?me AND NOT r) k)" using pre by simp
    then have "rtos_signal_wait_set_resume ?c (\<lambda>_. phact_block ?c) p k = Inr (Finished (pending_of k ?me AND r), ?k')"
      using signal_wait_resume_finishes [OF pre me, of r "\<lambda>_. phact_block ?c" TASK_ID_NONE] signal_wait_resume_yielded [OF pre me] p False
      by (auto simp: rtos_signal_wait_set_resume_def co_bind_def co_finish_def kbind_def kreturn_def)
    moreover have "phact_ok c ?k'" using ok by (subst phact_ok_same [of _ k]) (simp_all add: set_pending_def)
    then have "phact_result c k Ph_Running ?k'"
      using False p me by (intro phact_task_result [OF ok]) (auto simp: phact_thread_ok_def pending_of_set)
    ultimately show ?thesis by (auto simp: phact_thread_of_def)
  qed
qed

section \<open>The steps\<close>

lemma phact_next_picks: "phact_next undef s t \<Longrightarrow> pc_is_runnable s t \<Longrightarrow> phact_picks undef s t"
  by (simp add: phact_next_def phact_picks_def)

text \<open>A turn of the current task does not fail, and it never ends in a lock.\<close>

lemma phact_turn_runs:
  fixes k :: "(pc_sched, 'z) mutex_kernel_scheme"
  assumes inv: "phact_inv c (k, threads)" and picks: "phact_next undef (k_sched k) (k_current_task k)"
    and call: "threads (k_current_task k) = Ph_Running \<longrightarrow> phact_call_ok c call k"
  shows "\<exists>thread k'. phact_turn (preemptive c) call (k, threads) = Inr (k', threads(k_current_task k := thread)) \<and>
    phact_result c k thread k'"
proof -
  let ?me = "k_current_task k" and ?c = "preemptive c"
  have ok: "phact_ok c k" and me: "phact_thread_ok k ?me (threads ?me)" and dis: "k_preempt_disabled k \<longleftrightarrow> threads ?me \<noteq> Ph_Running"
    using inv phact_ok_facts(5) by (auto simp: phact_inv_def)
  have "\<exists>thread k'. (if threads ?me = Ph_Running then phact_invoke ?c call else phact_continue ?c (threads ?me)) k = Inr (thread, k') \<and>
      phact_result c k thread k'"
  proof (cases "threads ?me")
    case Ph_Running
    then have run: "pc_is_runnable (k_sched k) ?me" using me by (simp add: phact_thread_ok_def)
    note picks = phact_next_picks [OF picks run]
    show ?thesis
    proof (cases call)
      case (Ph_Lock m)
      then show ?thesis
        using phact_locks [OF ok picks, of m] Ph_Running call by (auto simp: phact_invoke_def phact_thread_of_def kbind_def kreturn_def)
    next
      case (Ph_Try_Lock m)
      then show ?thesis using phact_tries [OF ok picks, of m] Ph_Running call by (auto simp: phact_invoke_def kbind_def kreturn_def)
    next
      case (Ph_Unlock m)
      then show ?thesis using phact_unlocks [OF ok run, of m] Ph_Running call by (auto simp: phact_invoke_def kbind_def kreturn_def)
    next
      case (Ph_Wait r)
      then show ?thesis using phact_waits [OF ok run, of r] Ph_Running call by (auto simp: phact_invoke_def kbind_def kreturn_def)
    next
      case (Ph_Send t r)
      then have "unat t < tasks_length c" using Ph_Running call by (simp add: phact_call_ok_def Let_def)
      from phact_sends [OF ok run this, of r] show ?thesis
        using Ph_Running Ph_Send by (auto simp: phact_invoke_def kbind_def kreturn_def)
    qed
  next
    case (Ph_In_Wait p)
    then show ?thesis using phact_resumes [OF ok, of p] me dis by (auto simp: phact_continue_def kbind_def kreturn_def)
  next
    case (Ph_In_Lock p)
    then show ?thesis using me by (simp add: phact_thread_ok_def)
  qed
  then show ?thesis by (auto simp: phact_turn_def Let_def)
qed

lemma phact_result_inv:
  assumes "phact_inv c (k, threads)" and "phact_result c k thread k'"
  shows "phact_inv c (k', threads(k_current_task k := thread))"
  using assms phact_thread_ok_stays [of k k'] by (auto simp: phact_inv_def phact_result_def)

lemma phact_event_ok:
  fixes k :: "(pc_sched, 'z) mutex_kernel_scheme"
  assumes ok: "phact_ok c k" and t: "unat t < tasks_length c"
    and run: "kbind (preempt_disable (preemptive c))
      (\<lambda>_. signal_send_set (preemptive c) (phact_unblock (preemptive c)) t r) k = Inr ((), k')"
  shows "phact_ok c (k'\<lparr>k_preempt_disabled := k_preempt_disabled k\<rparr>)" and "k_current_task k' = k_current_task k"
    and "unat u < tasks_length c \<Longrightarrow> phact_stays k (k'\<lparr>k_preempt_disabled := k_preempt_disabled k\<rparr>) u"
proof -
  note k = phact_ok_facts [OF ok]
  have k': "k' = signal_sent (preemptive c) pc_ready t r (enter (preemptive c) k)"
    using run phact.signal_send_set_sent [of c "enter (preemptive c) k" t r] k(1,2) t by (simp add: kbind_def)
  have frame: "k_current_task k' = k_current_task k" "length (k_signal_tasks k') = length (k_signal_tasks k)"
      "k_mutexes k' = k_mutexes k" "k_mutex_waiters k' = k_mutex_waiters k" "k_sched k' = pc_ready t (k_sched k)"
    by (simp_all add: k' signal_sent_def set_pending_def)
  have "phact_ok c k'" by (rule phact_ok_tasks(1) [OF ok t frame])
  then show "phact_ok c (k'\<lparr>k_preempt_disabled := k_preempt_disabled k\<rparr>)" by (subst phact_ok_same [of _ k']) simp_all
  show "k_current_task k' = k_current_task k" by (rule frame)
  have "pending_of k' u = (if u = t then pending_of k u OR r else pending_of k u)" for u
    using t k(2) by (simp add: k' pending_of_sent signals_ok_def)
  then show "phact_stays k (k'\<lparr>k_preempt_disabled := k_preempt_disabled k\<rparr>) u" if "unat u < tasks_length c"
    using that pc_runnable_update(1) [OF k(3), of t u] pc_task_holds(1) [OF k(3), of t u] t k(4) frame
    by (simp add: phact_stays_def pending_of_def)
qed

lemma phact_step_inv: "phact_step undef c st st' \<Longrightarrow> phact_inv c st \<Longrightarrow> phact_inv c st'"
proof (induction rule: phact_step.induct)
  case (turn k threads call st')
  then show ?case using phact_turn_runs [of c k threads undef call] phact_result_inv by fastforce
next
  case (event t r k k' threads)
  note ok = phact_event_ok [OF _ event(1,2)]
  show ?case
    using event(3) ok by (auto simp: phact_inv_def intro: phact_thread_ok_stays)
next
  case (switch k t threads)
  have ok: "phact_ok c k" using switch(2) by (simp add: phact_inv_def)
  have t: "unat t < tasks_length c" using switch(1) phact_ok_facts(4) [OF ok] by (simp add: phact_next_def)
  have "phact_thread_ok (k\<lparr>k_current_task := t, k_preempt_disabled := b\<rparr>) u thread = phact_thread_ok k u thread" for u thread b
    by (simp add: phact_thread_ok_def pending_of_def split: phact_thread.split)
  then show ?case using switch(2) phact_ok_switch [OF ok t] by (simp add: phact_inv_def)
qed

text \<open>The system when it starts: every task can run, and no mutex is locked.\<close>

definition phact_started :: "config \<Rightarrow> 'z phact_state \<Rightarrow> bool" where
  "phact_started c = (\<lambda>(k, threads). let s = k_sched k in
     kernel_inv c pc_inv pc_ntasks k \<and> signals_ok c k \<and> \<not> k_preempt_disabled k \<and>
     length (k_mutexes k) = pc_nmutexes s \<and> length (k_mutexes k) \<le> 255 \<and> length (k_mutex_waiters k) = tasks_length c \<and>
     (\<forall>t. unat t < tasks_length c \<longrightarrow> threads t = Ph_Running \<and> pc_is_runnable s t \<and> waiting_for k t = MUTEX_ID_NONE) \<and>
     (\<forall>m. unat m < length (k_mutexes k) \<longrightarrow> holder_of k m = TASK_ID_NONE \<and> pc_locker s (pc_midx s m) = SCHED_INDEX_NONE))"

lemma phact_started_inv:
  assumes "phact_started c st"
  shows "phact_inv c st"
proof (cases st)
  case (Pair k threads)
  have none: "\<not> pc_holds (k_sched k) t m" if "unat t < tasks_length c" for t m
    using assms Pair pc_task_index(2) [of "k_sched k" t] that
    by (auto simp: phact_started_def Let_def pc_holds_def kernel_inv_def)
  then have "phact_ok c k"
    using assms Pair
    by (simp add: phact_started_def Let_def phact_ok_def phact_agrees_def pc_nested_def pc_holders_run_def kernel_inv_def)
  moreover have "unat (k_current_task k) < tasks_length c" by (rule phact_ok_facts) (rule calculation)
  ultimately show ?thesis
    using assms Pair by (simp add: phact_started_def Let_def phact_inv_def phact_thread_ok_def)
qed

definition phact_reached :: "u8 \<Rightarrow> config \<Rightarrow> 'z phact_state \<Rightarrow> bool" where
  "phact_reached undef c st \<longleftrightarrow> (\<exists>st0. phact_started c st0 \<and> (phact_step undef c)\<^sup>*\<^sup>* st0 st)"

lemma phact_reached_inv: "phact_reached undef c st \<Longrightarrow> phact_inv c st"
proof -
  assume "phact_reached undef c st"
  then obtain st0 where "phact_started c st0" "(phact_step undef c)\<^sup>*\<^sup>* st0 st" by (auto simp: phact_reached_def)
  from this(2,1) show ?thesis by (induction rule: rtranclp_induct) (auto intro: phact_started_inv phact_step_inv)
qed

section \<open>A run\<close>

text \<open>
  The highest task waits, the one below it waits, too, and the lowest locks a mutex whose ceiling lies between the two.
  Then a signal arrives for the second task, which can run, but is below the ceiling.
\<close>

datatype phact_action = Ph_Act phact_call | Ph_Deliver u8 u8 | Ph_Switch u8

definition phact_act :: "config \<Rightarrow> phact_action \<Rightarrow> 'z phact_state \<Rightarrow> 'z phact_state option" where
  "phact_act c action = (\<lambda>(k, threads).
     case action of
       Ph_Act call \<Rightarrow>
         if phact_next 0 (k_sched k) (k_current_task k) \<and> phact_call_ok c call k
         then case phact_turn (preemptive c) call (k, threads) of Inl _ \<Rightarrow> None | Inr st \<Rightarrow> Some st
         else None
     | Ph_Deliver t r \<Rightarrow>
         if unat t < tasks_length c
         then case kbind (preempt_disable (preemptive c))
             (\<lambda>_. signal_send_set (preemptive c) (phact_unblock (preemptive c)) t r) k of
           Inl _ \<Rightarrow> None
         | Inr (_, k') \<Rightarrow> Some (k'\<lparr>k_preempt_disabled := k_preempt_disabled k\<rparr>, threads)
         else None
     | Ph_Switch t \<Rightarrow>
         if phact_next 0 (k_sched k) t
         then Some (k\<lparr>k_current_task := t, k_preempt_disabled := (threads t \<noteq> Ph_Running)\<rparr>, threads)
         else None)"

primrec phact_run :: "config \<Rightarrow> phact_action list \<Rightarrow> 'z phact_state \<Rightarrow> 'z phact_state option" where
  "phact_run c [] st = Some st"
| "phact_run c (action # actions) st = Option.bind (phact_act c action st) (phact_run c actions)"

lemma phact_act_step: "phact_act c action st = Some st' \<Longrightarrow> phact_step 0 c st st'"
  by (cases st; cases action)
    (auto simp: phact_act_def intro: phact_step.intros split: if_splits sum.splits)

lemma phact_run_reaches: "phact_run c actions st = Some st' \<Longrightarrow> (phact_step 0 c)\<^sup>*\<^sup>* st st'"
proof (induction actions arbitrary: st)
  case (Cons action actions)
  then obtain st1 where "phact_act c action st = Some st1" "phact_run c actions st1 = Some st'"
    by (auto simp: bind_eq_Some_conv)
  then show ?case using Cons.IH phact_act_step by (meson converse_rtranclp_into_rtranclp)
qed simp

definition phact_begin :: "pc_sched mutex_kernel" where
  "phact_begin =
     \<lparr>k_current_task = 0, k_preempt_disabled = False, k_preempt_pending = False, k_sched = pc_example 0 255 2 3,
      k_interrupt_event = 0, k_system_is_idle = False,
      k_signal_tasks = [\<lparr>sig_signals = 0\<rparr>, \<lparr>sig_signals = 0\<rparr>, \<lparr>sig_signals = 0\<rparr>],
      k_timer_current_ticks = 0, k_timers = [], k_timer_pending_ticks = 0, k_task_timers = [0, 1, 2], k_interrupt_events = [],
      k_mutexes = [\<lparr>mx_holder = 255\<rparr>], k_mutex_waiters = [255, 255, 255], k_mutex_stats_enabled = False, k_mutex_stats = []\<rparr>"

abbreviation phact_config :: config where
  "phact_config \<equiv> config_example 3"

definition phact_actions :: "phact_action list" where
  "phact_actions = [Ph_Act (Ph_Wait 8), Ph_Switch 1, Ph_Act (Ph_Wait 8), Ph_Switch 2, Ph_Act (Ph_Lock 0), Ph_Deliver 1 8]"

lemma phact_begin_started: "phact_started phact_config (phact_begin, \<lambda>_. Ph_Running)"
  using pc_example_inv [of 0 255 2 3]
  by (simp add: phact_started_def Let_def phact_begin_def config_example_def kernel_inv_def current_ok_def signals_ok_def
      pc_example_defs ids_all ids_simps holder_of_def waiting_for_def TASK_ID_NONE_def MUTEX_ID_NONE_def SCHED_INDEX_NONE_def unat_eq_zero)

lemma phact_run_reached:
  "phact_run phact_config actions (phact_begin, \<lambda>_. Ph_Running) = Some st \<Longrightarrow> phact_reached 0 phact_config st"
  unfolding phact_reached_def using phact_run_reaches phact_begin_started by blast

lemma phact_runs:
  "\<exists>k threads. phact_run phact_config phact_actions (phact_begin, \<lambda>_. Ph_Running) = Some (k, threads) \<and>
     phact_reached 0 phact_config (k, threads) \<and> holder_of k 0 = 2 \<and> length (k_mutexes k) = 1 \<and> k_current_task k = 2 \<and>
     pc_is_runnable (k_sched k) 1 \<and> phact_next 0 (k_sched k) 2 \<and> pc_tidx (k_sched k) 1 < pc_tidx (k_sched k) 2 \<and>
     phact_call_ok phact_config (Ph_Unlock 0) k"
proof -
  have "case phact_run phact_config phact_actions (phact_begin, \<lambda>_. Ph_Running) of None \<Rightarrow> False
    | Some (k, threads) \<Rightarrow> holder_of k 0 = 2 \<and> length (k_mutexes k) = 1 \<and> k_current_task k = 2 \<and>
        pc_is_runnable (k_sched k) 1 \<and> phact_next 0 (k_sched k) 2 \<and> pc_tidx (k_sched k) 1 < pc_tidx (k_sched k) 2 \<and>
        phact_call_ok phact_config (Ph_Unlock 0) k"
    by code_simp
  then show ?thesis
    using phact_run_reached
    by (cases "phact_run phact_config phact_actions (phact_begin, \<lambda>_. Ph_Running)") auto
qed

lemma phact_runs_lock:
  "\<exists>k threads. phact_run phact_config (take 4 phact_actions) (phact_begin, \<lambda>_. Ph_Running) = Some (k, threads) \<and>
     phact_reached 0 phact_config (k, threads) \<and> k_current_task k = 2 \<and> threads 2 = Ph_Running \<and>
     phact_next 0 (k_sched k) 2 \<and> phact_call_ok phact_config (Ph_Lock 0) k"
proof -
  have "case phact_run phact_config (take 4 phact_actions) (phact_begin, \<lambda>_. Ph_Running) of None \<Rightarrow> False
    | Some (k, threads) \<Rightarrow> k_current_task k = 2 \<and> threads 2 = Ph_Running \<and> phact_next 0 (k_sched k) 2 \<and>
        phact_call_ok phact_config (Ph_Lock 0) k"
    by code_simp
  then show ?thesis
    using phact_run_reached
    by (cases "phact_run phact_config (take 4 phact_actions) (phact_begin, \<lambda>_. Ph_Running)") auto
qed

section \<open>What the ceiling protocol gives\<close>





text \<open>
  C11: No turn of a Phact system fails, whatever it has reached: the call of the task that runs ends, or blocks the task
  in a wait with preemption disabled. It never leaves the task in a lock.
\<close>

theorem phact_turn_succeeds:
  fixes k :: "(pc_sched, 'z) mutex_kernel_scheme"
  assumes "phact_reached undef c (k, threads)" and "phact_next undef (k_sched k) (k_current_task k)"
    and "threads (k_current_task k) = Ph_Running \<longrightarrow> phact_call_ok c call k"
  shows "\<exists>k' threads'. phact_turn (preemptive c) call (k, threads) = Inr (k', threads') \<and> phact_reached undef c (k', threads') \<and>
    (\<forall>t. t \<noteq> k_current_task k \<longrightarrow> threads' t = threads t) \<and>
    (case threads' (k_current_task k) of Ph_In_Lock _ \<Rightarrow> False | Ph_In_Wait _ \<Rightarrow> k_preempt_disabled k' | Ph_Running \<Rightarrow> \<not> k_preempt_disabled k')"
proof -
  obtain thread k' where run: "phact_turn (preemptive c) call (k, threads) = Inr (k', threads(k_current_task k := thread))"
    and result: "phact_result c k thread k'"
    using phact_turn_runs [OF phact_reached_inv [OF assms(1)] assms(2,3)] by blast
  have "phact_step undef c (k, threads) (k', threads(k_current_task k := thread))"
    by (rule phact_step.turn [OF assms(2) _ run]) (use assms(3) in simp)
  then have "phact_reached undef c (k', threads(k_current_task k := thread))"
    using assms(1) unfolding phact_reached_def by (meson rtranclp.rtrancl_into_rtrancl)
  moreover have "case thread of Ph_In_Lock _ \<Rightarrow> False | Ph_In_Wait _ \<Rightarrow> k_preempt_disabled k' | Ph_Running \<Rightarrow> \<not> k_preempt_disabled k'"
    using result by (auto simp: phact_result_def phact_thread_ok_def split: phact_thread.splits)
  ultimately show ?thesis using run by (intro exI [of _ k'] exI [of _ "threads(k_current_task k := thread)"]) simp
qed

theorem phact_turn_succeeds_witness:
  "\<exists>k threads k' threads'. phact_run phact_config phact_actions (phact_begin, \<lambda>_. Ph_Running) = Some (k, threads) \<and>
     phact_turn (preemptive phact_config) (Ph_Unlock 0) (k, threads) = Inr (k', threads')"
proof -
  obtain k threads where run: "phact_run phact_config phact_actions (phact_begin, \<lambda>_. Ph_Running) = Some (k, threads)"
    and reached: "phact_reached 0 phact_config (k, threads)"
    and k: "k_current_task k = 2" "phact_next 0 (k_sched k) 2" "phact_call_ok phact_config (Ph_Unlock 0) k"
    using phact_runs by blast
  have call: "threads (k_current_task k) = Ph_Running \<longrightarrow> phact_call_ok phact_config (Ph_Unlock 0) k" using k(3) by simp
  show ?thesis using run k(1,2) phact_turn_succeeds [OF reached _ call] by fastforce
qed



end
