(* ===== verification/Debug_Output.thy ===== *)
theory Debug_Output
  imports Prelude
begin

text \<open>
  The debug printing library (\<open>packages/generic/debug.c\<close>). The platform supplies \<open>debug_putc\<close>, the
  output of one character, as the parameter \<open>putc\<close>. A C string is the list of its bytes with the
  terminating zero.
\<close>

section \<open>Model\<close>

primrec debug_print :: "(u8 \<Rightarrow> ('k, unit) kop) \<Rightarrow> u8 list \<Rightarrow> ('k, unit) kop" where
  "debug_print putc [] = kfail Out_Of_Bounds"
| "debug_print putc (ch # msg) =
     (if ch \<noteq> 0 then kbind (putc ch) (\<lambda>_. debug_print putc msg) else kreturn ())"

definition debug_println :: "(u8 \<Rightarrow> ('k, unit) kop) \<Rightarrow> u8 list \<Rightarrow> ('k, unit) kop" where
  "debug_println putc msg = kbind (debug_print putc msg) (\<lambda>_. putc 10)"

definition put_hexdigit :: "(u8 \<Rightarrow> ('k, unit) kop) \<Rightarrow> u8 \<Rightarrow> ('k, unit) kop" where
  "put_hexdigit putc val =
     putc (if val < 10 then 48 + val else if val \<ge> 10 \<and> val < 16 then 97 + (val - 10) else 63)"

definition debug_printhex32 :: "(u8 \<Rightarrow> ('k, unit) kop) \<Rightarrow> u32 \<Rightarrow> ('k, unit) kop" where
  "debug_printhex32 putc val =
     kseq [putc 48, putc 120,
           put_hexdigit putc (ucast (drop_bit 28 val AND 0xf)),
           put_hexdigit putc (ucast (drop_bit 24 val AND 0xf)),
           put_hexdigit putc (ucast (drop_bit 20 val AND 0xf)),
           put_hexdigit putc (ucast (drop_bit 16 val AND 0xf)),
           put_hexdigit putc (ucast (drop_bit 12 val AND 0xf)),
           put_hexdigit putc (ucast (drop_bit 8 val AND 0xf)),
           put_hexdigit putc (ucast (drop_bit 4 val AND 0xf)),
           put_hexdigit putc (ucast (drop_bit 0 val AND 0xf))]"

definition debug_printhex8 :: "(u8 \<Rightarrow> ('k, unit) kop) \<Rightarrow> u8 \<Rightarrow> ('k, unit) kop" where
  "debug_printhex8 putc val =
     kseq [putc 48, putc 120,
           put_hexdigit putc (drop_bit 4 val AND 0xf),
           put_hexdigit putc (drop_bit 0 val AND 0xf)]"

section \<open>Correctness\<close>

text \<open>A console that records what is printed, and a reader of hexadecimal digits.\<close>

definition record_char :: "u8 \<Rightarrow> (u8 list, unit) kop" where
  "record_char ch = kmodify (\<lambda>out. out @ [ch])"

definition hex_value :: "u8 \<Rightarrow> nat" where
  "hex_value ch = (if 97 \<le> ch then unat ch - 87 else unat ch - 48)"

definition hex_parse :: "u8 list \<Rightarrow> nat" where
  "hex_parse ds = foldl (\<lambda>n ch. 16 * n + hex_value ch) 0 ds"

definition hex_char :: "u8 \<Rightarrow> u8" where
  "hex_char val = (if val < 10 then 48 + val else 97 + (val - 10))"

lemma put_hexdigit_eq: "val < 16 \<Longrightarrow> put_hexdigit putc val = putc (hex_char val)"
  by (auto simp: put_hexdigit_def hex_char_def)

lemma hex_value_char:
  assumes "val < 16"
  shows "hex_value (hex_char val) = unat val"
proof -
  have v: "unat val < 16" using assms by (simp add: word_less_nat_alt)
  then have "unat (48 + val) = 48 + unat val" "unat (97 + (val - 10)) = 87 + unat val"
    by (simp_all add: unat_word_ariths)
  then show ?thesis
    using v by (auto simp: hex_value_def hex_char_def word_le_nat_alt word_less_nat_alt)
qed

lemma nibble32:
  "(ucast (drop_bit n w AND 0xf :: u32) :: u8) < 16"
  "unat (ucast (drop_bit n w AND 0xf :: u32) :: u8) = unat w div 2 ^ n mod 16"
proof -
  have "drop_bit n w AND (0xf :: u32) = take_bit 4 (drop_bit n w)"
    by (simp only: take_bit_eq_mask mask_eq_exp_minus_1) simp
  then have e: "unat (drop_bit n w AND (0xf :: u32)) = unat w div 2 ^ n mod 16"
    using unsigned_less [of w, where ?'a = nat]
    by (simp only: unsigned_take_bit_eq unsigned_drop_bit_eq) (simp add: take_bit_eq_mod drop_bit_eq_div)
  then show u: "unat (ucast (drop_bit n w AND 0xf :: u32) :: u8) = unat w div 2 ^ n mod 16"
    by (simp only: unsigned_ucast_eq e take_bit_eq_mod) simp
  show "(ucast (drop_bit n w AND 0xf :: u32) :: u8) < 16"
    by (simp only: word_less_nat_alt u) simp
qed

lemma hex_step: "16 * (n div 2 ^ (k + 4)) + n div 2 ^ k mod 16 = n div 2 ^ k" for n :: nat
proof -
  have "n div 2 ^ (k + 4) = n div 2 ^ k div 16" by (simp add: power_add div_mult2_eq)
  then show ?thesis by simp
qed

lemma hex_digit_value:
  "hex_value (hex_char (ucast (drop_bit n w AND 0xf :: u32))) = unat w div 2 ^ n mod 16"
  by (simp only: hex_value_char nibble32)

definition hex_digits :: "u32 \<Rightarrow> u8 list" where
  "hex_digits w = map (\<lambda>n. hex_char (ucast (drop_bit n w AND 0xf))) [28, 24, 20, 16, 12, 8, 4, 0]"

lemma hex_parse_digits: "hex_parse (hex_digits w) = unat w"
proof -
  have top: "unat w div 2 ^ 28 mod 16 = unat w div 2 ^ 28"
    using unsigned_less [of w, where ?'a = nat] by simp
  show ?thesis
    using hex_step [of "unat w" 24] hex_step [of "unat w" 20] hex_step [of "unat w" 16] hex_step [of "unat w" 12]
      hex_step [of "unat w" 8] hex_step [of "unat w" 4] hex_step [of "unat w" 0]
    by (simp only: hex_parse_def hex_digits_def list.map foldl_Cons foldl_Nil hex_digit_value top) simp
qed

lemma debug_printhex32_eq:
  "debug_printhex32 record_char w out = Inr ((), out @ [48, 120] @ hex_digits w)"
proof -
  have d: "put_hexdigit record_char (ucast (drop_bit n w AND 0xf :: u32)) =
      record_char (hex_char (ucast (drop_bit n w AND 0xf :: u32)))" for n
    by (rule put_hexdigit_eq, rule nibble32)
  show ?thesis
    by (simp only: debug_printhex32_def d) (simp add: record_char_def kop_defs hex_digits_def)
qed

text \<open>A string with a terminating zero is printed up to it.\<close>

lemma debug_print_eq:
  assumes "0 \<notin> set msg"
  shows "debug_print record_char (msg @ 0 # rest) out = Inr ((), out @ msg)"
  using assms by (induction msg arbitrary: out) (auto simp: record_char_def kop_defs)

text \<open>
  Hexadecimal output can be read back: what is printed for a word is the prefix \<open>0x\<close> and eight digits,
  whose value is the word.
\<close>

theorem debug_printhex32_roundtrip:
  "\<exists>digits. debug_printhex32 record_char w out = Inr ((), out @ [48, 120] @ digits) \<and> length digits = 8 \<and>
    hex_parse digits = unat w"
  using debug_printhex32_eq [of w out] hex_parse_digits [of w] by (intro exI [of _ "hex_digits w"]) (simp add: hex_digits_def)

end
