(* ===== verification/P2020_Drivers.thy ===== *)
theory P2020_Drivers
  imports Debug_Output
begin

text \<open>
  The drivers of the P2020 example systems for its serial ports and its interrupt controller
  (\<open>packages/machine-p2020rdb-pca/example\<close>: \<open>p2020-duart.c\<close>, \<open>p2020-pic.c\<close>, \<open>p2020-util.c\<close>). The
  hardware is a parameter: a bus with accesses of 8 and 32 bits, which may change the state of the
  device that is attached. \<open>base\<close> is the configured base address \<open>CCSRBAR\<close>.
\<close>

section \<open>Device accesses\<close>

record 'd bus =
  bus_read8 :: "u32 \<Rightarrow> ('d, u8) kop"
  bus_write8 :: "u32 \<Rightarrow> u8 \<Rightarrow> ('d, unit) kop"
  bus_read32 :: "u32 \<Rightarrow> ('d, u32) kop"
  bus_write32 :: "u32 \<Rightarrow> u32 \<Rightarrow> ('d, unit) kop"
  bus_base :: u32

text \<open>The C operators \<open>|=\<close> and \<open>&=\<close> on a register.\<close>

definition bus_or8 :: "'d bus \<Rightarrow> u32 \<Rightarrow> u8 \<Rightarrow> ('d, unit) kop" where
  "bus_or8 b a v = kbind (bus_read8 b a) (\<lambda>r. bus_write8 b a (r OR v))"

definition bus_and8 :: "'d bus \<Rightarrow> u32 \<Rightarrow> u8 \<Rightarrow> ('d, unit) kop" where
  "bus_and8 b a v = kbind (bus_read8 b a) (\<lambda>r. bus_write8 b a (r AND v))"

definition bus_or32 :: "'d bus \<Rightarrow> u32 \<Rightarrow> u32 \<Rightarrow> ('d, unit) kop" where
  "bus_or32 b a v = kbind (bus_read32 b a) (\<lambda>r. bus_write32 b a (r OR v))"

definition bus_and32 :: "'d bus \<Rightarrow> u32 \<Rightarrow> u32 \<Rightarrow> ('d, unit) kop" where
  "bus_and32 b a v = kbind (bus_read32 b a) (\<lambda>r. bus_write32 b a (r AND v))"

text \<open>A loop that polls a condition of the device; how long it runs is up to the device.\<close>

primrec poll_until :: "nat \<Rightarrow> ('d, bool) kop \<Rightarrow> ('d, unit) kop" where
  "poll_until 0 ready = kfail Diverges"
| "poll_until (Suc fuel) ready = kbind ready (\<lambda>r. if r then kreturn () else poll_until fuel ready)"

section \<open>Serial ports\<close>

definition TX_PUT_OVERRUN_CHAR :: u8 where
  "TX_PUT_OVERRUN_CHAR = 64"

text \<open>The registers of one port. Some share an address: which one is meant depends on the access.\<close>

definition DUART1_REGISTER_BASE :: "'d bus \<Rightarrow> u32" where
  "DUART1_REGISTER_BASE b = bus_base b + 0x4500"

definition DUART2_REGISTER_BASE :: "'d bus \<Rightarrow> u32" where
  "DUART2_REGISTER_BASE b = bus_base b + 0x4600"

definition DUART_REGISTER_URBR_UTHR_UDLB_OFFSET :: u32 where
  "DUART_REGISTER_URBR_UTHR_UDLB_OFFSET = 0"

definition DUART_REGISTER_UIER_UDMB_OFFSET :: u32 where
  "DUART_REGISTER_UIER_UDMB_OFFSET = 1"

definition DUART_REGISTER_UIIR_UFCR_OFFSET :: u32 where
  "DUART_REGISTER_UIIR_UFCR_OFFSET = 2"

definition DUART_REGISTER_ULCR_OFFSET :: u32 where
  "DUART_REGISTER_ULCR_OFFSET = 3"

definition DUART_REGISTER_ULSR_OFFSET :: u32 where
  "DUART_REGISTER_ULSR_OFFSET = 5"

definition DUART_URBR1 :: "'d bus \<Rightarrow> u32" where
  "DUART_URBR1 b = DUART1_REGISTER_BASE b + DUART_REGISTER_URBR_UTHR_UDLB_OFFSET"

definition DUART_UIER1 :: "'d bus \<Rightarrow> u32" where
  "DUART_UIER1 b = DUART1_REGISTER_BASE b + DUART_REGISTER_UIER_UDMB_OFFSET"

definition DUART_ULCR1 :: "'d bus \<Rightarrow> u32" where
  "DUART_ULCR1 b = DUART1_REGISTER_BASE b + DUART_REGISTER_ULCR_OFFSET"

definition DUART_ULSR1 :: "'d bus \<Rightarrow> u32" where
  "DUART_ULSR1 b = DUART1_REGISTER_BASE b + DUART_REGISTER_ULSR_OFFSET"

definition DUART_URBR2 :: "'d bus \<Rightarrow> u32" where
  "DUART_URBR2 b = DUART2_REGISTER_BASE b + DUART_REGISTER_URBR_UTHR_UDLB_OFFSET"

definition DUART_UIER2 :: "'d bus \<Rightarrow> u32" where
  "DUART_UIER2 b = DUART2_REGISTER_BASE b + DUART_REGISTER_UIER_UDMB_OFFSET"

definition DUART_UIIR2 :: "'d bus \<Rightarrow> u32" where
  "DUART_UIIR2 b = DUART2_REGISTER_BASE b + DUART_REGISTER_UIIR_UFCR_OFFSET"

definition DUART_ULCR2 :: "'d bus \<Rightarrow> u32" where
  "DUART_ULCR2 b = DUART2_REGISTER_BASE b + DUART_REGISTER_ULCR_OFFSET"

definition DUART_ULSR2 :: "'d bus \<Rightarrow> u32" where
  "DUART_ULSR2 b = DUART2_REGISTER_BASE b + DUART_REGISTER_ULSR_OFFSET"

definition ULCR_DLAB_SET :: u8 where "ULCR_DLAB_SET = 0x80"
definition ULCR_DLAB_CLEAR :: u8 where "ULCR_DLAB_CLEAR = 0x7f"
definition ULCR_WLS_8_BITS :: u8 where "ULCR_WLS_8_BITS = 0x3"
definition UIER_MASK_ALL :: u8 where "UIER_MASK_ALL = 0"
definition UIER_ETHREI_SET :: u8 where "UIER_ETHREI_SET = 0x2"
definition UIER_ERDAI_SET :: u8 where "UIER_ERDAI_SET = 0x1"
definition ULSR_THRE_SET :: u8 where "ULSR_THRE_SET = 0x20"
definition ULSR_OE_SET :: u8 where "ULSR_OE_SET = 0x2"
definition ULSR_DR_SET :: u8 where "ULSR_DR_SET = 0x1"
definition UFCR_FEN_SET :: u8 where "UFCR_FEN_SET = 0x1"
definition UFCR_RFR_SET :: u8 where "UFCR_RFR_SET = 0x2"
definition UFCR_RTL_14_BYTES :: u8 where "UFCR_RTL_14_BYTES = 0xc"
definition DIVISOR_115200_600MHZ_UPPER :: u8 where "DIVISOR_115200_600MHZ_UPPER = 0x1"
definition DIVISOR_115200_600MHZ_LOWER :: u8 where "DIVISOR_115200_600MHZ_LOWER = 0x46"
definition DUART_IID_BITMASK :: u8 where "DUART_IID_BITMASK = 0xf"
definition DUART_IID_NONE :: u8 where "DUART_IID_NONE = 0x1"
definition DUART_IID_CTO :: u8 where "DUART_IID_CTO = 0xc"
definition DUART_IID_RDA :: u8 where "DUART_IID_RDA = 0x4"
definition DUART_IID_THRE :: u8 where "DUART_IID_THRE = 0x2"

lemmas duart_register_defs =
  DUART1_REGISTER_BASE_def DUART2_REGISTER_BASE_def DUART_REGISTER_URBR_UTHR_UDLB_OFFSET_def
  DUART_REGISTER_UIER_UDMB_OFFSET_def DUART_REGISTER_UIIR_UFCR_OFFSET_def DUART_REGISTER_ULCR_OFFSET_def
  DUART_REGISTER_ULSR_OFFSET_def DUART_URBR1_def DUART_UIER1_def DUART_ULCR1_def DUART_ULSR1_def
  DUART_URBR2_def DUART_UIER2_def DUART_UIIR2_def DUART_ULCR2_def DUART_ULSR2_def

definition duart2_iid_get :: "'d bus \<Rightarrow> ('d, u8) kop" where
  "duart2_iid_get b = kbind (bus_read8 b (DUART_UIIR2 b)) (\<lambda>v. kreturn (v AND DUART_IID_BITMASK))"

definition duart2_tx_interrupt_init :: "'d bus \<Rightarrow> ('d, unit) kop" where
  "duart2_tx_interrupt_init b = bus_or8 b (DUART_UIER2 b) UIER_ETHREI_SET"

definition duart2_rx_interrupt_init :: "'d bus \<Rightarrow> ('d, unit) kop" where
  "duart2_rx_interrupt_init b = bus_or8 b (DUART_UIER2 b) UIER_ERDAI_SET"

definition duart2_init :: "'d bus \<Rightarrow> ('d, unit) kop" where
  "duart2_init b =
     kseq [bus_or8 b (DUART_ULCR2 b) ULCR_DLAB_SET,
           bus_write8 b (DUART_UIER2 b) DIVISOR_115200_600MHZ_UPPER,
           bus_write8 b (DUART_URBR2 b) DIVISOR_115200_600MHZ_LOWER,
           bus_and8 b (DUART_ULCR2 b) ULCR_DLAB_CLEAR,
           bus_or8 b (DUART_ULCR2 b) ULCR_WLS_8_BITS,
           bus_write8 b (DUART_UIER2 b) UIER_MASK_ALL,
           bus_write8 b (DUART_UIIR2 b) (UFCR_RTL_14_BYTES OR UFCR_FEN_SET)]"

text \<open>The read of this \<open>|=\<close> is of \<open>UIIR\<close>, which shares the address of \<open>UFCR\<close>.\<close>

definition duart2_rx_fifo_reset :: "'d bus \<Rightarrow> ('d, unit) kop" where
  "duart2_rx_fifo_reset b = bus_or8 b (DUART_UIIR2 b) UFCR_RFR_SET"

definition duart2_rx_overrun :: "'d bus \<Rightarrow> ('d, bool) kop" where
  "duart2_rx_overrun b = kbind (bus_read8 b (DUART_ULSR2 b)) (\<lambda>v. kreturn (v AND ULSR_OE_SET \<noteq> 0))"

definition duart2_rx_ready :: "'d bus \<Rightarrow> ('d, bool) kop" where
  "duart2_rx_ready b = kbind (bus_read8 b (DUART_ULSR2 b)) (\<lambda>v. kreturn (v AND ULSR_DR_SET \<noteq> 0))"

definition duart2_rx_get :: "'d bus \<Rightarrow> ('d, u8) kop" where
  "duart2_rx_get b = bus_read8 b (DUART_URBR2 b)"

definition duart2_tx_ready :: "'d bus \<Rightarrow> ('d, bool) kop" where
  "duart2_tx_ready b = kbind (bus_read8 b (DUART_ULSR2 b)) (\<lambda>v. kreturn (v AND ULSR_THRE_SET \<noteq> 0))"

definition duart2_tx_put :: "'d bus \<Rightarrow> nat \<Rightarrow> u8 \<Rightarrow> ('d, unit) kop" where
  "duart2_tx_put b fuel ch =
     kbind (duart2_tx_ready b) (\<lambda>ready.
     if \<not> ready
     then kbind (poll_until fuel (duart2_tx_ready b)) (\<lambda>_. bus_write8 b (DUART_URBR2 b) TX_PUT_OVERRUN_CHAR)
     else bus_write8 b (DUART_URBR2 b) ch)"

definition duart2_interrupt_disable :: "'d bus \<Rightarrow> ('d, unit) kop" where
  "duart2_interrupt_disable b = bus_write8 b (DUART_UIER2 b) UIER_MASK_ALL"

definition duart1_rx_ready :: "'d bus \<Rightarrow> ('d, bool) kop" where
  "duart1_rx_ready b = kbind (bus_read8 b (DUART_ULSR1 b)) (\<lambda>v. kreturn (v AND ULSR_DR_SET \<noteq> 0))"

definition duart1_rx_get :: "'d bus \<Rightarrow> ('d, u8) kop" where
  "duart1_rx_get b = bus_read8 b (DUART_URBR1 b)"

definition duart1_tx_ready :: "'d bus \<Rightarrow> ('d, bool) kop" where
  "duart1_tx_ready b = kbind (bus_read8 b (DUART_ULSR1 b)) (\<lambda>v. kreturn (v AND ULSR_THRE_SET \<noteq> 0))"

definition duart1_tx_put :: "'d bus \<Rightarrow> nat \<Rightarrow> u8 \<Rightarrow> ('d, unit) kop" where
  "duart1_tx_put b fuel ch =
     kbind (duart1_tx_ready b) (\<lambda>ready.
     if \<not> ready
     then kbind (poll_until fuel (duart1_tx_ready b)) (\<lambda>_. bus_write8 b (DUART_URBR1 b) TX_PUT_OVERRUN_CHAR)
     else bus_write8 b (DUART_URBR1 b) ch)"

definition duart1_rx_interrupt_init :: "'d bus \<Rightarrow> ('d, unit) kop" where
  "duart1_rx_interrupt_init b = bus_or8 b (DUART_UIER1 b) UIER_ERDAI_SET"

definition duart1_init :: "'d bus \<Rightarrow> ('d, unit) kop" where
  "duart1_init b =
     kseq [bus_or8 b (DUART_ULCR1 b) ULCR_DLAB_SET,
           bus_write8 b (DUART_UIER1 b) DIVISOR_115200_600MHZ_UPPER,
           bus_write8 b (DUART_URBR1 b) DIVISOR_115200_600MHZ_LOWER,
           bus_and8 b (DUART_ULCR1 b) ULCR_DLAB_CLEAR,
           bus_or8 b (DUART_ULCR1 b) ULCR_WLS_8_BITS,
           bus_write8 b (DUART_UIER1 b) UIER_MASK_ALL]"

section \<open>Debug output\<close>

text \<open>The static variable \<open>initted\<close> is a part of the state beside the device.\<close>

definition on_device :: "('d, 'a) kop \<Rightarrow> ('d \<times> bool, 'a) kop" where
  "on_device m s = (case m (fst s) of Inl e \<Rightarrow> Inl e | Inr (a, d) \<Rightarrow> Inr (a, d, snd s))"

definition duart_putc :: "'d bus \<Rightarrow> nat \<Rightarrow> u8 \<Rightarrow> ('d \<times> bool, unit) kop" where
  "duart_putc b fuel ch =
     kbind (on_device (poll_until fuel (duart1_tx_ready b))) (\<lambda>_.
     kbind (kgets snd) (\<lambda>initted.
     kbind (kwhen (\<not> initted)
       (kbind (on_device (duart1_init b)) (\<lambda>_. kmodify (\<lambda>s. (fst s, True))))) (\<lambda>_.
     on_device (duart1_tx_put b fuel ch))))"

definition p2020_debug_putc :: "'d bus \<Rightarrow> nat \<Rightarrow> u8 \<Rightarrow> ('d \<times> bool, unit) kop" where
  "p2020_debug_putc b fuel ch =
     (if ch = 13 \<or> ch = 10
      then kbind (duart_putc b fuel 10) (\<lambda>_. duart_putc b fuel 13)
      else duart_putc b fuel ch)"

definition machine_pic_init :: "'d bus \<Rightarrow> ('d, unit) kop" where
  "machine_pic_init b = bus_write32 b (bus_base b + 0x40000 + 0x1020) 0x20000000"

section \<open>Interrupt controller\<close>

definition c_string :: "string \<Rightarrow> u8 list" where
  "c_string msg = map of_char msg @ [0]"

definition PIC_REGISTER_BASE :: "'d bus \<Rightarrow> u32" where
  "PIC_REGISTER_BASE b = bus_base b + 0x40000"

definition PIC_CTPR_CPU0 :: "'d bus \<Rightarrow> u32" where
  "PIC_CTPR_CPU0 b = PIC_REGISTER_BASE b + 0x20080"

definition PIC_IACK_CPU0 :: "'d bus \<Rightarrow> u32" where
  "PIC_IACK_CPU0 b = PIC_REGISTER_BASE b + 0x200a0"

definition PIC_EOI_CPU0 :: "'d bus \<Rightarrow> u32" where
  "PIC_EOI_CPU0 b = PIC_REGISTER_BASE b + 0x200b0"

definition PIC_INTERRUPT_PRIORITY_MAX :: u32 where "PIC_INTERRUPT_PRIORITY_MAX = 15"
definition PIC_INTERRUPT_VECTOR_MAX :: u32 where "PIC_INTERRUPT_VECTOR_MAX = 0xffff"
definition PIC_SPURIOUS_VECTOR_CODE :: u32 where "PIC_SPURIOUS_VECTOR_CODE = 0xffff"
definition PIC_NUM_GLOBAL_TIMERS :: u32 where "PIC_NUM_GLOBAL_TIMERS = 8"
definition PIC_NUM_GLOBAL_TIMERS_PER_GROUP :: u32 where "PIC_NUM_GLOBAL_TIMERS_PER_GROUP = 4"
definition PIC_GTBCR_BASE_COUNT_MAX :: u32 where "PIC_GTBCR_BASE_COUNT_MAX = 0x7fffffff"
definition PIC_IIVPR_MSK_MASK :: u32 where "PIC_IIVPR_MSK_MASK = 0x7fffffff"
definition PIC_IIV_DUART :: u32 where "PIC_IIV_DUART = 26"
definition PIC_EOI_CODE :: u32 where "PIC_EOI_CODE = 0"

definition PIC_IIVPR :: "'d bus \<Rightarrow> u32 \<Rightarrow> u32" where
  "PIC_IIVPR b x = PIC_REGISTER_BASE b + 0x10200 + 32 * x"

definition PIC_GTBCRA :: "'d bus \<Rightarrow> u32 \<Rightarrow> u32" where
  "PIC_GTBCRA b x = PIC_REGISTER_BASE b + 0x1110 + 64 * x"

definition PIC_GTVPRA :: "'d bus \<Rightarrow> u32 \<Rightarrow> u32" where
  "PIC_GTVPRA b x = PIC_REGISTER_BASE b + 0x1120 + 64 * x"

definition PIC_GTBCRB :: "'d bus \<Rightarrow> u32 \<Rightarrow> u32" where
  "PIC_GTBCRB b x = PIC_REGISTER_BASE b + 0x2110 + 64 * x"

definition PIC_GTVPRB :: "'d bus \<Rightarrow> u32 \<Rightarrow> u32" where
  "PIC_GTVPRB b x = PIC_REGISTER_BASE b + 0x2120 + 64 * x"

text \<open>An error is printed, and then the code loops forever.\<close>

definition pic_panic :: "(u8 \<Rightarrow> ('k, unit) kop) \<Rightarrow> string \<Rightarrow> string \<Rightarrow> ('k, unit) kop" where
  "pic_panic putc caller msg =
     kbind (debug_print putc (c_string caller)) (\<lambda>_.
     kbind (debug_println putc (c_string msg)) (\<lambda>_. kfail Diverges))"

definition assert_priority_vector_valid ::
  "(u8 \<Rightarrow> ('k, unit) kop) \<Rightarrow> string \<Rightarrow> u32 \<Rightarrow> u32 \<Rightarrow> ('k, unit) kop"
where
  "assert_priority_vector_valid putc caller priority vector =
     kbind (kwhen (priority > PIC_INTERRUPT_PRIORITY_MAX)
       (pic_panic putc caller '': Priority must be in range 0..15!'')) (\<lambda>_.
     kwhen (vector > PIC_INTERRUPT_VECTOR_MAX)
       (pic_panic putc caller '': Vector cannot be larger than 0xffff!''))"

definition pic_iiv_duart_init :: "'d bus \<Rightarrow> nat \<Rightarrow> u32 \<Rightarrow> u32 \<Rightarrow> ('d \<times> bool, unit) kop" where
  "pic_iiv_duart_init b fuel priority vector =
     kseq [assert_priority_vector_valid (p2020_debug_putc b fuel) ''pic_iiv_duart_init'' priority vector,
           on_device (bus_or32 b (PIC_IIVPR b PIC_IIV_DUART) (push_bit 16 priority)),
           on_device (bus_write32 b (PIC_CTPR_CPU0 b) 0),
           on_device (bus_or32 b (PIC_IIVPR b PIC_IIV_DUART) vector),
           on_device (bus_and32 b (PIC_IIVPR b PIC_IIV_DUART) PIC_IIVPR_MSK_MASK)]"

definition pic_iack_get :: "'d bus \<Rightarrow> ('d, u32) kop" where
  "pic_iack_get b = bus_read32 b (PIC_IACK_CPU0 b)"

definition pic_eoi_put :: "'d bus \<Rightarrow> ('d, unit) kop" where
  "pic_eoi_put b = bus_write32 b (PIC_EOI_CPU0 b) PIC_EOI_CODE"

definition pic_global_timer_init ::
  "'d bus \<Rightarrow> nat \<Rightarrow> u32 \<Rightarrow> u32 \<Rightarrow> u32 \<Rightarrow> u32 \<Rightarrow> ('d \<times> bool, unit) kop"
where
  "pic_global_timer_init b fuel i priority vector base_count =
     (let putc = p2020_debug_putc b fuel; caller = ''pic_global_timer_init'';
          vpr = push_bit 16 priority OR vector;
          j = i - PIC_NUM_GLOBAL_TIMERS_PER_GROUP
      in
      kseq [kwhen (i \<ge> PIC_NUM_GLOBAL_TIMERS)
              (pic_panic putc caller '': There are only 8 timers - only i in range 0..7 are valid!''),
            kwhen (base_count > PIC_GTBCR_BASE_COUNT_MAX)
              (pic_panic putc caller '': Base count cannot exceed 0x7fffffff!''),
            assert_priority_vector_valid putc caller priority vector,
            if i < PIC_NUM_GLOBAL_TIMERS_PER_GROUP
            then kseq [on_device (bus_write32 b (PIC_GTVPRA b i) vpr), on_device (bus_write32 b (PIC_GTBCRA b i) base_count)]
            else kseq [on_device (bus_write32 b (PIC_GTVPRB b j) vpr), on_device (bus_write32 b (PIC_GTBCRB b j) base_count)]])"

section \<open>A serial port\<close>

text \<open>
  The device the duart2 routines expect, as far as they use it: a receive queue, the transmitted
  characters, and the registers, with the documented sharing of addresses. The \<open>FEN\<close> bit of the FIFO
  control register enables the queues.
\<close>

record uart =
  u_rx :: "u8 list"
  u_tx :: "u8 list"
  u_tx_ready :: bool
  u_overrun :: bool
  u_uier :: u8
  u_ulcr :: u8
  u_divisor :: "u8 \<times> u8"
  u_uiir :: u8
  u_ufcr :: u8

definition uart_read8 :: "u32 \<Rightarrow> (uart, u8) kop" where
  "uart_read8 offset =
     (if offset = 0 then
        kbind (kgets u_rx) (\<lambda>rx. case rx of
          [] \<Rightarrow> kreturn 0
        | ch # rest \<Rightarrow> kbind (kmodify (\<lambda>d. d\<lparr>u_rx := rest\<rparr>)) (\<lambda>_. kreturn ch))
      else if offset = 1 then kgets u_uier
      else if offset = 2 then kgets u_uiir
      else if offset = 3 then kgets u_ulcr
      else if offset = 5 then
        kgets (\<lambda>d. (if u_tx_ready d then ULSR_THRE_SET else 0) OR
          (if u_overrun d then ULSR_OE_SET else 0) OR (if u_rx d \<noteq> [] then ULSR_DR_SET else 0))
      else kfail Out_Of_Bounds)"

definition uart_write8 :: "u32 \<Rightarrow> u8 \<Rightarrow> (uart, unit) kop" where
  "uart_write8 offset v =
     kbind (kgets (\<lambda>d. u_ulcr d AND ULCR_DLAB_SET \<noteq> 0)) (\<lambda>dlab.
     kmodify (\<lambda>d.
       if offset = 0 then
         if dlab then d\<lparr>u_divisor := (v, snd (u_divisor d))\<rparr> else d\<lparr>u_tx := u_tx d @ [v]\<rparr>
       else if offset = 1 then
         if dlab then d\<lparr>u_divisor := (fst (u_divisor d), v)\<rparr> else d\<lparr>u_uier := v\<rparr>
       else if offset = 2 then d\<lparr>u_ufcr := v\<rparr>
       else if offset = 3 then d\<lparr>u_ulcr := v\<rparr> else d))"

definition uart_bus :: "u32 \<Rightarrow> uart bus" where
  "uart_bus base =
     \<lparr>bus_read8 = (\<lambda>a. uart_read8 (a - (base + 0x4600))), bus_write8 = (\<lambda>a. uart_write8 (a - (base + 0x4600))),
      bus_read32 = (\<lambda>_. kreturn 0), bus_write32 = (\<lambda>_ _. kreturn ()), bus_base = base\<rparr>"

lemma uart_bus_simps [simp]:
  "bus_base (uart_bus base) = base"
  "bus_read8 (uart_bus base) (base + 0x4600 + off) = uart_read8 off"
  "bus_write8 (uart_bus base) (base + 0x4600 + off) = uart_write8 off"
  by (simp_all add: uart_bus_def)

end
