(* ===== verification/P2020_Examples.thy ===== *)
theory P2020_Examples
  imports Signals P2020_Drivers
begin

text \<open>
  The example systems of the P2020 machine package: the interrupt handler that buffers received bytes
  (\<open>interrupt-buffering-example.c\<close>), the tasks that use the buffer (\<open>task-echo-example.c\<close>,
  \<open>task-sync-example.c\<close>), and the handler that turns interrupt sources into interrupt events
  (\<open>interrupt-demux-example.c\<close>). The state is that of the kernel with the device and the buffers.
\<close>

section \<open>State\<close>

definition BUF_CAPACITY :: u32 where
  "BUF_CAPACITY = 256"

definition MSG_SIZE :: u32 where
  "MSG_SIZE = 42"

record ('s, 'd) p2020_kernel = "'s signal_kernel" +
  k_device :: "'d \<times> bool"
  k_rx_buf :: "u8 list"
  k_rx_count :: u32
  k_msg_buf :: "u8 list"
  k_msg_len :: u32

definition machine :: "('d \<times> bool, 'a) kop \<Rightarrow> (('s, 'd, 'z) p2020_kernel_scheme, 'a) kop" where
  "machine m k = (case m (k_device k) of Inl e \<Rightarrow> Inl e | Inr (a, d) \<Rightarrow> Inr (a, k\<lparr>k_device := d\<rparr>))"

definition device :: "('d, 'a) kop \<Rightarrow> (('s, 'd, 'z) p2020_kernel_scheme, 'a) kop" where
  "device m = machine (on_device m)"

definition print :: "'d bus \<Rightarrow> nat \<Rightarrow> string \<Rightarrow> (('s, 'd, 'z) p2020_kernel_scheme, unit) kop" where
  "print b fuel msg = machine (debug_print (p2020_debug_putc b fuel) (c_string msg))"

definition println :: "'d bus \<Rightarrow> nat \<Rightarrow> string \<Rightarrow> (('s, 'd, 'z) p2020_kernel_scheme, unit) kop" where
  "println b fuel msg = machine (debug_println (p2020_debug_putc b fuel) (c_string msg))"

definition printhex32 :: "'d bus \<Rightarrow> nat \<Rightarrow> u32 \<Rightarrow> (('s, 'd, 'z) p2020_kernel_scheme, unit) kop" where
  "printhex32 b fuel val = machine (debug_printhex32 (p2020_debug_putc b fuel) val)"

text \<open>
  After printing the error, \<open>fatal\<close> disables interrupts and loops forever, which is the end of the
  run; it has the result that \<open>fatal_error\<close> has in the kernel.
\<close>

definition fatal :: "'d bus \<Rightarrow> nat \<Rightarrow> u8 \<Rightarrow> (('s, 'd, 'z) p2020_kernel_scheme, unit) kop" where
  "fatal b fuel error_id =
     kseq [print b fuel ''FATAL ERROR: '', printhex32 b fuel (ucast error_id), println b fuel [],
           kfail (Fatal error_id)]"

text \<open>The identifiers that the configuration of the systems assigns.\<close>

record p2020_ids =
  EVENT_TX :: u8
  EVENT_RX :: u8
  EVENT_RX_OVERRUN :: u8
  SIGNAL_RX :: u8
  SIGNAL_RX_OVERRUN :: u8
  SIGNAL_TX :: u8
  TASK_A :: u8
  TASK_B :: u8

section \<open>Buffering received bytes\<close>

definition EXAMPLE_ERROR_ID_RX_BUF_OVERRUN :: u8 where "EXAMPLE_ERROR_ID_RX_BUF_OVERRUN = 0xfc"
definition EXAMPLE_ERROR_ID_RX_SPURIOUS_RDA :: u8 where "EXAMPLE_ERROR_ID_RX_SPURIOUS_RDA = 0xfd"
definition EXAMPLE_ERROR_ID_BUFFER_COUNT_OOB :: u8 where "EXAMPLE_ERROR_ID_BUFFER_COUNT_OOB = 0xfe"
definition EXAMPLE_ERROR_ID_RX_FIFO_OVERRUN :: u8 where "EXAMPLE_ERROR_ID_RX_FIFO_OVERRUN = 0xff"
definition PIC_IIV_DUART_EXAMPLE_PRIORITY :: u32 where "PIC_IIV_DUART_EXAMPLE_PRIORITY = 2"
definition PIC_IIV_DUART_EXAMPLE_VECTOR :: u32 where "PIC_IIV_DUART_EXAMPLE_VECTOR = 0xbeef"

text \<open>The loop that dumps the receive queue before the fatal error.\<close>

primrec dump_rx_fifo :: "'d bus \<Rightarrow> nat \<Rightarrow> nat \<Rightarrow> ('d \<times> bool, unit) kop" where
  "dump_rx_fifo b fuel 0 = kfail Diverges"
| "dump_rx_fifo b fuel (Suc n) =
     kbind (on_device (duart2_rx_ready b)) (\<lambda>ready.
     if ready
     then kbind (on_device (duart2_rx_get b)) (\<lambda>ch.
       kbind (p2020_debug_putc b fuel ch) (\<lambda>_. dump_rx_fifo b fuel n))
     else kreturn ())"

text \<open>
  The loop that fills the buffer runs at most once per free byte; \<open>n\<close> bounds its iterations.
\<close>

primrec rx_loop :: "'d bus \<Rightarrow> nat \<Rightarrow> nat \<Rightarrow> (('s, 'd, 'z) p2020_kernel_scheme, unit) kop" where
  "rx_loop b fuel 0 = kfail Diverges"
| "rx_loop b fuel (Suc n) =
     kbind (kgets k_rx_count) (\<lambda>rx_count.
     kbind (if rx_count < BUF_CAPACITY then device (duart2_rx_ready b) else kreturn False) (\<lambda>more.
     if more
     then
       kbind (device (duart2_rx_overrun b)) (\<lambda>overrun.
       kbind (kwhen overrun
         (kseq [println b fuel ''overrun! dumping FIFO for debug'', machine (dump_rx_fifo b fuel fuel),
                fatal b fuel EXAMPLE_ERROR_ID_RX_FIFO_OVERRUN])) (\<lambda>_.
       kbind (device (duart2_rx_get b)) (\<lambda>ch.
       kbind (array_modify k_rx_buf k_rx_buf_update rx_count (\<lambda>_. ch)) (\<lambda>_.
       kbind (kmodify (\<lambda>k. k\<lparr>k_rx_count := k_rx_count k + 1\<rparr>)) (\<lambda>_.
       rx_loop b fuel n)))))
     else kreturn ()))"

definition exti_duart_interrupt_handle ::
  "p2020_ids \<Rightarrow> 'd bus \<Rightarrow> nat \<Rightarrow> u8 \<Rightarrow> (('s, 'd, 'z) p2020_kernel_scheme, bool) kop"
where
  "exti_duart_interrupt_handle cfg b fuel iid =
     (if iid = DUART_IID_THRE
      then kbind (ppce500_interrupt_event_raise (EVENT_TX cfg)) (\<lambda>_. kreturn True)
      else if iid = DUART_IID_CTO \<or> iid = DUART_IID_RDA
      then
        kbind (kgets k_rx_count) (\<lambda>original_rx_count.
        kbind (rx_loop b fuel (Suc (unat BUF_CAPACITY))) (\<lambda>_.
        kbind (kgets k_rx_count) (\<lambda>rx_count.
        kbind
          (if rx_count = BUF_CAPACITY
           then kseq [ppce500_interrupt_event_raise (EVENT_RX_OVERRUN cfg),
                      device (duart2_rx_fifo_reset b),
                      kbind (device (duart2_rx_get b)) (\<lambda>_. kreturn ())]
           else if rx_count = original_rx_count
           then kseq [println b fuel ''Spurious DUART RDA interrupt?'',
                      println b fuel ''Disabling DUART.'',
                      device (duart2_interrupt_disable b),
                      fatal b fuel EXAMPLE_ERROR_ID_RX_SPURIOUS_RDA]
           else kreturn ()) (\<lambda>_.
        kbind (ppce500_interrupt_event_raise (EVENT_RX cfg)) (\<lambda>_.
        kreturn True)))))
      else
        kbind (print b fuel ''unexpected DUART iid! '') (\<lambda>_.
        kbind (machine (debug_printhex8 (p2020_debug_putc b fuel) iid)) (\<lambda>_.
        kbind (println b fuel []) (\<lambda>_.
        kreturn False))))"

text \<open>The inner and the outer loop of the interrupt handler.\<close>

primrec duart_iid_loop ::
  "p2020_ids \<Rightarrow> 'd bus \<Rightarrow> nat \<Rightarrow> nat \<Rightarrow> bool \<Rightarrow> (('s, 'd, 'z) p2020_kernel_scheme, bool) kop"
where
  "duart_iid_loop cfg b fuel 0 ret = kfail Diverges"
| "duart_iid_loop cfg b fuel (Suc n) ret =
     kbind (device (duart2_iid_get b)) (\<lambda>iid.
     if iid \<noteq> DUART_IID_NONE
     then kbind (exti_duart_interrupt_handle cfg b fuel iid) (\<lambda>r. duart_iid_loop cfg b fuel n (ret \<or> r))
     else kreturn ret)"

primrec exti_interrupt_loop ::
  "p2020_ids \<Rightarrow> 'd bus \<Rightarrow> nat \<Rightarrow> nat \<Rightarrow> bool \<Rightarrow> (('s, 'd, 'z) p2020_kernel_scheme, bool) kop"
where
  "exti_interrupt_loop cfg b fuel 0 ret = kfail Diverges"
| "exti_interrupt_loop cfg b fuel (Suc n) ret =
     kbind (device (pic_iack_get b)) (\<lambda>inc_vector.
     if inc_vector \<noteq> PIC_SPURIOUS_VECTOR_CODE
     then
       kbind
         (if inc_vector = PIC_IIV_DUART_EXAMPLE_VECTOR then duart_iid_loop cfg b fuel fuel ret
          else
            kbind (print b fuel ''unknown vector! '') (\<lambda>_.
            kbind (printhex32 b fuel inc_vector) (\<lambda>_.
            kbind (println b fuel []) (\<lambda>_. kreturn ret)))) (\<lambda>ret.
       kbind (device (pic_eoi_put b)) (\<lambda>_.
       exti_interrupt_loop cfg b fuel n ret))
     else kreturn ret)"

definition exti_interrupt_buffering ::
  "p2020_ids \<Rightarrow> 'd bus \<Rightarrow> nat \<Rightarrow> (('s, 'd, 'z) p2020_kernel_scheme, bool) kop"
where
  "exti_interrupt_buffering cfg b fuel = exti_interrupt_loop cfg b fuel fuel False"

definition interrupt_buffering_example_init :: "'d bus \<Rightarrow> nat \<Rightarrow> (('s, 'd, 'z) p2020_kernel_scheme, unit) kop" where
  "interrupt_buffering_example_init b fuel =
     kseq [machine (pic_iiv_duart_init b fuel PIC_IIV_DUART_EXAMPLE_PRIORITY PIC_IIV_DUART_EXAMPLE_VECTOR),
           device (duart2_init b),
           device (duart2_rx_interrupt_init b)]"

section \<open>The echo task\<close>

text \<open>
  \<open>wait_tx\<close> is \<open>rtos_signal_wait\<close> for the transmit signal, from the call to its return. The bytes of
  the buffer are taken while interrupts are disabled, as one step.
\<close>

primrec tx_put_when_ready ::
  "'d bus \<Rightarrow> nat \<Rightarrow> (('s, 'd, 'z) p2020_kernel_scheme, unit) kop \<Rightarrow> nat \<Rightarrow> u8 \<Rightarrow> (('s, 'd, 'z) p2020_kernel_scheme, unit) kop"
where
  "tx_put_when_ready b fuel wait_tx 0 ch = kfail Diverges"
| "tx_put_when_ready b fuel wait_tx (Suc n) ch =
     kbind (device (duart2_tx_ready b)) (\<lambda>ready.
     if \<not> ready then kbind wait_tx (\<lambda>_. tx_put_when_ready b fuel wait_tx n ch)
     else device (duart2_tx_put b fuel ch))"

text \<open>\<open>for (i = 0; i < rx_count; i++) p_buf[i] = rx_buf[i]\<close>, with the local array as the accumulator.\<close>

primrec copy_rx_buf :: "nat list \<Rightarrow> u8 list \<Rightarrow> (('s, 'd, 'z) p2020_kernel_scheme, u8 list) kop" where
  "copy_rx_buf [] p_buf = kreturn p_buf"
| "copy_rx_buf (i # is) p_buf =
     kbind (array_read k_rx_buf (of_nat i :: u32)) (\<lambda>ch.
     if i < length p_buf then copy_rx_buf is (p_buf[i := ch]) else kfail Out_Of_Bounds)"

definition collect_rx_buf :: "'d bus \<Rightarrow> nat \<Rightarrow> (('s, 'd, 'z) p2020_kernel_scheme, u8 list \<times> u32) kop" where
  "collect_rx_buf b fuel =
     kbind (kgets k_rx_count) (\<lambda>rx_count.
     kbind (kwhen (rx_count > BUF_CAPACITY) (fatal b fuel EXAMPLE_ERROR_ID_BUFFER_COUNT_OOB)) (\<lambda>_.
     kbind (copy_rx_buf [0..<unat rx_count] (replicate (unat BUF_CAPACITY) 0)) (\<lambda>p_buf.
     kbind (kmodify (\<lambda>k. k\<lparr>k_rx_count := 0\<rparr>)) (\<lambda>_.
     kreturn (p_buf, rx_count)))))"

definition echo_char :: "(u8 \<Rightarrow> (('s, 'd, 'z) p2020_kernel_scheme, unit) kop) \<Rightarrow> u8 \<Rightarrow> (('s, 'd, 'z) p2020_kernel_scheme, unit) kop" where
  "echo_char put ch = kbind (kwhen (ch = 13) (put 10)) (\<lambda>_. put ch)"

text \<open>
  What a system does before \<open>rtos_start\<close>, and the tasks before their loops. \<open>machine_timer_stop\<close> is
  assembly code.
\<close>

definition buffering_main ::
  "(('s, 'd, 'z) p2020_kernel_scheme, unit) kop \<Rightarrow> 'd bus \<Rightarrow> nat \<Rightarrow> string \<Rightarrow> (('s, 'd, 'z) p2020_kernel_scheme, unit) kop"
where
  "buffering_main machine_timer_stop b fuel title =
     kseq [println b fuel title, machine_timer_stop, interrupt_buffering_example_init b fuel]"

definition task_a_init :: "'d bus \<Rightarrow> nat \<Rightarrow> (('s, 'd, 'z) p2020_kernel_scheme, unit) kop" where
  "task_a_init b fuel = kseq [println b fuel ''Task A'', device (duart2_tx_interrupt_init b)]"

text \<open>The loop body of the task, after its wait for the receive signal.\<close>

definition echo_task_body ::
  "config \<Rightarrow> p2020_ids \<Rightarrow> 'd bus \<Rightarrow> nat \<Rightarrow> (('s, 'd, 'z) p2020_kernel_scheme, unit) kop \<Rightarrow>
     (('s, 'd, 'z) p2020_kernel_scheme, unit) kop"
where
  "echo_task_body c cfg b fuel wait_tx =
     kbind (collect_rx_buf b fuel) (\<lambda>(p_buf, p_count).
     kbind (kseq (map (\<lambda>i. if i < length p_buf
         then echo_char (tx_put_when_ready b fuel wait_tx fuel) (p_buf ! i) else kfail Out_Of_Bounds) [0..<unat p_count])) (\<lambda>_.
     kbind (rtos_signal_poll c (SIGNAL_RX_OVERRUN cfg)) (\<lambda>received.
     kwhen received
       (kbind (println b fuel ''rx overrun!'') (\<lambda>_. fatal b fuel EXAMPLE_ERROR_ID_RX_BUF_OVERRUN)))))"

section \<open>The two tasks that pass messages\<close>

text \<open>
  Task A assembles messages in \<open>msg_buf\<close>. It hands a complete one to task B with a signal and waits for
  the answer, which is \<open>wait_tx\<close> here, before it uses the buffer again.
\<close>

definition sync_char ::
  "config \<Rightarrow> p2020_ids \<Rightarrow> (u8 \<Rightarrow> (('s, 'd, 'z) p2020_kernel_scheme, unit) kop) \<Rightarrow>
     (('s, 'd, 'z) p2020_kernel_scheme, unit) kop \<Rightarrow> u8 \<Rightarrow> (('s, 'd, 'z) p2020_kernel_scheme, unit) kop"
where
  "sync_char c cfg unblock wait_tx ch =
     kbind (kwhen (ch \<noteq> 10 \<and> ch \<noteq> 13)
       (kbind (kgets k_msg_len) (\<lambda>msg_len.
        kbind (array_modify k_msg_buf k_msg_buf_update msg_len (\<lambda>_. ch)) (\<lambda>_.
        kmodify (\<lambda>k. k\<lparr>k_msg_len := k_msg_len k + 1\<rparr>))))) (\<lambda>_.
     kbind (kgets k_msg_len) (\<lambda>msg_len.
     kwhen (msg_len = MSG_SIZE \<or> (ch = 13 \<and> msg_len \<noteq> 0))
       (kseq [rtos_signal_send_set c unblock (TASK_B cfg) (SIGNAL_RX cfg),
              wait_tx,
              kmodify (\<lambda>k. k\<lparr>k_msg_len := 0\<rparr>)])))"

definition sync_task_a_body ::
  "config \<Rightarrow> p2020_ids \<Rightarrow> 'd bus \<Rightarrow> nat \<Rightarrow> (u8 \<Rightarrow> (('s, 'd, 'z) p2020_kernel_scheme, unit) kop) \<Rightarrow>
     (('s, 'd, 'z) p2020_kernel_scheme, unit) kop \<Rightarrow> (('s, 'd, 'z) p2020_kernel_scheme, unit) kop"
where
  "sync_task_a_body c cfg b fuel unblock wait_tx =
     kbind (collect_rx_buf b fuel) (\<lambda>(p_buf, p_count).
     kbind (kseq (map (\<lambda>i. if i < length p_buf then sync_char c cfg unblock wait_tx (p_buf ! i)
         else kfail Out_Of_Bounds) [0..<unat p_count])) (\<lambda>_.
     kbind (rtos_signal_poll c (SIGNAL_RX_OVERRUN cfg)) (\<lambda>received.
     kwhen received
       (kbind (println b fuel ''rx overrun!'') (\<lambda>_. fatal b fuel EXAMPLE_ERROR_ID_RX_BUF_OVERRUN)))))"

text \<open>Task B sends the message backwards. The loop condition reads \<open>msg_len\<close> again in each iteration.\<close>

primrec sync_send_reversed ::
  "(u8 \<Rightarrow> (('s, 'd, 'z) p2020_kernel_scheme, unit) kop) \<Rightarrow> nat \<Rightarrow> u32 \<Rightarrow> (('s, 'd, 'z) p2020_kernel_scheme, unit) kop"
where
  "sync_send_reversed put 0 i = kfail Diverges"
| "sync_send_reversed put (Suc n) i =
     kbind (kgets k_msg_len) (\<lambda>msg_len.
     if i < msg_len
     then
       kbind (array_read k_msg_buf ((msg_len - 1) - i)) (\<lambda>ch.
       kbind (put ch) (\<lambda>_. sync_send_reversed put n (i + 1)))
     else kreturn ())"

definition sync_task_b_body ::
  "config \<Rightarrow> p2020_ids \<Rightarrow> 'd bus \<Rightarrow> nat \<Rightarrow> (u8 \<Rightarrow> (('s, 'd, 'z) p2020_kernel_scheme, unit) kop) \<Rightarrow>
     (('s, 'd, 'z) p2020_kernel_scheme, unit) kop \<Rightarrow> (('s, 'd, 'z) p2020_kernel_scheme, unit) kop"
where
  "sync_task_b_body c cfg b fuel unblock wait_tx =
     kseq [sync_send_reversed (tx_put_when_ready b fuel wait_tx fuel) (Suc (unat MSG_SIZE)) 0,
           rtos_signal_send_set c unblock (TASK_A cfg) (SIGNAL_TX cfg),
           tx_put_when_ready b fuel wait_tx fuel 10,
           tx_put_when_ready b fuel wait_tx fuel 13]"

section \<open>Telling interrupt sources apart\<close>

definition PIC_GT_EXAMPLE_BASE_COUNT :: u32 where "PIC_GT_EXAMPLE_BASE_COUNT = 0x4000000"
definition PIC_GT_EXAMPLE_PRIORITY :: u32 where "PIC_GT_EXAMPLE_PRIORITY = 0xa"

definition PIC_GT_EXAMPLE_VECTOR :: "u32 \<Rightarrow> u32" where
  "PIC_GT_EXAMPLE_VECTOR x =
     0xf000 + (x AND 1) + (if x AND 2 \<noteq> 0 then 0x10 else 0) + (if x AND 4 \<noteq> 0 then 0x100 else 0)"

text \<open>The events of the system are named A to K: \<open>evt 0\<close> is A, and so on.\<close>

definition demux_timer_event ::
  "(nat \<Rightarrow> u8) \<Rightarrow> 'd bus \<Rightarrow> nat \<Rightarrow> string \<Rightarrow> nat \<Rightarrow> (('s, 'd, 'z) p2020_kernel_scheme, unit) kop"
where
  "demux_timer_event evt b fuel name i =
     kbind (println b fuel name) (\<lambda>_. ppce500_interrupt_event_raise (evt i))"

definition demux_duart_event ::
  "(nat \<Rightarrow> u8) \<Rightarrow> 'd bus \<Rightarrow> nat \<Rightarrow> string \<Rightarrow> ('d, u8) kop \<Rightarrow> nat \<Rightarrow> (('s, 'd, 'z) p2020_kernel_scheme, unit) kop"
where
  "demux_duart_event evt b fuel name rx_get i =
     kbind (print b fuel name) (\<lambda>_.
     kbind (device rx_get) (\<lambda>ch.
     kbind (machine (p2020_debug_putc b fuel ch)) (\<lambda>_.
     ppce500_interrupt_event_raise (evt i))))"

definition demux_duart ::
  "(nat \<Rightarrow> u8) \<Rightarrow> 'd bus \<Rightarrow> nat \<Rightarrow> (('s, 'd, 'z) p2020_kernel_scheme, unit) kop"
where
  "demux_duart evt b fuel =
     kbind (device (duart1_rx_ready b)) (\<lambda>ready1.
     kbind
       (if ready1 then
          kbind (demux_duart_event evt b fuel ''DUART1: '' (duart1_rx_get b) 8) (\<lambda>_.
          kbind (device (duart2_rx_ready b)) (\<lambda>ready2.
          kwhen ready2 (demux_duart_event evt b fuel '', DUART2: '' (duart2_rx_get b) 10)))
        else
          kbind (device (duart2_rx_ready b)) (\<lambda>ready2.
          kwhen ready2 (demux_duart_event evt b fuel ''DUART2: '' (duart2_rx_get b) 9))) (\<lambda>_.
     println b fuel []))"

definition demux_vector ::
  "(nat \<Rightarrow> u8) \<Rightarrow> 'd bus \<Rightarrow> nat \<Rightarrow> u32 \<Rightarrow> (('s, 'd, 'z) p2020_kernel_scheme, unit) kop"
where
  "demux_vector evt b fuel inc_vector =
     (if inc_vector = PIC_IIV_DUART_EXAMPLE_VECTOR then demux_duart evt b fuel
      else if inc_vector = PIC_GT_EXAMPLE_VECTOR 0 then demux_timer_event evt b fuel ''PIC timer A0'' 0
      else if inc_vector = PIC_GT_EXAMPLE_VECTOR 1 then demux_timer_event evt b fuel ''PIC timer A1'' 1
      else if inc_vector = PIC_GT_EXAMPLE_VECTOR 2 then demux_timer_event evt b fuel ''PIC timer A2'' 2
      else if inc_vector = PIC_GT_EXAMPLE_VECTOR 3 then demux_timer_event evt b fuel ''PIC timer A3'' 3
      else if inc_vector = PIC_GT_EXAMPLE_VECTOR 4 then demux_timer_event evt b fuel ''PIC timer B0'' 4
      else if inc_vector = PIC_GT_EXAMPLE_VECTOR 5 then demux_timer_event evt b fuel ''PIC timer B1'' 5
      else if inc_vector = PIC_GT_EXAMPLE_VECTOR 6 then demux_timer_event evt b fuel ''PIC timer B2'' 6
      else if inc_vector = PIC_GT_EXAMPLE_VECTOR 7 then demux_timer_event evt b fuel ''PIC timer B3'' 7
      else if inc_vector = PIC_SPURIOUS_VECTOR_CODE then println b fuel ''spurious vector!''
      else println b fuel ''unknown vector!'')"

definition exti_interrupt_demux ::
  "(nat \<Rightarrow> u8) \<Rightarrow> 'd bus \<Rightarrow> nat \<Rightarrow> (('s, 'd, 'z) p2020_kernel_scheme, bool) kop"
where
  "exti_interrupt_demux evt b fuel =
     kbind (print b fuel ''exti_interrupt: '') (\<lambda>_.
     kbind (device (pic_iack_get b)) (\<lambda>inc_vector.
     kbind (printhex32 b fuel inc_vector) (\<lambda>_.
     kbind (print b fuel '': '') (\<lambda>_.
     kbind (demux_vector evt b fuel inc_vector) (\<lambda>_.
     kbind (device (pic_eoi_put b)) (\<lambda>_.
     kreturn True))))))"

text \<open>The handler of timer ticks, and one iteration of a task, after its wait for the demo signal.\<close>

definition demux_tick_interrupt ::
  "(('s, 'd, 'z) p2020_kernel_scheme, unit) kop \<Rightarrow> 'd bus \<Rightarrow> nat \<Rightarrow> (('s, 'd, 'z) p2020_kernel_scheme, unit) kop"
where
  "demux_tick_interrupt machine_timer_tick_isr b fuel = kseq [machine_timer_tick_isr, println b fuel ''tick_interrupt'']"

definition demux_task_body :: "'d bus \<Rightarrow> nat \<Rightarrow> string \<Rightarrow> (('s, 'd, 'z) p2020_kernel_scheme, unit) kop" where
  "demux_task_body b fuel name = println b fuel name"

definition interrupt_demux_init ::
  "(('s, 'd, 'z) p2020_kernel_scheme, unit) kop \<Rightarrow> 'd bus \<Rightarrow> nat \<Rightarrow> (('s, 'd, 'z) p2020_kernel_scheme, unit) kop"
where
  "interrupt_demux_init machine_timer_start b fuel =
     kseq [println b fuel ''Interrupt demux example'',
           machine_timer_start,
           machine (pic_iiv_duart_init b fuel PIC_IIV_DUART_EXAMPLE_PRIORITY PIC_IIV_DUART_EXAMPLE_VECTOR),
           device (duart2_init b),
           device (duart2_rx_interrupt_init b),
           device (duart1_rx_interrupt_init b),
           kseq (map (\<lambda>i. machine (pic_global_timer_init b fuel i PIC_GT_EXAMPLE_PRIORITY (PIC_GT_EXAMPLE_VECTOR i)
             (PIC_GT_EXAMPLE_BASE_COUNT * (i + 1)))) [0, 1, 2, 3, 4, 5, 6, 7])]"

end
