(* ===== verification/P2020_Properties.thy ===== *)
theory P2020_Properties
  imports P2020_Examples Rigel
begin

text \<open>
  What the P2020 example systems do with the serial port of \<open>P2020_Drivers\<close>: bytes that are received are
  buffered in order by the interrupt handler, and sent on by the tasks.
\<close>

section \<open>The serial port under the drivers\<close>

lemma device_eq:
  "device m k = (case m (fst (k_device k)) of Inl e \<Rightarrow> Inl e
     | Inr (a, d) \<Rightarrow> Inr (a, k\<lparr>k_device := (d, snd (k_device k))\<rparr>))"
  by (auto simp: device_def machine_def on_device_def split: sum.splits)

lemma uart_addresses [simp]:
  "DUART_ULSR2 b = bus_base b + 0x4600 + 5" "DUART_URBR2 b = bus_base b + 0x4600 + 0"
  "DUART_UIIR2 b = bus_base b + 0x4600 + 2" "DUART_UIER2 b = bus_base b + 0x4600 + 1"
  by (simp_all add: duart_register_defs)

lemma uart_bus_at [simp]:
  "bus_read8 (uart_bus base) (base + 0x4600) = uart_read8 0" "bus_write8 (uart_bus base) (base + 0x4600) = uart_write8 0"
  "bus_read8 (uart_bus base) (off + base) = uart_read8 (off - 0x4600)"
  "bus_write8 (uart_bus base) (off + base) = uart_write8 (off - 0x4600)"
  by (simp_all add: uart_bus_def)

lemmas uart_simps = uart_read8_def uart_write8_def bus_or8_def ULSR_THRE_SET_def ULSR_OE_SET_def ULSR_DR_SET_def
  ULCR_DLAB_SET_def

lemma duart2_status [simp]:
  "duart2_rx_ready (uart_bus base) d = Inr (u_rx d \<noteq> [], d)"
  "duart2_rx_overrun (uart_bus base) d = Inr (u_overrun d, d)"
  "duart2_tx_ready (uart_bus base) d = Inr (u_tx_ready d, d)"
  by (simp_all add: duart2_rx_ready_def duart2_rx_overrun_def duart2_tx_ready_def uart_simps kop_defs)

lemma duart2_rx_get_eq [simp]:
  "u_rx d = ch # rest \<Longrightarrow> duart2_rx_get (uart_bus base) d = Inr (ch, d\<lparr>u_rx := rest\<rparr>)"
  "u_rx d = [] \<Longrightarrow> duart2_rx_get (uart_bus base) d = Inr (0, d)"
  by (simp_all add: duart2_rx_get_def uart_simps kop_defs)

lemma duart2_rx_fifo_reset_eq [simp]:
  "duart2_rx_fifo_reset (uart_bus base) d = Inr ((), d\<lparr>u_ufcr := u_uiir d OR UFCR_RFR_SET\<rparr>)"
  by (simp add: duart2_rx_fifo_reset_def uart_simps kop_defs)

definition tx_enabled :: "uart \<Rightarrow> bool" where
  "tx_enabled d \<longleftrightarrow> u_tx_ready d \<and> u_ulcr d AND ULCR_DLAB_SET = 0"

lemma duart2_tx_put_eq [simp]:
  "tx_enabled d \<Longrightarrow> duart2_tx_put (uart_bus base) fuel ch d = Inr ((), d\<lparr>u_tx := u_tx d @ [ch]\<rparr>)"
  by (simp add: duart2_tx_put_def tx_enabled_def uart_simps kop_defs)

section \<open>Receiving\<close>

text \<open>The state after \<open>m\<close> bytes were moved from the device to the buffer.\<close>

definition received :: "nat \<Rightarrow> ('s, uart, 'z) p2020_kernel_scheme \<Rightarrow> ('s, uart, 'z) p2020_kernel_scheme" where
  "received m k =
     (let d = fst (k_device k); c = unat (k_rx_count k) in
      k\<lparr>k_device := (d\<lparr>u_rx := drop m (u_rx d)\<rparr>, snd (k_device k)),
        k_rx_buf := take c (k_rx_buf k) @ take m (u_rx d) @ drop (c + m) (k_rx_buf k),
        k_rx_count := k_rx_count k + of_nat m\<rparr>)"

definition rx_ok :: "('s, uart, 'z) p2020_kernel_scheme \<Rightarrow> bool" where
  "rx_ok k \<longleftrightarrow> length (k_rx_buf k) = unat BUF_CAPACITY \<and> k_rx_count k \<le> BUF_CAPACITY \<and> \<not> u_overrun (fst (k_device k))"

definition rx_room :: "('s, uart, 'z) p2020_kernel_scheme \<Rightarrow> nat" where
  "rx_room k = unat BUF_CAPACITY - unat (k_rx_count k)"

lemma received_0 [simp]: "received 0 k = k"
  by (cases k) (simp add: received_def)

lemma rx_buf_set: "k_rx_buf_update (\<lambda>xs. xs[i := ch]) k = k\<lparr>k_rx_buf := (k_rx_buf k)[i := ch]\<rparr>"
  by (cases k) simp

lemma rx_loop_eq:
  assumes "rx_ok k" and "rx_room k < n"
  shows "rx_loop (uart_bus base) fuel n k = Inr ((), received (min (length (u_rx (fst (k_device k)))) (rx_room k)) k)"
  using assms
proof (induction n arbitrary: k)
  case (Suc n)
  obtain d i where d: "k_device k = (d, i)" by (cases "k_device k")
  have ok: "length (k_rx_buf k) = 256" "unat (k_rx_count k) \<le> 256" "\<not> u_overrun d"
    using Suc.prems(1) by (simp_all add: rx_ok_def BUF_CAPACITY_def word_le_nat_alt d)
  have full: "k_rx_count k < BUF_CAPACITY \<longleftrightarrow> rx_room k \<noteq> 0"
    using ok(2) by (auto simp: BUF_CAPACITY_def word_less_nat_alt rx_room_def)
  show ?case
  proof (cases "rx_room k = 0 \<or> u_rx d = []")
    case True
    then show ?thesis using full by (auto simp: kop_defs d device_eq)
  next
    case False
    then obtain ch rest where rx: "u_rx d = ch # rest" by (cases "u_rx d") auto
    let ?c = "unat (k_rx_count k)"
    let ?k = "k\<lparr>k_device := (d\<lparr>u_rx := rest\<rparr>, i), k_rx_buf := (k_rx_buf k)[?c := ch], k_rx_count := k_rx_count k + 1\<rparr>"
    have c: "?c < 256" using False ok(2) by (simp add: rx_room_def BUF_CAPACITY_def)
    then have c1: "unat (k_rx_count k + 1) = Suc ?c" by (simp add: unat_plus_simple [THEN iffD1] word_le_nat_alt unat_word_ariths(1))
    have room: "rx_room ?k = rx_room k - 1" "rx_room k = 256 - ?c" using c1 c by (simp_all add: rx_room_def BUF_CAPACITY_def)
    have "rx_ok ?k" using ok c c1 by (simp add: rx_ok_def BUF_CAPACITY_def word_le_nat_alt)
    moreover have "rx_room ?k < n" using Suc.prems(2) room c by simp
    ultimately have "rx_loop (uart_bus base) fuel n ?k = Inr ((), received (min (length rest) (rx_room ?k)) ?k)"
      using Suc.IH by simp
    moreover have "rx_loop (uart_bus base) fuel (Suc n) k = rx_loop (uart_bus base) fuel n ?k"
      using False full ok c by (simp add: kop_defs device_eq d rx array_modify_def rx_buf_set)
    moreover have "received m ?k = received (Suc m) k" for m
      using c c1 ok(1) by (simp add: received_def Let_def d rx take_Suc_conv_app_nth drop_update_cancel take_update_cancel)
    moreover have "Suc (min (length rest) (rx_room ?k)) = min (length (u_rx d)) (rx_room k)"
      using room False rx by simp
    ultimately show ?thesis by (simp add: d)
  qed
qed simp

text \<open>The handler of a receive interrupt: the buffer gets what it has room for.\<close>

definition rx_raised :: "p2020_ids \<Rightarrow> ('s, uart, 'z) p2020_kernel_scheme \<Rightarrow> ('s, uart, 'z) p2020_kernel_scheme" where
  "rx_raised cfg k = k\<lparr>k_interrupt_event := k_interrupt_event k OR event_bit (unat (EVENT_RX cfg))\<rparr>"

lemma received_count:
  assumes "rx_ok k" and "m \<le> rx_room k"
  shows "unat (k_rx_count (received m k)) = unat (k_rx_count k) + m"
proof -
  have "unat (k_rx_count k) \<le> 256" "m \<le> 256 - unat (k_rx_count k)"
    using assms by (simp_all add: rx_ok_def rx_room_def BUF_CAPACITY_def word_le_nat_alt)
  then have "unat (k_rx_count k) + m \<le> 256" by linarith
  then show ?thesis by (simp add: received_def Let_def unat_word_ariths(1) unat_of_nat)
qed

lemma rx_interrupt_eq:
  assumes ok: "rx_ok k" and iid: "iid = DUART_IID_CTO \<or> iid = DUART_IID_RDA"
    and rx: "u_rx (fst (k_device k)) \<noteq> []" "length (u_rx (fst (k_device k))) < rx_room k"
  shows "exti_duart_interrupt_handle cfg (uart_bus base) fuel iid k =
    Inr (True, rx_raised cfg (received (length (u_rx (fst (k_device k)))) k))"
proof -
  let ?m = "length (u_rx (fst (k_device k)))"
  have room: "rx_room k \<le> 256" by (simp add: rx_room_def BUF_CAPACITY_def)
  have loop: "rx_loop (uart_bus base) fuel (Suc (unat BUF_CAPACITY)) k = Inr ((), received ?m k)"
    using rx_loop_eq [OF ok, of "Suc (unat BUF_CAPACITY)"] rx(2) room by (simp add: BUF_CAPACITY_def min_def)
  have c: "unat (k_rx_count (received ?m k)) = unat (k_rx_count k) + ?m" using received_count [OF ok] rx(2) by simp
  have "unat (k_rx_count k) + ?m < 256" using rx(2) ok by (simp add: rx_room_def BUF_CAPACITY_def)
  then have "k_rx_count (received ?m k) \<noteq> BUF_CAPACITY" "k_rx_count (received ?m k) \<noteq> k_rx_count k"
    using c rx(1) by (auto simp: BUF_CAPACITY_def dest!: arg_cong [where f = unat])
  then show ?thesis
    using iid loop
    by (auto simp: exti_duart_interrupt_handle_def kop_defs DUART_IID_CTO_def DUART_IID_RDA_def DUART_IID_THRE_def
        ppce500_interrupt_event_raise_def isr_raise_def rx_raised_def)
qed

section \<open>Sending\<close>

definition sent :: "u8 list \<Rightarrow> ('s, uart, 'z) p2020_kernel_scheme \<Rightarrow> ('s, uart, 'z) p2020_kernel_scheme" where
  "sent xs k = (let d = fst (k_device k) in k\<lparr>k_device := (d\<lparr>u_tx := u_tx d @ xs\<rparr>, snd (k_device k))\<rparr>)"

lemma sent_simps [simp]:
  "sent [] k = k" "sent ys (sent xs k) = sent (xs @ ys) k"
  "tx_enabled (fst (k_device (sent xs k))) = tx_enabled (fst (k_device k))"
  "k_msg_buf (sent xs k) = k_msg_buf k" "k_msg_len (sent xs k) = k_msg_len k"
  by (cases k, simp_all add: sent_def Let_def tx_enabled_def)+

lemma tx_put_when_ready_eq [simp]:
  "tx_enabled (fst (k_device k)) \<Longrightarrow> 0 < n \<Longrightarrow> tx_put_when_ready (uart_bus base) fuel wait_tx n ch k = Inr ((), sent [ch] k)"
  by (cases n) (simp_all add: kop_defs device_eq sent_def Let_def, simp add: tx_enabled_def)

text \<open>The loops that send the characters at a list of positions.\<close>

lemma kseq_sends:
  assumes "\<And>i k. i \<in> set is \<Longrightarrow> tx_enabled (fst (k_device k)) \<Longrightarrow> send i k = Inr ((), sent (f i) k)"
    and "tx_enabled (fst (k_device k))"
  shows "kseq (map send is) k = Inr ((), sent (concat (map f is)) k)"
  using assms by (induction "is" arbitrary: k) (simp_all add: kop_defs)

lemma copy_rx_buf_eq:
  assumes "n \<le> length (k_rx_buf k)" and "n \<le> length p" and "n \<le> 256"
  shows "copy_rx_buf [0..<n] p k = Inr (take n (k_rx_buf k) @ drop n p, k)"
proof -
  have run: "copy_rx_buf is p k = Inr (fold (\<lambda>i p. p[i := k_rx_buf k ! i]) is p, k)"
    if "\<forall>i \<in> set is. i < length (k_rx_buf k) \<and> i < length p \<and> i < 256" for "is" p
    using that
  proof (induction "is" arbitrary: p)
    case (Cons i "is")
    then have "unat (of_nat i :: u32) = i" by (simp add: unat_of_nat)
    then show ?case using Cons by (simp add: kop_defs array_read_def)
  qed (simp add: kop_defs)
  have "fold (\<lambda>i p. p[i := k_rx_buf k ! i]) [0..<m] p = take m (k_rx_buf k) @ drop m p" if "m \<le> n" for m
    using that assms
    by (induction m) (auto simp: list_update_append take_Suc_conv_app_nth upd_conv_take_nth_drop min_def Cons_nth_drop_Suc [symmetric])
  then show ?thesis using run [of "[0..<n]" p] assms by simp
qed

lemma collect_rx_buf_eq:
  assumes "rx_ok k"
  shows "collect_rx_buf b fuel k = Inr ((take (unat (k_rx_count k)) (k_rx_buf k) @
      replicate (256 - unat (k_rx_count k)) 0, k_rx_count k), k\<lparr>k_rx_count := 0\<rparr>)"
proof -
  have c: "length (k_rx_buf k) = 256" "unat (k_rx_count k) \<le> 256" "\<not> k_rx_count k > BUF_CAPACITY"
    using assms by (auto simp: rx_ok_def BUF_CAPACITY_def word_le_nat_alt word_less_nat_alt)
  then have "copy_rx_buf [0..<unat (k_rx_count k)] (replicate 256 0) k =
      Inr (take (unat (k_rx_count k)) (k_rx_buf k) @ replicate (256 - unat (k_rx_count k)) 0, k)"
    using copy_rx_buf_eq [of "unat (k_rx_count k)" k "replicate 256 0"] by simp
  then show ?thesis using c(3) by (simp add: collect_rx_buf_def kop_defs BUF_CAPACITY_def)
qed

text \<open>What the echo task sends for a character.\<close>

definition echoed :: "u8 \<Rightarrow> u8 list" where
  "echoed ch = (if ch = 13 then [10, 13] else [ch])"

lemma echo_sends:
  fixes k :: "('s, uart, 'z) p2020_kernel_scheme"
  assumes "tx_enabled (fst (k_device k))" and "n = length chs" and "0 < fuel"
  shows "kseq (map (\<lambda>i. if i < length (chs @ rest) then echo_char (tx_put_when_ready (uart_bus base) fuel wait_tx fuel) ((chs @ rest) ! i)
      else kfail Out_Of_Bounds) [0..<n]) k = Inr ((), sent (concat (map echoed chs)) k)"
proof -
  have one: "(if i < length (chs @ rest) then echo_char (tx_put_when_ready (uart_bus base) fuel wait_tx fuel) ((chs @ rest) ! i)
      else kfail Out_Of_Bounds) k = Inr ((), sent (echoed (chs ! i)) k)"
    if "i \<in> set [0..<length chs]" "tx_enabled (fst (k_device k))" for i and k :: "('s, uart, 'z) p2020_kernel_scheme"
  proof -
    have i: "i < length chs" "i < length (chs @ rest)" "(chs @ rest) ! i = chs ! i" using that(1) by (simp_all add: nth_append)
    show ?thesis
      unfolding i(3) if_P [OF i(2)] using that(2)
      by (cases "chs ! i = 13") (simp_all add: tx_put_when_ready_eq [OF _ assms(3)] echo_char_def kbind_def kwhen_def kreturn_def echoed_def)
  qed
  have all: "map (\<lambda>i. echoed (chs ! i)) [0..<length chs] = map echoed chs"
    by (rule nth_equalityI) simp_all
  let ?send = "\<lambda>i. if i < length (chs @ rest)
    then echo_char (tx_put_when_ready (uart_bus base) fuel wait_tx fuel) ((chs @ rest) ! i) else kfail Out_Of_Bounds"
  have "kseq (map ?send [0..<length chs]) k = Inr ((), sent (concat (map (\<lambda>i. echoed (chs ! i)) [0..<length chs])) k)"
    by (rule kseq_sends [OF one assms(1)])
  then show ?thesis unfolding assms(2) all .
qed

section \<open>The echo task\<close>

lemma rtos_signal_poll_quiet:
  fixes k :: "('s, uart, 'z) p2020_kernel_scheme"
  assumes "current_ok c k" and "signals_ok c k" and "pending_of k (k_current_task k) AND signals = 0"
  shows "\<exists>k'. rtos_signal_poll c signals k = Inr (False, k') \<and> k_rx_count k' = k_rx_count k \<and> k_device k' = k_device k"
  using rtos_signal_poll_set_eq [OF assms(1,2), of signals] assms(3)
  by (auto simp: rtos_signal_poll_def kop_defs set_pending_def leave_def SIGNAL_SET_EMPTY_def)


text \<open>Two bytes in the port, one of them a carriage return, and one in the buffer.\<close>

definition port_example :: "u8 list \<Rightarrow> uart" where
  "port_example rx = \<lparr>u_rx = rx, u_tx = [], u_tx_ready = True, u_overrun = False, u_uier = 1, u_ulcr = 3, u_divisor = (1, 0x46),
     u_uiir = 0xc4, u_ufcr = 0xd\<rparr>"

definition p2020_example :: "u8 list \<Rightarrow> u32 \<Rightarrow> (rr_sched, uart) p2020_kernel" where
  "p2020_example rx count = \<lparr>k_current_task = 0, k_preempt_disabled = False, k_preempt_pending = False, k_sched = rr_example 0 [True, False],
     k_interrupt_event = 0, k_system_is_idle = False, k_signal_tasks = [\<lparr>sig_signals = 0\<rparr>, \<lparr>sig_signals = 0\<rparr>],
     k_device = (port_example rx, True), k_rx_buf = replicate 256 65, k_rx_count = count,
     k_msg_buf = replicate 42 66, k_msg_len = 3\<rparr>"

definition ids_example :: p2020_ids where
  "ids_example = \<lparr>EVENT_TX = 0, EVENT_RX = 1, EVENT_RX_OVERRUN = 2, SIGNAL_RX = 1, SIGNAL_RX_OVERRUN = 2, SIGNAL_TX = 4,
     TASK_A = 0, TASK_B = 1\<rparr>"

lemmas p2020_example_defs = p2020_example_def port_example_def ids_example_def rx_ok_def rx_room_def BUF_CAPACITY_def


section \<open>A full buffer\<close>

lemma duart2_init_fifos:
  "\<exists>d'. duart2_init (uart_bus base) d = Inr ((), d') \<and> u_ufcr d' AND UFCR_FEN_SET \<noteq> 0"
  by (simp add: duart2_init_def kop_defs uart_simps duart_register_defs bus_and8_def UFCR_FEN_SET_def UFCR_RTL_14_BYTES_def
      UIER_MASK_ALL_def ULCR_WLS_8_BITS_def ULCR_DLAB_CLEAR_def)



section \<open>Passing messages\<close>

lemma sync_send_reversed_eq:
  fixes k :: "('s, uart, 'z) p2020_kernel_scheme"
  assumes "tx_enabled (fst (k_device k))" and "unat (k_msg_len k) \<le> length (k_msg_buf k)"
    and "unat (k_msg_len k) - unat i < n" and "i \<le> k_msg_len k" and "0 < m"
  shows "sync_send_reversed (tx_put_when_ready (uart_bus base) fuel wait_tx m) n i k =
    Inr ((), sent (rev (take (unat (k_msg_len k) - unat i) (k_msg_buf k))) k)"
  using assms
proof (induction n arbitrary: i k)
  case (Suc n)
  let ?len = "unat (k_msg_len k)"
  show ?case
  proof (cases "i < k_msg_len k")
    case True
    then have less: "unat i < ?len" by (simp add: word_less_nat_alt)
    have i1: "unat (i + 1) = Suc (unat i)" 
      using less unsigned_less [of "k_msg_len k", where 'a = nat] by (simp add: unat_word_ariths(1))
    have idx: "unat (k_msg_len k - 1 - i) = ?len - Suc (unat i)"
      using less i1 by (simp add: unat_sub word_le_nat_alt diff_diff_eq [symmetric] unat_minus_one)
    let ?ch = "k_msg_buf k ! (?len - Suc (unat i))"
    have "sync_send_reversed (tx_put_when_ready (uart_bus base) fuel wait_tx m) n (i + 1) (sent [?ch] k) =
        Inr ((), sent (rev (take (?len - Suc (unat i)) (k_msg_buf k))) (sent [?ch] k))"
      using Suc.IH [of "sent [?ch] k" "i + 1"] Suc.prems less i1 by (simp add: word_le_nat_alt)
    moreover have "take (?len - unat i) (k_msg_buf k) = take (?len - Suc (unat i)) (k_msg_buf k) @ [?ch]"
      
      using less Suc.prems(2) by (simp add: Suc_diff_Suc take_Suc_conv_app_nth [symmetric])
    ultimately show ?thesis
      using True Suc.prems idx less by (simp add: kop_defs array_read_def)
  next
    case False
    then have "i = k_msg_len k" using Suc.prems(4) by simp
    then show ?thesis by (simp add: kop_defs)
  qed
qed simp

lemma tx_signal_sent:
  fixes k :: "(rr_sched, uart, 'z) p2020_kernel_scheme"
  assumes "kernel_inv (cooperative c) rr_inv rr_ntasks k" and "signals_ok (cooperative c) k" and "unat t < tasks_length c"
  shows "\<exists>k'. rtos_signal_send_set (cooperative c) rigel_unblock t signals k = Inr ((), k') \<and> rr_is_runnable (k_sched k') t \<and>
    pending_of k' t AND signals = signals \<and> k_device k' = k_device k \<and> k_msg_buf k' = k_msg_buf k \<and> k_msg_len k' = k_msg_len k"
proof -
  let ?k = "(set_pending t (pending_of k t OR signals) k)\<lparr>k_sched := rr_ready t (k_sched k)\<rparr>"
  have t: "unat t < rr_ntasks (k_sched k)" "rr_inv (k_sched k)" "unat t < length (k_signal_tasks k)"
    using assms by (simp_all add: kernel_inv_def signals_ok_def)
  have "rtos_signal_send_set (cooperative c) rigel_unblock t signals k = Inr ((), ?k)"
    using rigel.rtos_signal_send_set_cases [OF assms(1,2)] assms(3) by simp
  moreover have "rr_is_runnable (k_sched ?k) t" using rr_runnable_update(1) [OF t(2,1,1)] by simp
  moreover have "pending_of ?k t AND signals = signals"
  proof -
    have "pending_of ?k t = pending_of k t OR signals"
      using pending_of_set [OF t(3), of "pending_of k t OR signals" t] by (simp add: pending_of_def)
    then show ?thesis by (auto simp: bit_eq_iff bit_simps)
  qed
  ultimately show ?thesis by (intro exI [of _ ?k]) (simp add: set_pending_def)
qed

text \<open>
  Task B of the synchronisation example sends the message that task A has assembled backwards,
  followed by a line end, and gives task A the signal that its buffer is free again: when B has sent it
  all, A is runnable and the signal is pending for it. No access leaves the message buffer.
\<close>

theorem p2020_sync_reverses:
  fixes k :: "(rr_sched, uart, 'z) p2020_kernel_scheme"
  assumes k: "kernel_inv (cooperative c) rr_inv rr_ntasks k" "signals_ok (cooperative c) k"
    and task: "unat (TASK_A cfg) < tasks_length c" and tx: "tx_enabled (fst (k_device k))" and fuel: "0 < fuel"
    and msg: "length (k_msg_buf k) = unat MSG_SIZE" "k_msg_len k \<le> MSG_SIZE"
  shows "\<exists>k'. sync_task_b_body (cooperative c) cfg (uart_bus base) fuel rigel_unblock wait_tx k = Inr ((), k') \<and>
    u_tx (fst (k_device k')) = u_tx (fst (k_device k)) @ rev (take (unat (k_msg_len k)) (k_msg_buf k)) @ [10, 13] \<and>
    rr_is_runnable (k_sched k') (TASK_A cfg) \<and> pending_of k' (TASK_A cfg) AND SIGNAL_TX cfg = SIGNAL_TX cfg"
proof -
  let ?msg = "rev (take (unat (k_msg_len k)) (k_msg_buf k))"
  have len: "unat (k_msg_len k) \<le> 42" "length (k_msg_buf k) = 42" using msg by (simp_all add: MSG_SIZE_def word_le_nat_alt)
  have out: "sync_send_reversed (tx_put_when_ready (uart_bus base) fuel wait_tx fuel) (Suc (unat MSG_SIZE)) 0 k = Inr ((), sent ?msg k)"
    using sync_send_reversed_eq [OF tx _ _ _ fuel, of "0" "Suc (unat MSG_SIZE)"] len by (simp add: MSG_SIZE_def)
  have inv: "kernel_inv (cooperative c) rr_inv rr_ntasks (sent ?msg k)" "signals_ok (cooperative c) (sent ?msg k)"
    using k by (simp_all add: sent_def Let_def kernel_inv_def current_ok_def signals_ok_def)
  obtain k1 where k1: "rtos_signal_send_set (cooperative c) rigel_unblock (TASK_A cfg) (SIGNAL_TX cfg) (sent ?msg k) = Inr ((), k1)"
    "rr_is_runnable (k_sched k1) (TASK_A cfg)" "pending_of k1 (TASK_A cfg) AND SIGNAL_TX cfg = SIGNAL_TX cfg"
    "k_device k1 = k_device (sent ?msg k)"
    using tx_signal_sent [OF inv task] by blast
  have "tx_enabled (fst (k_device k1))" using tx k1(4) by simp
  then have "sync_task_b_body (cooperative c) cfg (uart_bus base) fuel rigel_unblock wait_tx k = Inr ((), sent [10, 13] k1)"
    using out k1(1) fuel by (simp add: sync_task_b_body_def kop_defs del: sync_send_reversed.simps)
  then show ?thesis
    using k1 by (auto simp: sent_def Let_def pending_of_def)
qed

theorem p2020_sync_reverses_witness:
  "\<exists>k'. sync_task_b_body (cooperative (config_example 2)) ids_example (uart_bus 0xffe00000) 1 rigel_unblock (kfail Diverges)
      ((p2020_example [] 0)\<lparr>k_msg_buf := [97, 98, 99] @ replicate 39 0\<rparr>) = Inr ((), k') \<and>
    u_tx (fst (k_device k')) = [99, 98, 97, 10, 13] \<and> rr_is_runnable (k_sched k') 0 \<and> pending_of k' 0 AND 4 = 4"
proof -
  let ?k = "(p2020_example [] 0)\<lparr>k_msg_buf := [97, 98, 99] @ replicate 39 0\<rparr>"
  have facts: "kernel_inv (cooperative (config_example 2)) rr_inv rr_ntasks ?k" "signals_ok (cooperative (config_example 2)) ?k"
    "unat (TASK_A ids_example) < tasks_length (config_example 2)" "tx_enabled (fst (k_device ?k))" "0 < (1 :: nat)"
    "length (k_msg_buf ?k) = unat MSG_SIZE" "k_msg_len ?k \<le> MSG_SIZE"
    and rest: "u_tx (fst (k_device ?k)) = []" "take (unat (k_msg_len ?k)) (k_msg_buf ?k) = [97, 98, 99]"
    "TASK_A ids_example = 0" "SIGNAL_TX ids_example = 4"
    by (simp_all add: p2020_example_defs MSG_SIZE_def kernel_inv_def current_ok_def rr_example_def rr_inv_def rr_ntasks_def
        signals_ok_def config_example_def cooperative_def tx_enabled_def ULCR_DLAB_SET_def)
  show ?thesis
    using p2020_sync_reverses [OF facts, of "0xffe00000" "kfail Diverges"] unfolding rest by simp
qed

end
