(* ===== verification/STM32F4_LED.thy ===== *)
theory STM32F4_LED
  imports Prelude
begin

text \<open>
  The driver of the four LEDs of the STM32F4 discovery board
  (\<open>packages/machine-stm32f4-discovery/led.c\<close>). The hardware is a parameter, \<open>write32\<close>, the write of a
  device register. An LED is on while the output bit of its pin of port D is set.
\<close>

section \<open>Model\<close>

definition RCC_BASE :: u32 where "RCC_BASE = 0x40023800"
definition RCC_REG :: "u32 \<Rightarrow> u32" where "RCC_REG x = RCC_BASE + x"
definition RCC_AHB1ENR :: u32 where "RCC_AHB1ENR = RCC_REG 0x30"
definition GPIO_D_BASE :: u32 where "GPIO_D_BASE = 0x40020C00"
definition GPIO_D_REG :: "u32 \<Rightarrow> u32" where "GPIO_D_REG x = GPIO_D_BASE + x"
definition GPIO_D_BSRR :: u32 where "GPIO_D_BSRR = GPIO_D_REG 0x18"
definition GPIO_D_MODER :: u32 where "GPIO_D_MODER = GPIO_D_REG 0x0"
definition DISABLE_OFFSET_BITS :: nat where "DISABLE_OFFSET_BITS = 16"

definition GREEN_LED_MASK :: u32 where "GREEN_LED_MASK = push_bit 12 1"
definition ORANGE_LED_MASK :: u32 where "ORANGE_LED_MASK = push_bit 13 1"
definition RED_LED_MASK :: u32 where "RED_LED_MASK = push_bit 14 1"
definition BLUE_LED_MASK :: u32 where "BLUE_LED_MASK = push_bit 15 1"

definition ALL_LED_MASK :: u32 where
  "ALL_LED_MASK = GREEN_LED_MASK OR ORANGE_LED_MASK OR RED_LED_MASK OR BLUE_LED_MASK"

definition GREEN_LED_ENABLE_MASK :: u32 where "GREEN_LED_ENABLE_MASK = push_bit (12 * 2) 1"
definition ORANGE_LED_ENABLE_MASK :: u32 where "ORANGE_LED_ENABLE_MASK = push_bit (13 * 2) 1"
definition RED_LED_ENABLE_MASK :: u32 where "RED_LED_ENABLE_MASK = push_bit (14 * 2) 1"
definition BLUE_LED_ENABLE_MASK :: u32 where "BLUE_LED_ENABLE_MASK = push_bit (15 * 2) 1"

definition ALL_LED_ENABLE_MASK :: u32 where
  "ALL_LED_ENABLE_MASK = GREEN_LED_ENABLE_MASK OR ORANGE_LED_ENABLE_MASK OR RED_LED_ENABLE_MASK OR BLUE_LED_ENABLE_MASK"

type_synonym 'd writer = "u32 \<Rightarrow> u32 \<Rightarrow> ('d, unit) kop"

definition RCC_AHB1ENR_WRITE :: "'d writer \<Rightarrow> u32 \<Rightarrow> ('d, unit) kop" where
  "RCC_AHB1ENR_WRITE write32 x = write32 RCC_AHB1ENR x"

definition GPIO_D_BSRR_WRITE :: "'d writer \<Rightarrow> u32 \<Rightarrow> ('d, unit) kop" where
  "GPIO_D_BSRR_WRITE write32 x = write32 GPIO_D_BSRR x"

definition GPIO_D_MODER_WRITE :: "'d writer \<Rightarrow> u32 \<Rightarrow> ('d, unit) kop" where
  "GPIO_D_MODER_WRITE write32 x = write32 GPIO_D_MODER x"

definition GPIO_D_ON :: "'d writer \<Rightarrow> u32 \<Rightarrow> ('d, unit) kop" where
  "GPIO_D_ON write32 x = GPIO_D_BSRR_WRITE write32 x"

definition GPIO_D_OFF :: "'d writer \<Rightarrow> u32 \<Rightarrow> ('d, unit) kop" where
  "GPIO_D_OFF write32 x = GPIO_D_BSRR_WRITE write32 (push_bit DISABLE_OFFSET_BITS x)"

definition led_green_on :: "'d writer \<Rightarrow> ('d, unit) kop" where "led_green_on w = GPIO_D_ON w GREEN_LED_MASK"
definition led_green_off :: "'d writer \<Rightarrow> ('d, unit) kop" where "led_green_off w = GPIO_D_OFF w GREEN_LED_MASK"
definition led_blue_on :: "'d writer \<Rightarrow> ('d, unit) kop" where "led_blue_on w = GPIO_D_ON w BLUE_LED_MASK"
definition led_blue_off :: "'d writer \<Rightarrow> ('d, unit) kop" where "led_blue_off w = GPIO_D_OFF w BLUE_LED_MASK"
definition led_orange_on :: "'d writer \<Rightarrow> ('d, unit) kop" where "led_orange_on w = GPIO_D_ON w ORANGE_LED_MASK"
definition led_orange_off :: "'d writer \<Rightarrow> ('d, unit) kop" where "led_orange_off w = GPIO_D_OFF w ORANGE_LED_MASK"
definition led_red_on :: "'d writer \<Rightarrow> ('d, unit) kop" where "led_red_on w = GPIO_D_ON w RED_LED_MASK"
definition led_red_off :: "'d writer \<Rightarrow> ('d, unit) kop" where "led_red_off w = GPIO_D_OFF w RED_LED_MASK"

definition led_init :: "'d writer \<Rightarrow> ('d, unit) kop" where
  "led_init w =
     kseq [RCC_AHB1ENR_WRITE w 0x00100009,
           GPIO_D_MODER_WRITE w ALL_LED_ENABLE_MASK,
           GPIO_D_BSRR_WRITE w (push_bit DISABLE_OFFSET_BITS ALL_LED_MASK)]"

section \<open>The port\<close>

text \<open>
  The registers as documented for the processor. A write to the set/reset register sets the output bits
  in its lower half, and clears those in its upper half that it does not set. Writes to a port whose
  clock is off have no effect.
\<close>

record gpio =
  g_clock :: u32
  g_moder :: u32
  g_odr :: u32

definition gpio_write32 :: "gpio writer" where
  "gpio_write32 a v =
     kmodify (\<lambda>g.
       if a = RCC_AHB1ENR then g\<lparr>g_clock := v\<rparr>
       else if \<not> bit (g_clock g) 3 then g
       else if a = GPIO_D_MODER then g\<lparr>g_moder := v\<rparr>
       else if a = GPIO_D_BSRR
         then g\<lparr>g_odr := (g_odr g AND NOT (drop_bit 16 v)) OR (v AND 0xffff)\<rparr>
       else g)"

datatype led = Green | Orange | Red | Blue

definition pin :: "led \<Rightarrow> nat" where
  "pin l = (case l of Green \<Rightarrow> 12 | Orange \<Rightarrow> 13 | Red \<Rightarrow> 14 | Blue \<Rightarrow> 15)"

definition lit :: "gpio \<Rightarrow> led \<Rightarrow> bool" where
  "lit g l \<longleftrightarrow> bit (g_clock g) 3 \<and> take_bit 2 (drop_bit (2 * pin l) (g_moder g)) = 1 \<and> bit (g_odr g) (pin l)"

definition led_on :: "led \<Rightarrow> 'd writer \<Rightarrow> ('d, unit) kop" where
  "led_on l = (case l of Green \<Rightarrow> led_green_on | Orange \<Rightarrow> led_orange_on | Red \<Rightarrow> led_red_on | Blue \<Rightarrow> led_blue_on)"

definition led_off :: "led \<Rightarrow> 'd writer \<Rightarrow> ('d, unit) kop" where
  "led_off l = (case l of Green \<Rightarrow> led_green_off | Orange \<Rightarrow> led_orange_off | Red \<Rightarrow> led_red_off | Blue \<Rightarrow> led_blue_off)"

lemmas led_defs = led_green_on_def led_green_off_def led_blue_on_def led_blue_off_def led_orange_on_def led_orange_off_def
  led_red_on_def led_red_off_def GPIO_D_ON_def GPIO_D_OFF_def GPIO_D_BSRR_WRITE_def GPIO_D_MODER_WRITE_def RCC_AHB1ENR_WRITE_def
  RCC_AHB1ENR_def RCC_REG_def RCC_BASE_def GPIO_D_BSRR_def GPIO_D_MODER_def GPIO_D_REG_def GPIO_D_BASE_def DISABLE_OFFSET_BITS_def
  GREEN_LED_MASK_def ORANGE_LED_MASK_def RED_LED_MASK_def BLUE_LED_MASK_def ALL_LED_MASK_def GREEN_LED_ENABLE_MASK_def
  ORANGE_LED_ENABLE_MASK_def RED_LED_ENABLE_MASK_def BLUE_LED_ENABLE_MASK_def ALL_LED_ENABLE_MASK_def

definition leds_ready :: "gpio \<Rightarrow> bool" where
  "leds_ready g \<longleftrightarrow> bit (g_clock g) 3 \<and> g_moder g = ALL_LED_ENABLE_MASK"

lemma led_switch:
  assumes "leds_ready g"
  shows "\<exists>g'. led_on l gpio_write32 g = Inr ((), g') \<and> leds_ready g' \<and> (\<forall>l'. lit g' l' \<longleftrightarrow> l' = l \<or> lit g l')"
    and "\<exists>g'. led_off l gpio_write32 g = Inr ((), g') \<and> leds_ready g' \<and> (\<forall>l'. lit g' l' \<longleftrightarrow> l' \<noteq> l \<and> lit g l')"
proof -
  have ready: "bit (g_clock g) 3" "g_moder g = ALL_LED_ENABLE_MASK" using assms by (simp_all add: leds_ready_def)
  have out: "take_bit 2 (drop_bit (2 * pin l') ALL_LED_ENABLE_MASK) = 1" for l'
    by (cases l') (simp_all add: pin_def led_defs)
  show "\<exists>g'. led_on l gpio_write32 g = Inr ((), g') \<and> leds_ready g' \<and> (\<forall>l'. lit g' l' \<longleftrightarrow> l' = l \<or> lit g l')"
    using ready out
    by (cases l) (auto simp: led_on_def gpio_write32_def kmodify_def leds_ready_def lit_def led_defs bit_simps pin_def split: led.splits)
  show "\<exists>g'. led_off l gpio_write32 g = Inr ((), g') \<and> leds_ready g' \<and> (\<forall>l'. lit g' l' \<longleftrightarrow> l' \<noteq> l \<and> lit g l')"
    using ready out
    by (cases l) (auto simp: led_off_def gpio_write32_def kmodify_def leds_ready_def lit_def led_defs bit_simps pin_def split: led.splits)
qed

lemma led_init_ready:
  "\<exists>g'. led_init gpio_write32 g = Inr ((), g') \<and> leds_ready g' \<and> (\<forall>l. \<not> lit g' l)"
  by (auto simp: led_init_def kop_defs gpio_write32_def leds_ready_def lit_def led_defs bit_simps pin_def split: led.splits)

text \<open>
  After initialisation, whatever the state of the port was before, the LEDs show what they were last
  told: the driver implements a function from LEDs to booleans that is updated at one point at a time.
\<close>

theorem leds_show_commands:
  "\<exists>g'. kseq (led_init gpio_write32 # map (\<lambda>(l, on). if on then led_on l gpio_write32 else led_off l gpio_write32) cmds) g = Inr ((), g') \<and>
    lit g' = fold (\<lambda>(l, on) show. show(l := on)) cmds (\<lambda>_. False)"
proof -
  have run: "\<exists>g'. kseq (map (\<lambda>(l, on). if on then led_on l gpio_write32 else led_off l gpio_write32) cmds) g = Inr ((), g') \<and>
      lit g' = fold (\<lambda>(l, on) show. show(l := on)) cmds (lit g)" if "leds_ready g" for g
    using that
  proof (induction cmds arbitrary: g)
    case (Cons cmd cmds)
    obtain l on where cmd: "cmd = (l, on)" by (cases cmd)
    obtain g1 where g1: "(if on then led_on l gpio_write32 else led_off l gpio_write32) g = Inr ((), g1)" "leds_ready g1"
      "lit g1 = (lit g)(l := on)"
      using led_switch [OF Cons.prems, of l] by (cases on) (auto simp: fun_eq_iff)
    show ?case using Cons.IH [OF g1(2)] g1(1,3) by (simp add: cmd kop_defs)
  qed (simp add: kop_defs)
  obtain g0 where g0: "led_init gpio_write32 g = Inr ((), g0)" "leds_ready g0" "lit g0 = (\<lambda>_. False)"
    using led_init_ready [of g] by (auto simp: fun_eq_iff)
  show ?thesis using run [OF g0(2)] g0 by (simp add: kop_defs)
qed

end
