(* ===== verification/Event_Waits.thy ===== *)
theory Event_Waits
  imports Preempt_PPCe500
begin

text \<open>
  Waiting for interrupts when no task can run: \<open>interrupt_event_wait\<close> of the three platforms
  (\<open>components/interrupt-event-armv7m\<close>, \<open>-ppce500\<close>, \<open>-posix\<close>). Interrupt handlers are routines on the
  kernel's state. \<open>earlier\<close> are those that run before the wait has masked interrupts, and \<open>arriving\<close> those
  of the interrupts that arrive while they are masked or while the processor sleeps. A processor that
  sleeps with none to come does not return, which is the failure \<open>Diverges\<close>.
\<close>

section \<open>Model\<close>

definition interrupt_event_check :: "('k \<Rightarrow> bool) \<Rightarrow> ('k \<Rightarrow> bool) \<Rightarrow> 'k \<Rightarrow> bool" where
  "interrupt_event_check interrupt_application_event_check interrupt_system_event_check k \<longleftrightarrow>
     interrupt_application_event_check k \<or> interrupt_system_event_check k"

text \<open>With \<open>timer_process\<close>, the system's own events are ticks.\<close>

definition interrupt_system_event_check :: "('s, 'z) timer_kernel_scheme \<Rightarrow> bool" where
  "interrupt_system_event_check k \<longleftrightarrow> armv7m_timer_pending_ticks_check (k_timer_pending_ticks k)"

text \<open>
  On ARMv7-M, \<open>wfi\<close> ends when an interrupt is pending although \<open>cpsid i\<close> masks it; the handlers run at
  \<open>cpsie i\<close>.
\<close>

definition armv7m_interrupt_event_wait ::
  "('k \<Rightarrow> bool) \<Rightarrow> ('k, unit) kop list \<Rightarrow> ('k, unit) kop list \<Rightarrow> ('k, unit) kop"
where
  "armv7m_interrupt_event_wait check earlier arriving =
     kbind (kseq earlier) (\<lambda>_.
     kbind (kgets check) (\<lambda>event.
     kbind (kwhen (\<not> event) (kwhen (arriving = []) (kfail Diverges))) (\<lambda>_.
     kseq arriving)))"

text \<open>
  On the PowerPC e500, \<open>interrupts_wait\<close> unmasks interrupts and puts the processor to sleep at once, so
  the handlers run before it returns.
\<close>

definition interrupts_wait ::
  "(('s, 'z) ppc_kernel_scheme, unit) kop list \<Rightarrow> (('s, 'z) ppc_kernel_scheme, unit) kop"
where
  "interrupts_wait arriving =
     kbind interrupts_enable (\<lambda>_. if arriving = [] then kfail Diverges else kseq arriving)"

definition ppce500_interrupt_event_wait ::
  "(('s, 'z) ppc_kernel_scheme \<Rightarrow> bool) \<Rightarrow> (('s, 'z) ppc_kernel_scheme, unit) kop list \<Rightarrow>
     (('s, 'z) ppc_kernel_scheme, unit) kop list \<Rightarrow> (('s, 'z) ppc_kernel_scheme, unit) kop"
where
  "ppce500_interrupt_event_wait check earlier arriving =
     kbind (kseq earlier) (\<lambda>_.
     kbind interrupts_disable (\<lambda>_.
     kbind (kgets check) (\<lambda>event.
     if \<not> event
     then kbind (interrupts_wait arriving) (\<lambda>_. interrupts_enable)
     else kbind interrupts_enable (\<lambda>_. kseq arriving))))"

text \<open>
  On POSIX, interrupts are signals, and \<open>handler\<close> says what the application's handler for a signal does.
  \<open>sigwait\<close> takes one of the signals that are pending and \<open>raise\<close> has it handled; the others are handled
  when signals are unblocked. When \<open>sigwait\<close> is not called, the variable \<open>sig\<close> keeps the value it has by
  not being initialised, which is the argument \<open>sig\<close>.
\<close>

datatype posix_signal = SIGALRM | SIGVTALRM | SIGPROF | SIGCHLD | SIGRTMIN | SIGRTMAX | SIGUSR1 | SIGUSR2 | SIGOTHER nat

definition interrupt_event_set_default :: "posix_signal list" where
  "interrupt_event_set_default =
     [SIGALRM, SIGVTALRM, SIGPROF, SIGCHLD, SIGRTMIN, SIGRTMAX, SIGUSR1, SIGUSR2]"

text \<open>Only the signals of this set are blocked; \<open>arriving\<close> lists those of them that arrive after that.\<close>

definition posix_interrupt_event_wait ::
  "('k \<Rightarrow> bool) \<Rightarrow> (posix_signal \<Rightarrow> ('k, unit) kop) \<Rightarrow> posix_signal \<Rightarrow> posix_signal list \<Rightarrow> posix_signal list \<Rightarrow>
     ('k, unit) kop"
where
  "posix_interrupt_event_wait check handler sig earlier arriving =
     kbind (kseq (map handler earlier)) (\<lambda>_.
     kbind (kgets check) (\<lambda>event.
     let blocked = filter (\<lambda>s. s \<in> set interrupt_event_set_default) arriving in
     if \<not> event
     then (case blocked of
         [] \<Rightarrow> kfail Diverges
       | sig # rest \<Rightarrow> kbind (kseq (map handler rest)) (\<lambda>_. handler sig))
     else kbind (kseq (map handler blocked)) (\<lambda>_. handler sig)))"

section \<open>Handlers that raise events\<close>

primrec raised :: "u32 list \<Rightarrow> u32" where
  "raised [] = 0"
| "raised (e # es) = e OR raised es"

lemma isr_raise_eq: "isr_raise e k = Inr ((), k\<lparr>k_interrupt_event := k_interrupt_event k OR e\<rparr>)"
  by (simp add: isr_raise_def kmodify_def)

lemma kseq_isr_raise:
  "kseq (map isr_raise es) k = Inr ((), k\<lparr>k_interrupt_event := k_interrupt_event k OR raised es\<rparr>)"
  by (induction es arbitrary: k) (simp_all add: kop_defs isr_raise_eq ac_simps)

lemma raised_append [simp]: "raised (xs @ ys) = raised xs OR raised ys"
  by (induction xs) (simp_all add: ac_simps)

lemma interrupt_event_check_iff:
  "interrupt_event_check armv7m_interrupt_application_event_check interrupt_system_event_check k \<longleftrightarrow>
     k_interrupt_event k \<noteq> 0 \<or> k_timer_pending_ticks k \<noteq> 0"
  "interrupt_event_check ppce500_interrupt_application_event_check interrupt_system_event_check k \<longleftrightarrow>
     k_interrupt_event k \<noteq> 0 \<or> k_timer_pending_ticks k \<noteq> 0"
  "interrupt_event_check posix_interrupt_application_event_check interrupt_system_event_check k \<longleftrightarrow>
     k_interrupt_event k \<noteq> 0 \<or> k_timer_pending_ticks k \<noteq> 0"
  by (simp_all add: interrupt_event_check_def interrupt_system_event_check_def armv7m_timer_pending_ticks_check_def
      armv7m_interrupt_application_event_check_def ppce500_interrupt_application_event_check_def
      posix_interrupt_application_event_check_def)

text \<open>
  What happens while the system waits for an interrupt: events that are raised earlier and after
  interrupts are masked, and whether there is a timer tick. The system waits for each of them to end
  the wait.
\<close>

type_synonym interrupts = "u32 list \<times> u32 list \<times> bool"

definition events_below :: "nat \<Rightarrow> u32 \<Rightarrow> bool" where
  "events_below nev w \<longleftrightarrow> (\<forall>i. bit w i \<longrightarrow> i < nev)"

definition interrupts_ok :: "nat \<Rightarrow> interrupts \<Rightarrow> bool" where
  "interrupts_ok nev = (\<lambda>(earlier, arriving, ticked).
     (\<forall>e \<in> set earlier \<union> set arriving. events_below nev e) \<and> (raised earlier \<noteq> 0 \<or> arriving \<noteq> [] \<or> ticked))"

lemma events_below_simps [simp]: "events_below nev 0" "events_below nev (v OR w) \<longleftrightarrow> events_below nev v \<and> events_below nev w"
  by (auto simp: events_below_def bit_or_iff)

lemma events_below_raised: "\<forall>e \<in> set es. events_below nev e \<Longrightarrow> events_below nev (raised es)"
  by (induction es) simp_all

lemmas wait_defs = armv7m_interrupt_event_wait_def ppce500_interrupt_event_wait_def interrupts_wait_def
  interrupts_enable_def interrupts_disable_def kop_defs kseq_isr_raise interrupt_event_check_iff

text \<open>
  No event is slept through. On ARMv7-M and on the PowerPC e500, the wait does not return only when
  no event and no tick is pending after interrupts are masked and no interrupt arrives from then on.
  Otherwise it returns, with interrupts unmasked, and all events that were pending before, raised up to
  the masking of interrupts, or raised since, are pending.
\<close>

theorem interrupt_event_wait_returns:
  fixes k :: "('s, 'z) ppc_kernel_scheme"
  shows "armv7m_interrupt_event_wait (interrupt_event_check armv7m_interrupt_application_event_check interrupt_system_event_check)
        (map isr_raise earlier) (map isr_raise arriving) k =
      (if k_interrupt_event k OR raised earlier = 0 \<and> k_timer_pending_ticks k = 0 \<and> arriving = [] then Inl Diverges
       else Inr ((), k\<lparr>k_interrupt_event := k_interrupt_event k OR raised (earlier @ arriving)\<rparr>)) \<and>
    ppce500_interrupt_event_wait (interrupt_event_check ppce500_interrupt_application_event_check interrupt_system_event_check)
        (map isr_raise earlier) (map isr_raise arriving) k =
      (if k_interrupt_event k OR raised earlier = 0 \<and> k_timer_pending_ticks k = 0 \<and> arriving = [] then Inl Diverges
       else Inr ((), k\<lparr>k_interrupt_event := k_interrupt_event k OR raised (earlier @ arriving),
                       k_interrupts_enabled := True\<rparr>))"
  by (auto simp: wait_defs ac_simps)


end
