(* ===== verification/Kochab_Switch.thy ===== *)
theory Kochab_Switch
  imports Kochab_Properties
begin

text \<open>
  Context switches of the Kochab variant on the PowerPC e500: a task is entered for the first time, and
  a task that was switched away from continues where it was. The registers themselves are saved and
  restored by assembly; what is modelled is which frame it is given and with which flags.
\<close>

text \<open>
  The first switch to a task enters it as its initial context says: the assembly gets the frame that
  \<open>context_init\<close> set up and is told to restore all registers from it, so the task starts at its entry,
  with interrupts enabled. Preemption is disabled until the entry function enables it, which succeeds
  and leaves it enabled.
\<close>

theorem kochab_first_switch:
  fixes k :: "(pi_sched, 'z) ppc_kernel_scheme"
  assumes "CONTEXT_HEADER_SIZE + preempt_frame_size spe msr \<le> stack_size"
    and "ppce500_preempt_context_init spe msr fn stack_base stack_size mem = Inr (ctxt, mem')"
    and "\<forall>i < preempt_frame_size spe msr. k_words k (ctxt + i) = mem' (ctxt + i)"
    and "\<not> k_interrupts_enabled k" and "k_preempt_disabled k"
    and "unat t < length (k_contexts k)" and "k_contexts k ! unat t = ctxt"
  shows "context_switch_first c spe t k = Inr ((True, ctxt), k\<lparr>k_current_task := t\<rparr>) \<and>
    k_words k (ctxt + CONTEXT_SRR0_IDX) = fn \<and>
    k_words k (ctxt + CONTEXT_SRR1_IDX) AND PPCE500_MSR_EE_SET \<noteq> 0 \<and>
    kochab_entry (preemptive c) (k\<lparr>k_current_task := t\<rparr>) = Inr ((), k\<lparr>k_current_task := t, k_preempt_disabled := False\<rparr>)"
proof -
  have mem': "mem' (ctxt + CONTEXT_SRR0_IDX) = fn" "mem' (ctxt + CONTEXT_SRR1_IDX) = msr OR PPCE500_MSR_EE_SET"
    "mem' (ctxt + status_slot spe (mem' (ctxt + CONTEXT_SRR1_IDX))) = PREEMPT_RESTORE_DISABLED OR PREEMPT_RESTORE_VOLATILES"
    using ppce500_preempt_context_init_frame [OF assms(1), of fn stack_base mem] assms(2) by auto
  have idx: "CONTEXT_SRR0_IDX < preempt_frame_size spe msr" "CONTEXT_SRR1_IDX < preempt_frame_size spe msr"
    "status_slot spe msr < preempt_frame_size spe msr"
    by (simp_all add: preempt_frame_size_def status_slot_def frame_sizes)
  then have words: "k_words k (ctxt + CONTEXT_SRR0_IDX) = fn" "k_words k (ctxt + CONTEXT_SRR1_IDX) = msr OR PPCE500_MSR_EE_SET"
    using assms(3) mem' by simp_all
  have "saved_status spe (k_words k) ctxt = PREEMPT_RESTORE_DISABLED OR PREEMPT_RESTORE_VOLATILES"
    using assms(3) idx mem' by (simp add: saved_status_def words status_slot_ee)
  then have status: "saved_status spe (k_words k) ctxt = 3"
    by (simp add: PREEMPT_RESTORE_DISABLED_def PREEMPT_RESTORE_VOLATILES_def)
  have "k\<lparr>k_current_task := t, k_preempt_disabled := True\<rparr> = k\<lparr>k_current_task := t\<rparr>"
    using assms(5) by (cases k) simp
  then have "context_switch_first c spe t k = Inr ((True, ctxt), k\<lparr>k_current_task := t\<rparr>)"
    using context_switch_first_eq [OF assms(4-6)] status assms(7)
    by (simp add: Let_def PREEMPT_RESTORE_DISABLED_def PREEMPT_RESTORE_VOLATILES_def)
  moreover have "(msr OR PPCE500_MSR_EE_SET) AND PPCE500_MSR_EE_SET = PPCE500_MSR_EE_SET"
    by (simp add: word_ao_absorbs)
  moreover have "kochab_entry (preemptive c) (k\<lparr>k_current_task := t\<rparr>) = Inr ((), k\<lparr>k_current_task := t, k_preempt_disabled := False\<rparr>)"
    using assms(5) by (simp add: kochab_entry_def kbind_def kreturn_def preempt_ok_disabled leave_def)
  ultimately show ?thesis using words by (simp add: PPCE500_MSR_EE_SET_def)
qed

abbreviation switch_example :: "pi_sched ppc_kernel" where
  "switch_example \<equiv> kochab_example\<lparr>k_interrupts_enabled := False, k_preempt_disabled := True\<rparr>"

theorem kochab_first_switch_witness:
  "\<exists>ctxt mem' k'. ppce500_preempt_context_init False 0 4096 100 50 (\<lambda>_. 0) = Inr (ctxt, mem') \<and>
    context_switch_first kochab_config False 2 (switch_example\<lparr>k_contexts := [900, 600, ctxt], k_words := mem'\<rparr>) =
      Inr ((True, ctxt), k') \<and> k_words k' (ctxt + CONTEXT_SRR0_IDX) = 4096"
proof -
  have fits: "CONTEXT_HEADER_SIZE + preempt_frame_size False 0 \<le> 50" by (simp add: preempt_frame_size_def frame_sizes)
  obtain ctxt mem' where init: "ppce500_preempt_context_init False 0 4096 100 50 (\<lambda>_. 0) = Inr (ctxt, mem')"
    using ppce500_preempt_context_init_frame [OF fits, of 4096 100 "\<lambda>_. 0"] by blast
  show ?thesis
    using kochab_first_switch [OF fits init, of "switch_example\<lparr>k_contexts := [900, 600, ctxt], k_words := mem'\<rparr>" 2 kochab_config] init
    by (simp add: kochab_example_def)
qed

text \<open>
  C35: A context switch loses nothing: when a task has been switched away from and another task switches
  back to it later, it continues from the frame it was interrupted in, restoring as many registers as
  were saved, and preemption is enabled or disabled as it was to be for it. This holds if meanwhile
  nothing wrote to the frame, and the other task saves its own state elsewhere.
\<close>

theorem ppce500_switch_roundtrip:
  fixes k k2 :: "('s, 'z) ppc_kernel_scheme" and spe :: bool and ctxt :: nat
  defines "me \<equiv> k_current_task k"
  defines "frame_size \<equiv> preempt_frame_size spe (k_words k (ctxt + CONTEXT_SRR1_IDX))"
  assumes k: "\<not> k_interrupts_enabled k" "k_preempt_disabled k" "current_ok c k" "length (k_contexts k) = tasks_length c"
    and away: "unat to < tasks_length c" "rtos_internal_context_switch c spe to ctxt d v k = Inr (r, k1)"
    and k2: "\<not> k_interrupts_enabled k2" "k_preempt_disabled k2" "current_ok c k2" "length (k_contexts k2) = tasks_length c"
    and other: "k_current_task k2 \<noteq> me"
    and kept: "k_contexts k2 ! unat me = k_contexts k1 ! unat me" "\<forall>i < frame_size. k_words k2 (ctxt + i) = k_words k1 (ctxt + i)"
    and apart: "\<forall>i < frame_size. ctxt + i \<noteq> ctxt2 + status_slot spe (k_words k2 (ctxt2 + CONTEXT_SRR1_IDX))"
  shows "\<exists>k3. rtos_internal_context_switch c spe me ctxt2 d2 v2 k2 = Inr ((v, ctxt), k3) \<and>
    k_current_task k3 = me \<and> k_preempt_disabled k3 = d"
proof -
  let ?k = "saved spe ctxt d v k" and ?k2 = "saved spe ctxt2 d2 v2 k2"
  have me: "unat me < length (k_contexts k)" "unat (k_current_task k2) < length (k_contexts k2)"
    using k(3,4) k2(3,4) by (simp_all add: me_def current_ok_def)
  have flags: "\<not> k_interrupts_enabled ?k" "k_preempt_disabled ?k" "unat to < length (k_contexts ?k)"
    "\<not> k_interrupts_enabled ?k2" "k_preempt_disabled ?k2" "length (k_contexts ?k2) = length (k_contexts k)"
    using k k2 away(1) by (simp_all add: saved_def)
  have k1: "k_contexts k1 = k_contexts ?k" "k_words k1 = k_words ?k"
    using away(2) context_switch_eq [OF k] context_switch_first_eq [OF flags(1-3)] by (auto simp: Let_def)
  have pointer: "k_contexts ?k2 ! unat me = k_contexts ?k ! unat me"
    using kept(1) k1(1) me other k2(4) k(4) by (simp add: saved_def word_unat_eq_iff)
  have frame: "k_words ?k2 (ctxt + i) = k_words ?k (ctxt + i)" if "i < preempt_frame_size spe (k_words k (ctxt + CONTEXT_SRR1_IDX))" for i
  proof -
    have "i < frame_size" using that by (simp add: frame_size_def)
    then have "k_words ?k2 (ctxt + i) = k_words k2 (ctxt + i)" using apart by (simp add: saved_def)
    then show ?thesis using kept(2) \<open>i < frame_size\<close> k1(2) by simp
  qed
  have "context_switch_first c spe me ?k2 = Inr ((v, ctxt), ?k2\<lparr>k_current_task := me, k_preempt_disabled := d\<rparr>)"
    by (rule switch_back [OF me(1) _ flags(4-6) pointer frame]) (simp add: me_def)
  then show ?thesis using context_switch_eq [OF k2] by simp
qed

theorem ppce500_switch_roundtrip_witness:
  "\<exists>r k1 k3. rtos_internal_context_switch kochab_config False 2 600 False True switch_example = Inr (r, k1) \<and>
    rtos_internal_context_switch kochab_config False 1 310 True False (k1\<lparr>k_preempt_disabled := True\<rparr>) = Inr ((True, 600), k3) \<and>
    k_current_task k3 = 1 \<and> \<not> k_preempt_disabled k3"
proof -
  have k: "\<not> k_interrupts_enabled switch_example" "k_preempt_disabled switch_example" "current_ok kochab_config switch_example"
    "length (k_contexts switch_example) = tasks_length kochab_config" "unat (2 :: u8) < tasks_length kochab_config"
    "k_words switch_example (600 + CONTEXT_SRR1_IDX) = 0" "k_current_task switch_example = 1"
    by (simp_all add: kochab_defs)
  let ?k1 = "(saved False 600 False True switch_example)\<lparr>k_current_task := 2, k_preempt_disabled := False\<rparr>"
  have status: "saved_status False (k_words (saved False 600 False True switch_example)) 300 = 0"
    by (simp add: saved_def saved_status_def status_slot_def frame_sizes kochab_example_def)
  have run: "rtos_internal_context_switch kochab_config False 2 600 False True switch_example = Inr ((False, 300), ?k1)"
    using context_switch_eq [OF k(1-4), of False 2 600 False True]
      context_switch_first_eq [of "saved False 600 False True switch_example" 2 kochab_config False] k(1,2) status
    by (simp add: saved_def kochab_example_def Let_def)
  have k2: "\<not> k_interrupts_enabled (?k1\<lparr>k_preempt_disabled := True\<rparr>)" "k_preempt_disabled (?k1\<lparr>k_preempt_disabled := True\<rparr>)"
    "current_ok kochab_config (?k1\<lparr>k_preempt_disabled := True\<rparr>)"
    "length (k_contexts (?k1\<lparr>k_preempt_disabled := True\<rparr>)) = tasks_length kochab_config"
    "k_current_task (?k1\<lparr>k_preempt_disabled := True\<rparr>) \<noteq> k_current_task switch_example"
    by (simp_all add: saved_def kochab_defs)
  have "preempt_frame_size False msr = 38" "status_slot False msr = 37" for msr
    by (simp_all add: preempt_frame_size_def status_slot_def frame_sizes)
  then have "\<forall>i < preempt_frame_size False (k_words switch_example (600 + CONTEXT_SRR1_IDX)).
      600 + i \<noteq> 310 + status_slot False (k_words (?k1\<lparr>k_preempt_disabled := True\<rparr>) (310 + CONTEXT_SRR1_IDX))"
    by simp
  note switched = ppce500_switch_roundtrip [OF k(1-5) run k2 _ _ this, of True False]
  have "\<exists>k3. rtos_internal_context_switch kochab_config False 1 310 True False (?k1\<lparr>k_preempt_disabled := True\<rparr>) = Inr ((True, 600), k3) \<and>
    k_current_task k3 = 1 \<and> k_preempt_disabled k3 = False"
    using switched unfolding k(7) by simp
  then show ?thesis using run by blast
qed

end
