(* ===== verification/Rigel_System.thy ===== *)
theory Rigel_System
  imports Rigel_Sync Event_Waits
begin

text \<open>
  A whole Rigel system on ARMv7-M as a transition system: tasks that call the kernel in any order and are
  continued by the scheduler, with interrupts at any time. The calls are those for yielding, signals,
  sleeping and mutexes.
\<close>

section \<open>Waiting for interrupts\<close>

definition rigel_wait :: "interrupts \<Rightarrow> (('s, 'z) timer_kernel_scheme, unit) kop" where
  "rigel_wait = (\<lambda>(earlier, arriving, ticked).
     armv7m_interrupt_event_wait (interrupt_event_check armv7m_interrupt_application_event_check interrupt_system_event_check)
       (map isr_raise earlier) (map isr_raise arriving @ (if ticked then [rtos_timer_tick] else [])))"

lemma rigel_wait_eq:
  assumes "interrupts_ok nev w" and "k_timer_pending_ticks k = 0"
  shows "\<exists>e b. rigel_wait w k = Inr ((), k\<lparr>k_interrupt_event := k_interrupt_event k OR e, k_timer_pending_ticks := if b then 1 else 0\<rparr>) \<and>
    events_below nev e"
proof -
  obtain earlier arriving ticked where w: "w = (earlier, arriving, ticked)" by (cases w)
  let ?e = "raised earlier OR raised arriving"
  have "events_below nev ?e" using assms(1) by (auto simp: w interrupts_ok_def intro: events_below_raised)
  moreover have "rigel_wait w k = Inr ((), k\<lparr>k_interrupt_event := k_interrupt_event k OR ?e, k_timer_pending_ticks := if ticked then 1 else 0\<rparr>)"
  proof -
    have ends: "k_interrupt_event k OR raised earlier \<noteq> 0 \<or> arriving \<noteq> [] \<or> ticked"
      using assms(1) by (auto simp: w interrupts_ok_def or_eq_0_iff)
    have same: "k\<lparr>k_interrupt_event := v, k_timer_pending_ticks := 0\<rparr> = k\<lparr>k_interrupt_event := v\<rparr>" for v
      using assms(2) by (cases k) simp
    show ?thesis
      using ends assms(2)
      by (auto simp: w rigel_wait_def armv7m_interrupt_event_wait_def kseq_append kbind_def kgets_def kwhen_def kreturn_def
          kmodify_def kseq_isr_raise interrupt_event_check_iff rtos_timer_tick_def armv7m_timer_tick_def same ac_simps)
  qed
  ultimately show ?thesis by blast
qed

section \<open>The system\<close>

text \<open>
  A task is running application code, or is in a call that has given up the processor, at the program
  point from which it will be continued.
\<close>

datatype rigel_thread = Running | In_Yield | In_Wait signal_pc | In_Sleep signal_pc | In_Lock mutex_pc

datatype rigel_call =
    Yield
  | Signal_Wait u8
  | Signal_Send u8 u8
  | Signal_Poll u8
  | Sleep u16
  | Mutex_Lock u8
  | Mutex_Try_Lock u8
  | Mutex_Unlock u8

definition thread_of :: "('p \<Rightarrow> rigel_thread) \<Rightarrow> ('p, 'a) progress \<Rightarrow> rigel_thread" where
  "thread_of f r = (case r of Suspended p \<Rightarrow> f p | Finished _ \<Rightarrow> Running)"

definition rigel_invoke :: "config \<Rightarrow> rigel_call \<Rightarrow> ((rr_sched, 'z) mq_kernel_scheme, rigel_thread) kop" where
  "rigel_invoke c call =
     (case call of
        Yield \<Rightarrow> kreturn In_Yield
      | Signal_Wait signals \<Rightarrow>
          kbind (rtos_signal_wait_set c (\<lambda>_. rigel_set_blocked c) signals) (\<lambda>p. kreturn (In_Wait p))
      | Signal_Send task signals \<Rightarrow> kbind (rtos_signal_send_set c rigel_unblock task signals) (\<lambda>_. kreturn Running)
      | Signal_Poll signals \<Rightarrow> kbind (rtos_signal_poll_set c signals) (\<lambda>_. kreturn Running)
      | Sleep ticks \<Rightarrow>
          kbind (rtos_sleep c rigel_unblock (\<lambda>_. rigel_set_blocked c) ticks) (\<lambda>p. kreturn (In_Sleep p))
      | Mutex_Lock m \<Rightarrow> kbind (rtos_mutex_lock c (rigel_mutex_core c False) m) (\<lambda>r. kreturn (thread_of In_Lock r))
      | Mutex_Try_Lock m \<Rightarrow> kbind (rtos_mutex_try_lock c (rigel_mutex_core c False) m) (\<lambda>_. kreturn Running)
      | Mutex_Unlock m \<Rightarrow> kbind (rtos_mutex_unlock c (rigel_mutex_core c False) m) (\<lambda>_. kreturn Running))"

definition rigel_continue :: "config \<Rightarrow> rigel_thread \<Rightarrow> ((rr_sched, 'z) mq_kernel_scheme, rigel_thread) kop" where
  "rigel_continue c thread =
     (case thread of
        Running \<Rightarrow> kreturn Running
      | In_Yield \<Rightarrow> kreturn Running
      | In_Wait p \<Rightarrow>
          kbind (rtos_signal_wait_set_resume c (\<lambda>_. rigel_set_blocked c) p) (\<lambda>r. kreturn (thread_of In_Wait r))
      | In_Sleep p \<Rightarrow> kbind (rtos_sleep_resume c (\<lambda>_. rigel_set_blocked c) p) (\<lambda>r. kreturn (thread_of In_Sleep r))
      | In_Lock p \<Rightarrow> kbind (rtos_mutex_resume c (rigel_mutex_core c False) p) (\<lambda>r. kreturn (thread_of In_Lock r)))"

text \<open>
  A turn of the current task: it makes a call, or continues the one it is in. If that gives up the
  processor, the scheduler picks the next task, with interrupts as given by \<open>isr\<close> and \<open>waits\<close>; no
  state results when it is still idle after those.
\<close>

type_synonym 'z rigel_state = "(rr_sched, 'z) mq_kernel_scheme \<times> (u8 \<Rightarrow> rigel_thread)"

definition rigel_turn ::
  "config \<Rightarrow> (nat \<Rightarrow> u32) \<Rightarrow> interrupts list \<Rightarrow> rigel_call \<Rightarrow> 'z rigel_state \<Rightarrow> failure + 'z rigel_state option"
where
  "rigel_turn c isr waits call = (\<lambda>(k, threads).
     let me = k_current_task k in
     case (if threads me = Running then rigel_invoke c call else rigel_continue c (threads me)) k of
       Inl e \<Rightarrow> Inl e
     | Inr (thread, k1) \<Rightarrow>
         if thread = Running then Inr (Some (k1, threads(me := Running)))
         else
           case rigel_yield c (armv7m_interrupt_event_process (interrupt_event_handle c rigel_unblock) isr)
                  (map rigel_wait waits) k1 of
             Inl e \<Rightarrow> Inl e
           | Inr (None, k2) \<Rightarrow> Inr None
           | Inr (Some _, k2) \<Rightarrow> Inr (Some (k2, threads(me := thread))))"

text \<open>
  What the kernel requires of the application: calls name tasks and mutexes that exist, a task does not
  lock a mutex that it holds and unlocks only such, and does not sleep for no time.
\<close>

definition call_ok :: "config \<Rightarrow> (rr_sched, 'z) mq_kernel_scheme \<Rightarrow> rigel_call \<Rightarrow> bool" where
  "call_ok c k call \<longleftrightarrow>
     (case call of
        Signal_Send task signals \<Rightarrow> unat task < tasks_length c
      | Sleep ticks \<Rightarrow> ticks \<noteq> 0
      | Mutex_Lock m \<Rightarrow> unat m < length (k_mutexes k) \<and> holder_of k m \<noteq> k_current_task k
      | Mutex_Try_Lock m \<Rightarrow> unat m < length (k_mutexes k)
      | Mutex_Unlock m \<Rightarrow> unat m < length (k_mutexes k) \<and> holder_of k m = k_current_task k
      | _ \<Rightarrow> True)"

text \<open>Ticks come only when the previous one has been processed: the system keeps up with its timer.\<close>

inductive rigel_step :: "config \<Rightarrow> nat \<Rightarrow> 'z rigel_state \<Rightarrow> 'z rigel_state \<Rightarrow> bool" for c nev where
  Turn: "call_ok c k call \<Longrightarrow> \<forall>n. events_below nev (isr n) \<Longrightarrow> \<forall>w \<in> set waits. interrupts_ok nev w \<Longrightarrow>
    rigel_turn (cooperative c) isr waits call (k, threads) = Inr (Some st) \<Longrightarrow> rigel_step c nev (k, threads) st"
| Event: "events_below nev e \<Longrightarrow> isr_raise e k = Inr ((), k') \<Longrightarrow> rigel_step c nev (k, threads) (k', threads)"
| Tick: "k_timer_pending_ticks k = 0 \<Longrightarrow> rtos_timer_tick k = Inr ((), k') \<Longrightarrow> rigel_step c nev (k, threads) (k', threads)"

section \<open>The invariant\<close>

definition rigel_ok :: "config \<Rightarrow> nat \<Rightarrow> (rr_sched, 'z) mq_kernel_scheme \<Rightarrow> bool" where
  "rigel_ok c nev k \<longleftrightarrow> rigel_events.system_ok c nev k \<and> mutexes_ok c k \<and> SIGNAL_ID__TASK_TIMER c \<noteq> 0 \<and>
     length (k_task_timers k) = tasks_length c \<and> (\<forall>i \<in> set (k_task_timers k). unat i < length (k_timers k)) \<and>
     (\<forall>m. unat m < length (k_mutexes k) \<longrightarrow> holder_of k m = TASK_ID_NONE \<or> unat (holder_of k m) < tasks_length c)"

text \<open>
  Where a call waits for the signals \<open>r\<close>, the task is runnable, or blocked with none of them pending.
\<close>

definition waiting_at :: "(rr_sched, 'z) mq_kernel_scheme \<Rightarrow> u8 \<Rightarrow> u8 \<Rightarrow> signal_pc \<Rightarrow> bool" where
  "waiting_at k t r p \<longleftrightarrow> p = Sig_Yielded t r \<and> rr_is_runnable (k_sched k) t \<or>
     p = Sig_Blocked t r TASK_ID_NONE \<and> (rr_is_runnable (k_sched k) t \<or> pending_of k t AND r = 0)"

text \<open>
  A task in a lock that has not been sent its wake-up signal is registered for the mutex, and somebody
  holds that.
\<close>

definition locking_at :: "config \<Rightarrow> (rr_sched, 'z) mq_kernel_scheme \<Rightarrow> u8 \<Rightarrow> mutex_pc \<Rightarrow> bool" where
  "locking_at c k t pc \<longleftrightarrow> (\<exists>m contended start p. pc = Mutex_Locking m contended start p \<and> unat m < length (k_mutexes k) \<and>
     waiting_at k t (SIGNAL_ID__TASK_TIMER c) p \<and>
     (p = Sig_Yielded t (SIGNAL_ID__TASK_TIMER c) \<or> pending_of k t AND SIGNAL_ID__TASK_TIMER c \<noteq> 0 \<or>
      waiting_for k t = m \<and> holder_of k m \<noteq> TASK_ID_NONE))"

definition thread_ok :: "config \<Rightarrow> (rr_sched, 'z) mq_kernel_scheme \<Rightarrow> u8 \<Rightarrow> rigel_thread \<Rightarrow> bool" where
  "thread_ok c k t thread \<longleftrightarrow>
     (case thread of
        Running \<Rightarrow> rr_is_runnable (k_sched k) t
      | In_Yield \<Rightarrow> rr_is_runnable (k_sched k) t
      | In_Wait p \<Rightarrow> \<exists>r. waiting_at k t r p
      | In_Sleep p \<Rightarrow> waiting_at k t (SIGNAL_ID__TASK_TIMER c) p
      | In_Lock pc \<Rightarrow> locking_at c k t pc)"

definition rigel_inv :: "config \<Rightarrow> nat \<Rightarrow> 'z rigel_state \<Rightarrow> bool" where
  "rigel_inv c nev = (\<lambda>(k, threads). rigel_ok c nev k \<and> (\<forall>t. unat t < tasks_length c \<longrightarrow> thread_ok c k t (threads t)))"

text \<open>How the state may change for a task that is not running.\<close>

definition stays :: "config \<Rightarrow> (rr_sched, 'z) mq_kernel_scheme \<Rightarrow> (rr_sched, 'z) mq_kernel_scheme \<Rightarrow> u8 \<Rightarrow> bool" where
  "stays c k k' t \<longleftrightarrow> length (k_mutexes k') = length (k_mutexes k) \<and>
     (rr_is_runnable (k_sched k') t \<or> \<not> rr_is_runnable (k_sched k) t \<and> pending_of k' t = pending_of k t) \<and>
     (pending_of k' t AND SIGNAL_ID__TASK_TIMER c \<noteq> 0 \<or>
      pending_of k t AND SIGNAL_ID__TASK_TIMER c = 0 \<and> waiting_for k' t = waiting_for k t \<and>
        (holder_of k (waiting_for k t) \<noteq> TASK_ID_NONE \<longrightarrow> holder_of k' (waiting_for k t) \<noteq> TASK_ID_NONE))"

lemma stays_refl [simp]: "stays c k k t"
  by (simp add: stays_def)

lemma staysI:
  assumes "length (k_mutexes k') = length (k_mutexes k)"
    and "rr_is_runnable (k_sched k') t \<or> \<not> rr_is_runnable (k_sched k) t \<and> pending_of k' t = pending_of k t"
    and "pending_of k t AND pending_of k' t = pending_of k t" and "waiting_for k' t = waiting_for k t"
    and "holder_of k (waiting_for k t) \<noteq> TASK_ID_NONE \<longrightarrow> holder_of k' (waiting_for k t) \<noteq> TASK_ID_NONE"
  shows "stays c k k' t"
proof -
  have "pending_of k t AND SIGNAL_ID__TASK_TIMER c = 0" if "pending_of k' t AND SIGNAL_ID__TASK_TIMER c = 0"
    using that assms(3) by (metis and.assoc and_zero_eq)
  then show ?thesis using assms by (auto simp: stays_def)
qed

lemma thread_ok_stays: "thread_ok c k t thread \<Longrightarrow> stays c k k' t \<Longrightarrow> thread_ok c k' t thread"
  by (cases thread) (auto simp: thread_ok_def stays_def waiting_at_def locking_at_def)

lemma stays_trans: "stays c k k1 t \<Longrightarrow> stays c k1 k2 t \<Longrightarrow> stays c k k2 t"
  unfolding stays_def by metis

lemma rigel_invI:
  "rigel_ok c nev k' \<Longrightarrow> \<forall>t. unat t < tasks_length c \<longrightarrow> t \<noteq> me \<longrightarrow> thread_ok c k t (threads t) \<and> stays c k k' t \<Longrightarrow>
     thread_ok c k' me thread \<Longrightarrow> rigel_inv c nev (k', threads(me := thread))"
  by (auto simp: rigel_inv_def intro: thread_ok_stays)

lemma rigel_inv_stays:
  assumes "rigel_inv c nev (k, threads)" and "\<forall>t. unat t < tasks_length c \<longrightarrow> stays c k k' t" and "rigel_ok c nev k'"
  shows "rigel_inv c nev (k', threads)"
  using assms thread_ok_stays [of c k _ _ k'] by (simp add: rigel_inv_def)

section \<open>The scheduler\<close>

lemma mutex_more_frame:
  "event_kernel.more k' = event_kernel.more k \<Longrightarrow> k_mutexes k' = k_mutexes k \<and> k_mutex_waiters k' = k_mutex_waiters k \<and>
     k_mutex_stats k' = k_mutex_stats k"
  for k k' :: "('s, 'z) mutex_kernel_scheme"
  by (cases k; cases k') simp

lemma system_ok_current:
  "rigel_events.system_ok c nev k \<Longrightarrow> unat t < tasks_length c \<Longrightarrow> rigel_events.system_ok c nev (k\<lparr>k_current_task := t\<rparr>)"
  unfolding rigel_events.system_ok_def
  by (simp add: event_kernel_inv_def timer_kernel_inv_def kernel_inv_def current_ok_def signals_ok_def timers_ok_def handlers_ok_def)

lemma rigel_yield_stays:
  fixes k :: "(rr_sched, 'z) mq_kernel_scheme"
  assumes ok: "rigel_ok c nev k" and isr: "\<forall>n. events_below nev (isr n)" and waits: "\<forall>w \<in> set waits. interrupts_ok nev w"
  shows "\<exists>r k'. rigel_yield (cooperative c)
      (armv7m_interrupt_event_process (interrupt_event_handle (cooperative c) rigel_unblock) isr) (map rigel_wait waits) k = Inr (r, k') \<and>
    (\<forall>t. unat t < tasks_length c \<longrightarrow> stays c k k' t) \<and> rigel_ok c nev k' \<and> holder_of k' = holder_of k \<and>
    (\<forall>from to. r = Some (from, to) \<longrightarrow> k_current_task k' = to \<and> rr_is_runnable (k_sched k') to)"
proof -
  let ?process = "armv7m_interrupt_event_process (interrupt_event_handle (cooperative c) rigel_unblock) isr"
  have sys: "rigel_events.system_ok c nev k" using ok by (simp add: rigel_ok_def)
  have isr': "\<forall>m i. bit (isr m) i \<longrightarrow> i < nev" using isr by (simp add: events_below_def)
  have w: "\<exists>e n. w k1 = Inr ((), k1\<lparr>k_interrupt_event := k_interrupt_event k1 OR e, k_timer_pending_ticks := n\<rparr>) \<and>
      (\<forall>i. bit e i \<longrightarrow> i < nev) \<and> n \<le> 1"
    if w: "w \<in> set (map rigel_wait waits)" and ticks: "k_timer_pending_ticks k1 = 0" for w and k1 :: "(rr_sched, 'z) mq_kernel_scheme"
  proof -
    obtain i where i: "i \<in> set waits" "w = rigel_wait i" using w by auto
    from rigel_wait_eq [OF bspec [OF waits i(1)] ticks] obtain e b where
      "rigel_wait i k1 = Inr ((), k1\<lparr>k_interrupt_event := k_interrupt_event k1 OR e, k_timer_pending_ticks := if b then 1 else 0\<rparr>)"
      "events_below nev e" by blast
    then show ?thesis unfolding i(2)
      by (intro exI [of _ e] exI [of _ "if b then 1 else 0"]) (simp add: events_below_def)
  qed
  then have w': "\<forall>w \<in> set (map rigel_wait waits). \<forall>k1 :: (rr_sched, 'z) mq_kernel_scheme. k_timer_pending_ticks k1 = 0 \<longrightarrow>
      (\<exists>e n. w k1 = Inr ((), k1\<lparr>k_interrupt_event := k_interrupt_event k1 OR e, k_timer_pending_ticks := n\<rparr>) \<and>
        (\<forall>i. bit e i \<longrightarrow> i < nev) \<and> n \<le> 1)"
    by blast
  obtain r k' where r: "interrupt_event_get_next (cooperative c) ?process (timer_tick_process (cooperative c) rigel_unblock)
      (on_sched (rr_sched_get_next False)) (map rigel_wait waits) k = Inr (r, k')" "rigel_events.system_ok c nev k'"
    "wakes_only (cooperative c) rr_is_runnable k k'"
    "case r of
      Some u \<Rightarrow> unat u < tasks_length (cooperative c) \<and> rr_is_runnable (k_sched k') u \<and> \<not> k_system_is_idle k' \<and>
        (\<exists>s. rr_inv s \<and> rr_sched_get_next False s = Inr (u, k_sched k'))
    | None \<Rightarrow> (\<forall>t. unat t < tasks_length (cooperative c) \<longrightarrow> \<not> rr_is_runnable (k_sched k') t) \<and> k_system_is_idle k'"
    using rigel_events.get_next_wakes_only [OF sys isr', of "map rigel_wait waits", OF w'] by (elim exE conjE) (rule that; assumption)
  note same = mutex_more_frame [of k' k]
  have wakes: "k_task_timers k' = k_task_timers k" "length (k_timers k') = length (k_timers k)"
    "event_kernel.more k' = event_kernel.more k"
    "\<forall>t. unat t < tasks_length c \<longrightarrow>
       (rr_is_runnable (k_sched k') t \<or> \<not> rr_is_runnable (k_sched k) t \<and> pending_of k' t = pending_of k t) \<and>
       pending_of k t AND pending_of k' t = pending_of k t"
    using r(3) by (simp_all add: wakes_only_def)
  have mx: "k_mutexes k' = k_mutexes k" "k_mutex_waiters k' = k_mutex_waiters k" "k_mutex_stats k' = k_mutex_stats k"
    using same wakes(3) by simp_all
  then have h: "holder_of k' = holder_of k" "waiting_for k' = waiting_for k" by (simp_all add: holder_of_def waiting_for_def fun_eq_iff)
  have st: "stays c k k' t" if "unat t < tasks_length c" for t
    using wakes(4) that by (intro staysI) (simp_all add: mx h)
  have ok': "rigel_ok c nev k'"
    using ok r(2) wakes(1,2) mx h by (auto simp: rigel_ok_def mutexes_ok_def)
  have cur: "current_ok (cooperative c) k'"
    using rigel_events.system_ok_kernel_inv [OF r(2)] by (simp add: kernel_inv_def)
  show ?thesis
  proof (cases r)
    case None
    then show ?thesis using r(1) st ok' h by (simp add: rigel_yield_def kbind_def kreturn_def)
  next
    case (Some u)
    let ?k = "k'\<lparr>k_current_task := u\<rparr>"
    have u: "unat u < tasks_length c" "rr_is_runnable (k_sched k') u" using r(4) Some by simp_all
    have "rigel_ok c nev ?k" using ok' system_ok_current [OF r(2) u(1)] by (simp add: rigel_ok_def mutexes_ok_def holder_of_def)
    moreover have "stays c k ?k t" if "unat t < tasks_length c" for t
      using st [OF that] by (simp add: stays_def pending_of_def waiting_for_def holder_of_def)
    moreover have "holder_of ?k = holder_of k" using h(1) by (simp add: holder_of_def fun_eq_iff)
    ultimately show ?thesis
      using r(1) Some u cur by (simp add: rigel_yield_def rigel_yield_to_def kbind_def kreturn_def kmodify_def)
  qed
qed

section \<open>The parts of the calls\<close>

lemma rigel_okD:
  assumes "rigel_ok c nev k"
  shows "kernel_inv (cooperative c) rr_inv rr_ntasks k" "signals_ok (cooperative c) k" "mutexes_ok (cooperative c) k"
    "timer_kernel_inv (cooperative c) rr_inv rr_ntasks k" "current_ok (cooperative c) k"
    "unat (k_current_task k) < tasks_length c" "length (k_signal_tasks k) = tasks_length c"
    "rr_inv (k_sched k)" "rr_ntasks (k_sched k) = tasks_length c" "k_current_task k \<noteq> TASK_ID_NONE"
    "length (k_mutex_waiters k) = tasks_length c"
proof -
  show 1: "timer_kernel_inv (cooperative c) rr_inv rr_ntasks k" "mutexes_ok (cooperative c) k"
    using assms unfolding rigel_ok_def rigel_events.system_ok_def by (simp_all add: event_kernel_inv_def mutexes_ok_def)
  then show 2: "kernel_inv (cooperative c) rr_inv rr_ntasks k" "signals_ok (cooperative c) k"
    by (simp_all add: timer_kernel_inv_def)
  then show "current_ok (cooperative c) k" "unat (k_current_task k) < tasks_length c" "rr_inv (k_sched k)"
    "rr_ntasks (k_sched k) = tasks_length c" "length (k_signal_tasks k) = tasks_length c"
    by (simp_all add: kernel_inv_def current_ok_def signals_ok_def)
  show "k_current_task k \<noteq> TASK_ID_NONE" by (rule rigel_current_not_none [OF 2(1)])
  show "length (k_mutex_waiters k) = tasks_length c" using 1(2) by (simp add: mutexes_ok_def)
qed

lemmas rigel_ok_unfold = rigel_ok_def rigel_events.system_ok_def event_kernel_inv_def timer_kernel_inv_def kernel_inv_def
  current_ok_def signals_ok_def timers_ok_def handlers_ok_def mutexes_ok_def holder_of_def

lemma rigel_ok_sched:
  "rigel_ok c nev k \<Longrightarrow> rr_inv s \<Longrightarrow> rr_ntasks s = tasks_length c \<Longrightarrow> rigel_ok c nev (k\<lparr>k_sched := s\<rparr>)"
  by (simp add: rigel_ok_unfold)

lemma rigel_ok_pending [simp]: "rigel_ok c nev (set_pending t p k) = rigel_ok c nev k"
  by (simp add: rigel_ok_unfold set_pending_def)

lemma rigel_ok_waiter [simp]: "rigel_ok c nev (set_waiter t m k) = rigel_ok c nev k"
  by (simp add: rigel_ok_unfold set_waiter_def)

lemma rigel_ok_holder:
  assumes ok: "rigel_ok c nev k" and m: "unat m < length (k_mutexes k)" and t: "t = TASK_ID_NONE \<or> unat t < tasks_length c"
  shows "rigel_ok c nev (set_holder m t k)"
proof -
  have "rigel_events.system_ok c nev (set_holder m t k)"
    using ok by (simp add: rigel_ok_unfold set_holder_def)
  then show ?thesis
    using ok m t holder_of_set [OF m, of t] by (auto simp: rigel_ok_def mutexes_ok_def set_holder_def)
qed

lemma rigel_ok_timer:
  assumes "rigel_ok c nev k" and "unat i < length (k_timers k)"
    and "tm_error_id (f (k_timers k ! unat i)) = tm_error_id (k_timers k ! unat i)"
    and "tm_task_id (f (k_timers k ! unat i)) = tm_task_id (k_timers k ! unat i)"
  shows "rigel_ok c nev (k\<lparr>k_timers := (k_timers k)[unat i := f (k_timers k ! unat i)]\<rparr>)"
proof -
  let ?tms = "(k_timers k)[unat i := f (k_timers k ! unat i)]"
  have "tm \<in> set (k_timers k) \<or> tm = f (k_timers k ! unat i)" if "tm \<in> set ?tms" for tm
    using that set_update_subset_insert [of "k_timers k"] by auto
  moreover have "k_timers k ! unat i \<in> set (k_timers k)" using assms(2) by simp
  ultimately have "\<forall>tm \<in> set ?tms. \<exists>tm' \<in> set (k_timers k). tm_error_id tm = tm_error_id tm' \<and> tm_task_id tm = tm_task_id tm'"
    using assms(3,4) by metis
  then show ?thesis using assms(1) by (simp add: rigel_ok_unfold) metis
qed

text \<open>The current task blocks: it is not runnable, and nothing changes for the others.\<close>

lemma rigel_blocked:
  assumes ok: "rigel_ok c nev k"
  defines "k' \<equiv> k\<lparr>k_sched := rr_block (k_current_task k) (k_sched k)\<rparr>"
  shows "rigel_ok c nev k'" and "\<not> rr_is_runnable (k_sched k') (k_current_task k)"
    and "unat t < tasks_length c \<Longrightarrow> t \<noteq> k_current_task k \<Longrightarrow> stays c k k' t"
proof -
  note k = rigel_okD [OF ok]
  have me: "unat (k_current_task k) < rr_ntasks (k_sched k)" using k by simp
  note block = rr_update_laws(4,6) [OF k(8) me] rr_runnable_update(2) [OF k(8) me]
  show "rigel_ok c nev k'" unfolding k'_def by (rule rigel_ok_sched [OF ok]) (use block k(9) in simp_all)
  show "\<not> rr_is_runnable (k_sched k') (k_current_task k)" using block(3) [OF me] by (simp add: k'_def)
  show "stays c k k' t" if "unat t < tasks_length c" "t \<noteq> k_current_task k"
    using block(3) [of t] that k(9) by (auto simp: stays_def k'_def waiting_for_def)
qed

text \<open>Changes to the current task's own entries.\<close>

lemma stays_set_pending:
  assumes "rigel_ok c nev k" and "unat t < tasks_length c" and "t \<noteq> u" and "unat u < tasks_length c"
  shows "stays c k (set_pending u p k) t"
  using assms rigel_okD(7) [OF assms(1)] by (simp add: stays_def pending_of_set)

lemma stays_set_waiter:
  assumes "rigel_ok c nev k" and "unat t < tasks_length c" and "t \<noteq> u" and "unat u < tasks_length c"
  shows "stays c k (set_waiter u m k) t"
  using assms rigel_okD(11) [OF assms(1)] by (simp add: stays_def waiting_for_set)

lemma rigel_waits:
  fixes k :: "(rr_sched, 'z) mq_kernel_scheme"
  assumes ok: "rigel_ok c nev k" and run: "rr_is_runnable (k_sched k) (k_current_task k)"
  shows "\<exists>p k'. signal_wait_set_blocked_on (cooperative c) (\<lambda>_. rigel_set_blocked (cooperative c)) r TASK_ID_NONE k = Inr (p, k') \<and>
    rigel_ok c nev k' \<and> (\<forall>t. unat t < tasks_length c \<longrightarrow> t \<noteq> k_current_task k \<longrightarrow> stays c k k' t) \<and>
    waiting_at k' (k_current_task k) r p \<and> k_current_task k' = k_current_task k \<and>
    k_mutexes k' = k_mutexes k \<and> k_mutex_waiters k' = k_mutex_waiters k"
proof -
  let ?me = "k_current_task k" and ?block = "\<lambda>_. rigel_set_blocked (cooperative c)"
  note k = rigel_okD [OF ok]
  show ?thesis
  proof (cases "pending_of k ?me AND r = 0")
    case False
    then have "signal_wait_set_blocked_on (cooperative c) ?block r TASK_ID_NONE k = Inr (Sig_Yielded ?me r, k)"
      by (intro signal_wait_pending) (use k in simp_all)
    then show ?thesis using ok run by (auto simp: waiting_at_def)
  next
    case True
    let ?k = "k\<lparr>k_sched := rr_block ?me (k_sched k)\<rparr>"
    have "rigel_set_blocked (cooperative c) k = Inr ((), ?k)" by (rule rigel.block_task [OF k(1)]) simp
    then have "signal_wait_set_blocked_on (cooperative c) ?block r TASK_ID_NONE k = Inr (Sig_Blocked ?me r TASK_ID_NONE, ?k)"
      using k True by (intro signal_wait_blocks) simp_all
    moreover have "waiting_at ?k ?me r (Sig_Blocked ?me r TASK_ID_NONE)" using True by (simp add: waiting_at_def)
    ultimately show ?thesis using rigel_blocked [OF ok] by (intro exI conjI allI impI) (assumption | simp)+
  qed
qed

lemma rigel_wait_resumes:
  fixes k :: "(rr_sched, 'z) mq_kernel_scheme"
  assumes ok: "rigel_ok c nev k" and p: "waiting_at k (k_current_task k) r p"
  shows "\<exists>res k'. signal_wait_resume (cooperative c) (\<lambda>_. rigel_set_blocked (cooperative c)) p k = Inr (res, k') \<and>
    rigel_ok c nev k' \<and> (\<forall>t. unat t < tasks_length c \<longrightarrow> t \<noteq> k_current_task k \<longrightarrow> stays c k k' t) \<and>
    (case res of Suspended q \<Rightarrow> waiting_at k' (k_current_task k) r q \<and> waiting_for k' = waiting_for k \<and>
        q = p \<and> (\<forall>b. p \<noteq> Sig_Yielded (k_current_task k) b) \<and> pending_of k (k_current_task k) AND r = 0
     | Finished _ \<Rightarrow> rr_is_runnable (k_sched k') (k_current_task k)) \<and>
    k_current_task k' = k_current_task k \<and> k_mutexes k' = k_mutexes k \<and> k_mutex_waiters k' = k_mutex_waiters k"
proof -
  let ?me = "k_current_task k" and ?block = "\<lambda>_. rigel_set_blocked (cooperative c)"
  note k = rigel_okD [OF ok]
  let ?done = "set_pending ?me (pending_of k ?me AND NOT r) k"
  have len: "unat ?me < length (k_signal_tasks k)" using k by simp
  have fin: ?thesis if "signal_wait_resume (cooperative c) ?block p k = Inr (Finished v, ?done)" "rr_is_runnable (k_sched k) ?me" for v
    using that ok stays_set_pending [OF ok _ _ k(6)] by auto
  consider (yielded) "p = Sig_Yielded ?me r" "rr_is_runnable (k_sched k) ?me"
    | (woken) "p = Sig_Blocked ?me r TASK_ID_NONE" "pending_of k ?me AND r \<noteq> 0" "rr_is_runnable (k_sched k) ?me"
    | (again) "p = Sig_Blocked ?me r TASK_ID_NONE" "pending_of k ?me AND r = 0"
    using p by (auto simp: waiting_at_def)
  then show ?thesis
  proof cases
    case yielded
    then show ?thesis using signal_wait_resume_yielded [OF _ len, of "cooperative c" ?block r] by (intro fin) simp_all
  next
    case woken
    then show ?thesis using signal_wait_resume_finishes [OF _ len, of "cooperative c" r ?block TASK_ID_NONE] by (intro fin) simp_all
  next
    case again
    let ?k = "k\<lparr>k_sched := rr_block ?me (k_sched k)\<rparr>"
    have "rigel_set_blocked (cooperative c) k = Inr ((), ?k)" by (rule rigel.block_task [OF k(1)]) simp
    then have "signal_wait_resume (cooperative c) ?block p k = Inr (Suspended p, ?k)"
      using again signal_wait_resume_blocks_again [OF _ len again(2), of "cooperative c" ?block TASK_ID_NONE ?k] by simp
    moreover have "waiting_at ?k ?me r p" using again by (simp add: waiting_at_def)
    ultimately show ?thesis
      using rigel_blocked [OF ok] again by (auto simp: waiting_for_def fun_eq_iff)
  qed
qed

text \<open>One attempt to lock a mutex: the task becomes the holder, or waits.\<close>

definition holder_step :: "u8 \<Rightarrow> (rr_sched, 'z) mq_kernel_scheme \<Rightarrow> (rr_sched, 'z) mq_kernel_scheme \<Rightarrow> bool" where
  "holder_step me k k' \<longleftrightarrow> (\<forall>m. holder_of k' m = holder_of k m \<or> holder_of k m = TASK_ID_NONE \<and> holder_of k' m = me \<or>
     holder_of k m = me \<and> holder_of k' m = TASK_ID_NONE)"

lemma holder_step_same: "k_mutexes k' = k_mutexes k \<Longrightarrow> holder_step me k k'"
  by (simp add: holder_step_def holder_of_def)

definition turn_result ::
  "config \<Rightarrow> nat \<Rightarrow> (rr_sched, 'z) mq_kernel_scheme \<Rightarrow> rigel_thread \<Rightarrow> (rr_sched, 'z) mq_kernel_scheme \<Rightarrow> bool"
where
  "turn_result c nev k thread k' \<longleftrightarrow> rigel_ok c nev k' \<and>
     (\<forall>t. unat t < tasks_length c \<longrightarrow> t \<noteq> k_current_task k \<longrightarrow> stays c k k' t) \<and>
     thread_ok c k' (k_current_task k) thread \<and> k_current_task k' = k_current_task k \<and> holder_step (k_current_task k) k k'"

lemma rigel_takes:
  assumes ok: "rigel_ok c nev k" and run: "rr_is_runnable (k_sched k) (k_current_task k)"
    and m: "unat m < length (k_mutexes k)" and free: "holder_of k m = TASK_ID_NONE"
  shows "turn_result c nev k Running (set_holder m (k_current_task k) k)"
proof -
  note k = rigel_okD [OF ok]
  show ?thesis
    using rigel_ok_holder [OF ok m] k(6,10) run free
    by (auto simp: turn_result_def thread_ok_def holder_step_def stays_def holder_of_set [OF m] waiting_for_def)
qed

lemma rigel_lock_attempt:
  fixes k :: "(rr_sched, 'z) mq_kernel_scheme"
  assumes ok: "rigel_ok c nev k" and run: "rr_is_runnable (k_sched k) (k_current_task k)"
    and m: "unat m < length (k_mutexes k)"
  shows "\<exists>res k'. mutex_lock_attempt (cooperative c) (rigel_mc c) m contended start k = Inr (res, k') \<and>
    turn_result c nev k (thread_of In_Lock res) k'"
proof (cases "holder_of k m = TASK_ID_NONE")
  case True
  let ?k = "set_holder m (k_current_task k) k"
  have "mutex_lock_attempt (cooperative c) (rigel_mc c) m contended start k = Inr (Finished True, ?k)"
    using True mutex_try_lock_eq [OF rigel_okD(5) [OF ok] _ m, of "rigel_mc c"]
    by (simp add: mutex_lock_attempt_def mutex_lock_done_def kbind_def kreturn_def)
  then show ?thesis using rigel_takes [OF ok run m True] by (auto simp: thread_of_def)
next
  case False
  let ?me = "k_current_task k"
  let ?k1 = "set_waiter ?me m k"
  note k = rigel_okD [OF ok]
  have ok1: "rigel_ok c nev ?k1" "rr_is_runnable (k_sched ?k1) (k_current_task ?k1)" using ok run by simp_all
  obtain p k' where p: "signal_wait_set_blocked_on (cooperative c) (\<lambda>_. rigel_set_blocked (cooperative c))
      (SIGNAL_ID__TASK_TIMER c) TASK_ID_NONE ?k1 = Inr (p, k')" "rigel_ok c nev k'"
    "\<forall>t. unat t < tasks_length c \<longrightarrow> t \<noteq> ?me \<longrightarrow> stays c ?k1 k' t" "waiting_at k' ?me (SIGNAL_ID__TASK_TIMER c) p"
    "k_current_task k' = ?me" "k_mutexes k' = k_mutexes k" "k_mutex_waiters k' = k_mutex_waiters ?k1"
    using rigel_waits [OF ok1, of "SIGNAL_ID__TASK_TIMER c"] by auto
  have "mutex_core_block_on (rigel_mc c) (holder_of k m) ?k1 = Inr (p, k')"
    using p(1) by (simp add: rigel_task_wait_def rtos_signal_wait_set_def kbind_def)
  then have "mutex_lock_attempt (cooperative c) (rigel_mc c) m contended start k = Inr (Suspended (Mutex_Locking m True start p), k')"
    by (intro mutex_lock_attempt_blocks k m False) simp_all
  moreover have "stays c k k' t" if "unat t < tasks_length c" "t \<noteq> ?me" for t
    using stays_trans [OF stays_set_waiter [OF ok that k(6)]] p(3) that by blast
  moreover have "waiting_for k' ?me = m" using p(7) waiting_for_set [of ?me k m ?me] k(6,11) by (simp add: waiting_for_def)
  moreover have "holder_of k' m = holder_of k m" using p(6) by (simp add: holder_of_def)
  ultimately show ?thesis
    using p(2,4-6) m False
    by (auto simp: turn_result_def thread_of_def thread_ok_def locking_at_def intro: holder_step_same)
qed

section \<open>Every call and every continuation succeeds\<close>

lemma turn_resultI:
  assumes "rigel_ok c nev k'" and "\<And>t. unat t < tasks_length c \<Longrightarrow> t \<noteq> k_current_task k \<Longrightarrow> stays c k k' t"
    and "thread_ok c k' (k_current_task k) thread" and "k_current_task k' = k_current_task k" and "k_mutexes k' = k_mutexes k"
  shows "turn_result c nev k thread k'"
  using assms by (simp add: turn_result_def holder_step_same)

lemma rigel_waits_result:
  fixes k k1 :: "(rr_sched, 'z) mq_kernel_scheme"
  assumes ok: "rigel_ok c nev k1" and run: "rr_is_runnable (k_sched k1) (k_current_task k)"
    and same: "k_current_task k1 = k_current_task k" "k_mutexes k1 = k_mutexes k"
    and others: "\<And>t. unat t < tasks_length c \<Longrightarrow> t \<noteq> k_current_task k \<Longrightarrow> stays c k k1 t"
    and f: "\<And>p (k' :: (rr_sched, 'z) mq_kernel_scheme). waiting_at k' (k_current_task k) r p \<Longrightarrow> thread_ok c k' (k_current_task k) (f p)"
  shows "\<exists>p k'. signal_wait_set_blocked_on (cooperative c) (\<lambda>_. rigel_set_blocked (cooperative c)) r TASK_ID_NONE k1 = Inr (p, k') \<and>
    turn_result c nev k (f p) k'"
proof -
  obtain p k' where p: "signal_wait_set_blocked_on (cooperative c) (\<lambda>_. rigel_set_blocked (cooperative c)) r TASK_ID_NONE k1 = Inr (p, k')"
    "rigel_ok c nev k'" "\<forall>t. unat t < tasks_length c \<longrightarrow> t \<noteq> k_current_task k1 \<longrightarrow> stays c k1 k' t"
    "waiting_at k' (k_current_task k1) r p" "k_current_task k' = k_current_task k1" "k_mutexes k' = k_mutexes k1"
    using rigel_waits [OF ok, of r] run same(1) by auto
  have "turn_result c nev k (f p) k'"
    using p(2-6) same others f [of k' p] by (intro turn_resultI) (auto intro: stays_trans)
  then show ?thesis using p(1) by blast
qed

lemma rigel_sends:
  fixes k :: "(rr_sched, 'z) mq_kernel_scheme"
  assumes ok: "rigel_ok c nev k" and run: "rr_is_runnable (k_sched k) (k_current_task k)" and t: "unat t < tasks_length c"
  shows "\<exists>k'. rtos_signal_send_set (cooperative c) rigel_unblock t signals k = Inr ((), k') \<and> turn_result c nev k Running k'"
proof -
  note k = rigel_okD [OF ok]
  let ?k = "(set_pending t (pending_of k t OR signals) k)\<lparr>k_sched := rr_ready t (k_sched k)\<rparr>"
  have t': "unat t < rr_ntasks (k_sched k)" using t k(9) by simp
  note ready = rr_update_laws(3,5) [OF k(8) t'] rr_runnable_update(1) [OF k(8) t']
  have "rtos_signal_send_set (cooperative c) rigel_unblock t signals k = Inr ((), ?k)"
    using rigel.rtos_signal_send_set_cases [OF k(1,2), of t signals] t by simp
  moreover have "turn_result c nev k Running ?k"
  proof (rule turn_resultI)
    show "rigel_ok c nev ?k" by (rule rigel_ok_sched) (use ok ready k(9) in simp_all)
    show "stays c k ?k u" if "unat u < tasks_length c" "u \<noteq> k_current_task k" for u
      using ready(3) [of u] that k(7,9) t
      by (intro staysI) (auto simp: pending_of_set waiting_for_def word_ao_absorbs)
    show "thread_ok c ?k (k_current_task k) Running" using ready(3) [of "k_current_task k"] k(6,9) run by (simp add: thread_ok_def)
  qed simp_all
  ultimately show ?thesis by blast
qed

lemma rigel_unlocks:
  fixes k :: "(rr_sched, 'z) mq_kernel_scheme"
  assumes ok: "rigel_ok c nev k" and run: "rr_is_runnable (k_sched k) (k_current_task k)"
    and m: "unat m < length (k_mutexes k)" and owner: "holder_of k m = k_current_task k"
  shows "\<exists>k'. rtos_mutex_unlock (cooperative c) (rigel_mc c) m k = Inr ((), k') \<and> turn_result c nev k Running k'"
proof -
  let ?c = "cooperative c"
  note k = rigel_okD [OF ok]
  have len: "length (k_mutexes k) \<le> 255" "tasks_length ?c \<le> 255"
    using k(3,8,9) rr_ntasks_bound [of "k_sched k"] by (auto simp: mutexes_ok_def)
  have w: "rigel_mutex.mutex_waiters.waiters_ok c k"
    using k by (simp add: rigel_mutex.mutex_waiters.waiters_ok_def mutexes_ok_def)
  have core: "kwhen (mutex_prio_ceiling (rigel_mc c)) (mutex_core_unlocked (rigel_mc c) m) (enter ?c k) = Inr ((), k)"
    by (simp add: kwhen_def kreturn_def)
  obtain k2 where k2: "rtos_mutex_unlock ?c (rigel_mc c) m k = Inr ((), k2)" "kernel_inv ?c rr_inv rr_ntasks k2"
    "signals_ok ?c k2" "holder_of k2 m = TASK_ID_NONE" "\<forall>n. n \<noteq> m \<longrightarrow> holder_of k2 n = holder_of k n"
    "\<forall>t. unat t < tasks_length c \<longrightarrow> waiting_for k2 t = (if waiting_for k t = m then MUTEX_ID_NONE else waiting_for k t)"
    "\<forall>t. unat t < tasks_length c \<longrightarrow> pending_of k2 t = (if waiting_for k t = m then pending_of k t OR SIGNAL_ID__TASK_TIMER c else pending_of k t)"
    "\<forall>t. unat t < tasks_length c \<longrightarrow> rr_is_runnable (k_sched k2) t = (rr_is_runnable (k_sched k) t \<or> waiting_for k t = m)"
    "k_current_task k2 = k_current_task k" "length (k_mutexes k2) = length (k_mutexes k)" "outside_mutexes_eq k k2"
    using rigel_mutex.rtos_mutex_unlock_from [of c k m False k] k(5) m owner core w len
    by (simp add: mutex_rest_eq_def cong: if_cong) (elim exE conjE, rule that, assumption+)
  have "rigel_events.system_ok c nev k2"
    using ok k2(2,3,11) by (simp add: rigel_ok_unfold outside_mutexes_eq_def)
  moreover have "holder_of k2 n = TASK_ID_NONE \<or> unat (holder_of k2 n) < tasks_length c" if "unat n < length (k_mutexes k2)" for n
    using k2(4,5,10) ok that by (cases "n = m") (simp_all add: rigel_ok_def)
  ultimately have "rigel_ok c nev k2"
    using ok k2(10,11) by (simp add: rigel_ok_def outside_mutexes_eq_def mutexes_ok_def)
  moreover have "stays c k k2 t" if "unat t < tasks_length c" for t
  proof -
    have "SIGNAL_ID__TASK_TIMER c \<noteq> 0" using ok by (simp add: rigel_ok_def)
    then show ?thesis using k2(5-8,10) that by (auto simp: stays_def word_ao_dist or_eq_0_iff)
  qed
  moreover have "holder_step (k_current_task k) k k2"
    unfolding holder_step_def using k2(4,5) owner by metis
  ultimately have "turn_result c nev k Running k2"
    using k2(8,9) run k(6) by (simp add: turn_result_def thread_ok_def)
  then show ?thesis using k2(1) by blast
qed

lemma rigel_invoke_ok:
  fixes k :: "(rr_sched, 'z) mq_kernel_scheme"
  assumes ok: "rigel_ok c nev k" and run: "rr_is_runnable (k_sched k) (k_current_task k)" and call: "call_ok c k call"
  shows "\<exists>thread k'. rigel_invoke (cooperative c) call k = Inr (thread, k') \<and> turn_result c nev k thread k'"
proof (cases call)
  case Yield
  then show ?thesis using ok run by (auto simp: rigel_invoke_def kreturn_def thread_ok_def intro!: turn_resultI)
next
  case (Signal_Wait r)
  have "\<exists>p k'. signal_wait_set_blocked_on (cooperative c) (\<lambda>_. rigel_set_blocked (cooperative c)) r TASK_ID_NONE k = Inr (p, k') \<and>
      turn_result c nev k (In_Wait p) k'"
    by (rule rigel_waits_result [OF ok run]) (auto simp: thread_ok_def)
  then show ?thesis
    using Signal_Wait by (auto simp: rigel_invoke_def rtos_signal_wait_set_def kbind_def kreturn_def)
next
  case (Signal_Send t r)
  then show ?thesis
    using rigel_sends [OF ok run, of t r] call by (auto simp: rigel_invoke_def call_ok_def kbind_def kreturn_def)
next
  case (Signal_Poll r)
  note k = rigel_okD [OF ok]
  show ?thesis
    using rtos_signal_poll_set_eq [OF k(5,2), of r] Signal_Poll ok run stays_set_pending [OF ok _ _ k(6)]
    by (auto simp: rigel_invoke_def kbind_def kreturn_def thread_ok_def intro!: turn_resultI)
next
  case (Sleep d)
  note k = rigel_okD [OF ok]
  let ?i = "k_task_timers k ! unat (k_current_task k)"
  let ?f = "\<lambda>tm. tm\<lparr>tm_expiry := current_timeout k + d, tm_enabled := True, tm_reload := 0\<rparr>"
  let ?k1 = "k\<lparr>k_timers := (k_timers k)[unat ?i := ?f (k_timers k ! unat ?i)]\<rparr>"
  have i: "unat ?i < length (k_timers k)" "unat (k_current_task k) < length (k_task_timers k)"
    using ok k(6) by (simp_all add: rigel_ok_def)
  have ok1: "rigel_ok c nev ?k1" by (rule rigel_ok_timer [OF ok i(1)]) simp_all
  have shot: "timer_oneshot (cooperative c) rigel_unblock ?i d k = Inr ((), ?k1)"
    using rigel_timer.timer_oneshot_eq [OF k(4) i(1), of d] call Sleep by (simp add: call_ok_def)
  have "\<exists>p k'. signal_wait_set_blocked_on (cooperative c) (\<lambda>_. rigel_set_blocked (cooperative c)) (SIGNAL_ID__TASK_TIMER c)
      TASK_ID_NONE ?k1 = Inr (p, k') \<and> turn_result c nev k (In_Sleep p) k'"
    by (rule rigel_waits_result [OF ok1]) (use run in \<open>simp_all add: stays_def waiting_for_def holder_of_def thread_ok_def\<close>)
  then show ?thesis
    using Sleep shot i(2) k(5) by (auto simp: rigel_invoke_def rtos_sleep_def kbind_def kreturn_def array_read_def)
next
  case (Mutex_Lock m)
  then show ?thesis
    using rigel_lock_attempt [OF ok run, of m False "k_timer_current_ticks k"] call rigel_okD(5) [OF ok]
    by (auto simp: rigel_invoke_def call_ok_def rtos_mutex_lock_def kbind_def kgets_def kreturn_def assert_mutex_not_held_run)
next
  case (Mutex_Try_Lock m)
  then have m: "unat m < length (k_mutexes k)" using call by (simp add: call_ok_def)
  show ?thesis
    using mutex_try_lock_eq [OF rigel_okD(5) [OF ok] _ m, of "rigel_mc c"] rigel_takes [OF ok run m] m Mutex_Try_Lock ok run
    by (auto simp: rigel_invoke_def rtos_mutex_try_lock_def kbind_def kreturn_def thread_ok_def intro: turn_resultI)
next
  case (Mutex_Unlock m)
  then show ?thesis
    using rigel_unlocks [OF ok run, of m] call by (auto simp: rigel_invoke_def call_ok_def kbind_def kreturn_def)
qed

lemma turn_result_resumed:
  fixes k k' :: "(rr_sched, 'z) mq_kernel_scheme"
  assumes "rigel_ok c nev k'" and "\<forall>t. unat t < tasks_length c \<longrightarrow> t \<noteq> k_current_task k \<longrightarrow> stays c k k' t"
    and "k_current_task k' = k_current_task k" and "k_mutexes k' = k_mutexes k"
    and "case res of Suspended q \<Rightarrow> thread_ok c k' (k_current_task k) (f q) | Finished _ \<Rightarrow> rr_is_runnable (k_sched k') (k_current_task k)"
  shows "turn_result c nev k (thread_of f res) k'"
  by (rule turn_resultI) (use assms in \<open>simp_all add: thread_of_def thread_ok_def [of _ _ _ Running] split: progress.splits\<close>)

lemma rigel_continue_lock:
  fixes k :: "(rr_sched, 'z) mq_kernel_scheme"
  assumes ok: "rigel_ok c nev k" and pc: "locking_at c k (k_current_task k) pc"
  shows "\<exists>res k'. rtos_mutex_resume (cooperative c) (rigel_mc c) pc k = Inr (res, k') \<and> turn_result c nev k (thread_of In_Lock res) k'"
proof -
  let ?me = "k_current_task k" and ?tt = "SIGNAL_ID__TASK_TIMER c"
  obtain m contended start p where p: "pc = Mutex_Locking m contended start p" "unat m < length (k_mutexes k)"
    "waiting_at k ?me ?tt p"
    "p = Sig_Yielded ?me ?tt \<or> pending_of k ?me AND ?tt \<noteq> 0 \<or> waiting_for k ?me = m \<and> holder_of k m \<noteq> TASK_ID_NONE"
    using pc by (auto simp: locking_at_def)
  obtain res k1 where k1: "signal_wait_resume (cooperative c) (\<lambda>_. rigel_set_blocked (cooperative c)) p k = Inr (res, k1)"
    "rigel_ok c nev k1" "\<forall>t. unat t < tasks_length c \<longrightarrow> t \<noteq> ?me \<longrightarrow> stays c k k1 t"
    "case res of Suspended q \<Rightarrow> waiting_at k1 ?me ?tt q \<and> waiting_for k1 = waiting_for k \<and> q = p \<and>
        (\<forall>b. p \<noteq> Sig_Yielded ?me b) \<and> pending_of k ?me AND ?tt = 0
     | Finished _ \<Rightarrow> rr_is_runnable (k_sched k1) ?me"
    "k_current_task k1 = ?me" "k_mutexes k1 = k_mutexes k"
    using rigel_wait_resumes [OF ok p(3)] by (elim exE conjE) (rule that; assumption)
  have wait: "rigel_task_wait_resume (cooperative c) p k =
      Inr (case res of Suspended q \<Rightarrow> Suspended q | Finished _ \<Rightarrow> Finished (), k1)"
    using k1(1) by (cases res)
      (simp_all add: rigel_task_wait_resume_def rtos_signal_wait_set_resume_def co_bind_def co_finish_def kbind_def kreturn_def)
  show ?thesis
  proof (cases res)
    case (Suspended q)
    then have q: "waiting_at k1 ?me ?tt p" "waiting_for k1 = waiting_for k" "q = p" "waiting_for k ?me = m" "holder_of k m \<noteq> TASK_ID_NONE"
      using k1(4) p(4) by auto
    have "rtos_mutex_resume (cooperative c) (rigel_mc c) pc k = Inr (Suspended pc, k1)"
      using wait Suspended q(3) by (simp add: p(1) rtos_mutex_resume_def co_bind_def kbind_def kreturn_def)
    moreover have "thread_ok c k1 ?me (In_Lock pc)"
      using q p(1,2) k1(6) by (simp add: thread_ok_def locking_at_def holder_of_def)
    ultimately show ?thesis
      using turn_result_resumed [OF k1(2,3,5,6), where res = "Suspended pc" and f = In_Lock] by auto
  next
    case (Finished v)
    have run: "rr_is_runnable (k_sched k1) (k_current_task k1)" "unat m < length (k_mutexes k1)"
      using k1(4-6) p(2) Finished by simp_all
    obtain res2 k2 where k2: "mutex_lock_attempt (cooperative c) (rigel_mc c) m contended start k1 = Inr (res2, k2)"
      "turn_result c nev k1 (thread_of In_Lock res2) k2"
      using rigel_lock_attempt [OF k1(2) run] by blast
    have "rtos_mutex_resume (cooperative c) (rigel_mc c) pc k = Inr (res2, k2)"
      using wait Finished k2(1) by (simp add: p(1) rtos_mutex_resume_def co_bind_def kbind_def kreturn_def)
    moreover have "turn_result c nev k (thread_of In_Lock res2) k2"
      using k2(2) k1(3,5,6) by (auto simp: turn_result_def holder_step_def holder_of_def intro: stays_trans)
    ultimately show ?thesis by blast
  qed
qed

lemma rigel_continue_ok:
  fixes k :: "(rr_sched, 'z) mq_kernel_scheme"
  assumes ok: "rigel_ok c nev k" and thread: "thread_ok c k (k_current_task k) thread"
  shows "\<exists>thread' k'. rigel_continue (cooperative c) thread k = Inr (thread', k') \<and> turn_result c nev k thread' k'"
proof (cases thread)
  case Running
  then show ?thesis using ok thread by (auto simp: rigel_continue_def kreturn_def intro!: turn_resultI)
next
  case In_Yield
  then show ?thesis using ok thread by (auto simp: rigel_continue_def kreturn_def thread_ok_def intro!: turn_resultI)
next
  case (In_Wait p)
  then obtain r where r: "waiting_at k (k_current_task k) r p" using thread by (auto simp: thread_ok_def)
  obtain res k' where k': "signal_wait_resume (cooperative c) (\<lambda>_. rigel_set_blocked (cooperative c)) p k = Inr (res, k')"
    "turn_result c nev k (thread_of In_Wait res) k'"
    using rigel_wait_resumes [OF ok r] turn_result_resumed [where f = In_Wait]
    by (fastforce simp: thread_ok_def [of _ _ _ "In_Wait _"] split: progress.splits)
  show ?thesis
    using k' In_Wait by (cases res) (auto simp: rigel_continue_def rtos_signal_wait_set_resume_def co_bind_def co_finish_def
        kbind_def kreturn_def thread_of_def)
next
  case (In_Sleep p)
  then have r: "waiting_at k (k_current_task k) (SIGNAL_ID__TASK_TIMER c) p" using thread by (simp add: thread_ok_def)
  obtain res k' where k': "signal_wait_resume (cooperative c) (\<lambda>_. rigel_set_blocked (cooperative c)) p k = Inr (res, k')"
    "turn_result c nev k (thread_of In_Sleep res) k'"
    using rigel_wait_resumes [OF ok r] turn_result_resumed [where f = In_Sleep]
    by (fastforce simp: thread_ok_def [of _ _ _ "In_Sleep _"] split: progress.splits)
  show ?thesis
    using k' In_Sleep by (cases res) (auto simp: rigel_continue_def rtos_sleep_resume_def co_bind_def co_finish_def
        kbind_def kreturn_def thread_of_def)
next
  case (In_Lock pc)
  then obtain res k' where "rtos_mutex_resume (cooperative c) (rigel_mc c) pc k = Inr (res, k')" "turn_result c nev k (thread_of In_Lock res) k'"
    using rigel_continue_lock [OF ok, of pc] thread by (auto simp: thread_ok_def)
  then show ?thesis using In_Lock by (simp add: rigel_continue_def kbind_def kreturn_def)
qed

section \<open>Reachable states\<close>

lemma rigel_turn_ok:
  fixes k :: "(rr_sched, 'z) mq_kernel_scheme"
  assumes inv: "rigel_inv c nev (k, threads)" and call: "call_ok c k call"
    and isr: "\<forall>n. events_below nev (isr n)" and waits: "\<forall>w \<in> set waits. interrupts_ok nev w"
  shows "\<exists>r. rigel_turn (cooperative c) isr waits call (k, threads) = Inr r \<and>
    (\<forall>st. r = Some st \<longrightarrow> rigel_inv c nev st \<and> holder_step (k_current_task k) k (fst st))"
proof -
  let ?me = "k_current_task k"
  have ok: "rigel_ok c nev k" and threads: "\<And>t. unat t < tasks_length c \<Longrightarrow> thread_ok c k t (threads t)"
    using inv by (simp_all add: rigel_inv_def)
  have me: "thread_ok c k ?me (threads ?me)" using threads rigel_okD(6) [OF ok] by blast
  obtain thread k1 where run: "(if threads ?me = Running then rigel_invoke (cooperative c) call
      else rigel_continue (cooperative c) (threads ?me)) k = Inr (thread, k1)" and k1: "turn_result c nev k thread k1"
  proof (cases "threads ?me = Running")
    case True
    then have "rr_is_runnable (k_sched k) ?me" using me by (simp add: thread_ok_def)
    then show ?thesis using rigel_invoke_ok [OF ok _ call] True that by fastforce
  next
    case False
    then show ?thesis using rigel_continue_ok [OF ok me] that by fastforce
  qed
  have others: "\<forall>t. unat t < tasks_length c \<longrightarrow> t \<noteq> ?me \<longrightarrow> thread_ok c k t (threads t) \<and> stays c k k1 t"
    and k1': "rigel_ok c nev k1" "thread_ok c k1 ?me thread" "holder_step ?me k k1"
    using k1 threads by (simp_all add: turn_result_def)
  have inv1: "rigel_inv c nev (k1, threads(?me := thread))" by (rule rigel_invI [OF k1'(1) others k1'(2)])
  show ?thesis
  proof (cases "thread = Running")
    case True
    then show ?thesis using run inv1 k1'(3) by (simp add: rigel_turn_def Let_def)
  next
    case False
    obtain r k2 where k2: "rigel_yield (cooperative c)
      (armv7m_interrupt_event_process (interrupt_event_handle (cooperative c) rigel_unblock) isr) (map rigel_wait waits) k1 = Inr (r, k2)"
      "\<forall>t. unat t < tasks_length c \<longrightarrow> stays c k1 k2 t" "rigel_ok c nev k2" "holder_of k2 = holder_of k1"
      using rigel_yield_stays [OF k1'(1) isr waits] by blast
    have "rigel_inv c nev (k2, threads(?me := thread))"
      by (rule rigel_inv_stays [OF inv1 k2(2,3)])
    moreover have "holder_step ?me k k2" using k1'(3) k2(4) by (simp add: holder_step_def)
    ultimately show ?thesis
      using run False k2(1) by (cases r) (simp_all add: rigel_turn_def Let_def)
  qed
qed

lemma rigel_interrupted:
  fixes k :: "(rr_sched, 'z) mq_kernel_scheme"
  assumes "rigel_inv c nev (k, threads)" and "events_below nev e" and "n \<le> 1"
  shows "rigel_inv c nev (k\<lparr>k_interrupt_event := k_interrupt_event k OR e\<rparr>, threads)"
    and "rigel_inv c nev (k\<lparr>k_timer_pending_ticks := n\<rparr>, threads)"
proof -
  have ok: "rigel_ok c nev k" using assms(1) by (simp add: rigel_inv_def)
  have "rigel_ok c nev (k\<lparr>k_interrupt_event := k_interrupt_event k OR e\<rparr>)" "rigel_ok c nev (k\<lparr>k_timer_pending_ticks := n\<rparr>)"
    using ok assms(2,3) by (auto simp: rigel_ok_unfold events_below_def bit_or_iff)
  moreover have "stays c k (k\<lparr>k_interrupt_event := v\<rparr>) t" "stays c k (k\<lparr>k_timer_pending_ticks := n\<rparr>) t" for v t
    by (simp_all add: staysI waiting_for_def holder_of_def pending_of_def)
  ultimately show "rigel_inv c nev (k\<lparr>k_interrupt_event := k_interrupt_event k OR e\<rparr>, threads)"
    "rigel_inv c nev (k\<lparr>k_timer_pending_ticks := n\<rparr>, threads)"
    using rigel_inv_stays [OF assms(1)] by blast+
qed

lemma rigel_step_inv: "rigel_step c nev st st' \<Longrightarrow> rigel_inv c nev st \<Longrightarrow> rigel_inv c nev st'"
proof (induction rule: rigel_step.induct)
  case (Turn k call isr waits threads st)
  then show ?case using rigel_turn_ok [OF Turn.prems Turn.hyps(1-3)] by (metis option.inject sum.inject(2))
next
  case (Event e k k' threads)
  then show ?case using rigel_interrupted(1) [of c nev k threads e 0] by (simp add: isr_raise_eq)
next
  case (Tick k k' threads)
  then have "k' = k\<lparr>k_timer_pending_ticks := 1\<rparr>" by (simp add: rtos_timer_tick_def kmodify_def armv7m_timer_tick_def)
  then show ?case using rigel_interrupted(2) [OF Tick.prems, of 0 1] by simp
qed

text \<open>A system starts with all tasks runnable and in their own code, and no mutex held.\<close>

definition rigel_initial :: "config \<Rightarrow> nat \<Rightarrow> 'z rigel_state \<Rightarrow> bool" where
  "rigel_initial c nev = (\<lambda>(k, threads). rigel_ok c nev k \<and> threads = (\<lambda>_. Running) \<and>
     (\<forall>t. unat t < tasks_length c \<longrightarrow> rr_is_runnable (k_sched k) t) \<and>
     (\<forall>m. unat m < length (k_mutexes k) \<longrightarrow> holder_of k m = TASK_ID_NONE))"

lemma rigel_reachable_inv: "(rigel_step c nev)\<^sup>*\<^sup>* st0 st \<Longrightarrow> rigel_initial c nev st0 \<Longrightarrow> rigel_inv c nev st"
proof (induction rule: rtranclp_induct)
  case base
  then show ?case by (auto simp: rigel_initial_def rigel_inv_def thread_ok_def)
next
  case (step st st')
  then show ?case using rigel_step_inv by blast
qed

text \<open>Runs without interrupts, for examples: the state after the calls, if all of them are allowed.\<close>

primrec rigel_run :: "config \<Rightarrow> rigel_call list \<Rightarrow> 'z rigel_state \<Rightarrow> 'z rigel_state option" where
  "rigel_run c [] st = Some st"
| "rigel_run c (call # calls) st =
     (if call_ok c (fst st) call
      then case rigel_turn (cooperative c) (\<lambda>_. 0) [] call st of Inr (Some st') \<Rightarrow> rigel_run c calls st' | _ \<Rightarrow> None
      else None)"

lemma rigel_run_reaches: "rigel_run c calls st = Some st' \<Longrightarrow> (rigel_step c nev)\<^sup>*\<^sup>* st st'"
proof (induction calls arbitrary: st)
  case (Cons call calls)
  then obtain st1 where st1: "call_ok c (fst st) call" "rigel_turn (cooperative c) (\<lambda>_. 0) [] call st = Inr (Some st1)"
    "rigel_run c calls st1 = Some st'"
    by (auto split: if_splits sum.splits option.splits)
  have "rigel_step c nev (fst st, snd st) st1" by (rule Turn [where call = call and isr = "\<lambda>_. 0" and waits = "[]"]) (use st1 in simp_all)
  then show ?case using Cons.IH [OF st1(3)] by (simp add: converse_rtranclp_into_rtranclp)
qed simp

text \<open>
  In the example, task 0 waits for the signals 8, task 1 locks the mutex and yields, and task 2, which
  then runs, waits for the mutex.
\<close>

abbreviation system_example :: "rr_sched mq_kernel" where
  "system_example \<equiv> rigel_example\<lparr>k_sched := rr_example 0 [True, True, True], k_mutexes := [\<lparr>mx_holder = 255\<rparr>],
     k_mutex_waiters := [255, 255, 255]\<rparr>"

definition example_calls :: "rigel_call list" where
  "example_calls = [Signal_Wait 8, Mutex_Lock 0, Yield, Mutex_Lock 0]"

lemma system_example_initial: "rigel_initial rigel_config 1 (system_example, \<lambda>_. Running)"
proof -
  have "rigel_events.system_ok rigel_config 1 system_example"
    unfolding rigel_events.system_ok_def by (simp add: example_defs)
  then show ?thesis
    by (auto simp: rigel_initial_def rigel_ok_def mutexes_ok_def holder_of_def example_defs TASK_ID_NONE_def nth_Cons'
      ids_all ids_simps)
qed

lemma example_reached:
  "\<exists>k threads. rigel_run rigel_config example_calls (system_example, \<lambda>_. Running) = Some (k, threads) \<and>
     (rigel_step rigel_config 1)\<^sup>*\<^sup>* (system_example, \<lambda>_. Running) (k, threads) \<and>
     k_current_task k = 1 \<and> holder_of k 0 = 1 \<and> length (k_mutexes k) = 1 \<and> \<not> rr_is_runnable (k_sched k) 2"
proof -
  have "case rigel_run rigel_config example_calls (system_example, \<lambda>_. Running) of None \<Rightarrow> False
    | Some (k, threads) \<Rightarrow> k_current_task k = 1 \<and> holder_of k 0 = 1 \<and> length (k_mutexes k) = 1 \<and> \<not> rr_is_runnable (k_sched k) 2"
    by code_simp
  then show ?thesis using rigel_run_reaches [of rigel_config example_calls] by (auto split: option.splits)
qed

text \<open>
  C12: The kernel never fails. In every state that a Rigel system reaches, with interrupts and the calls of
  its tasks in any order, the next turn of the current task, whether it makes a call or is continued in
  one, and the scheduling after it, end without a fatal error, an access out of bounds or an endless
  search. The calls are those with arguments the interface allows, and ticks do not come faster than
  they are processed.
\<close>

theorem rigel_system_safe:
  assumes "(rigel_step c nev)\<^sup>*\<^sup>* st0 (k, threads)" and "rigel_initial c nev st0"
    and "call_ok c k call" and "\<forall>n. events_below nev (isr n)" and "\<forall>w \<in> set waits. interrupts_ok nev w"
  shows "\<exists>r. rigel_turn (cooperative c) isr waits call (k, threads) = Inr r"
  using rigel_turn_ok [OF rigel_reachable_inv [OF assms(1,2)] assms(3-5)] by blast

theorem rigel_system_safe_witness:
  "\<exists>k threads r. rigel_run rigel_config example_calls (system_example, \<lambda>_. Running) = Some (k, threads) \<and>
     rigel_turn (cooperative rigel_config) (\<lambda>_. 1) [([], [1], True)] (Mutex_Unlock 0) (k, threads) = Inr r"
proof -
  obtain k threads where run: "rigel_run rigel_config example_calls (system_example, \<lambda>_. Running) = Some (k, threads)"
    and reached: "(rigel_step rigel_config 1)\<^sup>*\<^sup>* (system_example, \<lambda>_. Running) (k, threads)"
    and k: "k_current_task k = 1" "holder_of k 0 = 1" "length (k_mutexes k) = 1"
    using example_reached by auto
  have facts: "call_ok rigel_config k (Mutex_Unlock 0)" "\<forall>n :: nat. events_below 1 ((\<lambda>_. 1) n)"
    "\<forall>w \<in> set [([], [1], True)]. interrupts_ok 1 w"
    by (simp_all add: call_ok_def k events_below_def interrupts_ok_def bit_1_iff)
  show ?thesis
    using run rigel_system_safe [OF reached system_example_initial facts] by blast
qed

text \<open>
  C13: No wake-up is lost. In every state that a Rigel system reaches, a task that cannot run is in a call
  that waits for signals, and none of these is pending for it. If the call is to lock a mutex, the task is
  registered as waiting for that mutex, and a task holds it, whose unlocking will wake it.
\<close>

theorem rigel_no_lost_wakeup:
  assumes "(rigel_step c nev)\<^sup>*\<^sup>* st0 (k, threads)" and "rigel_initial c nev st0"
    and "unat t < tasks_length c" and "\<not> rr_is_runnable (k_sched k) t"
  shows "\<exists>r. pending_of k t AND r = 0 \<and>
    (threads t = In_Wait (Sig_Blocked t r TASK_ID_NONE) \<or>
     threads t = In_Sleep (Sig_Blocked t r TASK_ID_NONE) \<or>
     (\<exists>m contended start. threads t = In_Lock (Mutex_Locking m contended start (Sig_Blocked t r TASK_ID_NONE)) \<and>
        waiting_for k t = m \<and> unat (holder_of k m) < tasks_length c))"
proof -
  have inv: "rigel_ok c nev k" "thread_ok c k t (threads t)"
    using rigel_reachable_inv [OF assms(1,2)] assms(3) by (simp_all add: rigel_inv_def)
  then show ?thesis
    using assms(4) by (cases "threads t") (auto simp: thread_ok_def waiting_at_def locking_at_def rigel_ok_def)
qed

theorem rigel_no_lost_wakeup_witness:
  "\<exists>k threads r. rigel_run rigel_config example_calls (system_example, \<lambda>_. Running) = Some (k, threads) \<and> pending_of k 2 AND r = 0 \<and>
    (threads 2 = In_Wait (Sig_Blocked 2 r TASK_ID_NONE) \<or> threads 2 = In_Sleep (Sig_Blocked 2 r TASK_ID_NONE) \<or>
     (\<exists>m contended start. threads 2 = In_Lock (Mutex_Locking m contended start (Sig_Blocked 2 r TASK_ID_NONE)) \<and>
        waiting_for k 2 = m \<and> unat (holder_of k m) < tasks_length rigel_config))"
proof -
  obtain k threads where run: "rigel_run rigel_config example_calls (system_example, \<lambda>_. Running) = Some (k, threads)"
    and reached: "(rigel_step rigel_config 1)\<^sup>*\<^sup>* (system_example, \<lambda>_. Running) (k, threads)"
    and k: "\<not> rr_is_runnable (k_sched k) 2"
    using example_reached by auto
  show ?thesis
    by (rule exI [of _ k], rule exI [of _ threads])
      (use run rigel_no_lost_wakeup [OF reached system_example_initial _ k] in \<open>auto simp: config_example_def\<close>)
qed

text \<open>
  C14: Mutual exclusion. Whatever step a Rigel system takes from a state that it reaches, a mutex that a
  task holds stays with it, unless that task is the current one and has unlocked it; and a mutex that is
  free stays free or becomes the current task's.
\<close>

theorem rigel_mutual_exclusion:
  assumes "(rigel_step c nev)\<^sup>*\<^sup>* st0 (k, threads)" and "rigel_initial c nev st0"
    and "rigel_step c nev (k, threads) (k', threads')"
  shows "holder_of k' m = holder_of k m \<or>
    holder_of k m = TASK_ID_NONE \<and> holder_of k' m = k_current_task k \<or>
    holder_of k m = k_current_task k \<and> holder_of k' m = TASK_ID_NONE"
  using assms(3)
proof (cases rule: rigel_step.cases)
  case (Turn call isr waits)
  then show ?thesis
    using rigel_turn_ok [OF rigel_reachable_inv [OF assms(1,2)] Turn(1-3)] by (auto simp: holder_step_def)
next
  case (Event e)
  then show ?thesis by (auto simp: isr_raise_eq holder_of_def)
next
  case Tick
  then show ?thesis by (auto simp: rtos_timer_tick_def kmodify_def holder_of_def)
qed

theorem rigel_mutual_exclusion_witness:
  "\<exists>k threads k' threads'. rigel_run rigel_config example_calls (system_example, \<lambda>_. Running) = Some (k, threads) \<and>
     rigel_step rigel_config 1 (k, threads) (k', threads') \<and>
     (holder_of k' 0 = 1 \<or> k_current_task k = 1 \<and> holder_of k' 0 = TASK_ID_NONE)"
proof -
  obtain k threads where run: "rigel_run rigel_config example_calls (system_example, \<lambda>_. Running) = Some (k, threads)"
    and reached: "(rigel_step rigel_config 1)\<^sup>*\<^sup>* (system_example, \<lambda>_. Running) (k, threads)"
    and k: "holder_of k 0 = 1"
    using example_reached by auto
  have step: "rigel_step rigel_config 1 (k, threads) (k\<lparr>k_interrupt_event := k_interrupt_event k OR 1\<rparr>, threads)"
    by (rule Event [of _ 1]) (simp_all add: isr_raise_eq events_below_def bit_1_iff)
  show ?thesis
    using rigel_mutual_exclusion [OF reached system_example_initial step, of 0] run step k
    by (intro exI [of _ k] exI [of _ threads] exI conjI) (auto simp: TASK_ID_NONE_def)
qed

end
