(* ===== verification/Kochab_Schedule.thy ===== *)
theory Kochab_Schedule
  imports Kochab_Properties Event_Waits
begin

text \<open>
  What the scheduler invocation of a Kochab system on the PowerPC e500 does to chains of blocked tasks:
  events and ticks make tasks runnable, and those that stay blocked stay so on the same task.
\<close>

section \<open>Chains given in advance\<close>

text \<open>
  \<open>n\<close> says for each task what it is blocked on unless it is runnable. \<open>r\<close> decreases along these chains,
  so they have no cycle.
\<close>

definition links_ok :: "(u8 \<Rightarrow> u8) \<Rightarrow> nat \<Rightarrow> bool" where
  "links_ok n ntasks \<longleftrightarrow> (\<exists>r :: u8 \<Rightarrow> nat. \<forall>t. unat t < ntasks \<longrightarrow>
     n t \<noteq> t \<and> (if n t = TASK_ID_NONE then True else unat (n t) < ntasks \<and> r (n t) < r t))"

definition pi_links :: "(u8 \<Rightarrow> u8) \<Rightarrow> pi_sched \<Rightarrow> bool" where
  "pi_links n s \<longleftrightarrow> 0 < pi_ntasks s \<and> pi_ntasks s \<le> 255 \<and> links_ok n (pi_ntasks s) \<and>
     (\<forall>t. unat t < pi_ntasks s \<longrightarrow> pi_next s t = t \<or> pi_next s t = n t)"

lemma pi_links_inv: "pi_links n s \<Longrightarrow> pi_inv s"
proof -
  assume links: "pi_links n s"
  then obtain r :: "u8 \<Rightarrow> nat" where r: "\<forall>t. unat t < pi_ntasks s \<longrightarrow>
      n t \<noteq> t \<and> (if n t = TASK_ID_NONE then True else unat (n t) < pi_ntasks s \<and> r (n t) < r t)"
    by (auto simp: pi_links_def links_ok_def)
  have "\<exists>p. pi_path s t p" if "unat t < pi_ntasks s" for t
    using that
  proof (induction "r t" arbitrary: t rule: less_induct)
    case less
    show ?case
    proof (cases "pi_next s t = t \<or> pi_next s t = TASK_ID_NONE")
      case True
      then show ?thesis using pi_path_end [OF less.prems] by blast
    next
      case False
      then have next_t: "pi_next s t = n t" using links less.prems by (auto simp: pi_links_def)
      then obtain p where "pi_path s (pi_next s t) p"
        using less.hyps [of "n t"] r less.prems False by (auto split: if_splits)
      then show ?thesis using pi_path_step [OF less.prems] False by blast
    qed
  qed
  moreover have "pi_closed s" using links r by (fastforce simp: pi_links_def pi_closed_def split: if_splits)
  ultimately show ?thesis by (simp add: pi_inv_def)
qed

lemma pi_links_set:
  assumes "pi_links n s" and "unat t < pi_ntasks s" and "b = t \<or> b = n t"
  shows "pi_links n (pi_set t b s)"
  using assms by (auto simp: pi_links_def pi_next_set)

text \<open>Any state whose chains end is of this kind.\<close>

definition links_of :: "pi_sched \<Rightarrow> u8 \<Rightarrow> u8" where
  "links_of s t = (if pi_is_runnable s t then TASK_ID_NONE else pi_next s t)"

lemma pi_links_of: "pi_inv s \<Longrightarrow> pi_links (links_of s) s"
proof -
  assume inv: "pi_inv s"
  let ?r = "\<lambda>t. length (THE p. pi_path s t p)"
  have path: "(THE p. pi_path s t p) = p" if "pi_path s t p" for t p
    using that pi_path_unique by blast
  have closed: "pi_closed s" using inv by (simp add: pi_inv_def)
  have "links_of s t \<noteq> t \<and> (if links_of s t = TASK_ID_NONE then True
      else unat (links_of s t) < pi_ntasks s \<and> ?r (links_of s t) < ?r t)" if t: "unat t < pi_ntasks s" for t
  proof -
    have none: "t \<noteq> TASK_ID_NONE" using t pi_ntasks_bound [OF inv] by (auto simp: TASK_ID_NONE_def)
    obtain p where p: "pi_path s t p" using inv t by (auto simp: pi_inv_def)
    show ?thesis
    proof (cases "pi_next s t = t \<or> pi_next s t = TASK_ID_NONE")
      case True
      then show ?thesis using none by (auto simp: links_of_def pi_is_runnable_def)
    next
      case False
      then obtain q where "p = t # q" "pi_path s (pi_next s t) q" using p t by (auto simp: pi_path_step_iff)
      then show ?thesis
        using False t closed path [of t p] path [of "pi_next s t" q] p by (auto simp: links_of_def pi_is_runnable_def pi_closed_def)
    qed
  qed
  then have "links_ok (links_of s) (pi_ntasks s)" unfolding links_ok_def by (intro exI [of _ ?r]) blast
  then show ?thesis using closed by (auto simp: pi_links_def pi_closed_def links_of_def pi_is_runnable_def)
qed

lemma pi_links_none: "pi_links n s \<Longrightarrow> unat t < pi_ntasks s \<Longrightarrow> n t \<noteq> t"
  by (auto simp: pi_links_def links_ok_def)

lemma kochab_unblock_links:
  assumes "kernel_inv c (pi_links n) pi_ntasks k" and "preempt_ok c k" and "unat t < tasks_length c"
  shows "kochab_unblock c t k = Inr ((), pend c (k\<lparr>k_sched := pi_set t t (k_sched k)\<rparr>))"
  using assms pi_links_inv [of n "k_sched k"] by (intro kochab_unblock_law) (simp_all add: kernel_inv_def)

lemma kochab_block_on_links:
  assumes "kernel_inv c (pi_links n) pi_ntasks k" and "preempt_ok c k"
  shows "kochab_block_on c b k = Inr ((), k\<lparr>k_sched := pi_set (k_current_task k) b (k_sched k)\<rparr>)"
  using assms pi_links_inv [of n "k_sched k"] by (intro kochab_block_on_run) (simp_all add: kernel_inv_def)

lemma pi_links_updates:
  assumes "pi_links n s" and "unat t < pi_ntasks s"
  shows "pi_sched_set_runnable t s = Inr ((), pi_set t t s)"
    and "pi_sched_set_blocked_on t (n t) s = Inr ((), pi_set t (n t) s)"
    and "pi_links n (pi_set t t s)" and "pi_links n (pi_set t (n t) s)"
    and "pi_ntasks (pi_set t t s) = pi_ntasks s" and "pi_ntasks (pi_set t (n t) s) = pi_ntasks s"
  using assms pi_links_set [OF assms]
  by (simp_all add: pi_sched_set_runnable_def pi_sched_set_blocked_on_def array_modify_def pi_set_def pi_ntasks_def)

lemma pi_links_runnable:
  assumes "pi_links n s" and "unat t < pi_ntasks s" and "unat u < pi_ntasks s"
  shows "pi_is_runnable (pi_set t t s) u \<longleftrightarrow> u = t \<or> pi_is_runnable s u"
    and "pi_is_runnable (pi_set t (n t) s) u \<longleftrightarrow> u \<noteq> t \<and> pi_is_runnable s u"
  using assms pi_links_none [OF assms(1,2)] by (auto simp: pi_is_runnable_def pi_next_set)

lemma pi_links_next:
  assumes "pi_links n s"
  shows "unat t < pi_ntasks s \<Longrightarrow> pi_is_runnable s t \<Longrightarrow>
      \<exists>u s'. pi_sched_get_next undef s = Inr (u, s') \<and> unat u < pi_ntasks s \<and> pi_is_runnable s u"
    and "pi_sched_get_next undef s = Inr (u, s') \<Longrightarrow> pi_links n s'"
    and "pi_sched_get_next undef s = Inr (u, s') \<Longrightarrow> pi_ntasks s' = pi_ntasks s"
    and "pi_sched_get_next undef s = Inr (u, s') \<Longrightarrow> pi_is_runnable s' = pi_is_runnable s"
    and "(\<And>t. unat t < pi_ntasks s \<Longrightarrow> \<not> pi_is_runnable s t) \<Longrightarrow> \<exists>s'. pi_sched_get_next undef s = Inr (TASK_ID_NONE, s')"
  using assms pi_get_next_cases [OF pi_links_inv [OF assms], of undef] pi_next_runnable [OF pi_links_inv [OF assms]]
    pi_next_none [OF pi_links_inv [OF assms]] by auto

interpretation kochab_links: ppce500_scheduler pi_sched_set_runnable "\<lambda>t. pi_sched_set_blocked_on t (n t)"
  "pi_sched_get_next undef" "\<lambda>t. pi_set t t" "\<lambda>t. pi_set t (n t)" "pi_links n" pi_ntasks pi_is_runnable "preemptive c"
  "kochab_unblock (preemptive c)" "\<lambda>k. kochab_block_on (preemptive c) (n (k_current_task k)) k" nev
  for n undef c nev
  by unfold_locales
    ((rule pi_links_next; assumption | blast) |
      simp add: pi_links_updates pi_links_runnable kochab_unblock_links kochab_block_on_links pi_links_next
        pi_ntasks_bound [OF pi_links_inv])+

section \<open>The scheduler invocation\<close>

text \<open>
  The task that the scheduler picks: the most urgent task that does not just wait leads to it.
\<close>

definition pi_picks :: "pi_sched \<Rightarrow> u8 \<Rightarrow> bool" where
  "pi_picks s u \<longleftrightarrow> (\<exists>t. unat t < pi_ntasks s \<and> pi_serves s t u \<and> (\<forall>v. v < t \<longrightarrow> pi_waits s v))"

lemma pi_picks_next:
  assumes "pi_inv s" and "pi_sched_get_next undef s = Inr (u, s')" and "u \<noteq> TASK_ID_NONE"
  shows "s' = s" and "pi_picks s u"
  using pi_get_next_cases [OF assms(1), of undef] assms(2,3) by (auto simp: pi_picks_def)

lemma pi_picks_runnable: "pi_picks s u \<Longrightarrow> unat u < pi_ntasks s \<and> pi_is_runnable s u"
  using pi_serves_runnable by (auto simp: pi_picks_def)

lemma links_system_ok:
  fixes k :: "(pi_sched, 'z) ppc_kernel_scheme"
  shows "kochab_links.system_ok n c nev k \<longleftrightarrow> kochab_events.system_ok c nev k \<and> pi_links n (k_sched k)"
  unfolding kochab_links.system_ok_def kochab_events.system_ok_def
  using pi_links_inv [of n "k_sched k"]
  by (auto simp: event_kernel_inv_def timer_kernel_inv_def kernel_inv_def)

text \<open>
  The interrupts during an invocation: those in its runs, as for \<open>ppce500_scheduler_run\<close>, and those that
  end its waits. All of them find preemption disabled, so they leave it pending.
\<close>

record arrivals =
  ar_isr :: "nat \<Rightarrow> nat \<Rightarrow> u32"
  ar_late :: "nat \<Rightarrow> u32"
  ar_ticked :: "nat \<Rightarrow> bool"
  ar_waits :: "nat \<Rightarrow> interrupts list"

definition no_arrivals :: arrivals where
  "no_arrivals = \<lparr>ar_isr = \<lambda>_ _. 0, ar_late = \<lambda>_. 0, ar_ticked = \<lambda>_. False, ar_waits = \<lambda>_. []\<rparr>"

definition arrivals_ok :: "nat \<Rightarrow> arrivals \<Rightarrow> bool" where
  "arrivals_ok nev a \<longleftrightarrow> (\<forall>n m. events_below nev (ar_isr a n m)) \<and> (\<forall>n. events_below nev (ar_late a n)) \<and>
     (\<forall>n. \<forall>w \<in> set (ar_waits a n). interrupts_ok nev w)"

definition deferred :: "config \<Rightarrow> (('s, 'z) ppc_kernel_scheme, unit) kop \<Rightarrow> (('s, 'z) ppc_kernel_scheme, unit) kop" where
  "deferred c handler = kbind handler (\<lambda>_. preempt_pend c)"

definition kochab_wait :: "config \<Rightarrow> interrupts \<Rightarrow> ((pi_sched, 'z) ppc_kernel_scheme, unit) kop" where
  "kochab_wait c = (\<lambda>(earlier, arriving, ticked).
     ppce500_interrupt_event_wait (interrupt_event_check ppce500_interrupt_application_event_check interrupt_system_event_check)
       (map (\<lambda>e. deferred c (isr_raise e)) earlier)
       (map (\<lambda>e. deferred c (isr_raise e)) arriving @ (if ticked then [deferred c rtos_timer_tick] else [])))"

definition kochab_scheduler ::
  "config \<Rightarrow> u8 \<Rightarrow> arrivals \<Rightarrow> nat \<Rightarrow> ((pi_sched, 'z) ppc_kernel_scheme, u8) kop"
where
  "kochab_scheduler c undef a n =
     ppce500_scheduler_run c (kochab_unblock c) (pi_sched_get_next undef) (ar_isr a n) (ar_late a n) (ar_ticked a n)
       (map (kochab_wait c) (ar_waits a n))"

lemma kseq_deferred:
  fixes k :: "('s, 'z) ppc_kernel_scheme"
  shows "kseq (map (\<lambda>e. deferred (preemptive c) (isr_raise e)) es) k =
    Inr ((), k\<lparr>k_interrupt_event := k_interrupt_event k OR raised es, k_preempt_pending := k_preempt_pending k \<or> es \<noteq> []\<rparr>)"
proof (induction es arbitrary: k)
  case Nil
  then show ?case by (cases k) (simp add: kreturn_def)
next
  case (Cons e es)
  then show ?case by (simp add: deferred_def kop_defs isr_raise_eq pend_def ac_simps)
qed

lemma deferred_tick:
  fixes k :: "('s, 'z) ppc_kernel_scheme"
  shows "k_timer_pending_ticks k = 0 \<Longrightarrow> deferred (preemptive c) rtos_timer_tick k =
    Inr ((), k\<lparr>k_timer_pending_ticks := 1, k_preempt_pending := True\<rparr>)"
  by (simp add: deferred_def kop_defs rtos_timer_tick_def armv7m_timer_tick_def pend_def)

lemma kochab_wait_ok:
  assumes "interrupts_ok nev w"
  shows "kochab_ppc.wait_ok nev (kochab_wait (preemptive c) w)"
proof -
  obtain earlier arriving ticked where w: "w = (earlier, arriving, ticked)" by (cases w)
  let ?e = "raised earlier OR raised arriving"
  have e: "events_below nev ?e" using assms by (auto simp: w interrupts_ok_def intro: events_below_raised)
  have "kochab_wait (preemptive c) w k = Inr ((), k\<lparr>k_interrupt_event := k_interrupt_event k OR ?e,
      k_timer_pending_ticks := if ticked then 1 else 0,
      k_preempt_pending := k_preempt_pending k \<or> earlier \<noteq> [] \<or> arriving \<noteq> [] \<or> ticked\<rparr>)"
    if k: "k_timer_pending_ticks k = 0" "k_interrupts_enabled k" for k :: "(pi_sched, 'z) ppc_kernel_scheme"
  proof -
    have ends: "k_interrupt_event k OR raised earlier \<noteq> 0 \<or> arriving \<noteq> [] \<or> ticked"
      using assms by (auto simp: w interrupts_ok_def or_eq_0_iff)
    have same: "k\<lparr>k_interrupt_event := v, k_preempt_pending := p, k_timer_pending_ticks := 0, k_interrupts_enabled := True\<rparr> =
        k\<lparr>k_interrupt_event := v, k_preempt_pending := p\<rparr>" for v p
      using k by (cases k) simp
    show ?thesis
      using ends k
      by (cases ticked) (auto simp: w kochab_wait_def ppce500_interrupt_event_wait_def interrupts_wait_def interrupts_enable_def
          interrupts_disable_def kseq_append kop_defs kseq_deferred deferred_tick interrupt_event_check_iff same ac_simps)
  qed
  moreover have "(if ticked then 1 else 0 :: u8) \<le> 1" by simp
  ultimately show ?thesis
    using e unfolding kochab_ppc.wait_ok_def events_below_def by blast
qed

lemma kochab_loop_cases:
  fixes k :: "(pi_sched, 'z) ppc_kernel_scheme"
  assumes ok: "kochab_events.system_ok c nev k" and arrivals: "arrivals_ok nev a"
  shows "case preempt_irq_scheduler_loop (kochab_scheduler (preemptive c) undef a) fuel 0 k of
      Inl e \<Rightarrow> e = Diverges
    | Inr (u, k') \<Rightarrow> kochab_events.system_ok c nev k' \<and>
        wakes_only (preemptive c) pi_is_runnable (k\<lparr>k_interrupts_enabled := False\<rparr>) k' \<and>
        (\<forall>t. unat t < tasks_length c \<longrightarrow> pi_next (k_sched k') t = t \<or> pi_next (k_sched k') t = pi_next (k_sched k) t) \<and>
        unat u < tasks_length c \<and> pi_picks (k_sched k') u \<and> \<not> k_preempt_pending k' \<and>
        \<not> k_interrupts_enabled k' \<and> k_interrupt_event k' = 0 \<and> k_timer_pending_ticks k' = 0"
proof -
  let ?n = "links_of (k_sched k)"
  let ?loop = "preempt_irq_scheduler_loop (kochab_scheduler (preemptive c) undef a) fuel 0 k"
  have kinv: "pi_inv (k_sched k)" "pi_ntasks (k_sched k) = tasks_length c"
    using kochab_events.system_ok_kernel_inv [OF ok] by (simp_all add: kernel_inv_def)
  have ok': "kochab_links.system_ok ?n c nev k" using ok pi_links_of [OF kinv(1)] by (simp add: links_system_ok)
  have bits: "\<forall>n m i. bit (ar_isr a n m) i \<longrightarrow> i < nev" "\<forall>n i. bit (ar_late a n) i \<longrightarrow> i < nev"
    using arrivals by (simp_all add: arrivals_ok_def events_below_def)
  have "kochab_ppc.wait_ok nev (kochab_wait (preemptive c) w)" if "w \<in> set (ar_waits a n)" for n w
    by (rule kochab_wait_ok) (use arrivals that in \<open>simp add: arrivals_ok_def\<close>)
  then have waits: "\<forall>n. \<forall>w \<in> set (map (kochab_wait (preemptive c)) (ar_waits a n)). kochab_links.wait_ok nev w" by auto
  have cases: "case ?loop of Inl e \<Rightarrow> e = Diverges
    | Inr (u, k') \<Rightarrow> kochab_links.system_ok ?n c nev k' \<and>
        wakes_only (preemptive c) pi_is_runnable (k\<lparr>k_interrupts_enabled := False\<rparr>) k' \<and>
        unat u < tasks_length (preemptive c) \<and> pi_is_runnable (k_sched k') u \<and>
        (\<exists>s. pi_links ?n s \<and> pi_sched_get_next undef s = Inr (u, k_sched k')) \<and>
        \<not> k_preempt_pending k' \<and> \<not> k_interrupts_enabled k' \<and> k_interrupt_event k' = 0 \<and> k_timer_pending_ticks k' = 0"
    using kochab_links.scheduler_loop_cases [OF bits waits ok', of undef "ar_ticked a" fuel 0]
    unfolding kochab_scheduler_def .
  show ?thesis
  proof (cases ?loop)
    case (Inl e)
    then show ?thesis using cases by simp
  next
    case (Inr uk)
    obtain u k' where run: "?loop = Inr (u, k')" using Inr by (cases uk) simp
    have k': "kochab_links.system_ok ?n c nev k'" "unat u < tasks_length c"
      "\<exists>s. pi_links ?n s \<and> pi_sched_get_next undef s = Inr (u, k_sched k')"
      using cases run by simp_all
    have sys: "kochab_events.system_ok c nev k'" "pi_links ?n (k_sched k')" using k'(1) by (simp_all add: links_system_ok)
    have n': "pi_ntasks (k_sched k') = tasks_length c"
      using kochab_events.system_ok_kernel_inv [OF sys(1)] by (simp add: kernel_inv_def)
    obtain s where s: "pi_links ?n s" "pi_sched_get_next undef s = Inr (u, k_sched k')" using k'(3) by blast
    have "u \<noteq> TASK_ID_NONE" using k'(2) pi_ntasks_bound [OF kinv(1)] kinv(2) by (auto simp: TASK_ID_NONE_def)
    from pi_picks_next [OF pi_links_inv [OF s(1)] s(2) this] have picks: "pi_picks (k_sched k') u" by simp
    have link: "pi_next (k_sched k') t = t \<or> pi_next (k_sched k') t = pi_next (k_sched k) t" if t: "unat t < tasks_length c" for t
    proof (cases "pi_is_runnable (k_sched k) t")
      case True
      then have "pi_is_runnable (k_sched k') t"
        using cases run t by (auto simp: wakes_only_def)
      then show ?thesis by (simp add: pi_is_runnable_def)
    next
      case False
      then show ?thesis using sys(2) t n' by (auto simp: pi_links_def links_of_def)
    qed
    then show ?thesis using cases run sys(1) picks by simp
  qed
qed

text \<open>With a runnable task, the invocation returns within two runs after the last one that is interfered with.\<close>

definition arrivals_cease :: "nat \<Rightarrow> arrivals \<Rightarrow> bool" where
  "arrivals_cease N a \<longleftrightarrow> (\<forall>n \<ge> N. ar_isr a n = (\<lambda>_. 0) \<and> ar_late a n = 0 \<and> \<not> ar_ticked a n)"

lemma kochab_loop_returns:
  fixes k :: "(pi_sched, 'z) ppc_kernel_scheme"
  assumes ok: "kochab_events.system_ok c nev k" and arrivals: "arrivals_ok nev a" "arrivals_cease N a"
    and t: "unat t < tasks_length c" "pi_is_runnable (k_sched k) t"
  shows "\<exists>u k'. preempt_irq_scheduler_loop (kochab_scheduler (preemptive c) undef a) (N + 2) 0 k = Inr (u, k')"
proof -
  have bits: "\<forall>n m i. bit (ar_isr a n m) i \<longrightarrow> i < nev" "\<forall>n i. bit (ar_late a n) i \<longrightarrow> i < nev"
    "\<forall>n \<ge> N. ar_isr a n = (\<lambda>_. 0) \<and> ar_late a n = 0 \<and> \<not> ar_ticked a n"
    using arrivals by (simp_all add: arrivals_ok_def arrivals_cease_def events_below_def)
  have t': "unat t < tasks_length (preemptive c)" using t(1) by simp
  show ?thesis
    using kochab_ppc.scheduler_loop_returns [OF bits t' ok t(2), of undef "\<lambda>n. map (kochab_wait (preemptive c)) (ar_waits a n)" 0]
    unfolding kochab_scheduler_def by simp
qed

end
