(* ===== verification/Kochab_System.thy ===== *)
theory Kochab_System
  imports Kochab_Schedule
begin

text \<open>
  A whole Kochab system on the PowerPC e500 as a transition system: tasks that call the kernel in any
  order, preemption by interrupts at any time, and the switches between tasks. The calls are those for
  signals, sleeping, timers, mutexes and semaphores, with and without timeouts; mutex statistics are switched off.
\<close>

section \<open>The system\<close>

text \<open>
  What a task has to do when it is switched to: its entry function, application code that an interrupt
  preempted, the end of \<open>preempt_enable\<close> at the end of a call, or the rest of a call that has given up
  the processor, from the program point given.
\<close>

datatype kochab_thread =
    Starting
  | Running
  | Leaving
  | In_Wait signal_pc
  | In_Sleep signal_pc
  | In_Lock mutex_pc
  | In_Sem sem_pc

datatype kochab_call =
    Signal_Wait u8
  | Signal_Send u8 u8
  | Signal_Poll u8
  | Sleep u16
  | Mutex_Lock u8
  | Mutex_Lock_Timeout u8 u16
  | Mutex_Try_Lock u8
  | Mutex_Unlock u8
  | Sem_Wait u8
  | Sem_Wait_Timeout u8 u16
  | Sem_Try_Wait u8
  | Sem_Post u8
  | Sem_Max_Init u8 u8
  | Timer_Enable u8
  | Timer_Oneshot u8 u16
  | Timer_Check_Overflow u8
  | Timer_Signal_Set u8 u8 u8

definition kochab_thread_of :: "('p \<Rightarrow> kochab_thread) \<Rightarrow> ('p, 'a) progress \<Rightarrow> kochab_thread" where
  "kochab_thread_of f r = (case r of Suspended p \<Rightarrow> f p | Finished _ \<Rightarrow> Running)"

definition kochab_invoke :: "config \<Rightarrow> kochab_call \<Rightarrow> ((pi_sched, 'z) sem_kernel_scheme, kochab_thread) kop" where
  "kochab_invoke c call =
     (case call of
        Signal_Wait signals \<Rightarrow>
          kbind (rtos_signal_wait_set c (kochab_block_on c) signals) (\<lambda>p. kreturn (In_Wait p))
      | Signal_Send task signals \<Rightarrow> kbind (rtos_signal_send_set c (kochab_unblock c) task signals) (\<lambda>_. kreturn Running)
      | Signal_Poll signals \<Rightarrow> kbind (rtos_signal_poll_set c signals) (\<lambda>_. kreturn Running)
      | Sleep ticks \<Rightarrow>
          kbind (rtos_sleep c (kochab_unblock c) (kochab_block_on c) ticks) (\<lambda>p. kreturn (In_Sleep p))
      | Mutex_Lock m \<Rightarrow> kbind (rtos_mutex_lock c (kochab_mutex_core c False) m) (\<lambda>r. kreturn (kochab_thread_of In_Lock r))
      | Mutex_Lock_Timeout m timeout \<Rightarrow>
          kbind (rtos_mutex_lock_timeout c (kochab_mutex_core c False) m timeout) (\<lambda>r. kreturn (kochab_thread_of In_Lock r))
      | Mutex_Try_Lock m \<Rightarrow> kbind (rtos_mutex_try_lock c (kochab_mutex_core c False) m) (\<lambda>_. kreturn Running)
      | Mutex_Unlock m \<Rightarrow> kbind (rtos_mutex_unlock c (kochab_mutex_core c False) m) (\<lambda>_. kreturn Running)
      | Sem_Wait s \<Rightarrow> kbind (rtos_sem_wait c (kochab_sem_core c (semaphore_enable_max c)) s) (\<lambda>r. kreturn (kochab_thread_of In_Sem r))
      | Sem_Wait_Timeout s timeout \<Rightarrow>
          kbind (rtos_sem_wait_timeout c (kochab_sem_core c (semaphore_enable_max c)) s timeout) (\<lambda>r. kreturn (kochab_thread_of In_Sem r))
      | Sem_Try_Wait s \<Rightarrow> kbind (rtos_sem_try_wait c s) (\<lambda>_. kreturn Running)
      | Sem_Post s \<Rightarrow> kbind (rtos_sem_post c (kochab_sem_core c (semaphore_enable_max c)) s) (\<lambda>_. kreturn Running)
      | Sem_Max_Init s max_value \<Rightarrow> kbind (rtos_sem_max_init c s max_value) (\<lambda>_. kreturn Running)
      | Timer_Enable i \<Rightarrow> kbind (rtos_timer_enable c (kochab_unblock c) i) (\<lambda>_. kreturn Running)
      | Timer_Oneshot i timeout \<Rightarrow> kbind (rtos_timer_oneshot c (kochab_unblock c) i timeout) (\<lambda>_. kreturn Running)
      | Timer_Check_Overflow i \<Rightarrow> kbind (rtos_timer_check_overflow c i) (\<lambda>_. kreturn Running)
      | Timer_Signal_Set i task signals \<Rightarrow> kbind (rtos_timer_signal_set c i task signals) (\<lambda>_. kreturn Running))"

definition kochab_continue :: "config \<Rightarrow> kochab_thread \<Rightarrow> ((pi_sched, 'z) sem_kernel_scheme, kochab_thread) kop" where
  "kochab_continue c thread =
     (case thread of
        Starting \<Rightarrow> kbind (kochab_entry c) (\<lambda>_. kreturn Running)
      | Running \<Rightarrow> kreturn Running
      | Leaving \<Rightarrow> kreturn Running
      | In_Wait p \<Rightarrow> kbind (rtos_signal_wait_set_resume c (kochab_block_on c) p) (\<lambda>r. kreturn (kochab_thread_of In_Wait r))
      | In_Sleep p \<Rightarrow> kbind (rtos_sleep_resume c (kochab_block_on c) p) (\<lambda>r. kreturn (kochab_thread_of In_Sleep r))
      | In_Lock p \<Rightarrow> kbind (rtos_mutex_resume c (kochab_mutex_core c False) p) (\<lambda>r. kreturn (kochab_thread_of In_Lock r))
      | In_Sem p \<Rightarrow> kbind (rtos_sem_resume c (kochab_sem_core c (semaphore_enable_max c)) p) (\<lambda>r. kreturn (kochab_thread_of In_Sem r)))"

text \<open>
  A switch gives a task the preemption flag and the interrupt mask that it was switched away with, and
  the task continues to where interrupts are unmasked. It never finds itself leaving: that ends there.
\<close>

definition in_kernel :: "kochab_thread \<Rightarrow> bool" where
  "in_kernel thread \<longleftrightarrow> thread \<noteq> Running \<and> thread \<noteq> Leaving"

definition kochab_restore :: "kochab_thread \<Rightarrow> u8 \<Rightarrow> ((pi_sched, 'z) ppc_kernel_scheme, unit) kop" where
  "kochab_restore thread to =
     kmodify (\<lambda>k. k\<lparr>k_current_task := to, k_preempt_disabled := in_kernel thread,
       k_interrupts_enabled := (thread = Running \<or> thread = Starting)\<rparr>)"

definition kochab_switched :: "config \<Rightarrow> kochab_thread \<Rightarrow> u8 \<Rightarrow> ((pi_sched, 'z) ppc_kernel_scheme, kochab_thread) kop" where
  "kochab_switched c thread to =
     (if thread = Running \<or> thread = Starting then kreturn thread
      else if thread = Leaving
      then kbind (ppce500_preempt_enable_resume c (Yield_Syscall to False)) (\<lambda>_. kreturn Running)
      else kbind (ppce500_yield_resume c (Yield_Syscall to True)) (\<lambda>_. kreturn thread))"

type_synonym 'z kochab_state = "(pi_sched, 'z) ppc_kernel_scheme \<times> (u8 \<Rightarrow> kochab_thread)"

definition kochab_switch :: "config \<Rightarrow> u8 \<Rightarrow> 'z kochab_state \<Rightarrow> failure + 'z kochab_state" where
  "kochab_switch c to = (\<lambda>(k, threads).
     case kbind (kochab_restore (threads to) to) (\<lambda>_. kochab_switched c (threads to) to) k of
       Inl e \<Rightarrow> Inl e
     | Inr (thread, k') \<Rightarrow> Inr (k', threads(to := thread)))"

text \<open>
  A turn of the current task: it makes a call, or continues the one it is in. Interrupts may arrive
  meanwhile. In the model of the calls, \<open>preempt_enable\<close> at the end is a change of the flag; here the
  platform's \<open>preempt_enable\<close> takes the place of that, so the flag is set again before. A call that waits
  ends in \<open>yield\<close> instead. The same is done after \<open>rtos_sem_max_init\<close>, which does not disable preemption: an
  interrupt during it preempts the task at its end.
\<close>

definition kochab_arrive :: "config \<Rightarrow> u32 \<times> bool \<Rightarrow> (('s, 'z) ppc_kernel_scheme, unit) kop" where
  "kochab_arrive c = (\<lambda>(e, ticked).
     kseq [isr_raise e, kwhen ticked rtos_timer_tick, kwhen (e \<noteq> 0 \<or> ticked) (preempt_pend c)])"

definition kochab_turn ::
  "config \<Rightarrow> (nat \<Rightarrow> ((pi_sched, 'z) ppc_kernel_scheme, u8) kop) \<Rightarrow> nat \<Rightarrow> u32 \<times> bool \<Rightarrow> kochab_call \<Rightarrow>
     'z kochab_state \<Rightarrow> failure + 'z kochab_state"
where
  "kochab_turn c get_next fuel arrived call = (\<lambda>(k, threads).
     let me = k_current_task k in
     case (if threads me = Running then kochab_invoke c call else kochab_continue c (threads me)) k of
       Inl e \<Rightarrow> Inl e
     | Inr (thread, k1) \<Rightarrow>
         (case kbind (kochab_arrive c arrived) (\<lambda>_.
              if thread = Running
              then kbind (set_preempt_disabled True) (\<lambda>_. ppce500_preempt_enable c get_next fuel)
              else ppce500_yield c get_next fuel) k1 of
            Inl e \<Rightarrow> Inl e
          | Inr (Finished _, k2) \<Rightarrow> Inr (k2, threads(me := thread))
          | Inr (Suspended (Yield_Syscall to _), k2) \<Rightarrow>
              kochab_switch c to (k2, threads(me := if thread = Running then Leaving else thread))))"

text \<open>An interrupt: its handler raises events or a tick, and then it may preempt the current task.\<close>

definition kochab_interrupt ::
  "config \<Rightarrow> (nat \<Rightarrow> ((pi_sched, 'z) ppc_kernel_scheme, u8) kop) \<Rightarrow> nat \<Rightarrow> u32 \<times> bool \<Rightarrow>
     'z kochab_state \<Rightarrow> failure + 'z kochab_state"
where
  "kochab_interrupt c get_next fuel = (\<lambda>(e, ticked) (k, threads).
     case kbind interrupts_disable (\<lambda>_. kbind (isr_raise e) (\<lambda>_. kbind (kwhen ticked rtos_timer_tick) (\<lambda>_.
            rtos_internal_preempt_irq_scheduler_wrapper c get_next fuel))) k of
       Inl f \<Rightarrow> Inl f
     | Inr (to, k1) \<Rightarrow>
         if to = TASK_ID_NONE then Inr (k1\<lparr>k_interrupts_enabled := True\<rparr>, threads)
         else kochab_switch c to (k1, threads))"

text \<open>
  What the kernel requires of the application: calls name tasks, mutexes, semaphores and timers that exist, a
  task unlocks only mutexes that it holds, and a semaphore is not posted beyond its maximum value, which is set once. The order in which a task may lock
  mutexes is a rule that rules out deadlock: it locks, waiting if need be, only mutexes with greater identifiers
  than those it holds.
\<close>

definition in_lock_order :: "(pi_sched, 'z) mutex_kernel_scheme \<Rightarrow> u8 \<Rightarrow> bool" where
  "in_lock_order k m \<longleftrightarrow>
     (\<forall>n \<in> set (ids (length (k_mutexes k))). holder_of k n = k_current_task k \<longrightarrow> n < m)"

definition kochab_call_ok :: "config \<Rightarrow> (pi_sched, 'z) sem_kernel_scheme \<Rightarrow> kochab_call \<Rightarrow> bool" where
  "kochab_call_ok c k call \<longleftrightarrow>
     (case call of
        Signal_Send task signals \<Rightarrow> unat task < tasks_length c
      | Mutex_Lock m \<Rightarrow> unat m < length (k_mutexes k) \<and> in_lock_order k m
      | Mutex_Lock_Timeout m timeout \<Rightarrow> unat m < length (k_mutexes k) \<and> in_lock_order k m
      | Mutex_Try_Lock m \<Rightarrow> unat m < length (k_mutexes k)
      | Mutex_Unlock m \<Rightarrow> unat m < length (k_mutexes k) \<and> holder_of k m = k_current_task k
      | Sem_Wait s \<Rightarrow> unat s < length (k_semaphores k)
      | Sem_Wait_Timeout s timeout \<Rightarrow> unat s < length (k_semaphores k)
      | Sem_Try_Wait s \<Rightarrow> unat s < length (k_semaphores k)
      | Sem_Post s \<Rightarrow> unat s < length (k_semaphores k) \<and>
          (semaphore_enable_max c \<longrightarrow> max_of k s \<noteq> 0 \<and> value_of k s < max_of k s)
      | Sem_Max_Init s max_value \<Rightarrow> unat s < length (k_semaphores k) \<and> semaphore_enable_max c \<and> max_value \<noteq> 0 \<and> max_of k s = 0
      | Timer_Enable i \<Rightarrow> unat i < length (k_timers k)
      | Timer_Oneshot i timeout \<Rightarrow> unat i < length (k_timers k)
      | Timer_Check_Overflow i \<Rightarrow> unat i < length (k_timers k)
      | Timer_Signal_Set i task signals \<Rightarrow> 
          unat i < length (k_timers k) \<and> unat task < tasks_length c \<and> signals \<noteq> 0
      | _ \<Rightarrow> True)"

text \<open>Ticks come only when the previous one has been processed: the system keeps up with its timer.\<close>

definition arrival_ok :: "nat \<Rightarrow> (pi_sched, 'z) ppc_kernel_scheme \<Rightarrow> u32 \<times> bool \<Rightarrow> bool" where
  "arrival_ok nev k = (\<lambda>(e, ticked). events_below nev e \<and> (ticked \<longrightarrow> k_timer_pending_ticks k = 0))"

inductive kochab_step :: "config \<Rightarrow> nat \<Rightarrow> 'z kochab_state \<Rightarrow> 'z kochab_state \<Rightarrow> bool" for c nev where
  Turn: "kochab_call_ok c k call \<Longrightarrow> arrival_ok nev k arrived \<Longrightarrow> arrivals_ok nev a \<Longrightarrow>
    kochab_turn (preemptive c) (kochab_scheduler (preemptive c) undef a) fuel arrived call (k, threads) = Inr st \<Longrightarrow>
    kochab_step c nev (k, threads) st"
| Interrupt: "arrival_ok nev k arrived \<Longrightarrow> arrivals_ok nev a \<Longrightarrow>
    kochab_interrupt (preemptive c) (kochab_scheduler (preemptive c) undef a) fuel arrived (k, threads) = Inr st \<Longrightarrow>
    kochab_step c nev (k, threads) st"

inductive_cases kochab_stepE [consumes 1, case_names Turn Interrupt]: "kochab_step c nev (k, threads) st"

section \<open>The invariant\<close>

text \<open>The tables of the kernel are in order, whatever the flags are.\<close>

definition kochab_ok :: "config \<Rightarrow> nat \<Rightarrow> (pi_sched, 'z) ppc_kernel_scheme \<Rightarrow> bool" where
  "kochab_ok c nev k \<longleftrightarrow> kochab_events.system_ok c nev (k\<lparr>k_preempt_disabled := True\<rparr>) \<and> mutexes_ok c k \<and>
     semaphores_ok c k \<and> sem_waiters_inv c k \<and> SIGNAL_ID__TASK_TIMER c \<noteq> 0 \<and>
     length (k_task_timers k) = tasks_length c \<and> (\<forall>i \<in> set (k_task_timers k). unat i < length (k_timers k)) \<and>
     (\<forall>m. unat m < length (k_mutexes k) \<longrightarrow> holder_of k m = TASK_ID_NONE \<or> unat (holder_of k m) < tasks_length c)"

text \<open>
  Where a call waits for the signals \<open>r\<close>, blocked on \<open>b\<close>: the task is runnable, or it is blocked in the
  scheduler on just that, with none of the signals pending.
\<close>

definition sig_waiting :: "(pi_sched, 'z) ppc_kernel_scheme \<Rightarrow> u8 \<Rightarrow> u8 \<Rightarrow> u8 \<Rightarrow> signal_pc \<Rightarrow> bool" where
  "sig_waiting k t r b p \<longleftrightarrow> p = Sig_Yielded t r \<and> pi_is_runnable (k_sched k) t \<or>
     p = Sig_Blocked t r b \<and>
       (pi_is_runnable (k_sched k) t \<or> pending_of k t AND r = 0 \<and> pi_next (k_sched k) t = b)"

text \<open>All mutexes that the task holds come before \<open>m\<close>.\<close>

definition holds_below :: "(pi_sched, 'z) ppc_kernel_scheme \<Rightarrow> u8 \<Rightarrow> u8 \<Rightarrow> bool" where
  "holds_below k t m \<longleftrightarrow> (\<forall>n. unat n < length (k_mutexes k) \<longrightarrow> holder_of k n = t \<longrightarrow> n < m)"

text \<open>
  A task in a lock or a semaphore that has not been sent its wake-up signal is registered as waiting; a
  mutex that it waits for is held by the task it is blocked on.
\<close>

fun lock_point :: "mutex_pc \<Rightarrow> (u8 \<times> signal_pc) option" where
  "lock_point (Mutex_Locking m contended start p) = Some (m, p)"
| "lock_point (Mutex_Lock_Timing m contended absolute_timeout timeout p) = Some (m, p)"
| "lock_point (Mutex_Lock_Done m contended start r) = None"

fun sem_point :: "sem_pc \<Rightarrow> u8 \<times> signal_pc" where
  "sem_point (Sem_Waiting s p) = (s, p)"
| "sem_point (Sem_Wait_Timing s absolute_timeout p) = (s, p)"

definition lock_waiting :: "config \<Rightarrow> (pi_sched, 'z) ppc_kernel_scheme \<Rightarrow> u8 \<Rightarrow> mutex_pc \<Rightarrow> bool" where
  "lock_waiting c k t pc \<longleftrightarrow> (\<exists>m p b. lock_point pc = Some (m, p) \<and>
     unat m < length (k_mutexes k) \<and> sig_waiting k t (SIGNAL_ID__TASK_TIMER c) b p \<and> holds_below k t m \<and>
     (p = Sig_Yielded t (SIGNAL_ID__TASK_TIMER c) \<or> pending_of k t AND SIGNAL_ID__TASK_TIMER c \<noteq> 0 \<or>
      waiting_for k t = m \<and> holder_of k m = b \<and> b \<noteq> TASK_ID_NONE))"

definition sem_waiting :: "config \<Rightarrow> (pi_sched, 'z) ppc_kernel_scheme \<Rightarrow> u8 \<Rightarrow> sem_pc \<Rightarrow> bool" where
  "sem_waiting c k t pc \<longleftrightarrow> (\<exists>s p. sem_point pc = (s, p) \<and> unat s < length (k_semaphores k) \<and>
     sig_waiting k t (SIGNAL_ID__TASK_TIMER c) TASK_ID_NONE p \<and>
     (p = Sig_Yielded t (SIGNAL_ID__TASK_TIMER c) \<or> pending_of k t AND SIGNAL_ID__TASK_TIMER c \<noteq> 0 \<or>
      sem_waiting_for k t = s))"

definition kochab_thread_ok :: "config \<Rightarrow> (pi_sched, 'z) ppc_kernel_scheme \<Rightarrow> u8 \<Rightarrow> kochab_thread \<Rightarrow> bool" where
  "kochab_thread_ok c k t thread \<longleftrightarrow>
     (case thread of
        In_Wait p \<Rightarrow> \<exists>r. sig_waiting k t r TASK_ID_NONE p
      | In_Sleep p \<Rightarrow> sig_waiting k t (SIGNAL_ID__TASK_TIMER c) TASK_ID_NONE p
      | In_Lock pc \<Rightarrow> lock_waiting c k t pc
      | In_Sem pc \<Rightarrow> sem_waiting c k t pc
      | _ \<Rightarrow> pi_is_runnable (k_sched k) t)"

definition threads_ok :: "config \<Rightarrow> (pi_sched, 'z) ppc_kernel_scheme \<Rightarrow> (u8 \<Rightarrow> kochab_thread) \<Rightarrow> bool" where
  "threads_ok c k threads \<longleftrightarrow> (\<forall>t. unat t < tasks_length c \<longrightarrow> kochab_thread_ok c k t (threads t))"

text \<open>
  Between steps, interrupts are enabled, and preemption is unless the current task is in the kernel. The
  current task is runnable, and as long as no preemption is pending, no event or tick is, and it is the one that the
  scheduler picks.
\<close>

definition kochab_inv :: "config \<Rightarrow> nat \<Rightarrow> 'z kochab_state \<Rightarrow> bool" where
  "kochab_inv c nev = (\<lambda>(k, threads). kochab_ok c nev k \<and> threads_ok c k threads \<and> k_interrupts_enabled k \<and>
     threads (k_current_task k) \<noteq> Leaving \<and> pi_is_runnable (k_sched k) (k_current_task k) \<and>
     k_preempt_disabled k = (threads (k_current_task k) \<noteq> Running) \<and>
     (k_preempt_pending k \<longrightarrow> k_preempt_disabled k) \<and>
     (k_preempt_pending k \<or> k_interrupt_event k = 0 \<and> k_timer_pending_ticks k = 0 \<and> pi_picks (k_sched k) (k_current_task k)))"

text \<open>How the state may change for a task that is not running.\<close>

definition kochab_stays :: "config \<Rightarrow> (pi_sched, 'z) ppc_kernel_scheme \<Rightarrow> (pi_sched, 'z) ppc_kernel_scheme \<Rightarrow> u8 \<Rightarrow> bool" where
  "kochab_stays c k k' t \<longleftrightarrow> length (k_mutexes k') = length (k_mutexes k) \<and> length (k_semaphores k') = length (k_semaphores k) \<and>
     (\<forall>m. unat m < length (k_mutexes k) \<longrightarrow> (holder_of k' m = t \<longleftrightarrow> holder_of k m = t)) \<and>
     (pi_is_runnable (k_sched k') t \<or>
      \<not> pi_is_runnable (k_sched k) t \<and> pending_of k' t = pending_of k t \<and> pi_next (k_sched k') t = pi_next (k_sched k) t) \<and>
     (pending_of k' t AND SIGNAL_ID__TASK_TIMER c \<noteq> 0 \<or>
      pending_of k t AND SIGNAL_ID__TASK_TIMER c = 0 \<and> waiting_for k' t = waiting_for k t \<and>
        sem_waiting_for k' t = sem_waiting_for k t \<and>
        (\<forall>m. unat m < length (k_mutexes k) \<longrightarrow> waiting_for k t = m \<longrightarrow> holder_of k m \<noteq> TASK_ID_NONE \<longrightarrow>
          holder_of k' m = holder_of k m))"

lemma kochab_stays_refl [simp]: "kochab_stays c k k t"
  by (simp add: kochab_stays_def)

lemma kochab_staysI:
  assumes "length (k_mutexes k') = length (k_mutexes k)" and "length (k_semaphores k') = length (k_semaphores k)"
    and "\<And>m. unat m < length (k_mutexes k) \<Longrightarrow> holder_of k' m = t \<longleftrightarrow> holder_of k m = t"
    and "pi_is_runnable (k_sched k') t \<or>
      \<not> pi_is_runnable (k_sched k) t \<and> pending_of k' t = pending_of k t \<and> pi_next (k_sched k') t = pi_next (k_sched k) t"
    and "pending_of k t AND pending_of k' t = pending_of k t" and "waiting_for k' t = waiting_for k t"
    and "sem_waiting_for k' t = sem_waiting_for k t"
    and "\<And>m. unat m < length (k_mutexes k) \<Longrightarrow> waiting_for k t = m \<Longrightarrow> holder_of k m \<noteq> TASK_ID_NONE \<Longrightarrow> holder_of k' m = holder_of k m"
  shows "kochab_stays c k k' t"
proof -
  have "pending_of k t AND SIGNAL_ID__TASK_TIMER c = 0" if "pending_of k' t AND SIGNAL_ID__TASK_TIMER c = 0"
    using that assms(5) by (metis and.assoc and_zero_eq)
  then show ?thesis using assms by (auto simp: kochab_stays_def)
qed

lemma kochab_stays_trans: "kochab_stays c k k1 t \<Longrightarrow> kochab_stays c k1 k2 t \<Longrightarrow> kochab_stays c k k2 t"
  unfolding kochab_stays_def by (intro conjI allI impI; (simp; fail | metis))

lemma sig_waiting_stays: "sig_waiting k t r b p \<Longrightarrow> kochab_stays c k k' t \<Longrightarrow> sig_waiting k' t r b p"
  by (auto simp: sig_waiting_def kochab_stays_def)

lemma kochab_thread_ok_stays:
  assumes "kochab_thread_ok c k t thread" and stays: "kochab_stays c k k' t"
  shows "kochab_thread_ok c k' t thread"
proof (cases thread)
  case (In_Lock pc)
  then obtain m p b where pc: "lock_point pc = Some (m, p)" "unat m < length (k_mutexes k)"
    "sig_waiting k t (SIGNAL_ID__TASK_TIMER c) b p" "holds_below k t m"
    "p = Sig_Yielded t (SIGNAL_ID__TASK_TIMER c) \<or> pending_of k t AND SIGNAL_ID__TASK_TIMER c \<noteq> 0 \<or>
      waiting_for k t = m \<and> holder_of k m = b \<and> b \<noteq> TASK_ID_NONE"
    using assms(1) by (auto simp: kochab_thread_ok_def lock_waiting_def)
  have "holds_below k' t m" using pc(4) stays by (simp add: holds_below_def kochab_stays_def)
  moreover have "p = Sig_Yielded t (SIGNAL_ID__TASK_TIMER c) \<or> pending_of k' t AND SIGNAL_ID__TASK_TIMER c \<noteq> 0 \<or>
      waiting_for k' t = m \<and> holder_of k' m = b \<and> b \<noteq> TASK_ID_NONE"
    using pc(2,5) stays by (auto simp: kochab_stays_def)
  moreover have "unat m < length (k_mutexes k')" using pc(2) stays by (simp add: kochab_stays_def)
  ultimately show ?thesis
    using In_Lock pc(1) sig_waiting_stays [OF pc(3) stays] by (auto simp: kochab_thread_ok_def lock_waiting_def)
next
  case (In_Sem pc)
  then obtain s p where pc: "sem_point pc = (s, p)" "unat s < length (k_semaphores k)"
    "sig_waiting k t (SIGNAL_ID__TASK_TIMER c) TASK_ID_NONE p"
    "p = Sig_Yielded t (SIGNAL_ID__TASK_TIMER c) \<or> pending_of k t AND SIGNAL_ID__TASK_TIMER c \<noteq> 0 \<or> sem_waiting_for k t = s"
    using assms(1) by (auto simp: kochab_thread_ok_def sem_waiting_def)
  moreover have "p = Sig_Yielded t (SIGNAL_ID__TASK_TIMER c) \<or> pending_of k' t AND SIGNAL_ID__TASK_TIMER c \<noteq> 0 \<or>
      sem_waiting_for k' t = s"
    using pc(4) stays by (auto simp: kochab_stays_def)
  moreover have "unat s < length (k_semaphores k')" using pc(2) stays by (simp add: kochab_stays_def)
  ultimately show ?thesis
    using In_Sem sig_waiting_stays [OF pc(3) stays] by (auto simp: kochab_thread_ok_def sem_waiting_def)
next
  case (In_Wait p)
  then show ?thesis using assms(1) by (auto simp: kochab_thread_ok_def dest: sig_waiting_stays [OF _ stays])
next
  case (In_Sleep p)
  then show ?thesis using assms(1) by (auto simp: kochab_thread_ok_def dest: sig_waiting_stays [OF _ stays])
qed (use assms in \<open>auto simp: kochab_thread_ok_def kochab_stays_def\<close>)


lemma threads_ok_update:
  assumes "\<And>t. unat t < tasks_length c \<Longrightarrow> t \<noteq> me \<Longrightarrow> kochab_stays c k k' t"
    and "threads_ok c k threads" and "kochab_thread_ok c k' me thread"
  shows "threads_ok c k' (threads(me := thread))"
  using assms kochab_thread_ok_stays [of c k _ _ k'] by (auto simp: threads_ok_def)

lemma threads_ok_stays:
  assumes "\<And>t. unat t < tasks_length c \<Longrightarrow> kochab_stays c k k' t" and "threads_ok c k threads"
  shows "threads_ok c k' threads"
  using assms kochab_thread_ok_stays [of c k _ _ k'] by (auto simp: threads_ok_def)

section \<open>Frames\<close>

lemmas kochab_ok_unfold = kochab_ok_def kochab_events.system_ok_def event_kernel_inv_def timer_kernel_inv_def
  kernel_inv_def current_ok_def preempt_ok_def signals_ok_def timers_ok_def handlers_ok_def mutexes_ok_def semaphores_ok_def
  sem_waiters_inv_def sem_waiting_for_def value_of_def holder_of_def

lemma kochab_ok_flags [simp]:
  "kochab_ok c nev (k\<lparr>k_preempt_disabled := b\<rparr>) = kochab_ok c nev k"
  "kochab_ok c nev (k\<lparr>k_preempt_pending := b\<rparr>) = kochab_ok c nev k"
  "kochab_ok c nev (k\<lparr>k_interrupts_enabled := b\<rparr>) = kochab_ok c nev k"
  by (simp_all add: kochab_ok_unfold)

lemma kochab_ok_enter [simp]:
  "kochab_ok c nev (enter c' k) = kochab_ok c nev k" "kochab_ok c nev (leave c' k) = kochab_ok c nev k"
  "kochab_ok c nev (pend c' k) = kochab_ok c nev k"
  by (simp_all add: enter_def leave_def pend_def)

lemma kochab_ok_current: "kochab_ok c nev k \<Longrightarrow> unat t < tasks_length c \<Longrightarrow> kochab_ok c nev (k\<lparr>k_current_task := t\<rparr>)"
  by (simp add: kochab_ok_unfold)

lemma kochab_ok_event: "kochab_ok c nev k \<Longrightarrow> events_below nev e \<Longrightarrow> kochab_ok c nev (k\<lparr>k_interrupt_event := k_interrupt_event k OR e\<rparr>)"
  by (auto simp: kochab_ok_unfold events_below_def bit_or_iff)

lemma kochab_ok_ticks: "kochab_ok c nev k \<Longrightarrow> n \<le> 1 \<Longrightarrow> kochab_ok c nev (k\<lparr>k_timer_pending_ticks := n\<rparr>)"
  by (simp add: kochab_ok_unfold)

lemma kochab_ok_sched:
  "kochab_ok c nev k \<Longrightarrow> pi_inv s \<Longrightarrow> pi_ntasks s = tasks_length c \<Longrightarrow> kochab_ok c nev (k\<lparr>k_sched := s\<rparr>)"
  by (simp add: kochab_ok_unfold)

lemma kochab_ok_pending [simp]: "kochab_ok c nev (set_pending t p k) = kochab_ok c nev k"
  by (simp add: kochab_ok_unfold set_pending_def)

lemma kochab_ok_waiter [simp]: "kochab_ok c nev (set_waiter t m k) = kochab_ok c nev k"
  by (simp add: kochab_ok_unfold set_waiter_def)

lemma kochab_ok_holder:
  assumes ok: "kochab_ok c nev k" and m: "unat m < length (k_mutexes k)" and t: "t = TASK_ID_NONE \<or> unat t < tasks_length c"
  shows "kochab_ok c nev (set_holder m t k)"
proof -
  have "kochab_events.system_ok c nev ((set_holder m t k)\<lparr>k_preempt_disabled := True\<rparr>)" "semaphores_ok c (set_holder m t k)"
    "sem_waiters_inv c (set_holder m t k)"
    using ok by (simp_all add: kochab_ok_unfold set_holder_def)
  then show ?thesis
    using ok m t holder_of_set [OF m, of t] by (auto simp: kochab_ok_def mutexes_ok_def set_holder_def)
qed

lemma kochab_okD:
  assumes "kochab_ok c nev k"
  shows "kernel_inv (preemptive c) pi_inv pi_ntasks k" "signals_ok (preemptive c) k" "mutexes_ok (preemptive c) k"
    "semaphores_ok (preemptive c) k" "sem_waiters_inv (preemptive c) k" "current_ok (preemptive c) k"
    "unat (k_current_task k) < tasks_length c" "length (k_signal_tasks k) = tasks_length c"
    "pi_inv (k_sched k)" "pi_ntasks (k_sched k) = tasks_length c" "k_current_task k \<noteq> TASK_ID_NONE"
    "length (k_mutex_waiters k) = tasks_length c" "length (k_sem_waiters k) = tasks_length c"
    "SIGNAL_ID__TASK_TIMER c \<noteq> 0" "tasks_length c \<le> 255"
proof -
  show 1: "kernel_inv (preemptive c) pi_inv pi_ntasks k" "signals_ok (preemptive c) k" "mutexes_ok (preemptive c) k"
    "semaphores_ok (preemptive c) k" "sem_waiters_inv (preemptive c) k"
    using assms by (simp_all add: kochab_ok_unfold)
  then show 2: "current_ok (preemptive c) k" "unat (k_current_task k) < tasks_length c" "length (k_signal_tasks k) = tasks_length c"
    "pi_inv (k_sched k)" "pi_ntasks (k_sched k) = tasks_length c" "length (k_mutex_waiters k) = tasks_length c"
    "length (k_sem_waiters k) = tasks_length c"
    by (simp_all add: kernel_inv_def current_ok_def signals_ok_def mutexes_ok_def semaphores_ok_def)
  show 3: "tasks_length c \<le> 255" using pi_ntasks_bound [OF 2(4)] 2(5) by simp
  show "k_current_task k \<noteq> TASK_ID_NONE" using 2(2) 3 by (auto simp: TASK_ID_NONE_def)
  show "SIGNAL_ID__TASK_TIMER c \<noteq> 0" using assms by (simp add: kochab_ok_def)
qed

lemma kochab_ok_timer:
  assumes "kochab_ok c nev k" and "unat i < length (k_timers k)"
    and "tm_error_id (f (k_timers k ! unat i)) = tm_error_id (k_timers k ! unat i)"
    and "tm_task_id (f (k_timers k ! unat i)) = tm_task_id (k_timers k ! unat i)"
  shows "kochab_ok c nev (k\<lparr>k_timers := (k_timers k)[unat i := f (k_timers k ! unat i)]\<rparr>)"
proof -
  let ?tms = "(k_timers k)[unat i := f (k_timers k ! unat i)]"
  have "tm \<in> set (k_timers k) \<or> tm = f (k_timers k ! unat i)" if "tm \<in> set ?tms" for tm
    using that set_update_subset_insert [of "k_timers k"] by auto
  moreover have "k_timers k ! unat i \<in> set (k_timers k)" using assms(2) by simp
  ultimately have "\<forall>tm \<in> set ?tms. \<exists>tm' \<in> set (k_timers k). tm_error_id tm = tm_error_id tm' \<and> tm_task_id tm = tm_task_id tm'"
    using assms(3,4) by metis
  then show ?thesis using assms(1) by (simp add: kochab_ok_unfold) metis
qed

text \<open>Making a task runnable, as by a signal, is harmless for every task.\<close>

lemma pi_next_ready: "pi_next (pi_set t t s) u = t \<and> u = t \<or> pi_next (pi_set t t s) u = pi_next s u"
  by (cases "unat t < pi_ntasks s") (auto simp: pi_next_set, simp_all add: pi_set_def pi_next_def pi_ntasks_def list_update_beyond)

lemma pi_next_readies: "pi_next (fold (\<lambda>t. pi_set t t) ts s) u = u \<or> pi_next (fold (\<lambda>t. pi_set t t) ts s) u = pi_next s u"
proof (induction ts arbitrary: s)
  case (Cons t ts)
  then show ?case using pi_next_ready [of t s u] by (metis fold_simps(2))
qed simp

section \<open>Blocking\<close>

lemma holds_belowD: "holds_below k t m \<Longrightarrow> unat n < length (k_mutexes k) \<Longrightarrow> m \<le> n \<Longrightarrow> holder_of k n \<noteq> t"
  unfolding holds_below_def using leD by blast

text \<open>A task that is not runnable waits for an event, or for a mutex after all those that it holds.\<close>

lemma blocked_thread:
  assumes "kochab_thread_ok c k t thread" and "\<not> pi_is_runnable (k_sched k) t"
  shows "pi_next (k_sched k) t = TASK_ID_NONE \<or>
    (\<exists>m. unat m < length (k_mutexes k) \<and> holds_below k t m \<and> holder_of k m = pi_next (k_sched k) t)"
  using assms by (cases thread) (auto simp: kochab_thread_ok_def sig_waiting_def lock_waiting_def sem_waiting_def)

text \<open>
  So the chain that starts at the holder of a mutex passes only tasks that hold that mutex or later ones.
  It does not come to a task that holds only earlier ones.
\<close>

lemma lock_order_path:
  assumes threads: "\<And>t. unat t < tasks_length c \<Longrightarrow> t \<noteq> me \<Longrightarrow> kochab_thread_ok c k t (threads t)"
    and n: "pi_ntasks (k_sched k) = tasks_length c" and me: "holds_below k me m"
  shows "pi_path (k_sched k) t p \<Longrightarrow> unat l < length (k_mutexes k) \<Longrightarrow> m \<le> l \<Longrightarrow> holder_of k l = t \<Longrightarrow> me \<notin> set p"
proof (induction arbitrary: l rule: pi_path.induct)
  case (pi_path_end t)
  then show ?case using holds_belowD [OF me, of l] by auto
next
  case (pi_path_step t p)
  have t: "t \<noteq> me" using holds_belowD [OF me, of l] pi_path_step.prems by auto
  have "kochab_thread_ok c k t (threads t)" using threads t pi_path_step.hyps(1) n by simp
  moreover have "\<not> pi_is_runnable (k_sched k) t" using pi_path_step.hyps(2) by (simp add: pi_is_runnable_def)
  ultimately obtain l' where l': "unat l' < length (k_mutexes k)" "holds_below k t l'" "holder_of k l' = pi_next (k_sched k) t"
    using blocked_thread [of c k t "threads t"] pi_path_step.hyps(3) by auto
  have "l < l'" using l'(2) pi_path_step.prems(1,3) by (simp add: holds_below_def)
  then have "me \<notin> set p" using pi_path_step.IH [OF l'(1) _ l'(3)] pi_path_step.prems(2) by simp
  then show ?case using t by simp
qed

definition may_block_on :: "(pi_sched, 'z) ppc_kernel_scheme \<Rightarrow> u8 \<Rightarrow> bool" where
  "may_block_on k b \<longleftrightarrow> b = TASK_ID_NONE \<or> (\<exists>q. pi_path (k_sched k) b q \<and> k_current_task k \<notin> set q)"

lemma may_block_on_holder:
  fixes k :: "(pi_sched, 'z) ppc_kernel_scheme"
  assumes ok: "kochab_ok c nev k"
    and threads: "\<And>t. unat t < tasks_length c \<Longrightarrow> t \<noteq> k_current_task k \<Longrightarrow> kochab_thread_ok c k t (threads t)"
    and m: "unat m < length (k_mutexes k)" "holds_below k (k_current_task k) m" "holder_of k m \<noteq> TASK_ID_NONE"
  shows "may_block_on k (holder_of k m)"
proof -
  have "unat (holder_of k m) < tasks_length c" using ok m(1,3) by (auto simp: kochab_ok_def)
  then obtain q where "pi_path (k_sched k) (holder_of k m) q"
    using kochab_okD(9,10) [OF ok] by (auto simp: pi_inv_def)
  then show ?thesis
    using lock_order_path [OF threads kochab_okD(10) [OF ok] m(2) _ m(1)] by (auto simp: may_block_on_def)
qed

lemma pi_path_start: "pi_path s t p \<Longrightarrow> t \<in> set p \<and> unat t < pi_ntasks s"
  by (cases rule: pi_path.cases) auto

lemma kochab_blocked:
  fixes k :: "(pi_sched, 'z) ppc_kernel_scheme"
  assumes ok: "kochab_ok c nev k" and b: "may_block_on k b"
  defines "k' \<equiv> k\<lparr>k_sched := pi_set (k_current_task k) b (k_sched k)\<rparr>"
  shows "kochab_ok c nev k'" and "pi_next (k_sched k') (k_current_task k) = b"
    and "unat t < tasks_length c \<Longrightarrow> t \<noteq> k_current_task k \<Longrightarrow> kochab_stays c k k' t"
proof -
  let ?me = "k_current_task k"
  note k = kochab_okD [OF ok]
  have me: "unat ?me < pi_ntasks (k_sched k)" using k by simp
  have inv: "pi_inv (pi_set ?me b (k_sched k))"
    by (rule pi_inv_set [OF k(9) me]) (use b in \<open>auto simp: may_block_on_def\<close>)
  then show "kochab_ok c nev k'"
    unfolding k'_def by (intro kochab_ok_sched [OF ok]) (use k in \<open>simp_all add: pi_next_set\<close>)
  show "pi_next (k_sched k') ?me = b" using me by (simp add: k'_def pi_next_set)
  show "kochab_stays c k k' t" if "unat t < tasks_length c" "t \<noteq> ?me"
    using that me by (intro kochab_staysI) (simp_all add: k'_def pi_next_set pi_is_runnable_def waiting_for_def sem_waiting_for_def)
qed

text \<open>The parts of the calls that wait change only the scheduler's state, or only the caller's signals.\<close>

lemma kochab_waits:
  fixes k :: "(pi_sched, 'z) ppc_kernel_scheme"
  assumes ok: "kochab_ok c nev k" and run: "pi_is_runnable (k_sched k) (k_current_task k)"
    and disabled: "k_preempt_disabled k" and b: "may_block_on k b"
  shows "\<exists>p s. signal_wait_set_blocked_on (preemptive c) (kochab_block_on (preemptive c)) r b k = Inr (p, k\<lparr>k_sched := s\<rparr>) \<and>
    kochab_ok c nev (k\<lparr>k_sched := s\<rparr>) \<and>
    (\<forall>t. unat t < tasks_length c \<longrightarrow> t \<noteq> k_current_task k \<longrightarrow> kochab_stays c k (k\<lparr>k_sched := s\<rparr>) t) \<and>
    sig_waiting (k\<lparr>k_sched := s\<rparr>) (k_current_task k) r b p"
proof -
  let ?me = "k_current_task k" and ?block = "kochab_block_on (preemptive c)"
  note k = kochab_okD [OF ok]
  have pre: "preempt_ok (preemptive c) k" using disabled by (simp add: preempt_ok_def)
  show ?thesis
  proof (cases "pending_of k ?me AND r = 0")
    case False
    then have "signal_wait_set_blocked_on (preemptive c) ?block r b k = Inr (Sig_Yielded ?me r, k\<lparr>k_sched := k_sched k\<rparr>)"
      using signal_wait_pending [OF pre k(6,2)] by simp
    moreover have "sig_waiting (k\<lparr>k_sched := k_sched k\<rparr>) ?me r b (Sig_Yielded ?me r)" using run by (simp add: sig_waiting_def)
    moreover have "kochab_ok c nev (k\<lparr>k_sched := k_sched k\<rparr>)" using ok by simp
    moreover have "\<forall>t. kochab_stays c k (k\<lparr>k_sched := k_sched k\<rparr>) t" by simp
    ultimately show ?thesis by blast
  next
    case True
    let ?s = "pi_set ?me b (k_sched k)"
    have "?block b k = Inr ((), k\<lparr>k_sched := ?s\<rparr>)" by (rule kochab_block_on_run [OF k(1) pre])
    then have "signal_wait_set_blocked_on (preemptive c) ?block r b k = Inr (Sig_Blocked ?me r b, k\<lparr>k_sched := ?s\<rparr>)"
      by (rule signal_wait_blocks [OF pre k(6,2) True])
    moreover have "sig_waiting (k\<lparr>k_sched := ?s\<rparr>) ?me r b (Sig_Blocked ?me r b)"
      using True kochab_blocked(2) [OF ok b] by (simp add: sig_waiting_def)
    ultimately show ?thesis using kochab_blocked [OF ok b] by blast
  qed
qed

lemma kochab_stays_pending:
  assumes "kochab_ok c nev k" and "t \<noteq> u" and "unat u < tasks_length c"
  shows "kochab_stays c k (set_pending u p k) t"
  using assms kochab_okD(8) [OF assms(1)]
  by (intro kochab_staysI) (simp_all add: pending_of_set, simp_all add: set_pending_def sem_waiting_for_def pi_is_runnable_def)

lemma kochab_wait_resumes:
  fixes k :: "(pi_sched, 'z) ppc_kernel_scheme"
  assumes ok: "kochab_ok c nev k" and run: "pi_is_runnable (k_sched k) (k_current_task k)"
    and disabled: "k_preempt_disabled k" and p: "sig_waiting k (k_current_task k) r b p"
    and b: "p = Sig_Blocked (k_current_task k) r b \<Longrightarrow> pending_of k (k_current_task k) AND r = 0 \<Longrightarrow> may_block_on k b"
  shows "\<exists>res k'. signal_wait_resume (preemptive c) (kochab_block_on (preemptive c)) p k = Inr (res, k') \<and>
    (case res of
      Suspended q \<Rightarrow> q = p \<and> p = Sig_Blocked (k_current_task k) r b \<and> pending_of k (k_current_task k) AND r = 0 \<and>
        (\<exists>s. k' = k\<lparr>k_sched := s\<rparr>) \<and> kochab_ok c nev k' \<and>
        (\<forall>t. unat t < tasks_length c \<longrightarrow> t \<noteq> k_current_task k \<longrightarrow> kochab_stays c k k' t) \<and>
        sig_waiting k' (k_current_task k) r b p
    | Finished _ \<Rightarrow> k' = set_pending (k_current_task k) (pending_of k (k_current_task k) AND NOT r) k)"
proof -
  let ?me = "k_current_task k" and ?block = "kochab_block_on (preemptive c)"
  note k = kochab_okD [OF ok]
  have pre: "preempt_ok (preemptive c) k" using disabled by (simp add: preempt_ok_def)
  have len: "unat ?me < length (k_signal_tasks k)" using k by simp
  consider (yielded) "p = Sig_Yielded ?me r" | (woken) "p = Sig_Blocked ?me r b" "pending_of k ?me AND r \<noteq> 0"
    | (again) "p = Sig_Blocked ?me r b" "pending_of k ?me AND r = 0"
    using p by (auto simp: sig_waiting_def)
  then show ?thesis
  proof cases
    case yielded
    then show ?thesis using signal_wait_resume_yielded [OF pre len, of ?block r] by simp
  next
    case woken
    then show ?thesis using signal_wait_resume_finishes [OF pre len, of r ?block b] by simp
  next
    case again
    let ?k = "k\<lparr>k_sched := pi_set ?me b (k_sched k)\<rparr>"
    have "?block b k = Inr ((), ?k)" by (rule kochab_block_on_run [OF k(1) pre])
    then have "signal_wait_resume (preemptive c) ?block p k = Inr (Suspended p, ?k)"
      unfolding again(1) by (rule signal_wait_resume_blocks_again [OF pre len again(2)])
    moreover have "sig_waiting ?k ?me r b p"
      using again kochab_blocked(2) [OF ok b [OF again]] by (simp add: sig_waiting_def)
    moreover have "\<exists>s. ?k = k\<lparr>k_sched := s\<rparr>" by blast
    ultimately show ?thesis using kochab_blocked [OF ok b [OF again]] again by (intro exI [of _ "Suspended p"] exI [of _ ?k]) simp
  qed
qed

end
