(* ===== verification/Kochab_Calls.thy ===== *)
theory Kochab_Calls
  imports Kochab_System
begin

text \<open>
  Each call of a task of a Kochab system, and each continuation of a call, ends without an error and keeps what
  the invariant says of all tasks.
\<close>

section \<open>Every call and every continuation succeeds\<close>

text \<open>
  What a call or its continuation leads to. When it ends, either preemption is pending or the scheduler's
  state is as it was.
\<close>

definition kochab_result ::
  "config \<Rightarrow> nat \<Rightarrow> (pi_sched, 'z) ppc_kernel_scheme \<Rightarrow> kochab_thread \<Rightarrow> (pi_sched, 'z) ppc_kernel_scheme \<Rightarrow> bool"
where
  "kochab_result c nev k thread k' \<longleftrightarrow> kochab_ok c nev k' \<and>
     (\<forall>t. unat t < tasks_length c \<longrightarrow> t \<noteq> k_current_task k \<longrightarrow> kochab_stays c k k' t) \<and>
     kochab_thread_ok c k' (k_current_task k) thread \<and> k_current_task k' = k_current_task k \<and>
     k_preempt_disabled k' = (thread \<noteq> Running) \<and> thread \<noteq> Leaving \<and> thread \<noteq> Starting \<and>
     k_interrupts_enabled k' = k_interrupts_enabled k \<and> k_interrupt_event k' = k_interrupt_event k \<and>
     k_timer_pending_ticks k' = k_timer_pending_ticks k \<and>
     (if thread = Running
      then k_preempt_pending k' \<or> k_preempt_pending k' = k_preempt_pending k \<and> k_sched k' = k_sched k else True)"

lemma kochab_waits_result:
  fixes k k1 :: "(pi_sched, 'z) ppc_kernel_scheme"
  assumes ok: "kochab_ok c nev k1" and run: "pi_is_runnable (k_sched k1) (k_current_task k)"
    and disabled: "k_preempt_disabled k1" and b: "may_block_on k1 b"
    and same: "k_current_task k1 = k_current_task k" "k_interrupts_enabled k1 = k_interrupts_enabled k"
      "k_interrupt_event k1 = k_interrupt_event k" "k_timer_pending_ticks k1 = k_timer_pending_ticks k"
    and others: "\<And>t. unat t < tasks_length c \<Longrightarrow> t \<noteq> k_current_task k \<Longrightarrow> kochab_stays c k k1 t"
    and f: "\<And>p s. sig_waiting (k1\<lparr>k_sched := s\<rparr>) (k_current_task k) r b p \<Longrightarrow>
      kochab_thread_ok c (k1\<lparr>k_sched := s\<rparr>) (k_current_task k) (f p) \<and> f p \<noteq> Running \<and> f p \<noteq> Leaving \<and> f p \<noteq> Starting"
  shows "\<exists>p k'. signal_wait_set_blocked_on (preemptive c) (kochab_block_on (preemptive c)) r b k1 = Inr (p, k') \<and>
    kochab_result c nev k (f p) k'"
proof -
  obtain p s where p: "signal_wait_set_blocked_on (preemptive c) (kochab_block_on (preemptive c)) r b k1 = Inr (p, k1\<lparr>k_sched := s\<rparr>)"
    "kochab_ok c nev (k1\<lparr>k_sched := s\<rparr>)"
    "\<forall>t. unat t < tasks_length c \<longrightarrow> t \<noteq> k_current_task k1 \<longrightarrow> kochab_stays c k1 (k1\<lparr>k_sched := s\<rparr>) t"
    "sig_waiting (k1\<lparr>k_sched := s\<rparr>) (k_current_task k) r b p"
    using kochab_waits [OF ok _ disabled b, of r] run same(1) by auto
  have "kochab_stays c k (k1\<lparr>k_sched := s\<rparr>) t" if "unat t < tasks_length c" "t \<noteq> k_current_task k" for t
    using kochab_stays_trans [OF others [OF that]] p(3) that same(1) by simp
  then have "kochab_result c nev k (f p) (k1\<lparr>k_sched := s\<rparr>)"
    using f [OF p(4)] p(2) disabled same by (simp add: kochab_result_def)
  then show ?thesis using p(1) by blast
qed

text \<open>A call that ends without having woken a task.\<close>

lemma kochab_result_ends:
  assumes "kochab_ok c nev k'" and "\<And>t. unat t < tasks_length c \<Longrightarrow> t \<noteq> k_current_task k \<Longrightarrow> kochab_stays c k k' t"
    and "pi_is_runnable (k_sched k) (k_current_task k)"
    and "k_current_task k' = k_current_task k" "\<not> k_preempt_disabled k'" "k_interrupts_enabled k' = k_interrupts_enabled k"
      "k_interrupt_event k' = k_interrupt_event k" "k_timer_pending_ticks k' = k_timer_pending_ticks k"
      "k_preempt_pending k' = k_preempt_pending k" "k_sched k' = k_sched k"
  shows "kochab_result c nev k Running k'"
  using assms by (simp add: kochab_result_def kochab_thread_ok_def)

lemma kochab_takes:
  fixes k :: "(pi_sched, 'z) ppc_kernel_scheme"
  assumes ok: "kochab_ok c nev k" and run: "pi_is_runnable (k_sched k) (k_current_task k)"
    and m: "unat m < length (k_mutexes k)" and free: "holder_of k m = TASK_ID_NONE"
  shows "kochab_result c nev k Running (leave (preemptive c) (set_holder m (k_current_task k) k))"
proof -
  note k = kochab_okD [OF ok]
  have none: "t \<noteq> TASK_ID_NONE" if "unat t < tasks_length c" for t using that k(15) by (auto simp: TASK_ID_NONE_def)
  show ?thesis
  proof (rule kochab_result_ends)
    show "kochab_ok c nev (leave (preemptive c) (set_holder m (k_current_task k) k))"
      using kochab_ok_holder [OF ok m] k(7) by simp
    show "kochab_stays c k (leave (preemptive c) (set_holder m (k_current_task k) k)) t"
      if "unat t < tasks_length c" "t \<noteq> k_current_task k" for t
      using that none [OF that(1)] free
      by (intro kochab_staysI) (auto simp: holder_of_set [OF m], auto simp: set_holder_def sem_waiting_for_def pi_is_runnable_def)
  qed (use run in \<open>simp_all add: set_holder_def leave_def\<close>)
qed

definition others_ok :: "config \<Rightarrow> (pi_sched, 'z) ppc_kernel_scheme \<Rightarrow> (u8 \<Rightarrow> kochab_thread) \<Rightarrow> bool" where
  "others_ok c k threads \<longleftrightarrow> (\<forall>t. unat t < tasks_length c \<longrightarrow> t \<noteq> k_current_task k \<longrightarrow> kochab_thread_ok c k t (threads t))"

lemma kochab_stays_waiter:
  assumes "kochab_ok c nev k" and "t \<noteq> u" and "unat u < tasks_length c"
  shows "kochab_stays c k (set_waiter u m k) t"
  using assms kochab_okD(12) [OF assms(1)]
  by (intro kochab_staysI) (simp_all add: waiting_for_set, simp_all add: set_waiter_def sem_waiting_for_def pi_is_runnable_def)

text \<open>
  Waiting for a mutex, in a state \<open>k1\<close> in which the task is registered for it; \<open>f\<close> makes the point in the
  call.
\<close>

lemma kochab_lock_waits:
  fixes k k1 :: "(pi_sched, 'z) ppc_kernel_scheme" and f :: "signal_pc \<Rightarrow> mutex_pc"
  defines "me \<equiv> k_current_task k"
  assumes ok: "kochab_ok c nev k1" and run: "pi_is_runnable (k_sched k1) me" and disabled: "k_preempt_disabled k1"
    and threads: "others_ok c k threads" and m: "unat m < length (k_mutexes k)" "holds_below k me m"
    and held: "holder_of k m \<noteq> TASK_ID_NONE"
    and same: "k_current_task k1 = me" "k_interrupts_enabled k1 = k_interrupts_enabled k"
      "k_interrupt_event k1 = k_interrupt_event k" "k_timer_pending_ticks k1 = k_timer_pending_ticks k" "k_mutexes k1 = k_mutexes k"
    and others: "\<And>t. unat t < tasks_length c \<Longrightarrow> t \<noteq> me \<Longrightarrow> kochab_stays c k k1 t"
    and reg: "waiting_for k1 me = m" and f: "\<And>p. lock_point (f p) = Some (m, p)"
  shows "\<exists>p k'. kochab_mutex_core_block_on (preemptive c) (holder_of k m) k1 = Inr (p, k') \<and>
    kochab_result c nev k (In_Lock (f p)) k'"
proof -
  let ?h = "holder_of k m"
  have frame: "holder_of k1 = holder_of k" "holds_below k1 t m = holds_below k t m" for t
    using same(5) by (simp_all add: holder_of_def holds_below_def fun_eq_iff)
  have threads1: "kochab_thread_ok c k1 t (threads t)" if "unat t < tasks_length c" "t \<noteq> k_current_task k1" for t
    using kochab_thread_ok_stays [OF _ others] threads that same(1) by (simp add: others_ok_def me_def)
  have "may_block_on k1 (holder_of k1 m)"
    by (rule may_block_on_holder [OF ok threads1]) (use m held same frame in simp_all)
  then have b: "may_block_on k1 ?h" by (simp add: frame)
  have "\<exists>p k'. signal_wait_set_blocked_on (preemptive c) (kochab_block_on (preemptive c)) (SIGNAL_ID__TASK_TIMER c) ?h k1 = Inr (p, k') \<and>
    kochab_result c nev k (In_Lock (f p)) k'"
  proof (rule kochab_waits_result)
    fix p and s :: pi_sched
    assume p: "sig_waiting (k1\<lparr>k_sched := s\<rparr>) (k_current_task k) (SIGNAL_ID__TASK_TIMER c) ?h p"
    have "lock_waiting c (k1\<lparr>k_sched := s\<rparr>) me (f p)"
      unfolding lock_waiting_def using p m held f reg frame same(5)
      by (intro exI [of _ m] exI [of _ p] exI [of _ ?h]) (simp add: holds_below_def me_def)
    then show "kochab_thread_ok c (k1\<lparr>k_sched := s\<rparr>) (k_current_task k) (In_Lock (f p)) \<and>
        In_Lock (f p) \<noteq> Running \<and> In_Lock (f p) \<noteq> Leaving \<and> In_Lock (f p) \<noteq> Starting"
      by (simp add: kochab_thread_ok_def me_def)
  qed (use ok run disabled b same others in \<open>simp_all add: me_def\<close>)
  then show ?thesis by (simp add: kochab_mutex_core_block_on_def)
qed

lemma kochab_lock_attempt:
  fixes k :: "(pi_sched, 'z) ppc_kernel_scheme"
  assumes ok: "kochab_ok c nev k" and run: "pi_is_runnable (k_sched k) (k_current_task k)" and disabled: "k_preempt_disabled k"
    and threads: "others_ok c k threads" and m: "unat m < length (k_mutexes k)" "holds_below k (k_current_task k) m"
  shows "\<exists>res k'. mutex_lock_attempt (preemptive c) (kochab_mc c) m contended start k = Inr (res, k') \<and>
    kochab_result c nev k (kochab_thread_of In_Lock res) k'"
proof (cases "holder_of k m = TASK_ID_NONE")
  case True
  let ?k = "leave (preemptive c) (set_holder m (k_current_task k) k)"
  have "preempt_ok (preemptive c) k" using disabled by (simp add: preempt_ok_def)
  then have "mutex_lock_attempt (preemptive c) (kochab_mc c) m contended start k = Inr (Finished True, ?k)"
    using True mutex_try_lock_eq [OF kochab_okD(6) [OF ok] _ m(1), of "kochab_mc c"]
    by (simp add: mutex_lock_attempt_def mutex_lock_done_def kbind_def kreturn_def)
  then show ?thesis using kochab_takes [OF ok run m(1) True] by (auto simp: kochab_thread_of_def)
next
  case False
  let ?me = "k_current_task k"
  note k = kochab_okD [OF ok]
  have "\<exists>p k'. kochab_mutex_core_block_on (preemptive c) (holder_of k m) (set_waiter ?me m k) = Inr (p, k') \<and>
      kochab_result c nev k (In_Lock (Mutex_Locking m True start p)) k'"
    by (rule kochab_lock_waits [where threads = threads])
      (use ok run disabled threads m False kochab_stays_waiter [OF ok _ k(7)] waiting_for_set [of ?me k m ?me] k(7,12)
        in \<open>simp_all, simp_all add: set_waiter_def\<close>)
  then obtain p k' where p: "mutex_core_block_on (kochab_mc c) (holder_of k m) (set_waiter ?me m k) = Inr (p, k')"
    "kochab_result c nev k (In_Lock (Mutex_Locking m True start p)) k'" by auto
  have "mutex_lock_attempt (preemptive c) (kochab_mc c) m contended start k = Inr (Suspended (Mutex_Locking m True start p), k')"
    by (intro mutex_lock_attempt_blocks k m False) (use p(1) disabled in \<open>simp_all add: preempt_ok_def\<close>)
  then show ?thesis using p(2) by (auto simp: kochab_thread_of_def)
qed

abbreviation kochab_scc :: "config \<Rightarrow> (pi_sched, 'z) sem_kernel_scheme sem_core" where
  "kochab_scc c \<equiv> kochab_sem_core (preemptive c) (semaphore_enable_max c)"

lemma kochab_ok_value:
  assumes ok: "kochab_ok c nev k" and s: "unat s < length (k_semaphores k)" "value_of k s \<noteq> 0"
  shows "kochab_ok c nev (set_value s (value_of k s - 1) k)"
proof -
  have "kochab_events.system_ok c nev ((set_value s (value_of k s - 1) k)\<lparr>k_preempt_disabled := True\<rparr>)"
    "mutexes_ok c (set_value s (value_of k s - 1) k)" "semaphores_ok c (set_value s (value_of k s - 1) k)"
    using ok by (simp_all add: kochab_ok_unfold set_value_def)
  moreover have "holder_of (set_value s (value_of k s - 1) k) = holder_of k" by (simp add: set_value_def holder_of_def fun_eq_iff)
  ultimately show ?thesis
    using ok sem_waiters_inv_take [OF _ s] by (simp add: kochab_ok_def) (simp add: set_value_def)
qed

lemma kochab_takes_unit:
  fixes k :: "(pi_sched, 'z) ppc_kernel_scheme"
  assumes ok: "kochab_ok c nev k" and run: "pi_is_runnable (k_sched k) (k_current_task k)"
    and s: "unat s < length (k_semaphores k)" "value_of k s \<noteq> 0"
  shows "kochab_result c nev k Running (set_value s (value_of k s - 1) (leave (preemptive c) k))"
proof -
  let ?k = "set_value s (value_of k s - 1) (leave (preemptive c) k)"
  have "kochab_ok c nev ?k"
    using kochab_ok_value [of c nev "leave (preemptive c) k" s] ok s by simp
  moreover have "kochab_stays c k ?k t" for t
    by (intro kochab_staysI) (simp_all add: set_value_def leave_def pending_of_def waiting_for_def sem_waiting_for_def holder_of_def pi_is_runnable_def)
  ultimately show ?thesis using run by (intro kochab_result_ends) (simp_all add: set_value_def leave_def)
qed

lemma kochab_max_set:
  fixes k :: "(pi_sched, 'z) ppc_kernel_scheme"
  assumes ok: "kochab_ok c nev k" and run: "pi_is_runnable (k_sched k) (k_current_task k)" and enabled: "\<not> k_preempt_disabled k"
  shows "kochab_result c nev k Running (set_max s v k)"
proof (rule kochab_result_ends)
  have "kochab_events.system_ok c nev ((set_max s v k)\<lparr>k_preempt_disabled := True\<rparr>)"
    "mutexes_ok c (set_max s v k)" "semaphores_ok c (set_max s v k)"
    using ok by (simp_all add: kochab_ok_unfold set_max_def)
  moreover have "holder_of (set_max s v k) = holder_of k" by (simp add: set_max_def holder_of_def fun_eq_iff)
  moreover have "sem_waiters_inv c (set_max s v k)" using ok by (simp add: kochab_ok_def sem_waiters_inv_def sem_waiting_for_def)
  ultimately show "kochab_ok c nev (set_max s v k)"
    using ok by (simp add: kochab_ok_def) (simp add: set_max_def)
  show "kochab_stays c k (set_max s v k) t" for t
    by (intro kochab_staysI) (simp_all add: set_max_def pending_of_def waiting_for_def sem_waiting_for_def holder_of_def pi_is_runnable_def)
qed (use run enabled in \<open>simp_all add: set_max_def\<close>)

text \<open>Waiting for a semaphore, in a state \<open>k1\<close> in which the task is registered for it.\<close>

lemma kochab_sem_waits:
  fixes k k1 :: "(pi_sched, 'z) ppc_kernel_scheme" and f :: "signal_pc \<Rightarrow> sem_pc"
  defines "me \<equiv> k_current_task k"
  assumes ok: "kochab_ok c nev k1" and run: "pi_is_runnable (k_sched k1) me" and disabled: "k_preempt_disabled k1"
    and s: "unat s < length (k_semaphores k1)"
    and same: "k_current_task k1 = me" "k_interrupts_enabled k1 = k_interrupts_enabled k"
      "k_interrupt_event k1 = k_interrupt_event k" "k_timer_pending_ticks k1 = k_timer_pending_ticks k"
    and others: "\<And>t. unat t < tasks_length c \<Longrightarrow> t \<noteq> me \<Longrightarrow> kochab_stays c k k1 t"
    and reg: "sem_waiting_for k1 me = s" and f: "\<And>p. sem_point (f p) = (s, p)"
  shows "\<exists>p k'. kochab_sem_core_block (preemptive c) k1 = Inr (p, k') \<and> kochab_result c nev k (In_Sem (f p)) k'"
proof -
  have "\<exists>p k'. signal_wait_set_blocked_on (preemptive c) (kochab_block_on (preemptive c)) (SIGNAL_ID__TASK_TIMER c) TASK_ID_NONE k1 =
      Inr (p, k') \<and> kochab_result c nev k (In_Sem (f p)) k'"
  proof (rule kochab_waits_result)
    fix p and s' :: pi_sched
    assume p: "sig_waiting (k1\<lparr>k_sched := s'\<rparr>) (k_current_task k) (SIGNAL_ID__TASK_TIMER c) TASK_ID_NONE p"
    have "sem_waiting c (k1\<lparr>k_sched := s'\<rparr>) me (f p)"
      unfolding sem_waiting_def using p s reg f by (intro exI [of _ s] exI [of _ p]) (simp add: sem_waiting_for_def me_def)
    then show "kochab_thread_ok c (k1\<lparr>k_sched := s'\<rparr>) (k_current_task k) (In_Sem (f p)) \<and>
        In_Sem (f p) \<noteq> Running \<and> In_Sem (f p) \<noteq> Leaving \<and> In_Sem (f p) \<noteq> Starting"
      by (simp add: kochab_thread_ok_def me_def)
  qed (use ok run disabled same others in \<open>simp_all add: me_def may_block_on_def\<close>)
  then show ?thesis by (simp add: kochab_sem_core_block_def)
qed

lemma kochab_sem_registered:
  fixes k :: "(pi_sched, 'z) ppc_kernel_scheme"
  assumes ok: "kochab_ok c nev k" and zero: "value_of k s = 0"
  defines "me \<equiv> k_current_task k"
  defines "k1 \<equiv> k\<lparr>k_sem_waiters := (k_sem_waiters k)[unat me := s]\<rparr>"
  shows "kochab_ok c nev k1" and "sem_waiting_for k1 me = s" and "t \<noteq> me \<Longrightarrow> kochab_stays c k k1 t"
proof -
  note k = kochab_okD [OF ok]
  have inv: "sem_waiters_inv c k1"
    using sem_waiters_inv_register [OF _ zero, of c me] k(4,5,7) by (simp add: k1_def me_def sem_waiters_inv_def semaphores_ok_def)
  have "kochab_events.system_ok c nev (k1\<lparr>k_preempt_disabled := True\<rparr>)" "mutexes_ok c k1" "semaphores_ok c k1"
    using ok by (simp_all add: k1_def kochab_ok_unfold)
  then show "kochab_ok c nev k1" using ok inv by (simp add: kochab_ok_def holder_of_def k1_def)
  have reg: "sem_waiting_for k1 t = (if t = me then s else sem_waiting_for k t)" for t
    using k(7,13) by (simp add: k1_def me_def sem_waiting_for_def word_nth_update)
  then show "sem_waiting_for k1 me = s" by simp
  show "kochab_stays c k k1 t" if "t \<noteq> me"
    using that by (intro kochab_staysI) (simp_all add: reg, simp_all add: k1_def holder_of_def waiting_for_def pending_of_def pi_is_runnable_def)
qed

lemma kochab_sem_attempt:
  fixes k :: "(pi_sched, 'z) ppc_kernel_scheme"
  assumes ok: "kochab_ok c nev k" and run: "pi_is_runnable (k_sched k) (k_current_task k)" and disabled: "k_preempt_disabled k"
    and s: "unat s < length (k_semaphores k)"
  shows "\<exists>res k'. sem_wait_attempt (preemptive c) (kochab_scc c) s k = Inr (res, k') \<and>
    kochab_result c nev k (kochab_thread_of In_Sem res) k'"
proof (cases "value_of k s = 0")
  case False
  have "preempt_ok (preemptive c) k" using disabled by (simp add: preempt_ok_def)
  from sem_wait_attempt_takes [OF this s False, of "kochab_scc c"] show ?thesis
    using kochab_takes_unit [OF ok run s False] by (auto simp: kochab_thread_of_def)
next
  case True
  let ?k1 = "k\<lparr>k_sem_waiters := (k_sem_waiters k)[unat (k_current_task k) := s]\<rparr>"
  note k = kochab_okD [OF ok]
  have "\<exists>p k'. kochab_sem_core_block (preemptive c) ?k1 = Inr (p, k') \<and> kochab_result c nev k (In_Sem (Sem_Waiting s p)) k'"
    by (rule kochab_sem_waits) (use run disabled s kochab_sem_registered [OF ok True] in simp_all)
  then obtain p k' where p: "sem_core_block (kochab_scc c) ?k1 = Inr (p, k')" "kochab_result c nev k (In_Sem (Sem_Waiting s p)) k'"
    by (auto simp: kochab_sem_core_def)
  have "sem_wait_attempt (preemptive c) (kochab_scc c) s k = Inr (Suspended (Sem_Waiting s p), k')"
    by (intro sem_wait_attempt_blocks k s True) (use p(1) disabled in \<open>simp_all add: preempt_ok_def\<close>)
  then show ?thesis using p(2) by (auto simp: kochab_thread_of_def)
qed

text \<open>Calls that wake tasks.\<close>

lemma kochab_sends:
  fixes k :: "(pi_sched, 'z) ppc_kernel_scheme"
  assumes ok: "kochab_ok c nev k" and run: "pi_is_runnable (k_sched k) (k_current_task k)" and t: "unat t < tasks_length c"
  shows "\<exists>k'. rtos_signal_send_set (preemptive c) (kochab_unblock (preemptive c)) t signals k = Inr ((), k') \<and>
    kochab_result c nev k Running k'"
proof -
  note k = kochab_okD [OF ok]
  let ?k = "leave (preemptive c) (pend (preemptive c)
      ((set_pending t (pending_of k t OR signals) (enter (preemptive c) k))\<lparr>k_sched := pi_set t t (k_sched k)\<rparr>))"
  have t': "unat t < pi_ntasks (k_sched k)" using t k(10) by simp
  have "rtos_signal_send_set (preemptive c) (kochab_unblock (preemptive c)) t signals k = Inr ((), ?k)"
    using kochab.rtos_signal_send_set_cases [OF k(1,2), of t signals] t by simp
  moreover have "kochab_ok c nev ?k"
    using kochab_ok_sched [of c nev "set_pending t (pending_of k t OR signals) (enter (preemptive c) k)" "pi_set t t (k_sched k)"]
      ok pi_update_laws(3) [OF k(9) t'] k(10) by simp
  moreover have "kochab_stays c k ?k u" if "unat u < tasks_length c" for u
  proof (rule kochab_staysI)
    show "pi_is_runnable (k_sched ?k) u \<or>
        \<not> pi_is_runnable (k_sched k) u \<and> pending_of ?k u = pending_of k u \<and> pi_next (k_sched ?k) u = pi_next (k_sched k) u"
      using that t t' k(8) by (auto simp: pi_is_runnable_def pi_next_set pending_of_set)
    show "pending_of k u AND pending_of ?k u = pending_of k u"
      using t k(8) by (simp add: pending_of_set word_ao_absorbs)
  qed (simp_all add: sem_waiting_for_def)
  moreover have "pi_is_runnable (k_sched ?k) (k_current_task k)"
    using run t' by (simp add: pi_is_runnable_def pi_next_set)
  ultimately show ?thesis
    by (intro exI [of _ ?k]) (simp add: kochab_result_def kochab_thread_ok_def, simp add: leave_def pend_def enter_def set_pending_def)
qed

lemma more_frame:
  "mutex_kernel.more k' = mutex_kernel.more k \<Longrightarrow> k_semaphores k' = k_semaphores k \<and> k_sem_waiters k' = k_sem_waiters k \<and>
     k_interrupts_enabled k' = k_interrupts_enabled k"
  "sem_kernel.more k' = sem_kernel.more k \<Longrightarrow> k_interrupts_enabled k' = k_interrupts_enabled k"
  for k k' :: "('s, 'z) ppc_kernel_scheme"
  by (cases k; cases k'; simp)+

lemma readied_links:
  assumes "readied c (\<lambda>t. pi_set t t) k k'"
  shows "pi_next (k_sched k') t = t \<or> pi_next (k_sched k') t = pi_next (k_sched k) t"
    and "preemption_support c \<Longrightarrow> k_preempt_pending k' \<or> k_preempt_pending k' = k_preempt_pending k \<and> k_sched k' = k_sched k"
proof -
  obtain ts where ts: "k_sched k' = fold (\<lambda>t. pi_set t t) ts (k_sched k)"
    "if ts = [] then k_preempt_pending k' = k_preempt_pending k else preemption_support c \<longrightarrow> k_preempt_pending k'"
    using assms by (auto simp: readied_def)
  show "pi_next (k_sched k') t = t \<or> pi_next (k_sched k') t = pi_next (k_sched k) t"
    unfolding ts(1) by (rule pi_next_readies)
  show "preemption_support c \<Longrightarrow> k_preempt_pending k' \<or> k_preempt_pending k' = k_preempt_pending k \<and> k_sched k' = k_sched k"
    using ts by (cases "ts = []") simp_all
qed

text \<open>Waking the tasks that \<open>woken\<close> says, with their wake-up signal.\<close>

lemma kochab_stays_woken:
  fixes k k' :: "(pi_sched, 'z) ppc_kernel_scheme"
  assumes tt: "SIGNAL_ID__TASK_TIMER c \<noteq> 0"
    and same: "length (k_mutexes k') = length (k_mutexes k)" "length (k_semaphores k') = length (k_semaphores k)"
    and holders: "\<And>m. unat m < length (k_mutexes k) \<Longrightarrow> holder_of k' m = t \<longleftrightarrow> holder_of k m = t"
    and pending: "pending_of k' t = (if woken then pending_of k t OR SIGNAL_ID__TASK_TIMER c else pending_of k t)"
    and runnable: "pi_is_runnable (k_sched k') t = (pi_is_runnable (k_sched k) t \<or> woken)"
    and links: "pi_next (k_sched k') t = t \<or> pi_next (k_sched k') t = pi_next (k_sched k) t"
    and waiting: "\<not> woken \<Longrightarrow> waiting_for k' t = waiting_for k t" "\<not> woken \<Longrightarrow> sem_waiting_for k' t = sem_waiting_for k t"
      "\<And>m. unat m < length (k_mutexes k) \<Longrightarrow> \<not> woken \<Longrightarrow> waiting_for k t = m \<Longrightarrow> holder_of k m \<noteq> TASK_ID_NONE \<Longrightarrow> holder_of k' m = holder_of k m"
  shows "kochab_stays c k k' t"
proof (cases woken)
  case True
  then have "pending_of k' t AND SIGNAL_ID__TASK_TIMER c \<noteq> 0"
    using pending tt by (simp add: word_ao_dist or_eq_0_iff)
  then show ?thesis using same holders runnable True by (simp add: kochab_stays_def)
next
  case False
  show ?thesis
    by (rule kochab_staysI) (use False same holders pending runnable links waiting in \<open>auto simp: pi_is_runnable_def\<close>)
qed

lemma kochab_unlocks:
  fixes k :: "(pi_sched, 'z) ppc_kernel_scheme"
  assumes ok: "kochab_ok c nev k" and run: "pi_is_runnable (k_sched k) (k_current_task k)"
    and m: "unat m < length (k_mutexes k)" and owner: "holder_of k m = k_current_task k"
  shows "\<exists>k'. rtos_mutex_unlock (preemptive c) (kochab_mc c) m k = Inr ((), k') \<and> kochab_result c nev k Running k' \<and>
    outside_mutexes_eq k k' \<and>
    (\<forall>t. unat t < tasks_length c \<longrightarrow> waiting_for k t = m \<longrightarrow>
       pi_is_runnable (k_sched k') t \<and> pending_of k' t AND SIGNAL_ID__TASK_TIMER c \<noteq> 0)"
proof -
  let ?c = "preemptive c"
  note k = kochab_okD [OF ok]
  have len: "length (k_mutexes k) \<le> 255" "tasks_length ?c \<le> 255" using k by (auto simp: mutexes_ok_def)
  have w: "kochab_mutex.mutex_waiters.waiters_ok c (enter ?c k)"
    using k by (simp add: kochab_mutex.mutex_waiters.waiters_ok_def mutexes_ok_def)
  have core: "kwhen (mutex_prio_ceiling (kochab_mc c)) (mutex_core_unlocked (kochab_mc c) m) (enter ?c k) = Inr ((), enter ?c k)"
    by (simp add: kwhen_def kreturn_def)
  obtain k2 where k2: "rtos_mutex_unlock ?c (kochab_mc c) m k = Inr ((), k2)" "kernel_inv ?c pi_inv pi_ntasks k2"
    "signals_ok ?c k2" "holder_of k2 m = TASK_ID_NONE" "\<forall>n. n \<noteq> m \<longrightarrow> holder_of k2 n = holder_of k n"
    "\<forall>t. unat t < tasks_length c \<longrightarrow> waiting_for k2 t = (if waiting_for k t = m then MUTEX_ID_NONE else waiting_for k t)"
    "\<forall>t. unat t < tasks_length c \<longrightarrow> pending_of k2 t = (if waiting_for k t = m then pending_of k t OR SIGNAL_ID__TASK_TIMER c else pending_of k t)"
    "\<forall>t. unat t < tasks_length c \<longrightarrow> pi_is_runnable (k_sched k2) t = (pi_is_runnable (k_sched k) t \<or> waiting_for k t = m)"
    "k_current_task k2 = k_current_task k" "\<not> k_preempt_disabled k2" "length (k_mutexes k2) = length (k_mutexes k)" "outside_mutexes_eq k k2"
    "mutex_kernel.more k2 = mutex_kernel.more k" "readied ?c (\<lambda>t. pi_set t t) (enter ?c k) k2"
    using kochab_mutex.rtos_mutex_unlock_from [of c k m False "enter ?c k"] k(6) m owner core w len
    by (simp cong: if_cong) (elim exE conjE, rule that, assumption+)
  note more = more_frame(1) [OF k2(13)]
  have "kochab_events.system_ok c nev (k2\<lparr>k_preempt_disabled := True\<rparr>)" "semaphores_ok c k2" "sem_waiters_inv c k2"
    using ok k2(2,3,12) more by (simp_all add: kochab_ok_unfold outside_mutexes_eq_def)
  moreover have "holder_of k2 n = TASK_ID_NONE \<or> unat (holder_of k2 n) < tasks_length c" if "unat n < length (k_mutexes k2)" for n
    using k2(4,5,11) ok that by (cases "n = m") (simp_all add: kochab_ok_def)
  ultimately have "kochab_ok c nev k2"
    using ok k2(11,12) by (simp add: kochab_ok_def outside_mutexes_eq_def mutexes_ok_def)
  moreover have "kochab_stays c k k2 t" if t: "unat t < tasks_length c" "t \<noteq> k_current_task k" for t
  proof (rule kochab_stays_woken [where woken = "waiting_for k t = m"])
    have "t \<noteq> TASK_ID_NONE" using t(1) k(15) by (auto simp: TASK_ID_NONE_def)
    then show "holder_of k2 n = t \<longleftrightarrow> holder_of k n = t" for n
      using k2(4,5) owner t(2) by (cases "n = m") auto
    show "pi_next (k_sched k2) t = t \<or> pi_next (k_sched k2) t = pi_next (k_sched k) t"
      using readied_links(1) [OF k2(14), of t] by simp
  qed (use k2(5-8,11) t more k(14) in \<open>auto simp: sem_waiting_for_def\<close>)
  moreover have "k_preempt_pending k2 \<or> k_preempt_pending k2 = k_preempt_pending k \<and> k_sched k2 = k_sched k"
    using readied_links(2) [OF k2(14)] by simp
  ultimately have "kochab_result c nev k Running k2"
    using k2(8-10,12) run k(7) more by (simp add: kochab_result_def kochab_thread_ok_def outside_mutexes_eq_def)
  moreover have "pi_is_runnable (k_sched k2) t \<and> pending_of k2 t AND SIGNAL_ID__TASK_TIMER c \<noteq> 0"
    if "unat t < tasks_length c" "waiting_for k t = m" for t
    using that k2(7,8) k(14) by (simp add: word_ao_dist or_eq_0_iff)
  ultimately show ?thesis using k2(1,12) by blast
qed

lemma kochab_posts:
  fixes k :: "(pi_sched, 'z) ppc_kernel_scheme"
  assumes ok: "kochab_ok c nev k" and run: "pi_is_runnable (k_sched k) (k_current_task k)" 
    and s: "unat s < length (k_semaphores k)" and max: "semaphore_enable_max c \<longrightarrow> max_of k s \<noteq> 0 \<and> value_of k s < max_of k s"
  shows "\<exists>k'. rtos_sem_post (preemptive c) (kochab_scc c) s k = Inr ((), k') \<and> kochab_result c nev k Running k'"
proof -
  let ?c = "preemptive c"
  note k = kochab_okD [OF ok]
  have len: "tasks_length ?c \<le> 255" using k(15) by simp
  have max: "sem_enable_max (kochab_scc c) \<longrightarrow> max_of k s \<noteq> 0 \<and> value_of k s < max_of k s" using max by simp
  obtain k2 where k2: "rtos_sem_post ?c (kochab_scc c) s k = Inr ((), k2)" "kernel_inv ?c pi_inv pi_ntasks k2"
    "signals_ok ?c k2" "semaphores_ok ?c k2" "sem_waiters_inv ?c k2"
    "\<forall>t. unat t < tasks_length c \<longrightarrow> sem_waiting_for k2 t = (if sem_waiting_for k t = s then SEM_ID_NONE else sem_waiting_for k t)"
    "\<forall>t. unat t < tasks_length c \<longrightarrow> pending_of k2 t = (if sem_waiting_for k t = s then pending_of k t OR SIGNAL_ID__TASK_TIMER c else pending_of k t)"
    "\<forall>t. unat t < tasks_length c \<longrightarrow> pi_is_runnable (k_sched k2) t = (pi_is_runnable (k_sched k) t \<or> sem_waiting_for k t = s)"
    "length (k_semaphores k2) = length (k_semaphores k)" "sem_outside_eq k k2" "readied ?c (\<lambda>t. pi_set t t) k k2"
    "\<not> k_preempt_disabled k2"
    using kochab_sem.rtos_sem_post_eq [OF k(1,2) s k(4) len k(5) max]
    by (simp cong: if_cong) (elim exE conjE, rule that, assumption+)
  have same: "k_current_task k2 = k_current_task k" "k_mutexes k2 = k_mutexes k" "k_mutex_waiters k2 = k_mutex_waiters k"
    "k_interrupt_event k2 = k_interrupt_event k" "k_timer_pending_ticks k2 = k_timer_pending_ticks k"
    "k_interrupts_enabled k2 = k_interrupts_enabled k"
    using k2(10) more_frame(2) [of k2 k] by (simp_all add: sem_outside_eq_def)
  have "kochab_events.system_ok c nev (k2\<lparr>k_preempt_disabled := True\<rparr>)" "mutexes_ok c k2"
    using ok k2(2,3,10) by (simp_all add: kochab_ok_unfold sem_outside_eq_def)
  then have "kochab_ok c nev k2"
    using ok k2(4,5,10) same by (simp add: kochab_ok_def holder_of_def semaphores_ok_def sem_waiters_inv_def sem_outside_eq_def)
  moreover have "kochab_stays c k k2 t" if t: "unat t < tasks_length c" for t
  proof (rule kochab_stays_woken [where woken = "sem_waiting_for k t = s"])
    show "pi_next (k_sched k2) t = t \<or> pi_next (k_sched k2) t = pi_next (k_sched k) t" by (rule readied_links(1) [OF k2(11)])
  qed (use k2(6-9) t same k(14) in \<open>auto simp: holder_of_def waiting_for_def\<close>)
  moreover have "k_preempt_pending k2 \<or> k_preempt_pending k2 = k_preempt_pending k \<and> k_sched k2 = k_sched k"
    using readied_links(2) [OF k2(11)] by simp
  ultimately have "kochab_result c nev k Running k2"
    using k2(8,12) same run k(7) by (simp add: kochab_result_def kochab_thread_ok_def)
  then show ?thesis using k2(1) by blast
qed

text \<open>
  Changing a timer in the middle of a call. A timer that is armed with no time to wait fires at once, and
  its signal may wake a task.
\<close>

definition timer_changed ::
  "config \<Rightarrow> nat \<Rightarrow> (pi_sched, 'z) ppc_kernel_scheme \<Rightarrow> (pi_sched, 'z) ppc_kernel_scheme \<Rightarrow> bool"
where
  "timer_changed c nev k k' \<longleftrightarrow> kochab_ok c nev k' \<and> (\<forall>t. unat t < tasks_length c \<longrightarrow> kochab_stays c k k' t) \<and>
     (pi_is_runnable (k_sched k) (k_current_task k) \<longrightarrow> pi_is_runnable (k_sched k') (k_current_task k)) \<and>
     k_current_task k' = k_current_task k \<and> k_preempt_disabled k' = k_preempt_disabled k \<and>
     k_interrupts_enabled k' = k_interrupts_enabled k \<and> k_interrupt_event k' = k_interrupt_event k \<and>
     k_timer_pending_ticks k' = k_timer_pending_ticks k \<and> k_timer_current_ticks k' = k_timer_current_ticks k \<and>
     k_task_timers k' = k_task_timers k \<and> length (k_timers k') = length (k_timers k) \<and>
     k_mutexes k' = k_mutexes k \<and> k_mutex_waiters k' = k_mutex_waiters k \<and> k_semaphores k' = k_semaphores k \<and>
     k_sem_waiters k' = k_sem_waiters k \<and>
     (k_preempt_pending k' \<or> k_preempt_pending k' = k_preempt_pending k \<and> k_sched k' = k_sched k)"

lemma timer_changed_trans: "timer_changed c nev k k1 \<Longrightarrow> timer_changed c nev k1 k2 \<Longrightarrow> timer_changed c nev k k2"
  unfolding timer_changed_def by (elim conjE, intro conjI) (auto dest: kochab_stays_trans)

lemma kochab_stays_timers: "kochab_stays c k (k\<lparr>k_timers := tms\<rparr>) t"
  by (simp add: kochab_stays_def waiting_for_def sem_waiting_for_def holder_of_def pending_of_def)

lemma timer_changed_set:
  assumes ok: "kochab_ok c nev k" and i: "unat i < length (k_timers k)"
    and f: "tm_error_id (f (k_timers k ! unat i)) = ERROR_ID_NONE" "unat (tm_task_id (f (k_timers k ! unat i))) < tasks_length c"
  shows "timer_changed c nev k (k\<lparr>k_timers := (k_timers k)[unat i := f (k_timers k ! unat i)]\<rparr>)"
proof -
  let ?k = "k\<lparr>k_timers := (k_timers k)[unat i := f (k_timers k ! unat i)]\<rparr>"
  have "set (k_timers ?k) \<subseteq> insert (f (k_timers k ! unat i)) (set (k_timers k))"
    using set_update_subset_insert [of "k_timers k"] by simp
  then have "kochab_events.system_ok c nev (?k\<lparr>k_preempt_disabled := True\<rparr>)"
    using ok f by (auto simp: kochab_ok_unfold)
  then have "kochab_ok c nev ?k"
    using ok by (simp add: kochab_ok_def mutexes_ok_def semaphores_ok_def sem_waiters_inv_def sem_waiting_for_def value_of_def holder_of_def)
  then show ?thesis by (simp add: timer_changed_def kochab_stays_timers)
qed

lemma timer_changed_fires:
  fixes k :: "(pi_sched, 'z) ppc_kernel_scheme"
  assumes ok: "kochab_ok c nev k" and i: "unat i < length (k_timers k)"
  shows "timer_changed c nev k (timer_fired (preemptive c) (\<lambda>t. pi_set t t) i k)"
proof -
  let ?tm = "k_timers k ! unat i"
  let ?t = "tm_task_id ?tm" and ?s = "tm_signal_set ?tm"
  let ?f = "\<lambda>tm. (timer_advance tm)\<lparr>tm_overflow := pending_of k ?t AND ?s = ?s \<or> tm_overflow tm\<rparr>"
  let ?k1 = "k\<lparr>k_timers := (k_timers k)[unat i := ?f ?tm]\<rparr>"
  let ?k2 = "pend (preemptive c) ((set_pending ?t (pending_of ?k1 ?t OR ?s) ?k1)\<lparr>k_sched := pi_set ?t ?t (k_sched ?k1)\<rparr>)"
  note k = kochab_okD [OF ok]
  have tm: "tm_error_id ?tm = ERROR_ID_NONE" "unat ?t < tasks_length c"
    using ok i by (auto simp: kochab_ok_unfold)
  have set: "timer_changed c nev k ?k1" by (rule timer_changed_set [OF ok i, where f = ?f]) (use tm in simp_all)
  then have ok1: "kochab_ok c nev ?k1" by (simp add: timer_changed_def)
  have t': "unat ?t < pi_ntasks (k_sched k)" using tm(2) k(10) by simp
  have "kochab_ok c nev ?k2"
    using kochab_ok_sched [of c nev "set_pending ?t (pending_of ?k1 ?t OR ?s) ?k1" "pi_set ?t ?t (k_sched k)"]
      ok1 pi_update_laws(3) [OF k(9) t'] k(10) by simp
  moreover have "kochab_stays c ?k1 ?k2 u" if "unat u < tasks_length c" for u
  proof (rule kochab_staysI)
    show "pi_is_runnable (k_sched ?k2) u \<or>
        \<not> pi_is_runnable (k_sched ?k1) u \<and> pending_of ?k2 u = pending_of ?k1 u \<and> pi_next (k_sched ?k2) u = pi_next (k_sched ?k1) u"
      using that tm(2) t' k(8) by (auto simp: pi_is_runnable_def pi_next_set pending_of_set)
    show "pending_of ?k1 u AND pending_of ?k2 u = pending_of ?k1 u"
      using tm(2) k(8) by (simp add: pending_of_set word_ao_absorbs)
  qed (simp_all add: sem_waiting_for_def)
  moreover have "pi_is_runnable (k_sched k) (k_current_task k) \<longrightarrow> pi_is_runnable (k_sched ?k2) (k_current_task k)"
    using t' by (simp add: pi_is_runnable_def pi_next_set)
  ultimately have "timer_changed c nev ?k1 ?k2"
    by (simp add: timer_changed_def) (simp add: pend_def set_pending_def)
  then have "timer_changed c nev k ?k2" using set by (blast intro: timer_changed_trans)
  moreover have "timer_fired (preemptive c) (\<lambda>t. pi_set t t) i k = ?k2" by (simp add: timer_fired_def Let_def)
  ultimately show ?thesis by simp
qed

lemma kochab_timer_inv: "kochab_ok c nev k \<Longrightarrow> k_preempt_disabled k \<Longrightarrow> timer_kernel_inv (preemptive c) pi_inv pi_ntasks k"
  by (simp add: kochab_ok_unfold)

lemma kochab_enables_timer:
  fixes k :: "(pi_sched, 'z) ppc_kernel_scheme"
  assumes ok: "kochab_ok c nev k" and disabled: "k_preempt_disabled k" and i: "unat i < length (k_timers k)"
  shows "\<exists>k'. timer_enable (preemptive c) (kochab_unblock (preemptive c)) i k = Inr ((), k') \<and> timer_changed c nev k k'"
proof (cases "tm_reload (k_timers k ! unat i) = 0")
  case True
  have "tm_error_id (k_timers k ! unat i) = ERROR_ID_NONE" using ok i by (simp add: kochab_ok_unfold)
  then have "timer_enable (preemptive c) (kochab_unblock (preemptive c)) i k =
      Inr ((), timer_fired (preemptive c) (\<lambda>t. pi_set t t) i k)"
    using kochab_events.timer_enable_zero [OF kochab_timer_inv [OF ok disabled] i True] by simp
  then show ?thesis using timer_changed_fires [OF ok i] by blast
next
  case False
  let ?f = "\<lambda>tm. tm\<lparr>tm_expiry := current_timeout k + tm_reload (k_timers k ! unat i), tm_enabled := True\<rparr>"
  have tm: "tm_error_id (k_timers k ! unat i) = ERROR_ID_NONE" "unat (tm_task_id (k_timers k ! unat i)) < tasks_length c"
    using ok i by (auto simp: kochab_ok_unfold)
  have "timer_changed c nev k (k\<lparr>k_timers := (k_timers k)[unat i := ?f (k_timers k ! unat i)]\<rparr>)"
    by (rule timer_changed_set [OF ok i]) (use tm in simp_all)
  then show ?thesis
    using kochab_events.timer_enable_eq [OF kochab_timer_inv [OF ok disabled] i False] by simp
qed

lemma kochab_arms_timer:
  fixes k :: "(pi_sched, 'z) ppc_kernel_scheme"
  assumes ok: "kochab_ok c nev k" and disabled: "k_preempt_disabled k" and i: "unat i < length (k_timers k)"
  shows "\<exists>k'. timer_oneshot (preemptive c) (kochab_unblock (preemptive c)) i timeout k = Inr ((), k') \<and> timer_changed c nev k k'"
proof -
  let ?set = "\<lambda>d k. k\<lparr>k_timers := (k_timers k)[unat i := (k_timers k ! unat i)\<lparr>tm_reload := d\<rparr>]\<rparr>"
  have reload: "timer_changed c nev k (?set d k)" if "kochab_ok c nev k" "unat i < length (k_timers k)" for d
    and k :: "(pi_sched, 'z) ppc_kernel_scheme"
    by (rule timer_changed_set [OF that]) (use that in \<open>auto simp: kochab_ok_unfold\<close>)
  have c1: "timer_changed c nev k (?set timeout k)" by (rule reload [OF ok i])
  then obtain k2 where k2: "timer_enable (preemptive c) (kochab_unblock (preemptive c)) i (?set timeout k) = Inr ((), k2)"
    "timer_changed c nev (?set timeout k) k2"
    using kochab_enables_timer [of c nev "?set timeout k" i] disabled i by (auto simp: timer_changed_def)
  have c2: "timer_changed c nev k k2" by (rule timer_changed_trans [OF c1 k2(2)])
  then have k2': "kochab_ok c nev k2" "unat i < length (k_timers k2)" "k_preempt_disabled k2"
    using i disabled by (simp_all add: timer_changed_def)
  have "timer_changed c nev k (?set 0 k2)" by (rule timer_changed_trans [OF c2 reload [OF k2'(1,2)]])
  moreover have "timer_oneshot (preemptive c) (kochab_unblock (preemptive c)) i timeout k = Inr ((), ?set 0 k2)"
    using k2(1) k2'(2,3) i disabled
    by (simp add: timer_oneshot_def timer_reload_set_def kbind_def kreturn_def preempt_ok_def)
  ultimately show ?thesis by blast
qed

lemma enter_frame:
  fixes k :: "(pi_sched, 'z) ppc_kernel_scheme"
  shows "k_interrupts_enabled (enter c k) = k_interrupts_enabled k" "k_timer_pending_ticks (enter c k) = k_timer_pending_ticks k"
    "k_preempt_disabled (enter (preemptive c) k)"
    "k_interrupts_enabled (leave c k) = k_interrupts_enabled k" "k_timer_pending_ticks (leave c k) = k_timer_pending_ticks k"
    "\<not> k_preempt_disabled (leave (preemptive c) k)" "k_preempt_pending (leave c k) = k_preempt_pending k"
  by (simp_all add: enter_def leave_def)

lemma kochab_stays_enter [simp]: "kochab_stays c k (enter c' k') t = kochab_stays c k k' t"
  "kochab_stays c k (leave c' k') t = kochab_stays c k k' t" "kochab_stays c (enter c' k) k' t = kochab_stays c k k' t"
  by (simp_all add: kochab_stays_def)

lemma holds_below_frame [simp]: "holds_below (enter c k) t m = holds_below k t m"
  by (simp add: holds_below_def)

lemma kochab_result_enter: "kochab_result c nev (enter c' k) thread k' \<Longrightarrow> kochab_result c nev k thread k'"
  by (auto simp: kochab_result_def enter_frame split: if_splits)

lemma others_ok_enter: "others_ok c k threads \<Longrightarrow> others_ok c (enter c' k) threads"
  using kochab_thread_ok_stays [of c k _ _ "enter c' k"] by (simp add: others_ok_def)

lemma timer_changed_result:
  assumes "timer_changed c nev k k'" and "\<And>t. unat t < tasks_length c \<Longrightarrow> t \<noteq> me \<Longrightarrow> kochab_stays c k0 k t"
    and "unat t < tasks_length c" and "t \<noteq> me"
  shows "kochab_stays c k0 k' t"
  using assms kochab_stays_trans [of c k0 k t k'] by (simp add: timer_changed_def)

lemma assert_timer_valid_run:
  "unat i < length (k_timers k) \<Longrightarrow> assert_timer_valid c i k = Inr ((), k)"
  by (simp add: assert_timer_valid_def kbind_def kgets_def)

lemma timer_changed_ends:
  fixes k :: "(pi_sched, 'z) ppc_kernel_scheme"
  assumes changed: "timer_changed c nev (enter (preemptive c) k) k'" and run: "pi_is_runnable (k_sched k) (k_current_task k)"
  shows "kochab_result c nev k Running (leave (preemptive c) k')" and "preempt_ok (preemptive c) k'"
proof -
  have "kochab_result c nev (enter (preemptive c) k) Running (leave (preemptive c) k')"
    using assms by (simp add: timer_changed_def kochab_result_def kochab_thread_ok_def enter_frame)
  then show "kochab_result c nev k Running (leave (preemptive c) k')" by (rule kochab_result_enter)
  show "preempt_ok (preemptive c) k'" using changed by (simp add: timer_changed_def preempt_ok_def enter_def)
qed

text \<open>Waiting with a timeout: the timer of the task is armed first.\<close>

lemma kochab_lock_timeout_attempt:
  fixes k :: "(pi_sched, 'z) ppc_kernel_scheme"
  assumes ok: "kochab_ok c nev k" and run: "pi_is_runnable (k_sched k) (k_current_task k)" and disabled: "k_preempt_disabled k"
    and threads: "others_ok c k threads" and m: "unat m < length (k_mutexes k)" "holds_below k (k_current_task k) m"
  shows "\<exists>res k'. mutex_lock_timeout_attempt (preemptive c) (kochab_mc c) m contended absolute timeout k = Inr (res, k') \<and>
    kochab_result c nev k (kochab_thread_of In_Lock res) k'"
proof -
  let ?me = "k_current_task k" and ?c = "preemptive c"
  note k = kochab_okD [OF ok]
  have pre: "preempt_ok ?c k" using disabled by (simp add: preempt_ok_def)
  have try_lock: "mutex_try_lock ?c (kochab_mc c) m k =
      (if holder_of k m = TASK_ID_NONE then Inr (True, set_holder m ?me k) else Inr (False, k))"
    using mutex_try_lock_eq [OF k(6) pre m(1), of "kochab_mc c"] by simp
  consider (takes) "holder_of k m = TASK_ID_NONE" | (over) "holder_of k m \<noteq> TASK_ID_NONE" "\<not> absolute > k_timer_current_ticks k"
    | (waits) "holder_of k m \<noteq> TASK_ID_NONE" "absolute > k_timer_current_ticks k" by fastforce
  then show ?thesis
  proof cases
    case takes
    then have "mutex_lock_timeout_attempt ?c (kochab_mc c) m contended absolute timeout k =
        Inr (Finished True, leave ?c (set_holder m ?me k))"
      using try_lock pre by (simp add: mutex_lock_timeout_attempt_def mutex_lock_done_def kbind_def kgets_def kreturn_def)
    then show ?thesis using kochab_takes [OF ok run m(1) takes] by (auto simp: kochab_thread_of_def)
  next
    case over
    then have "mutex_lock_timeout_attempt ?c (kochab_mc c) m contended absolute timeout k = Inr (Finished False, leave ?c k)"
      using try_lock pre by (simp add: mutex_lock_timeout_attempt_def mutex_lock_done_def kbind_def kgets_def kreturn_def)
    moreover have "kochab_result c nev k Running (leave ?c k)"
      by (rule kochab_result_ends) (use ok run in \<open>simp_all add: enter_frame\<close>)
    ultimately show ?thesis by (auto simp: kochab_thread_of_def)
  next
    case waits
    let ?k1 = "set_waiter ?me m k" and ?i = "k_task_timers k ! unat ?me"
    let ?d = "ucast (absolute - k_timer_current_ticks k) :: u16"
    let ?f = "Mutex_Lock_Timing m True absolute timeout"
    have i: "unat ?i < length (k_timers k)" "unat ?me < length (k_task_timers k)"
      using ok k(7) by (simp_all add: kochab_ok_def)
    have frame: "k_timers ?k1 = k_timers k" "k_task_timers ?k1 = k_task_timers k" "k_preempt_disabled ?k1 = k_preempt_disabled k"
      "k_interrupts_enabled ?k1 = k_interrupts_enabled k" "k_interrupt_event ?k1 = k_interrupt_event k"
      "k_timer_pending_ticks ?k1 = k_timer_pending_ticks k" "k_mutexes ?k1 = k_mutexes k"
      "waiting_for ?k1 ?me = m"
      using waiting_for_set [of ?me k m ?me] k(7,12) by (simp_all add: set_waiter_def)
    obtain k2 where k2: "timer_oneshot ?c (kochab_unblock ?c) ?i ?d ?k1 = Inr ((), k2)" "timer_changed c nev ?k1 k2"
      using kochab_arms_timer [of c nev ?k1 ?i ?d] ok disabled i frame by auto
    have "\<exists>p k'. kochab_mutex_core_block_on ?c (holder_of k m) k2 = Inr (p, k') \<and> kochab_result c nev k (In_Lock (?f p)) k'"
    proof (rule kochab_lock_waits [where threads = threads])
      show "kochab_stays c k k2 t" if "unat t < tasks_length c" "t \<noteq> ?me" for t
        using timer_changed_result [OF k2(2) kochab_stays_waiter [OF ok _ k(7)]] that by blast
      show "waiting_for k2 ?me = m" using k2(2) frame(8) by (simp add: timer_changed_def waiting_for_def)
    qed (use k2(2) run disabled threads m waits(1) frame in \<open>simp_all add: timer_changed_def\<close>)
    then obtain p k' where p: "kochab_mutex_core_block_on ?c (holder_of k m) k2 = Inr (p, k')" "kochab_result c nev k (In_Lock (?f p)) k'"
      by blast
    have "current_ok ?c ?k1" "preempt_ok ?c ?k1" "unat ?me < length (k_mutex_waiters k)" using k pre by simp_all
    then have "mutex_lock_timeout_attempt ?c (kochab_mc c) m contended absolute timeout k = Inr (Suspended (?f p), k')"
      using try_lock waits pre k(6) m(1) k2(1) p(1) i frame
      by (simp add: mutex_lock_timeout_attempt_def kochab_mutex_core_block_on_timeout_def kbind_def kgets_def kreturn_def
          array_read_def Let_def)
    then show ?thesis using p(2) by (auto simp: kochab_thread_of_def)
  qed
qed

lemma kochab_sem_timeout_attempt:
  fixes k :: "(pi_sched, 'z) ppc_kernel_scheme"
  assumes ok: "kochab_ok c nev k" and run: "pi_is_runnable (k_sched k) (k_current_task k)" and disabled: "k_preempt_disabled k"
    and s: "unat s < length (k_semaphores k)"
  shows "\<exists>res k'. sem_wait_timeout_attempt (preemptive c) (kochab_scc c) s absolute k = Inr (res, k') \<and>
    kochab_result c nev k (kochab_thread_of In_Sem res) k'"
proof -
  let ?me = "k_current_task k" and ?c = "preemptive c"
  note k = kochab_okD [OF ok]
  have pre: "preempt_ok ?c k" using disabled by (simp add: preempt_ok_def)
  note try_wait = internal_sem_try_wait_eq [OF pre s]
  consider (takes) "value_of k s \<noteq> 0" | (over) "value_of k s = 0" "\<not> absolute > k_timer_current_ticks k"
    | (waits) "value_of k s = 0" "absolute > k_timer_current_ticks k" by fastforce
  then show ?thesis
  proof cases
    case takes
    then have "sem_wait_timeout_attempt ?c (kochab_scc c) s absolute k =
        Inr (Finished True, set_value s (value_of k s - 1) (leave ?c k))"
      using try_wait pre
      by (simp add: sem_wait_timeout_attempt_def kbind_def kgets_def kreturn_def co_finish_def set_value_leave)
    then show ?thesis using kochab_takes_unit [OF ok run s takes] by (auto simp: kochab_thread_of_def)
  next
    case over
    then have "sem_wait_timeout_attempt ?c (kochab_scc c) s absolute k = Inr (Finished False, leave ?c k)"
      using try_wait pre by (simp add: sem_wait_timeout_attempt_def kbind_def kgets_def kreturn_def co_finish_def)
    moreover have "kochab_result c nev k Running (leave ?c k)"
      by (rule kochab_result_ends) (use ok run in \<open>simp_all add: enter_frame\<close>)
    ultimately show ?thesis by (auto simp: kochab_thread_of_def)
  next
    case waits
    let ?k1 = "k\<lparr>k_sem_waiters := (k_sem_waiters k)[unat ?me := s]\<rparr>" and ?i = "k_task_timers k ! unat ?me"
    let ?d = "ucast (absolute - k_timer_current_ticks k) :: u16"
    have i: "unat ?i < length (k_timers k)" "unat ?me < length (k_task_timers k)"
      using ok k(7) by (simp_all add: kochab_ok_def)
    note reg = kochab_sem_registered [OF ok waits(1)]
    obtain k2 where k2: "timer_oneshot ?c (kochab_unblock ?c) ?i ?d ?k1 = Inr ((), k2)" "timer_changed c nev ?k1 k2"
      using kochab_arms_timer [OF reg(1), of ?i ?d] disabled i by auto
    have "\<exists>p k'. kochab_sem_core_block ?c k2 = Inr (p, k') \<and> kochab_result c nev k (In_Sem (Sem_Wait_Timing s absolute p)) k'"
    proof (rule kochab_sem_waits)
      show "kochab_stays c k k2 t" if "unat t < tasks_length c" "t \<noteq> ?me" for t
        using timer_changed_result [OF k2(2) reg(3)] that by blast
      show "sem_waiting_for k2 ?me = s" using k2(2) reg(2) by (simp add: timer_changed_def sem_waiting_for_def)
    qed (use k2(2) run disabled s in \<open>simp_all add: timer_changed_def\<close>)
    then obtain p k' where p: "kochab_sem_core_block ?c k2 = Inr (p, k')"
      "kochab_result c nev k (In_Sem (Sem_Wait_Timing s absolute p)) k'" by blast
    have "current_ok ?c ?k1" "preempt_ok ?c ?k1" using k(6) disabled by (simp_all add: current_ok_def preempt_ok_def)
    then have "sem_wait_timeout_attempt ?c (kochab_scc c) s absolute k = Inr (Suspended (Sem_Wait_Timing s absolute p), k')"
      using try_wait waits pre k(6,7,13) k2(1) p(1) i
      by (simp add: sem_wait_timeout_attempt_def kochab_sem_core_def kochab_sem_core_block_timeout_def kbind_def kgets_def kreturn_def
          array_read_def)
    then show ?thesis using p(2) by (auto simp: kochab_thread_of_def)
  qed
qed

lemma in_lock_order_below:
  assumes "kochab_ok c nev k" and "in_lock_order k m"
  shows "holds_below k (k_current_task k) m"
proof -
  have "length (k_mutexes k) \<le> 255" using kochab_okD(3) [OF assms(1)] by (simp add: mutexes_ok_def)
  then show ?thesis using assms(2) by (auto simp: in_lock_order_def holds_below_def set_ids)
qed

lemma kochab_invoke_ok:
  fixes k :: "(pi_sched, 'z) ppc_kernel_scheme"
  assumes ok: "kochab_ok c nev k" and run: "pi_is_runnable (k_sched k) (k_current_task k)"
    and enabled: "\<not> k_preempt_disabled k" and threads: "others_ok c k threads" and call: "kochab_call_ok c k call"
  shows "\<exists>thread k'. kochab_invoke (preemptive c) call k = Inr (thread, k') \<and> kochab_result c nev k thread k'"
proof -
  let ?c = "preemptive c" and ?me = "k_current_task k" and ?tt = "SIGNAL_ID__TASK_TIMER c"
  let ?k1 = "enter (preemptive c) k"
  note k = kochab_okD [OF ok]
  have ok1: "kochab_ok c nev ?k1" "pi_is_runnable (k_sched ?k1) (k_current_task ?k1)" "k_preempt_disabled ?k1"
    "others_ok c ?k1 threads"
    using ok run others_ok_enter [OF threads] by (simp_all add: enter_frame)
  have lv: "leave ?c k = k" using enabled by (cases k) (simp add: leave_def)
  show ?thesis
  proof (cases call)
    case (Signal_Wait r)
    have "\<exists>p k'. signal_wait_set_blocked_on ?c (kochab_block_on ?c) r TASK_ID_NONE ?k1 = Inr (p, k') \<and>
        kochab_result c nev k (In_Wait p) k'"
      by (rule kochab_waits_result) (use ok1 in \<open>auto simp: may_block_on_def enter_frame kochab_thread_ok_def\<close>)
    then show ?thesis using Signal_Wait by (auto simp: kochab_invoke_def rtos_signal_wait_set_def kbind_def kreturn_def)
  next
    case (Signal_Send t r)
    then show ?thesis
      using kochab_sends [OF ok run, of t r] call by (auto simp: kochab_invoke_def kochab_call_ok_def kbind_def kreturn_def)
  next
    case (Signal_Poll r)
    let ?k = "set_pending ?me (pending_of k ?me AND NOT r) (leave ?c k)"
    have "kochab_result c nev k Running ?k"
    proof (rule kochab_result_ends)
      show "kochab_stays c k ?k t" if "unat t < tasks_length c" "t \<noteq> ?me" for t
        using kochab_stays_pending [of c nev "leave ?c k" t ?me] that ok k(7) by (simp add: kochab_stays_def)
    qed (use ok run in \<open>simp_all add: enter_frame\<close>, simp_all add: set_pending_def enter_frame)
    then show ?thesis
      using rtos_signal_poll_set_eq [OF k(6,2), of r] Signal_Poll by (simp add: kochab_invoke_def kbind_def kreturn_def)
  next
    case (Sleep d)
    let ?i = "k_task_timers k ! unat ?me"
    have i: "unat ?i < length (k_timers k)" "unat ?me < length (k_task_timers k)"
      using ok k(7) by (simp_all add: kochab_ok_def)
    have frame: "k_timers ?k1 = k_timers k" "k_task_timers ?k1 = k_task_timers k" by (simp_all add: enter_def)
    obtain k2 where k2: "timer_oneshot ?c (kochab_unblock ?c) ?i d ?k1 = Inr ((), k2)" "timer_changed c nev ?k1 k2"
      using kochab_arms_timer [of c nev ?k1 ?i d] ok1 i frame by auto
    have "\<exists>p k'. signal_wait_set_blocked_on ?c (kochab_block_on ?c) ?tt TASK_ID_NONE k2 = Inr (p, k') \<and>
        kochab_result c nev k (In_Sleep p) k'"
      by (rule kochab_waits_result)
        (use k2(2) ok1 run timer_changed_result [OF k2(2), of ?me k] in
          \<open>simp_all add: timer_changed_def may_block_on_def kochab_thread_ok_def enter_frame\<close>)
    then show ?thesis
      using Sleep k2(1) i(2) k(6) frame by (auto simp: kochab_invoke_def rtos_sleep_def kbind_def kreturn_def array_read_def)
  next
    case (Mutex_Lock m)
    then have m: "unat m < length (k_mutexes k)" and below: "holds_below k ?me m"
      using call in_lock_order_below [OF ok] by (simp_all add: kochab_call_ok_def)
    obtain res k' where "mutex_lock_attempt ?c (kochab_mc c) m False (k_timer_current_ticks k) ?k1 = Inr (res, k')"
      "kochab_result c nev k (kochab_thread_of In_Lock res) k'"
      using kochab_lock_attempt [OF ok1(1-4), of m False "k_timer_current_ticks k"] m below kochab_result_enter by fastforce
    moreover have "holder_of k m \<noteq> ?me" using holds_belowD [OF below m] by simp
    ultimately show ?thesis
      using Mutex_Lock m k(6)
      by (auto simp: kochab_invoke_def rtos_mutex_lock_def kbind_def kgets_def kreturn_def assert_mutex_not_held_run)
  next
    case (Mutex_Lock_Timeout m timeout)
    then have m: "unat m < length (k_mutexes k)" and below: "holds_below k ?me m"
      using call in_lock_order_below [OF ok] by (simp_all add: kochab_call_ok_def)
    let ?absolute = "k_timer_current_ticks k + ucast timeout"
    obtain res k' where "mutex_lock_timeout_attempt ?c (kochab_mc c) m False ?absolute timeout ?k1 = Inr (res, k')"
      "kochab_result c nev k (kochab_thread_of In_Lock res) k'"
      using kochab_lock_timeout_attempt [OF ok1(1-4), of m False ?absolute timeout] m below kochab_result_enter by fastforce
    moreover have "holder_of k m \<noteq> ?me" using holds_belowD [OF below m] by simp
    ultimately show ?thesis
      using Mutex_Lock_Timeout m k(6)
      by (auto simp: kochab_invoke_def rtos_mutex_lock_timeout_def kbind_def kgets_def kreturn_def assert_mutex_not_held_run)
  next
    case (Mutex_Try_Lock m)
    then have m: "unat m < length (k_mutexes k)" using call by (simp add: kochab_call_ok_def)
    have "mutex_try_lock ?c (kochab_mc c) m ?k1 =
        (if holder_of k m = TASK_ID_NONE then Inr (True, set_holder m ?me ?k1) else Inr (False, ?k1))"
      using mutex_try_lock_eq [of ?c ?k1 m "kochab_mc c"] m k(6) by simp
    moreover have "kochab_result c nev k Running (leave ?c (set_holder m ?me ?k1))" if "holder_of k m = TASK_ID_NONE"
      using kochab_takes [OF ok1(1,2), of m] m that kochab_result_enter by simp
    moreover have "kochab_result c nev k Running (leave ?c k)"
      by (rule kochab_result_ends) (use ok run in \<open>simp_all add: enter_frame\<close>)
    ultimately show ?thesis
      using Mutex_Try_Lock m by (auto simp: kochab_invoke_def rtos_mutex_try_lock_def kbind_def kreturn_def)
  next
    case (Mutex_Unlock m)
    then show ?thesis
      using kochab_unlocks [OF ok run, of m] call by (fastforce simp: kochab_invoke_def kochab_call_ok_def kbind_def kreturn_def)
  next
    case (Sem_Wait s)
    then have s: "unat s < length (k_semaphores k)" using call by (simp add: kochab_call_ok_def)
    obtain res k' where "sem_wait_attempt ?c (kochab_scc c) s ?k1 = Inr (res, k')"
      "kochab_result c nev k (kochab_thread_of In_Sem res) k'"
      using kochab_sem_attempt [OF ok1(1-3), of s] s kochab_result_enter by fastforce
    then show ?thesis
      using Sem_Wait s by (auto simp: kochab_invoke_def rtos_sem_wait_def kbind_def kreturn_def)
  next
    case (Sem_Wait_Timeout s timeout)
    then have s: "unat s < length (k_semaphores k)" using call by (simp add: kochab_call_ok_def)
    let ?absolute = "k_timer_current_ticks k + ucast timeout"
    obtain res k' where "sem_wait_timeout_attempt ?c (kochab_scc c) s ?absolute ?k1 = Inr (res, k')"
      "kochab_result c nev k (kochab_thread_of In_Sem res) k'"
      using kochab_sem_timeout_attempt [OF ok1(1-3), of s ?absolute] s kochab_result_enter by fastforce
    then show ?thesis
      using Sem_Wait_Timeout s by (auto simp: kochab_invoke_def rtos_sem_wait_timeout_def kbind_def kgets_def kreturn_def)
  next
    case (Sem_Try_Wait s)
    then have s: "unat s < length (k_semaphores k)" using call by (simp add: kochab_call_ok_def)
    have "kochab_result c nev k Running (leave ?c k)"
      by (rule kochab_result_ends) (use ok run in \<open>simp_all add: enter_frame\<close>)
    then show ?thesis
      using rtos_sem_try_wait_eq [OF s, of ?c] kochab_takes_unit [OF ok run s] Sem_Try_Wait
      by (auto simp: kochab_invoke_def kbind_def kreturn_def)
  next
    case (Sem_Post s)
    then show ?thesis
      using kochab_posts [OF ok run, of s] call by (auto simp: kochab_invoke_def kochab_call_ok_def kbind_def kreturn_def)
  next
    case (Sem_Max_Init s v)
    then have "kochab_result c nev k Running (set_max s v k)" "unat s < length (k_semaphores k)" "v \<noteq> 0" "max_of k s = 0"
      using kochab_max_set [OF ok run enabled, of s v] call by (simp_all add: kochab_call_ok_def)
    then show ?thesis
      using Sem_Max_Init by (simp add: kochab_invoke_def rtos_sem_max_init_eq kbind_def kreturn_def)
  next
    case (Timer_Enable i)
    then have i: "unat i < length (k_timers k)" using call by (simp add: kochab_call_ok_def)
    obtain k' where k': "timer_enable ?c (kochab_unblock ?c) i ?k1 = Inr ((), k')" "timer_changed c nev ?k1 k'"
      using kochab_enables_timer [of c nev ?k1 i] ok1 i by auto
    then show ?thesis
      using timer_changed_ends [OF k'(2) run] Timer_Enable i k'(1)
      by (simp add: assert_timer_valid_run kochab_invoke_def rtos_timer_enable_def kbind_def kreturn_def)
  next
    case (Timer_Oneshot i timeout)
    then have i: "unat i < length (k_timers k)" using call by (simp add: kochab_call_ok_def)
    obtain k' where k': "timer_oneshot ?c (kochab_unblock ?c) i timeout ?k1 = Inr ((), k')" "timer_changed c nev ?k1 k'"
      using kochab_arms_timer [of c nev ?k1 i timeout] ok1 i by auto
    then show ?thesis
      using timer_changed_ends [OF k'(2) run] Timer_Oneshot i k'(1)
      by (simp add: assert_timer_valid_run kochab_invoke_def rtos_timer_oneshot_def kbind_def kreturn_def)
  next
    case (Timer_Check_Overflow i)
    then have i: "unat i < length (k_timers ?k1)" using call by (simp add: kochab_call_ok_def)
    have "timer_changed c nev ?k1 (?k1\<lparr>k_timers := (k_timers ?k1)[unat i := (k_timers ?k1 ! unat i)\<lparr>tm_overflow := False\<rparr>]\<rparr>)"
      by (rule timer_changed_set [OF ok1(1) i]) (use ok1(1) i in \<open>auto simp: kochab_ok_unfold\<close>)
    from timer_changed_ends [OF this run] show ?thesis
      using Timer_Check_Overflow i
      by (simp add: assert_timer_valid_run kochab_invoke_def rtos_timer_check_overflow_def kbind_def kreturn_def array_read_def)
  next
    case (Timer_Signal_Set i task signals)
    then have i: "unat i < length (k_timers ?k1)" "unat task < tasks_length c" "signals \<noteq> 0"
      using call by (simp_all add: kochab_call_ok_def)
    let ?tm = "(k_timers ?k1 ! unat i)\<lparr>tm_error_id := ERROR_ID_NONE, tm_task_id := task, tm_signal_set := signals\<rparr>"
    have "timer_changed c nev ?k1 (?k1\<lparr>k_timers := (k_timers ?k1)[unat i := ?tm]\<rparr>)"
      by (rule timer_changed_set [OF ok1(1) i(1), where f = "\<lambda>_. ?tm"]) (use i in simp_all)
    from timer_changed_ends [OF this run] show ?thesis
      using Timer_Signal_Set i
      by (simp add: assert_timer_valid_run kochab_invoke_def rtos_timer_signal_set_def kbind_def kreturn_def SIGNAL_SET_EMPTY_def)
  qed
qed

text \<open>The end of a wait: the received signals are no longer pending.\<close>

lemma kochab_received:
  fixes k :: "(pi_sched, 'z) ppc_kernel_scheme" and p :: u8
  assumes ok: "kochab_ok c nev k" and threads: "others_ok c k threads"
  defines "k1 \<equiv> set_pending (k_current_task k) p k"
  shows "kochab_ok c nev k1" "others_ok c k1 threads" "\<And>t. t \<noteq> k_current_task k \<Longrightarrow> kochab_stays c k k1 t"
    and "k_current_task k1 = k_current_task k" "k_sched k1 = k_sched k" "k_preempt_disabled k1 = k_preempt_disabled k"
      "k_preempt_pending k1 = k_preempt_pending k" "k_interrupts_enabled k1 = k_interrupts_enabled k"
      "k_interrupt_event k1 = k_interrupt_event k" "k_timer_pending_ticks k1 = k_timer_pending_ticks k"
      "k_mutexes k1 = k_mutexes k" "k_semaphores k1 = k_semaphores k" "holds_below k1 t m = holds_below k t m"
proof -
  show "kochab_ok c nev k1" using ok by (simp add: k1_def)
  show st: "kochab_stays c k k1 t" if "t \<noteq> k_current_task k" for t
    unfolding k1_def by (rule kochab_stays_pending [OF ok that kochab_okD(7) [OF ok]])
  have "k_current_task k1 = k_current_task k" by (simp add: k1_def)
  then show "others_ok c k1 threads"
    using threads kochab_thread_ok_stays [OF _ st] by (simp add: others_ok_def)
qed (simp_all add: k1_def set_pending_def holds_below_def holder_of_def)

lemma kochab_result_after:
  fixes k k1 :: "(pi_sched, 'z) ppc_kernel_scheme"
  assumes "kochab_result c nev k1 thread k2" and "\<And>t. t \<noteq> k_current_task k \<Longrightarrow> kochab_stays c k k1 t"
    and "k_current_task k1 = k_current_task k" "k_sched k1 = k_sched k" "k_preempt_pending k1 = k_preempt_pending k"
      "k_interrupts_enabled k1 = k_interrupts_enabled k" "k_interrupt_event k1 = k_interrupt_event k"
      "k_timer_pending_ticks k1 = k_timer_pending_ticks k"
  shows "kochab_result c nev k thread k2"
  using assms kochab_stays_trans [of c k k1 _ k2] by (auto simp: kochab_result_def split: if_splits)

lemma kochab_result_waits_again:
  fixes k :: "(pi_sched, 'z) ppc_kernel_scheme"
  assumes "kochab_ok c nev (k\<lparr>k_sched := s\<rparr>)" "k_preempt_disabled k"
    and "\<forall>t. unat t < tasks_length c \<longrightarrow> t \<noteq> k_current_task k \<longrightarrow> kochab_stays c k (k\<lparr>k_sched := s\<rparr>) t"
    and "kochab_thread_ok c (k\<lparr>k_sched := s\<rparr>) (k_current_task k) thread"
    and "thread \<noteq> Running" "thread \<noteq> Leaving" "thread \<noteq> Starting"
  shows "kochab_result c nev k thread (k\<lparr>k_sched := s\<rparr>)"
  using assms by (simp add: kochab_result_def)

text \<open>Waits for signals only, in \<open>rtos_signal_wait_set\<close> and \<open>rtos_sleep\<close>.\<close>

lemma kochab_signals_resume:
  fixes k :: "(pi_sched, 'z) ppc_kernel_scheme" and f :: "signal_pc \<Rightarrow> kochab_thread"
  assumes ok: "kochab_ok c nev k" and run: "pi_is_runnable (k_sched k) (k_current_task k)" and disabled: "k_preempt_disabled k"
    and threads: "others_ok c k threads" and p: "sig_waiting k (k_current_task k) r TASK_ID_NONE p"
    and f: "f p \<noteq> Running" "f p \<noteq> Leaving" "f p \<noteq> Starting"
      "\<And>s. sig_waiting (k\<lparr>k_sched := s\<rparr>) (k_current_task k) r TASK_ID_NONE p \<Longrightarrow>
        kochab_thread_ok c (k\<lparr>k_sched := s\<rparr>) (k_current_task k) (f p)"
  shows "\<exists>res k'. co_bind (signal_wait_resume (preemptive c) (kochab_block_on (preemptive c)) p) id
      (\<lambda>x. co_finish (preempt_enable (preemptive c)) (g x)) k = Inr (res, k') \<and> kochab_result c nev k (kochab_thread_of f res) k'"
proof -
  let ?me = "k_current_task k"
  obtain res k1 where k1: "signal_wait_resume (preemptive c) (kochab_block_on (preemptive c)) p k = Inr (res, k1)"
    "case res of
      Suspended q \<Rightarrow> q = p \<and> p = Sig_Blocked ?me r TASK_ID_NONE \<and> pending_of k ?me AND r = 0 \<and>
        (\<exists>s. k1 = k\<lparr>k_sched := s\<rparr>) \<and> kochab_ok c nev k1 \<and>
        (\<forall>t. unat t < tasks_length c \<longrightarrow> t \<noteq> ?me \<longrightarrow> kochab_stays c k k1 t) \<and> sig_waiting k1 ?me r TASK_ID_NONE p
    | Finished _ \<Rightarrow> k1 = set_pending ?me (pending_of k ?me AND NOT r) k"
    using kochab_wait_resumes [OF ok run disabled p] by (auto simp: may_block_on_def)
  show ?thesis
  proof (cases res)
    case (Suspended q)
    then obtain s where "k1 = k\<lparr>k_sched := s\<rparr>" "kochab_result c nev k (f p) (k\<lparr>k_sched := s\<rparr>)"
      using k1(2) f disabled kochab_result_waits_again [where c = c and nev = nev and k = k and thread = "f p"] by auto
    then show ?thesis
      using k1 Suspended by (auto simp: co_bind_def kbind_def kreturn_def kochab_thread_of_def)
  next
    case (Finished x)
    let ?k = "leave (preemptive c) k1"
    have k1': "k1 = set_pending ?me (pending_of k ?me AND NOT r) k" using k1(2) Finished by simp
    note rec = kochab_received [OF ok threads, where p = "pending_of k ?me AND NOT r", folded k1']
    have "kochab_result c nev k Running ?k"
      by (rule kochab_result_ends) (use rec run in \<open>simp_all add: enter_frame\<close>)
    moreover have "preempt_ok (preemptive c) k1" using rec(6) disabled by (simp add: preempt_ok_def)
    ultimately show ?thesis
      using k1(1) Finished by (simp add: co_bind_def co_finish_def kbind_def kreturn_def kochab_thread_of_def)
  qed
qed

lemma kochab_wait_resume_run:
  assumes "signal_wait_resume c (kochab_block_on c) p k = Inr (res, k')"
  shows "kochab_wait_resume c p k = Inr (case res of Suspended q \<Rightarrow> Suspended q | Finished _ \<Rightarrow> Finished (), k')"
  using assms by (cases res) (simp_all add: kochab_wait_resume_def co_bind_def kbind_def kreturn_def)

text \<open>After a wait with a timeout, the timer of the task is disabled.\<close>

lemma kochab_timer_disabled:
  fixes k :: "(pi_sched, 'z) ppc_kernel_scheme"
  assumes ok: "kochab_ok c nev k" and disabled: "k_preempt_disabled k"
  shows "\<exists>tms. kbind (get_current_task (preemptive c)) (\<lambda>current. kbind (array_read k_task_timers current) (\<lambda>timer_id.
      kbind (timer_disable timer_id) (\<lambda>_. co_finish (postcondition_preemption_disabled (preemptive c)) ()))) k =
      Inr (Finished (), k\<lparr>k_timers := tms\<rparr>) \<and> timer_changed c nev k (k\<lparr>k_timers := tms\<rparr>)"
proof -
  let ?i = "k_task_timers k ! unat (k_current_task k)"
  note k = kochab_okD [OF ok]
  have i: "unat ?i < length (k_timers k)" "unat (k_current_task k) < length (k_task_timers k)"
    using ok k(7) by (simp_all add: kochab_ok_def)
  have "timer_changed c nev k (k\<lparr>k_timers := (k_timers k)[unat ?i := (k_timers k ! unat ?i)\<lparr>tm_enabled := False\<rparr>]\<rparr>)"
    by (rule timer_changed_set [OF ok i(1)]) (use ok i(1) in \<open>auto simp: kochab_ok_unfold\<close>)
  moreover have "preempt_ok (preemptive c) k" using disabled by (simp add: preempt_ok_def)
  ultimately show ?thesis
    using i k(6) by (simp add: kbind_def array_read_def timer_disable_def co_finish_def kreturn_def) blast
qed

lemma kochab_timeout_resumes:
  fixes k :: "(pi_sched, 'z) ppc_kernel_scheme"
  assumes wait: "kochab_wait_resume (preemptive c) p k = Inr (Finished (), k1)"
    and ok: "kochab_ok c nev k1" and disabled: "k_preempt_disabled k1" and threads: "others_ok c k1 threads"
  shows "\<exists>tms. kochab_timeout_resume (preemptive c) p k = Inr (Finished (), k1\<lparr>k_timers := tms\<rparr>) \<and>
    timer_changed c nev k1 (k1\<lparr>k_timers := tms\<rparr>) \<and> others_ok c (k1\<lparr>k_timers := tms\<rparr>) threads"
proof -
  obtain tms where tms: "kochab_timeout_resume (preemptive c) p k = Inr (Finished (), k1\<lparr>k_timers := tms\<rparr>)"
    "timer_changed c nev k1 (k1\<lparr>k_timers := tms\<rparr>)"
    using kochab_timer_disabled [OF ok disabled] wait by (auto simp: kochab_timeout_resume_def co_bind_def kbind_def [of "kochab_wait_resume _ _"])
  moreover have "kochab_thread_ok c (k1\<lparr>k_timers := tms\<rparr>) t thread" if "unat t < tasks_length c" "kochab_thread_ok c k1 t thread" for t thread
    using kochab_thread_ok_stays [OF that(2)] tms(2) that(1) by (simp add: timer_changed_def)
  ultimately show ?thesis using threads by (auto simp: others_ok_def)
qed

lemma kochab_timeout_suspends:
  "kochab_wait_resume c p k = Inr (Suspended q, k1) \<Longrightarrow> kochab_timeout_resume c p k = Inr (Suspended q, k1)"
  by (simp add: kochab_timeout_resume_def co_bind_def kbind_def kreturn_def)

lemma kochab_lock_wait:
  fixes k :: "(pi_sched, 'z) ppc_kernel_scheme"
  assumes ok: "kochab_ok c nev k" and run: "pi_is_runnable (k_sched k) (k_current_task k)" and disabled: "k_preempt_disabled k"
    and threads: "others_ok c k threads" and pc: "lock_waiting c k (k_current_task k) pc" "lock_point pc = Some (m, p)"
  shows "\<exists>res k1. kochab_wait_resume (preemptive c) p k = Inr (res, k1) \<and>
    (case res of Suspended q \<Rightarrow> q = p \<and> kochab_result c nev k (In_Lock pc) k1
     | Finished _ \<Rightarrow> k1 = set_pending (k_current_task k) (pending_of k (k_current_task k) AND NOT (SIGNAL_ID__TASK_TIMER c)) k)"
proof -
  let ?me = "k_current_task k" and ?tt = "SIGNAL_ID__TASK_TIMER c"
  obtain b where p: "unat m < length (k_mutexes k)" "sig_waiting k ?me ?tt b p" "holds_below k ?me m"
    "p = Sig_Yielded ?me ?tt \<or> pending_of k ?me AND ?tt \<noteq> 0 \<or> waiting_for k ?me = m \<and> holder_of k m = b \<and> b \<noteq> TASK_ID_NONE"
    using pc by (auto simp: lock_waiting_def)
  have held: "waiting_for k ?me = m \<and> holder_of k m = b \<and> b \<noteq> TASK_ID_NONE"
    if "p = Sig_Blocked ?me ?tt b" "pending_of k ?me AND ?tt = 0"
    using p(4) that by auto
  have b: "may_block_on k b" if blocked: "p = Sig_Blocked ?me ?tt b" "pending_of k ?me AND ?tt = 0"
    using may_block_on_holder [OF ok _ p(1,3), of threads] held [OF blocked] threads by (simp add: others_ok_def)
  obtain res k1 where k1: "signal_wait_resume (preemptive c) (kochab_block_on (preemptive c)) p k = Inr (res, k1)"
    "case res of
      Suspended q \<Rightarrow> q = p \<and> p = Sig_Blocked ?me ?tt b \<and> pending_of k ?me AND ?tt = 0 \<and>
        (\<exists>s. k1 = k\<lparr>k_sched := s\<rparr>) \<and> kochab_ok c nev k1 \<and>
        (\<forall>t. unat t < tasks_length c \<longrightarrow> t \<noteq> ?me \<longrightarrow> kochab_stays c k k1 t) \<and> sig_waiting k1 ?me ?tt b p
    | Finished _ \<Rightarrow> k1 = set_pending ?me (pending_of k ?me AND NOT ?tt) k"
    using kochab_wait_resumes [OF ok run disabled p(2) b] by blast
  note wait = kochab_wait_resume_run [OF k1(1)]
  show ?thesis
  proof (cases res)
    case (Suspended q)
    then obtain s where s: "k1 = k\<lparr>k_sched := s\<rparr>" "p = Sig_Blocked ?me ?tt b" "pending_of k ?me AND ?tt = 0" "q = p"
      "kochab_ok c nev k1" "\<forall>t. unat t < tasks_length c \<longrightarrow> t \<noteq> ?me \<longrightarrow> kochab_stays c k k1 t" "sig_waiting k1 ?me ?tt b p"
      using k1(2) by auto
    have "lock_waiting c k1 ?me pc"
      unfolding lock_waiting_def using pc(2) p(1,3) s(7) held [OF s(2,3)]
      by (intro exI [of _ m] exI [of _ p] exI [of _ b]) (simp add: s(1) holds_below_def)
    then have "kochab_result c nev k (In_Lock pc) k1"
      unfolding s(1) by (intro kochab_result_waits_again) (use s disabled in \<open>simp_all add: kochab_thread_ok_def\<close>)
    then show ?thesis using wait Suspended s(4) by simp
  next
    case (Finished x)
    then show ?thesis using wait k1(2) by simp
  qed
qed

lemma kochab_continue_lock:
  fixes k :: "(pi_sched, 'z) ppc_kernel_scheme"
  assumes ok: "kochab_ok c nev k" and run: "pi_is_runnable (k_sched k) (k_current_task k)" and disabled: "k_preempt_disabled k"
    and threads: "others_ok c k threads" and pc: "lock_waiting c k (k_current_task k) pc"
  shows "\<exists>res k'. rtos_mutex_resume (preemptive c) (kochab_mc c) pc k = Inr (res, k') \<and>
    kochab_result c nev k (kochab_thread_of In_Lock res) k'"
proof -
  let ?me = "k_current_task k" and ?tt = "SIGNAL_ID__TASK_TIMER c"
  obtain m p where p: "lock_point pc = Some (m, p)" "unat m < length (k_mutexes k)" "holds_below k ?me m"
    using pc by (auto simp: lock_waiting_def)
  obtain res k1 where k1: "kochab_wait_resume (preemptive c) p k = Inr (res, k1)"
    "case res of Suspended q \<Rightarrow> q = p \<and> kochab_result c nev k (In_Lock pc) k1
     | Finished _ \<Rightarrow> k1 = set_pending ?me (pending_of k ?me AND NOT ?tt) k"
    using kochab_lock_wait [OF ok run disabled threads pc p(1)] by blast
  show ?thesis
  proof (cases res)
    case (Suspended q)
    then show ?thesis
      using k1 kochab_timeout_suspends [of "preemptive c" p k q k1] p(1)
      by (cases pc) (auto simp: rtos_mutex_resume_def kochab_mutex_core_def co_bind_def kbind_def kreturn_def kochab_thread_of_def)
  next
    case (Finished x)
    have k1': "k1 = set_pending ?me (pending_of k ?me AND NOT ?tt) k" using k1(2) Finished by simp
    note rec = kochab_received [OF ok threads, where p = "pending_of k ?me AND NOT ?tt", folded k1']
    have k1d: "k_preempt_disabled k1" "unat m < length (k_mutexes k1)" "holds_below k1 (k_current_task k1) m"
      using rec(4,6,11,13) disabled p by simp_all
    show ?thesis
    proof (cases pc)
      case (Mutex_Locking m' contended start p')
      obtain res2 k2 where k2: "mutex_lock_attempt (preemptive c) (kochab_mc c) m contended start k1 = Inr (res2, k2)"
        "kochab_result c nev k1 (kochab_thread_of In_Lock res2) k2"
        using kochab_lock_attempt [OF rec(1) _ k1d(1) rec(2) k1d(2,3), of contended start] rec(4,5) run by auto
      have "kochab_result c nev k (kochab_thread_of In_Lock res2) k2"
        by (rule kochab_result_after [OF k2(2) rec(3)]) (use rec(4-10) in simp_all)
      then show ?thesis
        using k1(1) Finished k2(1) Mutex_Locking p(1) by (auto simp: rtos_mutex_resume_def kochab_mutex_core_def co_bind_def kbind_def)
    next
      case (Mutex_Lock_Timing m' contended absolute timeout p')
      obtain tms where tms: "kochab_timeout_resume (preemptive c) p k = Inr (Finished (), k1\<lparr>k_timers := tms\<rparr>)"
        "timer_changed c nev k1 (k1\<lparr>k_timers := tms\<rparr>)" "others_ok c (k1\<lparr>k_timers := tms\<rparr>) threads"
        using kochab_timeout_resumes [OF _ rec(1) k1d(1) rec(2)] k1(1) Finished by auto
      obtain res2 k2 where k2: "mutex_lock_timeout_attempt (preemptive c) (kochab_mc c) m contended absolute timeout (k1\<lparr>k_timers := tms\<rparr>) = Inr (res2, k2)"
        "kochab_result c nev (k1\<lparr>k_timers := tms\<rparr>) (kochab_thread_of In_Lock res2) k2"
        using kochab_lock_timeout_attempt [of c nev "k1\<lparr>k_timers := tms\<rparr>" threads m contended absolute timeout] tms(2,3) k1d rec(4,5) run
        by (auto simp: timer_changed_def holds_below_def holder_of_def)
      have "kochab_stays c k (k1\<lparr>k_timers := tms\<rparr>) t" if "t \<noteq> ?me" for t
        by (rule kochab_stays_trans [OF rec(3) [OF that] kochab_stays_timers])
      then have "kochab_result c nev k (kochab_thread_of In_Lock res2) k2"
        by (intro kochab_result_after [OF k2(2)]) (use rec(4-10) in simp_all)
      then show ?thesis
        using tms(1) k2(1) Mutex_Lock_Timing p(1) by (auto simp: rtos_mutex_resume_def kochab_mutex_core_def co_bind_def kbind_def)
    qed (use p in simp)
  qed
qed

lemma kochab_sem_wait:
  fixes k :: "(pi_sched, 'z) ppc_kernel_scheme"
  assumes ok: "kochab_ok c nev k" and run: "pi_is_runnable (k_sched k) (k_current_task k)" and disabled: "k_preempt_disabled k"
    and pc: "sem_waiting c k (k_current_task k) pc" "sem_point pc = (s, p)"
  shows "\<exists>res k1. kochab_wait_resume (preemptive c) p k = Inr (res, k1) \<and>
    (case res of Suspended q \<Rightarrow> q = p \<and> kochab_result c nev k (In_Sem pc) k1
     | Finished _ \<Rightarrow> k1 = set_pending (k_current_task k) (pending_of k (k_current_task k) AND NOT (SIGNAL_ID__TASK_TIMER c)) k)"
proof -
  let ?me = "k_current_task k" and ?tt = "SIGNAL_ID__TASK_TIMER c"
  have p: "unat s < length (k_semaphores k)" "sig_waiting k ?me ?tt TASK_ID_NONE p"
    "p = Sig_Yielded ?me ?tt \<or> pending_of k ?me AND ?tt \<noteq> 0 \<or> sem_waiting_for k ?me = s"
    using pc by (auto simp: sem_waiting_def)
  obtain res k1 where k1: "signal_wait_resume (preemptive c) (kochab_block_on (preemptive c)) p k = Inr (res, k1)"
    "case res of
      Suspended q \<Rightarrow> q = p \<and> p = Sig_Blocked ?me ?tt TASK_ID_NONE \<and> pending_of k ?me AND ?tt = 0 \<and>
        (\<exists>s. k1 = k\<lparr>k_sched := s\<rparr>) \<and> kochab_ok c nev k1 \<and>
        (\<forall>t. unat t < tasks_length c \<longrightarrow> t \<noteq> ?me \<longrightarrow> kochab_stays c k k1 t) \<and> sig_waiting k1 ?me ?tt TASK_ID_NONE p
    | Finished _ \<Rightarrow> k1 = set_pending ?me (pending_of k ?me AND NOT ?tt) k"
    using kochab_wait_resumes [OF ok run disabled p(2)] by (auto simp: may_block_on_def)
  note wait = kochab_wait_resume_run [OF k1(1)]
  show ?thesis
  proof (cases res)
    case (Suspended q)
    then obtain s' where s': "k1 = k\<lparr>k_sched := s'\<rparr>" "p = Sig_Blocked ?me ?tt TASK_ID_NONE" "pending_of k ?me AND ?tt = 0" "q = p"
      "kochab_ok c nev k1" "\<forall>t. unat t < tasks_length c \<longrightarrow> t \<noteq> ?me \<longrightarrow> kochab_stays c k k1 t" "sig_waiting k1 ?me ?tt TASK_ID_NONE p"
      using k1(2) by auto
    have "sem_waiting c k1 ?me pc"
      unfolding sem_waiting_def using pc(2) p(1,3) s'(2,3,7)
      by (intro exI [of _ s] exI [of _ p]) (simp add: s'(1))
    then have "kochab_result c nev k (In_Sem pc) k1"
      unfolding s'(1) by (intro kochab_result_waits_again) (use s' disabled in \<open>simp_all add: kochab_thread_ok_def\<close>)
    then show ?thesis using wait Suspended s'(4) by simp
  next
    case (Finished x)
    then show ?thesis using wait k1(2) by simp
  qed
qed

lemma kochab_continue_sem:
  fixes k :: "(pi_sched, 'z) ppc_kernel_scheme"
  assumes ok: "kochab_ok c nev k" and run: "pi_is_runnable (k_sched k) (k_current_task k)" and disabled: "k_preempt_disabled k"
    and threads: "others_ok c k threads" and pc: "sem_waiting c k (k_current_task k) pc"
  shows "\<exists>res k'. rtos_sem_resume (preemptive c) (kochab_scc c) pc k = Inr (res, k') \<and>
    kochab_result c nev k (kochab_thread_of In_Sem res) k'"
proof -
  let ?me = "k_current_task k" and ?tt = "SIGNAL_ID__TASK_TIMER c"
  obtain s p where p: "sem_point pc = (s, p)" "unat s < length (k_semaphores k)"
    using pc by (auto simp: sem_waiting_def)
  obtain res k1 where k1: "kochab_wait_resume (preemptive c) p k = Inr (res, k1)"
    "case res of Suspended q \<Rightarrow> q = p \<and> kochab_result c nev k (In_Sem pc) k1
     | Finished _ \<Rightarrow> k1 = set_pending ?me (pending_of k ?me AND NOT ?tt) k"
    using kochab_sem_wait [OF ok run disabled pc p(1)] by blast
  show ?thesis
  proof (cases res)
    case (Suspended q)
    then show ?thesis
      using k1 kochab_timeout_suspends [of "preemptive c" p k q k1] p(1)
      by (cases pc) (auto simp: rtos_sem_resume_def kochab_sem_core_def co_bind_def kbind_def kreturn_def kochab_thread_of_def)
  next
    case (Finished x)
    have k1': "k1 = set_pending ?me (pending_of k ?me AND NOT ?tt) k" using k1(2) Finished by simp
    note rec = kochab_received [OF ok threads, where p = "pending_of k ?me AND NOT ?tt", folded k1']
    have k1d: "k_preempt_disabled k1" "unat s < length (k_semaphores k1)" "pi_is_runnable (k_sched k1) (k_current_task k1)"
      using rec(4-6,12) disabled p run by simp_all
    show ?thesis
    proof (cases pc)
      case (Sem_Waiting s' p')
      obtain res2 k2 where k2: "sem_wait_attempt (preemptive c) (kochab_scc c) s k1 = Inr (res2, k2)"
        "kochab_result c nev k1 (kochab_thread_of In_Sem res2) k2"
        using kochab_sem_attempt [OF rec(1) k1d(3,1,2)] by blast
      have "kochab_result c nev k (kochab_thread_of In_Sem res2) k2"
        by (rule kochab_result_after [OF k2(2) rec(3)]) (use rec(4-10) in simp_all)
      then show ?thesis
        using k1(1) Finished k2(1) Sem_Waiting p(1) by (auto simp: rtos_sem_resume_def kochab_sem_core_def co_bind_def kbind_def)
    next
      case (Sem_Wait_Timing s' absolute p')
      obtain tms where tms: "kochab_timeout_resume (preemptive c) p k = Inr (Finished (), k1\<lparr>k_timers := tms\<rparr>)"
        "timer_changed c nev k1 (k1\<lparr>k_timers := tms\<rparr>)"
        using kochab_timeout_resumes [OF _ rec(1) k1d(1) rec(2)] k1(1) Finished by auto
      have "kochab_ok c nev (k1\<lparr>k_timers := tms\<rparr>)" using tms(2) by (simp add: timer_changed_def)
      then obtain res2 k2 where k2: "sem_wait_timeout_attempt (preemptive c) (kochab_scc c) s absolute (k1\<lparr>k_timers := tms\<rparr>) = Inr (res2, k2)"
        "kochab_result c nev (k1\<lparr>k_timers := tms\<rparr>) (kochab_thread_of In_Sem res2) k2"
        using kochab_sem_timeout_attempt [of c nev "k1\<lparr>k_timers := tms\<rparr>" s absolute] k1d by auto
      have "kochab_stays c k (k1\<lparr>k_timers := tms\<rparr>) t" if "t \<noteq> ?me" for t
        by (rule kochab_stays_trans [OF rec(3) [OF that] kochab_stays_timers])
      then have "kochab_result c nev k (kochab_thread_of In_Sem res2) k2"
        by (intro kochab_result_after [OF k2(2)]) (use rec(4-10) in simp_all)
      then show ?thesis
        using tms(1) k2(1) Sem_Wait_Timing p(1) by (auto simp: rtos_sem_resume_def kochab_sem_core_def co_bind_def kbind_def)
    qed
  qed
qed

lemma kochab_continue_ok:
  fixes k :: "(pi_sched, 'z) ppc_kernel_scheme"
  assumes ok: "kochab_ok c nev k" and run: "pi_is_runnable (k_sched k) (k_current_task k)" and disabled: "k_preempt_disabled k"
    and threads: "others_ok c k threads" and me: "kochab_thread_ok c k (k_current_task k) thread"
    and thread: "thread \<noteq> Running" "thread \<noteq> Leaving"
  shows "\<exists>thread' k'. kochab_continue (preemptive c) thread k = Inr (thread', k') \<and> kochab_result c nev k thread' k'"
proof (cases thread)
  case Starting
  have "kochab_result c nev k Running (leave (preemptive c) k)"
    by (rule kochab_result_ends) (use ok run in \<open>simp_all add: enter_frame\<close>)
  moreover have "preempt_ok (preemptive c) k" using disabled by (simp add: preempt_ok_def)
  ultimately show ?thesis using Starting by (simp add: kochab_continue_def kochab_entry_def kbind_def kreturn_def)
next
  case (In_Wait p)
  then obtain r where r: "sig_waiting k (k_current_task k) r TASK_ID_NONE p" using me by (auto simp: kochab_thread_ok_def)
  have "\<exists>res k'. co_bind (signal_wait_resume (preemptive c) (kochab_block_on (preemptive c)) p) id
      (\<lambda>x. co_finish (preempt_enable (preemptive c)) x) k = Inr (res, k') \<and> kochab_result c nev k (kochab_thread_of In_Wait res) k'"
    by (rule kochab_signals_resume [OF ok run disabled threads r]) (auto simp: kochab_thread_ok_def)
  then show ?thesis using In_Wait by (auto simp: kochab_continue_def rtos_signal_wait_set_resume_def kbind_def kreturn_def)
next
  case (In_Sleep p)
  then have r: "sig_waiting k (k_current_task k) (SIGNAL_ID__TASK_TIMER c) TASK_ID_NONE p" using me by (simp add: kochab_thread_ok_def)
  have "\<exists>res k'. co_bind (signal_wait_resume (preemptive c) (kochab_block_on (preemptive c)) p) id
      (\<lambda>x. co_finish (preempt_enable (preemptive c)) ()) k = Inr (res, k') \<and> kochab_result c nev k (kochab_thread_of In_Sleep res) k'"
    by (rule kochab_signals_resume [OF ok run disabled threads r]) (auto simp: kochab_thread_ok_def)
  then show ?thesis using In_Sleep by (auto simp: kochab_continue_def rtos_sleep_resume_def kbind_def kreturn_def)
next
  case (In_Lock pc)
  then obtain res k' where "rtos_mutex_resume (preemptive c) (kochab_mc c) pc k = Inr (res, k')"
    "kochab_result c nev k (kochab_thread_of In_Lock res) k'"
    using kochab_continue_lock [OF ok run disabled threads, of pc] me by (auto simp: kochab_thread_ok_def)
  then show ?thesis using In_Lock by (simp add: kochab_continue_def kbind_def kreturn_def)
next
  case (In_Sem pc)
  then obtain res k' where "rtos_sem_resume (preemptive c) (kochab_scc c) pc k = Inr (res, k')"
    "kochab_result c nev k (kochab_thread_of In_Sem res) k'"
    using kochab_continue_sem [OF ok run disabled threads, of pc] me by (auto simp: kochab_thread_ok_def)
  then show ?thesis using In_Sem by (simp add: kochab_continue_def kbind_def kreturn_def)
qed (use thread in simp_all)

end
