(* ===== verification/Kochab_Guarantees.thy ===== *)
theory Kochab_Guarantees
  imports Kochab_Calls
begin

text \<open>
  The invariant of a Kochab system holds in every state that it reaches, and what follows from it: no error, no
  deadlock, no lost wake-up, and that the most urgent task runs.
\<close>

section \<open>Scheduling and switching\<close>

lemma event_more_frame:
  "event_kernel.more k' = event_kernel.more k \<Longrightarrow> k_mutexes k' = k_mutexes k \<and> k_mutex_waiters k' = k_mutex_waiters k \<and>
     k_mutex_stats k' = k_mutex_stats k \<and> k_semaphores k' = k_semaphores k \<and> k_sem_waiters k' = k_sem_waiters k \<and>
     k_interrupts_enabled k' = k_interrupts_enabled k"
  for k k' :: "('s, 'z) ppc_kernel_scheme"
  by (cases k; cases k') simp

text \<open>The state in which the scheduler invocation has decided for the task \<open>u\<close>.\<close>

definition decided :: "config \<Rightarrow> nat \<Rightarrow> u8 \<Rightarrow> (pi_sched, 'z) ppc_kernel_scheme \<Rightarrow> bool" where
  "decided c nev u k \<longleftrightarrow> kochab_ok c nev k \<and> irq_ok (preemptive c) k \<and> unat u < tasks_length c \<and> pi_picks (k_sched k) u \<and>
     \<not> k_preempt_pending k \<and> k_interrupt_event k = 0 \<and> k_timer_pending_ticks k = 0"

lemma kochab_decides:
  fixes k :: "(pi_sched, 'z) ppc_kernel_scheme"
  assumes ok: "kochab_ok c nev k" and disabled: "k_preempt_disabled k" and arrivals: "arrivals_ok nev a"
  shows "case preempt_irq_scheduler_loop (kochab_scheduler (preemptive c) undef a) fuel 0 k of
      Inl e \<Rightarrow> e = Diverges
    | Inr (u, k') \<Rightarrow> decided c nev u k' \<and> k_current_task k' = k_current_task k \<and>
        (\<forall>t. unat t < tasks_length c \<longrightarrow> kochab_stays c k k' t)"
proof -
  have "k\<lparr>k_preempt_disabled := True\<rparr> = k" using disabled by (cases k) simp
  then have sys: "kochab_events.system_ok c nev k" using ok by (simp add: kochab_ok_def)
  note cases = kochab_loop_cases [OF sys arrivals, of undef fuel]
  show ?thesis
  proof (cases "preempt_irq_scheduler_loop (kochab_scheduler (preemptive c) undef a) fuel 0 k")
    case (Inl e)
    then show ?thesis using cases by simp
  next
    case (Inr uk)
    obtain u k' where uk: "uk = (u, k')" by (cases uk)
    have k': "kochab_events.system_ok c nev k'" "wakes_only (preemptive c) pi_is_runnable (k\<lparr>k_interrupts_enabled := False\<rparr>) k'"
      "\<forall>t. unat t < tasks_length c \<longrightarrow> pi_next (k_sched k') t = t \<or> pi_next (k_sched k') t = pi_next (k_sched k) t"
      "unat u < tasks_length c" "pi_picks (k_sched k') u" "\<not> k_preempt_pending k'" "\<not> k_interrupts_enabled k'"
      "k_interrupt_event k' = 0" "k_timer_pending_ticks k' = 0"
      using cases Inr uk by simp_all
    have wakes: "k_current_task k' = k_current_task k" "k_task_timers k' = k_task_timers k" "length (k_timers k') = length (k_timers k)"
      "event_kernel.more k' = event_kernel.more (k\<lparr>k_interrupts_enabled := False\<rparr>)"
      "\<And>t. unat t < tasks_length c \<Longrightarrow>
         (pi_is_runnable (k_sched k') t \<or> \<not> pi_is_runnable (k_sched k) t \<and> pending_of k' t = pending_of k t) \<and>
         pending_of k t AND pending_of k' t = pending_of k t"
      using k'(2) by (simp_all add: wakes_only_def pending_of_def)
    have same: "k_mutexes k' = k_mutexes k" "k_mutex_waiters k' = k_mutex_waiters k" "k_mutex_stats k' = k_mutex_stats k"
      "k_semaphores k' = k_semaphores k" "k_sem_waiters k' = k_sem_waiters k"
      using event_more_frame [OF wakes(4)] by simp_all
    have d': "k_preempt_disabled k'" "current_ok (preemptive c) k'"
      using k'(1) unfolding kochab_events.system_ok_def
      by (auto simp: event_kernel_inv_def timer_kernel_inv_def kernel_inv_def preempt_ok_def)
    then have k'_eq: "k'\<lparr>k_preempt_disabled := True\<rparr> = k'" by (cases k') simp
    have "kochab_ok c nev k'"
      using ok k'(1) wakes(2,3) same unfolding kochab_ok_def k'_eq
      by (simp add: mutexes_ok_def semaphores_ok_def sem_waiters_inv_def sem_waiting_for_def value_of_def holder_of_def)
    moreover have "kochab_stays c k k' t" if t: "unat t < tasks_length c" for t
      using wakes(5) [OF t] k'(3) t
      by (intro kochab_staysI) (auto simp: same waiting_for_def sem_waiting_for_def holder_of_def pi_is_runnable_def)
    ultimately show ?thesis using Inr uk k'(4-9) d' wakes(1) by (simp add: decided_def irq_ok_def)
  qed
qed

lemma kochab_stays_flags:
  "kochab_stays c k (k\<lparr>k_current_task := u, k_preempt_disabled := d, k_interrupts_enabled := b\<rparr>) t"
  "kochab_stays c k (k\<lparr>k_preempt_disabled := d, k_interrupts_enabled := b\<rparr>) t"
  by (simp_all add: kochab_stays_def waiting_for_def sem_waiting_for_def holder_of_def pending_of_def)

text \<open>The current task was picked and goes on.\<close>

lemma decided_stays:
  assumes "decided c nev (k_current_task k) k" and "threads_ok c k threads" and "threads (k_current_task k) \<noteq> Leaving"
  shows "kochab_inv c nev
    (k\<lparr>k_preempt_disabled := (threads (k_current_task k) \<noteq> Running), k_interrupts_enabled := True\<rparr>, threads)"
  using assms threads_ok_stays [OF kochab_stays_flags(2) assms(2)] pi_picks_runnable [of "k_sched k" "k_current_task k"]
  by (simp add: kochab_inv_def decided_def)

lemma yield_resumed:
  "k_preempt_disabled k \<Longrightarrow> ppce500_yield_resume c (Yield_Syscall u True) k = Inr (Finished (), k\<lparr>k_interrupts_enabled := True\<rparr>)"
  "\<not> k_preempt_disabled k \<Longrightarrow>
     ppce500_preempt_enable_resume c (Yield_Syscall u False) k = Inr (Finished (), k\<lparr>k_interrupts_enabled := True\<rparr>)"
  by (simp_all add: ppce500_yield_resume_def ppce500_preempt_enable_resume_def yield_common_resumed preempt_enable_end_def
      co_bind_def co_finish_def kbind_def kreturn_def kgets_def irq_defs preempt_ok_def)

lemma kochab_switch_eq:
  fixes k :: "(pi_sched, 'z) ppc_kernel_scheme"
  shows "kochab_switch (preemptive c) u (k, threads) =
    Inr (k\<lparr>k_current_task := u, k_preempt_disabled := in_kernel (threads u), k_interrupts_enabled := True\<rparr>,
         threads(u := if threads u = Leaving then Running else threads u))"
  by (cases "threads u")
    (simp_all add: kochab_switch_def kochab_restore_def kochab_switched_def in_kernel_def yield_resumed kbind_def kreturn_def
      kmodify_def fun_upd_idem_iff)

lemma decided_switches:
  fixes k :: "(pi_sched, 'z) ppc_kernel_scheme"
  assumes "decided c nev u k" and "threads_ok c k threads"
  shows "\<exists>st. kochab_switch (preemptive c) u (k, threads) = Inr st \<and> kochab_inv c nev st \<and>
    (\<forall>t. kochab_stays c k (fst st) t)"
proof -
  let ?k = "k\<lparr>k_current_task := u, k_preempt_disabled := in_kernel (threads u), k_interrupts_enabled := True\<rparr>"
  have u: "unat u < tasks_length c" "pi_is_runnable (k_sched k) u"
    using assms(1) pi_picks_runnable [of "k_sched k" u] by (simp_all add: decided_def)
  have "threads_ok c ?k threads" by (rule threads_ok_stays [OF kochab_stays_flags(1) assms(2)])
  then have "threads_ok c ?k (threads(u := if threads u = Leaving then Running else threads u))"
    using u by (simp add: threads_ok_def kochab_thread_ok_def)
  moreover have "kochab_ok c nev ?k"
    using assms(1) kochab_ok_current [of c nev k u] by (simp add: decided_def)
  ultimately have "kochab_inv c nev (?k, threads(u := if threads u = Leaving then Running else threads u))"
    using assms(1) u(2) by (simp add: kochab_inv_def decided_def in_kernel_def)
  then show ?thesis using kochab_switch_eq [of c u k threads] kochab_stays_flags(1) by fastforce
qed

section \<open>Every step keeps the invariant\<close>

text \<open>
  Giving up the processor, in \<open>yield\<close> or in \<open>preempt_enable\<close> with a preemption pending, with the flag that
  the task is to continue with.
\<close>

definition gives_up ::
  "config \<Rightarrow> (nat \<Rightarrow> ((pi_sched, 'z) ppc_kernel_scheme, u8) kop) \<Rightarrow> nat \<Rightarrow> bool \<Rightarrow>
     ((pi_sched, 'z) ppc_kernel_scheme, (yield_pc, unit) progress) kop"
where
  "gives_up c get_next fuel d = (if d then ppce500_yield c get_next fuel else ppce500_preempt_enable c get_next fuel)"

definition after_giving_up ::
  "config \<Rightarrow> u8 \<Rightarrow> (u8 \<Rightarrow> kochab_thread) \<Rightarrow> failure + (yield_pc, unit) progress \<times> (pi_sched, 'z) ppc_kernel_scheme \<Rightarrow>
     kochab_thread \<Rightarrow> failure + 'z kochab_state"
where
  "after_giving_up c me threads r thread =
     (case r of
        Inl e \<Rightarrow> Inl e
      | Inr (Finished _, k2) \<Rightarrow> Inr (k2, threads(me := thread))
      | Inr (Suspended (Yield_Syscall to _), k2) \<Rightarrow>
          kochab_switch c to (k2, threads(me := if thread = Running then Leaving else thread)))"

lemma gives_up_ok:
  fixes k :: "(pi_sched, 'z) ppc_kernel_scheme"
  assumes ok: "kochab_ok c nev k" and k: "k_preempt_disabled k" "k_interrupts_enabled k"
    and arrivals: "arrivals_ok nev a" and pending: "thread = Running \<Longrightarrow> k_preempt_pending k"
    and threads: "threads_ok c k (threads(me := thread))" "thread \<noteq> Leaving" and me: "k_current_task k = me"
  shows "case after_giving_up (preemptive c) me threads
      (gives_up (preemptive c) (kochab_scheduler (preemptive c) undef a) fuel (thread \<noteq> Running) k) thread of
        Inl e \<Rightarrow> e = Diverges \<and> (\<exists>e. preempt_irq_scheduler_loop (kochab_scheduler (preemptive c) undef a) fuel 0 k = Inl e)
      | Inr st \<Rightarrow> kochab_inv c nev st \<and> (\<forall>t. unat t < tasks_length c \<longrightarrow> kochab_stays c k (fst st) t)"
proof -
  let ?c = "preemptive c" and ?loop = "preempt_irq_scheduler_loop (kochab_scheduler (preemptive c) undef a) fuel 0 k"
  let ?up = "gives_up (preemptive c) (kochab_scheduler (preemptive c) undef a) fuel (thread \<noteq> Running) k"
  have cur: "current_ok ?c k" by (rule kochab_okD(6) [OF ok])
  note decides = kochab_decides [OF ok k(1) arrivals, of undef fuel]
  show ?thesis
  proof (cases ?loop)
    case (Inl e)
    have "?up = Inl e" using scheduler_fails [OF k cur Inl] pending by (auto simp: gives_up_def)
    then show ?thesis using decides Inl by (simp add: after_giving_up_def)
  next
    case (Inr uk)
    obtain u k' where uk: "uk = (u, k')" by (cases uk)
    have k': "decided c nev u k'" "k_current_task k' = me" "\<And>t. unat t < tasks_length c \<Longrightarrow> kochab_stays c k k' t"
      using decides Inr uk me by simp_all
    have irq: "irq_ok ?c k'" and run: "?loop = Inr (u, k')" using k'(1) Inr uk by (simp_all add: decided_def)
    have up: "?up = (if me \<noteq> u then Inr (Suspended (Yield_Syscall u (thread \<noteq> Running)), k')
        else Inr (Finished (), k'\<lparr>k_preempt_disabled := (thread \<noteq> Running), k_interrupts_enabled := True\<rparr>))"
      using ppce500_yield_run [OF k cur run irq] ppce500_preempt_enable_pending [OF k(2,1) _ cur run irq] pending me
      by (auto simp: gives_up_def)
    have threads': "threads_ok c k' (threads(me := thread))" by (rule threads_ok_stays [OF k'(3) threads(1)])
    show ?thesis
    proof (cases "me = u")
      case True
      have "kochab_inv c nev (k'\<lparr>k_preempt_disabled := (thread \<noteq> Running), k_interrupts_enabled := True\<rparr>, threads(me := thread))"
        using decided_stays [OF _ threads'] k'(1,2) True threads(2) by simp
      moreover have "kochab_stays c k (k'\<lparr>k_preempt_disabled := (thread \<noteq> Running), k_interrupts_enabled := True\<rparr>) t"
        if "unat t < tasks_length c" for t
        by (rule kochab_stays_trans [OF k'(3) [OF that] kochab_stays_flags(2)])
      ultimately show ?thesis using up True by (simp add: after_giving_up_def)
    next
      case False
      let ?threads = "threads(me := if thread = Running then Leaving else thread)"
      have "threads_ok c k' ?threads" using threads' by (auto simp: threads_ok_def kochab_thread_ok_def)
      then obtain st where "kochab_switch ?c u (k', ?threads) = Inr st" "kochab_inv c nev st"
        "\<forall>t. kochab_stays c k' (fst st) t"
        using decided_switches [OF k'(1)] by blast
      moreover have "kochab_stays c k (fst st) t" if "unat t < tasks_length c" for t
        using kochab_stays_trans [OF k'(3) [OF that]] calculation(3) by blast
      ultimately show ?thesis using up False by (simp add: after_giving_up_def)
    qed
  qed
qed

lemma kochab_arrive_eq:
  fixes k :: "(pi_sched, 'z) ppc_kernel_scheme"
  assumes "ticked \<Longrightarrow> k_timer_pending_ticks k = 0"
  shows "kochab_arrive (preemptive c) (e, ticked) k =
    Inr ((), k\<lparr>k_interrupt_event := k_interrupt_event k OR e,
      k_timer_pending_ticks := if ticked then 1 else k_timer_pending_ticks k,
      k_preempt_pending := k_preempt_pending k \<or> e \<noteq> 0 \<or> ticked\<rparr>)"
  using assms by (cases k)
    (auto simp: kochab_arrive_def kop_defs isr_raise_eq rtos_timer_tick_def armv7m_timer_tick_def pend_def)

lemma kochab_arrived:
  fixes k :: "(pi_sched, 'z) ppc_kernel_scheme" and ticked p :: bool
  assumes "kochab_ok c nev k" and "events_below nev e"
  defines "k' \<equiv> k\<lparr>k_interrupt_event := k_interrupt_event k OR e,
      k_timer_pending_ticks := if ticked then 1 else k_timer_pending_ticks k, k_preempt_pending := p\<rparr>"
  shows "kochab_ok c nev k'" and "kochab_stays c k k' t"
proof -
  have "k_timer_pending_ticks k \<le> 1" using assms(1) by (simp add: kochab_ok_unfold)
  then show "kochab_ok c nev k'"
    using kochab_ok_ticks [OF kochab_ok_event [OF assms(1,2)], of "if ticked then 1 else k_timer_pending_ticks k"]
    by (simp add: k'_def)
  show "kochab_stays c k k' t"
    by (simp add: k'_def kochab_stays_def waiting_for_def sem_waiting_for_def holder_of_def pending_of_def)
qed

text \<open>A turn that does not return has run out of fuel in the scheduler, with those of the tasks \<open>ts\<close> that were runnable still runnable.\<close>

definition fails_scheduling ::
  "config \<Rightarrow> nat \<Rightarrow> (nat \<Rightarrow> ((pi_sched, 'z) ppc_kernel_scheme, u8) kop) \<Rightarrow> nat \<Rightarrow> u8 set \<Rightarrow> (pi_sched, 'z) ppc_kernel_scheme \<Rightarrow> bool"
where
  "fails_scheduling c nev get_next fuel ts k \<longleftrightarrow> (\<exists>k1. kochab_ok c nev k1 \<and> k_preempt_disabled k1 \<and>
     (\<forall>t \<in> ts. unat t < tasks_length c \<longrightarrow> pi_is_runnable (k_sched k) t \<longrightarrow> pi_is_runnable (k_sched k1) t) \<and>
     (\<exists>e. preempt_irq_scheduler_loop get_next fuel 0 k1 = Inl e))"

lemma fails_schedulingI:
  assumes "kochab_ok c nev k1" and "k_preempt_disabled k1"
    and "\<And>t. unat t < tasks_length c \<Longrightarrow> t \<in> ts \<Longrightarrow> kochab_stays c k k1 t"
    and "preempt_irq_scheduler_loop get_next fuel 0 k1 = Inl e"
  shows "fails_scheduling c nev get_next fuel ts k"
  using assms unfolding fails_scheduling_def by (intro exI [of _ k1]) (auto simp: kochab_stays_def)

lemma kochab_turn_ok:
  fixes k :: "(pi_sched, 'z) ppc_kernel_scheme"
  assumes inv: "kochab_inv c nev (k, threads)" and call: "kochab_call_ok c k call"
    and arrived: "arrival_ok nev k arrived" and arrivals: "arrivals_ok nev a"
  shows "case kochab_turn (preemptive c) (kochab_scheduler (preemptive c) undef a) fuel arrived call (k, threads) of
      Inl e \<Rightarrow> e = Diverges \<and> fails_scheduling c nev (kochab_scheduler (preemptive c) undef a) fuel {t. t \<noteq> k_current_task k} k
    | Inr st \<Rightarrow> kochab_inv c nev st \<and>
        (\<forall>t. unat t < tasks_length c \<longrightarrow> t \<noteq> k_current_task k \<longrightarrow> kochab_stays c k (fst st) t)"
proof -
  let ?me = "k_current_task k" and ?c = "preemptive c" and ?gn = "kochab_scheduler (preemptive c) undef a"
  obtain e ticked where ar: "arrived = (e, ticked)" by (cases arrived)
  have ok: "kochab_ok c nev k" "threads_ok c k threads" "k_interrupts_enabled k" "pi_is_runnable (k_sched k) ?me"
    "threads ?me \<noteq> Leaving" "k_preempt_disabled k = (threads ?me \<noteq> Running)" "k_preempt_pending k \<longrightarrow> k_preempt_disabled k"
    using inv unfolding kochab_inv_def by auto
  have others: "others_ok c k threads" using ok(2) by (simp add: others_ok_def threads_ok_def)
  have me: "kochab_thread_ok c k ?me (threads ?me)" using ok(2) kochab_okD(7) [OF ok(1)] by (simp add: threads_ok_def)
  obtain thread k1 where run: "(if threads ?me = Running then kochab_invoke ?c call
      else kochab_continue ?c (threads ?me)) k = Inr (thread, k1)" and k1: "kochab_result c nev k thread k1"
  proof (cases "threads ?me = Running")
    case True
    then show ?thesis using kochab_invoke_ok [OF ok(1,4) _ others call] ok(6) that by fastforce
  next
    case False
    then show ?thesis using kochab_continue_ok [OF ok(1,4) _ others me] ok(5,6) that by fastforce
  qed
  have r: "kochab_ok c nev k1" "kochab_thread_ok c k1 ?me thread" "k_current_task k1 = ?me"
    "k_preempt_disabled k1 = (thread \<noteq> Running)" "thread \<noteq> Leaving" "k_interrupts_enabled k1"
    "k_interrupt_event k1 = k_interrupt_event k" "k_timer_pending_ticks k1 = k_timer_pending_ticks k"
    and st1: "\<And>t. unat t < tasks_length c \<Longrightarrow> t \<noteq> ?me \<Longrightarrow> kochab_stays c k k1 t"
    using k1 ok(3) by (simp_all add: kochab_result_def)
  let ?k2 = "k1\<lparr>k_interrupt_event := k_interrupt_event k1 OR e,
      k_timer_pending_ticks := if ticked then 1 else k_timer_pending_ticks k1,
      k_preempt_pending := k_preempt_pending k1 \<or> e \<noteq> 0 \<or> ticked\<rparr>"
  let ?k3 = "?k2\<lparr>k_preempt_disabled := True\<rparr>"
  have e: "events_below nev e" "ticked \<Longrightarrow> k_timer_pending_ticks k1 = 0" using arrived r(8) by (auto simp: ar arrival_ok_def)
  note arrive = kochab_arrive_eq [where k = k1 and e = e and ticked = ticked and c = c, OF e(2)]
  note k2 = kochab_arrived [OF r(1) e(1), where ticked = ticked and p = "k_preempt_pending k1 \<or> e \<noteq> 0 \<or> ticked"]
  have "threads_ok c k1 (threads(?me := thread))" by (rule threads_ok_update [OF st1 ok(2) r(2)])
  from threads_ok_stays [OF k2(2) this] have t2: "threads_ok c ?k2 (threads(?me := thread))" .
  have "kochab_stays c ?k2 ?k3 t" for t by (simp add: kochab_stays_def waiting_for_def sem_waiting_for_def holder_of_def pending_of_def)
  from threads_ok_stays [OF this t2] have t3: "threads_ok c ?k3 (threads(?me := thread))" .
  have st3: "kochab_stays c k ?k3 t" if "unat t < tasks_length c" "t \<noteq> ?me" for t
    using st1 [OF that] kochab_stays_trans [OF st1 [OF that] k2(2)] by (simp add: kochab_stays_def waiting_for_def sem_waiting_for_def holder_of_def pending_of_def)
  have ok3: "kochab_ok c nev ?k3" using k2(1) by simp
  show ?thesis
  proof (cases "thread = Running \<and> \<not> k_preempt_pending ?k2")
    case True
    then have calm: "thread = Running" "\<not> k_preempt_pending k1" "e = 0" "\<not> ticked" by simp_all
    then have "k_preempt_pending k1 = k_preempt_pending k" "k_sched k1 = k_sched k" using k1 by (auto simp: kochab_result_def)
    then have picks: "k_interrupt_event k = 0" "k_timer_pending_ticks k = 0" "pi_picks (k_sched k1) ?me" "pi_is_runnable (k_sched k1) ?me"
      using inv calm by (simp_all add: kochab_inv_def)
    have turn: "kochab_turn ?c ?gn fuel arrived call (k, threads) = Inr (?k2, threads(?me := Running))"
    proof -
      have "ppce500_preempt_enable ?c ?gn fuel ?k3 = Inr (Finished (), ?k3\<lparr>k_preempt_disabled := False\<rparr>)"
        by (rule ppce500_preempt_enable_none(1)) (use r calm in simp_all)
      moreover have "?k3\<lparr>k_preempt_disabled := False\<rparr> = ?k2" using r(4) calm(1) by (cases k1) simp
      ultimately show ?thesis
        using run calm(1) arrive by (simp add: kochab_turn_def Let_def ar kbind_def set_preempt_disabled_def kmodify_def)
    qed
    have "kochab_inv c nev (?k2, threads(?me := Running))"
      using k2(1) t2 r calm picks by (simp add: kochab_inv_def)
    then show ?thesis using turn kochab_stays_trans [OF st1 k2(2)] by simp
  next
    case False
    have k3: "?k3 = ?k2" if "thread \<noteq> Running" using r(4) that by (cases k1) simp
    have turn: "kochab_turn ?c ?gn fuel arrived call (k, threads) =
        after_giving_up ?c ?me threads (gives_up ?c ?gn fuel (thread \<noteq> Running) ?k3) thread"
      using run arrive k3 by (simp add: kochab_turn_def after_giving_up_def gives_up_def Let_def ar kbind_def set_preempt_disabled_def kmodify_def)
    have up: "case after_giving_up ?c ?me threads (gives_up ?c ?gn fuel (thread \<noteq> Running) ?k3) thread of
        Inl e \<Rightarrow> e = Diverges \<and> (\<exists>e. preempt_irq_scheduler_loop ?gn fuel 0 ?k3 = Inl e)
      | Inr st \<Rightarrow> kochab_inv c nev st \<and> (\<forall>t. unat t < tasks_length c \<longrightarrow> kochab_stays c ?k3 (fst st) t)"
      by (rule gives_up_ok [OF ok3]) (use r arrivals False t3 in simp_all)
    have "fails_scheduling c nev ?gn fuel {t. t \<noteq> ?me} k" if "preempt_irq_scheduler_loop ?gn fuel 0 ?k3 = Inl e" for e
      by (rule fails_schedulingI [OF ok3 _ _ that]) (use st3 in simp_all)
    then show ?thesis
      unfolding turn using up kochab_stays_trans [OF st3] by (split sum.split_asm) (simp, blast, simp)
  qed
qed

lemma kochab_interrupt_ok:
  fixes k :: "(pi_sched, 'z) ppc_kernel_scheme"
  assumes inv: "kochab_inv c nev (k, threads)" and arrived: "arrival_ok nev k arrived" and arrivals: "arrivals_ok nev a"
  shows "case kochab_interrupt (preemptive c) (kochab_scheduler (preemptive c) undef a) fuel arrived (k, threads) of
      Inl e \<Rightarrow> e = Diverges \<and> fails_scheduling c nev (kochab_scheduler (preemptive c) undef a) fuel UNIV k
    | Inr st \<Rightarrow> kochab_inv c nev st \<and> (\<forall>t. unat t < tasks_length c \<longrightarrow> kochab_stays c k (fst st) t)"
proof -
  let ?me = "k_current_task k" and ?c = "preemptive c" and ?gn = "kochab_scheduler (preemptive c) undef a"
  obtain e ticked where ar: "arrived = (e, ticked)" by (cases arrived)
  have ok: "kochab_ok c nev k" "threads_ok c k threads" "k_interrupts_enabled k" "pi_is_runnable (k_sched k) ?me"
    "threads ?me \<noteq> Leaving" "k_preempt_disabled k = (threads ?me \<noteq> Running)"
    using inv unfolding kochab_inv_def by auto
  let ?k1 = "k\<lparr>k_interrupt_event := k_interrupt_event k OR e,
      k_timer_pending_ticks := if ticked then 1 else k_timer_pending_ticks k, k_interrupts_enabled := False\<rparr>"
  let ?k2 = "k\<lparr>k_interrupt_event := k_interrupt_event k OR e,
      k_timer_pending_ticks := if ticked then 1 else k_timer_pending_ticks k, k_preempt_pending := True\<rparr>"
  let ?k3 = "?k1\<lparr>k_preempt_pending := True, k_preempt_disabled := True\<rparr>"
  have e: "events_below nev e" "ticked \<Longrightarrow> k_timer_pending_ticks k = 0" using arrived by (auto simp: ar arrival_ok_def)
  note k2 = kochab_arrived [OF ok(1) e(1), where ticked = ticked and p = True]
  have isr: "kbind interrupts_disable (\<lambda>_. kbind (isr_raise e) (\<lambda>_. kbind (kwhen ticked rtos_timer_tick) (\<lambda>_. wrapper))) k =
      wrapper ?k1" for wrapper :: "((pi_sched, 'z) ppc_kernel_scheme, u8) kop"
    using e(2) by (cases ticked; cases k)
      (simp_all add: kop_defs interrupts_disable_def isr_raise_eq rtos_timer_tick_def armv7m_timer_tick_def)
  have k3: "?k3 = ?k2\<lparr>k_preempt_disabled := True, k_interrupts_enabled := False\<rparr>" by simp
  have ok3: "kochab_ok c nev ?k3" unfolding k3 using k2(1) by simp
  have st3: "kochab_stays c k ?k3 t" for t
    unfolding k3 by (rule kochab_stays_trans [OF k2(2) kochab_stays_flags(2)])
  have len: "tasks_length ?c \<le> 255" using kochab_okD(15) [OF ok(1)] by simp
  show ?thesis
  proof (cases "k_preempt_disabled k")
    case True
    have "rtos_internal_preempt_irq_scheduler_wrapper ?c ?gn fuel ?k1 = Inr (TASK_ID_NONE, ?k1\<lparr>k_preempt_pending := True\<rparr>)"
      by (rule irq_wrapper_disabled) (use True in simp_all)
    moreover have "?k1\<lparr>k_preempt_pending := True, k_interrupts_enabled := True\<rparr> = ?k2" using ok(3) by (cases k) simp
    ultimately have "kochab_interrupt ?c ?gn fuel arrived (k, threads) = Inr (?k2, threads)"
      by (simp add: kochab_interrupt_def ar isr)
    moreover have "kochab_inv c nev (?k2, threads)"
      using k2(1) threads_ok_stays [OF k2(2) ok(2)] ok True by (simp add: kochab_inv_def)
    ultimately show ?thesis using k2(2) by simp
  next
    case False
    have disabled: "k_preempt_disabled ?k3" "\<not> k_interrupts_enabled ?k1" "\<not> k_preempt_disabled ?k1" using False by simp_all
    note decides = kochab_decides [OF ok3 disabled(1) arrivals, of undef fuel]
    show ?thesis
    proof (cases "preempt_irq_scheduler_loop ?gn fuel 0 ?k3")
      case (Inl f)
      have "kochab_interrupt ?c ?gn fuel arrived (k, threads) = Inl f"
        using irq_wrapper_fails [OF disabled(2,3), of ?gn fuel f ?c] Inl by (simp add: kochab_interrupt_def ar isr)
      then show ?thesis
        using decides Inl fails_schedulingI [OF ok3 disabled(1) st3 Inl] by simp
    next
      case (Inr uk)
      obtain u k' where uk: "uk = (u, k')" by (cases uk)
      have k': "decided c nev u k'" "k_current_task k' = ?me" "\<And>t. unat t < tasks_length c \<Longrightarrow> kochab_stays c ?k3 k' t"
        using decides Inr uk by simp_all
      have u: "irq_ok ?c k'" "unat u < tasks_length ?c" using k'(1) by (simp_all add: decided_def)
      have st: "kochab_stays c k k' t" if "unat t < tasks_length c" for t by (rule kochab_stays_trans [OF st3 k'(3) [OF that]])
      from threads_ok_stays [OF st ok(2)] have threads': "threads_ok c k' threads" .
      have wrapper: "rtos_internal_preempt_irq_scheduler_wrapper ?c ?gn fuel ?k1 =
          (if u = k_current_task k' then Inr (TASK_ID_NONE, k'\<lparr>k_preempt_disabled := False\<rparr>) else Inr (u, k'))"
        by (rule irq_wrapper_enabled [OF disabled(2,3) _ u len]) (use Inr uk in simp)
      show ?thesis
      proof (cases "u = ?me")
        case True
        have "kochab_interrupt ?c ?gn fuel arrived (k, threads) =
            Inr (k'\<lparr>k_preempt_disabled := False, k_interrupts_enabled := True\<rparr>, threads)"
          using wrapper True k'(2) by (simp add: kochab_interrupt_def ar isr)
        then show ?thesis
          using decided_stays [OF _ threads'] k'(1,2) True ok(5,6) False kochab_stays_trans [OF st kochab_stays_flags(2)] by simp
      next
        case False
        have "u \<noteq> TASK_ID_NONE" using u(2) len by (auto simp: TASK_ID_NONE_def)
        then have "kochab_interrupt ?c ?gn fuel arrived (k, threads) = kochab_switch ?c u (k', threads)"
          using wrapper False k'(2) by (simp add: kochab_interrupt_def ar isr)
        then show ?thesis using decided_switches [OF k'(1) threads'] kochab_stays_trans [OF st] by auto
      qed
    qed
  qed
qed

lemma kochab_step_inv: "kochab_step c nev st st' \<Longrightarrow> kochab_inv c nev st \<Longrightarrow> kochab_inv c nev st'"
proof (induction rule: kochab_step.induct)
  case (Turn call k arrived a undef fuel threads st)
  then show ?case using kochab_turn_ok [OF Turn.prems Turn.hyps(1-3), of undef fuel] by simp
next
  case (Interrupt k arrived a undef fuel threads st)
  then show ?case using kochab_interrupt_ok [OF Interrupt.prems Interrupt.hyps(1,2), of undef fuel] by simp
qed

text \<open>A system starts with task 0 in its entry function, all tasks runnable, and no mutex held.\<close>

definition kochab_initial :: "config \<Rightarrow> nat \<Rightarrow> 'z kochab_state \<Rightarrow> bool" where
  "kochab_initial c nev = (\<lambda>(k, threads). kochab_ok c nev k \<and> threads = (\<lambda>_. Starting) \<and> k_current_task k = TASK_ID_ZERO \<and>
     (\<forall>t. unat t < tasks_length c \<longrightarrow> pi_is_runnable (k_sched k) t) \<and> k_interrupts_enabled k \<and> k_preempt_disabled k \<and>
     \<not> k_preempt_pending k \<and> k_interrupt_event k = 0 \<and> k_timer_pending_ticks k = 0)"

lemma kochab_initial_inv: "kochab_initial c nev (k, threads) \<Longrightarrow> kochab_inv c nev (k, threads)"
proof -
  assume init: "kochab_initial c nev (k, threads)"
  then have ok: "kochab_ok c nev k" "k_current_task k = 0" "\<forall>t. unat t < tasks_length c \<longrightarrow> pi_is_runnable (k_sched k) t"
    by (simp_all add: kochab_initial_def TASK_ID_ZERO_def)
  have zero: "unat (0 :: u8) < pi_ntasks (k_sched k)" "pi_next (k_sched k) 0 = 0"
    using kochab_okD(7,10) [OF ok(1)] ok(2,3) by (auto simp: pi_is_runnable_def)
  from pi_serves_self [OF zero] have "pi_picks (k_sched k) 0"
    using zero(1) unfolding pi_picks_def by (intro exI [of _ 0]) simp
  then show ?thesis
    using init ok zero by (auto simp: kochab_initial_def kochab_inv_def threads_ok_def kochab_thread_ok_def pi_is_runnable_def)
qed

lemma kochab_reachable_inv: "(kochab_step c nev)\<^sup>*\<^sup>* st0 st \<Longrightarrow> kochab_initial c nev st0 \<Longrightarrow> kochab_inv c nev st"
proof (induction rule: rtranclp_induct)
  case base
  then show ?case by (cases st0) (simp add: kochab_initial_inv)
next
  case (step st st')
  then show ?case using kochab_step_inv by blast
qed

section \<open>Runs for examples\<close>

text \<open>
  Turns and interrupts that nothing else interferes with: the state after them, if all of them are
  allowed. Two runs of the scheduler are enough for each.
\<close>

datatype kochab_action = Act kochab_call | Raise u32 | Tick

definition kochab_act :: "config \<Rightarrow> kochab_action \<Rightarrow> 'z kochab_state \<Rightarrow> failure + 'z kochab_state" where
  "kochab_act c action st =
     (case action of
        Act call \<Rightarrow> kochab_turn (preemptive c) (kochab_scheduler (preemptive c) 0 no_arrivals) 2 (0, False) call st
      | Raise e \<Rightarrow> kochab_interrupt (preemptive c) (kochab_scheduler (preemptive c) 0 no_arrivals) 2 (e, False) st
      | Tick \<Rightarrow> kochab_interrupt (preemptive c) (kochab_scheduler (preemptive c) 0 no_arrivals) 2 (0, True) st)"

lemma no_arrivals_ok: "arrivals_ok nev no_arrivals" "arrivals_cease 0 no_arrivals"
  by (simp_all add: no_arrivals_def arrivals_ok_def arrivals_cease_def)

lemma events_below_take_bit: "take_bit nev e = e \<Longrightarrow> events_below nev e"
  by (metis events_below_def bit_take_bit_iff)

definition kochab_allowed :: "config \<Rightarrow> nat \<Rightarrow> kochab_action \<Rightarrow> 'z kochab_state \<Rightarrow> bool" where
  "kochab_allowed c nev action st =
     (case action of Act call \<Rightarrow> kochab_call_ok c (fst st) call | Raise e \<Rightarrow> take_bit nev e = e
      | Tick \<Rightarrow> k_timer_pending_ticks (fst st) = 0)"

primrec kochab_run :: "config \<Rightarrow> nat \<Rightarrow> kochab_action list \<Rightarrow> 'z kochab_state \<Rightarrow> 'z kochab_state option" where
  "kochab_run c nev [] st = Some st"
| "kochab_run c nev (action # actions) st =
     (if kochab_allowed c nev action st
      then case kochab_act c action st of Inl _ \<Rightarrow> None | Inr st' \<Rightarrow> kochab_run c nev actions st'
      else None)"

lemma kochab_act_step: "kochab_allowed c nev action st \<Longrightarrow> kochab_act c action st = Inr st' \<Longrightarrow> kochab_step c nev st st'"
proof -
  assume action: "kochab_allowed c nev action st" "kochab_act c action st = Inr st'"
  have "kochab_step c nev (fst st, snd st) st'"
  proof (cases action)
    case (Act call)
    show ?thesis
      by (rule Turn [where call = call and arrived = "(0, False)" and a = no_arrivals and fuel = 2 and undef = 0])
        (use Act action in \<open>simp_all add: kochab_allowed_def kochab_act_def arrival_ok_def no_arrivals_ok\<close>)
  next
    case (Raise e)
    show ?thesis
      by (rule Interrupt [where arrived = "(e, False)" and a = no_arrivals and fuel = 2 and undef = 0])
        (use Raise action events_below_take_bit in \<open>simp_all add: kochab_allowed_def kochab_act_def arrival_ok_def no_arrivals_ok\<close>)
  next
    case Tick
    show ?thesis
      by (rule Interrupt [where arrived = "(0, True)" and a = no_arrivals and fuel = 2 and undef = 0])
        (use Tick action in \<open>simp_all add: kochab_allowed_def kochab_act_def arrival_ok_def no_arrivals_ok events_below_def\<close>)
  qed
  then show ?thesis by simp
qed

lemma kochab_run_reaches: "kochab_run c nev actions st = Some st' \<Longrightarrow> (kochab_step c nev)\<^sup>*\<^sup>* st st'"
proof (induction actions arbitrary: st)
  case (Cons action actions)
  then obtain st1 where "kochab_step c nev st st1" "kochab_run c nev actions st1 = Some st'"
    by (auto split: if_splits sum.splits intro: kochab_act_step)
  then show ?case using Cons.IH by (meson converse_rtranclp_into_rtranclp)
qed simp

text \<open>
  In the example, task 0 waits for the signals 8, task 1 then locks the mutex, an interrupt wakes task 0,
  which preempts task 1, and waits for the mutex. So task 1 runs again, although task 0 is more urgent.
  When it unlocks the mutex, task 0 preempts it.
\<close>

definition kochab_begin :: "pi_sched ppc_kernel" where
  "kochab_begin = kochab_example\<lparr>k_current_task := 0, k_preempt_disabled := True, k_sched := pi_example [0, 1, 2],
     k_mutexes := [\<lparr>mx_holder = 255\<rparr>], k_sem_waiters := [255, 255, 255]\<rparr>"

definition kochab_actions :: "kochab_action list" where
  "kochab_actions = [Act (Signal_Poll 0), Act (Signal_Wait 8), Act (Signal_Poll 0), Act (Mutex_Lock 0), Raise 1,
     Act (Signal_Poll 0), Act (Mutex_Lock 0)]"

lemma kochab_reached:
  "\<exists>k threads. kochab_run kochab_config 1 kochab_actions (kochab_begin, \<lambda>_. Starting) = Some (k, threads) \<and>
     (kochab_step kochab_config 1)\<^sup>*\<^sup>* (kochab_begin, \<lambda>_. Starting) (k, threads) \<and>
     k_current_task k = 1 \<and> threads 1 = Running \<and> holder_of k 0 = 1 \<and> length (k_mutexes k) = 1 \<and>
     \<not> pi_is_runnable (k_sched k) 0 \<and> pi_is_runnable (k_sched k) 2 \<and> threads 2 = Starting \<and> k_timer_pending_ticks k = 0 \<and>
     kochab_allowed kochab_config 1 (Act (Mutex_Unlock 0)) (k, threads) \<and>
     (\<exists>k' threads'. kochab_act kochab_config (Act (Mutex_Unlock 0)) (k, threads) = Inr (k', threads') \<and>
        holder_of k' 0 = TASK_ID_NONE \<and> k_current_task k' = 0)"
proof -
  have "case kochab_run kochab_config 1 kochab_actions (kochab_begin, \<lambda>_. Starting) of None \<Rightarrow> False
    | Some (k, threads) \<Rightarrow> k_current_task k = 1 \<and> threads 1 = Running \<and> holder_of k 0 = 1 \<and> length (k_mutexes k) = 1 \<and>
     \<not> pi_is_runnable (k_sched k) 0 \<and> pi_is_runnable (k_sched k) 2 \<and> threads 2 = Starting \<and> k_timer_pending_ticks k = 0 \<and>
     kochab_allowed kochab_config 1 (Act (Mutex_Unlock 0)) (k, threads) \<and>
     (case kochab_act kochab_config (Act (Mutex_Unlock 0)) (k, threads) of Inl _ \<Rightarrow> False
      | Inr (k', threads') \<Rightarrow> holder_of k' 0 = TASK_ID_NONE \<and> k_current_task k' = 0)"
    by code_simp
  then obtain k threads where run: "kochab_run kochab_config 1 kochab_actions (kochab_begin, \<lambda>_. Starting) = Some (k, threads)"
    and k: "k_current_task k = 1" "threads 1 = Running" "holder_of k 0 = 1"
      "length (k_mutexes k) = 1" "\<not> pi_is_runnable (k_sched k) 0" "pi_is_runnable (k_sched k) 2" "threads 2 = Starting"
      "k_timer_pending_ticks k = 0" "kochab_allowed kochab_config 1 (Act (Mutex_Unlock 0)) (k, threads)"
    and act: "case kochab_act kochab_config (Act (Mutex_Unlock 0)) (k, threads) of Inl _ \<Rightarrow> False
      | Inr (k', threads') \<Rightarrow> holder_of k' 0 = TASK_ID_NONE \<and> k_current_task k' = 0"
    by (cases "kochab_run kochab_config 1 kochab_actions (kochab_begin, \<lambda>_. Starting)") auto
  then show ?thesis
    using kochab_run_reaches [OF run] by (cases "kochab_act kochab_config (Act (Mutex_Unlock 0)) (k, threads)") auto
qed

lemma kochab_begin_inv: "pi_inv (pi_example [0, 1, 2])"
proof -
  have "pi_closed (pi_example [0, 1, 2])"
    by (simp add: pi_closed_def ids_all ids_simps TASK_ID_NONE_def)
  moreover have "\<forall>t. unat t < 3 \<longrightarrow> (\<exists>p. pi_path (pi_example [0, 1, 2]) t p)"
    using pi_path_end [of 0 "pi_example [0, 1, 2]"] pi_path_end [of 1 "pi_example [0, 1, 2]"]
      pi_path_end [of 2 "pi_example [0, 1, 2]"]
    by (auto simp: ids_all ids_simps TASK_ID_NONE_def)
  ultimately show ?thesis by (simp add: pi_inv_def)
qed

lemma kochab_begin_initial: "kochab_initial kochab_config 1 (kochab_begin, \<lambda>_. Starting)"
proof -
  have "kochab_events.system_ok kochab_config 1 (kochab_begin\<lparr>k_preempt_disabled := True\<rparr>)"
    unfolding kochab_events.system_ok_def
    by (simp add: kochab_begin_def kochab_defs kochab_begin_inv)
  then show ?thesis
    by (auto simp: kochab_initial_def kochab_ok_def kochab_begin_def kochab_defs mutexes_ok_def semaphores_ok_def
      sem_waiters_inv_def sem_waiting_for_def holder_of_def TASK_ID_NONE_def TASK_ID_ZERO_def pi_is_runnable_def ids_all ids_simps)
qed


section \<open>What the system guarantees\<close>

text \<open>
  What a task that is not runnable waits for: a mutex that another task holds, with the waiting recorded
  in the task's entry, or an event, which is a signal that is not pending or a semaphore whose value is zero.
\<close>

definition kochab_waits_for :: "config \<Rightarrow> 'z kochab_state \<Rightarrow> u8 \<Rightarrow> u8 \<Rightarrow> bool" where
  "kochab_waits_for c = (\<lambda>(k, threads) t u.
     unat t < tasks_length c \<and> unat u < tasks_length c \<and> \<not> pi_is_runnable (k_sched k) t \<and>
     (case threads t of
        In_Lock pc \<Rightarrow> (case lock_point pc of
            Some (m, _) \<Rightarrow> unat m < length (k_mutexes k) \<and> holder_of k m = u \<and> waiting_for k t = m \<and>
              pending_of k t AND SIGNAL_ID__TASK_TIMER c = 0
          | None \<Rightarrow> False)
      | _ \<Rightarrow> False))"

definition kochab_waits_event :: "config \<Rightarrow> 'z kochab_state \<Rightarrow> u8 \<Rightarrow> bool" where
  "kochab_waits_event c = (\<lambda>(k, threads) t.
     unat t < tasks_length c \<and> \<not> pi_is_runnable (k_sched k) t \<and>
     (case threads t of
        In_Wait (Sig_Blocked _ r _) \<Rightarrow> pending_of k t AND r = 0
      | In_Sleep _ \<Rightarrow> pending_of k t AND SIGNAL_ID__TASK_TIMER c = 0
      | In_Sem pc \<Rightarrow> (case sem_point pc of (s, _) \<Rightarrow>
          unat s < length (k_semaphores k) \<and> value_of k s = 0 \<and> sem_waiting_for k t = s \<and>
            pending_of k t AND SIGNAL_ID__TASK_TIMER c = 0)
      | _ \<Rightarrow> False))"

lemma kochab_blocked_waits:
  fixes k :: "(pi_sched, 'z) ppc_kernel_scheme"
  assumes "kochab_inv c nev (k, threads)" and t: "unat t < tasks_length c" "\<not> pi_is_runnable (k_sched k) t"
  shows "if pi_next (k_sched k) t = TASK_ID_NONE then kochab_waits_event c (k, threads) t
    else kochab_waits_for c (k, threads) t (pi_next (k_sched k) t)"
proof -
  have ok: "kochab_ok c nev k" "kochab_thread_ok c k t (threads t)"
    using assms by (auto simp: kochab_inv_def threads_ok_def)
  have zero: "value_of k s = 0" if "unat s < length (k_semaphores k)" "sem_waiting_for k t = s" for s
    using kochab_okD(5) [OF ok(1)] that t(1) by (auto simp: sem_waiters_inv_def)
  have holder: "holder_of k m = TASK_ID_NONE \<or> unat (holder_of k m) < tasks_length c" if "unat m < length (k_mutexes k)" for m
    using ok(1) that by (simp add: kochab_ok_def)
  show ?thesis
  proof (cases "threads t")
    case (In_Lock pc)
    then obtain m p where m: "lock_point pc = Some (m, p)" "unat m < length (k_mutexes k)"
      "pending_of k t AND SIGNAL_ID__TASK_TIMER c = 0" "waiting_for k t = m"
      "holder_of k m = pi_next (k_sched k) t" "pi_next (k_sched k) t \<noteq> TASK_ID_NONE"
      using ok(2) t(2) by (auto simp: kochab_thread_ok_def lock_waiting_def sig_waiting_def)
    then show ?thesis using In_Lock t holder [OF m(2)] by (simp add: kochab_waits_for_def)
  next
    case (In_Sem pc)
    then obtain s p where s: "sem_point pc = (s, p)" "unat s < length (k_semaphores k)"
      "pending_of k t AND SIGNAL_ID__TASK_TIMER c = 0" "sem_waiting_for k t = s" "pi_next (k_sched k) t = TASK_ID_NONE"
      using ok(2) t(2) by (auto simp: kochab_thread_ok_def sem_waiting_def sig_waiting_def)
    then show ?thesis using In_Sem t zero [OF s(2,4)] by (simp add: kochab_waits_event_def)
  qed (use ok(2) t in \<open>auto simp: kochab_thread_ok_def sig_waiting_def kochab_waits_event_def\<close>)
qed

lemma kochab_waits_cases:
  fixes k :: "(pi_sched, 'z) ppc_kernel_scheme"
  assumes "kochab_inv c nev (k, threads)" and "unat t < pi_ntasks (k_sched k)" and "pi_next (k_sched k) t \<noteq> t"
  shows "pi_next (k_sched k) t = TASK_ID_NONE \<Longrightarrow> kochab_waits_event c (k, threads) t"
    and "pi_next (k_sched k) t \<noteq> TASK_ID_NONE \<Longrightarrow> kochab_waits_for c (k, threads) t (pi_next (k_sched k) t)"
proof -
  have "pi_ntasks (k_sched k) = tasks_length c" using assms(1) by (auto simp: kochab_inv_def dest: kochab_okD(10))
  then have "if pi_next (k_sched k) t = TASK_ID_NONE then kochab_waits_event c (k, threads) t
      else kochab_waits_for c (k, threads) t (pi_next (k_sched k) t)"
    using kochab_blocked_waits [OF assms(1), of t] assms(2,3) by (simp add: pi_is_runnable_def)
  then show "pi_next (k_sched k) t = TASK_ID_NONE \<Longrightarrow> kochab_waits_event c (k, threads) t"
    and "pi_next (k_sched k) t \<noteq> TASK_ID_NONE \<Longrightarrow> kochab_waits_for c (k, threads) t (pi_next (k_sched k) t)"
    by simp_all
qed

lemma kochab_serves:
  fixes k :: "(pi_sched, 'z) ppc_kernel_scheme"
  assumes inv: "kochab_inv c nev (k, threads)"
  shows "pi_serves (k_sched k) t u \<Longrightarrow> (kochab_waits_for c (k, threads))\<^sup>*\<^sup>* t u"
proof (induction rule: pi_serves.induct)
  case (pi_serves_next t u)
  then show ?case by (meson converse_rtranclp_into_rtranclp kochab_waits_cases(2) [OF inv])
qed simp

lemma kochab_waits_serves:
  fixes k :: "(pi_sched, 'z) ppc_kernel_scheme"
  assumes inv: "kochab_inv c nev (k, threads)"
  shows "pi_waits (k_sched k) t \<Longrightarrow> \<exists>u. (kochab_waits_for c (k, threads))\<^sup>*\<^sup>* t u \<and> kochab_waits_event c (k, threads) u"
proof (induction rule: pi_waits.induct)
  case (pi_waits_none t)
  then show ?case using kochab_waits_cases(1) [OF inv] by blast
next
  case (pi_waits_next t)
  then show ?case by (meson converse_rtranclp_into_rtranclp kochab_waits_cases(2) [OF inv])
qed



lemma kochab_scheduling_returns:
  fixes k :: "(pi_sched, 'z) ppc_kernel_scheme"
  assumes "arrivals_ok nev a" and "arrivals_cease N a"
    and t: "t \<in> ts" "unat t < tasks_length c" "pi_is_runnable (k_sched k) t"
  shows "\<not> fails_scheduling c nev (kochab_scheduler (preemptive c) undef a) (N + 2) ts k"
proof
  assume "fails_scheduling c nev (kochab_scheduler (preemptive c) undef a) (N + 2) ts k"
  then obtain k1 :: "(pi_sched, 'z) ppc_kernel_scheme" and e where k1: "kochab_ok c nev k1" "k_preempt_disabled k1" "pi_is_runnable (k_sched k1) t"
    "preempt_irq_scheduler_loop (kochab_scheduler (preemptive c) undef a) (N + 2) 0 k1 = Inl e"
    using t unfolding fails_scheduling_def by blast
  have "k1\<lparr>k_preempt_disabled := True\<rparr> = k1" using k1(2) by simp
  then have "kochab_events.system_ok c nev k1" using k1(1) by (simp add: kochab_ok_def)
  then show False using kochab_loop_returns [OF _ assms(1,2) t(2) k1(3), of undef] k1(4) by simp
qed

text \<open>
  C7: In every state that a Kochab system reaches, an interrupt is handled to the end and leaves some task running, if
  interrupts cease after \<open>N\<close> runs of the scheduler, at most two runs later. So does a turn of the current task in which
  another task is runnable, even if the current task blocks or the interrupts make it give up the processor.
\<close>
theorem kochab_system_returns:
  fixes k :: "(pi_sched, 'z) ppc_kernel_scheme"
  assumes "(kochab_step c nev)\<^sup>*\<^sup>* st0 (k, threads)" and "kochab_initial c nev st0"
    and "kochab_call_ok c k call" and "arrival_ok nev k arrived" and "arrivals_ok nev a" and "arrivals_cease N a"
  shows "(\<exists>st. kochab_interrupt (preemptive c) (kochab_scheduler (preemptive c) undef a) (N + 2) arrived (k, threads) = Inr st) \<and>
    (unat t < tasks_length c \<longrightarrow> t \<noteq> k_current_task k \<longrightarrow> pi_is_runnable (k_sched k) t \<longrightarrow>
     (\<exists>st. kochab_turn (preemptive c) (kochab_scheduler (preemptive c) undef a) (N + 2) arrived call (k, threads) = Inr st))"
proof -
  have inv: "kochab_inv c nev (k, threads)" by (rule kochab_reachable_inv [OF assms(1,2)])
  then have cur: "unat (k_current_task k) < tasks_length c" "pi_is_runnable (k_sched k) (k_current_task k)"
    by (auto simp: kochab_inv_def dest: kochab_okD)
  show ?thesis
    using kochab_turn_ok [OF inv assms(3-5), of undef "N + 2"] kochab_interrupt_ok [OF inv assms(4,5), of undef "N + 2"]
      kochab_scheduling_returns [OF assms(5,6) UNIV_I cur, of undef]
      kochab_scheduling_returns [OF assms(5,6), of t "{t. t \<noteq> k_current_task k}" c k undef]
    by (auto split: sum.splits)
qed

theorem kochab_system_returns_witness:
  "\<exists>k threads st st'. kochab_run kochab_config 1 kochab_actions (kochab_begin, \<lambda>_. Starting) = Some (k, threads) \<and>
     kochab_interrupt (preemptive kochab_config) (kochab_scheduler (preemptive kochab_config) 0 no_arrivals) (0 + 2) (1, True) (k, threads) = Inr st \<and>
     kochab_turn (preemptive kochab_config) (kochab_scheduler (preemptive kochab_config) 0 no_arrivals) (0 + 2) (1, True) (Sleep 5)
       (k, threads) = Inr st'"
proof -
  obtain k threads where run: "kochab_run kochab_config 1 kochab_actions (kochab_begin, \<lambda>_. Starting) = Some (k, threads)"
    and reached: "(kochab_step kochab_config 1)\<^sup>*\<^sup>* (kochab_begin, \<lambda>_. Starting) (k, threads)"
    and k: "k_current_task k = 1" "threads 1 = Running" "holder_of k 0 = 1" "length (k_mutexes k) = 1" "\<not> pi_is_runnable (k_sched k) 0"
      "pi_is_runnable (k_sched k) 2" "k_timer_pending_ticks k = 0"
    using kochab_reached by blast
  have call: "kochab_call_ok kochab_config k (Sleep 5)" and arrived: "arrival_ok 1 k (1, True)"
    using k by (simp_all add: kochab_call_ok_def arrival_ok_def events_below_def bit_1_iff)
  have "unat (2 :: u8) < tasks_length kochab_config" by (simp add: kochab_defs)
  then show ?thesis
    using run k kochab_system_returns [OF reached kochab_begin_initial call arrived no_arrivals_ok, of 0 2] by simp
qed

text \<open>
  C2: In every state that a Kochab system reaches while a task runs application code, no event and no tick is
  left to process, and the task is the one that the scheduler picks: it is the most urgent task that can proceed, or it
  holds a mutex that this one waits for, directly or through others. Every task that is more urgent
  than that waits for an event, again directly or through the holders of mutexes.
\<close>
theorem kochab_runs_most_urgent:
  fixes k :: "(pi_sched, 'z) ppc_kernel_scheme"
  assumes "(kochab_step c nev)\<^sup>*\<^sup>* st0 (k, threads)" and "kochab_initial c nev st0"
    and "threads (k_current_task k) = Running"
  shows "k_interrupt_event k = 0 \<and> k_timer_pending_ticks k = 0 \<and>
    pi_sched_get_next undef (k_sched k) = Inr (k_current_task k, k_sched k) \<and>
    (\<exists>t. (kochab_waits_for c (k, threads))\<^sup>*\<^sup>* t (k_current_task k) \<and>
      (\<forall>v. v < t \<longrightarrow> (\<exists>u. (kochab_waits_for c (k, threads))\<^sup>*\<^sup>* v u \<and> kochab_waits_event c (k, threads) u)))"
proof -
  have inv: "kochab_inv c nev (k, threads)" by (rule kochab_reachable_inv [OF assms(1,2)])
  then have k: "k_interrupt_event k = 0" "k_timer_pending_ticks k = 0" "pi_picks (k_sched k) (k_current_task k)"
    "pi_inv (k_sched k)"
    using assms(3) by (auto simp: kochab_inv_def dest: kochab_okD)
  then obtain t where t: "unat t < pi_ntasks (k_sched k)" "pi_serves (k_sched k) t (k_current_task k)"
    "\<forall>v. v < t \<longrightarrow> pi_waits (k_sched k) v"
    by (auto simp: pi_picks_def)
  have "pi_closed (k_sched k)" using k(4) by (simp add: pi_inv_def)
  from pi_get_next_serves [OF this t] k(1,2) show ?thesis
    using kochab_serves [OF inv t(2)] kochab_waits_serves [OF inv] t(3) by auto
qed

theorem kochab_runs_most_urgent_witness:
  "\<exists>k threads t. kochab_run kochab_config 1 kochab_actions (kochab_begin, \<lambda>_. Starting) = Some (k, threads) \<and>
     k_interrupt_event k = 0 \<and> pi_sched_get_next 0 (k_sched k) = Inr (1, k_sched k) \<and>
     (kochab_waits_for kochab_config (k, threads))\<^sup>*\<^sup>* t 1"
proof -
  obtain k threads where run: "kochab_run kochab_config 1 kochab_actions (kochab_begin, \<lambda>_. Starting) = Some (k, threads)"
    and reached: "(kochab_step kochab_config 1)\<^sup>*\<^sup>* (kochab_begin, \<lambda>_. Starting) (k, threads)"
    and k: "k_current_task k = 1" "threads 1 = Running" "holder_of k 0 = 1" "length (k_mutexes k) = 1" "\<not> pi_is_runnable (k_sched k) 0"
      "pi_is_runnable (k_sched k) 2" "k_timer_pending_ticks k = 0"
    using kochab_reached by blast
  have "threads (k_current_task k) = Running" using k(1,2) by simp
  from kochab_runs_most_urgent [OF reached kochab_begin_initial this, of 0] show ?thesis using run k(1) by auto
qed

text \<open>
  C3: No deadlock. In every state that a Kochab system reaches, each task is runnable, waits for an event, or waits
  for mutexes whose holders, in the end, are runnable or wait for an event: no tasks wait for one another's mutexes.
\<close>
theorem kochab_no_deadlock:
  fixes k :: "(pi_sched, 'z) ppc_kernel_scheme"
  assumes "(kochab_step c nev)\<^sup>*\<^sup>* st0 (k, threads)" and "kochab_initial c nev st0" and "unat t < tasks_length c"
  shows "\<exists>u. (kochab_waits_for c (k, threads))\<^sup>*\<^sup>* t u \<and> unat u < tasks_length c \<and>
    (if pi_is_runnable (k_sched k) u then True else kochab_waits_event c (k, threads) u)"
proof -
  have inv: "kochab_inv c nev (k, threads)" by (rule kochab_reachable_inv [OF assms(1,2)])
  then have k: "pi_inv (k_sched k)" "pi_ntasks (k_sched k) = tasks_length c" by (auto simp: kochab_inv_def dest: kochab_okD)
  then obtain p where "pi_path (k_sched k) t p" using assms(3) by (auto simp: pi_inv_def)
  then have "(\<exists>u. pi_serves (k_sched k) t u) \<or> pi_waits (k_sched k) t"
    by (induction rule: pi_path.induct) (blast intro: pi_serves.intros pi_waits.intros)+
  then show ?thesis
  proof
    assume "\<exists>u. pi_serves (k_sched k) t u"
    then show ?thesis using kochab_serves [OF inv] pi_serves_runnable k(2) by fastforce
  next
    assume "pi_waits (k_sched k) t"
    then obtain u where "(kochab_waits_for c (k, threads))\<^sup>*\<^sup>* t u" "kochab_waits_event c (k, threads) u"
      using kochab_waits_serves [OF inv] by blast
    then show ?thesis by (auto simp: kochab_waits_event_def)
  qed
qed

theorem kochab_no_deadlock_witness:
  "\<exists>k threads u. kochab_run kochab_config 1 kochab_actions (kochab_begin, \<lambda>_. Starting) = Some (k, threads) \<and> \<not> pi_is_runnable (k_sched k) 0 \<and>
     (kochab_waits_for kochab_config (k, threads))\<^sup>*\<^sup>* 0 u \<and>
     (if pi_is_runnable (k_sched k) u then True else kochab_waits_event kochab_config (k, threads) u)"
proof -
  obtain k threads where run: "kochab_run kochab_config 1 kochab_actions (kochab_begin, \<lambda>_. Starting) = Some (k, threads)"
    and reached: "(kochab_step kochab_config 1)\<^sup>*\<^sup>* (kochab_begin, \<lambda>_. Starting) (k, threads)"
    and k: "k_current_task k = 1" "threads 1 = Running" "holder_of k 0 = 1" "length (k_mutexes k) = 1" "\<not> pi_is_runnable (k_sched k) 0"
      "pi_is_runnable (k_sched k) 2" "k_timer_pending_ticks k = 0"
    using kochab_reached by blast
  have "unat (0 :: u8) < tasks_length kochab_config" by (simp add: kochab_defs)
  from kochab_no_deadlock [OF reached kochab_begin_initial this] show ?thesis using run k(5) by blast
qed



text \<open>
  C5: Mutual exclusion. Whatever step a Kochab system of at least two tasks takes from a state that it reaches, be it a turn or an interrupt,
  and whether it switches tasks or not, a mutex that a task holds stays with it, unless that task is the current one and
  has unlocked it; and a mutex that is free stays free or becomes the current task's. No other task becomes blocked.
\<close>
theorem kochab_mutual_exclusion:
  fixes k :: "(pi_sched, 'z) ppc_kernel_scheme"
  assumes "(kochab_step c nev)\<^sup>*\<^sup>* st0 (k, threads)" and "kochab_initial c nev st0"
    and step: "kochab_step c nev (k, threads) (k', threads')" and m: "unat m < length (k_mutexes k)" and "2 \<le> tasks_length c"
  shows "(holder_of k' m = holder_of k m \<or>
    holder_of k m = TASK_ID_NONE \<and> holder_of k' m = k_current_task k \<or>
    holder_of k m = k_current_task k \<and> holder_of k' m = TASK_ID_NONE) \<and>
    (unat t < tasks_length c \<longrightarrow> t \<noteq> k_current_task k \<longrightarrow> pi_is_runnable (k_sched k) t \<longrightarrow> pi_is_runnable (k_sched k') t)"
proof -
  have inv: "kochab_inv c nev (k, threads)" by (rule kochab_reachable_inv [OF assms(1,2)])
  have inv': "kochab_inv c nev (k', threads')" by (rule kochab_step_inv [OF step inv])
  have stays: "kochab_stays c k k' t" if t: "unat t < tasks_length c" "t \<noteq> k_current_task k" for t
    using step
  proof (cases rule: kochab_stepE)
    case (Turn call arrived a undef fuel)
    then show ?thesis using kochab_turn_ok [OF inv Turn(1-3), of undef fuel] t by simp
  next
    case (Interrupt arrived a undef fuel)
    then show ?thesis using kochab_interrupt_ok [OF inv Interrupt(1,2), of undef fuel] t by simp
  qed
  have ok: "kochab_ok c nev k" "kochab_ok c nev k'" using inv inv' by (simp_all add: kochab_inv_def)
  have len: "length (k_mutexes k') = length (k_mutexes k)"
  proof -
    obtain t :: u8 where "unat t < tasks_length c" "t \<noteq> k_current_task k"
      using that [of 0] that [of 1] assms(5) by (cases "k_current_task k = 0") auto
    then show ?thesis using stays by (simp add: kochab_stays_def)
  qed
  have "holder_of k m = TASK_ID_NONE \<or> unat (holder_of k m) < tasks_length c"
    "holder_of k' m = TASK_ID_NONE \<or> unat (holder_of k' m) < tasks_length c"
    using ok m len by (auto simp: kochab_ok_def)
  then show ?thesis
    using stays m unfolding kochab_stays_def by (metis (full_types))
qed

theorem kochab_mutual_exclusion_witness:
  "\<exists>k threads k' threads'. kochab_run kochab_config 1 kochab_actions (kochab_begin, \<lambda>_. Starting) = Some (k, threads) \<and>
     kochab_act kochab_config (Act (Mutex_Unlock 0)) (k, threads) = Inr (k', threads') \<and>
     (holder_of k' 0 = 1 \<or> holder_of k' 0 = TASK_ID_NONE) \<and> pi_is_runnable (k_sched k') 2"
proof -
  obtain k threads k' threads' where run: "kochab_run kochab_config 1 kochab_actions (kochab_begin, \<lambda>_. Starting) = Some (k, threads)"
    and reached: "(kochab_step kochab_config 1)\<^sup>*\<^sup>* (kochab_begin, \<lambda>_. Starting) (k, threads)"
    and k: "k_current_task k = 1" "holder_of k 0 = 1" "length (k_mutexes k) = 1" "pi_is_runnable (k_sched k) 2"
    and act: "kochab_allowed kochab_config 1 (Act (Mutex_Unlock 0)) (k, threads)"
      "kochab_act kochab_config (Act (Mutex_Unlock 0)) (k, threads) = Inr (k', threads')"
    using kochab_reached by blast
  have "unat (0 :: u8) < length (k_mutexes k)" "2 \<le> tasks_length kochab_config" "unat (2 :: u8) < tasks_length kochab_config"
    using k(3) by (simp_all add: kochab_defs)
  then show ?thesis
    using run act(2) kochab_mutual_exclusion [OF reached kochab_begin_initial kochab_act_step [OF act], of 0 2] k by auto
qed


text \<open>
  Task 1 locks the mutex and task 0 waits for it for one tick; then it sleeps for 5 ticks. Task 1 unlocks the mutex, and
  task 0 runs on in the same tick.
\<close>

definition oversleep_actions :: "kochab_action list" where
  "oversleep_actions = [Act (Signal_Poll 0), Act (Signal_Wait 8), Act (Signal_Poll 0), Act (Mutex_Lock 0), Raise 1,
     Act (Signal_Poll 0), Act (Mutex_Lock_Timeout 0 1), Tick, Act (Signal_Poll 0), Act (Sleep 5)]"

lemma oversleep_reached:
  "\<exists>k threads p. kochab_run kochab_config 1 oversleep_actions (kochab_begin, \<lambda>_. Starting) = Some (k, threads) \<and>
     k_current_task k = 1 \<and> threads 1 = Running \<and> holder_of k 0 = 1 \<and> length (k_mutexes k) = 1 \<and>
     threads 0 = In_Sleep p \<and> waiting_for k 0 = 0 \<and> k_timer_current_ticks k = 101 \<and> \<not> pi_is_runnable (k_sched k) 0 \<and>
     (case kochab_run kochab_config 1 [Act (Mutex_Unlock 0), Act (Signal_Poll 0)] (k, threads) of None \<Rightarrow> False
      | Some (k', threads') \<Rightarrow> k_current_task k' = 0 \<and> threads' 0 = Running \<and> k_timer_current_ticks k' = 101)"
proof -
  have "case kochab_run kochab_config 1 oversleep_actions (kochab_begin, \<lambda>_. Starting) of None \<Rightarrow> False
    | Some (k, threads) \<Rightarrow> k_current_task k = 1 \<and> threads 1 = Running \<and> holder_of k 0 = 1 \<and> length (k_mutexes k) = 1 \<and>
     threads 0 = In_Sleep (Sig_Blocked 0 2 255) \<and> waiting_for k 0 = 0 \<and> k_timer_current_ticks k = 101 \<and>
     \<not> pi_is_runnable (k_sched k) 0 \<and>
     (case kochab_run kochab_config 1 [Act (Mutex_Unlock 0), Act (Signal_Poll 0)] (k, threads) of None \<Rightarrow> False
      | Some (k', threads') \<Rightarrow> k_current_task k' = 0 \<and> threads' 0 = Running \<and> k_timer_current_ticks k' = 101)"
    by code_simp
  then show ?thesis
    by (cases "kochab_run kochab_config 1 oversleep_actions (kochab_begin, \<lambda>_. Starting)") (auto simp del: kochab_run.simps(2))
qed


end
