(* ===== verification/Kochab_Apps.thy ===== *)
theory Kochab_Apps
  imports Kochab_Guarantees
begin

text \<open>
  Applications of a Kochab system: what a task does between its calls, which \<open>Kochab_System\<close> leaves open. The
  tasks are programs of the statements that the demonstrations in \<open>packages/rtos-example\<close> consist of, and a run of
  them gives the lines that they print.
\<close>

section \<open>Programs\<close>

text \<open>
  Printing a line, a call whose result is not used, and a call after which a line is printed if it returns the value
  given. At the end of its statements, a task loops forever.
\<close>

datatype 's app_stmt =
    Say 's
  | Do kochab_call
  | Say_If bool kochab_call 's

text \<open>The value that a call returns when it ends, which a running task makes or a task in it continues.\<close>

definition ended :: "failure + ('p, 'a) progress \<times> 'k \<Rightarrow> 'a option" where
  "ended r = (case r of Inr (Finished b, _) \<Rightarrow> Some b | _ \<Rightarrow> None)"

definition tried :: "failure + 'a \<times> 'k \<Rightarrow> 'a option" where
  "tried r = (case r of Inr (b, _) \<Rightarrow> Some b | Inl _ \<Rightarrow> None)"

definition call_value :: "config \<Rightarrow> kochab_thread \<Rightarrow> kochab_call \<Rightarrow> (pi_sched, 'z) sem_kernel_scheme \<Rightarrow> bool option" where
  "call_value c thread call k =
     (let mc = kochab_mutex_core c False; sc = kochab_sem_core c (semaphore_enable_max c)
      in case thread of
           In_Lock pc \<Rightarrow> ended (rtos_mutex_resume c mc pc k)
         | In_Sem pc \<Rightarrow> ended (rtos_sem_resume c sc pc k)
         | Running \<Rightarrow>
             (case call of
                Mutex_Try_Lock m \<Rightarrow> tried (rtos_mutex_try_lock c mc m k)
              | Mutex_Lock_Timeout m timeout \<Rightarrow> ended (rtos_mutex_lock_timeout c mc m timeout k)
              | Sem_Try_Wait s \<Rightarrow> tried (rtos_sem_try_wait c s k)
              | Sem_Wait_Timeout s timeout \<Rightarrow> ended (rtos_sem_wait_timeout c sc s timeout k)
              | _ \<Rightarrow> None)
         | _ \<Rightarrow> None)"

text \<open>The kernel, where each task is, and what it has left to do.\<close>

record 's app =
  a_kernel :: "pi_sched ppc_kernel"
  a_threads :: "kochab_thread list"
  a_programs :: "'s app_stmt list list"

definition program_of :: "'s app \<Rightarrow> u8 \<Rightarrow> 's app_stmt list" where
  "program_of d t = (if unat t < length (a_programs d) then a_programs d ! unat t else [])"

definition set_program :: "u8 \<Rightarrow> 's app_stmt list \<Rightarrow> 's app \<Rightarrow> 's app" where
  "set_program t program d = d\<lparr>a_programs := (a_programs d)[unat t := program]\<rparr>"

definition app_advance :: "bool option \<Rightarrow> 's app_stmt list \<Rightarrow> 's app_stmt list" where
  "app_advance v program =
     (case program of
        Do _ # rest \<Rightarrow> rest
      | Say_If b _ line # rest \<Rightarrow> (if v = Some b then Say line # rest else rest)
      | _ \<Rightarrow> program)"

definition app_call :: "'s app_stmt list \<Rightarrow> kochab_call" where
  "app_call program = (case program of Do call # _ \<Rightarrow> call | Say_If _ call _ # _ \<Rightarrow> call | _ \<Rightarrow> Signal_Poll 0)"

section \<open>Runs\<close>

text \<open>
  A turn of the current task, with the call that is its next statement. When the call has ended, the task goes on to the
  statement after it.
\<close>

definition app_turn :: "config \<Rightarrow> arrivals \<Rightarrow> 's app \<Rightarrow> failure + 's app" where
  "app_turn c a d =
     (let me = k_current_task (a_kernel d); thread = a_threads d ! unat me; program = program_of d me;
          call = app_call program
      in case kochab_turn c (kochab_scheduler c 0 a) 2 (0, False) call (a_kernel d, \<lambda>t. a_threads d ! unat t) of
           Inl e \<Rightarrow> Inl e
         | Inr (k, threads) \<Rightarrow>
             let d' = d\<lparr>a_kernel := k, a_threads := map threads (ids (length (a_threads d)))\<rparr>
             in Inr (if in_kernel (threads me) \<or> thread = Starting then d'
                     else set_program me (app_advance (call_value c thread call (a_kernel d)) program) d'))"

text \<open>
  A number of turns and printed lines. The result is the lines printed, and the state that is reached. It is final when
  the current task is at the end of its statements.
\<close>

fun app_run :: "config \<Rightarrow> arrivals \<Rightarrow> nat \<Rightarrow> 's app \<Rightarrow> failure + 's list \<times> 's app" where
  "app_run c a 0 d = Inr ([], d)"
| "app_run c a (Suc n) d =
     (let me = k_current_task (a_kernel d)
      in case (a_threads d ! unat me, program_of d me) of
           (Running, []) \<Rightarrow> Inr ([], d)
         | (Running, Say line # rest) \<Rightarrow> map_sum id (apfst ((#) line)) (app_run c a n (set_program me rest d))
         | _ \<Rightarrow> (case app_turn c a d of Inl e \<Rightarrow> Inl e | Inr d' \<Rightarrow> app_run c a n d'))"

definition app_start :: "pi_sched ppc_kernel \<Rightarrow> 's app_stmt list list \<Rightarrow> 's app" where
  "app_start k programs =
     \<lparr>a_kernel = k, a_threads = replicate (length programs) Starting, a_programs = programs\<rparr>"

text \<open>A state of a run: the kernel, where each task is, and how many of its statements each task has left.\<close>

definition app_at :: "'s app_stmt list list \<Rightarrow> pi_sched ppc_kernel \<Rightarrow> kochab_thread list \<Rightarrow> nat list \<Rightarrow> 's app" where
  "app_at programs k threads left =
     \<lparr>a_kernel = k, a_threads = threads, a_programs = map2 (\<lambda>program n. drop (length program - n) program) programs left\<rparr>"

lemma app_start_at: "app_start k programs = app_at programs k (replicate (length programs) Starting) (map length programs)"
proof -
  have "map2 (\<lambda>program n. drop (length program - n) program) programs (map length programs) = programs"
    by (induction programs) simp_all
  then show ?thesis by (simp add: app_start_def app_at_def)
qed

text \<open>Ticks that come only while all tasks wait.\<close>

definition idle_ticks :: arrivals where
  "idle_ticks = no_arrivals\<lparr>ar_waits := \<lambda>_. replicate 4 ([], [], True)\<rparr>"

text \<open>A run can be composed of runs.\<close>

lemma app_run_stopped:
  "a_threads d ! unat (k_current_task (a_kernel d)) = Running \<Longrightarrow> program_of d (k_current_task (a_kernel d)) = [] \<Longrightarrow>
     app_run c a n d = Inr ([], d)"
  by (cases n) (simp_all add: Let_def)

lemma app_run_add: "app_run c a m d = Inr (out, d') \<Longrightarrow> app_run c a (m + n) d = map_sum id (apfst ((@) out)) (app_run c a n d')"
proof (induction m arbitrary: d out)
  case 0
  then show ?case by (cases "app_run c a n d'") auto
next
  case (Suc m)
  let ?me = "k_current_task (a_kernel d)"
  consider (stopped) "a_threads d ! unat ?me = Running" "program_of d ?me = []"
    | (says) line rest where "a_threads d ! unat ?me = Running" "program_of d ?me = Say line # rest"
    | (turns) "\<And>m. app_run c a (Suc m) d = (case app_turn c a d of Inl e \<Rightarrow> Inl e | Inr d' \<Rightarrow> app_run c a m d')"
    by (cases "a_threads d ! unat ?me"; cases "program_of d ?me"; cases "hd (program_of d ?me)") (auto simp: Let_def)
  then show ?case
  proof cases
    case stopped
    then show ?thesis using Suc.prems app_run_stopped [of d c a] by (cases "app_run c a n d'") (auto simp: Let_def)
  next
    case says
    then obtain out' where "app_run c a m (set_program ?me rest d) = Inr (out', d')" "out = line # out'"
      using Suc.prems by (cases "app_run c a m (set_program ?me rest d)") (auto simp: Let_def)
    then show ?thesis using says Suc.IH by (cases "app_run c a n d'") (auto simp: Let_def)
  next
    case turns
    then show ?thesis using Suc.prems Suc.IH by (simp split: sum.splits)
  qed
qed

section \<open>Lines and their places\<close>

text \<open>
  The lines play no part in what the tasks do: a run can be computed with other data in their place, such as \<open>(t, i)\<close> for
  the line in statement \<open>i\<close> of task \<open>t\<close>.
\<close>

definition app_map :: "('s \<Rightarrow> 'r) \<Rightarrow> 's app \<Rightarrow> 'r app" where
  "app_map f d = \<lparr>a_kernel = a_kernel d, a_threads = a_threads d, a_programs = map (map (map_app_stmt f)) (a_programs d)\<rparr>"

lemma app_map_simps [simp]:
  "a_kernel (app_map f d) = a_kernel d" "a_threads (app_map f d) = a_threads d"
  "program_of (app_map f d) t = map (map_app_stmt f) (program_of d t)"
  "set_program t (map (map_app_stmt f) program) (app_map f d) = app_map f (set_program t program d)"
  "(app_map f d)\<lparr>a_kernel := k, a_threads := ts\<rparr> = app_map f (d\<lparr>a_kernel := k, a_threads := ts\<rparr>)"
  "app_map f (app_start k programs) = app_start k (map (map (map_app_stmt f)) programs)"
  by (simp_all add: app_map_def program_of_def set_program_def map_update app_start_def)

lemma app_call_map [simp]: "app_call (map (map_app_stmt f) program) = app_call program"
  by (auto simp: app_call_def split: list.splits app_stmt.splits)

lemma app_advance_map [simp]: "app_advance v (map (map_app_stmt f) program) = map (map_app_stmt f) (app_advance v program)"
  by (auto simp: app_advance_def split: list.splits app_stmt.splits)

lemma app_turn_map: "app_turn c a (app_map f d) = map_sum id (app_map f) (app_turn c a d)"
  by (simp add: app_turn_def Let_def split: sum.splits prod.splits)

lemma app_run_map:
  fixes f :: "'s \<Rightarrow> 'r"
  shows "app_run c a n (app_map f d) = map_sum id (map_prod (map f) (app_map f)) (app_run c a n d)"
proof (induction n arbitrary: d)
  case (Suc n)
  have "map_sum id (apfst ((#) (f line))) (map_sum id (map_prod (map f) (app_map f)) r) =
      map_sum id (map_prod (map f) (app_map f)) (map_sum id (apfst ((#) line)) r)" for line and r :: "failure + 's list \<times> 's app"
    by (cases r) auto
  with Suc show ?case
    by (auto simp: id_def Let_def app_turn_map split: list.splits app_stmt.splits sum.splits kochab_thread.splits)
qed simp

definition place :: "nat \<Rightarrow> 's app_stmt list \<Rightarrow> (nat \<times> int) app_stmt list" where
  "place t program = map2 (\<lambda>i. map_app_stmt (\<lambda>_. (t, i))) [0..int (length program) - 1] program"

definition places :: "'s app_stmt list list \<Rightarrow> (nat \<times> int) app_stmt list list" where
  "places programs = map2 place [0..<length programs] programs"

definition line_at :: "string app_stmt list list \<Rightarrow> nat \<times> int \<Rightarrow> string" where
  "line_at programs = (\<lambda>(t, i). case programs ! t ! nat i of Say line \<Rightarrow> line | Say_If _ _ line \<Rightarrow> line | Do _ \<Rightarrow> [])"

lemma line_at_place: "map (map_app_stmt (line_at programs)) (place t (programs ! t)) = programs ! t"
proof (rule nth_equalityI)
  fix i
  assume "i < length (map (map_app_stmt (line_at programs)) (place t (programs ! t)))"
  then have "i < length (programs ! t)" by (simp add: place_def)
  then show "map (map_app_stmt (line_at programs)) (place t (programs ! t)) ! i = programs ! t ! i"
    by (cases "programs ! t ! i") (simp_all add: place_def line_at_def)
qed (simp add: place_def)

lemma line_at_places: "map (map (map_app_stmt (line_at programs))) (places programs) = programs"
  by (rule nth_equalityI) (simp_all add: places_def line_at_place)

text \<open>Code equations with which runs are evaluated faster: a statement runs only when the one before has ended.\<close>

lemma kbind_unfold [code_unfold]: "kbind m f = (\<lambda>k. case m k of Inl e \<Rightarrow> Inl e | Inr (a, k') \<Rightarrow> f a k')"
  by (simp add: kbind_def fun_eq_iff)

lemma same_if: "(\<And>P :: 'a \<Rightarrow> bool. P x = P y) \<Longrightarrow> x = y"
proof -
  assume "\<And>P :: 'a \<Rightarrow> bool. P x = P y"
  from this [of "\<lambda>z. z = y"] show ?thesis by simp
qed

end
