(* ===== verification/Kochab_Mutex_Demo.thy ===== *)
theory Kochab_Mutex_Demo
  imports Kochab_Apps
begin

text \<open>
  The demonstration of mutexes (\<open>packages/rtos-example/kochab-mutex-demo.c\<close>), and that it prints what
  \<open>packages/rtos-example/rtos-example-manual.md\<close> says it prints. Its tasks show how a mutex is waited for, how the
  task that holds it inherits priorities, which of several waiting tasks gets it, and how timeouts end.
\<close>

section \<open>The tasks\<close>

text \<open>The identifiers that the configuration gives to tasks, mutexes and signals.\<close>

record mutex_demo_ids =
  RTOS_TASK_ID_A :: u8
  RTOS_TASK_ID_B :: u8
  RTOS_TASK_ID_Y :: u8
  RTOS_TASK_ID_Z :: u8
  RTOS_MUTEX_ID_M0 :: u8
  RTOS_MUTEX_ID_M1 :: u8
  RTOS_MUTEX_ID_M2 :: u8
  RTOS_MUTEX_ID_M3_1 :: u8
  RTOS_MUTEX_ID_M3_2 :: u8
  RTOS_MUTEX_ID_M4 :: u8
  RTOS_MUTEX_ID_M5 :: u8
  RTOS_MUTEX_ID_M6 :: u8
  RTOS_MUTEX_ID_M7 :: u8
  RTOS_SIGNAL_SET_DEMO_P1 :: u8
  RTOS_SIGNAL_SET_DEMO_P2 :: u8
  RTOS_SIGNAL_SET_DEMO_P3 :: u8
  RTOS_SIGNAL_SET_DEMO_P4 :: u8
  RTOS_SIGNAL_SET_DEMO_P5 :: u8
  RTOS_SIGNAL_SET_DEMO_P6 :: u8
  RTOS_SIGNAL_SET_DEMO_P7 :: u8

definition PART_6_SLEEP :: u16 where
  "PART_6_SLEEP = 3"

definition PART_7_SLEEP :: u16 where
  "PART_7_SLEEP = 3"

definition fn_a :: "mutex_demo_ids \<Rightarrow> string app_stmt list" where
  "fn_a i =
    [Say '''',
     Say ''Part 0: Solo'',
     Say '''',
     Say ''a: taking lock'',
     Do (Mutex_Lock (RTOS_MUTEX_ID_M0 i)),
     Say ''a: trying held lock'',
     Say_If True (Mutex_Try_Lock (RTOS_MUTEX_ID_M0 i)) ''a: unexpected mutex not locked!'',
     Say ''a: releasing lock'',
     Do (Mutex_Unlock (RTOS_MUTEX_ID_M0 i)),
     Say ''a: trying unheld lock'',
     Say_If False (Mutex_Try_Lock (RTOS_MUTEX_ID_M0 i)) ''a: unexpected mutex locked!'',
     Say ''a: releasing lock'',
     Do (Mutex_Unlock (RTOS_MUTEX_ID_M0 i)),
     Say '''',
     Say ''Part 1: B unblocks A'',
     Say '''',
     Say ''a: waiting on signal'',
     Do (Signal_Wait (RTOS_SIGNAL_SET_DEMO_P1 i)),
     Say ''a: got signal, waiting on lock'',
     Do (Mutex_Lock (RTOS_MUTEX_ID_M1 i)),
     Say ''a: got lock, releasing lock'',
     Do (Mutex_Unlock (RTOS_MUTEX_ID_M1 i)),
     Say '''',
     Say ''Part 2: Z inherits from A, over B and Y'',
     Say '''',
     Say ''a: waiting on signal'',
     Do (Signal_Wait (RTOS_SIGNAL_SET_DEMO_P2 i)),
     Say ''a: got signal, waiting on lock'',
     Do (Mutex_Lock (RTOS_MUTEX_ID_M2 i)),
     Say ''a: got lock, releasing lock'',
     Do (Mutex_Unlock (RTOS_MUTEX_ID_M2 i)),
     Say '''',
     Say ''Part 3: Z inherits from A via Y, over B'',
     Say '''',
     Say ''a: waiting on signal'',
     Do (Signal_Wait (RTOS_SIGNAL_SET_DEMO_P3 i)),
     Say ''a: got signal, waiting on 1st lock'',
     Do (Mutex_Lock (RTOS_MUTEX_ID_M3_1 i)),
     Say ''a: got 1st lock, releasing it'',
     Do (Mutex_Unlock (RTOS_MUTEX_ID_M3_1 i)),
     Say '''',
     Say ''Part 4: B and Y compete. B tries to acquire first'',
     Say '''',
     Say ''a: taking the lock'',
     Do (Mutex_Lock (RTOS_MUTEX_ID_M4 i)),
     Say ''a: waiting on signal'',
     Do (Signal_Wait (RTOS_SIGNAL_SET_DEMO_P4 i)),
     Say ''a: releasing the lock'',
     Do (Mutex_Unlock (RTOS_MUTEX_ID_M4 i)),
     Say ''a: taking the lock again'',
     Do (Mutex_Lock (RTOS_MUTEX_ID_M4 i)),
     Say ''a: should still be running, with the lock. releasing it'',
     Do (Mutex_Unlock (RTOS_MUTEX_ID_M4 i)),
     Say ''a: waiting on signal to let new lock holder run'',
     Do (Signal_Wait (RTOS_SIGNAL_SET_DEMO_P4 i)),
     Say '''',
     Say ''Part 5: B and Y compete. Y tries to acquire first'',
     Say '''',
     Say ''a: taking the lock'',
     Do (Mutex_Lock (RTOS_MUTEX_ID_M5 i)),
     Say ''a: waiting on signal'',
     Do (Signal_Wait (RTOS_SIGNAL_SET_DEMO_P5 i)),
     Say ''a: releasing the lock'',
     Do (Mutex_Unlock (RTOS_MUTEX_ID_M5 i)),
     Say ''a: waiting on signal to let new lock holder run'',
     Do (Signal_Wait (RTOS_SIGNAL_SET_DEMO_P5 i)),
     Say '''',
     Say ''Part 6: B's lock attempt times out'',
     Say '''',
     Say ''a: taking the lock'',
     Do (Mutex_Lock (RTOS_MUTEX_ID_M6 i)),
     Say ''a: sleeping'',
     Do (Sleep PART_6_SLEEP),
     Say ''a: releasing the lock'',
     Do (Mutex_Unlock (RTOS_MUTEX_ID_M6 i)),
     Say ''a: signalling b'',
     Do (Signal_Send (RTOS_TASK_ID_B i) (RTOS_SIGNAL_SET_DEMO_P6 i)),
     Say ''a: waiting until b has the lock'',
     Do (Signal_Wait (RTOS_SIGNAL_SET_DEMO_P6 i)),
     Say '''',
     Say ''Part 7: B gets lock before timeout'',
     Say '''',
     Say ''a: taking the lock'',
     Do (Mutex_Lock (RTOS_MUTEX_ID_M7 i)),
     Say ''a: sleeping'',
     Do (Sleep PART_7_SLEEP),
     Say ''a: releasing the lock'',
     Do (Mutex_Unlock (RTOS_MUTEX_ID_M7 i)),
     Say ''a: waiting until b has the lock'',
     Do (Signal_Wait (RTOS_SIGNAL_SET_DEMO_P7 i)),
     Say ''a: blocking on the lock'',
     Do (Mutex_Lock (RTOS_MUTEX_ID_M7 i)),
     Say '''',
     Say ''Done.'']"

definition fn_b :: "mutex_demo_ids \<Rightarrow> string app_stmt list" where
  "fn_b i =
    [Say ''b: taking lock'',
     Do (Mutex_Lock (RTOS_MUTEX_ID_M1 i)),
     Say ''b: sending signal to a'',
     Do (Signal_Send (RTOS_TASK_ID_A i) (RTOS_SIGNAL_SET_DEMO_P1 i)),
     Say ''b: now runnable. releasing lock'',
     Do (Mutex_Unlock (RTOS_MUTEX_ID_M1 i)),
     Say ''b: waiting on signal'',
     Do (Signal_Wait (RTOS_SIGNAL_SET_DEMO_P2 i)),
     Say ''b: got signal, now b is runnable. sending signal to a'',
     Do (Signal_Send (RTOS_TASK_ID_A i) (RTOS_SIGNAL_SET_DEMO_P2 i)),
     Say ''b: waiting on signal'',
     Do (Signal_Wait (RTOS_SIGNAL_SET_DEMO_P3 i)),
     Say ''b: got signal, now b is runnable. sending signal to a'',
     Do (Signal_Send (RTOS_TASK_ID_A i) (RTOS_SIGNAL_SET_DEMO_P3 i)),
     Say ''b: blocking on the lock'',
     Do (Mutex_Lock (RTOS_MUTEX_ID_M4 i)),
     Say ''b: should get the lock before y does. releasing it'',
     Do (Mutex_Unlock (RTOS_MUTEX_ID_M4 i)),
     Say ''b: blocking again on the lock'',
     Do (Mutex_Lock (RTOS_MUTEX_ID_M4 i)),
     Say ''b: should still be running, with the lock. releasing it'',
     Do (Mutex_Unlock (RTOS_MUTEX_ID_M4 i)),
     Say ''b: waiting on signal to let lock holder run'',
     Do (Signal_Wait (RTOS_SIGNAL_SET_DEMO_P4 i)),
     Say ''b: sending signal to a'',
     Do (Signal_Send (RTOS_TASK_ID_A i) (RTOS_SIGNAL_SET_DEMO_P4 i)),
     Say ''b: waiting on signal to let y go first'',
     Do (Signal_Wait (RTOS_SIGNAL_SET_DEMO_P5 i)),
     Say ''b: blocking on the lock'',
     Do (Mutex_Lock (RTOS_MUTEX_ID_M5 i)),
     Say ''b: should still get the lock before y does. releasing it'',
     Do (Mutex_Unlock (RTOS_MUTEX_ID_M5 i)),
     Say ''b: waiting on signal to let lock holder run'',
     Do (Signal_Wait (RTOS_SIGNAL_SET_DEMO_P5 i)),
     Say ''b: sending signal to a'',
     Do (Signal_Send (RTOS_TASK_ID_A i) (RTOS_SIGNAL_SET_DEMO_P5 i)),
     Say ''b: blocking on the lock, should time out'',
     Say_If True (Mutex_Lock_Timeout (RTOS_MUTEX_ID_M6 i) (PART_6_SLEEP - 1)) ''b: lock unexpectedly succeeded before timeout!'',
     Say ''b: waiting for a to signal the lock's free'',
     Do (Signal_Wait (RTOS_SIGNAL_SET_DEMO_P6 i)),
     Say ''b: taking the lock'',
     Do (Mutex_Lock (RTOS_MUTEX_ID_M6 i)),
     Say ''b: waking up a'',
     Do (Signal_Send (RTOS_TASK_ID_A i) (RTOS_SIGNAL_SET_DEMO_P6 i)),
     Say ''b: blocking on the lock, should succeed'',
     Say_If False (Mutex_Lock_Timeout (RTOS_MUTEX_ID_M7 i) (PART_7_SLEEP + 1)) ''b: lock unexpectedly timed out!'',
     Say ''b: waking up a'',
     Do (Signal_Send (RTOS_TASK_ID_A i) (RTOS_SIGNAL_SET_DEMO_P7 i)),
     Say ''b: releasing the lock'',
     Do (Mutex_Unlock (RTOS_MUTEX_ID_M7 i)),
     Say ''b: shouldn't be here!'']"

definition fn_y :: "mutex_demo_ids \<Rightarrow> string app_stmt list" where
  "fn_y i =
    [Say ''y: waiting on signal'',
     Do (Signal_Wait (RTOS_SIGNAL_SET_DEMO_P2 i)),
     Say ''y: got signal, now y is runnable. sending signal to b'',
     Do (Signal_Send (RTOS_TASK_ID_B i) (RTOS_SIGNAL_SET_DEMO_P2 i)),
     Say ''y: waiting on signal'',
     Do (Signal_Wait (RTOS_SIGNAL_SET_DEMO_P3 i)),
     Say ''y: got signal, grabbing 1st lock'',
     Do (Mutex_Lock (RTOS_MUTEX_ID_M3_1 i)),
     Say ''y: sending signal to b'',
     Do (Signal_Send (RTOS_TASK_ID_B i) (RTOS_SIGNAL_SET_DEMO_P3 i)),
     Say ''y: inherited priority from a, over b. now waiting on 2nd lock'',
     Do (Mutex_Lock (RTOS_MUTEX_ID_M3_2 i)),
     Say ''y: got 2nd lock, releasing it'',
     Do (Mutex_Unlock (RTOS_MUTEX_ID_M3_2 i)),
     Say ''y: releasing 1st lock'',
     Do (Mutex_Unlock (RTOS_MUTEX_ID_M3_1 i)),
     Say ''y: blocking on the lock'',
     Do (Mutex_Lock (RTOS_MUTEX_ID_M4 i)),
     Say ''y: should be the last task to get the lock. releasing it'',
     Do (Mutex_Unlock (RTOS_MUTEX_ID_M4 i)),
     Say ''y: sending signal to b'',
     Do (Signal_Send (RTOS_TASK_ID_B i) (RTOS_SIGNAL_SET_DEMO_P4 i)),
     Say ''y: blocking on the lock'',
     Do (Mutex_Lock (RTOS_MUTEX_ID_M5 i)),
     Say ''y: should be the last task to get the lock. releasing it'',
     Do (Mutex_Unlock (RTOS_MUTEX_ID_M5 i)),
     Say ''y: sending signal to b'',
     Do (Signal_Send (RTOS_TASK_ID_B i) (RTOS_SIGNAL_SET_DEMO_P5 i)),
     Say ''y: sleeping'',
     Do (Sleep PART_6_SLEEP),
     Say ''y: sleeping'',
     Do (Sleep PART_7_SLEEP),
     Say ''y: shouldn't be here!'']"

definition fn_z :: "mutex_demo_ids \<Rightarrow> string app_stmt list" where
  "fn_z i =
    [Say ''z: taking lock'',
     Do (Mutex_Lock (RTOS_MUTEX_ID_M2 i)),
     Say ''z: sending signal to y'',
     Do (Signal_Send (RTOS_TASK_ID_Y i) (RTOS_SIGNAL_SET_DEMO_P2 i)),
     Say ''z: inherited priority from a, over b and y. releasing lock'',
     Do (Mutex_Unlock (RTOS_MUTEX_ID_M2 i)),
     Say ''z: taking 2nd lock'',
     Do (Mutex_Lock (RTOS_MUTEX_ID_M3_2 i)),
     Say ''z: sending signal to y'',
     Do (Signal_Send (RTOS_TASK_ID_Y i) (RTOS_SIGNAL_SET_DEMO_P3 i)),
     Say ''z: inherited priority from a via y, over b. releasing 2nd lock'',
     Do (Mutex_Unlock (RTOS_MUTEX_ID_M3_2 i)),
     Say ''z: sending signal to a'',
     Do (Signal_Send (RTOS_TASK_ID_A i) (RTOS_SIGNAL_SET_DEMO_P4 i)),
     Say ''z: sending signal to b'',
     Do (Signal_Send (RTOS_TASK_ID_B i) (RTOS_SIGNAL_SET_DEMO_P5 i)),
     Say ''z: sending signal to a'',
     Do (Signal_Send (RTOS_TASK_ID_A i) (RTOS_SIGNAL_SET_DEMO_P5 i)),
     Say ''z: sleeping'',
     Do (Sleep PART_6_SLEEP),
     Say ''z: sleeping'',
     Do (Sleep PART_7_SLEEP),
     Say ''z: shouldn't be here!'']"

section \<open>What it prints\<close>

text \<open>The identifiers, and the state of the kernel when the first task is started.\<close>

definition mutex_demo_config :: config where
  "mutex_demo_config = preemptive ((config_example 4)\<lparr>SIGNAL_ID__TASK_TIMER := 1, SIGNAL_ID__RTOS_UTIL := 0\<rparr>)"

definition mutex_demo_ids_example :: mutex_demo_ids where
  "mutex_demo_ids_example =
     \<lparr>RTOS_TASK_ID_A = 0, RTOS_TASK_ID_B = 1, RTOS_TASK_ID_Y = 2, RTOS_TASK_ID_Z = 3,
      RTOS_MUTEX_ID_M0 = 0, RTOS_MUTEX_ID_M1 = 1, RTOS_MUTEX_ID_M2 = 2, RTOS_MUTEX_ID_M3_1 = 3,
      RTOS_MUTEX_ID_M3_2 = 4, RTOS_MUTEX_ID_M4 = 5, RTOS_MUTEX_ID_M5 = 6, RTOS_MUTEX_ID_M6 = 7, RTOS_MUTEX_ID_M7 = 8,
      RTOS_SIGNAL_SET_DEMO_P1 = 2, RTOS_SIGNAL_SET_DEMO_P2 = 4, RTOS_SIGNAL_SET_DEMO_P3 = 8,
      RTOS_SIGNAL_SET_DEMO_P4 = 16, RTOS_SIGNAL_SET_DEMO_P5 = 32, RTOS_SIGNAL_SET_DEMO_P6 = 64,
      RTOS_SIGNAL_SET_DEMO_P7 = 128\<rparr>"

definition mutex_demo_programs :: "string app_stmt list list" where
  "mutex_demo_programs = map (\<lambda>f. f mutex_demo_ids_example) [fn_a, fn_b, fn_y, fn_z]"

definition mutex_demo_kernel :: "pi_sched ppc_kernel" where
  "mutex_demo_kernel = kochab_example\<lparr>k_current_task := 0, k_preempt_disabled := True, k_sched := pi_example [0, 1, 2, 3],
     k_signal_tasks := replicate 4 \<lparr>sig_signals = 0\<rparr>, k_timer_current_ticks := 0,
     k_timers := map (\<lambda>t. (kochab_timer t)\<lparr>tm_signal_set := 1\<rparr>) [0, 1, 2, 3], k_task_timers := [0, 1, 2, 3],
     k_interrupt_events := [], k_mutexes := replicate 9 \<lparr>mx_holder = 255\<rparr>, k_mutex_waiters := replicate 4 255,
     k_mutex_stats := [], k_semaphores := [], k_sem_waiters := replicate 4 255, k_contexts := replicate 4 900\<rparr>"

text \<open>The lines that the manual shows.\<close>

definition mutex_demo_lines :: "string list" where
  "mutex_demo_lines =
    ['''',
     ''Part 0: Solo'',
     '''',
     ''a: taking lock'',
     ''a: trying held lock'',
     ''a: releasing lock'',
     ''a: trying unheld lock'',
     ''a: releasing lock'',
     '''',
     ''Part 1: B unblocks A'',
     '''',
     ''a: waiting on signal'',
     ''b: taking lock'',
     ''b: sending signal to a'',
     ''a: got signal, waiting on lock'',
     ''b: now runnable. releasing lock'',
     ''a: got lock, releasing lock'',
     '''',
     ''Part 2: Z inherits from A, over B and Y'',
     '''',
     ''a: waiting on signal'',
     ''b: waiting on signal'',
     ''y: waiting on signal'',
     ''z: taking lock'',
     ''z: sending signal to y'',
     ''y: got signal, now y is runnable. sending signal to b'',
     ''b: got signal, now b is runnable. sending signal to a'',
     ''a: got signal, waiting on lock'',
     ''z: inherited priority from a, over b and y. releasing lock'',
     ''a: got lock, releasing lock'',
     '''',
     ''Part 3: Z inherits from A via Y, over B'',
     '''',
     ''a: waiting on signal'',
     ''b: waiting on signal'',
     ''y: waiting on signal'',
     ''z: taking 2nd lock'',
     ''z: sending signal to y'',
     ''y: got signal, grabbing 1st lock'',
     ''y: sending signal to b'',
     ''b: got signal, now b is runnable. sending signal to a'',
     ''a: got signal, waiting on 1st lock'',
     ''y: inherited priority from a, over b. now waiting on 2nd lock'',
     ''z: inherited priority from a via y, over b. releasing 2nd lock'',
     ''y: got 2nd lock, releasing it'',
     ''y: releasing 1st lock'',
     ''a: got 1st lock, releasing it'',
     '''',
     ''Part 4: B and Y compete. B tries to acquire first'',
     '''',
     ''a: taking the lock'',
     ''a: waiting on signal'',
     ''b: blocking on the lock'',
     ''y: blocking on the lock'',
     ''z: sending signal to a'',
     ''a: releasing the lock'',
     ''a: taking the lock again'',
     ''a: should still be running, with the lock. releasing it'',
     ''a: waiting on signal to let new lock holder run'',
     ''b: should get the lock before y does. releasing it'',
     ''b: blocking again on the lock'',
     ''b: should still be running, with the lock. releasing it'',
     ''b: waiting on signal to let lock holder run'',
     ''y: should be the last task to get the lock. releasing it'',
     ''y: sending signal to b'',
     ''b: sending signal to a'',
     '''',
     ''Part 5: B and Y compete. Y tries to acquire first'',
     '''',
     ''a: taking the lock'',
     ''a: waiting on signal'',
     ''b: waiting on signal to let y go first'',
     ''y: blocking on the lock'',
     ''z: sending signal to b'',
     ''b: blocking on the lock'',
     ''z: sending signal to a'',
     ''a: releasing the lock'',
     ''a: waiting on signal to let new lock holder run'',
     ''b: should still get the lock before y does. releasing it'',
     ''b: waiting on signal to let lock holder run'',
     ''y: should be the last task to get the lock. releasing it'',
     ''y: sending signal to b'',
     ''b: sending signal to a'',
     '''',
     ''Part 6: B's lock attempt times out'',
     '''',
     ''a: taking the lock'',
     ''a: sleeping'',
     ''b: blocking on the lock, should time out'',
     ''y: sleeping'',
     ''z: sleeping'',
     ''b: waiting for a to signal the lock's free'',
     ''a: releasing the lock'',
     ''a: signalling b'',
     ''a: waiting until b has the lock'',
     ''b: taking the lock'',
     ''b: waking up a'',
     '''',
     ''Part 7: B gets lock before timeout'',
     '''',
     ''a: taking the lock'',
     ''a: sleeping'',
     ''b: blocking on the lock, should succeed'',
     ''y: sleeping'',
     ''z: sleeping'',
     ''a: releasing the lock'',
     ''a: waiting until b has the lock'',
     ''b: waking up a'',
     ''a: blocking on the lock'',
     ''b: releasing the lock'',
     '''',
     ''Done.'']"

section \<open>The run, part by part\<close>

text \<open>The run is computed with the places of the lines.\<close>

definition mutex_demo_places :: "(nat \<times> int) app_stmt list list" where
  "mutex_demo_places = places mutex_demo_programs"

lemma mutex_demo_places_code [code]:
  "mutex_demo_places =
    [[Say (0, 0), Say (0, 1), Say (0, 2), Say (0, 3), Do (Mutex_Lock 0), Say (0, 5),
      Say_If True (Mutex_Try_Lock 0) (0, 6), Say (0, 7), Do (Mutex_Unlock 0), Say (0, 9),
      Say_If False (Mutex_Try_Lock 0) (0, 10), Say (0, 11), Do (Mutex_Unlock 0), Say (0, 13), Say (0, 14),
      Say (0, 15), Say (0, 16), Do (Signal_Wait 2), Say (0, 18), Do (Mutex_Lock 1), Say (0, 20), Do (Mutex_Unlock 1),
      Say (0, 22), Say (0, 23), Say (0, 24), Say (0, 25), Do (Signal_Wait 4), Say (0, 27), Do (Mutex_Lock 2),
      Say (0, 29), Do (Mutex_Unlock 2), Say (0, 31), Say (0, 32), Say (0, 33), Say (0, 34), Do (Signal_Wait 8),
      Say (0, 36), Do (Mutex_Lock 3), Say (0, 38), Do (Mutex_Unlock 3), Say (0, 40), Say (0, 41), Say (0, 42),
      Say (0, 43), Do (Mutex_Lock 5), Say (0, 45), Do (Signal_Wait 16), Say (0, 47), Do (Mutex_Unlock 5),
      Say (0, 49), Do (Mutex_Lock 5), Say (0, 51), Do (Mutex_Unlock 5), Say (0, 53), Do (Signal_Wait 16),
      Say (0, 55), Say (0, 56), Say (0, 57), Say (0, 58), Do (Mutex_Lock 6), Say (0, 60), Do (Signal_Wait 32),
      Say (0, 62), Do (Mutex_Unlock 6), Say (0, 64), Do (Signal_Wait 32), Say (0, 66), Say (0, 67), Say (0, 68),
      Say (0, 69), Do (Mutex_Lock 7), Say (0, 71), Do (Sleep 3), Say (0, 73), Do (Mutex_Unlock 7), Say (0, 75),
      Do (Signal_Send 1 64), Say (0, 77), Do (Signal_Wait 64), Say (0, 79), Say (0, 80), Say (0, 81), Say (0, 82),
      Do (Mutex_Lock 8), Say (0, 84), Do (Sleep 3), Say (0, 86), Do (Mutex_Unlock 8), Say (0, 88),
      Do (Signal_Wait 128), Say (0, 90), Do (Mutex_Lock 8), Say (0, 92), Say (0, 93)],
     [Say (1, 0), Do (Mutex_Lock 1), Say (1, 2), Do (Signal_Send 0 2), Say (1, 4), Do (Mutex_Unlock 1), Say (1, 6),
      Do (Signal_Wait 4), Say (1, 8), Do (Signal_Send 0 4), Say (1, 10), Do (Signal_Wait 8), Say (1, 12),
      Do (Signal_Send 0 8), Say (1, 14), Do (Mutex_Lock 5), Say (1, 16), Do (Mutex_Unlock 5), Say (1, 18),
      Do (Mutex_Lock 5), Say (1, 20), Do (Mutex_Unlock 5), Say (1, 22), Do (Signal_Wait 16), Say (1, 24),
      Do (Signal_Send 0 16), Say (1, 26), Do (Signal_Wait 32), Say (1, 28), Do (Mutex_Lock 6), Say (1, 30),
      Do (Mutex_Unlock 6), Say (1, 32), Do (Signal_Wait 32), Say (1, 34), Do (Signal_Send 0 32), Say (1, 36),
      Say_If True (Mutex_Lock_Timeout 7 2) (1, 37), Say (1, 38), Do (Signal_Wait 64), Say (1, 40), Do (Mutex_Lock 7),
      Say (1, 42), Do (Signal_Send 0 64), Say (1, 44), Say_If False (Mutex_Lock_Timeout 8 4) (1, 45), Say (1, 46),
      Do (Signal_Send 0 128), Say (1, 48), Do (Mutex_Unlock 8), Say (1, 50)],
     [Say (2, 0), Do (Signal_Wait 4), Say (2, 2), Do (Signal_Send 1 4), Say (2, 4), Do (Signal_Wait 8), Say (2, 6),
      Do (Mutex_Lock 3), Say (2, 8), Do (Signal_Send 1 8), Say (2, 10), Do (Mutex_Lock 4), Say (2, 12),
      Do (Mutex_Unlock 4), Say (2, 14), Do (Mutex_Unlock 3), Say (2, 16), Do (Mutex_Lock 5), Say (2, 18),
      Do (Mutex_Unlock 5), Say (2, 20), Do (Signal_Send 1 16), Say (2, 22), Do (Mutex_Lock 6), Say (2, 24),
      Do (Mutex_Unlock 6), Say (2, 26), Do (Signal_Send 1 32), Say (2, 28), Do (Sleep 3), Say (2, 30), Do (Sleep 3),
      Say (2, 32)],
     [Say (3, 0), Do (Mutex_Lock 2), Say (3, 2), Do (Signal_Send 2 4), Say (3, 4), Do (Mutex_Unlock 2), Say (3, 6),
      Do (Mutex_Lock 4), Say (3, 8), Do (Signal_Send 2 8), Say (3, 10), Do (Mutex_Unlock 4), Say (3, 12),
      Do (Signal_Send 0 16), Say (3, 14), Do (Signal_Send 1 32), Say (3, 16), Do (Signal_Send 0 32), Say (3, 18),
      Do (Sleep 3), Say (3, 20), Do (Sleep 3), Say (3, 22)]]"
  by code_simp

text \<open>
  At the beginning of each part, no task is blocked on another, and the first task runs. Only time, the
  pending signals, the timers and the holders of mutexes may have changed since the start.
\<close>

definition mutex_demo_later :: "u32 \<Rightarrow> u8 list \<Rightarrow> u16 list \<Rightarrow> u8 list \<Rightarrow> pi_sched ppc_kernel" where
  "mutex_demo_later ticks signals expiries holders = mutex_demo_kernel\<lparr>k_preempt_disabled := False,
     k_signal_tasks := map signal_task.make signals, k_timer_current_ticks := ticks,
     k_timers := map2 (\<lambda>t expiry. (kochab_timer t)\<lparr>tm_signal_set := 1, tm_expiry := expiry\<rparr>) [0, 1, 2, 3] expiries,
     k_mutexes := map mutex.make holders\<rparr>"

lemma mutex_demo_part_0:
  "app_run mutex_demo_config idle_ticks 14
     (app_at mutex_demo_places mutex_demo_kernel
      [Starting, Starting, Starting, Starting] [94, 51, 33, 23]) =
   Inr ([(0, 0), (0, 1), (0, 2), (0, 3), (0, 5), (0, 7), (0, 9), (0, 11)],
     app_at mutex_demo_places (mutex_demo_later 0 [0, 0, 0, 0] [0, 0, 0, 0] (replicate 9 255))
      [Running, Starting, Starting, Starting] [81, 51, 33, 23])"
  (is "?run = ?result")
proof -
  have "P ?run = P ?result" for P :: "failure + (nat \<times> int) list \<times> (nat \<times> int) app \<Rightarrow> bool"
    by (code_simp; simp)
  then show ?thesis by (rule same_if)
qed

lemma mutex_demo_part_1:
  "app_run mutex_demo_config idle_ticks 18
     (app_at mutex_demo_places (mutex_demo_later 0 [0, 0, 0, 0] [0, 0, 0, 0] (replicate 9 255))
      [Running, Starting, Starting, Starting] [81, 51, 33, 23]) =
   Inr ([(0, 13), (0, 14), (0, 15), (0, 16), (1, 0), (1, 2), (0, 18), (1, 4), (0, 20)],
     app_at mutex_demo_places (mutex_demo_later 0 [0, 0, 0, 0] [0, 0, 0, 0] (replicate 9 255))
      [Running, Leaving, Starting, Starting] [72, 45, 33, 23])"
  (is "?run = ?result")
proof -
  have "P ?run = P ?result" for P :: "failure + (nat \<times> int) list \<times> (nat \<times> int) app \<Rightarrow> bool"
    by (code_simp; simp)
  then show ?thesis by (rule same_if)
qed

lemma mutex_demo_part_2:
  "app_run mutex_demo_config idle_ticks 29
     (app_at mutex_demo_places (mutex_demo_later 0 [0, 0, 0, 0] [0, 0, 0, 0] (replicate 9 255))
      [Running, Leaving, Starting, Starting] [72, 45, 33, 23]) =
   Inr ([(0, 22), (0, 23), (0, 24), (0, 25), (1, 6), (2, 0), (3, 0), (3, 2), (2, 2), (1, 8), (0, 27), (3, 4), (0, 29)],
     app_at mutex_demo_places (mutex_demo_later 0 [0, 0, 0, 0] [0, 0, 0, 0] (replicate 9 255))
      [Running, Leaving, Leaving, Leaving] [63, 41, 29, 17])"
  (is "?run = ?result")
proof -
  have "P ?run = P ?result" for P :: "failure + (nat \<times> int) list \<times> (nat \<times> int) app \<Rightarrow> bool"
    by (code_simp; simp)
  then show ?thesis by (rule same_if)
qed

lemma mutex_demo_part_3:
  "app_run mutex_demo_config idle_ticks 36
     (app_at mutex_demo_places (mutex_demo_later 0 [0, 0, 0, 0] [0, 0, 0, 0] (replicate 9 255))
      [Running, Leaving, Leaving, Leaving] [63, 41, 29, 17]) =
   Inr ([(0, 31), (0, 32), (0, 33), (0, 34), (1, 10), (2, 4), (3, 6), (3, 8), (2, 6), (2, 8), (1, 12), (0, 36), (2, 10),
      (3, 10), (2, 12), (2, 14), (0, 38)],
     app_at mutex_demo_places (mutex_demo_later 0 [0, 0, 0, 0] [0, 0, 0, 0] (replicate 9 255))
      [Running, Leaving, Leaving, Leaving] [54, 37, 17, 11])"
  (is "?run = ?result")
proof -
  have "P ?run = P ?result" for P :: "failure + (nat \<times> int) list \<times> (nat \<times> int) app \<Rightarrow> bool"
    by (code_simp; simp)
  then show ?thesis by (rule same_if)
qed

lemma mutex_demo_part_4:
  "app_run mutex_demo_config idle_ticks 40
     (app_at mutex_demo_places (mutex_demo_later 0 [0, 0, 0, 0] [0, 0, 0, 0] (replicate 9 255))
      [Running, Leaving, Leaving, Leaving] [54, 37, 17, 11]) =
   Inr ([(0, 40), (0, 41), (0, 42), (0, 43), (0, 45), (1, 14), (2, 16), (3, 12), (0, 47), (0, 49), (0, 51), (0, 53),
      (1, 16), (1, 18), (1, 20), (1, 22), (2, 18), (2, 20), (1, 24)],
     app_at mutex_demo_places (mutex_demo_later 0 [0, 0, 0, 0] [0, 0, 0, 0] (replicate 9 255))
      [Running, Leaving, Leaving, Leaving] [39, 25, 11, 9])"
  (is "?run = ?result")
proof -
  have "P ?run = P ?result" for P :: "failure + (nat \<times> int) list \<times> (nat \<times> int) app \<Rightarrow> bool"
    by (code_simp; simp)
  then show ?thesis by (rule same_if)
qed

lemma mutex_demo_part_5:
  "app_run mutex_demo_config idle_ticks 37
     (app_at mutex_demo_places (mutex_demo_later 0 [0, 0, 0, 0] [0, 0, 0, 0] (replicate 9 255))
      [Running, Leaving, Leaving, Leaving] [39, 25, 11, 9]) =
   Inr ([(0, 55), (0, 56), (0, 57), (0, 58), (0, 60), (1, 26), (2, 22), (3, 14), (1, 28), (3, 16), (0, 62), (0, 64),
      (1, 30), (1, 32), (2, 24), (2, 26), (1, 34)],
     app_at mutex_demo_places (mutex_demo_later 0 [0, 0, 0, 0] [0, 0, 0, 0] (replicate 9 255))
      [Running, Leaving, Leaving, Leaving] [28, 15, 5, 5])"
  (is "?run = ?result")
proof -
  have "P ?run = P ?result" for P :: "failure + (nat \<times> int) list \<times> (nat \<times> int) app \<Rightarrow> bool"
    by (code_simp; simp)
  then show ?thesis by (rule same_if)
qed

lemma mutex_demo_part_6:
  "app_run mutex_demo_config idle_ticks 29
     (app_at mutex_demo_places (mutex_demo_later 0 [0, 0, 0, 0] [0, 0, 0, 0] (replicate 9 255))
      [Running, Leaving, Leaving, Leaving] [28, 15, 5, 5]) =
   Inr ([(0, 66), (0, 67), (0, 68), (0, 69), (0, 71), (1, 36), (2, 28), (3, 18), (1, 38), (0, 73), (0, 75), (0, 77),
      (1, 40), (1, 42)],
     app_at mutex_demo_places (mutex_demo_later 3 [0, 1, 1, 1] [3, 2, 3, 3] [255, 255, 255, 255, 255, 255, 255, 1, 255])
      [Running, Leaving, In_Sleep (Sig_Blocked 2 1 255), In_Sleep (Sig_Blocked 3 1 255)] [15, 7, 4, 4])"
  (is "?run = ?result")
proof -
  have "P ?run = P ?result" for P :: "failure + (nat \<times> int) list \<times> (nat \<times> int) app \<Rightarrow> bool"
    by (code_simp; simp)
  then show ?thesis by (rule same_if)
qed

lemma mutex_demo_part_7:
  "app_run mutex_demo_config idle_ticks 32
     (app_at mutex_demo_places (mutex_demo_later 3 [0, 1, 1, 1] [3, 2, 3, 3] [255, 255, 255, 255, 255, 255, 255, 1, 255])
      [Running, Leaving, In_Sleep (Sig_Blocked 2 1 255), In_Sleep (Sig_Blocked 3 1 255)] [15, 7, 4, 4]) =
   Inr ([(0, 79), (0, 80), (0, 81), (0, 82), (0, 84), (1, 44), (2, 30), (3, 20), (0, 86), (0, 88), (1, 46), (0, 90),
      (1, 48), (0, 92), (0, 93)],
     app_at mutex_demo_places (mutex_demo_later 6 [0, 0, 1, 1] [6, 7, 6, 6] [255, 255, 255, 255, 255, 255, 255, 1, 0])
      [Running, Leaving, In_Sleep (Sig_Blocked 2 1 255), In_Sleep (Sig_Blocked 3 1 255)] [0, 1, 2, 2])"
  (is "?run = ?result")
proof -
  have "P ?run = P ?result" for P :: "failure + (nat \<times> int) list \<times> (nat \<times> int) app \<Rightarrow> bool"
    by (code_simp; simp)
  then show ?thesis by (rule same_if)
qed

text \<open>All lines, in the order in which they are printed.\<close>

definition mutex_demo_order :: "(nat \<times> int) list" where
  "mutex_demo_order =
    [(0, 0), (0, 1), (0, 2), (0, 3), (0, 5), (0, 7), (0, 9), (0, 11), (0, 13), (0, 14), (0, 15), (0, 16), (1, 0),
     (1, 2), (0, 18), (1, 4), (0, 20), (0, 22), (0, 23), (0, 24), (0, 25), (1, 6), (2, 0), (3, 0), (3, 2), (2, 2),
     (1, 8), (0, 27), (3, 4), (0, 29), (0, 31), (0, 32), (0, 33), (0, 34), (1, 10), (2, 4), (3, 6), (3, 8), (2, 6),
     (2, 8), (1, 12), (0, 36), (2, 10), (3, 10), (2, 12), (2, 14), (0, 38), (0, 40), (0, 41), (0, 42), (0, 43),
     (0, 45), (1, 14), (2, 16), (3, 12), (0, 47), (0, 49), (0, 51), (0, 53), (1, 16), (1, 18), (1, 20), (1, 22),
     (2, 18), (2, 20), (1, 24), (0, 55), (0, 56), (0, 57), (0, 58), (0, 60), (1, 26), (2, 22), (3, 14), (1, 28),
     (3, 16), (0, 62), (0, 64), (1, 30), (1, 32), (2, 24), (2, 26), (1, 34), (0, 66), (0, 67), (0, 68), (0, 69),
     (0, 71), (1, 36), (2, 28), (3, 18), (1, 38), (0, 73), (0, 75), (0, 77), (1, 40), (1, 42), (0, 79), (0, 80),
     (0, 81), (0, 82), (0, 84), (1, 44), (2, 30), (3, 20), (0, 86), (0, 88), (1, 46), (0, 90), (1, 48), (0, 92),
     (0, 93)]"

lemma mutex_demo_order_lines: "map (line_at mutex_demo_programs) mutex_demo_order = mutex_demo_lines"
  by code_simp

lemma mutex_demo_start: "app_start mutex_demo_kernel mutex_demo_places =
    app_at mutex_demo_places mutex_demo_kernel [Starting, Starting, Starting, Starting] [94, 51, 33, 23]"
  unfolding app_start_at by (simp add: mutex_demo_places_code numeral_eq_Suc)

definition mutex_demo_end :: "(nat \<times> int) app" where
  "mutex_demo_end =
     app_at mutex_demo_places (mutex_demo_later 6 [0, 0, 1, 1] [6, 7, 6, 6] [255, 255, 255, 255, 255, 255, 255, 1, 0])
      [Running, Leaving, In_Sleep (Sig_Blocked 2 1 255), In_Sleep (Sig_Blocked 3 1 255)] [0, 1, 2, 2]"

lemma mutex_demo_stopped: "app_run mutex_demo_config idle_ticks n mutex_demo_end = Inr ([], mutex_demo_end)"
  and mutex_demo_end: "k_current_task (a_kernel mutex_demo_end) = 0" "a_threads mutex_demo_end ! 0 = Running"
    "program_of mutex_demo_end 0 = []"
proof -
  show e: "k_current_task (a_kernel mutex_demo_end) = 0" "a_threads mutex_demo_end ! 0 = Running"
    "program_of mutex_demo_end 0 = []"
    by code_simp+
  then show "app_run mutex_demo_config idle_ticks n mutex_demo_end = Inr ([], mutex_demo_end)"
    by (intro app_run_stopped) simp_all
qed

lemma mutex_demo_run:
  "app_run mutex_demo_config idle_ticks (235 + n) (app_start mutex_demo_kernel mutex_demo_places) =
     Inr (mutex_demo_order, mutex_demo_end)"
proof -
  note parts = mutex_demo_part_0 mutex_demo_part_1 mutex_demo_part_2 mutex_demo_part_3 mutex_demo_part_4
    mutex_demo_part_5 mutex_demo_part_6 mutex_demo_part_7 [folded mutex_demo_end_def]
  have "app_run mutex_demo_config idle_ticks (14 + (18 + (29 + (36 + (40 + (37 + (29 + (32 + n))))))))
      (app_start mutex_demo_kernel mutex_demo_places) = Inr (mutex_demo_order, mutex_demo_end)"
    unfolding mutex_demo_start mutex_demo_order_def
    by (simp only: parts [THEN app_run_add] mutex_demo_stopped map_sum.simps apfst_conv append.simps id_apply append_Nil2)
  then show ?thesis by (simp add: add.assoc)
qed

text \<open>
  C21: The demonstration of mutexes prints what its documentation shows. The tasks \<open>fn_a\<close>, \<open>fn_b\<close>, \<open>fn_y\<close> and \<open>fn_z\<close> run
  on the modelled kernel, preemption included, where ticks come while all tasks wait. The lines printed are those
  of the manual, line by line, and none follows them: the last task that runs is at its end.
\<close>

theorem mutex_demo_output:
  "\<exists>d. app_run mutex_demo_config idle_ticks (235 + n) (app_start mutex_demo_kernel mutex_demo_programs) =
       Inr (mutex_demo_lines, d) \<and>
     k_current_task (a_kernel d) = 0 \<and> a_threads d ! 0 = Running \<and> program_of d 0 = []"
proof -
  let ?lines = "app_map (line_at mutex_demo_programs)"
  have "app_start mutex_demo_kernel mutex_demo_programs = ?lines (app_start mutex_demo_kernel mutex_demo_places)"
    by (simp add: mutex_demo_places_def line_at_places)
  then have "app_run mutex_demo_config idle_ticks (235 + n) (app_start mutex_demo_kernel mutex_demo_programs) =
      Inr (mutex_demo_lines, ?lines mutex_demo_end)"
    by (simp only: app_run_map mutex_demo_run mutex_demo_order_lines map_sum.simps map_prod_simp)
  then show ?thesis by (auto simp: mutex_demo_end)
qed

end
