(* ===== verification/Kochab_Sem_Demo.thy ===== *)
theory Kochab_Sem_Demo
  imports Kochab_Apps Debug_Output
begin

text \<open>
  The demonstration of semaphores (\<open>packages/rtos-example/sem-demo.c\<close>) on Kochab, and that it prints what
  \<open>packages/rtos-example/rtos-example-manual.md\<close> says it prints. Its tasks show how units are passed on, which of
  several waiting tasks gets one, how timeouts end, and that a semaphore cannot be posted beyond its maximum.
\<close>

section \<open>The tasks\<close>

text \<open>The identifiers that the configuration gives to the first task, the semaphores and the signal.\<close>

record sem_demo_ids =
  RTOS_TASK_ID_A_sem :: u8
  RTOS_SEM_ID_SEM0 :: u8
  RTOS_SEM_ID_SEM1 :: u8
  RTOS_SEM_ID_SEM2 :: u8
  RTOS_SEM_ID_SEM3 :: u8
  RTOS_SEM_ID_SEM4 :: u8
  RTOS_SEM_ID_SEM5 :: u8
  RTOS_SIGNAL_ID_DEMO_HELPER :: u8

definition DEMO_PRODUCTION_LIMIT :: u8 where
  "DEMO_PRODUCTION_LIMIT = 10"

definition PART_3_SLEEP :: u16 where
  "PART_3_SLEEP = 3"

definition PART_4_SLEEP :: u16 where
  "PART_4_SLEEP = 3"

definition fn_a_sem :: "sem_demo_ids \<Rightarrow> string app_stmt list" where
  "fn_a_sem i =
    [Say '''',
     Say ''Part 0: Solo'',
     Say '''',
     Say ''a: initializing maximum'',
     Do (Sem_Max_Init (RTOS_SEM_ID_SEM0 i) DEMO_PRODUCTION_LIMIT),
     Say ''a: V'',
     Do (Sem_Post (RTOS_SEM_ID_SEM0 i)),
     Say ''a: P (should succeed)'',
     Do (Sem_Wait (RTOS_SEM_ID_SEM0 i)),
     Say ''a: trying P (should fail)'',
     Say_If True (Sem_Try_Wait (RTOS_SEM_ID_SEM0 i)) ''a: P try unexpectedly succeeded!'',
     Say ''a: V'',
     Do (Sem_Post (RTOS_SEM_ID_SEM0 i)),
     Say ''a: trying P (should succeed)'',
     Say_If False (Sem_Try_Wait (RTOS_SEM_ID_SEM0 i)) ''a: P try unexpectedly failed!'',
     Say '''',
     Say ''Part 1: B unblocks A'',
     Say '''',
     Say ''a: initializing maximum'',
     Do (Sem_Max_Init (RTOS_SEM_ID_SEM1 i) DEMO_PRODUCTION_LIMIT),
     Say ''a: P (should block)'',
     Do (Sem_Wait (RTOS_SEM_ID_SEM1 i)),
     Say ''a: now runnable'',
     Say ''a: consuming...''] @
    concat (replicate (unat DEMO_PRODUCTION_LIMIT) [Say ''a: P'', Do (Sem_Wait (RTOS_SEM_ID_SEM1 i))]) @
    [Say ''a: trying P (should fail)'',
     Say_If True (Sem_Try_Wait (RTOS_SEM_ID_SEM1 i)) ''a: P try unexpectedly succeeded!'',
     Say ''a: waiting on signal'',
     Do (Signal_Wait (RTOS_SIGNAL_ID_DEMO_HELPER i)),
     Say ''a: consuming...''] @
    concat (replicate (unat DEMO_PRODUCTION_LIMIT) [Say ''a: P'', Do (Sem_Wait (RTOS_SEM_ID_SEM1 i))]) @
    [Say ''a: trying P (should fail)'',
     Say_If True (Sem_Try_Wait (RTOS_SEM_ID_SEM1 i)) ''a: P try unexpectedly succeeded!'',
     Say '''',
     Say ''Part 2: A and B compete'',
     Say '''',
     Say ''a: initializing maximum'',
     Do (Sem_Max_Init (RTOS_SEM_ID_SEM2 i) DEMO_PRODUCTION_LIMIT),
     Say ''a: P (should block)'',
     Do (Sem_Wait (RTOS_SEM_ID_SEM2 i)),
     Say ''a: should wake up before b. P (should block)'',
     Do (Sem_Wait (RTOS_SEM_ID_SEM2 i)),
     Say ''a: should again wake up before b. waiting on signal'',
     Do (Signal_Wait (RTOS_SIGNAL_ID_DEMO_HELPER i)),
     Say '''',
     Say ''Part 3: A's wait attempt times out'',
     Say '''',
     Say ''a: initializing maximum'',
     Do (Sem_Max_Init (RTOS_SEM_ID_SEM3 i) DEMO_PRODUCTION_LIMIT),
     Say ''a: P (should time out)'',
     Say_If True (Sem_Wait_Timeout (RTOS_SEM_ID_SEM3 i) (PART_3_SLEEP - 1)) ''a: P unexpectedly succeeded before timeout!'',
     Say ''a: waiting on signal'',
     Do (Signal_Wait (RTOS_SIGNAL_ID_DEMO_HELPER i)),
     Say ''a: trying P (should succeed)'',
     Say_If False (Sem_Try_Wait (RTOS_SEM_ID_SEM3 i)) ''a: P try unexpectedly failed!'',
     Say '''',
     Say ''Part 4: A's wait returns before timeout'',
     Say '''',
     Say ''a: initializing maximum'',
     Do (Sem_Max_Init (RTOS_SEM_ID_SEM4 i) DEMO_PRODUCTION_LIMIT),
     Say ''a: P (should succeed before timeout)'',
     Say_If False (Sem_Wait_Timeout (RTOS_SEM_ID_SEM4 i) (PART_4_SLEEP + 1)) ''a: P unexpectedly timed out!'',
     Say '''',
     Say ''Part 5: A posts past maximum and triggers fatal error'',
     Say '''',
     Say ''a: initializing maximum'',
     Do (Sem_Max_Init (RTOS_SEM_ID_SEM5 i) DEMO_PRODUCTION_LIMIT)] @
    concat (replicate (unat DEMO_PRODUCTION_LIMIT) [Say ''a: P'', Do (Sem_Post (RTOS_SEM_ID_SEM5 i))]) @
    [Say ''a: trying P (should trigger fatal error)'',
     Do (Sem_Post (RTOS_SEM_ID_SEM5 i)),
     Say ''a: shouldn't be here!'']"

definition fn_b_sem :: "sem_demo_ids \<Rightarrow> string app_stmt list" where
  "fn_b_sem i =
    [Say ''b: V (should unblock a)'',
     Do (Sem_Post (RTOS_SEM_ID_SEM1 i)),
     Say ''b: producing while a consumes...''] @
    concat (replicate (unat DEMO_PRODUCTION_LIMIT) [Say ''b: V'', Do (Sem_Post (RTOS_SEM_ID_SEM1 i))]) @
    [Say ''b: producing while a is blocked...''] @
    concat (replicate (unat DEMO_PRODUCTION_LIMIT) [Say ''b: V'', Do (Sem_Post (RTOS_SEM_ID_SEM1 i))]) @
    [Say ''b: sending signal to a'',
     Do (Signal_Send (RTOS_TASK_ID_A_sem i) (RTOS_SIGNAL_ID_DEMO_HELPER i)),
     Say ''b: P (should block)'',
     Do (Sem_Wait (RTOS_SEM_ID_SEM2 i)),
     Say ''b: finally awake. sending signal to a'',
     Do (Signal_Send (RTOS_TASK_ID_A_sem i) (RTOS_SIGNAL_ID_DEMO_HELPER i)),
     Say ''b: sleeping'',
     Do (Sleep PART_3_SLEEP),
     Say ''b: V (should not unblock a)'',
     Do (Sem_Post (RTOS_SEM_ID_SEM3 i)),
     Say ''b: sending signal to a'',
     Do (Signal_Send (RTOS_TASK_ID_A_sem i) (RTOS_SIGNAL_ID_DEMO_HELPER i)),
     Say ''b: sleeping'',
     Do (Sleep PART_4_SLEEP),
     Say ''b: V (should unblock a)'',
     Do (Sem_Post (RTOS_SEM_ID_SEM4 i)),
     Say ''b: shouldn't be here!'']"

definition fn_z_sem :: "sem_demo_ids \<Rightarrow> string app_stmt list" where
  "fn_z_sem i =
    [Say ''z: V'',
     Do (Sem_Post (RTOS_SEM_ID_SEM2 i)),
     Say ''z: V'',
     Do (Sem_Post (RTOS_SEM_ID_SEM2 i)),
     Say ''z: V'',
     Do (Sem_Post (RTOS_SEM_ID_SEM2 i)),
     Say ''z: sleeping'',
     Do (Sleep PART_3_SLEEP),
     Say ''z: sleeping'',
     Do (Sleep PART_4_SLEEP),
     Say ''z: shouldn't be here!'']"

text \<open>What \<open>fatal\<close> prints for an error, before it loops forever.\<close>

definition fatal_sem :: "u8 \<Rightarrow> string" where
  "fatal_sem error_id = ''FATAL ERROR: '' @
     (case debug_printhex32 record_char (ucast error_id) [] of Inl _ \<Rightarrow> [] | Inr (_, out) \<Rightarrow> map (\<lambda>b. char_of (unat b)) out)"

section \<open>What it prints\<close>

text \<open>The configuration, and the state of the kernel when the first task is started.\<close>

definition sem_demo_config :: config where
  "sem_demo_config = preemptive ((config_example 3)
     \<lparr>semaphore_enable_max := True, SIGNAL_ID__TASK_TIMER := 1, SIGNAL_ID__RTOS_UTIL := 0\<rparr>)"

definition sem_demo_ids_example :: sem_demo_ids where
  "sem_demo_ids_example =
     \<lparr>RTOS_TASK_ID_A_sem = 0, RTOS_SEM_ID_SEM0 = 0, RTOS_SEM_ID_SEM1 = 1, RTOS_SEM_ID_SEM2 = 2, RTOS_SEM_ID_SEM3 = 3,
      RTOS_SEM_ID_SEM4 = 4, RTOS_SEM_ID_SEM5 = 5, RTOS_SIGNAL_ID_DEMO_HELPER = 2\<rparr>"

definition sem_demo_programs :: "string app_stmt list list" where
  "sem_demo_programs = map (\<lambda>f. f sem_demo_ids_example) [fn_a_sem, fn_b_sem, fn_z_sem]"

definition sem_demo_kernel :: "pi_sched ppc_kernel" where
  "sem_demo_kernel = kochab_example\<lparr>k_current_task := 0, k_preempt_disabled := True, k_sched := pi_example [0, 1, 2],
     k_signal_tasks := replicate 3 \<lparr>sig_signals = 0\<rparr>, k_timer_current_ticks := 0,
     k_timers := map (\<lambda>t. (kochab_timer t)\<lparr>tm_signal_set := 1\<rparr>) [0, 1, 2], k_task_timers := [0, 1, 2],
     k_interrupt_events := [], k_mutexes := [], k_mutex_stats := [],
     k_semaphores := replicate 6 \<lparr>sem_value = 0, sem_max = 0\<rparr>, k_sem_waiters := replicate 3 255, k_contexts := replicate 3 900\<rparr>"

text \<open>The lines that the manual shows.\<close>

definition sem_demo_lines :: "string list" where
  "sem_demo_lines =
    ['''', ''Part 0: Solo'', '''', ''a: initializing maximum'', ''a: V'', ''a: P (should succeed)'',
     ''a: trying P (should fail)'', ''a: V'', ''a: trying P (should succeed)'', '''', ''Part 1: B unblocks A'',
     '''', ''a: initializing maximum'', ''a: P (should block)'', ''b: V (should unblock a)'', ''a: now runnable'',
     ''a: consuming...'', ''a: P'', ''b: producing while a consumes...'', ''b: V'', ''a: P'', ''b: V'', ''a: P'',
     ''b: V'', ''a: P'', ''b: V'', ''a: P'', ''b: V'', ''a: P'', ''b: V'', ''a: P'', ''b: V'', ''a: P'', ''b: V'',
     ''a: P'', ''b: V'', ''a: P'', ''b: V'', ''a: trying P (should fail)'', ''a: waiting on signal'',
     ''b: producing while a is blocked...'', ''b: V'', ''b: V'', ''b: V'', ''b: V'', ''b: V'', ''b: V'', ''b: V'',
     ''b: V'', ''b: V'', ''b: V'', ''b: sending signal to a'', ''a: consuming...'', ''a: P'', ''a: P'', ''a: P'',
     ''a: P'', ''a: P'', ''a: P'', ''a: P'', ''a: P'', ''a: P'', ''a: P'', ''a: trying P (should fail)'', '''',
     ''Part 2: A and B compete'', '''', ''a: initializing maximum'', ''a: P (should block)'',
     ''b: P (should block)'', ''z: V'', ''a: should wake up before b. P (should block)'', ''z: V'',
     ''a: should again wake up before b. waiting on signal'', ''z: V'', ''b: finally awake. sending signal to a'',
     '''', ''Part 3: A's wait attempt times out'', '''', ''a: initializing maximum'', ''a: P (should time out)'',
     ''b: sleeping'', ''z: sleeping'', ''a: waiting on signal'', ''b: V (should not unblock a)'',
     ''b: sending signal to a'', ''a: trying P (should succeed)'', '''',
     ''Part 4: A's wait returns before timeout'', '''', ''a: initializing maximum'',
     ''a: P (should succeed before timeout)'', ''b: sleeping'', ''z: sleeping'', ''b: V (should unblock a)'', '''',
     ''Part 5: A posts past maximum and triggers fatal error'', '''', ''a: initializing maximum'', ''a: P'',
     ''a: P'', ''a: P'', ''a: P'', ''a: P'', ''a: P'', ''a: P'', ''a: P'', ''a: P'', ''a: P'',
     ''a: trying P (should trigger fatal error)'']"

section \<open>The run, piece by piece\<close>

text \<open>The run is computed with the places of the lines.\<close>

definition sem_demo_places :: "(nat \<times> int) app_stmt list list" where
  "sem_demo_places = places sem_demo_programs"

lemma sem_demo_places_code [code]:
  "sem_demo_places =
    [[Say (0, 0), Say (0, 1), Say (0, 2), Say (0, 3), Do (Sem_Max_Init 0 10), Say (0, 5), Do (Sem_Post 0),
      Say (0, 7), Do (Sem_Wait 0), Say (0, 9), Say_If True (Sem_Try_Wait 0) (0, 10), Say (0, 11), Do (Sem_Post 0),
      Say (0, 13), Say_If False (Sem_Try_Wait 0) (0, 14), Say (0, 15), Say (0, 16), Say (0, 17), Say (0, 18),
      Do (Sem_Max_Init 1 10), Say (0, 20), Do (Sem_Wait 1), Say (0, 22), Say (0, 23), Say (0, 24), Do (Sem_Wait 1),
      Say (0, 26), Do (Sem_Wait 1), Say (0, 28), Do (Sem_Wait 1), Say (0, 30), Do (Sem_Wait 1), Say (0, 32),
      Do (Sem_Wait 1), Say (0, 34), Do (Sem_Wait 1), Say (0, 36), Do (Sem_Wait 1), Say (0, 38), Do (Sem_Wait 1),
      Say (0, 40), Do (Sem_Wait 1), Say (0, 42), Do (Sem_Wait 1), Say (0, 44), Say_If True (Sem_Try_Wait 1) (0, 45),
      Say (0, 46), Do (Signal_Wait 2), Say (0, 48), Say (0, 49), Do (Sem_Wait 1), Say (0, 51), Do (Sem_Wait 1),
      Say (0, 53), Do (Sem_Wait 1), Say (0, 55), Do (Sem_Wait 1), Say (0, 57), Do (Sem_Wait 1), Say (0, 59),
      Do (Sem_Wait 1), Say (0, 61), Do (Sem_Wait 1), Say (0, 63), Do (Sem_Wait 1), Say (0, 65), Do (Sem_Wait 1),
      Say (0, 67), Do (Sem_Wait 1), Say (0, 69), Say_If True (Sem_Try_Wait 1) (0, 70), Say (0, 71), Say (0, 72),
      Say (0, 73), Say (0, 74), Do (Sem_Max_Init 2 10), Say (0, 76), Do (Sem_Wait 2), Say (0, 78), Do (Sem_Wait 2),
      Say (0, 80), Do (Signal_Wait 2), Say (0, 82), Say (0, 83), Say (0, 84), Say (0, 85), Do (Sem_Max_Init 3 10),
      Say (0, 87), Say_If True (Sem_Wait_Timeout 3 2) (0, 88), Say (0, 89), Do (Signal_Wait 2), Say (0, 91),
      Say_If False (Sem_Try_Wait 3) (0, 92), Say (0, 93), Say (0, 94), Say (0, 95), Say (0, 96),
      Do (Sem_Max_Init 4 10), Say (0, 98), Say_If False (Sem_Wait_Timeout 4 4) (0, 99), Say (0, 100), Say (0, 101),
      Say (0, 102), Say (0, 103), Do (Sem_Max_Init 5 10), Say (0, 105), Do (Sem_Post 5), Say (0, 107),
      Do (Sem_Post 5), Say (0, 109), Do (Sem_Post 5), Say (0, 111), Do (Sem_Post 5), Say (0, 113), Do (Sem_Post 5),
      Say (0, 115), Do (Sem_Post 5), Say (0, 117), Do (Sem_Post 5), Say (0, 119), Do (Sem_Post 5), Say (0, 121),
      Do (Sem_Post 5), Say (0, 123), Do (Sem_Post 5), Say (0, 125), Do (Sem_Post 5), Say (0, 127)],
     [Say (1, 0), Do (Sem_Post 1), Say (1, 2), Say (1, 3), Do (Sem_Post 1), Say (1, 5), Do (Sem_Post 1), Say (1, 7),
      Do (Sem_Post 1), Say (1, 9), Do (Sem_Post 1), Say (1, 11), Do (Sem_Post 1), Say (1, 13), Do (Sem_Post 1),
      Say (1, 15), Do (Sem_Post 1), Say (1, 17), Do (Sem_Post 1), Say (1, 19), Do (Sem_Post 1), Say (1, 21),
      Do (Sem_Post 1), Say (1, 23), Say (1, 24), Do (Sem_Post 1), Say (1, 26), Do (Sem_Post 1), Say (1, 28),
      Do (Sem_Post 1), Say (1, 30), Do (Sem_Post 1), Say (1, 32), Do (Sem_Post 1), Say (1, 34), Do (Sem_Post 1),
      Say (1, 36), Do (Sem_Post 1), Say (1, 38), Do (Sem_Post 1), Say (1, 40), Do (Sem_Post 1), Say (1, 42),
      Do (Sem_Post 1), Say (1, 44), Do (Signal_Send 0 2), Say (1, 46), Do (Sem_Wait 2), Say (1, 48),
      Do (Signal_Send 0 2), Say (1, 50), Do (Sleep 3), Say (1, 52), Do (Sem_Post 3), Say (1, 54),
      Do (Signal_Send 0 2), Say (1, 56), Do (Sleep 3), Say (1, 58), Do (Sem_Post 4), Say (1, 60)],
     [Say (2, 0), Do (Sem_Post 2), Say (2, 2), Do (Sem_Post 2), Say (2, 4), Do (Sem_Post 2), Say (2, 6),
      Do (Sleep 3), Say (2, 8), Do (Sleep 3), Say (2, 10)]]"
  by code_simp

text \<open>
  At the beginning of each part, no task is blocked on another, and the first task runs. Only time, the
  pending signals, the timers, the semaphores and their waiters may have changed since the start.
\<close>

definition sem_demo_later :: "u32 \<Rightarrow> u8 list \<Rightarrow> u16 list \<Rightarrow> (u8 \<times> u8) list \<Rightarrow> pi_sched ppc_kernel" where
  "sem_demo_later ticks signals expiries semaphores = sem_demo_kernel\<lparr>k_preempt_disabled := False,
     k_signal_tasks := map signal_task.make signals, k_timer_current_ticks := ticks,
     k_timers := map2 (\<lambda>t expiry. (kochab_timer t)\<lparr>tm_signal_set := 1, tm_expiry := expiry\<rparr>) [0, 1, 2] expiries,
     k_semaphores := map (\<lambda>(v, m). \<lparr>sem_value = v, sem_max = m\<rparr>) semaphores\<rparr>"

lemma sem_demo_part_0:
  "app_run sem_demo_config idle_ticks 16
     (app_at sem_demo_places sem_demo_kernel
      [Starting, Starting, Starting] [128, 61, 11]) =
   Inr ([(0, 0), (0, 1), (0, 2), (0, 3), (0, 5), (0, 7), (0, 9), (0, 11), (0, 13)],
     app_at sem_demo_places (sem_demo_later 0 [0, 0, 0] [0, 0, 0]
        [(0, 10), (0, 0), (0, 0), (0, 0), (0, 0), (0, 0)])
      [Running, Starting, Starting] [113, 61, 11])"
  (is "?run = ?result")
proof -
  have "P ?run = P ?result" for P :: "failure + (nat \<times> int) list \<times> (nat \<times> int) app \<Rightarrow> bool"
    by (code_simp; simp)
  then show ?thesis by (rule same_if)
qed

lemma sem_demo_part_1:
  "app_run sem_demo_config idle_ticks 29
     (app_at sem_demo_places (sem_demo_later 0 [0, 0, 0] [0, 0, 0]
        [(0, 10), (0, 0), (0, 0), (0, 0), (0, 0), (0, 0)])
      [Running, Starting, Starting] [113, 61, 11]) =
   Inr ([(0, 15), (0, 16), (0, 17), (0, 18), (0, 20), (1, 0), (0, 22), (0, 23), (0, 24), (1, 2), (1, 3), (0, 26),
      (1, 5), (0, 28), (1, 7)],
     app_at sem_demo_places (sem_demo_later 0 [0, 0, 0] [0, 0, 0]
        [(0, 10), (0, 10), (0, 0), (0, 0), (0, 0), (0, 0)])
      [Running, Leaving, Starting] [98, 52, 11])"
  (is "?run = ?result")
proof -
  have "P ?run = P ?result" for P :: "failure + (nat \<times> int) list \<times> (nat \<times> int) app \<Rightarrow> bool"
    by (code_simp; simp)
  then show ?thesis by (rule same_if)
qed

lemma sem_demo_part_2:
  "app_run sem_demo_config idle_ticks 25
     (app_at sem_demo_places (sem_demo_later 0 [0, 0, 0] [0, 0, 0]
        [(0, 10), (0, 10), (0, 0), (0, 0), (0, 0), (0, 0)])
      [Running, Leaving, Starting] [98, 52, 11]) =
   Inr ([(0, 30), (1, 9), (0, 32), (1, 11), (0, 34), (1, 13), (0, 36), (1, 15), (0, 38), (1, 17)],
     app_at sem_demo_places (sem_demo_later 0 [0, 0, 0] [0, 0, 0]
        [(0, 10), (0, 10), (0, 0), (0, 0), (0, 0), (0, 0)])
      [Running, Leaving, Starting] [88, 42, 11])"
  (is "?run = ?result")
proof -
  have "P ?run = P ?result" for P :: "failure + (nat \<times> int) list \<times> (nat \<times> int) app \<Rightarrow> bool"
    by (code_simp; simp)
  then show ?thesis by (rule same_if)
qed

lemma sem_demo_part_3:
  "app_run sem_demo_config idle_ticks 38
     (app_at sem_demo_places (sem_demo_later 0 [0, 0, 0] [0, 0, 0]
        [(0, 10), (0, 10), (0, 0), (0, 0), (0, 0), (0, 0)])
      [Running, Leaving, Starting] [88, 42, 11]) =
   Inr ([(0, 40), (1, 19), (0, 42), (1, 21), (0, 44), (0, 46), (1, 23), (1, 24), (1, 26), (1, 28), (1, 30), (1, 32),
      (1, 34), (1, 36), (1, 38), (1, 40), (1, 42), (1, 44)],
     app_at sem_demo_places (sem_demo_later 0 [0, 0, 0] [0, 0, 0]
        [(0, 10), (10, 10), (0, 0), (0, 0), (0, 0), (0, 0)])
      [Running, Leaving, Starting] [80, 15, 11])"
  (is "?run = ?result")
proof -
  have "P ?run = P ?result" for P :: "failure + (nat \<times> int) list \<times> (nat \<times> int) app \<Rightarrow> bool"
    by (code_simp; simp)
  then show ?thesis by (rule same_if)
qed

lemma sem_demo_part_4:
  "app_run sem_demo_config idle_ticks 23
     (app_at sem_demo_places (sem_demo_later 0 [0, 0, 0] [0, 0, 0]
        [(0, 10), (10, 10), (0, 0), (0, 0), (0, 0), (0, 0)])
      [Running, Leaving, Starting] [80, 15, 11]) =
   Inr ([(0, 48), (0, 49), (0, 51), (0, 53), (0, 55), (0, 57), (0, 59), (0, 61), (0, 63), (0, 65), (0, 67), (0, 69)],
     app_at sem_demo_places (sem_demo_later 0 [0, 0, 0] [0, 0, 0]
        [(0, 10), (0, 10), (0, 0), (0, 0), (0, 0), (0, 0)])
      [Running, Leaving, Starting] [57, 15, 11])"
  (is "?run = ?result")
proof -
  have "P ?run = P ?result" for P :: "failure + (nat \<times> int) list \<times> (nat \<times> int) app \<Rightarrow> bool"
    by (code_simp; simp)
  then show ?thesis by (rule same_if)
qed

lemma sem_demo_part_5:
  "app_run sem_demo_config idle_ticks 28
     (app_at sem_demo_places (sem_demo_later 0 [0, 0, 0] [0, 0, 0]
        [(0, 10), (0, 10), (0, 0), (0, 0), (0, 0), (0, 0)])
      [Running, Leaving, Starting] [57, 15, 11]) =
   Inr ([(0, 71), (0, 72), (0, 73), (0, 74), (0, 76), (1, 46), (2, 0), (0, 78), (2, 2), (0, 80), (2, 4), (1, 48)],
     app_at sem_demo_places (sem_demo_later 0 [0, 0, 0] [0, 0, 0]
        [(0, 10), (0, 10), (0, 10), (0, 0), (0, 0), (0, 0)])
      [Running, Leaving, Leaving] [46, 11, 5])"
  (is "?run = ?result")
proof -
  have "P ?run = P ?result" for P :: "failure + (nat \<times> int) list \<times> (nat \<times> int) app \<Rightarrow> bool"
    by (code_simp; simp)
  then show ?thesis by (rule same_if)
qed

lemma sem_demo_part_6:
  "app_run sem_demo_config idle_ticks 23
     (app_at sem_demo_places (sem_demo_later 0 [0, 0, 0] [0, 0, 0]
        [(0, 10), (0, 10), (0, 10), (0, 0), (0, 0), (0, 0)])
      [Running, Leaving, Leaving] [46, 11, 5]) =
   Inr ([(0, 82), (0, 83), (0, 84), (0, 85), (0, 87), (1, 50), (2, 6), (0, 89), (1, 52), (1, 54), (0, 91)],
     app_at sem_demo_places (sem_demo_later 3 [1, 0, 1] [2, 3, 3]
        [(0, 10), (0, 10), (0, 10), (0, 10), (0, 0), (0, 0)])
      [Running, Leaving, In_Sleep (Sig_Blocked 2 1 255)] [35, 5, 4])"
  (is "?run = ?result")
proof -
  have "P ?run = P ?result" for P :: "failure + (nat \<times> int) list \<times> (nat \<times> int) app \<Rightarrow> bool"
    by (code_simp; simp)
  then show ?thesis by (rule same_if)
qed

lemma sem_demo_part_7:
  "app_run sem_demo_config idle_ticks 21
     (app_at sem_demo_places (sem_demo_later 3 [1, 0, 1] [2, 3, 3]
        [(0, 10), (0, 10), (0, 10), (0, 10), (0, 0), (0, 0)])
      [Running, Leaving, In_Sleep (Sig_Blocked 2 1 255)] [35, 5, 4]) =
   Inr ([(0, 93), (0, 94), (0, 95), (0, 96), (0, 98), (1, 56), (2, 8), (1, 58), (0, 100), (0, 101), (0, 102), (0, 103)],
     app_at sem_demo_places (sem_demo_later 6 [0, 0, 1] [7, 6, 6]
        [(0, 10), (0, 10), (0, 10), (0, 10), (0, 10), (0, 0)])
      [Running, Leaving, In_Sleep (Sig_Blocked 2 1 255)] [24, 1, 2])"
  (is "?run = ?result")
proof -
  have "P ?run = P ?result" for P :: "failure + (nat \<times> int) list \<times> (nat \<times> int) app \<Rightarrow> bool"
    by (code_simp; simp)
  then show ?thesis by (rule same_if)
qed

lemma sem_demo_part_8:
  "app_run sem_demo_config idle_ticks 22
     (app_at sem_demo_places (sem_demo_later 6 [0, 0, 1] [7, 6, 6]
        [(0, 10), (0, 10), (0, 10), (0, 10), (0, 10), (0, 0)])
      [Running, Leaving, In_Sleep (Sig_Blocked 2 1 255)] [24, 1, 2]) =
   Inr ([(0, 105), (0, 107), (0, 109), (0, 111), (0, 113), (0, 115), (0, 117), (0, 119), (0, 121), (0, 123), (0, 125)],
     app_at sem_demo_places (sem_demo_later 6 [0, 0, 1] [7, 6, 6]
        [(0, 10), (0, 10), (0, 10), (0, 10), (0, 10), (10, 10)])
      [Running, Leaving, In_Sleep (Sig_Blocked 2 1 255)] [2, 1, 2])"
  (is "?run = ?result")
proof -
  have "P ?run = P ?result" for P :: "failure + (nat \<times> int) list \<times> (nat \<times> int) app \<Rightarrow> bool"
    by (code_simp; simp)
  then show ?thesis by (rule same_if)
qed

text \<open>All lines, in the order in which they are printed.\<close>

definition sem_demo_order :: "(nat \<times> int) list" where
  "sem_demo_order =
    [(0, 0), (0, 1), (0, 2), (0, 3), (0, 5), (0, 7), (0, 9), (0, 11), (0, 13), (0, 15), (0, 16), (0, 17), (0, 18),
     (0, 20), (1, 0), (0, 22), (0, 23), (0, 24), (1, 2), (1, 3), (0, 26), (1, 5), (0, 28), (1, 7), (0, 30), (1, 9),
     (0, 32), (1, 11), (0, 34), (1, 13), (0, 36), (1, 15), (0, 38), (1, 17), (0, 40), (1, 19), (0, 42), (1, 21),
     (0, 44), (0, 46), (1, 23), (1, 24), (1, 26), (1, 28), (1, 30), (1, 32), (1, 34), (1, 36), (1, 38), (1, 40),
     (1, 42), (1, 44), (0, 48), (0, 49), (0, 51), (0, 53), (0, 55), (0, 57), (0, 59), (0, 61), (0, 63), (0, 65),
     (0, 67), (0, 69), (0, 71), (0, 72), (0, 73), (0, 74), (0, 76), (1, 46), (2, 0), (0, 78), (2, 2), (0, 80),
     (2, 4), (1, 48), (0, 82), (0, 83), (0, 84), (0, 85), (0, 87), (1, 50), (2, 6), (0, 89), (1, 52), (1, 54),
     (0, 91), (0, 93), (0, 94), (0, 95), (0, 96), (0, 98), (1, 56), (2, 8), (1, 58), (0, 100), (0, 101), (0, 102),
     (0, 103), (0, 105), (0, 107), (0, 109), (0, 111), (0, 113), (0, 115), (0, 117), (0, 119), (0, 121), (0, 123),
     (0, 125)]"

lemma sem_demo_order_lines: "map (line_at sem_demo_programs) sem_demo_order = sem_demo_lines"
  by code_simp

lemma sem_demo_start: "app_start sem_demo_kernel sem_demo_places =
    app_at sem_demo_places sem_demo_kernel [Starting, Starting, Starting] [128, 61, 11]"
  unfolding app_start_at by (simp add: sem_demo_places_code numeral_eq_Suc)

definition sem_demo_end :: "(nat \<times> int) app" where
  "sem_demo_end =
     app_at sem_demo_places (sem_demo_later 6 [0, 0, 1] [7, 6, 6]
           [(0, 10), (0, 10), (0, 10), (0, 10), (0, 10), (10, 10)])
         [Running, Leaving, In_Sleep (Sig_Blocked 2 1 255)] [2, 1, 2]"

lemma sem_demo_fails: "app_turn sem_demo_config idle_ticks sem_demo_end = Inl (Fatal ERROR_ID_SEMAPHORE_MAX_EXCEEDED)"
proof -
  have "case app_turn sem_demo_config idle_ticks sem_demo_end of Inl e \<Rightarrow> e = Fatal ERROR_ID_SEMAPHORE_MAX_EXCEEDED | Inr _ \<Rightarrow> False"
    by code_simp
  then show ?thesis by (simp split: sum.splits)
qed

lemma sem_demo_run:
  "app_run sem_demo_config idle_ticks 225 (app_start sem_demo_kernel sem_demo_places) = Inr (sem_demo_order, sem_demo_end)"
proof -
  note parts = sem_demo_part_0
    sem_demo_part_1
    sem_demo_part_2
    sem_demo_part_3
    sem_demo_part_4
    sem_demo_part_5
    sem_demo_part_6
    sem_demo_part_7
    sem_demo_part_8 [folded sem_demo_end_def]
  have "app_run sem_demo_config idle_ticks (16 + (29 + (25 + (38 + (23 + (28 + (23 + (21 + (22 + 0)))))))))
      (app_start sem_demo_kernel sem_demo_places) = Inr (sem_demo_order, sem_demo_end)"
    unfolding sem_demo_start sem_demo_order_def
    by (simp only: parts [THEN app_run_add] app_run.simps map_sum.simps apfst_conv append.simps id_apply append_Nil2)
  then show ?thesis by simp
qed

text \<open>
  C22: The demonstration of semaphores prints what its documentation shows. The tasks \<open>fn_a\<close>, \<open>fn_b\<close> and \<open>fn_z\<close> run on
  the modelled kernel, preemption included, where ticks come while all tasks wait. The lines printed are those of the
  manual, line by line, and then the run ends with the fatal error of a post beyond the maximum, whose identifier is
  printed last.
\<close>

theorem sem_demo_output:
  "\<exists>d. app_run sem_demo_config idle_ticks 225 (app_start sem_demo_kernel sem_demo_programs) = Inr (sem_demo_lines, d) \<and>
     app_turn sem_demo_config idle_ticks d = Inl (Fatal ERROR_ID_SEMAPHORE_MAX_EXCEEDED) \<and>
     fatal_sem ERROR_ID_SEMAPHORE_MAX_EXCEEDED = ''FATAL ERROR: 0x0000001c''"
proof -
  let ?lines = "app_map (line_at sem_demo_programs)"
  have "app_start sem_demo_kernel sem_demo_programs = ?lines (app_start sem_demo_kernel sem_demo_places)"
    by (simp add: sem_demo_places_def line_at_places)
  then have "app_run sem_demo_config idle_ticks 225 (app_start sem_demo_kernel sem_demo_programs) =
      Inr (sem_demo_lines, ?lines sem_demo_end)"
    by (simp only: app_run_map sem_demo_run sem_demo_order_lines map_sum.simps map_prod_simp)
  moreover have "app_turn sem_demo_config idle_ticks (?lines sem_demo_end) = Inl (Fatal ERROR_ID_SEMAPHORE_MAX_EXCEEDED)"
    by (simp add: app_turn_map sem_demo_fails)
  moreover have "fatal_sem ERROR_ID_SEMAPHORE_MAX_EXCEEDED = ''FATAL ERROR: 0x0000001c''" by code_simp
  ultimately show ?thesis by blast
qed

end
